(* ===== verification/Prelude.thy ===== *)
theory Prelude
  imports Main "HOL-Library.Word" "HOL-Library.Monad_Syntax"
begin

text \<open>
  Shared vocabulary of the development: the machine integers of the 32-bit target, the
  rounding macros of \<open>inc/types.h\<close>, linked free lists threaded through an array (used by
  the page allocator and by the environment table), and the lemma collections that the
  component theories extend.

  Conventions.  A function of the kernel that may call \<open>panic\<close> or follow a pointer outside
  its array returns an option: \<open>None\<close> is the panic or the fault, \<open>Some (r, s)\<close> the result
  and the new state.  Error codes that the source returns as negative integers stay integers.
\<close>

unbundle bit_operations_syntax

type_synonym u8 = "8 word"
type_synonym u16 = "16 word"
type_synonym u32 = "32 word"

named_theorems mmu_consts \<open>constants of inc/mmu.h, inc/memlayout.h and inc/env.h\<close>
named_theorems err_consts \<open>error codes of inc/error.h\<close>
named_theorems state_simps \<open>projections of the state after an update\<close>

section \<open>Rounding (inc/types.h)\<close>

definition ROUNDDOWN :: "u32 \<Rightarrow> u32 \<Rightarrow> u32" where
  "ROUNDDOWN a n = a - a mod n"

definition ROUNDUP :: "u32 \<Rightarrow> u32 \<Rightarrow> u32" where
  "ROUNDUP a n = ROUNDDOWN (a + n - 1) n"

lemma unat_ROUNDDOWN: "unat (ROUNDDOWN a n) = unat a - unat a mod unat n"
proof -
  have "a mod n \<le> a"
    by (simp add: word_le_nat_alt unat_mod)
  then show ?thesis
    by (simp add: ROUNDDOWN_def unat_sub unat_mod)
qed

lemma ROUNDDOWN_le: "ROUNDDOWN a n \<le> a"
  by (simp add: word_le_nat_alt unat_ROUNDDOWN)

lemma ROUNDDOWN_dvd: "unat n dvd unat (ROUNDDOWN a n)"
  by (metis unat_ROUNDDOWN minus_mod_eq_mult_div dvd_triv_left)

lemma unat_ROUNDUP:
  assumes "n \<noteq> 0" and "unat a + unat n \<le> 2 ^ 32"
  shows "unat (ROUNDUP a n) = (unat a + unat n - 1) div unat n * unat n"
proof -
  have n: "0 < unat n" using assms(1) by (simp add: unat_gt_0)
  have "unat (a + n - 1) = unat a + unat n - 1"
  proof -
    have "a + n - 1 = word_of_nat (unat a + unat n - 1)"
      using n by (simp add: of_nat_diff)
    moreover have "unat a + unat n - 1 < 2 ^ 32" using assms(2) n by linarith
    ultimately show ?thesis by (simp add: unat_of_nat take_bit_eq_mod)
  qed
  then show ?thesis
    by (simp add: ROUNDUP_def unat_ROUNDDOWN minus_mod_eq_div_mult)
qed

section \<open>Signed reading of a word\<close>

lemma sint_cases: "sint (x :: u32) = (if unat x < 2147483648 then int (unat x) else int (unat x) - 4294967296)"
proof -
  have lt: "unat x < 4294967296" using unsigned_less[of x, where 'a = nat] by simp
  have "bit x 31 \<longleftrightarrow> bit (unat x) 31" by (simp add: bit_unsigned_iff)
  also have "\<dots> \<longleftrightarrow> odd (unat x div 2147483648)" by (simp add: bit_iff_odd)
  also have "\<dots> \<longleftrightarrow> 2147483648 \<le> unat x"
  proof (cases "unat x < 2147483648")
    case False
    then have "unat x div 2147483648 = 1" using lt by linarith
    then show ?thesis using False by simp
  qed simp
  finally have b: "bit x 31 \<longleftrightarrow> 2147483648 \<le> unat x" .
  have "sint x = take_bit 32 (uint x) - 2 ^ 32 * of_bool (bit (uint x) 31)"
    using signed_take_bit_eq_take_bit_minus[of 31 "uint x"] by (simp add: sint_uint)
  moreover have "uint x mod 4294967296 = uint x" using uint_lt2p[of x] by simp
  ultimately show ?thesis using b by (simp add: bit_uint_iff of_bool_def take_bit_eq_mod)
qed

section \<open>Free lists threaded through an array\<close>

text \<open>
  \<open>chain lnk xs p is\<close>: following the link \<open>lnk\<close> from \<open>p\<close> visits exactly the entries \<open>is\<close>
  of the array \<open>xs\<close>, in that order, all in range, and ends at the null pointer.
\<close>

fun chain :: "('a \<Rightarrow> nat option) \<Rightarrow> 'a list \<Rightarrow> nat option \<Rightarrow> nat list \<Rightarrow> bool" where
  "chain lnk xs None is = (is = [])"
| "chain lnk xs (Some i) [] = False"
| "chain lnk xs (Some i) (j # js) = (j = i \<and> i < length xs \<and> chain lnk xs (lnk (xs ! i)) js)"

lemma chain_Nil [simp]: "chain lnk xs p [] \<longleftrightarrow> p = None"
  by (cases p) auto

lemma chain_Cons:
  "chain lnk xs p (i # is) \<longleftrightarrow> p = Some i \<and> i < length xs \<and> chain lnk xs (lnk (xs ! i)) is"
  by (cases p) auto

lemma chain_det: "chain lnk xs p is \<Longrightarrow> chain lnk xs p js \<Longrightarrow> is = js"
proof (induction "is" arbitrary: p js)
  case (Cons i "is")
  then show ?case by (cases js) (auto simp: chain_Cons)
qed simp

lemma chain_bounds: "chain lnk xs p is \<Longrightarrow> i \<in> set is \<Longrightarrow> i < length xs"
  by (induction "is" arbitrary: p) (auto simp: chain_Cons)

lemma nth_update_if: "xs[i := x] ! j = (if i = j \<and> i < length xs then x else xs ! j)"
  by (cases "i < length xs") (simp_all add: nth_list_update list_update_beyond not_less)

text \<open>An update of entries outside the chain, or one that keeps the links, keeps the chain.\<close>

lemma chain_cong:
  assumes "chain lnk xs p is" and "length ys = length xs"
    and "\<And>i. i \<in> set is \<Longrightarrow> lnk (ys ! i) = lnk (xs ! i)"
  shows "chain lnk ys p is"
  using assms by (induction "is" arbitrary: p) (auto simp: chain_Cons)

lemma chain_update_other:
  "chain lnk xs p is \<Longrightarrow> i \<notin> set is \<Longrightarrow> chain lnk (xs[i := x]) p is"
  by (erule chain_cong) (auto simp: nth_update_if)

lemma chain_update_same:
  "chain lnk xs p is \<Longrightarrow> lnk x = lnk (xs ! i) \<Longrightarrow> chain lnk (xs[i := x]) p is"
  by (erule chain_cong) (auto simp: nth_update_if)

text \<open>
  \<open>walk lnk xs n p\<close> computes the entries of the list from \<open>p\<close>, at most \<open>n\<close> of them.  The
  length of the array is enough fuel for a list without repetition.
\<close>

fun walk :: "('a \<Rightarrow> nat option) \<Rightarrow> 'a list \<Rightarrow> nat \<Rightarrow> nat option \<Rightarrow> nat list" where
  "walk lnk xs n None = []"
| "walk lnk xs 0 (Some i) = []"
| "walk lnk xs (Suc n) (Some i) = (if i < length xs then i # walk lnk xs n (lnk (xs ! i)) else [])"

lemma walk_chain: "chain lnk xs p is \<Longrightarrow> length is \<le> n \<Longrightarrow> walk lnk xs n p = is"
proof (induction "is" arbitrary: p n)
  case (Cons i "is")
  then show ?case by (cases n) (auto simp: chain_Cons)
qed simp

lemma chain_length:
  assumes "chain lnk xs p is" and "distinct is"
  shows "length is \<le> length xs"
proof -
  have "set is \<subseteq> {..<length xs}" using assms(1) by (auto dest: chain_bounds)
  then have "card (set is) \<le> length xs" by (metis card_lessThan card_mono finite_lessThan)
  then show ?thesis using assms(2) by (simp add: distinct_card)
qed

lemma walk_chain_distinct:
  "chain lnk xs p is \<Longrightarrow> distinct is \<Longrightarrow> walk lnk xs (length xs) p = is"
  by (simp add: walk_chain chain_length)

section \<open>Options as the panic monad\<close>

lemma bind_Some_E:
  assumes "Option.bind m f = Some y"
  obtains x where "m = Some x" and "f x = Some y"
  using assms by (cases m) auto

text \<open>A loop over a list that may panic.\<close>

fun foldM :: "('a \<Rightarrow> 's \<Rightarrow> 's option) \<Rightarrow> 'a list \<Rightarrow> 's \<Rightarrow> 's option" where
  "foldM f [] s = Some s"
| "foldM f (x # xs) s = Option.bind (f x s) (foldM f xs)"

lemma foldM_append: "foldM f (xs @ ys) s = Option.bind (foldM f xs s) (foldM f ys)"
  by (induction xs arbitrary: s) (auto split: bind_splits)

lemma foldM_inv:
  assumes "foldM f xs s = Some t" and "P s"
    and "\<And>x s t. x \<in> set xs \<Longrightarrow> P s \<Longrightarrow> f x s = Some t \<Longrightarrow> P t"
  shows "P t"
  using assms by (induction xs arbitrary: s) (auto simp: bind_eq_Some_conv)

text \<open>
  \<open>holds P m\<close>: if the computation \<open>m\<close> does not panic, its result satisfies \<open>P\<close>.  The rules take
  a function apart along its control flow; each step leaves the equation of the call it passed.
\<close>

definition holds :: "('a \<Rightarrow> bool) \<Rightarrow> 'a option \<Rightarrow> bool" where
  "holds P m \<longleftrightarrow> (\<forall>x. m = Some x \<longrightarrow> P x)"

lemma holdsD: "holds P m \<Longrightarrow> m = Some x \<Longrightarrow> P x"
  by (simp add: holds_def)

lemma holdsI: "(\<And>x. m = Some x \<Longrightarrow> P x) \<Longrightarrow> holds P m"
  by (simp add: holds_def)

named_theorems vcg \<open>rules for the control flow of computations that may panic\<close>

lemma holds_Some [vcg]: "P x \<Longrightarrow> holds P (Some x)"
  by (simp add: holds_def)

lemma holds_None [vcg]: "holds P None"
  by (simp add: holds_def)

lemma holds_bind [vcg]: "(\<And>x. m = Some x \<Longrightarrow> holds P (f x)) \<Longrightarrow> holds P (Option.bind m f)"
  by (cases m) (simp_all add: holds_def)

lemma holds_if [vcg]:
  "(c \<Longrightarrow> holds P a) \<Longrightarrow> (\<not> c \<Longrightarrow> holds P b) \<Longrightarrow> holds P (if c then a else b)"
  by simp

lemma holds_option [vcg]:
  "(x = None \<Longrightarrow> holds P a) \<Longrightarrow> (\<And>y. x = Some y \<Longrightarrow> holds P (f y)) \<Longrightarrow> holds P (case x of None \<Rightarrow> a | Some y \<Rightarrow> f y)"
  by (cases x) simp_all

lemma holds_sum [vcg]:
  "(\<And>y. x = Inl y \<Longrightarrow> holds P (g y)) \<Longrightarrow> (\<And>y. x = Inr y \<Longrightarrow> holds P (f y))
   \<Longrightarrow> holds P (case x of Inl y \<Rightarrow> g y | Inr y \<Rightarrow> f y)"
  by (cases x) simp_all

lemma holds_prod [vcg]:
  "(\<And>a b. x = (a, b) \<Longrightarrow> holds P (f a b)) \<Longrightarrow> holds P (case x of (a, b) \<Rightarrow> f a b)"
  by (cases x) simp_all

lemma holds_prod2 [vcg]:
  "(\<And>a b. x = (a, b) \<Longrightarrow> holds P (f a b c)) \<Longrightarrow> holds P ((case x of (a, b) \<Rightarrow> f a b) c)"
  by (cases x) simp_all

lemma holds_let [vcg]: "holds P (f x) \<Longrightarrow> holds P (Let x f)"
  by simp

lemma nat_option_cases: "(p = None \<Longrightarrow> P) \<Longrightarrow> (\<And>i. p = Some i \<Longrightarrow> P) \<Longrightarrow> P"
  by (cases p) auto

end
