(* ===== verification/Mmu.thy ===== *)
theory Mmu
  imports Prelude
begin

text \<open>
  The x86 paging vocabulary of \<open>inc/mmu.h\<close> and \<open>inc/memlayout.h\<close>: the decomposition of a
  linear address, the flag bits of a page table entry, the layout constants and the error codes
  of \<open>inc/error.h\<close>.  A physical page number is a natural number; \<open>page2pa\<close> of
  \<open>kern/pmap.h\<close> turns it into a physical address.
\<close>

section \<open>Linear addresses (inc/mmu.h)\<close>

definition PGSIZE :: u32 where [mmu_consts]: "PGSIZE = 4096"
definition PTSIZE :: u32 where [mmu_consts]: "PTSIZE = 4194304"

definition PGNUM :: "u32 \<Rightarrow> nat" where
  "PGNUM la = unat (drop_bit 12 la)"

definition PDX :: "u32 \<Rightarrow> nat" where
  "PDX la = unat (drop_bit 22 la AND 0x3FF)"

definition PTX :: "u32 \<Rightarrow> nat" where
  "PTX la = unat (drop_bit 12 la AND 0x3FF)"

definition PGOFF :: "u32 \<Rightarrow> u32" where
  "PGOFF la = la AND 0xFFF"

definition PGADDR :: "nat \<Rightarrow> nat \<Rightarrow> u32 \<Rightarrow> u32" where
  "PGADDR d t off = push_bit 22 (word_of_nat d) OR push_bit 12 (word_of_nat t) OR off"

definition PTE_P :: u32 where [mmu_consts]: "PTE_P = 0x001"
definition PTE_W :: u32 where [mmu_consts]: "PTE_W = 0x002"
definition PTE_U :: u32 where [mmu_consts]: "PTE_U = 0x004"
definition PTE_PWT :: u32 where [mmu_consts]: "PTE_PWT = 0x008"
definition PTE_PCD :: u32 where [mmu_consts]: "PTE_PCD = 0x010"
definition PTE_PS :: u32 where [mmu_consts]: "PTE_PS = 0x080"
definition PTE_AVAIL :: u32 where [mmu_consts]: "PTE_AVAIL = 0xE00"

definition PTE_SYSCALL :: u32 where [mmu_consts]:
  "PTE_SYSCALL = 0xE07"

definition PTE_ADDR :: "u32 \<Rightarrow> u32" where
  "PTE_ADDR pte = pte AND NOT 0xFFF"

lemma PTE_SYSCALL_flags: "PTE_SYSCALL = PTE_AVAIL OR PTE_P OR PTE_W OR PTE_U"
  by (simp add: mmu_consts)

section \<open>Memory layout (inc/memlayout.h)\<close>

definition KERNBASE :: u32 where [mmu_consts]: "KERNBASE = 0xF0000000"
definition KSTACKTOP :: u32 where [mmu_consts]: "KSTACKTOP = 0xF0000000"
definition KSTKSIZE :: u32 where [mmu_consts]: "KSTKSIZE = 0x8000"
definition KSTKGAP :: u32 where [mmu_consts]: "KSTKGAP = 0x8000"
definition MMIOLIM :: u32 where [mmu_consts]: "MMIOLIM = 0xEFC00000"
definition MMIOBASE :: u32 where [mmu_consts]: "MMIOBASE = 0xEF800000"
definition ULIM :: u32 where [mmu_consts]: "ULIM = 0xEF800000"
definition UVPT :: u32 where [mmu_consts]: "UVPT = 0xEF400000"
definition UPAGES :: u32 where [mmu_consts]: "UPAGES = 0xEF000000"
definition UENVS :: u32 where [mmu_consts]: "UENVS = 0xEEC00000"
definition UTOP :: u32 where [mmu_consts]: "UTOP = 0xEEC00000"
definition UXSTACKTOP :: u32 where [mmu_consts]: "UXSTACKTOP = 0xEEC00000"
definition USTACKTOP :: u32 where [mmu_consts]: "USTACKTOP = 0xEEBFE000"
definition UTEXT :: u32 where [mmu_consts]: "UTEXT = 0x800000"
definition UTEMP :: u32 where [mmu_consts]: "UTEMP = 0x400000"
definition PFTEMP :: u32 where [mmu_consts]: "PFTEMP = 0x7FF000"
definition MPENTRY_PADDR :: u32 where [mmu_consts]: "MPENTRY_PADDR = 0x7000"
definition IOPHYSMEM :: u32 where [mmu_consts]: "IOPHYSMEM = 0x0A0000"
definition EXTPHYSMEM :: u32 where [mmu_consts]: "EXTPHYSMEM = 0x100000"
definition NPDENTRIES :: nat where [mmu_consts]: "NPDENTRIES = 1024"

text \<open>The layout macros are defined from one another; the constants above satisfy those equations.\<close>

lemma memlayout_chain:
  "MMIOLIM = KSTACKTOP - PTSIZE" "MMIOBASE = MMIOLIM - PTSIZE" "ULIM = MMIOBASE"
  "UVPT = ULIM - PTSIZE" "UPAGES = UVPT - PTSIZE" "UENVS = UPAGES - PTSIZE"
  "UTOP = UENVS" "UXSTACKTOP = UTOP" "USTACKTOP = UTOP - 2 * PGSIZE"
  "PFTEMP = UTEMP + PTSIZE - PGSIZE" "UTEXT = 2 * PTSIZE"
  by (simp_all add: mmu_consts)

section \<open>Error codes (inc/error.h)\<close>

definition E_UNSPECIFIED :: int where [err_consts]: "E_UNSPECIFIED = 1"
definition E_BAD_ENV :: int where [err_consts]: "E_BAD_ENV = 2"
definition E_INVAL :: int where [err_consts]: "E_INVAL = 3"
definition E_NO_MEM :: int where [err_consts]: "E_NO_MEM = 4"
definition E_NO_FREE_ENV :: int where [err_consts]: "E_NO_FREE_ENV = 5"
definition E_FAULT :: int where [err_consts]: "E_FAULT = 6"
definition E_IPC_NOT_RECV :: int where [err_consts]: "E_IPC_NOT_RECV = 7"
definition E_EOF :: int where [err_consts]: "E_EOF = 8"
definition E_NO_DISK :: int where [err_consts]: "E_NO_DISK = 9"
definition E_MAX_OPEN :: int where [err_consts]: "E_MAX_OPEN = 10"
definition E_NOT_FOUND :: int where [err_consts]: "E_NOT_FOUND = 11"
definition E_BAD_PATH :: int where [err_consts]: "E_BAD_PATH = 12"
definition E_FILE_EXISTS :: int where [err_consts]: "E_FILE_EXISTS = 13"
definition E_NOT_EXEC :: int where [err_consts]: "E_NOT_EXEC = 14"
definition E_NOT_SUPP :: int where [err_consts]: "E_NOT_SUPP = 15"

text \<open>A page that \<open>fork\<close> and \<open>spawn\<close> share with the child (\<open>inc/lib.h\<close>).\<close>

definition PTE_SHARE :: u32 where "PTE_SHARE = 0x400"

text \<open>Modes of opening (\<open>inc/lib.h\<close>), and the length of a file name (\<open>inc/fs.h\<close>).\<close>

definition O_RDONLY :: u32 where "O_RDONLY = 0x0000"
definition O_WRONLY :: u32 where "O_WRONLY = 0x0001"
definition O_RDWR :: u32 where "O_RDWR = 0x0002"
definition O_ACCMODE :: u32 where "O_ACCMODE = 0x0003"
definition O_CREAT :: u32 where "O_CREAT = 0x0100"
definition O_TRUNC :: u32 where "O_TRUNC = 0x0200"
definition O_EXCL :: u32 where "O_EXCL = 0x0400"
definition MAXNAMELEN :: nat where "MAXNAMELEN = 128"

section \<open>Physical page numbers (kern/pmap.h)\<close>

definition page2pa :: "nat \<Rightarrow> u32" where
  "page2pa pp = push_bit 12 (word_of_nat pp)"

lemma and_3FF: "x AND 0x3FF = take_bit 10 (x :: u32)"
  by (simp add: take_bit_eq_mask mask_eq_decr_exp)

lemma and_FFF: "x AND 0xFFF = take_bit 12 (x :: u32)"
  by (simp add: take_bit_eq_mask mask_eq_decr_exp)

lemma PDX_less [simp]: "PDX la < 1024"
  by (simp add: PDX_def and_3FF take_bit_eq_mod unat_mod)

lemma PTX_less [simp]: "PTX la < 1024"
  by (simp add: PTX_def and_3FF take_bit_eq_mod unat_mod)

lemma PDX_arith: "PDX la = unat la div 4194304"
proof -
  have "unat la < 2 ^ LENGTH(32)" by (rule unsigned_less)
  then have "unat la div 4194304 < 1024" by simp
  then show ?thesis
    by (simp add: PDX_def and_3FF take_bit_eq_mod unat_mod unat_div drop_bit_eq_div)
qed

lemma PTX_arith: "PTX la = unat la div 4096 mod 1024"
  by (simp add: PTX_def and_3FF take_bit_eq_mod unat_mod unat_div drop_bit_eq_div)

lemma PGNUM_arith: "PGNUM la = unat la div 4096"
  by (simp add: PGNUM_def unat_div drop_bit_eq_div)

lemma PGNUM_split: "PGNUM la = PDX la * 1024 + PTX la"
proof -
  have "unat la div 4194304 = unat la div 4096 div 1024" by (simp add: div_mult2_eq [symmetric])
  then show ?thesis
    unfolding PGNUM_arith PDX_arith PTX_arith by (metis div_mult_mod_eq)
qed

lemma unat_page2pa: "pp < 2 ^ 20 \<Longrightarrow> unat (page2pa pp) = pp * 4096"
  by (simp add: page2pa_def push_bit_eq_mult unat_word_ariths unat_of_nat take_bit_eq_mod mult.commute)

lemma PGNUM_page2pa: "pp < 2 ^ 20 \<Longrightarrow> PGNUM (page2pa pp) = pp"
  by (simp add: PGNUM_arith unat_page2pa)

lemma PTE_ADDR_or: "PTE_ADDR (a OR b) = PTE_ADDR a OR PTE_ADDR b"
  by (simp add: PTE_ADDR_def bit.conj_disj_distrib2)

lemma bit_FFF: "bit (0xFFF :: u32) n \<longleftrightarrow> n < 12"
proof -
  have "(0xFFF :: u32) = mask 12" by (simp add: mask_eq_decr_exp)
  then show ?thesis by (simp only: bit_mask_iff) auto
qed

lemma bit_PTE_ADDR: "bit (PTE_ADDR x) n \<longleftrightarrow> bit x n \<and> 12 \<le> n"
  unfolding PTE_ADDR_def bit_and_iff bit_not_iff bit_FFF by (auto dest: bit_imp_le_length)

lemma PTE_ADDR_page2pa: "PTE_ADDR (page2pa pp) = page2pa pp"
  by (rule bit_word_eqI) (auto simp: bit_PTE_ADDR page2pa_def bit_push_bit_iff)

lemma PTE_ADDR_idem: "PTE_ADDR (PTE_ADDR x) = PTE_ADDR x"
  by (simp add: PTE_ADDR_def and.assoc)

text \<open>A set of flag bits: nothing outside the low twelve bits.\<close>

definition flags_only :: "u32 \<Rightarrow> bool" where
  "flags_only f \<longleftrightarrow> PTE_ADDR f = 0"

lemma flags_only_or: "flags_only (a OR b) \<longleftrightarrow> flags_only a \<and> flags_only b"
  by (auto simp: flags_only_def PTE_ADDR_or or_eq_0_iff)

lemma flags_only_consts [simp]:
  "flags_only PTE_P" "flags_only PTE_W" "flags_only PTE_U" "flags_only PTE_PWT"
  "flags_only PTE_PCD" "flags_only PTE_SYSCALL"
  by (simp_all add: flags_only_def PTE_ADDR_def mmu_consts)

lemma flags_only_subset: "f AND PTE_SYSCALL = f \<Longrightarrow> flags_only f"
  by (metis PTE_ADDR_def and.assoc and.commute and_zero_eq flags_only_consts(6) flags_only_def)

text \<open>The entry that \<open>page_insert\<close> writes points at the frame it was given.\<close>

lemma PTE_ADDR_entry: "flags_only f \<Longrightarrow> PTE_ADDR (page2pa pp OR f) = page2pa pp"
  by (simp add: PTE_ADDR_or PTE_ADDR_page2pa flags_only_def)

lemma PGNUM_entry: "pp < 2 ^ 20 \<Longrightarrow> flags_only f \<Longrightarrow> PGNUM (PTE_ADDR (page2pa pp OR f)) = pp"
  by (simp add: PTE_ADDR_entry PGNUM_page2pa)

lemma PTE_P_or: "(x OR PTE_P) AND PTE_P \<noteq> 0"
  by (simp add: bit.conj_disj_distrib2 PTE_P_def)

text \<open>\<open>PGADDR\<close> is the inverse of the decomposition.\<close>

lemma PGADDR_arith:
  assumes "d < 1024" and "t < 1024"
  shows "unat (PGADDR d t 0) = d * 4194304 + t * 4096"
proof -
  let ?a = "push_bit 22 (word_of_nat d) :: u32" and ?b = "push_bit 12 (word_of_nat t) :: u32"
  have "?a AND ?b = 0"
  proof (rule bit_word_eqI)
    fix n assume "n < LENGTH(32)"
    show "bit (?a AND ?b) n = bit (0 :: u32) n"
    proof (cases "n < 22")
      case True then show ?thesis by (simp add: bit_and_iff bit_push_bit_iff)
    next
      case False
      then have "(1024 :: nat) \<le> 2 ^ (n - 12)"
        using power_increasing[of 10 "n - 12" "2 :: nat"] by simp
      then have "t < 2 ^ (n - 12)" using assms(2) by linarith
      then have "\<not> bit t (n - 12)" by (simp add: bit_iff_odd)
      then show ?thesis by (simp add: bit_and_iff bit_push_bit_iff bit_of_nat_iff)
    qed
  qed
  then have "?a OR ?b = ?a + ?b" by (rule disjunctive_add_eq_or [symmetric])
  moreover have "unat ?a = d * 4194304"
    using assms(1) by (simp add: push_bit_eq_mult unat_word_ariths unat_of_nat take_bit_eq_mod)
  moreover have "unat ?b = t * 4096"
    using assms(2) by (simp add: push_bit_eq_mult unat_word_ariths unat_of_nat take_bit_eq_mod)
  ultimately show ?thesis using assms by (simp add: PGADDR_def unat_word_ariths)
qed

lemma PDX_PGADDR: "d < 1024 \<Longrightarrow> t < 1024 \<Longrightarrow> PDX (PGADDR d t 0) = d"
  by (simp add: PDX_arith PGADDR_arith)

lemma PTX_PGADDR: "d < 1024 \<Longrightarrow> t < 1024 \<Longrightarrow> PTX (PGADDR d t 0) = t"
  by (simp add: PTX_arith PGADDR_arith)

end
