(* ===== verification/Fifo.thy ===== *)
theory Fifo
  imports Prelude
begin

text \<open>
  The contract of a bounded first-in first-out buffer of bytes, and the lemmas about runs of operations
  on it.  The console input buffer of \<open>kern/console.c\<close> provides it.  The pipe of \<open>lib/pipe.c\<close> does not: its
  positions are signed and only good for the first \<open>2 ^ 31\<close> bytes (theory \<open>Pipe\<close>).
\<close>

locale fifo =
  fixes inv :: "'s \<Rightarrow> bool"
    and contents :: "'s \<Rightarrow> 'a list"
    and cap :: nat
    and put :: "'a \<Rightarrow> 's \<Rightarrow> 's"
    and get :: "'s \<Rightarrow> ('a \<times> 's) option"
  assumes contents_cap: "inv s \<Longrightarrow> length (contents s) \<le> cap"
    and put_contents: "inv s \<Longrightarrow> length (contents s) < cap \<Longrightarrow>
          inv (put x s) \<and> contents (put x s) = contents s @ [x]"
    and get_empty: "inv s \<Longrightarrow> contents s = [] \<Longrightarrow> get s = None"
    and get_Cons: "inv s \<Longrightarrow> contents s = x # xs \<Longrightarrow>
          \<exists>s'. get s = Some (x, s') \<and> inv s' \<and> contents s' = xs"
begin

primrec puts :: "'a list \<Rightarrow> 's \<Rightarrow> 's" where
  "puts [] s = s"
| "puts (x # xs) s = puts xs (put x s)"

primrec gets :: "nat \<Rightarrow> 's \<Rightarrow> 'a list \<times> 's" where
  "gets 0 s = ([], s)"
| "gets (Suc n) s = (case get s of None \<Rightarrow> ([], s)
     | Some (x, s') \<Rightarrow> (let (xs, t) = gets n s' in (x # xs, t)))"

lemma puts_contents:
  "inv s \<Longrightarrow> length (contents s) + length xs \<le> cap \<Longrightarrow>
   inv (puts xs s) \<and> contents (puts xs s) = contents s @ xs"
proof (induction xs arbitrary: s)
  case (Cons x xs)
  then show ?case using put_contents[of s x] by auto
qed simp

lemma gets_contents:
  "inv s \<Longrightarrow> \<exists>t. gets n s = (take n (contents s), t) \<and> inv t \<and> contents t = drop n (contents s)"
proof (induction n arbitrary: s)
  case (Suc n)
  show ?case
  proof (cases "contents s")
    case Nil
    then show ?thesis using get_empty Suc.prems by simp
  next
    case (Cons x xs)
    from get_Cons[OF Suc.prems Cons] obtain s' where
      s': "get s = Some (x, s')" "inv s'" "contents s' = xs" by blast
    from Suc.IH[OF s'(2)] show ?thesis using s' Cons by auto
  qed
qed simp

text \<open>What goes in comes out, in the same order, behind what was there before.\<close>

lemma puts_gets:
  assumes "inv s" and "length (contents s) + length xs \<le> cap"
  shows "\<exists>t. gets (length (contents s) + length xs) (puts xs s) = (contents s @ xs, t) \<and> contents t = []"
proof -
  have p: "inv (puts xs s)" "contents (puts xs s) = contents s @ xs"
    using puts_contents[OF assms] by auto
  from gets_contents[OF p(1), of "length (contents s) + length xs"] show ?thesis
    unfolding p(2) by auto
qed

end

section \<open>Circular segments of an array\<close>

text \<open>\<open>seg b r n\<close>: the \<open>n\<close> entries of the array \<open>b\<close> from index \<open>r\<close> on, modulo its length.\<close>

definition seg :: "'a list \<Rightarrow> nat \<Rightarrow> nat \<Rightarrow> 'a list" where
  "seg b r n = map (\<lambda>i. b ! ((r + i) mod length b)) [0..<n]"

lemma length_seg [simp]: "length (seg b r n) = n"
  by (simp add: seg_def)

lemma seg_0 [simp]: "seg b r 0 = []"
  by (simp add: seg_def)

lemma seg_Suc_hd: "seg b r (Suc n) = b ! (r mod length b) # seg b (Suc r) n"
  unfolding seg_def by (subst upt_conv_Cons) (auto simp: map_Suc_upt [symmetric] simp del: upt_Suc)

lemma seg_mod: "seg b (r mod length b) n = seg b r n"
  by (simp add: seg_def mod_add_left_eq)

lemma mod_neq_near:
  fixes r i n m :: nat
  assumes "i < n" and "n < m"
  shows "(r + i) mod m \<noteq> (r + n) mod m"
proof
  assume eq: "(r + i) mod m = (r + n) mod m"
  then have "m dvd (r + n) - (r + i)"
    using mod_eq_dvd_iff_nat[of "r + i" "r + n" m] assms by simp
  then have "m dvd n - i" using assms by simp
  then show False using assms by (auto dest: dvd_imp_le)
qed

lemma seg_snoc:
  assumes "n < length b"
  shows "seg (b[(r + n) mod length b := x]) r (Suc n) = seg b r n @ [x]"
proof -
  have "(r + n) mod length b < length b" using assms by (intro mod_less_divisor) linarith
  then show ?thesis using assms mod_neq_near[of _ n "length b" r, THEN not_sym]
    by (auto simp: seg_def nth_update_if)
qed

end
