(* ===== verification/Console.thy ===== *)
theory Console
  imports Prelude Fifo "HOL-Library.Char_ord"
begin

text \<open>
  The console driver of \<open>kern/console.c\<close>: keyboard decoding, the circular input buffer fed by
  the keyboard and serial interrupts, and the text-mode display.

  Devices.  The keyboard controller is the list of pairs (status, data) that successive reads
  of its two ports return, the empty list meaning that the status has no data bit; the serial
  port is the list of the bytes it has received.  Bytes sent to the serial and parallel ports
  and the cursor position sent to the display controller are recorded in the state.  The
  delay loops that wait for a port to be ready have no other effect and are left out.
\<close>

record console =
  cbuf :: "u8 list"
  crpos :: nat
  cwpos :: nat
  kbd_shift :: u32
  kbd_in :: "(u8 \<times> u8) list"
  serial_exists :: bool
  serial_in :: "u8 list"
  serial_out :: "u8 list"
  lpt_out :: "u8 list"
  crt_buf :: "u16 list"
  crt_pos :: u16
  crt_cursor :: u16
  rebooted :: bool

section \<open>Serial and parallel ports\<close>

text \<open>The data procedures return the byte read, or -1 when there is none.\<close>

definition serial_proc_data :: "console \<Rightarrow> int \<times> console" where
  "serial_proc_data cs = (case serial_in cs of
      [] \<Rightarrow> (-1, cs)
    | b # bs \<Rightarrow> (uint b, cs\<lparr>serial_in := bs\<rparr>))"

definition serial_putc :: "u32 \<Rightarrow> console \<Rightarrow> console" where
  "serial_putc c cs = cs\<lparr>serial_out := serial_out cs @ [ucast c]\<rparr>"

definition lpt_putc :: "u32 \<Rightarrow> console \<Rightarrow> console" where
  "lpt_putc c cs = cs\<lparr>lpt_out := lpt_out cs @ [ucast c]\<rparr>"

section \<open>Keyboard\<close>

definition KBS_DIB :: u8 where "KBS_DIB = 0x01"
definition KBS_TERR :: u8 where "KBS_TERR = 0x20"
definition SHIFT :: u32 where "SHIFT = 1"
definition CTL :: u32 where "CTL = 2"
definition ALT :: u32 where "ALT = 4"
definition CAPSLOCK :: u32 where "CAPSLOCK = 8"
definition NUMLOCK :: u32 where "NUMLOCK = 16"
definition SCROLLLOCK :: u32 where "SCROLLLOCK = 32"
definition E0ESC :: u32 where "E0ESC = 64"
definition KEY_DEL :: u8 where "KEY_DEL = 0xE9"

definition shiftcode :: "u8 \<Rightarrow> u32" where
  "shiftcode d = (if d = 0x1D then CTL else if d = 0x2A then SHIFT else if d = 0x36 then SHIFT
     else if d = 0x38 then ALT else if d = 0x9D then CTL else if d = 0xB8 then ALT else 0)"

definition togglecode :: "u8 \<Rightarrow> u32" where
  "togglecode d = (if d = 0x3A then CAPSLOCK else if d = 0x45 then NUMLOCK
     else if d = 0x46 then SCROLLLOCK else 0)"

text \<open>
  The three translation tables: a dense part from code 0 on and the sparse entries that follow
  it; every other entry is 0.
\<close>

definition key_table :: "u8 list \<Rightarrow> (u8 \<times> u8) list \<Rightarrow> u8 \<Rightarrow> u8" where
  "key_table dense sparse d =
     (if unat d < length dense then dense ! unat d
      else (case map_of sparse d of None \<Rightarrow> 0 | Some k \<Rightarrow> k))"

definition special_keys :: "(u8 \<times> u8) list" where
  "special_keys = [(0xC8, 0xE2), (0xC9, 0xE6), (0xCB, 0xE4), (0xCD, 0xE5), (0xCF, 0xE1),
     (0xD0, 0xE3), (0xD1, 0xE7), (0xD2, 0xE8), (0xD3, 0xE9)]"

definition keypad :: "u8 list" where
  "keypad = [0, 32, 0, 0, 0, 0, 0, 0] @ [0, 0, 0, 0, 0, 0, 0] @ map of_char ''789-456+1230.'' @ [0, 0, 0, 0]"

definition normalmap :: "u8 \<Rightarrow> u8" where
  "normalmap = key_table
     ([0, 0x1B] @ map of_char ''1234567890-='' @ [8, 9] @ map of_char ''qwertyuiop[]'' @ [10, 0]
      @ map of_char ''asdfghjkl;'' @ [0x27, 0x60, 0, 0x5C] @ map of_char ''zxcvbnm,./'' @ [0, 0x2A] @ keypad)
     ([(0xC7, 0xE0), (0x9C, 10), (0xB5, 0x2F)] @ special_keys)"

definition shiftmap :: "u8 \<Rightarrow> u8" where
  "shiftmap = key_table
     ([0, 0x1B] @ map of_char ''!@#$%^&*()_+'' @ [8, 9] @ map of_char ''QWERTYUIOP{}'' @ [10, 0]
      @ map of_char ''ASDFGHJKL:'' @ [0x22, 0x7E, 0, 0x7C] @ map of_char ''ZXCVBNM<>?'' @ [0, 0x2A] @ keypad)
     ([(0xC7, 0xE0), (0x9C, 10), (0xB5, 0x2F)] @ special_keys)"

definition ctl :: "char \<Rightarrow> u8" where
  "ctl x = of_char x - 0x40"

definition ctlmap :: "u8 \<Rightarrow> u8" where
  "ctlmap = key_table
     (replicate 16 0 @ map ctl ''QWERTYUIOP'' @ [0, 0, 13, 0] @ map ctl ''ASDFGHJKL'' @ [0, 0, 0, 0]
      @ [0x1C] @ map ctl ''ZXCVBNM'' @ [0, 0] @ [ctl CHR 0x2F] @ [0, 0])
     ([(0x97, 0xE0), (0xB5, ctl CHR 0x2F)] @ special_keys)"

definition charcode :: "u32 \<Rightarrow> u8 \<Rightarrow> u8" where
  "charcode i = (if i = 0 then normalmap else if i = SHIFT then shiftmap else ctlmap)"

text \<open>Letters change case under caps lock; other characters do not.\<close>

definition caps_swap :: "u8 \<Rightarrow> u8" where
  "caps_swap c = (if 97 \<le> c \<and> c \<le> 122 then c - 32 else if 65 \<le> c \<and> c \<le> 90 then c + 32 else c)"

definition kbd_key :: "u8 \<Rightarrow> u32 \<Rightarrow> console \<Rightarrow> int \<times> console" where
  "kbd_key data shift cs =
     (let shift = shift OR shiftcode data;
          shift = shift XOR togglecode data;
          c = charcode (shift AND (CTL OR SHIFT)) data;
          c = (if shift AND CAPSLOCK \<noteq> 0 then caps_swap c else c);
          cs = cs\<lparr>kbd_shift := shift\<rparr>;
          cs = (if NOT shift AND (CTL OR ALT) = 0 \<and> c = KEY_DEL then cs\<lparr>rebooted := True\<rparr> else cs)
      in (uint c, cs))"

definition kbd_proc_data :: "console \<Rightarrow> int \<times> console" where
  "kbd_proc_data cs = (case kbd_in cs of
      [] \<Rightarrow> (-1, cs)
    | (stat, data) # rest \<Rightarrow>
        if stat AND KBS_DIB = 0 then (-1, cs)
        else if stat AND KBS_TERR \<noteq> 0 then (-1, cs)
        else let cs = cs\<lparr>kbd_in := rest\<rparr>; shift = kbd_shift cs in
          if data = 0xE0 then (0, cs\<lparr>kbd_shift := shift OR E0ESC\<rparr>)
          else if data AND 0x80 \<noteq> 0 then
            let data = (if shift AND E0ESC \<noteq> 0 then data else data AND 0x7F)
            in (0, cs\<lparr>kbd_shift := shift AND NOT (shiftcode data OR E0ESC)\<rparr>)
          else if shift AND E0ESC \<noteq> 0 then kbd_key (data OR 0x80) (shift AND NOT E0ESC) cs
          else kbd_key data shift cs)"

section \<open>The input buffer\<close>

definition CONSBUFSIZE :: nat where "CONSBUFSIZE = 512"

definition cons_store :: "u8 \<Rightarrow> console \<Rightarrow> console" where
  "cons_store c cs =
     (let cs = cs\<lparr>cbuf := (cbuf cs)[cwpos cs := c], cwpos := cwpos cs + 1\<rparr>
      in if cwpos cs = CONSBUFSIZE then cs\<lparr>cwpos := 0\<rparr> else cs)"

partial_function (option) cons_intr :: "(console \<Rightarrow> int \<times> console) \<Rightarrow> console \<Rightarrow> console option" where
  "cons_intr proc cs =
     (let (c, cs) = proc cs
      in if c = -1 then Some cs
         else if c = 0 then cons_intr proc cs
         else cons_intr proc (cons_store (word_of_int c) cs))"

definition serial_intr :: "console \<Rightarrow> console option" where
  "serial_intr cs = (if serial_exists cs then cons_intr serial_proc_data cs else Some cs)"

definition kbd_intr :: "console \<Rightarrow> console option" where
  "kbd_intr cs = cons_intr kbd_proc_data cs"

text \<open>Taking the next character out of the buffer, 0 when there is none.\<close>

definition cons_take :: "console \<Rightarrow> u8 \<times> console" where
  "cons_take cs =
     (if crpos cs \<noteq> cwpos cs then
        let c = cbuf cs ! crpos cs;
            cs = cs\<lparr>crpos := crpos cs + 1\<rparr>;
            cs = (if crpos cs = CONSBUFSIZE then cs\<lparr>crpos := 0\<rparr> else cs)
        in (c, cs)
      else (0, cs))"

definition cons_getc :: "console \<Rightarrow> (u8 \<times> console) option" where
  "cons_getc cs = do {
     cs \<leftarrow> serial_intr cs;
     cs \<leftarrow> kbd_intr cs;
     Some (cons_take cs)
   }"

section \<open>The display\<close>

definition CRT_COLS :: nat where "CRT_COLS = 80"
definition CRT_SIZE :: nat where "CRT_SIZE = 2000"

definition crt_write :: "u16 \<Rightarrow> u16 \<Rightarrow> console \<Rightarrow> console option" where
  "crt_write i v cs = (if unat i < length (crt_buf cs)
     then Some (cs\<lparr>crt_buf := (crt_buf cs)[unat i := v]\<rparr>) else None)"

text \<open>The tail of \<open>cga_putc\<close>: scroll when the position has left the screen, move the cursor.\<close>

definition cga_finish :: "console \<Rightarrow> console" where
  "cga_finish cs =
     (let cs = (if CRT_SIZE \<le> unat (crt_pos cs) then
                  cs\<lparr>crt_buf := drop CRT_COLS (take CRT_SIZE (crt_buf cs)) @ replicate CRT_COLS 0x0720
                                 @ drop CRT_SIZE (crt_buf cs),
                     crt_pos := crt_pos cs - word_of_nat CRT_COLS\<rparr>
                else cs)
      in cs\<lparr>crt_cursor := crt_pos cs\<rparr>)"

definition cga_attr :: "u32 \<Rightarrow> u32" where
  "cga_attr c = (if c AND NOT 0xFF = 0 then c OR 0x0700 else c)"

text \<open>\<open>cga_putc\<close> on every character but the tab, whose case writes five blanks.\<close>

definition cga_char :: "u32 \<Rightarrow> console \<Rightarrow> console option" where
  "cga_char c cs =
     (let c = cga_attr c; k = c AND 0xFF in do {
        cs \<leftarrow>
          (if k = 8 then
             (if crt_pos cs > 0 then
                (let cs = cs\<lparr>crt_pos := crt_pos cs - 1\<rparr>
                 in crt_write (crt_pos cs) (ucast ((c AND NOT 0xFF) OR 32)) cs)
              else Some cs)
           else if k = 10 then
             (let cs = cs\<lparr>crt_pos := crt_pos cs + word_of_nat CRT_COLS\<rparr>
              in Some (cs\<lparr>crt_pos := crt_pos cs - crt_pos cs mod word_of_nat CRT_COLS\<rparr>))
           else if k = 13 then Some (cs\<lparr>crt_pos := crt_pos cs - crt_pos cs mod word_of_nat CRT_COLS\<rparr>)
           else do {
             cs \<leftarrow> crt_write (crt_pos cs) (ucast c) cs;
             Some (cs\<lparr>crt_pos := crt_pos cs + 1\<rparr>)
           });
        Some (cga_finish cs)
      })"

text \<open>\<open>cons_putc\<close> of a blank, as the tab calls it.\<close>

definition cons_blank :: "console \<Rightarrow> console option" where
  "cons_blank cs = cga_char 32 (lpt_putc 32 (serial_putc 32 cs))"

definition cga_putc :: "u32 \<Rightarrow> console \<Rightarrow> console option" where
  "cga_putc c cs =
     (if cga_attr c AND 0xFF = 9 then do {
        cs \<leftarrow> cons_blank cs; cs \<leftarrow> cons_blank cs; cs \<leftarrow> cons_blank cs;
        cs \<leftarrow> cons_blank cs; cs \<leftarrow> cons_blank cs;
        Some (cga_finish cs)
      } else cga_char c cs)"

definition cons_putc :: "u32 \<Rightarrow> console \<Rightarrow> console option" where
  "cons_putc c cs = cga_putc c (lpt_putc c (serial_putc c cs))"

text \<open>Calls of \<open>cputchar\<close> one after the other, with the \<open>int\<close> that the caller passes: a plain character, a \<open>char\<close> with
  its sign extended, or a character with an attribute.\<close>

fun cputs :: "u32 list \<Rightarrow> console \<Rightarrow> console option" where
  "cputs [] cs = Some cs"
| "cputs (c # r) cs = Option.bind (cons_putc c cs) (cputs r)"

section \<open>The buffer is a bounded queue\<close>

definition cons_inv :: "console \<Rightarrow> bool" where
  "cons_inv cs \<longleftrightarrow> length (cbuf cs) = CONSBUFSIZE \<and> crpos cs < CONSBUFSIZE \<and> cwpos cs < CONSBUFSIZE"

definition cons_count :: "console \<Rightarrow> nat" where
  "cons_count cs = (if crpos cs \<le> cwpos cs then cwpos cs - crpos cs else cwpos cs + CONSBUFSIZE - crpos cs)"

definition cons_contents :: "console \<Rightarrow> u8 list" where
  "cons_contents cs = seg (cbuf cs) (crpos cs) (cons_count cs)"

definition cons_read1 :: "console \<Rightarrow> (u8 \<times> console) option" where
  "cons_read1 cs = (if crpos cs = cwpos cs then None else Some (cons_take cs))"

text \<open>Stepping a position around the buffer.\<close>

definition wrap :: "nat \<Rightarrow> nat" where
  "wrap p = (if p + 1 = CONSBUFSIZE then 0 else p + 1)"

lemma wrap_less: "p < CONSBUFSIZE \<Longrightarrow> wrap p < CONSBUFSIZE"
  by (simp add: wrap_def)

lemma wrap_mod: "p < CONSBUFSIZE \<Longrightarrow> wrap p = Suc p mod CONSBUFSIZE"
  by (simp add: wrap_def)

lemma cons_store_eq:
  "cons_store c cs = cs\<lparr>cbuf := (cbuf cs)[cwpos cs := c], cwpos := wrap (cwpos cs)\<rparr>"
  by (simp add: cons_store_def wrap_def Let_def)

lemma cons_take_eq:
  "crpos cs \<noteq> cwpos cs \<Longrightarrow> cons_take cs = (cbuf cs ! crpos cs, cs\<lparr>crpos := wrap (crpos cs)\<rparr>)"
  by (simp add: cons_take_def wrap_def Let_def)

lemma cons_count_less: "cons_inv cs \<Longrightarrow> cons_count cs < CONSBUFSIZE"
  by (auto simp: cons_inv_def cons_count_def CONSBUFSIZE_def)

lemma cons_wpos: "cons_inv cs \<Longrightarrow> (crpos cs + cons_count cs) mod CONSBUFSIZE = cwpos cs"
  by (simp add: cons_inv_def cons_count_def)

lemma cons_count_store:
  "cons_inv cs \<Longrightarrow> Suc (cons_count cs) < CONSBUFSIZE \<Longrightarrow> cons_count (cons_store c cs) = Suc (cons_count cs)"
  by (auto simp: cons_inv_def cons_count_def cons_store_eq wrap_def)

lemma cons_count_take:
  "cons_inv cs \<Longrightarrow> crpos cs \<noteq> cwpos cs \<Longrightarrow>
   cons_count cs = Suc (cons_count (cs\<lparr>crpos := wrap (crpos cs)\<rparr>))"
  by (auto simp: cons_inv_def cons_count_def wrap_def)

lemma cons_store_inv: "cons_inv cs \<Longrightarrow> cons_inv (cons_store c cs)"
  by (simp add: cons_store_eq cons_inv_def wrap_less)

interpretation cq: fifo cons_inv cons_contents "CONSBUFSIZE - 1" cons_store cons_read1
proof (unfold_locales, goal_cases)
  case (1 s)
  then show ?case using cons_count_less[of s] by (simp add: cons_contents_def)
next
  case (2 s x)
  have len: "length (cbuf s) = CONSBUFSIZE" using 2(1) by (simp add: cons_inv_def)
  have n: "Suc (cons_count s) < CONSBUFSIZE" using 2(2) by (simp add: cons_contents_def)
  have "cons_contents (cons_store x s) = seg ((cbuf s)[cwpos s := x]) (crpos s) (Suc (cons_count s))"
    unfolding cons_contents_def cons_count_store[OF 2(1) n] by (simp add: cons_store_eq)
  also have "\<dots> = seg (cbuf s) (crpos s) (cons_count s) @ [x]"
    using seg_snoc[of "cons_count s" "cbuf s" "crpos s" x] cons_wpos[OF 2(1)] n len by simp
  finally show ?case using cons_store_inv[OF 2(1)] by (simp add: cons_contents_def)
next
  case (3 s)
  then have "cons_count s = 0" by (metis cons_contents_def length_seg list.size(3))
  then have "crpos s = cwpos s" using 3(1) by (simp add: cons_inv_def cons_count_def split: if_splits)
  then show ?case by (simp add: cons_read1_def)
next
  case (4 s x xs)
  have ne: "crpos s \<noteq> cwpos s"
  proof
    assume "crpos s = cwpos s"
    then show False using 4(2) by (simp add: cons_contents_def cons_count_def)
  qed
  let ?t = "s\<lparr>crpos := wrap (crpos s)\<rparr>"
  have len: "length (cbuf s) = CONSBUFSIZE" and rp: "crpos s < CONSBUFSIZE"
    using 4(1) by (auto simp: cons_inv_def)
  have "cons_contents s = cbuf s ! crpos s # seg (cbuf s) (Suc (crpos s)) (cons_count ?t)"
    unfolding cons_contents_def cons_count_take[OF 4(1) ne] seg_Suc_hd using rp len by simp
  also have "seg (cbuf s) (Suc (crpos s)) (cons_count ?t) = cons_contents ?t"
    using seg_mod[of "cbuf s" "Suc (crpos s)" "cons_count ?t"] wrap_mod[OF rp] len
    by (simp add: cons_contents_def)
  finally have "x = cbuf s ! crpos s" "xs = cons_contents ?t" using 4(2) by auto
  moreover have "cons_inv ?t" using 4(1) by (simp add: cons_inv_def wrap_less)
  ultimately show ?case using cons_take_eq[OF ne] ne by (simp add: cons_read1_def)
qed

section \<open>Interrupts fill the buffer\<close>

text \<open>The serial port: every byte received that is not zero is stored, in order.\<close>

lemma cons_intr_serial:
  "cons_intr serial_proc_data cs =
     Some (fold cons_store (filter (\<lambda>b. b \<noteq> 0) (serial_in cs)) (cs\<lparr>serial_in := []\<rparr>))"
proof (induction "serial_in cs" arbitrary: cs)
  case Nil
  then show ?case
    by (subst cons_intr.simps) (simp add: serial_proc_data_def Let_def)
next
  case (Cons b bs)
  have p: "serial_proc_data cs = (uint b, cs\<lparr>serial_in := bs\<rparr>)"
    using Cons(2)[symmetric] by (simp add: serial_proc_data_def)
  have nn: "uint b \<noteq> -1" by (metis neg_0_le_iff_le not_one_le_zero uint_ge_0)
  have st: "(cons_store b (cs\<lparr>serial_in := bs\<rparr>))\<lparr>serial_in := []\<rparr> = cons_store b (cs\<lparr>serial_in := []\<rparr>)"
    by (simp add: cons_store_eq)
  show ?case
  proof (cases "b = 0")
    case True
    then show ?thesis using Cons(1)[of "cs\<lparr>serial_in := bs\<rparr>"] Cons(2)[symmetric] p nn
      by (subst cons_intr.simps) (simp add: Let_def)
  next
    case False
    have "serial_in (cons_store b (cs\<lparr>serial_in := bs\<rparr>)) = bs" by (simp add: cons_store_eq)
    then show ?thesis
      using Cons(1)[of "cons_store b (cs\<lparr>serial_in := bs\<rparr>)"] Cons(2)[symmetric] p nn False st
      by (subst cons_intr.simps) (simp add: Let_def uint_0_iff)
  qed
qed

lemma fold_cons_store: "fold cons_store xs cs = cq.puts xs cs"
  by (induction xs arbitrary: cs) simp_all

text \<open>The keyboard: each round consumes one pair, so the loop ends.\<close>

lemma kbd_proc_data_in:
  assumes "kbd_proc_data cs = (c, cs')"
  shows "c \<noteq> -1 \<Longrightarrow> length (kbd_in cs) = Suc (length (kbd_in cs'))" and "c = -1 \<Longrightarrow> cs' = cs"
  using assms uint_ge_0
  by (auto simp: kbd_proc_data_def kbd_key_def Let_def split: list.splits prod.splits if_splits)
     (metis neg_0_le_iff_le not_one_le_zero uint_ge_0)+

lemma kbd_intr_total: "\<exists>cs'. kbd_intr cs = Some cs'"
  unfolding kbd_intr_def
proof (induction "length (kbd_in cs)" arbitrary: cs rule: less_induct)
  case less
  obtain c cs1 where p: "kbd_proc_data cs = (c, cs1)" by (cases "kbd_proc_data cs")
  show ?case
  proof (cases "c = -1")
    case True
    then show ?thesis using p by (subst cons_intr.simps) simp
  next
    case False
    have k: "kbd_in (cons_store x cs1) = kbd_in cs1" for x by (simp add: cons_store_eq)
    show ?thesis
      using less[of cs1] less[of "cons_store (word_of_int c) cs1"] kbd_proc_data_in(1)[OF p False] p False k
      by (subst cons_intr.simps) (cases "c = 0"; simp)
  qed
qed

text \<open>
  What the serial port receives is what \<open>cons_getc\<close> later returns, as long as the 511 places of
  the buffer are not exceeded.
\<close>

lemma serial_intr_contents:
  assumes "cons_inv cs" and "serial_exists cs"
    and "length (cons_contents cs) + length (filter (\<lambda>b. b \<noteq> 0) (serial_in cs)) < CONSBUFSIZE"
  shows "\<exists>t. serial_intr cs = Some t \<and> cons_inv t
           \<and> cons_contents t = cons_contents cs @ filter (\<lambda>b. b \<noteq> 0) (serial_in cs)"
proof -
  let ?xs = "filter (\<lambda>b. b \<noteq> 0) (serial_in cs)"
  have "cons_inv (cs\<lparr>serial_in := []\<rparr>)" "cons_contents (cs\<lparr>serial_in := []\<rparr>) = cons_contents cs"
    using assms(1) by (simp_all add: cons_inv_def cons_contents_def cons_count_def)
  then show ?thesis
    using cq.puts_contents[of "cs\<lparr>serial_in := []\<rparr>" ?xs] assms(2,3) cons_intr_serial[of cs]
    by (simp add: serial_intr_def fold_cons_store)
qed

text \<open>
  Beyond that the writer passes the reader: one byte more than the buffer holds and the buffer
  reads as empty, so that 512 characters are lost.
\<close>

lemma cons_overrun:
  assumes "cons_inv cs" and "length (cons_contents cs) = CONSBUFSIZE - 1"
  shows "cons_contents (cons_store c cs) = []"
proof -
  have "cons_count cs = CONSBUFSIZE - 1" using assms(2) by (simp add: cons_contents_def)
  then have "wrap (cwpos cs) = crpos cs"
    using assms(1) by (auto simp: cons_inv_def cons_count_def wrap_def CONSBUFSIZE_def split: if_splits)
  then show ?thesis by (simp add: cons_contents_def cons_count_def cons_store_eq)
qed

section \<open>The display stays inside its buffer\<close>

definition crt_inv :: "console \<Rightarrow> bool" where
  "crt_inv cs \<longleftrightarrow> length (crt_buf cs) = CRT_SIZE \<and> unat (crt_pos cs) < CRT_SIZE"

lemma u16_less: "unat (x :: u16) < 65536"
  using unsigned_less[of x, where ?'a = nat] by simp

lemma cga_finish_inv:
  assumes "length (crt_buf cs) = CRT_SIZE" and "unat (crt_pos cs) < CRT_SIZE + CRT_COLS"
  shows "crt_inv (cga_finish cs)"
proof (cases "CRT_SIZE \<le> unat (crt_pos cs)")
  case True
  then have "(80 :: u16) \<le> crt_pos cs" by (simp add: word_le_nat_alt CRT_SIZE_def)
  then have "unat (crt_pos cs - 80) = unat (crt_pos cs) - 80" by (simp add: unat_sub)
  then show ?thesis using True assms
    by (simp add: crt_inv_def cga_finish_def Let_def CRT_SIZE_def CRT_COLS_def)
next
  case False
  then show ?thesis using assms(1) by (simp add: crt_inv_def cga_finish_def Let_def)
qed

lemma unat_u16_add: "unat (x :: u16) + n < 65536 \<Longrightarrow> unat (x + word_of_nat n) = unat x + n"
  by (simp add: unat_word_ariths unat_of_nat take_bit_eq_mod mod_add_right_eq)

lemma unat_line_start: "unat (p - p mod 80 :: u16) = unat p - unat p mod 80"
proof -
  have "p mod 80 \<le> p" by (simp add: word_le_nat_alt unat_mod)
  then show ?thesis by (simp add: unat_sub unat_mod)
qed

lemma cga_char_inv:
  assumes "crt_inv cs"
  shows "\<exists>t. cga_char c cs = Some t \<and> crt_inv t"
proof -
  let ?k = "cga_attr c AND 0xFF"
  have b: "length (crt_buf cs) = CRT_SIZE" "unat (crt_pos cs) < 2000"
    using assms by (auto simp: crt_inv_def CRT_SIZE_def)
  consider (bs) "?k = 8" | (nl) "?k = 10" | (cr) "?k = 13" | (ch) "?k \<noteq> 8" "?k \<noteq> 10" "?k \<noteq> 13" by blast
  then show ?thesis
  proof cases
    case bs
    show ?thesis
    proof (cases "crt_pos cs > 0")
      case True
      then have "unat (crt_pos cs - 1) = unat (crt_pos cs) - 1"
        by (simp add: unat_minus_one word_greater_zero_iff)
      then show ?thesis using bs True b
        by (auto simp: cga_char_def Let_def crt_write_def CRT_SIZE_def CRT_COLS_def intro!: cga_finish_inv)
    next
      case False
      then show ?thesis using bs b
        by (auto simp: cga_char_def Let_def CRT_SIZE_def CRT_COLS_def intro!: cga_finish_inv)
    qed
  next
    case nl
    have "unat (crt_pos cs + 80) = unat (crt_pos cs) + 80" using b unat_u16_add[of "crt_pos cs" 80] by simp
    then show ?thesis using nl b unat_line_start[of "crt_pos cs + 80"]
      by (auto simp: cga_char_def Let_def CRT_SIZE_def CRT_COLS_def intro!: cga_finish_inv)
  next
    case cr
    then show ?thesis using b unat_line_start[of "crt_pos cs"]
      by (auto simp: cga_char_def Let_def CRT_SIZE_def CRT_COLS_def intro!: cga_finish_inv)
  next
    case ch
    have "unat (crt_pos cs + 1) = unat (crt_pos cs) + 1" using b unat_u16_add[of "crt_pos cs" 1] by simp
    then show ?thesis using ch b
      by (auto simp: cga_char_def Let_def crt_write_def CRT_SIZE_def CRT_COLS_def intro!: cga_finish_inv)
  qed
qed

lemma crt_inv_ports [simp]:
  "crt_inv (lpt_putc c cs) = crt_inv cs" "crt_inv (serial_putc c cs) = crt_inv cs"
  by (simp_all add: crt_inv_def lpt_putc_def serial_putc_def)

lemma cons_blank_inv: "crt_inv cs \<Longrightarrow> \<exists>t. cons_blank cs = Some t \<and> crt_inv t"
  unfolding cons_blank_def by (rule cga_char_inv) simp

lemma crt_inv_finish: "crt_inv cs \<Longrightarrow> crt_inv (cga_finish cs)"
  by (rule cga_finish_inv) (auto simp: crt_inv_def)

lemma cons_putc_inv:
  assumes "crt_inv cs"
  shows "\<exists>t. cons_putc c cs = Some t \<and> crt_inv t"
proof -
  have "\<exists>t. cga_putc c u = Some t \<and> crt_inv t" if "crt_inv u" for u
  proof (cases "cga_attr c AND 0xFF = 9")
    case True
    from cons_blank_inv[OF that] obtain u1 where 1: "cons_blank u = Some u1" "crt_inv u1" by blast
    from cons_blank_inv[OF 1(2)] obtain u2 where 2: "cons_blank u1 = Some u2" "crt_inv u2" by blast
    from cons_blank_inv[OF 2(2)] obtain u3 where 3: "cons_blank u2 = Some u3" "crt_inv u3" by blast
    from cons_blank_inv[OF 3(2)] obtain u4 where 4: "cons_blank u3 = Some u4" "crt_inv u4" by blast
    from cons_blank_inv[OF 4(2)] obtain u5 where 5: "cons_blank u4 = Some u5" "crt_inv u5" by blast
    show ?thesis using True 1 2 3 4 5 crt_inv_finish by (simp add: cga_putc_def)
  next
    case False
    then show ?thesis using cga_char_inv[OF that] by (simp add: cga_putc_def)
  qed
  then show ?thesis using assms by (simp add: cons_putc_def)
qed

lemma cputs_inv: "crt_inv cs \<Longrightarrow> \<exists>t. cputs s cs = Some t \<and> crt_inv t"
proof (induction s arbitrary: cs)
  case (Cons c r)
  from cons_putc_inv[OF Cons.prems, of c] obtain u where
    "cons_putc c cs = Some u" "crt_inv u" by blast
  then show ?case using Cons.IH by simp
qed simp

end
