(* ===== verification/KState.thy ===== *)
theory KState
  imports Mmu Console
begin

text \<open>
  The global state of the kernel: the variables of \<open>kern/pmap.c\<close>, \<open>kern/env.c\<close> and
  \<open>kern/syscall.c\<close>, and the physical memory they manage.

  Representation of pointers.  A \<open>struct PageInfo *\<close> is the index of the entry in \<open>pages\<close>; a
  \<open>struct Env *\<close> is the index in \<open>envs\<close>; a kernel virtual address of a page-aligned object
  (a page directory, a page table) is the number of the frame that holds it, the mapping at
  \<open>KERNBASE\<close> being the identity; a \<open>pte_t *\<close> is a frame and an index into it.  Physical memory
  is therefore a function from frames to their 1024 words.  The null pointer is \<open>None\<close>.

  The kernel runs under one big lock, so \<open>curenv\<close> is the environment of the CPU that holds it;
  an environment that another CPU runs is one whose status is \<open>ENV_RUNNING\<close> and which is not
  \<open>curenv\<close>.  Console messages printed by \<open>cprintf\<close> for diagnosis are not part of the state.
\<close>

section \<open>Physical pages (inc/memlayout.h)\<close>

record pageinfo =
  pp_link :: "nat option"
  pp_ref :: u16

section \<open>Trap frames (inc/trap.h)\<close>

record pushregs =
  reg_edi :: u32
  reg_esi :: u32
  reg_ebp :: u32
  reg_oesp :: u32
  reg_ebx :: u32
  reg_edx :: u32
  reg_ecx :: u32
  reg_eax :: u32

record trapframe =
  tf_regs :: pushregs
  tf_es :: u16
  tf_ds :: u16
  tf_trapno :: u32
  tf_err :: u32
  tf_eip :: u32
  tf_cs :: u16
  tf_eflags :: u32
  tf_esp :: u32
  tf_ss :: u16

definition zero_regs :: pushregs where
  "zero_regs = \<lparr>reg_edi = 0, reg_esi = 0, reg_ebp = 0, reg_oesp = 0,
                reg_ebx = 0, reg_edx = 0, reg_ecx = 0, reg_eax = 0\<rparr>"

definition zero_tf :: trapframe where
  "zero_tf = \<lparr>tf_regs = zero_regs, tf_es = 0, tf_ds = 0, tf_trapno = 0, tf_err = 0,
              tf_eip = 0, tf_cs = 0, tf_eflags = 0, tf_esp = 0, tf_ss = 0\<rparr>"

section \<open>Environments (inc/env.h)\<close>

datatype env_status_t = ENV_FREE | ENV_DYING | ENV_RUNNABLE | ENV_RUNNING | ENV_NOT_RUNNABLE

fun status_num :: "env_status_t \<Rightarrow> u32" where
  "status_num ENV_FREE = 0"
| "status_num ENV_DYING = 1"
| "status_num ENV_RUNNABLE = 2"
| "status_num ENV_RUNNING = 3"
| "status_num ENV_NOT_RUNNABLE = 4"

datatype env_type_t = ENV_TYPE_USER | ENV_TYPE_FS

type_synonym envid = u32

record env =
  env_tf :: trapframe
  env_link :: "nat option"
  env_id :: envid
  env_parent_id :: envid
  env_type :: env_type_t
  env_status :: env_status_t
  env_runs :: u32
  env_cpunum :: nat
  env_pgdir :: "nat option"
  env_pgfault_upcall :: u32
  env_ipc_recving :: bool
  env_ipc_dstva :: u32
  env_ipc_value :: u32
  env_ipc_from :: envid
  env_ipc_perm :: u32

definition NENV :: nat where [mmu_consts]: "NENV = 1024"

definition ENVX :: "envid \<Rightarrow> nat" where
  "ENVX eid = unat (eid AND (1024 - 1))"

text \<open>What \<open>memset(envs, 0, ..)\<close> leaves in an entry.\<close>

definition zero_env :: env where
  "zero_env = \<lparr>env_tf = zero_tf, env_link = None, env_id = 0, env_parent_id = 0,
     env_type = ENV_TYPE_USER, env_status = ENV_FREE, env_runs = 0, env_cpunum = 0,
     env_pgdir = None, env_pgfault_upcall = 0, env_ipc_recving = False, env_ipc_dstva = 0,
     env_ipc_value = 0, env_ipc_from = 0, env_ipc_perm = 0\<rparr>"

section \<open>Processors (kern/cpu.h)\<close>

datatype cpu_status_t = CPU_UNUSED | CPU_STARTED | CPU_HALTED

section \<open>The kernel\<close>

text \<open>
  \<open>klock\<close> is the processor that holds \<open>kernel_lock\<close>, \<open>panicked\<close> tells whether \<open>panicstr\<close> is set.
\<close>

record kst =
  npages :: nat
  npages_basemem :: nat
  pages :: "pageinfo list"
  page_free_list :: "nat option"
  pmem :: "nat \<Rightarrow> nat \<Rightarrow> u32"
  kern_pgdir :: nat
  nextfree :: u32
  mmio_base :: u32
  user_mem_check_addr :: u32
  tlb_log :: "u32 list"
  cr3 :: nat
  envs :: "env list"
  env_free_list :: "nat option"
  curenv :: "nat option"
  this_cpu :: nat
  con :: console
  cpu_status :: "nat \<Rightarrow> cpu_status_t"
  klock :: "nat option"
  panicked :: bool

text \<open>Reading through a pointer faults outside the array.\<close>

definition page_at :: "kst \<Rightarrow> nat \<Rightarrow> pageinfo option" where
  "page_at s i = (if i < length (pages s) then Some (pages s ! i) else None)"

definition env_at :: "kst \<Rightarrow> nat \<Rightarrow> env option" where
  "env_at s i = (if i < length (envs s) then Some (envs s ! i) else None)"

definition set_page :: "nat \<Rightarrow> pageinfo \<Rightarrow> kst \<Rightarrow> kst" where
  "set_page i p s = s\<lparr>pages := (pages s)[i := p]\<rparr>"

definition set_env :: "nat \<Rightarrow> env \<Rightarrow> kst \<Rightarrow> kst" where
  "set_env i e s = s\<lparr>envs := (envs s)[i := e]\<rparr>"

definition write_pte :: "nat \<times> nat \<Rightarrow> u32 \<Rightarrow> kst \<Rightarrow> kst" where
  "write_pte p v s = s\<lparr>pmem := (pmem s)(fst p := (pmem s (fst p))(snd p := v))\<rparr>"

definition read_pte :: "kst \<Rightarrow> nat \<times> nat \<Rightarrow> u32" where
  "read_pte s p = pmem s (fst p) (snd p)"

definition zero_frame :: "nat \<Rightarrow> kst \<Rightarrow> kst" where
  "zero_frame i s = s\<lparr>pmem := (pmem s)(i := (\<lambda>_. 0))\<rparr>"

lemma set_page_simps [simp, state_simps]:
  "npages (set_page i p s) = npages s" "pages (set_page i p s) = (pages s)[i := p]"
  "page_free_list (set_page i p s) = page_free_list s" "pmem (set_page i p s) = pmem s"
  "kern_pgdir (set_page i p s) = kern_pgdir s" "envs (set_page i p s) = envs s"
  "env_free_list (set_page i p s) = env_free_list s" "curenv (set_page i p s) = curenv s"
  "tlb_log (set_page i p s) = tlb_log s" "cr3 (set_page i p s) = cr3 s"
  "mmio_base (set_page i p s) = mmio_base s" "nextfree (set_page i p s) = nextfree s"
  "con (set_page i p s) = con s" "this_cpu (set_page i p s) = this_cpu s"
  "cpu_status (set_page i p s) = cpu_status s" "klock (set_page i p s) = klock s"
  "panicked (set_page i p s) = panicked s"
  by (simp_all add: set_page_def)

lemma set_env_simps [simp, state_simps]:
  "npages (set_env i e s) = npages s" "pages (set_env i e s) = pages s"
  "page_free_list (set_env i e s) = page_free_list s" "pmem (set_env i e s) = pmem s"
  "kern_pgdir (set_env i e s) = kern_pgdir s" "envs (set_env i e s) = (envs s)[i := e]"
  "env_free_list (set_env i e s) = env_free_list s" "curenv (set_env i e s) = curenv s"
  "tlb_log (set_env i e s) = tlb_log s" "cr3 (set_env i e s) = cr3 s"
  "mmio_base (set_env i e s) = mmio_base s" "nextfree (set_env i e s) = nextfree s"
  "con (set_env i e s) = con s" "this_cpu (set_env i e s) = this_cpu s"
  "cpu_status (set_env i e s) = cpu_status s" "klock (set_env i e s) = klock s"
  "panicked (set_env i e s) = panicked s"
  by (simp_all add: set_env_def)

lemma write_pte_simps [simp, state_simps]:
  "npages (write_pte p v s) = npages s" "pages (write_pte p v s) = pages s"
  "page_free_list (write_pte p v s) = page_free_list s"
  "pmem (write_pte p v s) f i = (if f = fst p \<and> i = snd p then v else pmem s f i)"
  "kern_pgdir (write_pte p v s) = kern_pgdir s" "envs (write_pte p v s) = envs s"
  "env_free_list (write_pte p v s) = env_free_list s" "curenv (write_pte p v s) = curenv s"
  "tlb_log (write_pte p v s) = tlb_log s" "cr3 (write_pte p v s) = cr3 s"
  "mmio_base (write_pte p v s) = mmio_base s" "nextfree (write_pte p v s) = nextfree s"
  "con (write_pte p v s) = con s" "this_cpu (write_pte p v s) = this_cpu s"
  "cpu_status (write_pte p v s) = cpu_status s" "klock (write_pte p v s) = klock s"
  "panicked (write_pte p v s) = panicked s"
  by (auto simp: write_pte_def)

lemma zero_frame_simps [simp, state_simps]:
  "npages (zero_frame i s) = npages s" "pages (zero_frame i s) = pages s"
  "page_free_list (zero_frame i s) = page_free_list s"
  "pmem (zero_frame i s) f j = (if f = i then 0 else pmem s f j)"
  "kern_pgdir (zero_frame i s) = kern_pgdir s" "envs (zero_frame i s) = envs s"
  "env_free_list (zero_frame i s) = env_free_list s" "curenv (zero_frame i s) = curenv s"
  "tlb_log (zero_frame i s) = tlb_log s" "cr3 (zero_frame i s) = cr3 s"
  "mmio_base (zero_frame i s) = mmio_base s" "nextfree (zero_frame i s) = nextfree s"
  "con (zero_frame i s) = con s" "this_cpu (zero_frame i s) = this_cpu s"
  "cpu_status (zero_frame i s) = cpu_status s" "klock (zero_frame i s) = klock s"
  "panicked (zero_frame i s) = panicked s"
  by (auto simp: zero_frame_def)

lemma ENVX_less: "ENVX eid < NENV"
proof -
  have "(0x3FF :: u32) = mask 10" by (simp add: mask_eq_decr_exp)
  then have "eid AND (1024 - 1) = take_bit 10 eid" by (simp add: take_bit_eq_mask)
  then show ?thesis by (simp add: ENVX_def NENV_def take_bit_eq_mod unat_mod)
qed

end
