(* ===== verification/Pmap.thy ===== *)
theory Pmap
  imports KState
begin

text \<open>
  Physical and virtual memory management: \<open>kern/pmap.c\<close> and the inline functions of
  \<open>kern/pmap.h\<close>.  First the boot allocator, then the page allocator, the two-level page tables
  and the check of user pointers.  The lemmas are in \<open>PmapAlloc\<close> (the allocator) and
  \<open>PmapTables\<close> (the page tables).
\<close>

section \<open>Address conversions (kern/pmap.h)\<close>

definition PADDR_kva :: "u32 \<Rightarrow> u32 option" where
  "PADDR_kva kva = (if kva < KERNBASE then None else Some (kva - KERNBASE))"

text \<open>\<open>KADDR\<close> panics beyond the physical memory; its result is the frame, see \<open>KState\<close>.\<close>

definition KADDR :: "kst \<Rightarrow> u32 \<Rightarrow> nat option" where
  "KADDR s pa = (if npages s \<le> PGNUM pa then None else Some (PGNUM pa))"

definition pa2page :: "kst \<Rightarrow> u32 \<Rightarrow> nat option" where
  "pa2page s pa = (if npages s \<le> PGNUM pa then None else Some (PGNUM pa))"

definition page2kva :: "kst \<Rightarrow> nat \<Rightarrow> nat option" where
  "page2kva s pp = KADDR s (page2pa pp)"

section \<open>Detecting memory and the boot allocator\<close>

text \<open>
  The CMOS is read through \<open>mc146818_read\<close>, an I/O port access that the model takes as a
  parameter; the registers are those of \<open>kern/kclock.h\<close>.
\<close>

definition NVRAM_BASELO :: nat where "NVRAM_BASELO = 0x15"
definition NVRAM_EXTLO :: nat where "NVRAM_EXTLO = 0x17"
definition NVRAM_EXT16LO :: nat where "NVRAM_EXT16LO = 0x34"

definition nvram_read :: "(nat \<Rightarrow> u8) \<Rightarrow> nat \<Rightarrow> u32" where
  "nvram_read cmos r = ucast (cmos r) OR push_bit 8 (ucast (cmos (r + 1)))"

definition i386_detect_memory :: "(nat \<Rightarrow> u8) \<Rightarrow> kst \<Rightarrow> kst" where
  "i386_detect_memory cmos s =
     (let basemem = nvram_read cmos NVRAM_BASELO;
          extmem = nvram_read cmos NVRAM_EXTLO;
          ext16mem = nvram_read cmos NVRAM_EXT16LO * 64;
          totalmem = (if ext16mem \<noteq> 0 then 16 * 1024 + ext16mem
                      else if extmem \<noteq> 0 then 1 * 1024 + extmem
                      else basemem)
      in s\<lparr>npages := unat (totalmem div (PGSIZE div 1024)),
           npages_basemem := unat (basemem div (PGSIZE div 1024))\<rparr>)"

text \<open>
  \<open>kend\<close> is the linker symbol \<open>end\<close>.  A zero \<open>nextfree\<close> is the uninitialised static.
\<close>

definition boot_alloc :: "u32 \<Rightarrow> u32 \<Rightarrow> kst \<Rightarrow> (u32 \<times> kst) option" where
  "boot_alloc kend n s =
     (let s = (if nextfree s = 0 then s\<lparr>nextfree := ROUNDUP kend PGSIZE\<rparr> else s)
      in if n = 0 then Some (nextfree s, s)
         else let result = nextfree s;
                  s = s\<lparr>nextfree := ROUNDUP (nextfree s + n) PGSIZE\<rparr>;
                  top = word_of_nat (npages s) * PGSIZE - 1
              in if npages s \<le> PGNUM top then None
                 else if result > top + KERNBASE then None
                 else Some (result, s))"

section \<open>The page allocator\<close>

definition page_init_step :: "u32 \<Rightarrow> nat \<Rightarrow> kst \<Rightarrow> kst" where
  "page_init_step pagesEnd i s =
     (let physaddres = page2pa i
      in if i \<noteq> 0 \<and> (physaddres < IOPHYSMEM \<or> physaddres > pagesEnd)
            \<and> physaddres < word_of_nat (npages s) * PGSIZE - 1
            \<and> word_of_nat i * PGSIZE \<noteq> MPENTRY_PADDR
         then (set_page i \<lparr>pp_link = page_free_list s, pp_ref = 0\<rparr> s)\<lparr>page_free_list := Some i\<rparr>
         else s)"

definition page_init :: "u32 \<Rightarrow> kst \<Rightarrow> kst option" where
  "page_init kend s = do {
     (kva, s) \<leftarrow> boot_alloc kend 0 s;
     pagesEnd \<leftarrow> PADDR_kva kva;
     Some (fold (page_init_step pagesEnd) [0..<npages s] s)
   }"

definition ALLOC_ZERO :: u32 where "ALLOC_ZERO = 1"

definition page_alloc :: "u32 \<Rightarrow> kst \<Rightarrow> (nat option \<times> kst) option" where
  "page_alloc alloc_flags s =
     (case page_free_list s of
        None \<Rightarrow> Some (None, s)
      | Some i \<Rightarrow> do {
          p \<leftarrow> page_at s i;
          let s = s\<lparr>page_free_list := pp_link p\<rparr>;
          let s = set_page i (p\<lparr>pp_link := None\<rparr>) s;
          if alloc_flags AND ALLOC_ZERO \<noteq> 0
          then do { f \<leftarrow> page2kva s i; Some (Some i, zero_frame f s) }
          else Some (Some i, s)
        })"

definition page_free :: "nat \<Rightarrow> kst \<Rightarrow> kst option" where
  "page_free pp s = do {
     p \<leftarrow> page_at s pp;
     if pp_ref p \<noteq> 0 \<or> pp_link p \<noteq> None then None
     else Some ((set_page pp (p\<lparr>pp_link := page_free_list s\<rparr>) s)\<lparr>page_free_list := Some pp\<rparr>)
   }"

definition page_decref :: "nat \<Rightarrow> kst \<Rightarrow> kst option" where
  "page_decref pp s = do {
     p \<leftarrow> page_at s pp;
     let p = p\<lparr>pp_ref := pp_ref p - 1\<rparr>;
     let s = set_page pp p s;
     if pp_ref p = 0 then page_free pp s else Some s
   }"

text \<open>\<open>page->pp_ref++\<close> through a page pointer.\<close>

definition page_incref :: "nat \<Rightarrow> kst \<Rightarrow> kst option" where
  "page_incref pp s = do {
     p \<leftarrow> page_at s pp;
     Some (set_page pp (p\<lparr>pp_ref := pp_ref p + 1\<rparr>) s)
   }"

section \<open>Page tables\<close>

text \<open>The page directory entry is given by its location; the result is false on failure.\<close>

definition create_page_table :: "nat \<times> nat \<Rightarrow> kst \<Rightarrow> (bool \<times> kst) option" where
  "create_page_table page_direc_entry s = do {
     (page, s) \<leftarrow> page_alloc ALLOC_ZERO s;
     (case page of
        None \<Rightarrow> Some (False, s)
      | Some pp \<Rightarrow> do {
          s \<leftarrow> page_incref pp s;
          Some (True, write_pte page_direc_entry (page2pa pp OR PTE_P OR PTE_W OR PTE_U) s)
        })
   }"

definition pgdir_walk :: "nat \<Rightarrow> u32 \<Rightarrow> bool \<Rightarrow> kst \<Rightarrow> ((nat \<times> nat) option \<times> kst) option" where
  "pgdir_walk pgdir va create s =
     (let page_direc_entry = (pgdir, PDX va) in do {
        (present, s) \<leftarrow>
          (if read_pte s page_direc_entry AND PTE_P = 0
           then (if \<not> create then Some (False, s) else create_page_table page_direc_entry s)
           else Some (True, s));
        if \<not> present then Some (None, s)
        else do {
          pageTable \<leftarrow> KADDR s (PTE_ADDR (read_pte s page_direc_entry));
          Some (Some (pageTable, PTX va), s)
        }
      })"

text \<open>
  The loop counter \<open>aux\<close> is a \<open>size_t\<close>, so a \<open>size\<close> within a page of \<open>2^32\<close> makes it wrap
  and the loop run until memory is exhausted; the other sizes are shown to end below.
\<close>

partial_function (option) boot_map_region_loop ::
  "nat \<Rightarrow> u32 \<Rightarrow> u32 \<Rightarrow> u32 \<Rightarrow> u32 \<Rightarrow> u32 \<Rightarrow> kst \<Rightarrow> kst option" where
  "boot_map_region_loop pgdir aux va sz pa perm s =
     (if aux < sz then
        Option.bind (pgdir_walk pgdir va True s) (\<lambda>(entry, s).
          case entry of
            None \<Rightarrow> None
          | Some e \<Rightarrow> boot_map_region_loop pgdir (aux + PGSIZE) (va + PGSIZE) sz (pa + PGSIZE) perm
                        (write_pte e (pa OR perm OR PTE_P) s))
      else Some s)"

definition boot_map_region_pages :: "nat \<Rightarrow> u32 \<Rightarrow> u32 \<Rightarrow> u32 \<Rightarrow> u32 \<Rightarrow> kst \<Rightarrow> kst option" where
  "boot_map_region_pages pgdir va sz pa perm s = boot_map_region_loop pgdir 0 va sz pa perm s"

text \<open>The build without \<open>TP1_PSE\<close>, which no makefile of the repository defines.\<close>

definition boot_map_region :: "nat \<Rightarrow> u32 \<Rightarrow> u32 \<Rightarrow> u32 \<Rightarrow> u32 \<Rightarrow> kst \<Rightarrow> kst option" where
  "boot_map_region pgdir va sz pa perm s = boot_map_region_pages pgdir va sz pa perm s"

text \<open>
  The test \<open>!( *pgTable | PTE_P)\<close> of the source is kept as it is: with \<open>|\<close> it never holds.
  The result is the page and the location that \<open>pte_store\<close> receives.
\<close>

definition page_lookup :: "nat \<Rightarrow> u32 \<Rightarrow> kst \<Rightarrow> ((nat \<times> (nat \<times> nat)) option \<times> kst) option" where
  "page_lookup pgdir va s = do {
     (pgTable, s) \<leftarrow> pgdir_walk pgdir va False s;
     (case pgTable of
        None \<Rightarrow> Some (None, s)
      | Some pt \<Rightarrow>
          if read_pte s pt OR PTE_P = 0 then Some (None, s)
          else do {
            pp \<leftarrow> pa2page s (PTE_ADDR (read_pte s pt));
            Some (Some (pp, pt), s)
          })
   }"

definition tlb_invalidate :: "nat \<Rightarrow> u32 \<Rightarrow> kst \<Rightarrow> kst" where
  "tlb_invalidate pgdir va s =
     (if (case curenv s of None \<Rightarrow> True
          | Some c \<Rightarrow> (case env_at s c of None \<Rightarrow> False | Some e \<Rightarrow> env_pgdir e = Some pgdir))
      then s\<lparr>tlb_log := va # tlb_log s\<rparr> else s)"

definition page_remove :: "nat \<Rightarrow> u32 \<Rightarrow> kst \<Rightarrow> kst option" where
  "page_remove pgdir va s = do {
     (r, s) \<leftarrow> page_lookup pgdir va s;
     (case r of
        None \<Rightarrow> Some s
      | Some (pp, pte) \<Rightarrow> do {
          s \<leftarrow> page_decref pp s;
          let s = (if read_pte s pte \<noteq> 0 then write_pte pte 0 s else s);
          Some (tlb_invalidate pgdir va s)
        })
   }"

definition page_insert :: "nat \<Rightarrow> nat \<Rightarrow> u32 \<Rightarrow> u32 \<Rightarrow> kst \<Rightarrow> (int \<times> kst) option" where
  "page_insert pgdir pp va perm s = do {
     (pte, s) \<leftarrow> pgdir_walk pgdir va True s;
     (case pte of
        None \<Rightarrow> Some (- E_NO_MEM, s)
      | Some pte \<Rightarrow> do {
          s \<leftarrow> page_incref pp s;
          s \<leftarrow> (if read_pte s pte AND PTE_P \<noteq> 0 then page_remove pgdir va s else Some s);
          Some (0, write_pte pte (page2pa pp OR perm OR PTE_P) s)
        })
   }"

text \<open>The result is the base of the reserved region.\<close>

definition mmio_map_region :: "u32 \<Rightarrow> u32 \<Rightarrow> kst \<Rightarrow> (u32 \<times> kst) option" where
  "mmio_map_region pa sz s =
     (let sz = ROUNDUP sz PGSIZE; base = mmio_base s
      in if base + sz > MMIOLIM then None
         else do {
           s \<leftarrow> boot_map_region (kern_pgdir s) base sz pa (PTE_PCD OR PTE_PWT OR PTE_W) s;
           Some (base, s\<lparr>mmio_base := base + sz\<rparr>)
         })"

section \<open>Checking user pointers\<close>

text \<open>
  The loop of \<open>user_mem_check\<close> from the page \<open>aux_page\<close>.  It counts up to \<open>last_page\<close>, which is
  page-aligned, so it makes at most \<open>2^20\<close> rounds; a round that does not fail moves on.
\<close>

function user_mem_check_loop ::
  "nat \<Rightarrow> u32 \<Rightarrow> u32 \<Rightarrow> u32 \<Rightarrow> u32 \<Rightarrow> kst \<Rightarrow> (int \<times> kst) option" where
  "user_mem_check_loop pgdir va aux_page last_page perm s =
     (if aux_page < last_page then
        (if aux_page \<ge> ULIM then
           Some (- E_FAULT, s\<lparr>user_mem_check_addr := (if aux_page < va then va else aux_page)\<rparr>)
         else case page_lookup pgdir aux_page s of
           None \<Rightarrow> None
         | Some (r, s') \<Rightarrow>
             if \<not> (case r of None \<Rightarrow> False | Some (pp, pte) \<Rightarrow> read_pte s' pte AND perm \<noteq> 0) then
               Some (- E_FAULT, s'\<lparr>user_mem_check_addr := (if aux_page < va then va else aux_page)\<rparr>)
             else user_mem_check_loop pgdir va (aux_page + PGSIZE) last_page perm s')
      else Some (0, s))"
  by pat_completeness auto
termination
proof (relation "measure (\<lambda>(pgdir, va, aux, last, perm, s). 2 ^ 32 - unat aux)", goal_cases)
  case (2 pgdir va aux_page last_page perm s r s')
  then have "aux_page < ULIM" by (simp add: not_le)
  then have "unat aux_page < 4018143232"
    by (simp add: word_less_nat_alt mmu_consts)
  then have "unat (aux_page + PGSIZE) = unat aux_page + 4096"
    by (simp add: unat_word_ariths mmu_consts)
  with \<open>unat aux_page < 4018143232\<close> show ?case by simp
qed simp

declare user_mem_check_loop.simps [simp del]

definition user_mem_check :: "nat \<Rightarrow> u32 \<Rightarrow> u32 \<Rightarrow> u32 \<Rightarrow> kst \<Rightarrow> (int \<times> kst) option" where
  "user_mem_check pgdir va len perm s =
     user_mem_check_loop pgdir va (ROUNDDOWN va PGSIZE) (ROUNDUP (va + len) PGSIZE) perm s"

section \<open>The address translation of the checks\<close>

text \<open>\<open>check_va2pa\<close>, the kernel's own definition of what a page directory maps.\<close>

definition check_va2pa :: "nat \<Rightarrow> u32 \<Rightarrow> kst \<Rightarrow> u32 option" where
  "check_va2pa pgdir va s =
     (let pde = read_pte s (pgdir, PDX va)
      in if pde AND PTE_P = 0 then Some (NOT 0)
         else if pde AND PTE_PS \<noteq> 0 then Some (PGADDR (PDX pde) (PTX va) (PGOFF va))
         else do {
           p \<leftarrow> KADDR s (PTE_ADDR pde);
           if read_pte s (p, PTX va) AND PTE_P = 0 then Some (NOT 0)
           else Some (PTE_ADDR (read_pte s (p, PTX va)))
         })"

end
