(* ===== verification/PmapAlloc.thy ===== *)
theory PmapAlloc
  imports Pmap
begin

text \<open>
  The page allocator of \<open>kern/pmap.c\<close>: the free list is a chain through \<open>pages\<close> without
  repetition, whose members have no references; every operation keeps that, and on the list of
  free pages the operations are those of a stack.  The stack view is an interface, \<open>allocator\<close>,
  whose client lemmas (several allocations give different pages; giving them back restores the
  list) hold for the page allocator by interpretation.
\<close>

section \<open>The interface of a stack allocator\<close>

locale allocator =
  fixes inv :: "'s \<Rightarrow> bool"
    and avail :: "'s \<Rightarrow> 'p list"
    and alloc :: "'s \<Rightarrow> ('p option \<times> 's) option"
    and free :: "'p \<Rightarrow> 's \<Rightarrow> 's option"
    and taken :: "'p \<Rightarrow> 's \<Rightarrow> bool"
  assumes inv_distinct: "inv s \<Longrightarrow> distinct (avail s)"
    and alloc_Nil: "inv s \<Longrightarrow> avail s = [] \<Longrightarrow> alloc s = Some (None, s)"
    and alloc_Cons: "inv s \<Longrightarrow> avail s = p # ps \<Longrightarrow>
          \<exists>s'. alloc s = Some (Some p, s') \<and> inv s' \<and> avail s' = ps \<and> taken p s'
             \<and> (\<forall>q. taken q s \<longrightarrow> taken q s')"
    and free_taken: "inv s \<Longrightarrow> taken p s \<Longrightarrow>
          \<exists>s'. free p s = Some s' \<and> inv s' \<and> avail s' = p # avail s
             \<and> (\<forall>q. taken q s \<and> q \<noteq> p \<longrightarrow> taken q s')"
begin

primrec alloc_n :: "nat \<Rightarrow> 's \<Rightarrow> ('p list \<times> 's) option" where
  "alloc_n 0 s = Some ([], s)"
| "alloc_n (Suc n) s = (case alloc s of
      Some (Some p, s') \<Rightarrow> map_option (\<lambda>(ps, t). (p # ps, t)) (alloc_n n s')
    | _ \<Rightarrow> None)"

primrec free_n :: "'p list \<Rightarrow> 's \<Rightarrow> 's option" where
  "free_n [] s = Some s"
| "free_n (p # ps) s = Option.bind (free p s) (free_n ps)"

lemma alloc_n_take:
  assumes "inv s" and "n \<le> length (avail s)"
  shows "\<exists>s'. alloc_n n s = Some (take n (avail s), s') \<and> inv s' \<and> avail s' = drop n (avail s)
           \<and> (\<forall>q. q \<in> set (take n (avail s)) \<or> taken q s \<longrightarrow> taken q s')"
  using assms
proof (induction n arbitrary: s)
  case (Suc n)
  then obtain p ps where av: "avail s = p # ps" by (cases "avail s") auto
  from alloc_Cons[OF Suc.prems(1) av] obtain s1 where
    s1: "alloc s = Some (Some p, s1)" "inv s1" "avail s1 = ps" "taken p s1"
        "\<forall>q. taken q s \<longrightarrow> taken q s1" by blast
  from Suc.IH[OF s1(2)] Suc.prems(2) av s1 show ?case by auto
qed simp

lemma alloc_n_distinct:
  "inv s \<Longrightarrow> n \<le> length (avail s) \<Longrightarrow> \<exists>ps s'. alloc_n n s = Some (ps, s') \<and> distinct ps \<and> length ps = n"
  using alloc_n_take[of s n] inv_distinct[of s] by (fastforce simp: distinct_take)

lemma free_n_avail:
  assumes "inv s" and "distinct ps" and "\<forall>p\<in>set ps. taken p s"
  shows "\<exists>s'. free_n ps s = Some s' \<and> inv s' \<and> avail s' = rev ps @ avail s"
  using assms
proof (induction ps arbitrary: s)
  case (Cons p ps)
  from free_taken[OF Cons.prems(1), of p] Cons.prems obtain s1 where
    s1: "free p s = Some s1" "inv s1" "avail s1 = p # avail s"
        "\<forall>q. taken q s \<and> q \<noteq> p \<longrightarrow> taken q s1" by auto
  with Cons.prems have "\<forall>q\<in>set ps. taken q s1" by auto
  from Cons.IH[OF s1(2) _ this] Cons.prems(2) s1 show ?case by auto
qed simp

text \<open>Taking \<open>n\<close> and giving them back in the reverse order restores the list.\<close>

lemma alloc_free_n:
  assumes "inv s" and "n \<le> length (avail s)"
  shows "\<exists>ps s1 s2. alloc_n n s = Some (ps, s1) \<and> free_n (rev ps) s1 = Some s2
           \<and> inv s2 \<and> avail s2 = avail s"
proof -
  from alloc_n_take[OF assms] obtain s1 where
    s1: "alloc_n n s = Some (take n (avail s), s1)" "inv s1" "avail s1 = drop n (avail s)"
        "\<forall>q\<in>set (take n (avail s)). taken q s1" by blast
  have "distinct (rev (take n (avail s)))" using inv_distinct[OF assms(1)] by (simp add: distinct_take)
  from free_n_avail[OF s1(2) this] s1(4) obtain s2 where
    "free_n (rev (take n (avail s))) s1 = Some s2" "inv s2"
    "avail s2 = take n (avail s) @ avail s1" by auto
  with s1 show ?thesis by auto
qed

end

section \<open>The invariant of the page allocator\<close>

definition free_pages :: "kst \<Rightarrow> nat list" where
  "free_pages s = walk pp_link (pages s) (length (pages s)) (page_free_list s)"

definition pages_inv :: "kst \<Rightarrow> bool" where
  "pages_inv s \<longleftrightarrow>
     length (pages s) = npages s \<and> npages s \<le> 2 ^ 20
     \<and> chain pp_link (pages s) (page_free_list s) (free_pages s)
     \<and> distinct (free_pages s)
     \<and> (\<forall>i \<in> set (free_pages s). pp_ref (pages s ! i) = 0)
     \<and> (\<forall>i < npages s. i \<notin> set (free_pages s) \<longrightarrow> pp_link (pages s ! i) = None)"

lemma pages_invI:
  assumes "length (pages s) = npages s" and "npages s \<le> 2 ^ 20"
    and "chain pp_link (pages s) (page_free_list s) xs" and "distinct xs"
    and "\<And>i. i \<in> set xs \<Longrightarrow> pp_ref (pages s ! i) = 0"
    and "\<And>i. i < npages s \<Longrightarrow> i \<notin> set xs \<Longrightarrow> pp_link (pages s ! i) = None"
  shows "pages_inv s" and "free_pages s = xs"
proof -
  show fp: "free_pages s = xs"
    using walk_chain_distinct[OF assms(3,4)] by (simp add: free_pages_def)
  show "pages_inv s" unfolding pages_inv_def fp using assms by blast
qed

lemma pages_invD:
  assumes "pages_inv s"
  shows "length (pages s) = npages s" and "npages s \<le> 2 ^ 20"
    and "chain pp_link (pages s) (page_free_list s) (free_pages s)" and "distinct (free_pages s)"
    and "\<And>i. i \<in> set (free_pages s) \<Longrightarrow> pp_ref (pages s ! i) = 0"
    and "\<And>i. i < npages s \<Longrightarrow> i \<notin> set (free_pages s) \<Longrightarrow> pp_link (pages s ! i) = None"
    and "\<And>i. i \<in> set (free_pages s) \<Longrightarrow> i < npages s"
  using assms by (auto simp: pages_inv_def dest: chain_bounds)

lemma page_at_in: "pages_inv s \<Longrightarrow> i < npages s \<Longrightarrow> page_at s i = Some (pages s ! i)"
  by (simp add: page_at_def pages_inv_def)

lemma page_at_Some: "page_at s i = Some p \<longleftrightarrow> i < length (pages s) \<and> p = pages s ! i"
  by (auto simp: page_at_def)

lemma page2kva_in: "i < npages s \<Longrightarrow> npages s \<le> 2 ^ 20 \<Longrightarrow> page2kva s i = Some i"
  by (simp add: page2kva_def KADDR_def PGNUM_page2pa)

text \<open>The parts of the state that the invariant reads.\<close>

lemma pages_inv_cong:
  assumes "pages t = pages s" and "page_free_list t = page_free_list s" and "npages t = npages s"
  shows "pages_inv t = pages_inv s" and "free_pages t = free_pages s"
  using assms by (simp_all add: pages_inv_def free_pages_def)

lemma pages_inv_write_pte [simp]: "pages_inv (write_pte p v s) = pages_inv s"
  and free_pages_write_pte [simp]: "free_pages (write_pte p v s) = free_pages s"
  by (rule pages_inv_cong; simp)+

lemma pages_inv_zero_frame [simp]: "pages_inv (zero_frame i s) = pages_inv s"
  and free_pages_zero_frame [simp]: "free_pages (zero_frame i s) = free_pages s"
  by (rule pages_inv_cong; simp)+

lemma pages_inv_set_env [simp]: "pages_inv (set_env i e s) = pages_inv s"
  and free_pages_set_env [simp]: "free_pages (set_env i e s) = free_pages s"
  by (rule pages_inv_cong; simp)+

text \<open>Changing the reference count of a page that is not free.\<close>

lemma pages_inv_set_ref:
  assumes inv: "pages_inv s" and i: "i < npages s" "i \<notin> set (free_pages s)"
  shows "pages_inv (set_page i ((pages s ! i)\<lparr>pp_ref := r\<rparr>) s)"
    and "free_pages (set_page i ((pages s ! i)\<lparr>pp_ref := r\<rparr>) s) = free_pages s"
proof -
  let ?s = "set_page i ((pages s ! i)\<lparr>pp_ref := r\<rparr>) s"
  note D = pages_invD[OF inv]
  have ch: "chain pp_link (pages ?s) (page_free_list ?s) (free_pages s)"
    using D(3) by (auto intro: chain_update_same)
  show "pages_inv ?s" by (rule pages_invI(1)[OF _ _ ch]) (use D i in \<open>auto simp: nth_update_if\<close>)
  show "free_pages ?s = free_pages s"
    by (rule pages_invI(2)[OF _ _ ch]) (use D i in \<open>auto simp: nth_update_if\<close>)
qed

section \<open>The operations\<close>

text \<open>What a page allocation changes: the two fields of the free list, and the frame if asked.\<close>

definition alloc_state :: "u32 \<Rightarrow> nat \<Rightarrow> kst \<Rightarrow> kst" where
  "alloc_state fl p s =
     (let t = set_page p ((pages s ! p)\<lparr>pp_link := None\<rparr>) (s\<lparr>page_free_list := pp_link (pages s ! p)\<rparr>)
      in if fl AND ALLOC_ZERO \<noteq> 0 then zero_frame p t else t)"

lemma alloc_state_simps [simp, state_simps]:
  "npages (alloc_state fl p s) = npages s"
  "pages (alloc_state fl p s) = (pages s)[p := (pages s ! p)\<lparr>pp_link := None\<rparr>]"
  "page_free_list (alloc_state fl p s) = pp_link (pages s ! p)"
  "pmem (alloc_state fl p s) f j = (if fl AND ALLOC_ZERO \<noteq> 0 \<and> f = p then 0 else pmem s f j)"
  "kern_pgdir (alloc_state fl p s) = kern_pgdir s" "envs (alloc_state fl p s) = envs s"
  "env_free_list (alloc_state fl p s) = env_free_list s" "curenv (alloc_state fl p s) = curenv s"
  "cr3 (alloc_state fl p s) = cr3 s" "tlb_log (alloc_state fl p s) = tlb_log s"
  by (auto simp: alloc_state_def Let_def)

lemma page_alloc_Nil: "pages_inv s \<Longrightarrow> free_pages s = [] \<Longrightarrow> page_alloc fl s = Some (None, s)"
  using pages_invD(3)[of s] by (simp add: page_alloc_def)

lemma page_alloc_Cons:
  assumes inv: "pages_inv s" and av: "free_pages s = p # ps"
  shows "page_alloc fl s = Some (Some p, alloc_state fl p s)"
    and "pages_inv (alloc_state fl p s)" and "free_pages (alloc_state fl p s) = ps"
proof -
  note D = pages_invD[OF inv]
  have hd: "page_free_list s = Some p" "chain pp_link (pages s) (pp_link (pages s ! p)) ps"
    using D(3) av by (auto simp: chain_Cons)
  have p: "p < npages s" using D(7) av by simp
  show "page_alloc fl s = Some (Some p, alloc_state fl p s)"
    using hd p D(1,2) page2kva_in[of p "set_page p ((pages s ! p)\<lparr>pp_link := None\<rparr>) (s\<lparr>page_free_list := pp_link (pages s ! p)\<rparr>)"]
    by (simp add: page_alloc_def page_at_def alloc_state_def Let_def)
  have np: "p \<notin> set ps" and d: "distinct ps" using D(4) av by auto
  have ch: "chain pp_link (pages (alloc_state fl p s)) (page_free_list (alloc_state fl p s)) ps"
    using hd(2) np by (auto intro: chain_update_other)
  show "pages_inv (alloc_state fl p s)"
    by (rule pages_invI(1)[OF _ _ ch d]) (use D av np in \<open>auto simp: nth_update_if\<close>)
  show "free_pages (alloc_state fl p s) = ps"
    by (rule pages_invI(2)[OF _ _ ch d]) (use D av np in \<open>auto simp: nth_update_if\<close>)
qed

text \<open>A page that can be given back: in range, not free, without references.\<close>

definition page_taken :: "nat \<Rightarrow> kst \<Rightarrow> bool" where
  "page_taken p s \<longleftrightarrow> p < npages s \<and> p \<notin> set (free_pages s) \<and> pp_ref (pages s ! p) = 0"

definition free_state :: "nat \<Rightarrow> kst \<Rightarrow> kst" where
  "free_state p s = (set_page p ((pages s ! p)\<lparr>pp_link := page_free_list s\<rparr>) s)\<lparr>page_free_list := Some p\<rparr>"

lemma free_state_simps [simp, state_simps]:
  "npages (free_state p s) = npages s"
  "pages (free_state p s) = (pages s)[p := (pages s ! p)\<lparr>pp_link := page_free_list s\<rparr>]"
  "page_free_list (free_state p s) = Some p" "pmem (free_state p s) = pmem s"
  "kern_pgdir (free_state p s) = kern_pgdir s" "envs (free_state p s) = envs s"
  "env_free_list (free_state p s) = env_free_list s" "curenv (free_state p s) = curenv s"
  "cr3 (free_state p s) = cr3 s" "tlb_log (free_state p s) = tlb_log s"
  by (simp_all add: free_state_def)

lemma page_free_taken:
  assumes inv: "pages_inv s" and p: "page_taken p s"
  shows "page_free p s = Some (free_state p s)"
    and "pages_inv (free_state p s)" and "free_pages (free_state p s) = p # free_pages s"
proof -
  note D = pages_invD[OF inv]
  from p have p': "p < npages s" "p \<notin> set (free_pages s)" "pp_ref (pages s ! p) = 0"
    by (auto simp: page_taken_def)
  show "page_free p s = Some (free_state p s)"
    using p' D(1,6) by (simp add: page_free_def page_at_def free_state_def)
  have ch: "chain pp_link (pages (free_state p s)) (page_free_list (free_state p s)) (p # free_pages s)"
    using D(1,3) p' by (auto simp: chain_Cons intro: chain_update_other)
  have d: "distinct (p # free_pages s)" using D(4) p' by simp
  show "pages_inv (free_state p s)"
    by (rule pages_invI(1)[OF _ _ ch d]) (use D p' in \<open>auto simp: nth_update_if\<close>)
  show "free_pages (free_state p s) = p # free_pages s"
    by (rule pages_invI(2)[OF _ _ ch d]) (use D p' in \<open>auto simp: nth_update_if\<close>)
qed

interpretation pa: allocator pages_inv free_pages "page_alloc fl" page_free page_taken for fl
proof (unfold_locales, goal_cases)
  case (1 s) then show ?case by (rule pages_invD(4))
next
  case (2 s) then show ?case by (rule page_alloc_Nil)
next
  case (3 s p ps)
  note D = pages_invD[OF 3(1)]
  have "page_taken p (alloc_state fl p s)"
    using 3 D page_alloc_Cons(3)[OF 3, of fl] by (auto simp: page_taken_def nth_update_if)
  moreover have "\<forall>q. page_taken q s \<longrightarrow> page_taken q (alloc_state fl p s)"
    using 3 page_alloc_Cons(3)[OF 3, of fl] by (auto simp: page_taken_def nth_update_if)
  ultimately show ?case using page_alloc_Cons[OF 3, of fl] by blast
next
  case (4 s p)
  have "\<forall>q. page_taken q s \<and> q \<noteq> p \<longrightarrow> page_taken q (free_state p s)"
    using page_free_taken(3)[OF 4] by (auto simp: page_taken_def nth_update_if)
  then show ?case using page_free_taken[OF 4] by blast
qed

section \<open>References\<close>

lemma page_decref_unfold:
  assumes "pages_inv s" and "p < npages s"
  shows "page_decref p s =
    (let t = set_page p ((pages s ! p)\<lparr>pp_ref := pp_ref (pages s ! p) - 1\<rparr>) s
     in if pp_ref (pages s ! p) = 1 then page_free p t else Some t)"
  using assms by (simp add: page_decref_def page_at_in Let_def eq_diff_eq)

text \<open>Dropping one of several references only changes the count.\<close>

lemma page_decref_many:
  assumes inv: "pages_inv s" and p: "p < npages s" "p \<notin> set (free_pages s)"
    and r: "pp_ref (pages s ! p) \<noteq> 1"
  shows "page_decref p s = Some (set_page p ((pages s ! p)\<lparr>pp_ref := pp_ref (pages s ! p) - 1\<rparr>) s)"
    and "pages_inv (set_page p ((pages s ! p)\<lparr>pp_ref := pp_ref (pages s ! p) - 1\<rparr>) s)"
    and "free_pages (set_page p ((pages s ! p)\<lparr>pp_ref := pp_ref (pages s ! p) - 1\<rparr>) s) = free_pages s"
  using pages_inv_set_ref[OF inv p] page_decref_unfold[OF inv p(1)] r by (simp_all add: Let_def)

text \<open>Dropping the last one gives the page back.\<close>

lemma page_decref_last:
  assumes inv: "pages_inv s" and p: "p < npages s" "p \<notin> set (free_pages s)"
    and r: "pp_ref (pages s ! p) = 1"
  shows "page_decref p s = Some (free_state p (set_page p ((pages s ! p)\<lparr>pp_ref := 0\<rparr>) s))"
    and "pages_inv (free_state p (set_page p ((pages s ! p)\<lparr>pp_ref := 0\<rparr>) s))"
    and "free_pages (free_state p (set_page p ((pages s ! p)\<lparr>pp_ref := 0\<rparr>) s)) = p # free_pages s"
proof -
  let ?t = "set_page p ((pages s ! p)\<lparr>pp_ref := 0\<rparr>) s"
  note I = pages_inv_set_ref[OF inv p, of 0]
  have tk: "page_taken p ?t" using p I pages_invD(1)[OF inv] by (simp add: page_taken_def)
  show "page_decref p s = Some (free_state p ?t)"
    using page_decref_unfold[OF inv p(1)] r page_free_taken(1)[OF I(1) tk] by (simp add: Let_def)
  show "pages_inv (free_state p ?t)" by (rule page_free_taken(2)[OF I(1) tk])
  show "free_pages (free_state p ?t) = p # free_pages s"
    using page_free_taken(3)[OF I(1) tk] I(2) by simp
qed

lemma page_incref_eq:
  assumes "pages_inv s" and "p < npages s"
  shows "page_incref p s = Some (set_page p ((pages s ! p)\<lparr>pp_ref := pp_ref (pages s ! p) + 1\<rparr>) s)"
  using assms by (simp add: page_incref_def page_at_in)

section \<open>The initial free list\<close>

text \<open>
  The pages that \<open>page_init\<close> frees, by their physical address: not page 0, not the hole from
  \<open>IOPHYSMEM\<close> to the end of the kernel and of its boot allocations, not the start-up code of
  the other processors.
\<close>

definition init_free :: "u32 \<Rightarrow> nat \<Rightarrow> nat \<Rightarrow> bool" where
  "init_free pagesEnd n i \<longleftrightarrow>
     i \<noteq> 0 \<and> (page2pa i < IOPHYSMEM \<or> page2pa i > pagesEnd)
     \<and> page2pa i < word_of_nat n * PGSIZE - 1 \<and> word_of_nat i * PGSIZE \<noteq> MPENTRY_PADDR"

lemma page_init_step_eq:
  "page_init_step pe i s = (if init_free pe (npages s) i
     then (set_page i \<lparr>pp_link = page_free_list s, pp_ref = 0\<rparr> s)\<lparr>page_free_list := Some i\<rparr> else s)"
  by (auto simp: page_init_step_def init_free_def Let_def)

lemma page_init_fold_npages [simp]:
  "npages (fold (page_init_step pe) xs s) = npages s"
  "length (pages (fold (page_init_step pe) xs s)) = length (pages s)"
  by (induction xs arbitrary: s) (simp_all add: page_init_step_eq)

lemma page_init_fold:
  fixes s :: kst and pe :: u32
  defines "f \<equiv> \<lambda>m. fold (page_init_step pe) [0..<m] s"
  assumes len: "length (pages s) = npages s"
    and zero: "\<forall>i < npages s. pages s ! i = \<lparr>pp_link = None, pp_ref = 0\<rparr>"
    and fl: "page_free_list s = None"
  shows "m \<le> npages s \<Longrightarrow>
    chain pp_link (pages (f m)) (page_free_list (f m)) (rev (filter (init_free pe (npages s)) [0..<m]))
    \<and> (\<forall>i < npages s. pp_ref (pages (f m) ! i) = 0)
    \<and> (\<forall>i < npages s. \<not> (i < m \<and> init_free pe (npages s) i) \<longrightarrow> pp_link (pages (f m) ! i) = None)"
proof (induction m)
  case 0
  then show ?case using assms by simp
next
  case (Suc m)
  have f: "f (Suc m) = page_init_step pe m (f m)" by (simp add: f_def)
  have n: "npages (f m) = npages s" "length (pages (f m)) = npages s" using len by (simp_all add: f_def)
  from Suc have IH: "chain pp_link (pages (f m)) (page_free_list (f m))
        (rev (filter (init_free pe (npages s)) [0..<m]))"
    "\<forall>i < npages s. pp_ref (pages (f m) ! i) = 0"
    "\<forall>i < npages s. \<not> (i < m \<and> init_free pe (npages s) i) \<longrightarrow> pp_link (pages (f m) ! i) = None" by simp_all
  show ?case
  proof (cases "init_free pe (npages s) m")
    case True
    let ?xs = "rev (filter (init_free pe (npages s)) [0..<m])"
    have "chain pp_link ((pages (f m))[m := \<lparr>pp_link = page_free_list (f m), pp_ref = 0\<rparr>]) (Some m) (m # ?xs)"
      using IH(1) n Suc.prems by (auto simp: chain_Cons intro: chain_update_other)
    with True n IH Suc.prems show ?thesis
      unfolding f page_init_step_eq by (auto simp: nth_update_if)
  next
    case False
    then show ?thesis using IH n unfolding f page_init_step_eq
      by (auto simp: less_Suc_eq)
  qed
qed

section \<open>Summary rules for clients\<close>

text \<open>The parts of the state that the bookkeeping of pages leaves alone.\<close>

definition same_rest :: "kst \<Rightarrow> kst \<Rightarrow> bool" where
  "same_rest t s \<longleftrightarrow> pmem t = pmem s \<and> npages t = npages s \<and> kern_pgdir t = kern_pgdir s
     \<and> envs t = envs s \<and> env_free_list t = env_free_list s \<and> curenv t = curenv s \<and> cr3 t = cr3 s
     \<and> mmio_base t = mmio_base s \<and> nextfree t = nextfree s \<and> tlb_log t = tlb_log s"

lemma same_rest_refl [simp]: "same_rest s s"
  by (simp add: same_rest_def)

lemma same_rest_trans: "same_rest u t \<Longrightarrow> same_rest t s \<Longrightarrow> same_rest u s"
  by (simp add: same_rest_def)

lemma same_rest_set_page [simp]: "same_rest (set_page i p s) s"
  by (simp add: same_rest_def set_page_def)

lemma same_rest_free_state [simp]: "same_rest (free_state i s) s"
  by (simp add: same_rest_def free_state_def set_page_def)

lemma page_decref_spec:
  assumes inv: "pages_inv s" and p: "p < npages s" "p \<notin> set (free_pages s)"
  shows "\<exists>t. page_decref p s = Some t \<and> pages_inv t \<and> same_rest t s
     \<and> free_pages t = (if pp_ref (pages s ! p) = 1 then p # free_pages s else free_pages s)
     \<and> (\<forall>q < npages s. pp_ref (pages t ! q) = pp_ref (pages s ! q) - (if q = p then 1 else 0))"
proof (cases "pp_ref (pages s ! p) = 1")
  case True
  let ?t = "free_state p (set_page p ((pages s ! p)\<lparr>pp_ref := 0\<rparr>) s)"
  have "\<forall>q < npages s. pp_ref (pages ?t ! q) = pp_ref (pages s ! q) - (if q = p then 1 else 0)"
    using True pages_invD(1)[OF inv] by (auto simp: nth_update_if)
  moreover have "same_rest ?t s" by (rule same_rest_trans[OF same_rest_free_state]) simp
  ultimately show ?thesis using page_decref_last[OF inv p True] True by auto
next
  case False
  let ?t = "set_page p ((pages s ! p)\<lparr>pp_ref := pp_ref (pages s ! p) - 1\<rparr>) s"
  have "\<forall>q < npages s. pp_ref (pages ?t ! q) = pp_ref (pages s ! q) - (if q = p then 1 else 0)"
    using pages_invD(1)[OF inv] by (auto simp: nth_update_if)
  then show ?thesis using page_decref_many[OF inv p False] False by auto
qed

lemma page_incref_spec:
  assumes inv: "pages_inv s" and p: "p < npages s" "p \<notin> set (free_pages s)"
  shows "\<exists>t. page_incref p s = Some t \<and> pages_inv t \<and> same_rest t s \<and> free_pages t = free_pages s
     \<and> (\<forall>q < npages s. pp_ref (pages t ! q) = pp_ref (pages s ! q) + (if q = p then 1 else 0))"
proof -
  let ?t = "set_page p ((pages s ! p)\<lparr>pp_ref := pp_ref (pages s ! p) + 1\<rparr>) s"
  have "\<forall>q < npages s. pp_ref (pages ?t ! q) = pp_ref (pages s ! q) + (if q = p then 1 else 0)"
    using pages_invD(1)[OF inv] by (auto simp: nth_update_if)
  then show ?thesis using page_incref_eq[OF inv p(1)] pages_inv_set_ref[OF inv p] by auto
qed

end
