(* ===== verification/PmapTables.thy ===== *)
theory PmapTables
  imports PmapAlloc
begin

text \<open>
  The two-level page tables.  \<open>va_pte s pd va\<close> is the entry that the hardware finds for \<open>va\<close>
  under the page directory in frame \<open>pd\<close>, zero where there is no page table; it is the abstract
  view of an address space.  \<open>pgdir_ok\<close> says that the page tables of a directory are different
  frames, none of them free and none the directory itself, except through the slot of \<open>UVPT\<close>
  where the directory maps itself on purpose.
\<close>

section \<open>The abstract address space\<close>

definition pde_present :: "kst \<Rightarrow> nat \<Rightarrow> nat \<Rightarrow> bool" where
  "pde_present s pd d \<longleftrightarrow> pmem s pd d AND PTE_P \<noteq> 0"

definition pt_frame :: "kst \<Rightarrow> nat \<Rightarrow> nat \<Rightarrow> nat" where
  "pt_frame s pd d = PGNUM (PTE_ADDR (pmem s pd d))"

definition va_pte :: "kst \<Rightarrow> nat \<Rightarrow> u32 \<Rightarrow> u32" where
  "va_pte s pd va = (if pde_present s pd (PDX va) then pmem s (pt_frame s pd (PDX va)) (PTX va) else 0)"

definition pgdir_ok :: "kst \<Rightarrow> nat \<Rightarrow> bool" where
  "pgdir_ok s pd \<longleftrightarrow> pd < npages s \<and> pd \<notin> set (free_pages s)
     \<and> (\<forall>d < 1024. d \<noteq> PDX UVPT \<and> pde_present s pd d \<longrightarrow>
          pt_frame s pd d < npages s \<and> pt_frame s pd d \<notin> set (free_pages s) \<and> pt_frame s pd d \<noteq> pd)
     \<and> (\<forall>d < 1024. \<forall>e < 1024. d \<noteq> PDX UVPT \<and> e \<noteq> PDX UVPT \<and> pde_present s pd d \<and> pde_present s pd e
          \<and> d \<noteq> e \<longrightarrow> pt_frame s pd d \<noteq> pt_frame s pd e)"

text \<open>Two addresses on different pages have different entries.\<close>

lemma same_page_iff: "PGNUM a = PGNUM b \<longleftrightarrow> PDX a = PDX b \<and> PTX a = PTX b"
proof
  assume eq: "PGNUM a = PGNUM b"
  have "PDX x = PGNUM x div 1024" "PTX x = PGNUM x mod 1024" for x
    by (simp_all add: PGNUM_split)
  with eq show "PDX a = PDX b \<and> PTX a = PTX b" by metis
qed (simp add: PGNUM_split)

lemma va_pte_same_rest: "same_rest t s \<Longrightarrow> va_pte t pd va = va_pte s pd va"
  by (simp add: same_rest_def va_pte_def pde_present_def pt_frame_def)

lemma pde_present_same_rest:
  "same_rest t s \<Longrightarrow> pde_present t pd d = pde_present s pd d"
  "same_rest t s \<Longrightarrow> pt_frame t pd d = pt_frame s pd d"
  by (simp_all add: same_rest_def pde_present_def pt_frame_def)

lemma pgdir_ok_same_rest:
  assumes "same_rest t s" and "set (free_pages t) = set (free_pages s)"
  shows "pgdir_ok t pd = pgdir_ok s pd"
  using assms by (simp add: pgdir_ok_def pde_present_same_rest) (simp add: same_rest_def)

text \<open>Writing the entry of \<open>va\<close> through its location changes the view at the page of \<open>va\<close> only.\<close>

lemma va_pte_write:
  assumes ok: "pgdir_ok s pd" and p: "pde_present s pd (PDX va)"
    and d: "PDX va \<noteq> PDX UVPT"
  shows "va_pte (write_pte (pt_frame s pd (PDX va), PTX va) v s) pd va = v"
    and "PDX vb \<noteq> PDX UVPT \<Longrightarrow> PGNUM vb \<noteq> PGNUM va \<Longrightarrow>
         va_pte (write_pte (pt_frame s pd (PDX va), PTX va) v s) pd vb = va_pte s pd vb"
    and "pgdir_ok (write_pte (pt_frame s pd (PDX va), PTX va) v s) pd"
proof -
  let ?t = "write_pte (pt_frame s pd (PDX va), PTX va) v s"
  have ne: "pt_frame s pd (PDX va) \<noteq> pd"
    using ok p d by (simp add: pgdir_ok_def)
  then have dir: "pmem ?t pd i = pmem s pd i" for i by simp
  then have pp: "pde_present ?t pd i = pde_present s pd i" "pt_frame ?t pd i = pt_frame s pd i" for i
    by (simp_all add: pde_present_def pt_frame_def)
  show "va_pte ?t pd va = v" using p by (simp add: va_pte_def pp)
  show "pgdir_ok ?t pd" using ok by (simp add: pgdir_ok_def pp)
  assume b: "PDX vb \<noteq> PDX UVPT" "PGNUM vb \<noteq> PGNUM va"
  show "va_pte ?t pd vb = va_pte s pd vb"
  proof (cases "PDX vb = PDX va")
    case True
    then show ?thesis using b(2) by (simp add: va_pte_def pp same_page_iff)
  next
    case False
    then have "pde_present s pd (PDX vb) \<Longrightarrow> pt_frame s pd (PDX vb) \<noteq> pt_frame s pd (PDX va)"
      using ok p d b(1) by (simp add: pgdir_ok_def)
    then show ?thesis by (auto simp: va_pte_def pp)
  qed
qed

section \<open>Walking\<close>

lemma KADDR_in: "PGNUM pa < npages s \<Longrightarrow> KADDR s pa = Some (PGNUM pa)"
  by (simp add: KADDR_def)

lemma pgdir_walk_present:
  assumes "pgdir_ok s pd" and "PDX va \<noteq> PDX UVPT" and "pde_present s pd (PDX va)"
  shows "pgdir_walk pd va c s = Some (Some (pt_frame s pd (PDX va), PTX va), s)"
  using assms by (simp add: pgdir_walk_def pgdir_ok_def pde_present_def pt_frame_def read_pte_def KADDR_in)

lemma pgdir_walk_absent:
  "\<not> pde_present s pd (PDX va) \<Longrightarrow> pgdir_walk pd va False s = Some (None, s)"
  by (simp add: pgdir_walk_def pde_present_def read_pte_def)

lemma pgdir_walk_no_memory:
  assumes "\<not> pde_present s pd (PDX va)" and "pages_inv s" and "free_pages s = []"
  shows "pgdir_walk pd va True s = Some (None, s)"
  using assms by (simp add: pgdir_walk_def pde_present_def read_pte_def create_page_table_def page_alloc_Nil)

text \<open>The state after a walk that took the free page \<open>p\<close> for a new page table.\<close>

definition walk_state :: "nat \<Rightarrow> nat \<Rightarrow> nat \<Rightarrow> kst \<Rightarrow> kst" where
  "walk_state pd d p s =
     write_pte (pd, d) (page2pa p OR PTE_P OR PTE_W OR PTE_U)
       (set_page p (((pages (alloc_state ALLOC_ZERO p s)) ! p)\<lparr>pp_ref :=
            pp_ref ((pages (alloc_state ALLOC_ZERO p s)) ! p) + 1\<rparr>) (alloc_state ALLOC_ZERO p s))"

lemma new_pde: "(page2pa p OR PTE_P OR PTE_W OR PTE_U) AND PTE_P \<noteq> 0"
  by (simp add: bit.conj_disj_distrib2 mmu_consts or_eq_0_iff)

lemma new_pde_frame: "p < 2 ^ 20 \<Longrightarrow> PGNUM (PTE_ADDR (page2pa p OR PTE_P OR PTE_W OR PTE_U)) = p"
  using PGNUM_entry[of p "PTE_P OR PTE_W OR PTE_U"] by (simp add: flags_only_or or.assoc)

lemma pgdir_walk_create:
  assumes inv: "pages_inv s" and ok: "pgdir_ok s pd" and d: "PDX va \<noteq> PDX UVPT"
    and ab: "\<not> pde_present s pd (PDX va)" and av: "free_pages s = p # ps"
  defines "t \<equiv> walk_state pd (PDX va) p s"
  shows "pgdir_walk pd va True s = Some (Some (p, PTX va), t)"
    and "pages_inv t" and "free_pages t = ps" and "pgdir_ok t pd"
    and "pde_present t pd (PDX va)" and "pt_frame t pd (PDX va) = p"
    and "PDX vb \<noteq> PDX UVPT \<Longrightarrow> va_pte t pd vb = va_pte s pd vb"
    and "npages t = npages s" and "envs t = envs s" and "curenv t = curenv s"
    and "q < npages s \<Longrightarrow> pp_ref (pages t ! q) = pp_ref (pages s ! q) + (if q = p then 1 else 0)"
proof -
  let ?a = "alloc_state ALLOC_ZERO p s"
  note D = pages_invD[OF inv]
  note A = page_alloc_Cons[OF inv av, of ALLOC_ZERO]
  have p1: "p < npages s" using D(7)[of p] av by simp
  have p: "p < npages s" "p < 2 ^ 20" "p \<notin> set ps" "p \<noteq> pd"
    using p1 D(2,4) av ok by (auto simp: pgdir_ok_def)
  have z: "ALLOC_ZERO AND ALLOC_ZERO \<noteq> 0" by (simp add: ALLOC_ZERO_def)
  have inc: "page_incref p ?a = Some (set_page p ((pages ?a ! p)\<lparr>pp_ref := pp_ref (pages ?a ! p) + 1\<rparr>) ?a)"
    using page_incref_eq[OF A(2), of p] p by simp
  have cp: "create_page_table (pd, PDX va) s = Some (True, t)"
    unfolding create_page_table_def A(1) t_def walk_state_def using inc by simp
  have pres: "pde_present t pd (PDX va)" unfolding t_def walk_state_def pde_present_def
    using new_pde by simp
  show "pde_present t pd (PDX va)" by (fact pres)
  have fr: "pt_frame t pd (PDX va) = p" unfolding t_def walk_state_def pt_frame_def
    using new_pde_frame[OF p(2)] by simp
  show "pt_frame t pd (PDX va) = p" by (fact fr)
  show np: "npages t = npages s" and "envs t = envs s" and "curenv t = curenv s"
    by (simp_all add: t_def walk_state_def)
  have "KADDR t (PTE_ADDR (pmem t pd (PDX va))) = Some p"
    using fr p np by (simp add: KADDR_def pt_frame_def)
  then show "pgdir_walk pd va True s = Some (Some (p, PTX va), t)"
    using ab cp by (simp add: pgdir_walk_def pde_present_def read_pte_def)
  have I: "pages_inv (set_page p ((pages ?a ! p)\<lparr>pp_ref := r\<rparr>) ?a)"
          "free_pages (set_page p ((pages ?a ! p)\<lparr>pp_ref := r\<rparr>) ?a) = ps" for r
    using pages_inv_set_ref[OF A(2), of p r] A(3) p by auto
  show "pages_inv t" unfolding t_def walk_state_def using I(1) by simp
  show fp: "free_pages t = ps" unfolding t_def walk_state_def using I(2) by simp
  have dir: "i \<noteq> PDX va \<Longrightarrow> pmem t pd i = pmem s pd i" for i
    using p(4) z by (simp add: t_def walk_state_def)
  have oth: "f \<noteq> pd \<Longrightarrow> f \<noteq> p \<Longrightarrow> pmem t f i = pmem s f i" for f i
    by (simp add: t_def walk_state_def)
  have zp: "pmem t p i = 0" for i using z p(4) by (simp add: t_def walk_state_def)
  have pp: "i \<noteq> PDX va \<Longrightarrow> pde_present t pd i = pde_present s pd i"
           "i \<noteq> PDX va \<Longrightarrow> pt_frame t pd i = pt_frame s pd i" for i
    by (simp_all add: pde_present_def pt_frame_def dir)
  have old: "pde_present s pd i \<Longrightarrow> i < 1024 \<Longrightarrow> i \<noteq> PDX UVPT \<Longrightarrow>
      pt_frame s pd i < npages s \<and> pt_frame s pd i \<noteq> p \<and> pt_frame s pd i \<notin> set ps \<and> pt_frame s pd i \<noteq> pd" for i
    using ok av by (auto simp: pgdir_ok_def)
  show "pgdir_ok t pd"
    unfolding pgdir_ok_def
  proof (intro conjI allI impI)
    show "pd < npages t" "pd \<notin> set (free_pages t)" using ok av np fp by (auto simp: pgdir_ok_def)
  next
    fix i assume i: "i < 1024" "i \<noteq> PDX UVPT \<and> pde_present t pd i"
    show "pt_frame t pd i < npages t" "pt_frame t pd i \<notin> set (free_pages t)" "pt_frame t pd i \<noteq> pd"
      using i old[of i] pp[of i] fr p np fp by (cases "i = PDX va"; auto)+
  next
    fix i j assume ij: "i < 1024" "j < 1024"
      "i \<noteq> PDX UVPT \<and> j \<noteq> PDX UVPT \<and> pde_present t pd i \<and> pde_present t pd j \<and> i \<noteq> j"
    show "pt_frame t pd i \<noteq> pt_frame t pd j"
      using ij old[of i] old[of j] pp fr ok
      by (cases "i = PDX va"; cases "j = PDX va") (auto simp: pgdir_ok_def)
  qed
  show "q < npages s \<Longrightarrow> pp_ref (pages t ! q) = pp_ref (pages s ! q) + (if q = p then 1 else 0)"
    using D(1) p by (auto simp: t_def walk_state_def nth_update_if)
  assume b: "PDX vb \<noteq> PDX UVPT"
  show "va_pte t pd vb = va_pte s pd vb"
  proof (cases "PDX vb = PDX va")
    case True
    then show ?thesis using ab pres fr zp by (simp add: va_pte_def)
  next
    case False
    then show ?thesis using pp[OF False] old[of "PDX vb"] b oth by (auto simp: va_pte_def)
  qed
qed

section \<open>Looking up, removing, inserting\<close>

text \<open>The frame that an entry points at.\<close>

definition pte_page :: "u32 \<Rightarrow> nat" where
  "pte_page e = PGNUM (PTE_ADDR e)"

lemma or_PTE_P_nonzero: "x OR PTE_P \<noteq> 0"
  by (simp add: or_eq_0_iff mmu_consts)

lemma page_lookup_absent:
  "\<not> pde_present s pd (PDX va) \<Longrightarrow> page_lookup pd va s = Some (None, s)"
  by (simp add: page_lookup_def pgdir_walk_absent)

text \<open>Where a page table exists the present bit of the entry plays no part.\<close>

lemma page_lookup_present:
  assumes "pgdir_ok s pd" and "PDX va \<noteq> PDX UVPT" and "pde_present s pd (PDX va)"
  shows "page_lookup pd va s =
    (if pte_page (va_pte s pd va) < npages s
     then Some (Some (pte_page (va_pte s pd va), (pt_frame s pd (PDX va), PTX va)), s) else None)"
  using assms by (simp add: page_lookup_def pgdir_walk_present or_PTE_P_nonzero read_pte_def
      va_pte_def pte_page_def pa2page_def)

text \<open>A page that a directory may map: not free, and not one of the directory's own frames.\<close>

definition leaf_ok :: "kst \<Rightarrow> nat \<Rightarrow> nat \<Rightarrow> bool" where
  "leaf_ok s pd q \<longleftrightarrow> q < npages s \<and> q \<notin> set (free_pages s) \<and> q \<noteq> pd
     \<and> (\<forall>i < 1024. i \<noteq> PDX UVPT \<and> pde_present s pd i \<longrightarrow> pt_frame s pd i \<noteq> q)"

lemma pgdir_ok_free:
  assumes "pgdir_ok s pd" and "leaf_ok s pd q" and "same_rest t s"
    and "set (free_pages t) \<subseteq> insert q (set (free_pages s))"
  shows "pgdir_ok t pd"
  using assms unfolding pgdir_ok_def leaf_ok_def pde_present_same_rest[OF assms(3)]
  by (auto simp: same_rest_def)

text \<open>Whether the TLB entry of a directory is flushed, see \<open>tlb_invalidate\<close>.\<close>

definition tlb_current :: "kst \<Rightarrow> nat \<Rightarrow> bool" where
  "tlb_current s pd \<longleftrightarrow> (case curenv s of None \<Rightarrow> True
     | Some c \<Rightarrow> (case env_at s c of None \<Rightarrow> False | Some e \<Rightarrow> env_pgdir e = Some pd))"

lemma tlb_invalidate_eq:
  "tlb_invalidate pd va s = (if tlb_current s pd then s\<lparr>tlb_log := va # tlb_log s\<rparr> else s)"
  by (simp add: tlb_invalidate_def tlb_current_def)

lemma tlb_invalidate_simps [simp]:
  "pmem (tlb_invalidate pd va s) = pmem s" "pages (tlb_invalidate pd va s) = pages s"
  "npages (tlb_invalidate pd va s) = npages s" "page_free_list (tlb_invalidate pd va s) = page_free_list s"
  "envs (tlb_invalidate pd va s) = envs s" "curenv (tlb_invalidate pd va s) = curenv s"
  "env_free_list (tlb_invalidate pd va s) = env_free_list s"
  "kern_pgdir (tlb_invalidate pd va s) = kern_pgdir s" "cr3 (tlb_invalidate pd va s) = cr3 s"
  "free_pages (tlb_invalidate pd va s) = free_pages s" "pages_inv (tlb_invalidate pd va s) = pages_inv s"
  by (simp_all add: tlb_invalidate_eq free_pages_def pages_inv_def)

lemma tlb_invalidate_view [simp]:
  "va_pte (tlb_invalidate pd va s) pd' vb = va_pte s pd' vb"
  "pgdir_ok (tlb_invalidate pd va s) pd' = pgdir_ok s pd'"
  "pde_present (tlb_invalidate pd va s) pd' d = pde_present s pd' d"
  "pt_frame (tlb_invalidate pd va s) pd' d = pt_frame s pd' d"
  by (simp_all add: va_pte_def pgdir_ok_def pde_present_def pt_frame_def)

lemma page_remove_absent:
  "\<not> pde_present s pd (PDX va) \<Longrightarrow> page_remove pd va s = Some s"
  by (simp add: page_remove_def page_lookup_absent)

lemma page_remove_spec:
  assumes inv: "pages_inv s" and ok: "pgdir_ok s pd" and d: "PDX va \<noteq> PDX UVPT"
    and pres: "pde_present s pd (PDX va)" and leaf: "leaf_ok s pd (pte_page (va_pte s pd va))"
  shows "\<exists>t. page_remove pd va s = Some t \<and> pages_inv t \<and> pgdir_ok t pd \<and> npages t = npages s
     \<and> va_pte t pd va = 0
     \<and> (\<forall>vb. PDX vb \<noteq> PDX UVPT \<and> PGNUM vb \<noteq> PGNUM va \<longrightarrow> va_pte t pd vb = va_pte s pd vb)
     \<and> (\<forall>i. pde_present t pd i = pde_present s pd i \<and> pt_frame t pd i = pt_frame s pd i)
     \<and> (\<forall>q < npages s. pp_ref (pages t ! q) =
          pp_ref (pages s ! q) - (if q = pte_page (va_pte s pd va) then 1 else 0))
     \<and> free_pages t = (if pp_ref (pages s ! pte_page (va_pte s pd va)) = 1
          then pte_page (va_pte s pd va) # free_pages s else free_pages s)
     \<and> tlb_log t = (if tlb_current s pd then va # tlb_log s else tlb_log s)"
proof -
  let ?q = "pte_page (va_pte s pd va)" and ?loc = "(pt_frame s pd (PDX va), PTX va)"
  from leaf have q: "?q < npages s" "?q \<notin> set (free_pages s)" by (auto simp: leaf_ok_def)
  from page_decref_spec[OF inv q] obtain u where
    u: "page_decref ?q s = Some u" "pages_inv u" "same_rest u s"
       "free_pages u = (if pp_ref (pages s ! ?q) = 1 then ?q # free_pages s else free_pages s)"
       "\<forall>p < npages s. pp_ref (pages u ! p) = pp_ref (pages s ! p) - (if p = ?q then 1 else 0)" by blast
  have oku: "pgdir_ok u pd" by (rule pgdir_ok_free[OF ok leaf u(3)]) (use u(4) in auto)
  note S = pde_present_same_rest[OF u(3)]
  have presu: "pde_present u pd (PDX va)" using pres by (simp add: S)
  define w where "w = write_pte ?loc 0 u"
  have W: "va_pte w pd va = 0" "pgdir_ok w pd"
    "\<And>vb. PDX vb \<noteq> PDX UVPT \<Longrightarrow> PGNUM vb \<noteq> PGNUM va \<Longrightarrow> va_pte w pd vb = va_pte s pd vb"
    using va_pte_write[OF oku presu d, where v = 0] va_pte_same_rest[OF u(3)] by (simp_all add: w_def S)
  have wr: "(if read_pte u ?loc \<noteq> 0 then write_pte ?loc 0 u else u) = w"
  proof (cases "read_pte u ?loc = 0")
    case True
    then have "(pmem u (fst ?loc))(snd ?loc := 0) = pmem u (fst ?loc)"
      by (simp add: read_pte_def fun_upd_idem)
    then have "w = u" by (simp add: w_def write_pte_def)
    then show ?thesis by (simp add: w_def)
  qed (simp add: w_def)
  have rem: "page_remove pd va s = Some (tlb_invalidate pd va w)"
    using page_lookup_present[OF ok d pres] q u(1) wr by (simp add: page_remove_def)
  have ne: "pt_frame s pd (PDX va) \<noteq> pd" using ok pres d by (simp add: pgdir_ok_def)
  then have "pmem w pd i = pmem s pd i" for i using u(3) by (simp add: w_def same_rest_def)
  then have pw: "pde_present w pd i = pde_present s pd i" "pt_frame w pd i = pt_frame s pd i" for i
    by (simp_all add: pde_present_def pt_frame_def)
  have "tlb_current w pd = tlb_current s pd"
    using u(3) by (simp add: w_def tlb_current_def env_at_def same_rest_def split: option.splits)
  then have tlb: "tlb_log (tlb_invalidate pd va w) = (if tlb_current s pd then va # tlb_log s else tlb_log s)"
    using u(3) by (simp add: tlb_invalidate_eq w_def same_rest_def)
  show ?thesis
    by (rule exI[of _ "tlb_invalidate pd va w"])
       (use rem W pw tlb u in \<open>simp add: w_def same_rest_def\<close>)
qed

text \<open>
  \<open>page_insert\<close> where the page table exists or can be allocated.  \<open>old\<close> is the page that
  was mapped at \<open>va\<close>; the counts are exact also when the same page is inserted again.
\<close>

lemma page_insert_into_table:
  assumes inv: "pages_inv s" and ok: "pgdir_ok s pd" and d: "PDX va \<noteq> PDX UVPT"
    and pres: "pde_present s pd (PDX va)" and leaf: "leaf_ok s pd pp"
    and old: "va_pte s pd va AND PTE_P \<noteq> 0 \<Longrightarrow>
        leaf_ok s pd (pte_page (va_pte s pd va)) \<and> pp_ref (pages s ! pte_page (va_pte s pd va)) \<noteq> 0"
  defines "q \<equiv> pte_page (va_pte s pd va)" and "mapped \<equiv> va_pte s pd va AND PTE_P \<noteq> 0"
  shows "\<exists>u t. page_incref pp s = Some u
     \<and> (if read_pte u (pt_frame s pd (PDX va), PTX va) AND PTE_P \<noteq> 0 then page_remove pd va u else Some u)
        = Some t
     \<and> pages_inv t \<and> pgdir_ok t pd \<and> npages t = npages s
     \<and> pde_present t pd (PDX va) \<and> pt_frame t pd (PDX va) = pt_frame s pd (PDX va)
     \<and> (\<forall>vb. PDX vb \<noteq> PDX UVPT \<and> PGNUM vb \<noteq> PGNUM va \<longrightarrow> va_pte t pd vb = va_pte s pd vb)
     \<and> (\<forall>r < npages s. pp_ref (pages t ! r) = pp_ref (pages s ! r)
          + (if r = pp then 1 else 0) - (if mapped \<and> r = q then 1 else 0))
     \<and> pp \<notin> set (free_pages t)"
proof -
  from leaf have pp: "pp < npages s" "pp \<notin> set (free_pages s)" by (auto simp: leaf_ok_def)
  from page_incref_spec[OF inv pp] obtain u where
    u: "page_incref pp s = Some u" "pages_inv u" "same_rest u s" "free_pages u = free_pages s"
       "\<forall>r < npages s. pp_ref (pages u ! r) = pp_ref (pages s ! r) + (if r = pp then 1 else 0)" by blast
  note S = pde_present_same_rest[OF u(3)] va_pte_same_rest[OF u(3)]
  have oku: "pgdir_ok u pd" using pgdir_ok_same_rest[OF u(3)] u(4) ok by simp
  have presu: "pde_present u pd (PDX va)" using pres by (simp add: S)
  have rd: "read_pte u (pt_frame s pd (PDX va), PTX va) = va_pte s pd va"
    using pres u(3) by (simp add: read_pte_def va_pte_def same_rest_def)
  have npu: "npages u = npages s" using u(3) by (simp add: same_rest_def)
  show ?thesis
  proof (cases mapped)
    case False
    then show ?thesis using u oku presu pp S npu rd
      by (intro exI[of _ u]) (simp add: mapped_def)
  next
    case True
    with old have lq: "leaf_ok s pd q" and rq: "pp_ref (pages s ! q) \<noteq> 0"
      by (auto simp: mapped_def q_def)
    have lqu: "leaf_ok u pd (pte_page (va_pte u pd va))"
      using lq u(4) npu by (simp add: leaf_ok_def S q_def)
    from page_remove_spec[OF u(2) oku d presu lqu] obtain t where
      t: "page_remove pd va u = Some t" "pages_inv t" "pgdir_ok t pd" "npages t = npages u"
         "\<forall>vb. PDX vb \<noteq> PDX UVPT \<and> PGNUM vb \<noteq> PGNUM va \<longrightarrow> va_pte t pd vb = va_pte u pd vb"
         "\<forall>i. pde_present t pd i = pde_present u pd i \<and> pt_frame t pd i = pt_frame u pd i"
         "\<forall>r < npages u. pp_ref (pages t ! r) = pp_ref (pages u ! r) - (if r = q then 1 else 0)"
         "free_pages t = (if pp_ref (pages u ! q) = 1 then q # free_pages u else free_pages u)"
      by (auto simp: S q_def)
    have q: "q < npages s" using lq by (simp add: leaf_ok_def)
    have "pp \<notin> set (free_pages t)"
    proof (cases "q = pp")
      case True
      then have "pp_ref (pages u ! q) \<noteq> 1" using u(5) q rq by simp
      then show ?thesis using t(8) u(4) pp by simp
    next
      case False
      then show ?thesis using t(8) u(4) pp by simp
    qed
    then show ?thesis using t u(1,5) True presu S npu rd
      by (intro exI[of _ u] exI[of _ t]) (simp add: mapped_def)
  qed
qed

text \<open>The whole of \<open>page_insert\<close>; the page table is allocated when it is missing.\<close>

definition new_table :: "kst \<Rightarrow> nat \<Rightarrow> u32 \<Rightarrow> nat option" where
  "new_table s pd va = (if pde_present s pd (PDX va) then None else
     (case free_pages s of [] \<Rightarrow> None | p # _ \<Rightarrow> Some p))"

lemma page_insert_no_memory:
  assumes "pages_inv s" and "\<not> pde_present s pd (PDX va)" and "free_pages s = []"
  shows "page_insert pd pp va perm s = Some (- E_NO_MEM, s)"
  using pgdir_walk_no_memory[OF assms(2,1,3)] by (simp add: page_insert_def)

lemma page_insert_present:
  assumes inv: "pages_inv s" and ok: "pgdir_ok s pd" and d: "PDX va \<noteq> PDX UVPT"
    and pres: "pde_present s pd (PDX va)" and leaf: "leaf_ok s pd pp"
    and old: "va_pte s pd va AND PTE_P \<noteq> 0 \<Longrightarrow>
        leaf_ok s pd (pte_page (va_pte s pd va)) \<and> pp_ref (pages s ! pte_page (va_pte s pd va)) \<noteq> 0"
    and walk: "pgdir_walk pd va True s0 = Some (Some (pt_frame s pd (PDX va), PTX va), s)"
  shows "\<exists>t. page_insert pd pp va perm s0 = Some (0, t) \<and> pages_inv t \<and> pgdir_ok t pd
     \<and> npages t = npages s
     \<and> va_pte t pd va = page2pa pp OR perm OR PTE_P
     \<and> pde_present t pd (PDX va) \<and> pp \<notin> set (free_pages t)
     \<and> (\<forall>vb. PDX vb \<noteq> PDX UVPT \<and> PGNUM vb \<noteq> PGNUM va \<longrightarrow> va_pte t pd vb = va_pte s pd vb)
     \<and> (\<forall>r < npages s. pp_ref (pages t ! r) = pp_ref (pages s ! r) + (if r = pp then 1 else 0)
          - (if va_pte s pd va AND PTE_P \<noteq> 0 \<and> r = pte_page (va_pte s pd va) then 1 else 0))"
proof -
  let ?loc = "(pt_frame s pd (PDX va), PTX va)"
  from page_insert_into_table[OF inv ok d pres leaf old] obtain u t where
    u: "page_incref pp s = Some u" and
    t: "(if read_pte u ?loc AND PTE_P \<noteq> 0 then page_remove pd va u else Some u) = Some t"
       "pages_inv t" "pgdir_ok t pd" "npages t = npages s" "pde_present t pd (PDX va)"
       "pt_frame t pd (PDX va) = pt_frame s pd (PDX va)"
       "\<forall>vb. PDX vb \<noteq> PDX UVPT \<and> PGNUM vb \<noteq> PGNUM va \<longrightarrow> va_pte t pd vb = va_pte s pd vb"
       "\<forall>r < npages s. pp_ref (pages t ! r) = pp_ref (pages s ! r) + (if r = pp then 1 else 0)
          - (if va_pte s pd va AND PTE_P \<noteq> 0 \<and> r = pte_page (va_pte s pd va) then 1 else 0)"
       "pp \<notin> set (free_pages t)"
    by blast
  let ?w = "write_pte ?loc (page2pa pp OR perm OR PTE_P) t"
  have W: "va_pte ?w pd va = page2pa pp OR perm OR PTE_P" "pgdir_ok ?w pd"
    "\<And>vb. PDX vb \<noteq> PDX UVPT \<Longrightarrow> PGNUM vb \<noteq> PGNUM va \<Longrightarrow> va_pte ?w pd vb = va_pte t pd vb"
    using va_pte_write[OF t(3,5) d, where v = "page2pa pp OR perm OR PTE_P"] t(6) by simp_all
  have ne: "pt_frame s pd (PDX va) \<noteq> pd" using ok pres d by (simp add: pgdir_ok_def)
  have "pde_present ?w pd (PDX va)" using t(5) ne by (simp add: pde_present_def)
  moreover have "page_insert pd pp va perm s0 = Some (0, ?w)"
    using walk u t(1) by (simp add: page_insert_def)
  ultimately show ?thesis using W t by (intro exI[of _ ?w]) simp
qed

lemma page_insert_spec:
  assumes inv: "pages_inv s" and ok: "pgdir_ok s pd" and d: "PDX va \<noteq> PDX UVPT"
    and leaf: "leaf_ok s pd pp"
    and old: "va_pte s pd va AND PTE_P \<noteq> 0 \<Longrightarrow>
        leaf_ok s pd (pte_page (va_pte s pd va)) \<and> pp_ref (pages s ! pte_page (va_pte s pd va)) \<noteq> 0"
    and room: "pde_present s pd (PDX va) \<or> free_pages s \<noteq> []"
  shows "\<exists>t. page_insert pd pp va perm s = Some (0, t) \<and> pages_inv t \<and> pgdir_ok t pd
     \<and> npages t = npages s
     \<and> va_pte t pd va = page2pa pp OR perm OR PTE_P
     \<and> pde_present t pd (PDX va) \<and> pp \<notin> set (free_pages t)
     \<and> (\<forall>vb. PDX vb \<noteq> PDX UVPT \<and> PGNUM vb \<noteq> PGNUM va \<longrightarrow> va_pte t pd vb = va_pte s pd vb)
     \<and> (\<forall>r < npages s. pp_ref (pages t ! r) = pp_ref (pages s ! r) + (if r = pp then 1 else 0)
          + (if new_table s pd va = Some r then 1 else 0)
          - (if va_pte s pd va AND PTE_P \<noteq> 0 \<and> r = pte_page (va_pte s pd va) then 1 else 0))"
proof (cases "pde_present s pd (PDX va)")
  case True
  show ?thesis
    using page_insert_present[OF inv ok d True leaf old pgdir_walk_present[OF ok d True]] True
    by (simp add: new_table_def)
next
  case False
  with room obtain p ps where av: "free_pages s = p # ps" by (cases "free_pages s") auto
  let ?w = "walk_state pd (PDX va) p s"
  note W = pgdir_walk_create[OF inv ok d False av]
  have z: "va_pte ?w pd va = 0" using W(7)[OF d] False by (simp add: va_pte_def)
  have "pp < npages s" "pp \<noteq> p" "pp \<notin> set ps" "pp \<noteq> pd"
    "\<And>i. i < 1024 \<Longrightarrow> i \<noteq> PDX UVPT \<Longrightarrow> pde_present s pd i \<Longrightarrow> pt_frame s pd i \<noteq> pp"
    using leaf av by (auto simp: leaf_ok_def)
  moreover have "pde_present ?w pd i \<Longrightarrow> i \<noteq> PDX va \<Longrightarrow> pde_present s pd i \<and> pt_frame ?w pd i = pt_frame s pd i" for i
    using leaf av ok pages_invD(2,7)[OF inv]
    by (auto simp: walk_state_def pde_present_def pt_frame_def pgdir_ok_def split: if_splits)
  ultimately have lw: "leaf_ok ?w pd pp"
    unfolding leaf_ok_def W(3,8) by (metis W(6))
  have walk: "pgdir_walk pd va True s = Some (Some (pt_frame ?w pd (PDX va), PTX va), ?w)"
    using W(1,6) by simp
  have old': "va_pte ?w pd va AND PTE_P \<noteq> 0 \<Longrightarrow> leaf_ok ?w pd (pte_page (va_pte ?w pd va))
      \<and> pp_ref (pages ?w ! pte_page (va_pte ?w pd va)) \<noteq> 0" using z by simp
  have sz: "va_pte s pd va = 0" using False by (simp add: va_pte_def)
  have nt: "new_table s pd va = Some p" using False av by (simp add: new_table_def)
  from page_insert_present[OF W(2) W(4) d W(5) lw old' walk, where perm = perm] obtain t where
    t: "page_insert pd pp va perm s = Some (0, t)" "pages_inv t" "pgdir_ok t pd"
       "npages t = npages s" "va_pte t pd va = page2pa pp OR perm OR PTE_P"
       "pde_present t pd (PDX va)" "pp \<notin> set (free_pages t)"
       "\<forall>vb. PDX vb \<noteq> PDX UVPT \<and> PGNUM vb \<noteq> PGNUM va \<longrightarrow> va_pte t pd vb = va_pte ?w pd vb"
       "\<forall>r < npages s. pp_ref (pages t ! r) = pp_ref (pages ?w ! r) + (if r = pp then 1 else 0)"
    using z W(8) by auto
  have "\<forall>vb. PDX vb \<noteq> PDX UVPT \<and> PGNUM vb \<noteq> PGNUM va \<longrightarrow> va_pte t pd vb = va_pte s pd vb"
    using t(8) W(7) by simp
  moreover have "\<forall>r < npages s. pp_ref (pages t ! r) = pp_ref (pages s ! r) + (if r = pp then 1 else 0)
      + (if new_table s pd va = Some r then 1 else 0)"
    using t(9) W(11) nt by (auto simp: add.commute add.left_commute)
  ultimately show ?thesis using t sz by (intro exI[of _ t]) simp
qed

section \<open>Mapping a region at boot\<close>

lemma unat_add_pages:
  "unat va + 4096 * i < 2 ^ 32 \<Longrightarrow> unat (va + word_of_nat i * PGSIZE) = unat va + 4096 * i"
  by (simp add: unat_word_ariths unat_of_nat take_bit_eq_mod mmu_consts mod_mult_left_eq mult.commute
      mod_add_right_eq)

lemma PGNUM_add_pages:
  "unat va + 4096 * i < 2 ^ 32 \<Longrightarrow> PGNUM (va + word_of_nat i * PGSIZE) = PGNUM va + i"
  by (simp add: PGNUM_arith unat_add_pages)

text \<open>
  One round of the loop: the walk succeeds when a page is left for the page table, and the
  entry is written.
\<close>

lemma boot_map_round:
  assumes inv: "pages_inv s" and ok: "pgdir_ok s pd" and d: "PDX va \<noteq> PDX UVPT"
    and room: "free_pages s \<noteq> []"
  shows "\<exists>e t. pgdir_walk pd va True s = Some (Some e, t)
     \<and> pages_inv (write_pte e v t) \<and> pgdir_ok (write_pte e v t) pd
     \<and> va_pte (write_pte e v t) pd va = v
     \<and> (\<forall>vb. PDX vb \<noteq> PDX UVPT \<and> PGNUM vb \<noteq> PGNUM va \<longrightarrow> va_pte (write_pte e v t) pd vb = va_pte s pd vb)
     \<and> length (free_pages s) \<le> Suc (length (free_pages (write_pte e v t)))
     \<and> npages t = npages s"
proof (cases "pde_present s pd (PDX va)")
  case True
  then show ?thesis
    using pgdir_walk_present[OF ok d True] va_pte_write[OF ok True d, where v = v] inv by simp
next
  case False
  from room obtain p ps where av: "free_pages s = p # ps" by (cases "free_pages s") auto
  note W = pgdir_walk_create[OF inv ok d False av]
  show ?thesis
    using W(1,2,3,6,7,8) va_pte_write[OF W(4,5) d, where v = v] av by simp
qed

lemma boot_map_loop:
  assumes "pages_inv s" and "pgdir_ok s pd"
    and "\<And>i. i < n \<Longrightarrow> PDX (va + word_of_nat i * PGSIZE) \<noteq> PDX UVPT"
    and "unat va + 4096 * n \<le> 2 ^ 32" and "n \<le> length (free_pages s)"
    and "unat sz \<le> unat aux + 4096 * n" and "n = 0 \<or> unat aux + 4096 * (n - 1) < unat sz"
    and "unat sz \<le> 2 ^ 32 - 4096"
  shows "\<exists>t. boot_map_region_loop pd aux va sz pa perm s = Some t \<and> pages_inv t \<and> pgdir_ok t pd
     \<and> (\<forall>i < n. va_pte t pd (va + word_of_nat i * PGSIZE) = (pa + word_of_nat i * PGSIZE) OR perm OR PTE_P)
     \<and> (\<forall>vb. PDX vb \<noteq> PDX UVPT \<and> (\<forall>i < n. PGNUM vb \<noteq> PGNUM (va + word_of_nat i * PGSIZE)) \<longrightarrow>
           va_pte t pd vb = va_pte s pd vb)
     \<and> length (free_pages s) \<le> length (free_pages t) + n \<and> npages t = npages s"
  using assms
proof (induction n arbitrary: aux va pa s)
  case 0
  then have "\<not> aux < sz" by (simp add: word_less_nat_alt)
  then show ?case using 0 by (subst boot_map_region_loop.simps) simp
next
  case (Suc n)
  have lt: "aux < sz" using Suc.prems(7) by (simp add: word_less_nat_alt)
  have d: "PDX va \<noteq> PDX UVPT" using Suc.prems(3)[of 0] by simp
  have fp: "free_pages s \<noteq> []" using Suc.prems(5) by auto
  let ?v = "pa OR perm OR PTE_P"
  from boot_map_round[OF Suc.prems(1,2) d fp, of ?v] obtain e t where
    e: "pgdir_walk pd va True s = Some (Some e, t)" and
    w: "pages_inv (write_pte e ?v t)" "pgdir_ok (write_pte e ?v t) pd"
       "va_pte (write_pte e ?v t) pd va = ?v"
       "\<forall>vb. PDX vb \<noteq> PDX UVPT \<and> PGNUM vb \<noteq> PGNUM va \<longrightarrow> va_pte (write_pte e ?v t) pd vb = va_pte s pd vb"
       "length (free_pages s) \<le> Suc (length (free_pages (write_pte e ?v t)))" "npages t = npages s"
    by blast
  let ?w = "write_pte e ?v t"
  have step: "boot_map_region_loop pd aux va sz pa perm s =
      boot_map_region_loop pd (aux + PGSIZE) (va + PGSIZE) sz (pa + PGSIZE) perm ?w"
    using lt e by (subst boot_map_region_loop.simps) simp
  have va1: "n = 0 \<or> unat (va + PGSIZE) = unat va + 4096"
  proof (cases "n = 0")
    case False
    then have "unat va + 4096 * 1 < 2 ^ 32" using Suc.prems(4) by (cases n) auto
    then show ?thesis using unat_add_pages[of va 1] by simp
  qed simp
  have aux1: "unat (aux + PGSIZE) = unat aux + 4096"
    using unat_add_pages[of aux 1] lt Suc.prems(8) by (simp add: word_less_nat_alt)
  have sh: "x + PGSIZE + word_of_nat i * PGSIZE = x + word_of_nat (Suc i) * PGSIZE" for x :: u32 and i
    by (simp add: algebra_simps)
  have IH: "\<exists>u. boot_map_region_loop pd (aux + PGSIZE) (va + PGSIZE) sz (pa + PGSIZE) perm ?w = Some u
     \<and> pages_inv u \<and> pgdir_ok u pd
     \<and> (\<forall>i < n. va_pte u pd (va + word_of_nat (Suc i) * PGSIZE) = (pa + word_of_nat (Suc i) * PGSIZE) OR perm OR PTE_P)
     \<and> (\<forall>vb. PDX vb \<noteq> PDX UVPT \<and> (\<forall>i < n. PGNUM vb \<noteq> PGNUM (va + word_of_nat (Suc i) * PGSIZE)) \<longrightarrow>
           va_pte u pd vb = va_pte ?w pd vb)
     \<and> length (free_pages ?w) \<le> length (free_pages u) + n \<and> npages u = npages ?w"
  proof (cases "n = 0")
    case True
    then have "\<not> aux + PGSIZE < sz" using Suc.prems(6) aux1 by (simp add: word_less_nat_alt)
    then show ?thesis using w True by (subst boot_map_region_loop.simps) simp
  next
    case False
    with va1 have va2: "unat (va + PGSIZE) = unat va + 4096" by simp
    show ?thesis
      using Suc.IH[of ?w "va + PGSIZE" "aux + PGSIZE" "pa + PGSIZE"] w Suc.prems False
      by (simp only: sh aux1 va2) (use Suc.prems(3) w(5) in auto)
  qed
  then obtain u where u: "boot_map_region_loop pd aux va sz pa perm s = Some u" "pages_inv u" "pgdir_ok u pd"
     "\<forall>i < n. va_pte u pd (va + word_of_nat (Suc i) * PGSIZE) = (pa + word_of_nat (Suc i) * PGSIZE) OR perm OR PTE_P"
     "\<forall>vb. PDX vb \<noteq> PDX UVPT \<and> (\<forall>i < n. PGNUM vb \<noteq> PGNUM (va + word_of_nat (Suc i) * PGSIZE)) \<longrightarrow>
           va_pte u pd vb = va_pte ?w pd vb"
     "length (free_pages ?w) \<le> length (free_pages u) + n" "npages u = npages s"
    using step w(6) by auto
  have ne: "PGNUM va \<noteq> PGNUM (va + word_of_nat (Suc i) * PGSIZE)" if "i < n" for i
  proof -
    have "unat va + 4096 * Suc i < 2 ^ 32" using that Suc.prems(4) by simp
    then show ?thesis by (simp only: PGNUM_add_pages)
  qed
  have "va_pte u pd va = ?v" using u(5) ne d w(3) by simp
  then have "\<forall>i < Suc n. va_pte u pd (va + word_of_nat i * PGSIZE) = (pa + word_of_nat i * PGSIZE) OR perm OR PTE_P"
    using u(4) by (auto simp del: of_nat_Suc simp: less_Suc_eq_0_disj)
  moreover have "va_pte u pd vb = va_pte s pd vb"
    if "PDX vb \<noteq> PDX UVPT" "\<forall>i < Suc n. PGNUM vb \<noteq> PGNUM (va + word_of_nat i * PGSIZE)" for vb
  proof -
    have "PGNUM vb \<noteq> PGNUM va" using that(2)[rule_format, of 0] by simp
    moreover have "\<forall>i < n. PGNUM vb \<noteq> PGNUM (va + word_of_nat (Suc i) * PGSIZE)"
      using that(2) by (simp del: of_nat_Suc)
    ultimately show ?thesis using u(5) w(4) that(1) by simp
  qed
  ultimately show ?case using u w(5) by auto
qed

end
