(* ===== verification/HwMem.thy ===== *)
theory HwMem
  imports PmapTables
begin

text \<open>
  Memory as the processor accesses it through the page tables of a directory: what
  \<open>memcpy\<close>, \<open>memset\<close> and plain assignments to a virtual address do when the kernel runs with
  that directory.  The kernel sets \<open>CR0_WP\<close>, so a store needs a writable entry; an access that
  the page tables do not allow is a fault, \<open>None\<close>.  The bytes of a word are in the
  little-endian order of the x86.
\<close>

definition get_byte :: "u32 \<Rightarrow> nat \<Rightarrow> u8" where
  "get_byte w k = ucast (drop_bit (8 * k) w)"

definition set_byte :: "u32 \<Rightarrow> nat \<Rightarrow> u8 \<Rightarrow> u32" where
  "set_byte w k b = (w AND NOT (push_bit (8 * k) 0xFF)) OR push_bit (8 * k) (ucast b)"

definition hw_frame :: "kst \<Rightarrow> nat \<Rightarrow> u32 \<Rightarrow> bool \<Rightarrow> nat option" where
  "hw_frame s pd va wr =
     (if pde_present s pd (PDX va) \<and> va_pte s pd va AND PTE_P \<noteq> 0
         \<and> (wr \<longrightarrow> pmem s pd (PDX va) AND PTE_W \<noteq> 0 \<and> va_pte s pd va AND PTE_W \<noteq> 0)
      then Some (pte_page (va_pte s pd va)) else None)"

definition load_byte :: "kst \<Rightarrow> nat \<Rightarrow> u32 \<Rightarrow> u8 option" where
  "load_byte s pd va = do {
     f \<leftarrow> hw_frame s pd va False;
     let off = unat (PGOFF va);
     Some (get_byte (pmem s f (off div 4)) (off mod 4))
   }"

definition store_byte :: "nat \<Rightarrow> u32 \<Rightarrow> u8 \<Rightarrow> kst \<Rightarrow> kst option" where
  "store_byte pd va b s = do {
     f \<leftarrow> hw_frame s pd va True;
     let off = unat (PGOFF va);
     Some (write_pte (f, off div 4) (set_byte (pmem s f (off div 4)) (off mod 4) b) s)
   }"

fun load_bytes :: "kst \<Rightarrow> nat \<Rightarrow> u32 \<Rightarrow> nat \<Rightarrow> u8 list option" where
  "load_bytes s pd va 0 = Some []"
| "load_bytes s pd va (Suc n) = do {
     b \<leftarrow> load_byte s pd va;
     bs \<leftarrow> load_bytes s pd (va + 1) n;
     Some (b # bs)
   }"

fun store_bytes :: "nat \<Rightarrow> u32 \<Rightarrow> u8 list \<Rightarrow> kst \<Rightarrow> kst option" where
  "store_bytes pd va [] s = Some s"
| "store_bytes pd va (b # bs) s = do {
     s \<leftarrow> store_byte pd va b s;
     store_bytes pd (va + 1) bs s
   }"

definition word_bytes :: "u32 \<Rightarrow> u8 list" where
  "word_bytes w = map (get_byte w) [0, 1, 2, 3]"

definition bytes_word :: "u8 list \<Rightarrow> u32" where
  "bytes_word bs = foldr (\<lambda>b w. push_bit 8 w OR ucast b) bs 0"

definition load_word :: "kst \<Rightarrow> nat \<Rightarrow> u32 \<Rightarrow> u32 option" where
  "load_word s pd va = map_option bytes_word (load_bytes s pd va 4)"

definition store_word :: "nat \<Rightarrow> u32 \<Rightarrow> u32 \<Rightarrow> kst \<Rightarrow> kst option" where
  "store_word pd va w s = store_bytes pd va (word_bytes w) s"

fun store_words :: "nat \<Rightarrow> u32 \<Rightarrow> u32 list \<Rightarrow> kst \<Rightarrow> kst option" where
  "store_words pd va [] s = Some s"
| "store_words pd va (w # ws) s = do {
     s \<leftarrow> store_word pd va w s;
     store_words pd (va + 4) ws s
   }"

section \<open>Bytes of a word\<close>

lemma bit_FF8: "bit (0xFF :: u32) n \<longleftrightarrow> n < 8"
proof -
  have "(0xFF :: u32) = mask 8" by (simp add: mask_eq_decr_exp)
  then show ?thesis by (simp only: bit_mask_iff) auto
qed

lemma get_set_byte:
  assumes "k < 4" and "j < 4"
  shows "get_byte (set_byte w k b) j = (if j = k then b else get_byte w j)"
proof (rule bit_word_eqI)
  fix n assume "n < LENGTH(8)"
  then have n: "n < 8" by simp
  have jk: "8 * j + n < 32" using assms n by simp
  have "bit (get_byte (set_byte w k b) j) n = bit (set_byte w k b) (8 * j + n)"
    using n by (simp add: get_byte_def bit_ucast_iff bit_drop_bit_eq)
  also have "\<dots> = (if j = k then bit b n else bit w (8 * j + n))"
  proof (cases "j = k")
    case True
    then show ?thesis using jk n bit_FF8[of n]
      unfolding set_byte_def bit_or_iff bit_and_iff bit_not_iff bit_push_bit_iff
      by (auto simp: bit_ucast_iff)
  next
    case False
    then consider "8 * j + n < 8 * k" | "8 * k + 8 \<le> 8 * j + n" using n by linarith
    then show ?thesis
    proof cases
      case 1
      then show ?thesis using False jk unfolding set_byte_def bit_or_iff bit_and_iff bit_not_iff bit_push_bit_iff
        by simp
    next
      case 2
      then have "\<not> 8 * j + n - 8 * k < 8" by simp
      then show ?thesis using False jk 2 bit_FF8[of "8 * j + n - 8 * k"] unfolding set_byte_def bit_or_iff bit_and_iff bit_not_iff bit_push_bit_iff
        by (auto simp: bit_ucast_iff dest: bit_imp_le_length)
    qed
  qed
  also have "\<dots> = bit (if j = k then b else get_byte w j) n"
    using n by (simp add: get_byte_def bit_ucast_iff bit_drop_bit_eq)
  finally show "bit (get_byte (set_byte w k b) j) n = bit (if j = k then b else get_byte w j) n" .
qed

lemma bit_byte_high: "\<not> bit (b :: u8) n" if "8 \<le> n"
  using that by (auto dest: bit_imp_le_length)

lemma bit_get_byte: "bit (get_byte w k) n \<longleftrightarrow> n < 8 \<and> bit w (8 * k + n)"
  by (auto simp: get_byte_def bit_ucast_iff bit_drop_bit_eq)

lemma bit_bytes_word:
  "bit (bytes_word [a, b, c, d]) n \<longleftrightarrow>
     bit a n \<or> 8 \<le> n \<and> bit b (n - 8) \<or> 16 \<le> n \<and> bit c (n - 16) \<or> 24 \<le> n \<and> n < 32 \<and> bit d (n - 24)"
proof -
  have "bit x (n - k) \<Longrightarrow> n < 8 + k" for x :: u8 and k
    using bit_imp_le_length[of x "n - k"] by simp
  then show ?thesis
    by (auto simp: bytes_word_def bit_or_iff bit_push_bit_iff bit_ucast_iff dest: bit_imp_le_length)
qed

lemma bytes_word_bytes: "bytes_word (word_bytes w) = w"
proof (rule bit_word_eqI)
  fix n assume n: "n < LENGTH(32)"
  have "word_bytes w = [get_byte w 0, get_byte w 1, get_byte w 2, get_byte w 3]"
    by (simp add: word_bytes_def)
  then have b: "bit (bytes_word (word_bytes w)) n \<longleftrightarrow>
      n < 8 \<and> bit w n \<or> 8 \<le> n \<and> n - 8 < 8 \<and> bit w (8 + (n - 8))
      \<or> 16 \<le> n \<and> n - 16 < 8 \<and> bit w (16 + (n - 16))
      \<or> 24 \<le> n \<and> n < 32 \<and> n - 24 < 8 \<and> bit w (24 + (n - 24))"
    by (simp only: bit_bytes_word bit_get_byte) simp
  consider "n < 8" | "8 \<le> n" "n < 16" | "16 \<le> n" "n < 24" | "24 \<le> n" "n < 32"
    using n by fastforce
  then show "bit (bytes_word (word_bytes w)) n = bit w n" unfolding b by cases (auto simp: less_diff_conv2)
qed

section \<open>A store changes one byte\<close>

text \<open>
  The frame that a store hits is not one of the frames that translate addresses, which is what
  keeps the translation of the other addresses.
\<close>

lemma PGOFF_less: "unat (PGOFF va) < 4096"
  by (simp add: PGOFF_def and_FFF take_bit_eq_mod unat_mod)

lemma load_store_same:
  assumes "store_byte pd va b s = Some t"
    and "hw_frame t pd va False = hw_frame s pd va True"
  shows "load_byte t pd va = Some b"
  using assms by (auto simp: store_byte_def load_byte_def bind_eq_Some_conv get_set_byte Let_def)

lemma hw_frame_after_store:
  assumes st: "store_byte pd va b s = Some t" and ok: "pgdir_ok s pd"
    and f: "hw_frame s pd va True = Some f" "leaf_ok s pd f"
    and d: "PDX vb \<noteq> PDX UVPT"
  shows "hw_frame t pd vb wr = hw_frame s pd vb wr"
proof -
  from st f(1) obtain i v where t: "t = write_pte (f, i) v s"
    by (auto simp: store_byte_def Let_def)
  have "f \<noteq> pd" using f(2) by (simp add: leaf_ok_def)
  then have "pde_present t pd i = pde_present s pd i" "pt_frame t pd i = pt_frame s pd i"
    "pmem t pd i = pmem s pd i" for i by (simp_all add: t pde_present_def pt_frame_def)
  moreover have "pde_present s pd (PDX vb) \<Longrightarrow> pt_frame s pd (PDX vb) \<noteq> f"
    using f(2) d by (simp add: leaf_ok_def)
  ultimately have "va_pte t pd vb = va_pte s pd vb" by (auto simp: va_pte_def t)
  then show ?thesis using \<open>\<And>i. pde_present t pd i = pde_present s pd i\<close> \<open>\<And>i. pmem t pd i = pmem s pd i\<close>
    by (simp add: hw_frame_def)
qed

lemma hw_frame_read: "hw_frame s pd va True = Some f \<Longrightarrow> hw_frame s pd va False = Some f"
  by (simp add: hw_frame_def split: if_splits)

text \<open>A store to a leaf page is read back, and other bytes of the space keep their value.\<close>

lemma store_byte_load:
  assumes st: "store_byte pd va b s = Some t" and ok: "pgdir_ok s pd"
    and f: "hw_frame s pd va True = Some f" "leaf_ok s pd f"
    and d: "PDX va \<noteq> PDX UVPT"
  shows "load_byte t pd va = Some b"
  by (rule load_store_same[OF st])
     (simp add: hw_frame_after_store[OF st ok f d] hw_frame_read[OF f(1)] f(1))

section \<open>Words inside a page\<close>

lemma unat_less: "unat (a :: u32) < 4294967296"
  using unsigned_less[of a, where ?'a = nat] by simp

lemma unat_PGOFF: "unat (PGOFF va) = unat va mod 4096"
  by (simp add: PGOFF_def and_FFF take_bit_eq_mod unat_mod)

lemma and_3: "(va :: u32) AND 3 = 0 \<longleftrightarrow> unat va mod 4 = 0"
proof -
  have "va AND 3 = take_bit 2 va" by (simp add: take_bit_eq_mask mask_eq_decr_exp)
  then have "unat (va AND 3) = unat va mod 4" by (simp add: take_bit_eq_mod unat_mod)
  then show ?thesis by (metis unat_0 unat_eq_zero)
qed

lemma word_in_page:
  assumes "(va :: u32) AND 3 = 0" and "k < 4"
  shows "unat (va + word_of_nat k) = unat va + k" and "PGNUM (va + word_of_nat k) = PGNUM va"
proof -
  have m: "unat va mod 4 = 0" using assms(1) by (simp add: and_3)
  then obtain q where q: "unat va = 4 * q" by auto
  have "4 * q < 4 * 1073741824" using unat_less[of va] q by simp
  then show u: "unat (va + word_of_nat k) = unat va + k"
    using assms(2) q by (simp add: unat_word_ariths unat_of_nat take_bit_eq_mod)
  have "(4 * q + k) div 4096 = 4 * q div 4096"
  proof -
    have "(4 * q + k) div 4 = q" using assms(2) by simp
    then have "(4 * q + k) div 4 div 1024 = 4 * q div 4 div 1024" by simp
    then show ?thesis by (simp only: div_mult2_eq [symmetric]) simp
  qed
  then show "PGNUM (va + word_of_nat k) = PGNUM va" using u q by (simp add: PGNUM_arith)
qed

lemma word_in_page_123:
  assumes "(va :: u32) AND 3 = 0"
  shows "PGNUM (va + 1) = PGNUM va" "PGNUM (va + 2) = PGNUM va" "PGNUM (va + 3) = PGNUM va"
  using word_in_page(2)[OF assms, of 1] word_in_page(2)[OF assms, of 2] word_in_page(2)[OF assms, of 3] by simp_all

end
