(* ===== verification/FsDisk.thy ===== *)
theory FsDisk
  imports Mmu HwMem
begin

text \<open>
  The disk driver and the block cache of the file server (\<open>fs/ide.c\<close>, \<open>fs/bc.c\<close>).

  The server's address space, as far as the file system uses it, is a byte memory \<open>fmem\<close> with a
  page table: a page is mapped, writable, dirty.  Disk block \<open>b\<close> belongs at
  \<open>DISKMAP + b * BLKSIZE\<close>; the page of the request that is being served lies below, at
  \<open>0x0ffff000\<close>.  An access to a page that is not mapped is a page fault and runs
  \<open>bc_pgfault\<close>, whose own accesses may fault in turn.

  The kernel gives the server \<open>pages_left\<close> more pages.  The drive is a function from disk number
  and sector to 512 bytes, and its status port is the sequence \<open>ide_status\<close> of the values that
  successive reads of port 0x1F7 return.
\<close>

record fs =
  fmem :: "u32 \<Rightarrow> u8"
  fmapped :: "nat \<Rightarrow> bool"
  fwritable :: "nat \<Rightarrow> bool"
  fdirty :: "nat \<Rightarrow> bool"
  pages_left :: nat
  super :: u32
  bitmap :: u32
  diskno :: u32
  disk :: "u32 \<Rightarrow> u32 \<Rightarrow> nat \<Rightarrow> u8"
  ide_status :: "nat \<Rightarrow> u8"
  ide_time :: nat
  fs_out :: "string list"

definition BLKSIZE :: u32 where "BLKSIZE = PGSIZE"
definition BLKBITSIZE :: u32 where "BLKBITSIZE = BLKSIZE * 8"
definition SECTSIZE :: u32 where "SECTSIZE = 512"
definition BLKSECTS :: u32 where "BLKSECTS = BLKSIZE div SECTSIZE"
definition DISKMAP :: u32 where "DISKMAP = 0x10000000"
definition DISKSIZE :: u32 where "DISKSIZE = 0xC0000000"

definition fcprintf :: "string \<Rightarrow> fs \<Rightarrow> fs" where
  "fcprintf m s = s\<lparr>fs_out := fs_out s @ [m]\<rparr>"

section \<open>The IDE driver\<close>

definition IDE_BSY :: u8 where "IDE_BSY = 0x80"
definition IDE_DRDY :: u8 where "IDE_DRDY = 0x40"
definition IDE_DF :: u8 where "IDE_DF = 0x20"
definition IDE_ERR :: u8 where "IDE_ERR = 0x01"

text \<open>Reading the status port.\<close>

definition ide_inb :: "fs \<Rightarrow> u8 \<times> fs" where
  "ide_inb s = (ide_status s (ide_time s), s\<lparr>ide_time := ide_time s + 1\<rparr>)"

partial_function (option) ide_wait_ready :: "bool \<Rightarrow> fs \<Rightarrow> (int \<times> fs) option" where
  "ide_wait_ready check_error s =
     (let (r, s) = ide_inb s
      in if r AND (IDE_BSY OR IDE_DRDY) \<noteq> IDE_DRDY then ide_wait_ready check_error s
         else if check_error \<and> r AND (IDE_DF OR IDE_ERR) \<noteq> 0 then Some (-1, s)
         else Some (0, s))"

fun probe_wait :: "nat \<Rightarrow> fs \<Rightarrow> bool \<times> fs" where
  "probe_wait 0 s = (False, s)"
| "probe_wait (Suc n) s =
     (let (r, s) = ide_inb s
      in if r AND (IDE_BSY OR IDE_DF OR IDE_ERR) \<noteq> 0 then probe_wait n s else (True, s))"

definition ide_probe_disk1 :: "fs \<Rightarrow> (bool \<times> fs) option" where
  "ide_probe_disk1 s = do {
     (_, s) \<leftarrow> ide_wait_ready False s;
     let (present, s) = probe_wait 1000 s;
     Some (present, fcprintf (if present then ''Device 1 presence: 1'' else ''Device 1 presence: 0'') s)
   }"

definition ide_set_disk :: "u32 \<Rightarrow> fs \<Rightarrow> fs option" where
  "ide_set_disk d s = (if d \<noteq> 0 \<and> d \<noteq> 1 then None else Some (s\<lparr>diskno := d\<rparr>))"

text \<open>The sector address as the driver splits it over the four registers.\<close>

definition ide_lba :: "u32 \<Rightarrow> u32" where
  "ide_lba secno = (secno AND 0xFF) OR push_bit 8 (drop_bit 8 secno AND 0xFF)
     OR push_bit 16 (drop_bit 16 secno AND 0xFF) OR push_bit 24 (drop_bit 24 secno AND 0x0F)"

text \<open>
  \<open>insl\<close> and \<open>outsl\<close> move one sector between the drive and the memory at \<open>dst\<close>.  The page must be
  mapped (and writable, for a read); the callers see to that.
\<close>

definition insl :: "u32 \<Rightarrow> u32 \<Rightarrow> fs \<Rightarrow> fs option" where
  "insl sec dst s =
     (if fmapped s (PGNUM dst) \<and> fwritable s (PGNUM dst) then
        Some (s\<lparr>fmem := (\<lambda>a. if a - dst < SECTSIZE then disk s (diskno s AND 1) sec (unat (a - dst)) else fmem s a),
                fdirty := (fdirty s)(PGNUM dst := True)\<rparr>)
      else None)"

definition outsl :: "u32 \<Rightarrow> u32 \<Rightarrow> fs \<Rightarrow> fs option" where
  "outsl sec src s =
     (if fmapped s (PGNUM src) then
        Some (s\<lparr>disk := (disk s)(diskno s AND 1 := (disk s (diskno s AND 1))
                 (sec := (\<lambda>o'. if o' < 512 then fmem s (src + word_of_nat o') else disk s (diskno s AND 1) sec o')))\<rparr>)
      else None)"

fun ide_read_loop :: "nat \<Rightarrow> u32 \<Rightarrow> u32 \<Rightarrow> fs \<Rightarrow> (int \<times> fs) option" where
  "ide_read_loop 0 sec dst s = Some (0, s)"
| "ide_read_loop (Suc n) sec dst s = do {
     (r, s) \<leftarrow> ide_wait_ready True s;
     if r < 0 then Some (r, s) else do {
       s \<leftarrow> insl sec dst s;
       ide_read_loop n (sec + 1) (dst + SECTSIZE) s
     }
   }"

fun ide_write_loop :: "nat \<Rightarrow> u32 \<Rightarrow> u32 \<Rightarrow> fs \<Rightarrow> (int \<times> fs) option" where
  "ide_write_loop 0 sec src s = Some (0, s)"
| "ide_write_loop (Suc n) sec src s = do {
     (r, s) \<leftarrow> ide_wait_ready True s;
     if r < 0 then Some (r, s) else do {
       s \<leftarrow> outsl sec src s;
       ide_write_loop n (sec + 1) (src + SECTSIZE) s
     }
   }"

definition ide_read :: "u32 \<Rightarrow> u32 \<Rightarrow> u32 \<Rightarrow> fs \<Rightarrow> (int \<times> fs) option" where
  "ide_read secno dst nsecs s =
     (if nsecs \<le> 256 then do {
        (_, s) \<leftarrow> ide_wait_ready False s;
        ide_read_loop (unat nsecs) (ide_lba secno) dst s
      } else None)"

definition ide_write :: "u32 \<Rightarrow> u32 \<Rightarrow> u32 \<Rightarrow> fs \<Rightarrow> (int \<times> fs) option" where
  "ide_write secno src nsecs s =
     (if nsecs \<le> 256 then do {
        (_, s) \<leftarrow> ide_wait_ready False s;
        ide_write_loop (unat nsecs) (ide_lba secno) src s
      } else None)"

section \<open>The kernel's services\<close>

text \<open>
  \<open>sys_page_alloc\<close> and the \<open>sys_page_map\<close> of a page onto itself, as the block cache uses them: a
  fresh zeroed page with a clean entry, and the entry rewritten without its dirty bit.
\<close>

definition fs_page_alloc :: "u32 \<Rightarrow> fs \<Rightarrow> int \<times> fs" where
  "fs_page_alloc va s =
     (if UTOP \<le> va \<or> PGOFF va \<noteq> 0 then (- E_INVAL, s)
      else if pages_left s = 0 then (- E_NO_MEM, s)
      else (0, s\<lparr>fmem := (\<lambda>a. if PGNUM a = PGNUM va then 0 else fmem s a),
                 fmapped := (fmapped s)(PGNUM va := True),
                 fwritable := (fwritable s)(PGNUM va := True),
                 fdirty := (fdirty s)(PGNUM va := False),
                 pages_left := pages_left s - (if fmapped s (PGNUM va) then 0 else 1)\<rparr>))"

definition fs_page_remap :: "u32 \<Rightarrow> fs \<Rightarrow> int \<times> fs" where
  "fs_page_remap va s =
     (if UTOP \<le> va \<or> PGOFF va \<noteq> 0 \<or> \<not> fmapped s (PGNUM va) then (- E_INVAL, s)
      else (0, s\<lparr>fdirty := (fdirty s)(PGNUM va := False)\<rparr>))"

section \<open>The block cache\<close>

definition va_is_mapped :: "u32 \<Rightarrow> fs \<Rightarrow> bool" where
  "va_is_mapped va s = fmapped s (PGNUM va)"

definition va_is_dirty :: "u32 \<Rightarrow> fs \<Rightarrow> bool" where
  "va_is_dirty va s = fdirty s (PGNUM va)"

definition in_diskmap :: "u32 \<Rightarrow> bool" where
  "in_diskmap va \<longleftrightarrow> DISKMAP \<le> va \<and> va < DISKMAP + DISKSIZE"

definition block_of :: "u32 \<Rightarrow> u32" where
  "block_of va = (va - DISKMAP) div BLKSIZE"

definition mem_word :: "fs \<Rightarrow> u32 \<Rightarrow> u32" where
  "mem_word s va = bytes_word [fmem s va, fmem s (va + 1), fmem s (va + 2), fmem s (va + 3)]"

text \<open>
  A read of an aligned word, given how accesses are made to succeed (\<open>acc\<close>): the page fault
  handler's own reads use the same code with one level of nesting less.
\<close>

definition read32_by :: "(u32 \<Rightarrow> fs \<Rightarrow> fs option) \<Rightarrow> u32 \<Rightarrow> fs \<Rightarrow> (u32 \<times> fs) option" where
  "read32_by acc va s = (if va AND 3 = 0 then do { s \<leftarrow> acc va s; Some (mem_word s va, s) } else None)"

definition block_is_free_by :: "(u32 \<Rightarrow> fs \<Rightarrow> fs option) \<Rightarrow> u32 \<Rightarrow> fs \<Rightarrow> (bool \<times> fs) option" where
  "block_is_free_by acc blockno s =
     (if super s = 0 then Some (False, s)
      else do {
        (n, s) \<leftarrow> read32_by acc (super s + 4) s;
        if n \<le> blockno then Some (False, s)
        else do {
          (w, s) \<leftarrow> read32_by acc (bitmap s + 4 * (blockno div 32)) s;
          Some (w AND push_bit (unat (blockno mod 32)) 1 \<noteq> 0, s)
        }
      })"

text \<open>\<open>super && blockno >= super->s_nblocks\<close>\<close>

definition beyond_disk_by :: "(u32 \<Rightarrow> fs \<Rightarrow> fs option) \<Rightarrow> u32 \<Rightarrow> fs \<Rightarrow> (bool \<times> fs) option" where
  "beyond_disk_by acc blockno s =
     (if super s = 0 then Some (False, s)
      else do { (n, s) \<leftarrow> read32_by acc (super s + 4) s; Some (n \<le> blockno, s) })"

definition bc_pgfault :: "(u32 \<Rightarrow> fs \<Rightarrow> fs option) \<Rightarrow> u32 \<Rightarrow> fs \<Rightarrow> fs option" where
  "bc_pgfault acc addr s =
     (let blockno = block_of addr in
      if \<not> in_diskmap addr then None
      else do {
        (bad, s) \<leftarrow> beyond_disk_by acc blockno s;
        if bad then None else do {
          let addr = ROUNDDOWN addr PGSIZE;
          let (r, s) = fs_page_alloc addr s;
          if r < 0 then None else do {
            (r, s) \<leftarrow> ide_read (blockno * BLKSECTS) addr BLKSECTS s;
            if r < 0 then None else do {
              let (r, s) = fs_page_remap addr s;
              if r < 0 then None
              else if bitmap s \<noteq> 0 then do {
                (free, s) \<leftarrow> block_is_free_by acc blockno s;
                if free then None else Some s
              }
              else Some s
            }
          }
        }
      })"

text \<open>
  An access at \<open>va\<close>, with page faults nested to a depth of at most \<open>d\<close>.  The handler for block
  \<open>b\<close> touches the superblock and the bitmap block of \<open>b\<close>, whose handler touches block 2; a depth
  of 4 is never exhausted once \<open>bc_init\<close> has read the superblock.
\<close>

primrec access_to :: "nat \<Rightarrow> u32 \<Rightarrow> fs \<Rightarrow> fs option" where
  "access_to 0 va s = (if fmapped s (PGNUM va) then Some s else None)"
| "access_to (Suc d) va s = (if fmapped s (PGNUM va) then Some s else bc_pgfault (access_to d) va s)"

definition touch :: "u32 \<Rightarrow> fs \<Rightarrow> fs option" where
  "touch = access_to 4"

definition block_is_free :: "u32 \<Rightarrow> fs \<Rightarrow> (bool \<times> fs) option" where
  "block_is_free = block_is_free_by touch"

section \<open>Memory accesses of the server\<close>

definition read8 :: "u32 \<Rightarrow> fs \<Rightarrow> (u8 \<times> fs) option" where
  "read8 va s = do { s \<leftarrow> touch va s; Some (fmem s va, s) }"

definition read32 :: "u32 \<Rightarrow> fs \<Rightarrow> (u32 \<times> fs) option" where
  "read32 = read32_by touch"

definition write8 :: "u32 \<Rightarrow> u8 \<Rightarrow> fs \<Rightarrow> fs option" where
  "write8 va b s = do {
     s \<leftarrow> touch va s;
     if fwritable s (PGNUM va)
     then Some (s\<lparr>fmem := (fmem s)(va := b), fdirty := (fdirty s)(PGNUM va := True)\<rparr>)
     else None
   }"

definition write32 :: "u32 \<Rightarrow> u32 \<Rightarrow> fs \<Rightarrow> fs option" where
  "write32 va w s = (if va AND 3 = 0 then do {
     s \<leftarrow> touch va s;
     if fwritable s (PGNUM va)
     then Some (s\<lparr>fmem := (fmem s)(va := get_byte w 0, va + 1 := get_byte w 1, va + 2 := get_byte w 2, va + 3 := get_byte w 3),
                  fdirty := (fdirty s)(PGNUM va := True)\<rparr>)
     else None } else None)"

fun read_bytes :: "nat \<Rightarrow> u32 \<Rightarrow> fs \<Rightarrow> (u8 list \<times> fs) option" where
  "read_bytes 0 va s = Some ([], s)"
| "read_bytes (Suc n) va s = do {
     (b, s) \<leftarrow> read8 va s;
     (bs, s) \<leftarrow> read_bytes n (va + 1) s;
     Some (b # bs, s)
   }"

fun write_bytes :: "u32 \<Rightarrow> u8 list \<Rightarrow> fs \<Rightarrow> fs option" where
  "write_bytes va [] s = Some s"
| "write_bytes va (b # bs) s = do { s \<leftarrow> write8 va b s; write_bytes (va + 1) bs s }"

text \<open>\<open>memmove\<close>, whose result does not depend on an overlap of the two ranges.\<close>

definition fs_memmove :: "u32 \<Rightarrow> u32 \<Rightarrow> nat \<Rightarrow> fs \<Rightarrow> fs option" where
  "fs_memmove dst src n s = do { (bs, s) \<leftarrow> read_bytes n src s; write_bytes dst bs s }"

section \<open>Disk addresses and write-back\<close>

definition diskaddr :: "u32 \<Rightarrow> fs \<Rightarrow> (u32 \<times> fs) option" where
  "diskaddr blockno s =
     (if blockno = 0 then None
      else do {
        (bad, s) \<leftarrow> beyond_disk_by touch blockno s;
        if bad then None else Some (DISKMAP + blockno * BLKSIZE, s)
      })"

definition flush_block :: "u32 \<Rightarrow> fs \<Rightarrow> fs option" where
  "flush_block addr s =
     (let blockno = block_of addr in
      if \<not> in_diskmap addr then None
      else if \<not> va_is_mapped addr s \<or> \<not> va_is_dirty addr s then Some s
      else do {
        let addr = ROUNDDOWN addr PGSIZE;
        (r, s) \<leftarrow> ide_write (blockno * BLKSECTS) addr BLKSECTS s;
        if r < 0 then None
        else (let (r, s) = fs_page_remap addr s in if r < 0 then None else Some s)
      })"

end
