(* ===== verification/FsView.thy ===== *)
theory FsView
  imports FsDisk
begin

text \<open>
  What the block cache is for: through it, the server sees the disk as memory.  The \<open>view\<close> of an
  address is the byte in the page if the page is there, and the byte on the disk otherwise.  Page
  faults and write-backs leave the view alone, so that everything above them can be described as a
  function of the view.
\<close>

named_theorems fs_frames \<open>what the operations of the block cache leave alone\<close>

definition disk_byte :: "fs \<Rightarrow> u32 \<Rightarrow> u8" where
  "disk_byte s va = disk s (diskno s AND 1)
     (ide_lba (block_of va * BLKSECTS) + word_of_nat (unat (PGOFF va) div 512)) (unat (PGOFF va) mod 512)"

definition view :: "fs \<Rightarrow> u32 \<Rightarrow> u8" where
  "view s va = (if fmapped s (PGNUM va) then fmem s va else disk_byte s va)"

text \<open>A clean page of the disk map holds what is on the disk, and can be written.\<close>

definition cache_ok :: "fs \<Rightarrow> bool" where
  "cache_ok s \<longleftrightarrow> (\<forall>va. in_diskmap va \<and> fmapped s (PGNUM va) \<longrightarrow>
     fwritable s (PGNUM va) \<and> (\<not> fdirty s (PGNUM va) \<longrightarrow> fmem s va = disk_byte s va))"

text \<open>A step of the cache that only brings pages in.\<close>

definition pages_in :: "fs \<Rightarrow> fs \<Rightarrow> bool" where
  "pages_in s t \<longleftrightarrow> view t = view s \<and> super t = super s \<and> bitmap t = bitmap s
     \<and> diskno t = diskno s \<and> disk t = disk s \<and> ide_status t = ide_status s \<and> fs_out t = fs_out s
     \<and> (\<forall>p. fmapped s p \<longrightarrow> fmapped t p \<and> fwritable t p = fwritable s p \<and> fdirty t p = fdirty s p)
     \<and> (\<forall>p. fmapped t p \<and> \<not> fmapped s p \<longrightarrow> fwritable t p \<and> \<not> fdirty t p)"

lemma pages_in_refl [simp]: "pages_in s s"
  by (simp add: pages_in_def)

lemma pages_in_trans: "pages_in s t \<Longrightarrow> pages_in t u \<Longrightarrow> pages_in s u"
  unfolding pages_in_def by metis

lemma disk_byte_cong: "diskno t = diskno s \<Longrightarrow> disk t = disk s \<Longrightarrow> disk_byte t = disk_byte s"
  by (rule ext) (simp add: disk_byte_def)

lemma pages_in_cache_ok:
  assumes "pages_in s t" and "cache_ok s"
  shows "cache_ok t"
proof -
  have d: "disk_byte t = disk_byte s" using assms(1) by (auto simp: pages_in_def intro: disk_byte_cong)
  show ?thesis unfolding cache_ok_def
  proof (intro allI impI conjI)
    fix va assume va: "in_diskmap va \<and> fmapped t (PGNUM va)"
    show "fwritable t (PGNUM va)" using va assms by (auto simp: pages_in_def cache_ok_def)
    assume c: "\<not> fdirty t (PGNUM va)"
    have "fmem t va = view t va" using va by (simp add: view_def)
    also have "\<dots> = view s va" using assms(1) by (simp add: pages_in_def)
    also have "\<dots> = disk_byte s va"
      using va c assms by (auto simp: view_def pages_in_def cache_ok_def)
    finally show "fmem t va = disk_byte t va" by (simp add: d)
  qed
qed

section \<open>Addresses\<close>

lemma page_base: "unat (ROUNDDOWN va PGSIZE) = 4096 * PGNUM va"
  by (simp add: unat_ROUNDDOWN PGSIZE_def PGNUM_arith minus_mod_eq_mult_div)

lemma PGNUM_page_base [simp]: "PGNUM (ROUNDDOWN va PGSIZE) = PGNUM va"
  by (simp add: PGNUM_arith page_base)

lemma PGOFF_page_base [simp]: "PGOFF (ROUNDDOWN va PGSIZE) = 0"
proof -
  have "unat (PGOFF (ROUNDDOWN va PGSIZE)) = 0" by (simp only: unat_PGOFF page_base mod_mult_self1_is_0)
  then show ?thesis by (simp add: unsigned_eq_0_iff)
qed

text \<open>The addresses of a page, counted from its base.\<close>

lemma in_page:
  assumes "PGOFF b = 0"
  shows "unat (a - b) < 4096 \<longleftrightarrow> PGNUM a = PGNUM b" and "PGNUM a = PGNUM b \<Longrightarrow> unat (a - b) = unat (PGOFF a)"
proof -
  have b: "unat b mod 4096 = 0" using assms unat_PGOFF[of b] by simp
  have be: "unat b = 4096 * PGNUM b" using b PGNUM_arith[of b] by auto
  have ae: "unat a = 4096 * PGNUM a + unat (PGOFF a)" using PGNUM_arith[of a] unat_PGOFF[of a] by simp
  have off: "unat (PGOFF a) < 4096" by (simp add: unat_PGOFF)
  have ub: "unat b < 2 ^ 32" using unat_less[of b] by simp
  show 2: "PGNUM a = PGNUM b \<Longrightarrow> unat (a - b) = unat (PGOFF a)"
  proof -
    assume e: "PGNUM a = PGNUM b"
    then have "b \<le> a" using ae be by (simp add: word_le_nat_alt)
    then show ?thesis using ae be e by (simp add: unat_sub)
  qed
  show "unat (a - b) < 4096 \<longleftrightarrow> PGNUM a = PGNUM b"
  proof
    assume l: "unat (a - b) < 4096"
    have "unat b \<le> 2 ^ 32 - 4096" using be ub by simp
    then have "unat (b + (a - b)) = unat b + unat (a - b)"
      using l by (intro unat_add_lem[THEN iffD1]) simp
    then have "unat a = 4096 * PGNUM b + unat (a - b)" using be by simp
    then show "PGNUM a = PGNUM b" using l by (simp add: PGNUM_arith[of a])
  qed (use 2 off in simp)
qed

section \<open>The drive\<close>

text \<open>Waiting for the drive only consumes values of the status port.\<close>

lemma ide_wait_ready_result:
  assumes "ide_wait_ready chk s = Some (r, t)"
  shows "\<exists>n. t = s\<lparr>ide_time := n\<rparr> \<and> (r = 0 \<or> r = -1)"
proof -
  have "case rt of (r, t) \<Rightarrow> \<exists>n. t = s\<lparr>ide_time := n\<rparr> \<and> (r = 0 \<or> r = -1)"
    if "ide_wait_ready chk s = Some rt" for rt
    using that
  proof (rule ide_wait_ready.raw_induct[where P = "\<lambda>c s rt. case rt of (r, t) \<Rightarrow> \<exists>n. t = s\<lparr>ide_time := n\<rparr> \<and> (r = 0 \<or> r = -1)", rotated])
    fix f c s rt
    assume IH: "\<And>c s rt. f c s = Some rt \<Longrightarrow> case rt of (r, t) \<Rightarrow> \<exists>n. t = s\<lparr>ide_time := n\<rparr> \<and> (r = 0 \<or> r = -1)"
      and e: "(let (r, s) = ide_inb s
          in if r AND (IDE_BSY OR IDE_DRDY) \<noteq> IDE_DRDY then f c s
             else if c \<and> r AND (IDE_DF OR IDE_ERR) \<noteq> 0 then Some (-1, s) else Some (0, s)) = Some rt"
    show "case rt of (r, t) \<Rightarrow> \<exists>n. t = s\<lparr>ide_time := n\<rparr> \<and> (r = 0 \<or> r = -1)"
      using e IH by (fastforce simp: ide_inb_def split: if_splits prod.splits)
  qed
  then show ?thesis using assms by fastforce
qed

lemma ide_wait_ready_now:
  assumes "ide_status s (ide_time s) = IDE_DRDY"
  shows "ide_wait_ready chk s = Some (0, s\<lparr>ide_time := ide_time s + 1\<rparr>)"
  using assms by (subst ide_wait_ready.simps)
    (simp add: ide_inb_def IDE_BSY_def IDE_DRDY_def IDE_DF_def IDE_ERR_def)

text \<open>Addresses of the sectors of a page.\<close>

lemma sector_base:
  assumes "PGOFF b = 0" and "k < 8"
  shows "PGNUM (b + 512 * word_of_nat k) = PGNUM b"
    and "unat (a - (b + 512 * word_of_nat k)) < 512 \<longleftrightarrow> PGNUM a = PGNUM b \<and> unat (PGOFF a) div 512 = k"
    and "unat (a - (b + 512 * word_of_nat k)) < 512 \<Longrightarrow> unat (a - (b + 512 * word_of_nat k)) = unat (PGOFF a) mod 512"
proof -
  let ?c = "512 * word_of_nat k :: u32"
  have c: "unat ?c = 512 * k" using assms(2) by (simp add: unat_word_ariths unat_of_nat take_bit_eq_mod)
  have "(b + ?c) - b = ?c" by simp
  then show "PGNUM (b + ?c) = PGNUM b" using in_page(1)[OF assms(1), of "b + ?c"] c assms(2) by simp
  have sub: "unat (a - (b + ?c)) < 512 \<Longrightarrow> unat (a - b) = 512 * k + unat (a - (b + ?c))"
  proof -
    assume l: "unat (a - (b + ?c)) < 512"
    have "a - b = ?c + (a - (b + ?c))" by simp
    moreover have "unat ?c + unat (a - (b + ?c)) < 2 ^ 32" using l c assms(2) by simp
    ultimately show ?thesis using unat_add_lem[of ?c "a - (b + ?c)"] c by simp
  qed
  have bk: "unat (a - b) div 512 = k \<Longrightarrow> unat (a - (b + ?c)) = unat (a - b) mod 512"
  proof -
    assume d: "unat (a - b) div 512 = k"
    have dm: "unat (a - b) = 512 * k + unat (a - b) mod 512" using d by (metis mult_div_mod_eq)
    have "?c \<le> a - b" using dm c by (simp add: word_le_nat_alt)
    then have "unat ((a - b) - ?c) = unat (a - b) - 512 * k" using c by (simp add: unat_sub)
    then have "unat ((a - b) - ?c) = unat (a - b) mod 512" using dm by simp
    then show ?thesis by (simp add: diff_diff_eq)
  qed
  show iff: "unat (a - (b + ?c)) < 512 \<longleftrightarrow> PGNUM a = PGNUM b \<and> unat (PGOFF a) div 512 = k"
  proof
    assume l: "unat (a - (b + ?c)) < 512"
    have "unat (a - b) < 4096" using sub[OF l] l assms(2) by simp
    then have p: "PGNUM a = PGNUM b" by (simp add: in_page(1)[OF assms(1)])
    then show "PGNUM a = PGNUM b \<and> unat (PGOFF a) div 512 = k"
      using sub[OF l] l in_page(2)[OF assms(1) p] by simp
  next
    assume p: "PGNUM a = PGNUM b \<and> unat (PGOFF a) div 512 = k"
    then have "unat (a - b) div 512 = k" using in_page(2)[OF assms(1)] by simp
    from bk[OF this] show "unat (a - (b + ?c)) < 512" by simp
  qed
  assume l: "unat (a - (b + ?c)) < 512"
  then have "PGNUM a = PGNUM b" by (simp add: iff)
  then show "unat (a - (b + ?c)) = unat (PGOFF a) mod 512" using in_page(2)[OF assms(1)] sub[OF l] l
    by (metis mod_less mod_mult_self4)
qed

text \<open>Reading \<open>n\<close> sectors into a page from its \<open>k\<close>-th sector on.\<close>

lemma ide_read_loop_result:
  assumes "ide_read_loop n sec (b + 512 * word_of_nat k) s = Some (r, t)" and "PGOFF b = 0" and "n + k \<le> 8" and "0 \<le> r"
  shows "\<exists>tm. t = s\<lparr>fmem := (\<lambda>a. if PGNUM a = PGNUM b \<and> k \<le> unat (PGOFF a) div 512 \<and> unat (PGOFF a) div 512 < k + n
        then disk s (diskno s AND 1) (sec + word_of_nat (unat (PGOFF a) div 512 - k)) (unat (PGOFF a) mod 512) else fmem s a),
      fdirty := (if n = 0 then fdirty s else (fdirty s)(PGNUM b := True)), ide_time := tm\<rparr>"
  using assms
proof (induction n arbitrary: sec k s)
  case 0
  have "(\<lambda>a. if PGNUM a = PGNUM b \<and> k \<le> unat (PGOFF a) div 512 \<and> unat (PGOFF a) div 512 < k + 0
        then disk s (diskno s AND 1) (sec + word_of_nat (unat (PGOFF a) div 512 - k)) (unat (PGOFF a) mod 512)
        else fmem s a) = fmem s" by (rule ext) auto
  then show ?case using 0 by (intro exI[of _ "ide_time s"]) (simp only: ide_read_loop.simps, simp)
next
  case (Suc n)
  let ?d = "b + 512 * word_of_nat k"
  have k: "k < 8" using Suc.prems(3) by simp
  from Suc.prems(1) obtain r0 s0 where w0: "ide_wait_ready True s = Some (r0, s0)" and "r0 < 0 \<longrightarrow> r0 = r"
    by (auto simp: bind_eq_Some_conv split: if_splits)
  then obtain tm where w: "ide_wait_ready True s = Some (0, s\<lparr>ide_time := tm\<rparr>)"
    using ide_wait_ready_result[OF w0] Suc.prems(4) by auto
  from Suc.prems(1) w obtain u where u: "insl sec ?d (s\<lparr>ide_time := tm\<rparr>) = Some u"
    "ide_read_loop n (sec + 1) (?d + SECTSIZE) u = Some (r, t)"
    by (auto simp: bind_eq_Some_conv)
  have e: "?d + SECTSIZE = b + 512 * word_of_nat (Suc k)" by (simp add: SECTSIZE_def algebra_simps)
  have ud: "u = s\<lparr>fmem := (\<lambda>a. if PGNUM a = PGNUM b \<and> unat (PGOFF a) div 512 = k
        then disk s (diskno s AND 1) sec (unat (PGOFF a) mod 512) else fmem s a),
      fdirty := (fdirty s)(PGNUM b := True), ide_time := tm\<rparr>"
  proof -
    have "a - ?d < SECTSIZE \<longleftrightarrow> PGNUM a = PGNUM b \<and> unat (PGOFF a) div 512 = k" for a
      using sector_base(2)[OF Suc.prems(2) k, of a] by (simp add: SECTSIZE_def word_less_nat_alt)
    moreover have "PGNUM a = PGNUM b \<and> unat (PGOFF a) div 512 = k \<Longrightarrow> unat (a - ?d) = unat (PGOFF a) mod 512" for a
      using sector_base(2,3)[OF Suc.prems(2) k, of a] by simp
    ultimately show ?thesis using u(1) sector_base(1)[OF Suc.prems(2) k]
      by (auto simp: insl_def split: if_splits cong: if_cong)
  qed
  from Suc.IH[OF u(2)[unfolded e] Suc.prems(2) _ Suc.prems(4)] Suc.prems(3)
  obtain tm2 where t: "t = u\<lparr>fmem := (\<lambda>a. if PGNUM a = PGNUM b \<and> Suc k \<le> unat (PGOFF a) div 512 \<and> unat (PGOFF a) div 512 < Suc k + n
        then disk u (diskno u AND 1) (sec + 1 + word_of_nat (unat (PGOFF a) div 512 - Suc k)) (unat (PGOFF a) mod 512) else fmem u a),
      fdirty := (if n = 0 then fdirty u else (fdirty u)(PGNUM b := True)), ide_time := tm2\<rparr>" by auto
  have sx: "sec + 1 + word_of_nat (x - Suc k) = sec + word_of_nat (x - k)" if "Suc k \<le> x" for x
  proof -
    have "x - k = Suc (x - Suc k)" using that by simp
    then show ?thesis by (simp add: algebra_simps)
  qed
  show ?case
    by (rule exI[of _ tm2]) (auto simp: t ud fun_eq_iff sx not_less_eq_eq le_Suc_eq)
qed

section \<open>Page faults leave the view alone\<close>

lemma in_diskmap_PGNUM: "in_diskmap va \<longleftrightarrow> 65536 \<le> PGNUM va \<and> PGNUM va < 851968"
proof -
  have "65536 \<le> x div 4096 \<longleftrightarrow> 268435456 \<le> x" "x div 4096 < 851968 \<longleftrightarrow> x < 3489660928" for x :: nat
    by linarith+
  then show ?thesis
    by (simp add: in_diskmap_def DISKMAP_def DISKSIZE_def PGNUM_arith word_le_nat_alt word_less_nat_alt)
qed

lemma unat_block_of:
  assumes "in_diskmap va"
  shows "unat (block_of va) = PGNUM va - 65536"
proof -
  have "DISKMAP \<le> va" using assms by (simp add: in_diskmap_def)
  then have "unat (va - DISKMAP) = unat va - 268435456" by (simp add: unat_sub DISKMAP_def)
  moreover have "(x - 268435456) div 4096 = x div 4096 - 65536" if "268435456 \<le> x" for x :: nat
  proof -
    have "x = (x - 268435456) + 65536 * 4096" using that by simp
    then have "x div 4096 = 65536 + (x - 268435456) div 4096" by (metis div_mult_self1 zero_neq_numeral)
    then show ?thesis by simp
  qed
  moreover have "268435456 \<le> unat va" using \<open>DISKMAP \<le> va\<close> by (simp add: word_le_nat_alt DISKMAP_def)
  ultimately show ?thesis by (simp add: block_of_def BLKSIZE_def PGSIZE_def unat_div PGNUM_arith)
qed

lemma block_of_same_page:
  assumes "in_diskmap va" "PGNUM a = PGNUM va"
  shows "block_of a = block_of va"
proof -
  have "in_diskmap a" using assms by (simp add: in_diskmap_PGNUM)
  then have "unat (block_of a) = unat (block_of va)" using assms by (simp only: unat_block_of)
  then show ?thesis by (simp only: word_unat_eq_iff)
qed

lemma ide_read_page:
  assumes "ide_read (block_of va * BLKSECTS) (ROUNDDOWN va PGSIZE) BLKSECTS s = Some (r, t)" and "0 \<le> r"
    and "in_diskmap va"
  shows "\<exists>tm. t = s\<lparr>fmem := (\<lambda>a. if PGNUM a = PGNUM va then disk_byte s a else fmem s a),
      fdirty := (fdirty s)(PGNUM va := True), ide_time := tm\<rparr>"
proof -
  have B: "unat BLKSECTS = 8" by (simp add: BLKSECTS_def BLKSIZE_def PGSIZE_def SECTSIZE_def unat_div)
  let ?b = "ROUNDDOWN va PGSIZE"
  obtain r0 s0 where w: "ide_wait_ready False s = Some (r0, s0)"
    and l: "ide_read_loop 8 (ide_lba (block_of va * BLKSECTS)) (?b + 512 * word_of_nat 0) s0 = Some (r, t)"
    using assms(1) by (simp only: ide_read_def B) (auto simp: bind_eq_Some_conv split: if_splits)
  from ide_wait_ready_result[OF w] obtain tm where s0: "s0 = s\<lparr>ide_time := tm\<rparr>" by blast
  have d: "unat (PGOFF a) div 512 < 8" for a using PGOFF_less[of a] by simp
  have "(8 :: nat) + 0 \<le> 8" by simp
  from ide_read_loop_result[OF l PGOFF_page_base this assms(2)] obtain tm2 where
    t: "t = s0\<lparr>fmem := (\<lambda>a. if PGNUM a = PGNUM va \<and> 0 \<le> unat (PGOFF a) div 512 \<and> unat (PGOFF a) div 512 < 0 + 8
        then disk s0 (diskno s0 AND 1) (ide_lba (block_of va * BLKSECTS) + word_of_nat (unat (PGOFF a) div 512 - 0)) (unat (PGOFF a) mod 512)
        else fmem s0 a), fdirty := (if (8 :: nat) = 0 then fdirty s0 else (fdirty s0)(PGNUM va := True)), ide_time := tm2\<rparr>"
    unfolding PGNUM_page_base by blast
  have "(\<lambda>a. if PGNUM a = PGNUM va \<and> 0 \<le> unat (PGOFF a) div 512 \<and> unat (PGOFF a) div 512 < 0 + 8
        then disk s0 (diskno s0 AND 1) (ide_lba (block_of va * BLKSECTS) + word_of_nat (unat (PGOFF a) div 512 - 0)) (unat (PGOFF a) mod 512)
        else fmem s0 a) = (\<lambda>a. if PGNUM a = PGNUM va then disk_byte s a else fmem s a)"
    (is "?l = ?r")
  proof
    fix a
    show "?l a = ?r a"
    proof (cases "PGNUM a = PGNUM va")
      case True
      from block_of_same_page[OF assms(3) this] have e: "block_of va = block_of a" by simp
      show ?thesis using True d[of a] unfolding e by (simp add: disk_byte_def s0)
    qed (simp add: s0)
  qed
  then show ?thesis using t by (auto simp: s0)
qed

definition acc_ok :: "(u32 \<Rightarrow> fs \<Rightarrow> fs option) \<Rightarrow> bool" where
  "acc_ok acc \<longleftrightarrow> (\<forall>va s t. acc va s = Some t \<longrightarrow> pages_in s t \<and> fmapped t (PGNUM va))"

lemma acc_okD: "acc_ok acc \<Longrightarrow> acc va s = Some t \<Longrightarrow> pages_in s t \<and> fmapped t (PGNUM va)"
  by (simp add: acc_ok_def)

lemma read32_by_pages_in: "acc_ok acc \<Longrightarrow> read32_by acc va s = Some (w, t) \<Longrightarrow> pages_in s t"
  by (auto simp: read32_by_def bind_eq_Some_conv dest: acc_okD split: if_splits)

lemma beyond_disk_by_pages_in: "acc_ok acc \<Longrightarrow> beyond_disk_by acc b s = Some (r, t) \<Longrightarrow> pages_in s t"
  by (auto simp: beyond_disk_by_def bind_eq_Some_conv dest: read32_by_pages_in split: if_splits)

lemma block_is_free_by_pages_in: "acc_ok acc \<Longrightarrow> block_is_free_by acc b s = Some (r, t) \<Longrightarrow> pages_in s t"
  by (auto simp: block_is_free_by_def bind_eq_Some_conv split: if_splits
      dest: read32_by_pages_in intro: pages_in_trans)

lemma fs_page_alloc_result:
  assumes "fs_page_alloc va s = (r, t)" and "0 \<le> r"
  shows "t = s\<lparr>fmem := (\<lambda>a. if PGNUM a = PGNUM va then 0 else fmem s a), fmapped := (fmapped s)(PGNUM va := True),
     fwritable := (fwritable s)(PGNUM va := True), fdirty := (fdirty s)(PGNUM va := False),
     pages_left := pages_left s - (if fmapped s (PGNUM va) then 0 else 1)\<rparr>"
  using assms by (auto simp: fs_page_alloc_def err_consts split: if_splits)

lemma fs_page_remap_result:
  assumes "fs_page_remap va s = (r, t)" and "0 \<le> r"
  shows "t = s\<lparr>fdirty := (fdirty s)(PGNUM va := False)\<rparr>"
  using assms by (auto simp: fs_page_remap_def err_consts split: if_splits)

text \<open>The page brought in by a fault shows what the disk held.\<close>

lemma page_in_step:
  assumes u: "\<not> fmapped s (PGNUM va)" "in_diskmap va" and s1: "pages_in s s1"
    and a: "fs_page_alloc (ROUNDDOWN va PGSIZE) s1 = (r2, s2)" "0 \<le> r2"
    and rd: "ide_read (block_of va * BLKSECTS) (ROUNDDOWN va PGSIZE) BLKSECTS s2 = Some (r3, s3)" "0 \<le> r3"
    and m: "fs_page_remap (ROUNDDOWN va PGSIZE) s3 = (r4, s4)" "0 \<le> r4"
  shows "pages_in s s4 \<and> fmapped s4 (PGNUM va)"
proof -
  note s2 = fs_page_alloc_result[OF a, unfolded PGNUM_page_base]
  from ide_read_page[OF rd u(2)] obtain tm where s3:
    "s3 = s2\<lparr>fmem := (\<lambda>a. if PGNUM a = PGNUM va then disk_byte s2 a else fmem s2 a),
      fdirty := (fdirty s2)(PGNUM va := True), ide_time := tm\<rparr>" by blast
  note s4 = fs_page_remap_result[OF m, unfolded PGNUM_page_base]
  have d: "disk_byte s2 = disk_byte s" "disk_byte s4 = disk_byte s" "disk_byte s1 = disk_byte s"
    using s1 by (auto simp: s2 s3 s4 pages_in_def intro!: disk_byte_cong)
  have mem: "fmem s4 = (\<lambda>a. if PGNUM a = PGNUM va then disk_byte s a else fmem s1 a)"
    and map: "fmapped s4 = (fmapped s1)(PGNUM va := True)"
    by (auto simp: s4 s3 s2 d[unfolded s2] fun_eq_iff)
  have "view s4 a = view s a" for a
  proof (cases "PGNUM a = PGNUM va")
    case True
    then show ?thesis using u(1) by (simp add: view_def mem map)
  next
    case False
    then have "view s4 a = view s1 a" by (simp add: view_def mem map d)
    then show ?thesis using s1 by (simp add: pages_in_def)
  qed
  then have "view s4 = view s" by auto
  then show ?thesis using s1 u(1) by (auto simp: pages_in_def map s4 s3 s2)
qed

lemma bc_pgfault_pages_in:
  assumes acc: "acc_ok acc" and u: "\<not> fmapped s (PGNUM va)" and f: "bc_pgfault acc va s = Some t"
  shows "pages_in s t \<and> fmapped t (PGNUM va)"
proof -
  have dm: "in_diskmap va" using f by (rule_tac ccontr) (simp add: bc_pgfault_def Let_def)
  from f dm obtain bad s1 where 1: "beyond_disk_by acc (block_of va) s = Some (bad, s1)" "\<not> bad"
    by (auto simp: bc_pgfault_def Let_def bind_eq_Some_conv split: if_splits)
  obtain r2 s2 where 2: "fs_page_alloc (ROUNDDOWN va PGSIZE) s1 = (r2, s2)" by (cases "fs_page_alloc (ROUNDDOWN va PGSIZE) s1")
  from f dm 1 2 obtain r3 s3 where 3: "0 \<le> r2" "0 \<le> r3"
    "ide_read (block_of va * BLKSECTS) (ROUNDDOWN va PGSIZE) BLKSECTS s2 = Some (r3, s3)"
    by (auto simp: bc_pgfault_def Let_def bind_eq_Some_conv split: if_splits)
  obtain r4 s4 where 4: "fs_page_remap (ROUNDDOWN va PGSIZE) s3 = (r4, s4)" by (cases "fs_page_remap (ROUNDDOWN va PGSIZE) s3")
  from f dm 1 2 3 4 have 5: "0 \<le> r4"
    "(if bitmap s4 \<noteq> 0 then do { (free, s) \<leftarrow> block_is_free_by acc (block_of va) s4; if free then None else Some s } else Some s4) = Some t"
    by (auto simp: bc_pgfault_def Let_def split: if_splits)
  note P = page_in_step[OF u dm beyond_disk_by_pages_in[OF acc 1(1)] 2 3(1,3,2) 4 5(1)]
  have "pages_in s4 t" using 5(2) by (auto simp: bind_eq_Some_conv split: if_splits dest: block_is_free_by_pages_in[OF acc])
  then show ?thesis using P pages_in_trans by (auto simp: pages_in_def[of s4])
qed

lemma access_to_ok: "acc_ok (access_to d)"
proof (induction d)
  case 0
  then show ?case by (auto simp: acc_ok_def split: if_splits)
next
  case (Suc d)
  show ?case unfolding acc_ok_def
    using bc_pgfault_pages_in[OF Suc] by (auto split: if_splits)
qed

lemma touch_ok: "acc_ok touch"
  by (simp add: touch_def access_to_ok)

lemmas touch_pages_in = acc_okD[OF touch_ok]

lemma touch_mapped [simp]: "fmapped s (PGNUM va) \<Longrightarrow> touch va s = Some s"
  by (simp add: touch_def eval_nat_numeral)

section \<open>Reads and writes in terms of the view\<close>

text \<open>The parts of the state that reads and writes of memory leave alone.\<close>

definition same_fs :: "fs \<Rightarrow> fs \<Rightarrow> bool" where
  "same_fs s t \<longleftrightarrow> super t = super s \<and> bitmap t = bitmap s \<and> diskno t = diskno s
     \<and> ide_status t = ide_status s
     \<and> (\<forall>p. fmapped s p \<longrightarrow> fmapped t p \<and> fwritable t p = fwritable s p) \<and> (cache_ok s \<longrightarrow> cache_ok t)"

lemma same_fs_refl [simp]: "same_fs s s"
  by (simp add: same_fs_def)

lemma same_fs_trans [trans]: "same_fs s t \<Longrightarrow> same_fs t u \<Longrightarrow> same_fs s u"
  by (simp add: same_fs_def)

lemma same_fs_super: "same_fs s t \<Longrightarrow> super t = super s" "same_fs s t \<Longrightarrow> bitmap t = bitmap s"
  by (simp_all add: same_fs_def)

lemma pages_in_same: "pages_in s t \<Longrightarrow> same_fs s t \<and> view t = view s"
  by (auto simp: same_fs_def pages_in_def pages_in_cache_ok)

definition vword :: "(u32 \<Rightarrow> u8) \<Rightarrow> u32 \<Rightarrow> u32" where
  "vword v va = bytes_word [v va, v (va + 1), v (va + 2), v (va + 3)]"

lemma read8_view:
  assumes "read8 va s = Some (b, t)"
  shows "b = view s va \<and> pages_in s t"
proof -
  from assms have "touch va s = Some t" "b = fmem t va" by (auto simp: read8_def bind_eq_Some_conv)
  moreover from this(1) have "pages_in s t" "fmapped t (PGNUM va)" using touch_pages_in by auto
  moreover from this have "fmem t va = view s va" by (metis pages_in_def view_def)
  ultimately show ?thesis by simp
qed

lemma read32_view:
  assumes "read32 va s = Some (w, t)"
  shows "w = vword (view s) va \<and> pages_in s t"
proof -
  from assms have t: "va AND 3 = 0" "touch va s = Some t" "w = mem_word t va"
    by (auto simp: read32_def read32_by_def bind_eq_Some_conv split: if_splits)
  note P = touch_pages_in[OF t(2)]
  have "view t a = fmem t a" if "PGNUM a = PGNUM va" for a using P that by (simp add: view_def)
  then have "w = vword (view t) va" using t(3) word_in_page_123[OF t(1)] by (simp add: vword_def mem_word_def)
  then show ?thesis using P by (simp add: pages_in_def)
qed

lemma write_same_fs:
  assumes "fmapped s p" "fwritable s p" and m: "\<And>a. PGNUM a \<noteq> p \<Longrightarrow> m a = fmem s a"
  shows "same_fs s (s\<lparr>fmem := m, fdirty := (fdirty s)(p := True)\<rparr>)"
proof -
  let ?t = "s\<lparr>fmem := m, fdirty := (fdirty s)(p := True)\<rparr>"
  have "disk_byte ?t = disk_byte s" by (rule disk_byte_cong) simp_all
  then have "cache_ok s \<Longrightarrow> cache_ok ?t" using m unfolding cache_ok_def by auto
  then show ?thesis by (simp add: same_fs_def)
qed

lemma write8_view:
  assumes "write8 va b s = Some t"
  shows "view t = (view s)(va := b) \<and> same_fs s t \<and> fmapped t (PGNUM va)"
proof -
  from assms obtain u where u: "touch va s = Some u" "fwritable u (PGNUM va)"
    and t: "t = u\<lparr>fmem := (fmem u)(va := b), fdirty := (fdirty u)(PGNUM va := True)\<rparr>"
    by (auto simp: write8_def bind_eq_Some_conv split: if_splits)
  note P = touch_pages_in[OF u(1)]
  have d: "disk_byte t = disk_byte u" unfolding t by (rule disk_byte_cong) simp_all
  have "view t = (view u)(va := b)" using P d by (auto simp: view_def fun_eq_iff t[THEN arg_cong, of fmapped] t[THEN arg_cong, of fmem])
  moreover have "same_fs u t" unfolding t using P u(2) by (intro write_same_fs) auto
  ultimately show ?thesis using P pages_in_same[of s u] same_fs_trans[of s u t] by (auto simp: t)
qed

definition put_word :: "(u32 \<Rightarrow> u8) \<Rightarrow> u32 \<Rightarrow> u32 \<Rightarrow> u32 \<Rightarrow> u8" where
  "put_word v va w = v(va := get_byte w 0, va + 1 := get_byte w 1, va + 2 := get_byte w 2, va + 3 := get_byte w 3)"

lemma write32_view:
  assumes "write32 va w s = Some t"
  shows "va AND 3 = 0 \<and> view t = put_word (view s) va w \<and> same_fs s t \<and> fmapped t (PGNUM va)"
proof -
  from assms obtain u where al: "va AND 3 = 0" and u: "touch va s = Some u" "fwritable u (PGNUM va)"
    and t: "t = u\<lparr>fmem := put_word (fmem u) va w, fdirty := (fdirty u)(PGNUM va := True)\<rparr>"
    by (auto simp: write32_def put_word_def bind_eq_Some_conv split: if_splits)
  note P = touch_pages_in[OF u(1)]
  note pg = word_in_page_123[OF al]
  have d: "disk_byte t = disk_byte u" unfolding t by (rule disk_byte_cong) simp_all
  have "view t = put_word (view u) va w" using P d pg
    by (auto simp: view_def put_word_def fun_eq_iff t[THEN arg_cong, of fmapped] t[THEN arg_cong, of fmem])
  moreover have "same_fs u t" unfolding t using P u(2) pg by (intro write_same_fs) (auto simp: put_word_def)
  ultimately show ?thesis using P al pages_in_same[of s u] same_fs_trans[of s u t] by (auto simp: t)
qed

lemma vword_put_word:
  assumes "va AND 3 = 0" and "vb AND 3 = 0"
  shows "vword (put_word v va w) vb = (if vb = va then w else vword v vb)"
proof -
  have n: "unat (x + 1) = unat x + 1" "unat (x + 2) = unat x + 2" "unat (x + 3) = unat x + 3" if "x AND 3 = 0" for x :: u32
    using word_in_page(1)[OF that, of 1] word_in_page(1)[OF that, of 2] word_in_page(1)[OF that, of 3] by simp_all
  have m: "unat va mod 4 = 0" "unat vb mod 4 = 0" using assms by (simp_all add: and_3)
  show ?thesis
  proof (cases "vb = va")
    case True
    have "bytes_word [get_byte w 0, get_byte w 1, get_byte w 2, get_byte w 3] = w"
      using bytes_word_bytes[of w] by (simp add: word_bytes_def)
    then show ?thesis using True by (simp add: vword_def put_word_def)
  next
    case False
    then have ne: "unat vb \<noteq> unat va" by (simp add: word_unat_eq_iff)
    have "vb + word_of_nat j \<noteq> va + word_of_nat i" if "i < 4" "j < 4" for i j
    proof
      assume "vb + word_of_nat j = va + word_of_nat i"
      then have "unat vb + j = unat va + i"
        using word_in_page(1)[OF assms(1) that(1)] word_in_page(1)[OF assms(2) that(2)] by simp
      then show False using m ne that by presburger
    qed
    from this[of 0 0] this[of 0 1] this[of 0 2] this[of 0 3] this[of 1 0] this[of 1 1] this[of 1 2] this[of 1 3]
      this[of 2 0] this[of 2 1] this[of 2 2] this[of 2 3] this[of 3 0] this[of 3 1] this[of 3 2] this[of 3 3]
    have "put_word v va w vb = v vb" "put_word v va w (vb + 1) = v (vb + 1)"
      "put_word v va w (vb + 2) = v (vb + 2)" "put_word v va w (vb + 3) = v (vb + 3)"
      by (auto simp: put_word_def)
    then show ?thesis using False by (simp add: vword_def)
  qed
qed

text \<open>Ranges of bytes.\<close>

lemma read_bytes_view:
  "read_bytes n va s = Some (bs, t) \<Longrightarrow>
   bs = map (\<lambda>i. view s (va + word_of_nat i)) [0..<n] \<and> pages_in s t"
proof (induction n arbitrary: va s bs)
  case (Suc n)
  from Suc.prems obtain b u cs where u: "read8 va s = Some (b, u)" "read_bytes n (va + 1) u = Some (cs, t)" "bs = b # cs"
    by (auto simp: bind_eq_Some_conv)
  note R = read8_view[OF u(1)] and I = Suc.IH[OF u(2)]
  have v: "view u = view s" using R by (simp add: pages_in_def)
  have "bs = view s va # map (\<lambda>i. view s (va + 1 + word_of_nat i)) [0..<n]" using R I u(3) by (simp add: v)
  also have "\<dots> = map (\<lambda>i. view s (va + word_of_nat i)) [0..<Suc n]"
    by (simp add: map_upt_Suc add.assoc del: upt_Suc)
  finally show ?case using R I pages_in_trans by blast
qed simp

definition put_bytes :: "(u32 \<Rightarrow> u8) \<Rightarrow> u32 \<Rightarrow> u8 list \<Rightarrow> u32 \<Rightarrow> u8" where
  "put_bytes v va bs = (\<lambda>a. if unat (a - va) < length bs then bs ! unat (a - va) else v a)"

lemma put_bytes_Nil [simp]: "put_bytes v va [] = v"
  by (simp add: put_bytes_def)

lemma put_bytes_Cons:
  assumes "length bs < 2 ^ 32 - 1"
  shows "put_bytes v va (b # bs) = put_bytes (v(va := b)) (va + 1) bs"
proof
  fix a
  have e: "a - (va + 1) = (a - va) - 1" by simp
  show "put_bytes v va (b # bs) a = put_bytes (v(va := b)) (va + 1) bs a"
  proof (cases "a = va")
    case True
    have "unat (- 1 :: u32) = 2 ^ 32 - 1" by (simp add: unsigned_minus_1_eq_mask mask_eq_exp_minus_1)
    then show ?thesis using True assms by (simp add: put_bytes_def)
  next
    case False
    then have nz: "a - va \<noteq> 0" by simp
    then have "unat (a - va) = Suc (unat (a - (va + 1)))"
      unfolding e by (metis Suc_pred' unat_gt_0 unat_minus_one)
    then show ?thesis using False by (simp add: put_bytes_def)
  qed
qed

lemma write_bytes_view:
  "write_bytes va bs s = Some t \<Longrightarrow> length bs < 2 ^ 32 \<Longrightarrow> view t = put_bytes (view s) va bs \<and> same_fs s t"
proof (induction bs arbitrary: va s)
  case (Cons b bs)
  from Cons.prems obtain u where u: "write8 va b s = Some u" "write_bytes (va + 1) bs u = Some t"
    by (auto simp: bind_eq_Some_conv)
  have "length bs < 2 ^ 32" using Cons.prems(2) by simp
  note W = write8_view[OF u(1)] and I = Cons.IH[OF u(2) this]
  have "view t = put_bytes ((view s)(va := b)) (va + 1) bs" using W I by (simp del: fun_upd_apply)
  moreover have "length bs < 2 ^ 32 - 1" using Cons.prems(2) by simp
  ultimately have "view t = put_bytes (view s) va (b # bs)" by (simp only: put_bytes_Cons)
  then show ?case using W I Cons.prems(2) same_fs_trans[of s u t] by simp
qed simp

lemma fs_memmove_view:
  assumes "fs_memmove dst src n s = Some t" and "n < 2 ^ 32"
  shows "view t = (\<lambda>a. if unat (a - dst) < n then view s (src + (a - dst)) else view s a) \<and> same_fs s t"
proof -
  from assms(1) obtain bs u where u: "read_bytes n src s = Some (bs, u)" "write_bytes dst bs u = Some t"
    by (auto simp: fs_memmove_def bind_eq_Some_conv)
  note R = read_bytes_view[OF u(1)]
  have l: "length bs = n" using R by simp
  note W = write_bytes_view[OF u(2), unfolded l, OF assms(2)]
  have "put_bytes (view u) dst bs = (\<lambda>a. if unat (a - dst) < n then view s (src + (a - dst)) else view s a)"
    using R l by (auto simp: put_bytes_def fun_eq_iff pages_in_def)
  then show ?thesis using W R pages_in_same[of s u] same_fs_trans[of s u t] by simp
qed

section \<open>Disk addresses\<close>

lemma beyond_disk_view:
  assumes "beyond_disk_by touch b s = Some (r, t)"
  shows "pages_in s t \<and> (r \<longleftrightarrow> super s \<noteq> 0 \<and> vword (view s) (super s + 4) \<le> b)"
proof (cases "super s = 0")
  case False
  then obtain n where n: "read32 (super s + 4) s = Some (n, t)" "r \<longleftrightarrow> n \<le> b"
    using assms by (auto simp: beyond_disk_by_def read32_def bind_eq_Some_conv)
  then show ?thesis using read32_view[OF n(1)] False by simp
qed (use assms in \<open>simp add: beyond_disk_by_def\<close>)

lemma diskaddr_view:
  assumes "diskaddr b s = Some (a, t)"
  shows "pages_in s t \<and> a = DISKMAP + b * BLKSIZE \<and> b \<noteq> 0 \<and> (super s = 0 \<or> b < vword (view s) (super s + 4))"
  using assms beyond_disk_view[of b s]
  by (auto simp: diskaddr_def bind_eq_Some_conv not_le split: if_splits)

lemma block_is_free_unfold:
  "block_is_free b s = (if super s = 0 then Some (False, s)
      else do {
        (n, s) \<leftarrow> read32 (super s + 4) s;
        if n \<le> b then Some (False, s)
        else do {
          (w, s) \<leftarrow> read32 (bitmap s + 4 * (b div 32)) s;
          Some (w AND push_bit (unat (b mod 32)) 1 \<noteq> 0, s)
        }
      })"
  unfolding block_is_free_def block_is_free_by_def read32_def by (rule refl)

lemma block_is_free_view:
  assumes "block_is_free b s = Some (r, t)"
  shows "pages_in s t \<and> (r \<longleftrightarrow> super s \<noteq> 0 \<and> b < vword (view s) (super s + 4)
     \<and> bit (vword (view s) (bitmap s + 4 * (b div 32))) (unat (b mod 32)))"
proof (cases "super s = 0")
  case False
  then obtain n u where n: "read32 (super s + 4) s = Some (n, u)"
    and e: "(if n \<le> b then Some (False, u) else do {
          (w, s) \<leftarrow> read32 (bitmap u + 4 * (b div 32)) u;
          Some (w AND push_bit (unat (b mod 32)) 1 \<noteq> 0, s) }) = Some (r, t)"
    using assms by (auto simp: block_is_free_unfold bind_eq_Some_conv)
  note N = read32_view[OF n]
  have wb: "w AND push_bit k 1 \<noteq> 0 \<longleftrightarrow> bit w k" for w :: u32 and k
    by (metis and_exp_eq_0_iff_not_bit push_bit_of_1)
  show ?thesis
  proof (cases "n \<le> b")
    case True
    then show ?thesis using e N False by auto
  next
    case F: False
    then obtain w where w: "read32 (bitmap u + 4 * (b div 32)) u = Some (w, t)" "r \<longleftrightarrow> bit w (unat (b mod 32))"
      using e wb by (auto simp: bind_eq_Some_conv)
    note W = read32_view[OF w(1)]
    have "bitmap u = bitmap s" "view u = view s" using N by (auto simp: pages_in_def)
    then show ?thesis using W N w(2) F False pages_in_trans[of s u t] by (auto simp: not_le)
  qed
qed (use assms in \<open>simp add: block_is_free_unfold\<close>)

section \<open>Write-back\<close>

lemma ide_lba_id:
  assumes "unat secno < 2 ^ 28"
  shows "ide_lba secno = secno"
proof (rule bit_word_eqI)
  fix n assume n: "n < LENGTH(32)"
  have FF: "(0xFF :: u32) = mask 8" "(0x0F :: u32) = mask 4" by (simp_all add: mask_eq_decr_exp)
  have "take_bit 28 secno = secno"
    using assms by (simp add: word_unat_eq_iff unsigned_take_bit_eq take_bit_nat_eq_self)
  then have hi: "bit secno n \<Longrightarrow> n < 28" by (metis bit_take_bit_iff)
  have "bit (ide_lba secno) n \<longleftrightarrow> bit secno n \<and> (n < 8 \<or> 8 \<le> n \<and> n - 8 < 8 \<or> 16 \<le> n \<and> n - 16 < 8 \<or> 24 \<le> n \<and> n - 24 < 4)"
    unfolding ide_lba_def FF bit_or_iff bit_push_bit_iff bit_and_iff bit_drop_bit_eq bit_mask_iff using n by auto
  moreover have "n < 8 \<or> 8 \<le> n \<and> n - 8 < 8 \<or> 16 \<le> n \<and> n - 16 < 8 \<or> 24 \<le> n \<and> n - 24 < 4" if "n < 28"
    using that by linarith
  ultimately show "bit (ide_lba secno) n = bit secno n" using hi by blast
qed

lemma unat_block_of_gen: "unat (block_of a) = unat (a - DISKMAP) div 4096"
  by (simp add: block_of_def BLKSIZE_def PGSIZE_def unat_div)

lemma block_of_inj:
  assumes "block_of a = block_of b"
  shows "PGNUM a = PGNUM b"
proof -
  have P: "PGNUM x = (65536 + unat (block_of x)) mod 1048576" for x
  proof -
    have "unat (DISKMAP + (x - DISKMAP)) = (unat DISKMAP + unat (x - DISKMAP)) mod 2 ^ LENGTH(32)"
      by (rule unat_word_ariths(1))
    then have "unat x = (268435456 + unat (x - DISKMAP)) mod 4294967296" by (simp add: DISKMAP_def)
    also have "\<dots> div 4096 = (268435456 + unat (x - DISKMAP)) div 4096 mod 1048576"
      using mod_mult2_eq[of "268435456 + unat (x - DISKMAP)" 4096 1048576] by simp
    also have "(268435456 + unat (x - DISKMAP)) div 4096 = 65536 + unat (x - DISKMAP) div 4096"
      using div_mult_self1[of 4096 "unat (x - DISKMAP)" 65536] by simp
    finally show ?thesis by (simp add: PGNUM_arith unat_block_of_gen)
  qed
  show ?thesis unfolding P assms ..
qed

lemma block_lba: "ide_lba (block_of a * BLKSECTS) = block_of a * 8" "unat (block_of a * 8) = 8 * unat (block_of a)"
proof -
  have "unat (block_of a) < 1048576" using unat_less[of "a - DISKMAP"] by (simp add: unat_block_of_gen)
  then show u: "unat (block_of a * 8) = 8 * unat (block_of a)" by (simp add: unat_word_ariths)
  have "BLKSECTS = 8" by (simp add: BLKSECTS_def BLKSIZE_def PGSIZE_def SECTSIZE_def)
  then show "ide_lba (block_of a * BLKSECTS) = block_of a * 8"
    using u \<open>unat (block_of a) < 1048576\<close> by (simp add: ide_lba_id)
qed

lemma ide_write_loop_result:
  assumes "ide_write_loop n sec (b + 512 * word_of_nat k) s = Some (r, t)" and "0 \<le> r" and "n < 2 ^ 32 - 1"
  shows "\<exists>tm. t = s\<lparr>disk := (\<lambda>d x o'. if d = diskno s AND 1 \<and> unat (x - sec) < n \<and> o' < 512
       then fmem s (b + 512 * word_of_nat (k + unat (x - sec)) + word_of_nat o') else disk s d x o'), ide_time := tm\<rparr>"
  using assms
proof (induction n arbitrary: sec k s)
  case 0
  then show ?case by (intro exI[of _ "ide_time s"]) simp
next
  case (Suc n)
  let ?d = "b + 512 * word_of_nat k"
  from Suc.prems(1) obtain r0 s0 where w0: "ide_wait_ready True s = Some (r0, s0)" and "r0 < 0 \<longrightarrow> r0 = r"
    by (auto simp: bind_eq_Some_conv split: if_splits)
  then obtain tm where w: "ide_wait_ready True s = Some (0, s\<lparr>ide_time := tm\<rparr>)"
    using ide_wait_ready_result[OF w0] Suc.prems(2) by auto
  from Suc.prems(1) w obtain u where u: "outsl sec ?d (s\<lparr>ide_time := tm\<rparr>) = Some u"
    "ide_write_loop n (sec + 1) (?d + SECTSIZE) u = Some (r, t)"
    by (auto simp: bind_eq_Some_conv)
  have e: "?d + SECTSIZE = b + 512 * word_of_nat (Suc k)" by (simp add: SECTSIZE_def algebra_simps)
  have ud: "u = s\<lparr>disk := (\<lambda>d x o'. if d = diskno s AND 1 \<and> x = sec \<and> o' < 512
       then fmem s (?d + word_of_nat o') else disk s d x o'), ide_time := tm\<rparr>"
    using u(1) by (auto simp: outsl_def fun_eq_iff split: if_splits)
  have "n < 2 ^ 32 - 1" using Suc.prems(3) by simp
  from Suc.IH[OF u(2)[unfolded e] Suc.prems(2) this]
  obtain tm2 where t: "t = u\<lparr>disk := (\<lambda>d x o'. if d = diskno u AND 1 \<and> unat (x - (sec + 1)) < n \<and> o' < 512
       then fmem u (b + 512 * word_of_nat (Suc k + unat (x - (sec + 1))) + word_of_nat o') else disk u d x o'),
       ide_time := tm2\<rparr>" by blast
  have m1: "unat (sec - (sec + 1)) = 2 ^ 32 - 1" by (simp add: unsigned_minus_1_eq_mask mask_eq_exp_minus_1)
  have sx: "unat (x - sec) = Suc (unat (x - (sec + 1)))" if "x \<noteq> sec" for x
  proof -
    have e2: "x - (sec + 1) = (x - sec) - 1" by simp
    have "x - sec \<noteq> 0" using that by simp
    then show ?thesis unfolding e2 by (metis Suc_pred' unat_gt_0 unat_minus_one)
  qed
  have "(\<lambda>d x o'. if d = diskno u AND 1 \<and> unat (x - (sec + 1)) < n \<and> o' < 512
       then fmem u (b + 512 * word_of_nat (Suc k + unat (x - (sec + 1))) + word_of_nat o') else disk u d x o')
     = (\<lambda>d x o'. if d = diskno s AND 1 \<and> unat (x - sec) < Suc n \<and> o' < 512
       then fmem s (b + 512 * word_of_nat (k + unat (x - sec)) + word_of_nat o') else disk s d x o')" (is "?l = ?r")
  proof (intro ext)
    fix d x o'
    show "?l d x o' = ?r d x o'"
    proof (cases "x = sec")
      case True
      have "\<not> 4294967295 < n" using Suc.prems(3) by simp
      then show ?thesis using True m1 Suc.prems(3) by (simp add: ud)
    next
      case False
      show ?thesis using sx[OF False] False by (simp add: ud)
    qed
  qed
  then show ?case using t by (intro exI[of _ tm2]) (simp add: ud)
qed

text \<open>
  \<open>flush_block\<close> leaves the view alone; afterwards the block is clean, and the disk holds what the
  view shows.  No other block of the disk changes.
\<close>

definition flushed :: "u32 \<Rightarrow> fs \<Rightarrow> fs \<Rightarrow> bool" where
  "flushed va s t \<longleftrightarrow> view t = view s \<and> super t = super s \<and> bitmap t = bitmap s \<and> diskno t = diskno s
     \<and> fmapped t = fmapped s \<and> fwritable t = fwritable s \<and> ide_status t = ide_status s
     \<and> fdirty t = (if fmapped s (PGNUM va) then (fdirty s)(PGNUM va := False) else fdirty s) \<and> fmem t = fmem s
     \<and> (\<forall>a. PGNUM a = PGNUM va \<longrightarrow> disk_byte t a = view s a) \<and> (\<forall>a. PGNUM a \<noteq> PGNUM va \<longrightarrow> disk_byte t a = disk_byte s a)"

lemma flush_block_result:
  assumes f: "flush_block va s = Some t" and ok: "cache_ok s"
  shows "flushed va s t"
proof -
  have dm: "in_diskmap va" using f by (auto simp: flush_block_def Let_def split: if_splits)
  show ?thesis
  proof (cases "fmapped s (PGNUM va) \<and> fdirty s (PGNUM va)")
    case False
    then have t: "t = s" using f dm by (auto simp: flush_block_def Let_def va_is_mapped_def va_is_dirty_def split: if_splits)
    have "disk_byte s a = view s a" if "PGNUM a = PGNUM va" for a
      using that False ok dm by (auto simp: view_def cache_ok_def in_diskmap_PGNUM)
    then show ?thesis using False by (auto simp: flushed_def t fun_eq_iff)
  next
    case True
    let ?b = "ROUNDDOWN va PGSIZE" and ?s = "block_of va * 8"
    have B: "unat BLKSECTS = 8" by (simp add: BLKSECTS_def BLKSIZE_def PGSIZE_def SECTSIZE_def unat_div)
    from f dm True obtain r s1 where w: "ide_write (block_of va * BLKSECTS) ?b BLKSECTS s = Some (r, s1)" "0 \<le> r"
      and m: "(let (r, s) = fs_page_remap ?b s1 in if r < 0 then None else Some s) = Some t"
      by (auto simp: flush_block_def Let_def va_is_mapped_def va_is_dirty_def bind_eq_Some_conv split: if_splits)
    obtain r0 s0 where w0: "ide_wait_ready False s = Some (r0, s0)"
      and l: "ide_write_loop 8 ?s (?b + 512 * word_of_nat 0) s0 = Some (r, s1)"
      using w(1) by (simp only: ide_write_def B block_lba) (auto simp: bind_eq_Some_conv split: if_splits)
    from ide_wait_ready_result[OF w0] obtain tm where s0: "s0 = s\<lparr>ide_time := tm\<rparr>" by blast
    from ide_write_loop_result[OF l w(2)] obtain tm2 where
      "s1 = s0\<lparr>disk := (\<lambda>d x o'. if d = diskno s0 AND 1 \<and> unat (x - ?s) < 8 \<and> o' < 512
         then fmem s0 (?b + 512 * word_of_nat (0 + unat (x - ?s)) + word_of_nat o') else disk s0 d x o'), ide_time := tm2\<rparr>"
      by auto
    then have s1: "s1 = s\<lparr>disk := (\<lambda>d x o'. if d = diskno s AND 1 \<and> unat (x - ?s) < 8 \<and> o' < 512
         then fmem s (?b + 512 * word_of_nat (0 + unat (x - ?s)) + word_of_nat o') else disk s d x o'), ide_time := tm2\<rparr>"
      unfolding s0 by (simp cong: if_cong)
    from m obtain r4 where m4: "fs_page_remap ?b s1 = (r4, t)" "0 \<le> r4" by (auto split: prod.splits if_splits)
    note t = fs_page_remap_result[OF m4, unfolded PGNUM_page_base]
    have db: "disk_byte t a = (if PGNUM a = PGNUM va then fmem s a else disk_byte s a)" for a
    proof -
      let ?k = "unat (PGOFF a) div 512"
      let ?x = "block_of a * 8 + word_of_nat ?k"
      have k: "?k < 8" using PGOFF_less[of a] by simp
      have bl: "unat (block_of c) < 1048576" for c using unat_less[of "c - DISKMAP"] by (simp add: unat_block_of_gen)
      have uk: "unat (word_of_nat ?k :: u32) = ?k" using k by (simp add: unat_of_nat take_bit_eq_mod)
      have x: "unat ?x = 8 * unat (block_of a) + ?k"
        using k bl[of a] block_lba(2)[of a] uk by (subst unat_add_lem[THEN iffD1]) simp_all
      show ?thesis
      proof (cases "PGNUM a = PGNUM va")
        case True
        have "?x - ?s = word_of_nat ?k" using block_of_same_page[OF dm True] by simp
        then have ux: "unat (?x - ?s) = ?k" using uk by simp
        have "a = ?b + (a - ?b)" by simp
        moreover have "a - ?b = word_of_nat (unat (PGOFF a))"
        proof -
          have "word_of_nat (unat (a - ?b)) = a - ?b" by simp
          then show ?thesis using in_page(2)[OF PGOFF_page_base, of a va] True by simp
        qed
        moreover have "(word_of_nat (unat (PGOFF a)) :: u32) = 512 * word_of_nat ?k + word_of_nat (unat (PGOFF a) mod 512)"
          by (metis of_nat_add of_nat_mult mult_div_mod_eq of_nat_numeral)
        ultimately have "?b + 512 * word_of_nat (0 + unat (?x - ?s)) + word_of_nat (unat (PGOFF a) mod 512) = a"
          using ux by (simp add: add.assoc)
        then show ?thesis using True k ux by (simp add: disk_byte_def t s1 block_lba(1))
      next
        case False
        then have ne: "unat (block_of a) \<noteq> unat (block_of va)" using block_of_inj[of a va] by (auto simp: word_unat_eq_iff)
        have "\<not> unat (?x - ?s) < 8"
        proof
          assume 8: "unat (?x - ?s) < 8"
          have "?x = ?s + (?x - ?s)" by simp
          moreover have "unat ?s + unat (?x - ?s) < 2 ^ 32" using 8 bl[of va] block_lba(2)[of va] by simp
          ultimately have "unat ?x = unat ?s + unat (?x - ?s)" using unat_add_lem[of ?s "?x - ?s"] by simp
          then have "8 * unat (block_of a) + ?k = 8 * unat (block_of va) + unat (?x - ?s)"
            unfolding x block_lba(2)[of va] .
          then have "(8 * unat (block_of a) + ?k) div 8 = (8 * unat (block_of va) + unat (?x - ?s)) div 8" by (rule arg_cong)
          then show False using k 8 ne by simp
        qed
        then show ?thesis using False by (simp add: disk_byte_def t s1 block_lba(1))
      qed
    qed
    then have "view t = view s" using True by (auto simp: view_def t s1 fun_eq_iff)
    then show ?thesis using db True by (auto simp: flushed_def t s1 view_def fun_eq_iff)
  qed
qed

lemma flush_block_view:
  assumes "flush_block va s = Some t" and "cache_ok s"
  shows "view t = view s \<and> same_fs s t"
proof -
  note F = flush_block_result[OF assms, unfolded flushed_def]
  have "cache_ok t" unfolding cache_ok_def
  proof (intro allI impI conjI)
    fix a assume a: "in_diskmap a \<and> fmapped t (PGNUM a)"
    then show "fwritable t (PGNUM a)" using F assms(2) by (auto simp: cache_ok_def)
    assume "\<not> fdirty t (PGNUM a)"
    then show "fmem t a = disk_byte t a" using F a assms(2) by (cases "PGNUM a = PGNUM va") (auto simp: cache_ok_def view_def split: if_splits)
  qed
  then show ?thesis using F by (simp add: same_fs_def)
qed

end
