(* ===== verification/FsFile.thy ===== *)
theory FsFile
  imports FsView "HOL-Library.Signed_Division"
begin

text \<open>
  The file system proper (\<open>fs/fs.c\<close>) and the initialisation of the block cache (\<open>fs/bc.c\<close>), on the
  memory of \<open>FsDisk\<close>.  A \<open>struct File\<close> is its address; the fields are at the offsets that the packed
  structure of \<open>inc/fs.h\<close> gives them.  Path names and other strings that live on the server's stack
  are lists of bytes without the terminating zero.

  A function that returns an error code and stores a result through a pointer returns the pair.
  Loops whose bound is read from memory are partial functions.
\<close>

definition NDIRECT :: u32 where "NDIRECT = 10"
definition NINDIRECT :: u32 where "NINDIRECT = BLKSIZE div 4"
definition MAXPATHLEN :: nat where "MAXPATHLEN = 1024"
definition BLKFILES :: nat where "BLKFILES = 16"
definition FTYPE_DIR :: u32 where "FTYPE_DIR = 1"
definition FS_MAGIC :: u32 where "FS_MAGIC = 0x4A0530AE"

definition f_size :: "u32 \<Rightarrow> u32" where "f_size f = f + 128"
definition f_type :: "u32 \<Rightarrow> u32" where "f_type f = f + 132"
definition f_direct :: "u32 \<Rightarrow> u32 \<Rightarrow> u32" where "f_direct f i = f + 136 + 4 * i"
definition f_indirect :: "u32 \<Rightarrow> u32" where "f_indirect f = f + 176"
definition s_nblocks :: "u32 \<Rightarrow> u32" where "s_nblocks p = p + 4"
definition s_root :: "u32 \<Rightarrow> u32" where "s_root p = p + 8"

text \<open>Signed 32-bit arithmetic: comparison, and division and remainder by the block size.\<close>

definition sdiv_blk :: "u32 \<Rightarrow> u32" where "sdiv_blk x = word_of_int (sint x sdiv 4096)"
definition smod_blk :: "u32 \<Rightarrow> u32" where "smod_blk x = word_of_int (sint x smod 4096)"

section \<open>Superblock and bitmap\<close>

definition check_super :: "fs \<Rightarrow> fs option" where
  "check_super s = do {
     (m, s) \<leftarrow> read32 (super s) s;
     if m \<noteq> FS_MAGIC then None else do {
       (n, s) \<leftarrow> read32 (s_nblocks (super s)) s;
       if n > DISKSIZE div BLKSIZE then None
       else Some (fcprintf ''superblock is good'' s)
     }
   }"

definition bit_addr :: "u32 \<Rightarrow> fs \<Rightarrow> u32" where
  "bit_addr blockno s = bitmap s + 4 * (blockno div 32)"

definition bit_mask :: "u32 \<Rightarrow> u32" where
  "bit_mask blockno = push_bit (unat (blockno mod 32)) 1"

definition free_block :: "u32 \<Rightarrow> fs \<Rightarrow> fs option" where
  "free_block blockno s =
     (if blockno = 0 then None
      else do {
        (w, s) \<leftarrow> read32 (bit_addr blockno s) s;
        write32 (bit_addr blockno s) (w OR bit_mask blockno) s
      })"

partial_function (option) alloc_loop :: "u32 \<Rightarrow> fs \<Rightarrow> (int \<times> fs) option" where
  "alloc_loop nb s = do {
     (n, s) \<leftarrow> read32 (s_nblocks (super s)) s;
     if nb < n then do {
       (free, s) \<leftarrow> block_is_free nb s;
       if free then do {
         (w, s) \<leftarrow> read32 (bit_addr nb s) s;
         s \<leftarrow> write32 (bit_addr nb s) (w AND NOT (bit_mask nb)) s;
         s \<leftarrow> flush_block (bitmap s) s;
         Some (sint nb, s)
       }
       else alloc_loop (nb + 1) s
     }
     else Some (- E_NO_DISK, s)
   }"

definition alloc_block :: "fs \<Rightarrow> (int \<times> fs) option" where
  "alloc_block = alloc_loop 0"

partial_function (option) check_bitmap_loop :: "u32 \<Rightarrow> fs \<Rightarrow> fs option" where
  "check_bitmap_loop i s = do {
     (n, s) \<leftarrow> read32 (s_nblocks (super s)) s;
     if i * BLKBITSIZE < n then do {
       (free, s) \<leftarrow> block_is_free (2 + i) s;
       if free then None else check_bitmap_loop (i + 1) s
     }
     else Some s
   }"

definition check_bitmap :: "fs \<Rightarrow> fs option" where
  "check_bitmap s = do {
     s \<leftarrow> check_bitmap_loop 0 s;
     (free0, s) \<leftarrow> block_is_free 0 s;
     if free0 then None else do {
       (free1, s) \<leftarrow> block_is_free 1 s;
       if free1 then None else Some (fcprintf ''bitmap is good'' s)
     }
   }"

section \<open>Strings in memory\<close>

text \<open>\<open>strcmp(p, q) == 0\<close> for a string in memory and one on the stack, and \<open>strcpy\<close> into memory.\<close>

fun str_eq :: "u32 \<Rightarrow> u8 list \<Rightarrow> fs \<Rightarrow> (bool \<times> fs) option" where
  "str_eq p [] s = do { (b, s) \<leftarrow> read8 p s; Some (b = 0, s) }"
| "str_eq p (c # cs) s = do {
     (b, s) \<leftarrow> read8 p s;
     if b = c then str_eq (p + 1) cs s else Some (False, s)
   }"

definition str_copy :: "u32 \<Rightarrow> u8 list \<Rightarrow> fs \<Rightarrow> fs option" where
  "str_copy p cs s = write_bytes p (cs @ [0]) s"

definition bytes_of :: "string \<Rightarrow> u8 list" where
  "bytes_of cs = map of_char cs"

section \<open>Initialisation\<close>

definition fs_page_unmap :: "u32 \<Rightarrow> fs \<Rightarrow> fs" where
  "fs_page_unmap va s = (if fmapped s (PGNUM va)
     then s\<lparr>fmapped := (fmapped s)(PGNUM va := False), pages_left := pages_left s + 1\<rparr> else s)"

definition smash_msg :: "u8 list" where
  "smash_msg = bytes_of ''OOPS!'' @ [10]"

text \<open>
  One round of \<open>check_bc\<close>: smash the superblock, write it back through the address \<open>1 + off\<close>, drop
  the page, read it in again and restore it.  The two rounds differ in \<open>off\<close> and in the check of the
  dirty bit.
\<close>

definition check_bc_round :: "u32 \<Rightarrow> fs \<Rightarrow> fs option" where
  "check_bc_round off s = do {
     (a, s) \<leftarrow> diskaddr 1 s;
     (backup, s) \<leftarrow> read_bytes 264 a s;
     s \<leftarrow> str_copy a smash_msg s;
     s \<leftarrow> flush_block (a + off) s;
     if \<not> va_is_mapped a s then None
     else if off = 0 \<and> va_is_dirty a s then None
     else (let s = fs_page_unmap a s in
       if va_is_mapped a s then None else do {
         (same, s) \<leftarrow> str_eq a smash_msg s;
         if \<not> same then None else do {
           s \<leftarrow> write_bytes a backup s;
           flush_block a s
         }
       })
   }"

definition check_bc :: "fs \<Rightarrow> fs option" where
  "check_bc s = do {
     s \<leftarrow> check_bc_round 0 s;
     s \<leftarrow> check_bc_round 20 s;
     Some (fcprintf ''block cache is good'' s)
   }"

definition bc_init :: "fs \<Rightarrow> fs option" where
  "bc_init s = do {
     s \<leftarrow> check_bc s;
     (a, s) \<leftarrow> diskaddr 1 s;
     (_, s) \<leftarrow> read_bytes 264 a s;
     Some s
   }"

definition fs_init :: "fs \<Rightarrow> fs option" where
  "fs_init s = do {
     (present, s) \<leftarrow> ide_probe_disk1 s;
     s \<leftarrow> ide_set_disk (if present then 1 else 0) s;
     s \<leftarrow> bc_init s;
     (a, s) \<leftarrow> diskaddr 1 s;
     s \<leftarrow> check_super (s\<lparr>super := a\<rparr>);
     (a, s) \<leftarrow> diskaddr 2 s;
     check_bitmap (s\<lparr>bitmap := a\<rparr>)
   }"

section \<open>Blocks of a file\<close>

definition alloc_indirect :: "u32 \<Rightarrow> fs \<Rightarrow> (int \<times> fs) option" where
  "alloc_indirect f s = do {
     (blockno, s) \<leftarrow> alloc_block s;
     if blockno < 0 then Some (- E_NO_DISK, s)
     else do {
       s \<leftarrow> write32 (f_indirect f) (word_of_int blockno) s;
       (blockaddr, s) \<leftarrow> diskaddr (word_of_int blockno) s;
       let (r, s) = fs_page_alloc blockaddr s;
       if r < 0 then None else do {
         s \<leftarrow> write_bytes blockaddr (replicate 4096 0) s;
         s \<leftarrow> flush_block blockaddr s;
         Some (0, s)
       }
     }
   }"

definition file_block_walk :: "u32 \<Rightarrow> u32 \<Rightarrow> bool \<Rightarrow> fs \<Rightarrow> ((int \<times> u32) \<times> fs) option" where
  "file_block_walk f filebno alloc s =
     (if NDIRECT + NINDIRECT \<le> filebno then Some ((- E_INVAL, 0), s)
      else if filebno < NDIRECT then Some ((0, f_direct f filebno), s)
      else do {
        (ind, s) \<leftarrow> read32 (f_indirect f) s;
        (r, s) \<leftarrow> (if ind \<noteq> 0 then Some (0, s)
                   else if \<not> alloc then Some (- E_NOT_FOUND, s)
                   else alloc_indirect f s);
        if r < 0 then Some ((r, 0), s)
        else do {
          (ind, s) \<leftarrow> read32 (f_indirect f) s;
          (blk, s) \<leftarrow> diskaddr ind s;
          Some ((0, blk + 4 * (filebno - NDIRECT)), s)
        }
      })"

text \<open>
  In \<open>file_get_block\<close> the failure of \<open>alloc_block\<close> is tested on the unsigned slot, which is never
  negative.
\<close>

definition file_get_block :: "u32 \<Rightarrow> u32 \<Rightarrow> fs \<Rightarrow> ((int \<times> u32) \<times> fs) option" where
  "file_get_block f filebno s = do {
     ((r, blkno), s) \<leftarrow> file_block_walk f filebno True s;
     if r < 0 then Some ((r, 0), s)
     else do {
       (b, s) \<leftarrow> read32 blkno s;
       (r, s) \<leftarrow> (if b = 0 then do {
                    (nb, s) \<leftarrow> alloc_block s;
                    s \<leftarrow> write32 blkno (word_of_int nb) s;
                    (b, s) \<leftarrow> read32 blkno s;
                    Some (if b < 0 then - E_NO_DISK else 0, s)
                  }
                  else Some (0, s));
       if r < 0 then Some ((r, 0), s)
       else do {
         (b, s) \<leftarrow> read32 blkno s;
         (blk, s) \<leftarrow> diskaddr b s;
         s \<leftarrow> flush_block blkno s;
         Some ((0, blk), s)
       }
     }
   }"

section \<open>Directories\<close>

text \<open>
  The first of the \<open>n\<close> directory entries from address \<open>f\<close> on that satisfies the test, and the search
  over the blocks of a directory; \<open>dir_lookup\<close> and \<open>dir_alloc_file\<close> run it with different tests.
\<close>

fun find_file :: "(u32 \<Rightarrow> fs \<Rightarrow> (bool \<times> fs) option) \<Rightarrow> nat \<Rightarrow> u32 \<Rightarrow> fs \<Rightarrow> (u32 option \<times> fs) option" where
  "find_file test 0 f s = Some (None, s)"
| "find_file test (Suc n) f s = do {
     (yes, s) \<leftarrow> test f s;
     if yes then Some (Some f, s) else find_file test n (f + 256) s
   }"

partial_function (option) dir_scan ::
  "(u32 \<Rightarrow> fs \<Rightarrow> (bool \<times> fs) option) \<Rightarrow> u32 \<Rightarrow> u32 \<Rightarrow> u32 \<Rightarrow> fs \<Rightarrow> ((int \<times> u32 option) \<times> fs) option" where
  "dir_scan test dir i nblock s =
     (if i < nblock then do {
        ((r, blk), s) \<leftarrow> file_get_block dir i s;
        if r < 0 then Some ((r, None), s)
        else do {
          (x, s) \<leftarrow> find_file test BLKFILES blk s;
          if x \<noteq> None then Some ((0, x), s)
          else dir_scan test dir (i + 1) nblock s
        }
      }
      else Some ((0, None), s))"

definition dir_lookup :: "u32 \<Rightarrow> u8 list \<Rightarrow> fs \<Rightarrow> ((int \<times> u32) \<times> fs) option" where
  "dir_lookup dir name s = do {
     (size, s) \<leftarrow> read32 (f_size dir) s;
     if smod_blk size \<noteq> 0 then None
     else do {
       ((r, x), s) \<leftarrow> dir_scan (\<lambda>f. str_eq f name) dir 0 (sdiv_blk size) s;
       if r < 0 then Some ((r, 0), s)
       else case x of Some f \<Rightarrow> Some ((0, f), s) | None \<Rightarrow> Some ((- E_NOT_FOUND, 0), s)
     }
   }"

definition dir_alloc_file :: "u32 \<Rightarrow> fs \<Rightarrow> ((int \<times> u32) \<times> fs) option" where
  "dir_alloc_file dir s = do {
     (size, s) \<leftarrow> read32 (f_size dir) s;
     if smod_blk size \<noteq> 0 then None
     else do {
       let nblock = sdiv_blk size;
       ((r, x), s) \<leftarrow> dir_scan (\<lambda>f. str_eq f []) dir 0 nblock s;
       if r < 0 then Some ((r, 0), s)
       else case x of Some f \<Rightarrow> Some ((0, f), s)
       | None \<Rightarrow> do {
           s \<leftarrow> write32 (f_size dir) (size + BLKSIZE) s;
           ((r, blk), s) \<leftarrow> file_get_block dir nblock s;
           if r < 0 then Some ((r, 0), s) else Some ((0, blk), s)
         }
     }
   }"

definition skip_slash :: "u8 list \<Rightarrow> u8 list" where
  "skip_slash = dropWhile (\<lambda>c. c = 47)"

text \<open>
  \<open>walk_path\<close> returns the error code, \<open>*pdir\<close>, \<open>*pf\<close> and the last element of the path.
\<close>

function walk_loop :: "u8 list \<Rightarrow> u32 \<Rightarrow> u32 \<Rightarrow> fs \<Rightarrow> ((int \<times> u32 \<times> u32 \<times> u8 list) \<times> fs) option" where
  "walk_loop [] dir f s = Some ((0, dir, f, []), s)"
| "walk_loop (c # cs) dir0 dir s =
     (let name = takeWhile (\<lambda>c. c \<noteq> 47) (c # cs);
          path = skip_slash (dropWhile (\<lambda>c. c \<noteq> 47) (c # cs))
      in if MAXNAMELEN \<le> length name then Some ((- E_BAD_PATH, 0, 0, []), s)
         else do {
           (t, s) \<leftarrow> read32 (f_type dir) s;
           if t \<noteq> FTYPE_DIR then Some ((- E_NOT_FOUND, 0, 0, []), s)
           else do {
             ((r, f), s) \<leftarrow> dir_lookup dir name s;
             if r < 0 then
               (if r = - E_NOT_FOUND \<and> path = [] then Some ((r, dir, 0, name), s) else Some ((r, 0, 0, []), s))
             else walk_loop path dir f s
           }
         })"
  by pat_completeness auto
termination
  by (relation "measure (\<lambda>(p, _). length p)")
    (auto simp: skip_slash_def less_Suc_eq_le intro: length_dropWhile_le order_trans)

definition walk_path :: "u8 list \<Rightarrow> fs \<Rightarrow> ((int \<times> u32 \<times> u32 \<times> u8 list) \<times> fs) option" where
  "walk_path path s = walk_loop (skip_slash path) 0 (s_root (super s)) s"

end
