(* ===== verification/FsOps.thy ===== *)
theory FsOps
  imports FsFile
begin

text \<open>
  The operations on files (\<open>fs/fs.c\<close>): reading, writing, truncating, flushing, creating and opening.
  Offsets and sizes are 32-bit words, signed where the code has \<open>off_t\<close> or \<open>int\<close>; sums and
  comparisons that mix \<open>off_t\<close> and \<open>size_t\<close> are unsigned, as in C.
\<close>

section \<open>Truncation and size\<close>

definition file_free_block :: "u32 \<Rightarrow> u32 \<Rightarrow> fs \<Rightarrow> (int \<times> fs) option" where
  "file_free_block f filebno s = do {
     ((r, ptr), s) \<leftarrow> file_block_walk f filebno False s;
     if r < 0 then Some (r, s)
     else do {
       (b, s) \<leftarrow> read32 ptr s;
       if b \<noteq> 0 then do {
         s \<leftarrow> free_block b s;
         s \<leftarrow> write32 ptr 0 s;
         Some (0, s)
       }
       else Some (0, s)
     }
   }"

partial_function (option) truncate_loop :: "u32 \<Rightarrow> u32 \<Rightarrow> u32 \<Rightarrow> fs \<Rightarrow> fs option" where
  "truncate_loop f bno old_nblocks s =
     (if bno < old_nblocks then do {
        (r, s) \<leftarrow> file_free_block f bno s;
        truncate_loop f (bno + 1) old_nblocks
          (if r < 0 then fcprintf ''warning: file_free_block'' s else s)
      }
      else Some s)"

definition file_truncate_blocks :: "u32 \<Rightarrow> u32 \<Rightarrow> fs \<Rightarrow> fs option" where
  "file_truncate_blocks f newsize s = do {
     (size, s) \<leftarrow> read32 (f_size f) s;
     let old_nblocks = sdiv_blk (size + BLKSIZE - 1);
     let new_nblocks = sdiv_blk (newsize + BLKSIZE - 1);
     s \<leftarrow> truncate_loop f new_nblocks old_nblocks s;
     if new_nblocks \<le> NDIRECT then do {
       (ind, s) \<leftarrow> read32 (f_indirect f) s;
       if ind \<noteq> 0 then do {
         s \<leftarrow> free_block ind s;
         write32 (f_indirect f) 0 s
       }
       else Some s
     }
     else Some s
   }"

definition file_set_size :: "u32 \<Rightarrow> u32 \<Rightarrow> fs \<Rightarrow> (int \<times> fs) option" where
  "file_set_size f newsize s = do {
     (size, s) \<leftarrow> read32 (f_size f) s;
     s \<leftarrow> (if sint size > sint newsize then file_truncate_blocks f newsize s else Some s);
     s \<leftarrow> write32 (f_size f) newsize s;
     s \<leftarrow> flush_block f s;
     Some (0, s)
   }"

section \<open>Reading and writing\<close>

text \<open>\<open>MIN(BLKSIZE - pos % BLKSIZE, limit - pos)\<close>: what is left of the block or of the transfer.\<close>

definition chunk :: "u32 \<Rightarrow> u32 \<Rightarrow> u32" where
  "chunk pos limit = min (BLKSIZE - smod_blk pos) (limit - pos)"

partial_function (option) read_loop :: "u32 \<Rightarrow> u32 \<Rightarrow> u32 \<Rightarrow> u32 \<Rightarrow> fs \<Rightarrow> (int \<times> fs) option" where
  "read_loop f buf pos limit s =
     (if pos < limit then do {
        ((r, blk), s) \<leftarrow> file_get_block f (sdiv_blk pos) s;
        if r < 0 then Some (r, s)
        else do {
          let bn = chunk pos limit;
          s \<leftarrow> fs_memmove buf (blk + smod_blk pos) (unat bn) s;
          read_loop f (buf + bn) (pos + bn) limit s
        }
      }
      else Some (0, s))"

definition file_read :: "u32 \<Rightarrow> u32 \<Rightarrow> u32 \<Rightarrow> u32 \<Rightarrow> fs \<Rightarrow> (int \<times> fs) option" where
  "file_read f buf count offset s = do {
     (size, s) \<leftarrow> read32 (f_size f) s;
     if sint size \<le> sint offset then Some (0, s)
     else do {
       let count = min count (size - offset);
       (r, s) \<leftarrow> read_loop f buf offset (offset + count) s;
       if r < 0 then Some (r, s) else Some (sint count, s)
     }
   }"

partial_function (option) write_loop :: "u32 \<Rightarrow> u32 \<Rightarrow> u32 \<Rightarrow> u32 \<Rightarrow> fs \<Rightarrow> (int \<times> fs) option" where
  "write_loop f buf pos limit s =
     (if pos < limit then do {
        ((r, blk), s) \<leftarrow> file_get_block f (sdiv_blk pos) s;
        if r < 0 then Some (r, s)
        else do {
          let bn = chunk pos limit;
          s \<leftarrow> fs_memmove (blk + smod_blk pos) buf (unat bn) s;
          write_loop f (buf + bn) (pos + bn) limit s
        }
      }
      else Some (0, s))"

definition file_write :: "u32 \<Rightarrow> u32 \<Rightarrow> u32 \<Rightarrow> u32 \<Rightarrow> fs \<Rightarrow> (int \<times> fs) option" where
  "file_write f buf count offset s = do {
     (size, s) \<leftarrow> read32 (f_size f) s;
     (r, s) \<leftarrow> (if size < offset + count then file_set_size f (offset + count) s else Some (0, s));
     if r < 0 then Some (r, s)
     else do {
       (r, s) \<leftarrow> write_loop f buf offset (offset + count) s;
       if r < 0 then Some (r, s) else Some (sint count, s)
     }
   }"

section \<open>Flushing\<close>

partial_function (option) file_flush_loop :: "u32 \<Rightarrow> int \<Rightarrow> fs \<Rightarrow> fs option" where
  "file_flush_loop f i s = do {
     (size, s) \<leftarrow> read32 (f_size f) s;
     if i < sint (sdiv_blk (size + BLKSIZE - 1)) then do {
       ((r, slot), s) \<leftarrow> file_block_walk f (word_of_int i) False s;
       if r < 0 then file_flush_loop f (i + 1) s
       else do {
         (b, s) \<leftarrow> read32 slot s;
         if b = 0 then file_flush_loop f (i + 1) s
         else do {
           (a, s) \<leftarrow> diskaddr b s;
           s \<leftarrow> flush_block a s;
           file_flush_loop f (i + 1) s
         }
       }
     }
     else Some s
   }"

definition file_flush :: "u32 \<Rightarrow> fs \<Rightarrow> fs option" where
  "file_flush f s = do {
     s \<leftarrow> file_flush_loop f 0 s;
     s \<leftarrow> flush_block f s;
     (ind, s) \<leftarrow> read32 (f_indirect f) s;
     if ind \<noteq> 0 then do {
       (a, s) \<leftarrow> diskaddr ind s;
       flush_block a s
     }
     else Some s
   }"

partial_function (option) fs_sync_loop :: "u32 \<Rightarrow> fs \<Rightarrow> fs option" where
  "fs_sync_loop i s = do {
     (n, s) \<leftarrow> read32 (s_nblocks (super s)) s;
     if i < n then do {
       (a, s) \<leftarrow> diskaddr i s;
       s \<leftarrow> flush_block a s;
       fs_sync_loop (i + 1) s
     }
     else Some s
   }"

definition fs_sync :: "fs \<Rightarrow> fs option" where
  "fs_sync = fs_sync_loop 1"

section \<open>Creating and opening\<close>

definition file_create :: "u8 list \<Rightarrow> fs \<Rightarrow> ((int \<times> u32) \<times> fs) option" where
  "file_create path s = do {
     ((r, dir, f, name), s) \<leftarrow> walk_path path s;
     if r = 0 then Some ((- E_FILE_EXISTS, 0), s)
     else if r \<noteq> - E_NOT_FOUND \<or> dir = 0 then Some ((r, 0), s)
     else do {
       ((r, f), s) \<leftarrow> dir_alloc_file dir s;
       if r < 0 then Some ((r, 0), s)
       else do {
         s \<leftarrow> str_copy f name s;
         s \<leftarrow> file_flush dir s;
         Some ((0, f), s)
       }
     }
   }"

definition file_open :: "u8 list \<Rightarrow> fs \<Rightarrow> ((int \<times> u32) \<times> fs) option" where
  "file_open path s = do {
     ((r, _, f, _), s) \<leftarrow> walk_path path s;
     Some ((r, f), s)
   }"

end
