(* ===== verification/FsServ.thy ===== *)
theory FsServ
  imports FsOps
begin

text \<open>
  The file server (\<open>fs/serv.c\<close>): the table of open files and the requests of the clients.

  The server's state is the file system's, the array \<open>opentab\<close>, and for each entry the page of its
  \<open>struct Fd\<close> with the number of address spaces that map it (\<open>pageref\<close>).  A request comes with a page,
  which the kernel maps at \<open>fsreq\<close>; handlers read their arguments from it and write their results
  into it, through the same memory as the block cache.
\<close>

record fdpage =
  fd_dev_id :: u32
  fd_offset :: u32
  fd_omode :: u32
  fd_id :: u32

definition zero_fd :: fdpage where
  "zero_fd = \<lparr>fd_dev_id = 0, fd_offset = 0, fd_omode = 0, fd_id = 0\<rparr>"

record openfile =
  o_fileid :: u32
  o_file :: u32
  o_mode :: u32
  o_fd :: u32

record srv =
  sfs :: fs
  opentab :: "openfile list"
  fdpg :: "nat \<Rightarrow> fdpage"
  fdref :: "nat \<Rightarrow> nat"

definition MAXOPEN :: nat where "MAXOPEN = 1024"
definition FILEVA :: u32 where "FILEVA = 0xD0000000"
definition fsreq :: u32 where "fsreq = 0x0ffff000"
definition devfile_id :: u32 where "devfile_id = of_char CHR ''f''"

definition FSREQ_OPEN :: u32 where "FSREQ_OPEN = 1"
definition FSREQ_SET_SIZE :: u32 where "FSREQ_SET_SIZE = 2"
definition FSREQ_READ :: u32 where "FSREQ_READ = 3"
definition FSREQ_WRITE :: u32 where "FSREQ_WRITE = 4"
definition FSREQ_STAT :: u32 where "FSREQ_STAT = 5"
definition FSREQ_FLUSH :: u32 where "FSREQ_FLUSH = 6"
definition FSREQ_SYNC :: u32 where "FSREQ_SYNC = 8"

definition set_open :: "nat \<Rightarrow> openfile \<Rightarrow> srv \<Rightarrow> srv" where
  "set_open i e v = v\<lparr>opentab := (opentab v)[i := e]\<rparr>"

definition set_fd :: "nat \<Rightarrow> fdpage \<Rightarrow> srv \<Rightarrow> srv" where
  "set_fd i d v = v\<lparr>fdpg := (fdpg v)(i := d)\<rparr>"

definition serve_init :: "srv \<Rightarrow> srv" where
  "serve_init v = v\<lparr>opentab := map (\<lambda>i. (opentab v ! i)\<lparr>o_fileid := word_of_nat i,
      o_fd := FILEVA + word_of_nat i * PGSIZE\<rparr>) [0..<MAXOPEN]\<rparr>"

section \<open>The table of open files\<close>

text \<open>The kernel's \<open>sys_page_alloc\<close> for an Fd page, from the same pool as the block cache.\<close>

definition fd_page_alloc :: "nat \<Rightarrow> srv \<Rightarrow> int \<times> srv" where
  "fd_page_alloc i v =
     (if pages_left (sfs v) = 0 then (- E_NO_MEM, v)
      else (0, v\<lparr>sfs := (sfs v)\<lparr>pages_left := pages_left (sfs v) - 1\<rparr>, fdref := (fdref v)(i := 1)\<rparr>))"

definition openfile_alloc :: "srv \<Rightarrow> (int \<times> nat) \<times> srv" where
  "openfile_alloc v =
     (case find (\<lambda>i. fdref v i \<le> 1) [0..<MAXOPEN] of
        None \<Rightarrow> ((- E_MAX_OPEN, 0), v)
      | Some i \<Rightarrow>
          let (r, v) = (if fdref v i = 0 then fd_page_alloc i v else (0, v))
          in if r < 0 then ((r, 0), v)
             else let e = opentab v ! i;
                      e = e\<lparr>o_fileid := o_fileid e + word_of_nat MAXOPEN\<rparr>;
                      v = set_fd i zero_fd (set_open i e v)
                  in ((sint (o_fileid e), i), v))"

definition openfile_lookup :: "u32 \<Rightarrow> srv \<Rightarrow> int \<times> nat" where
  "openfile_lookup fileid v =
     (let i = unat (fileid mod word_of_nat MAXOPEN)
      in if fdref v i \<le> 1 \<or> o_fileid (opentab v ! i) \<noteq> fileid then (- E_INVAL, 0) else (0, i))"

section \<open>Requests\<close>

text \<open>Running an operation of the file system on the server's state.\<close>

definition with_fs :: "(fs \<Rightarrow> ('a \<times> fs) option) \<Rightarrow> srv \<Rightarrow> ('a \<times> srv) option" where
  "with_fs m v = do { (r, s) \<leftarrow> m (sfs v); Some (r, v\<lparr>sfs := s\<rparr>) }"

definition with_fs_unit :: "(fs \<Rightarrow> fs option) \<Rightarrow> srv \<Rightarrow> srv option" where
  "with_fs_unit m v = do { s \<leftarrow> m (sfs v); Some (v\<lparr>sfs := s\<rparr>) }"

text \<open>
  \<open>serve_open\<close> returns the error code, the address of the page to send back (0 for none) and its
  permission.  The first part finds or creates the file.
\<close>

definition open_path :: "u8 list \<Rightarrow> u32 \<Rightarrow> fs \<Rightarrow> ((int \<times> u32) \<times> fs) option" where
  "open_path path omode s =
     (if omode AND O_CREAT \<noteq> 0 then do {
        ((r, f), s) \<leftarrow> file_create path s;
        if r < 0 then (if omode AND O_EXCL = 0 \<and> r = - E_FILE_EXISTS then file_open path s else Some ((r, 0), s))
        else Some ((r, f), s)
      }
      else file_open path s)"

definition serve_open :: "srv \<Rightarrow> ((int \<times> u32 \<times> u32) \<times> srv) option" where
  "serve_open v = do {
     (req_path, v) \<leftarrow> with_fs (read_bytes MAXPATHLEN fsreq) v;
     let path = takeWhile (\<lambda>c. c \<noteq> 0) (butlast req_path);
     let ((r, i), v) = openfile_alloc v;
     if r < 0 then Some ((r, 0, 0), v)
     else do {
       (omode, v) \<leftarrow> with_fs (read32 (fsreq + word_of_nat MAXPATHLEN)) v;
       ((r, f), v) \<leftarrow> with_fs (open_path path omode) v;
       if r < 0 then Some ((r, 0, 0), v)
       else do {
         (r, v) \<leftarrow> (if omode AND O_TRUNC \<noteq> 0 then with_fs (file_set_size f 0) v else Some (0, v));
         if r < 0 then Some ((r, 0, 0), v)
         else do {
           ((r, f), v) \<leftarrow> with_fs (file_open path) v;
           if r < 0 then Some ((r, 0, 0), v)
           else (let e = (opentab v ! i)\<lparr>o_file := f, o_mode := omode\<rparr>;
                     d = (fdpg v i)\<lparr>fd_id := o_fileid e, fd_omode := omode AND O_ACCMODE, fd_dev_id := devfile_id\<rparr>
                 in Some ((0, o_fd e, PTE_P OR PTE_U OR PTE_W OR PTE_SHARE), set_fd i d (set_open i e v)))
         }
       }
     }
   }"

definition serve_set_size :: "srv \<Rightarrow> (int \<times> srv) option" where
  "serve_set_size v = do {
     (fileid, v) \<leftarrow> with_fs (read32 fsreq) v;
     let (r, i) = openfile_lookup fileid v;
     if r < 0 then Some (r, v)
     else do {
       (sz, v) \<leftarrow> with_fs (read32 (fsreq + 4)) v;
       with_fs (file_set_size (o_file (opentab v ! i)) sz) v
     }
   }"

text \<open>Both transfers compute a count capped to the page, and then pass the client's own count.\<close>

definition serve_read :: "srv \<Rightarrow> (int \<times> srv) option" where
  "serve_read v = do {
     (fileid, v) \<leftarrow> with_fs (read32 fsreq) v;
     let (r, i) = openfile_lookup fileid v;
     if r < 0 then Some (r, v)
     else do {
       (req_n, v) \<leftarrow> with_fs (read32 (fsreq + 4)) v;
       (r, v) \<leftarrow> with_fs (file_read (o_file (opentab v ! i)) fsreq req_n (fd_offset (fdpg v i))) v;
       if r < 0 then Some (r, v)
       else (let d = fdpg v i in Some (r, set_fd i (d\<lparr>fd_offset := fd_offset d + word_of_int r\<rparr>) v))
     }
   }"

definition serve_write :: "srv \<Rightarrow> (int \<times> srv) option" where
  "serve_write v = do {
     (fileid, v) \<leftarrow> with_fs (read32 fsreq) v;
     let (r, i) = openfile_lookup fileid v;
     if r < 0 then Some (r, v)
     else do {
       (req_n, v) \<leftarrow> with_fs (read32 (fsreq + 4)) v;
       (r, v) \<leftarrow> with_fs (file_write (o_file (opentab v ! i)) (fsreq + 8) req_n (fd_offset (fdpg v i))) v;
       if r < 0 then Some (r, v)
       else (let d = fdpg v i in Some (r, set_fd i (d\<lparr>fd_offset := fd_offset d + word_of_int r\<rparr>) v))
     }
   }"

text \<open>\<open>strcpy\<close> from one place of memory to another.\<close>

partial_function (option) mem_strcpy :: "u32 \<Rightarrow> u32 \<Rightarrow> fs \<Rightarrow> fs option" where
  "mem_strcpy dst src s = do {
     (b, s) \<leftarrow> read8 src s;
     s \<leftarrow> write8 dst b s;
     if b = 0 then Some s else mem_strcpy (dst + 1) (src + 1) s
   }"

definition serve_stat :: "srv \<Rightarrow> (int \<times> srv) option" where
  "serve_stat v = do {
     (fileid, v) \<leftarrow> with_fs (read32 fsreq) v;
     let (r, i) = openfile_lookup fileid v;
     if r < 0 then Some (r, v)
     else do {
       let f = o_file (opentab v ! i);
       v \<leftarrow> with_fs_unit (mem_strcpy fsreq f) v;
       (sz, v) \<leftarrow> with_fs (read32 (f_size f)) v;
       v \<leftarrow> with_fs_unit (write32 (fsreq + 128) sz) v;
       (t, v) \<leftarrow> with_fs (read32 (f_type f)) v;
       v \<leftarrow> with_fs_unit (write32 (fsreq + 132) (if t = FTYPE_DIR then 1 else 0)) v;
       Some (0, v)
     }
   }"

definition serve_flush :: "srv \<Rightarrow> (int \<times> srv) option" where
  "serve_flush v = do {
     (fileid, v) \<leftarrow> with_fs (read32 fsreq) v;
     let (r, i) = openfile_lookup fileid v;
     if r < 0 then Some (r, v)
     else do {
       v \<leftarrow> with_fs_unit (file_flush (o_file (opentab v ! i))) v;
       Some (0, v)
     }
   }"

definition serve_sync :: "srv \<Rightarrow> (int \<times> srv) option" where
  "serve_sync v = do { v \<leftarrow> with_fs_unit fs_sync v; Some (0, v) }"

text \<open>The table of handlers; \<open>FSREQ_OPEN\<close> is served apart.\<close>

definition fs_handler :: "u32 \<Rightarrow> (srv \<Rightarrow> (int \<times> srv) option) option" where
  "fs_handler req =
     (if req = FSREQ_READ then Some serve_read
      else if req = FSREQ_STAT then Some serve_stat
      else if req = FSREQ_FLUSH then Some serve_flush
      else if req = FSREQ_WRITE then Some serve_write
      else if req = FSREQ_SET_SIZE then Some serve_set_size
      else if req = FSREQ_SYNC then Some serve_sync
      else None)"

section \<open>The main loop\<close>

text \<open>
  A request as \<open>ipc_recv\<close> delivers it: the code, the permission that the kernel reports, and the page
  if one was transferred, with its contents and whether it can be written.
\<close>

record message =
  msg_req :: u32
  msg_perm :: u32
  msg_page :: "((nat \<Rightarrow> u8) \<times> bool) option"

definition receive :: "message \<Rightarrow> srv \<Rightarrow> srv" where
  "receive m v = (case msg_page m of
      None \<Rightarrow> v
    | Some (pg, w) \<Rightarrow> v\<lparr>sfs := (sfs v)\<lparr>
          fmem := (\<lambda>a. if PGNUM a = PGNUM fsreq then pg (unat (PGOFF a)) else fmem (sfs v) a),
          fmapped := (fmapped (sfs v))(PGNUM fsreq := True),
          fwritable := (fwritable (sfs v))(PGNUM fsreq := w)\<rparr>\<rparr>)"

text \<open>
  One round of \<open>serve\<close>: the reply (value, page, permission) that it sends, if any, and the new
  state.  Sending an Fd page maps it in the client as well.
\<close>

definition serve_round :: "message \<Rightarrow> srv \<Rightarrow> ((int \<times> u32 \<times> u32) option \<times> srv) option" where
  "serve_round m v =
     (let v = receive m v; perm = msg_perm m; req = msg_req m in
      if perm AND PTE_P = 0 then Some (None, v\<lparr>sfs := fcprintf ''Invalid request: no argument page'' (sfs v)\<rparr>)
      else do {
        ((r, pg, perm), v) \<leftarrow>
          (if req = FSREQ_OPEN then do {
             ((r, pg, perm'), v) \<leftarrow> serve_open v;
             Some ((r, pg, if pg = 0 then perm else perm'), v)
           }
           else case fs_handler req of
             Some h \<Rightarrow> do { (r, v) \<leftarrow> h v; Some ((r, 0, perm), v) }
           | None \<Rightarrow> Some ((- E_INVAL, 0, perm), v\<lparr>sfs := fcprintf ''Invalid request code'' (sfs v)\<rparr>));
        let v = (if pg = 0 then v
                 else let i = unat ((pg - FILEVA) div PGSIZE) in v\<lparr>fdref := (fdref v)(i := fdref v i + 1)\<rparr>);
        Some (Some (r, pg, perm), v\<lparr>sfs := (sfs v)\<lparr>fmapped := (fmapped (sfs v))(PGNUM fsreq := False)\<rparr>\<rparr>)
      })"

end
