(* ===== verification/FsLive.thy ===== *)
theory FsLive
  imports FsServ
begin

text \<open>
  When the block cache returns: with a drive that answers, memory left and an allocated block, a page
  fault is served; accesses to pages that are present never fail.
\<close>

text \<open>A drive that is always ready and reports no error.\<close>

definition drive_ok :: "fs \<Rightarrow> bool" where
  "drive_ok s \<longleftrightarrow> (\<forall>n. ide_status s n = IDE_DRDY)"

lemma drive_ok_wait: "drive_ok s \<Longrightarrow> ide_wait_ready chk s = Some (0, s\<lparr>ide_time := ide_time s + 1\<rparr>)"
  by (simp add: drive_ok_def ide_wait_ready_now)

lemma drive_ok_cong: "ide_status t = ide_status s \<Longrightarrow> drive_ok t = drive_ok s"
  by (simp add: drive_ok_def)

lemma BLKSECTS_8: "BLKSECTS = 8" "unat BLKSECTS = 8"
  by (simp_all add: BLKSECTS_def BLKSIZE_def PGSIZE_def SECTSIZE_def)

lemma ide_read_loop_total:
  assumes "drive_ok s" "PGOFF b = 0" "n + k \<le> 8" "fmapped s (PGNUM b)" "fwritable s (PGNUM b)"
  shows "\<exists>t. ide_read_loop n sec (b + 512 * word_of_nat k) s = Some (0, t)"
  using assms
proof (induction n arbitrary: k sec s)
  case (Suc n)
  have k: "k < 8" using Suc.prems(3) by simp
  have e: "b + 512 * word_of_nat k + SECTSIZE = b + 512 * word_of_nat (Suc k)" by (simp add: SECTSIZE_def algebra_simps)
  let ?u = "s\<lparr>ide_time := ide_time s + 1\<rparr>"
  obtain u where u: "insl sec (b + 512 * word_of_nat k) ?u = Some u" "ide_status u = ide_status s"
    "fmapped u = fmapped s" "fwritable u = fwritable s"
    using Suc.prems(4,5) sector_base(1)[OF Suc.prems(2) k] by (simp add: insl_def)
  have "drive_ok u" "Suc k + n \<le> 8" using Suc.prems(1,3) u(2) by (simp_all add: drive_ok_def)
  then obtain t where "ide_read_loop n (sec + 1) (b + 512 * word_of_nat (Suc k)) u = Some (0, t)"
    using Suc.IH[of u "Suc k" "sec + 1"] Suc.prems u by (auto simp del: of_nat_Suc)
  then show ?case using u(1) drive_ok_wait[OF Suc.prems(1)] by (simp add: e del: of_nat_Suc)
qed simp

lemma ide_write_loop_total:
  assumes "drive_ok s" "PGOFF b = 0" "n + k \<le> 8" "fmapped s (PGNUM b)"
  shows "\<exists>t. ide_write_loop n sec (b + 512 * word_of_nat k) s = Some (0, t)"
  using assms
proof (induction n arbitrary: k sec s)
  case (Suc n)
  have k: "k < 8" using Suc.prems(3) by simp
  have e: "b + 512 * word_of_nat k + SECTSIZE = b + 512 * word_of_nat (Suc k)" by (simp add: SECTSIZE_def algebra_simps)
  let ?u = "s\<lparr>ide_time := ide_time s + 1\<rparr>"
  obtain u where u: "outsl sec (b + 512 * word_of_nat k) ?u = Some u" "ide_status u = ide_status s" "fmapped u = fmapped s"
    using Suc.prems(4) sector_base(1)[OF Suc.prems(2) k] by (simp add: outsl_def)
  have "drive_ok u" "Suc k + n \<le> 8" using Suc.prems(1,3) u(2) by (simp_all add: drive_ok_def)
  then obtain t where "ide_write_loop n (sec + 1) (b + 512 * word_of_nat (Suc k)) u = Some (0, t)"
    using Suc.IH[of u "Suc k" "sec + 1"] Suc.prems u by (auto simp del: of_nat_Suc)
  then show ?case using u(1) drive_ok_wait[OF Suc.prems(1)] by (simp add: e del: of_nat_Suc)
qed simp

lemma ide_read_total:
  assumes "drive_ok s" "PGOFF b = 0" "fmapped s (PGNUM b)" "fwritable s (PGNUM b)"
  shows "\<exists>t. ide_read sec b BLKSECTS s = Some (0, t)"
proof -
  have "drive_ok (s\<lparr>ide_time := ide_time s + 1\<rparr>)" using assms(1) by (simp add: drive_ok_def)
  from ide_read_loop_total[OF this assms(2), of 8 0 "ide_lba sec"] assms(3,4)
  show ?thesis by (simp add: ide_read_def drive_ok_wait[OF assms(1)] BLKSECTS_8)
qed

lemma ide_write_total:
  assumes "drive_ok s" "PGOFF b = 0" "fmapped s (PGNUM b)"
  shows "\<exists>t. ide_write sec b BLKSECTS s = Some (0, t)"
proof -
  have "drive_ok (s\<lparr>ide_time := ide_time s + 1\<rparr>)" using assms(1) by (simp add: drive_ok_def)
  from ide_write_loop_total[OF this assms(2), of 8 0 "ide_lba sec"] assms(3)
  show ?thesis by (simp add: ide_write_def drive_ok_wait[OF assms(1)] BLKSECTS_8)
qed

lemma ide_write_frame:
  assumes "ide_write sec b BLKSECTS s = Some (r, t)"
  shows "ide_status t = ide_status s \<and> fmapped t = fmapped s \<and> pages_left t = pages_left s"
proof -
  have loop: "ide_write_loop n x d s = Some (r, t) \<Longrightarrow>
      ide_status t = ide_status s \<and> fmapped t = fmapped s \<and> pages_left t = pages_left s" for n x d s
  proof (induction n arbitrary: x d s)
    case (Suc n)
    from Suc.prems obtain r0 s0 where w: "ide_wait_ready True s = Some (r0, s0)"
      and e: "(if r0 < 0 then Some (r0, s0) else do { s \<leftarrow> outsl x d s0; ide_write_loop n (x + 1) (d + SECTSIZE) s }) = Some (r, t)"
      by (auto simp: bind_eq_Some_conv)
    from ide_wait_ready_result[OF w] obtain tm where "s0 = s\<lparr>ide_time := tm\<rparr>" by blast
    then show ?case using e Suc.IH by (auto simp: bind_eq_Some_conv outsl_def split: if_splits)
  qed simp
  from assms obtain r0 s0 where w: "ide_wait_ready False s = Some (r0, s0)" and l: "ide_write_loop 8 (ide_lba sec) b s0 = Some (r, t)"
    by (simp only: ide_write_def BLKSECTS_8) (auto simp: bind_eq_Some_conv split: if_splits)
  from ide_wait_ready_result[OF w] obtain tm where "s0 = s\<lparr>ide_time := tm\<rparr>" by blast
  then show ?thesis using loop[OF l] by simp
qed

lemma below_UTOP: "in_diskmap va \<Longrightarrow> \<not> UTOP \<le> ROUNDDOWN va PGSIZE"
  using page_base[of va] PGNUM_arith[of va]
  by (simp add: in_diskmap_PGNUM UTOP_def word_le_nat_alt not_le)

lemma flush_block_total:
  assumes dm: "in_diskmap va" and d: "drive_ok s"
  shows "\<exists>t. flush_block va s = Some t"
proof (cases "fmapped s (PGNUM va) \<and> fdirty s (PGNUM va)")
  case True
  let ?b = "ROUNDDOWN va PGSIZE"
  obtain t where t: "ide_write (block_of va * BLKSECTS) ?b BLKSECTS s = Some (0, t)"
    using ide_write_total[OF d, of ?b] True by auto
  have "fmapped t = fmapped s" using ide_write_frame[OF t] by simp
  then show ?thesis using t dm True below_UTOP[OF dm]
    by (simp add: flush_block_def va_is_mapped_def va_is_dirty_def fs_page_remap_def Let_def)
qed (use dm in \<open>auto simp: flush_block_def va_is_mapped_def va_is_dirty_def Let_def\<close>)

lemma flush_block_pages_left: "flush_block va s = Some t \<Longrightarrow> pages_left t = pages_left s"
  by (auto simp: flush_block_def fs_page_remap_def Let_def bind_eq_Some_conv dest!: ide_write_frame split: if_splits)

section \<open>Pages that are present\<close>

lemma align_add:
  assumes "(x :: u32) AND 3 = 0"
  shows "(x + 4 * k) AND 3 = 0"
proof -
  have "unat x mod 4 = 0" using assms by (simp only: and_3)
  then obtain q where q: "unat x = 4 * q" by auto
  obtain r where r: "unat (4 * k) = 4 * r"
  proof
    show "unat (4 * k) = 4 * (unat k mod 1073741824)"
      using mod_mult_mult1[of 4 "unat k" 1073741824] by (simp add: unat_word_ariths)
  qed
  have "unat (x + 4 * k) = (4 * (q + r)) mod (4 * 1073741824)"
    by (simp only: unat_word_ariths(1)[of x "4 * k"] q r add_mult_distrib2) simp
  also have "\<dots> = 4 * ((q + r) mod 1073741824)" by (rule mod_mult_mult1)
  finally show ?thesis by (simp only: and_3) simp
qed

lemma read8_present [simp]: "fmapped s (PGNUM va) \<Longrightarrow> read8 va s = Some (view s va, s)"
  by (simp add: read8_def view_def)

lemma read32_by_present:
  assumes "va AND 3 = 0" "fmapped s (PGNUM va)" and acc: "acc va s = Some s"
  shows "read32_by acc va s = Some (vword (view s) va, s)"
  using assms word_in_page_123[OF assms(1)] by (simp add: read32_by_def mem_word_def vword_def view_def)

lemma read32_present:
  "va AND 3 = 0 \<Longrightarrow> fmapped s (PGNUM va) \<Longrightarrow> read32 va s = Some (vword (view s) va, s)"
  by (simp add: read32_def read32_by_present)

lemma write32_present:
  assumes "va AND 3 = 0" "fmapped s (PGNUM va)" "fwritable s (PGNUM va)"
  shows "\<exists>t. write32 va w s = Some t"
  using assms by (simp add: write32_def)

lemma read_bytes_present:
  assumes "\<And>i. i < n \<Longrightarrow> fmapped s (PGNUM (va + word_of_nat i))"
  shows "read_bytes n va s = Some (map (\<lambda>i. view s (va + word_of_nat i)) [0..<n], s)"
proof -
  have "\<exists>bs. read_bytes n va s = Some (bs, s)"
    using assms
  proof (induction n arbitrary: va)
    case (Suc n)
    have "fmapped s (PGNUM (va + 1 + word_of_nat i))" if "i < n" for i
      using Suc.prems[of "Suc i"] that by (simp add: add.assoc)
    from Suc.IH[OF this] Suc.prems[of 0] show ?case by auto
  qed simp
  then show ?thesis using read_bytes_view by blast
qed

lemma write_bytes_present:
  assumes "\<And>i. i < length bs \<Longrightarrow> fmapped s (PGNUM (va + word_of_nat i)) \<and> fwritable s (PGNUM (va + word_of_nat i))"
  shows "\<exists>t. write_bytes va bs s = Some t"
  using assms
proof (induction bs arbitrary: va s)
  case (Cons b bs)
  have "fmapped s (PGNUM va)" "fwritable s (PGNUM va)" using Cons.prems[of 0] by simp_all
  then obtain u where u: "write8 va b s = Some u" "fmapped u = fmapped s" "fwritable u = fwritable s"
    by (simp add: write8_def)
  have "\<exists>t. write_bytes (va + 1) bs u = Some t"
    by (rule Cons.IH) (use Cons.prems[of "Suc i" for i] u(2,3) in \<open>simp add: add.assoc\<close>)
  then show ?case using u(1) by auto
qed simp

lemma fs_memmove_present:
  assumes "\<And>i. i < n \<Longrightarrow> fmapped s (PGNUM (src + word_of_nat i))"
    and "\<And>i. i < n \<Longrightarrow> fmapped s (PGNUM (dst + word_of_nat i)) \<and> fwritable s (PGNUM (dst + word_of_nat i))"
  shows "\<exists>t. fs_memmove dst src n s = Some t"
  using read_bytes_present[OF assms(1)] write_bytes_present[of "map (\<lambda>i. view s (src + word_of_nat i)) [0..<n]" s dst] assms(2)
  by (simp add: fs_memmove_def)

section \<open>Words of bytes\<close>

lemma word_bytes_bytes: "word_bytes (bytes_word [a, b, c, d]) = [a, b, c, d]"
proof -
  have "get_byte (bytes_word [a, b, c, d]) k = [a, b, c, d] ! k" if "k < 4" for k
  proof (rule bit_word_eqI)
    fix n assume "n < LENGTH(8)"
    then have n: "n < 8" by simp
    have hi: "\<not> bit (x :: u8) m" if "8 \<le> m" for x m using that by (rule bit_byte_high)
    have "k = 0 \<or> k = 1 \<or> k = 2 \<or> k = 3" using that by linarith
    then show "bit (get_byte (bytes_word [a, b, c, d]) k) n = bit ([a, b, c, d] ! k) n"
      using n hi by (elim disjE) (auto simp: bit_get_byte bit_bytes_word)
  qed
  then show ?thesis by (simp add: word_bytes_def)
qed

end
