(* ===== verification/FsProps.thy ===== *)
theory FsProps
  imports FsLive
begin

text \<open>
  The properties of the disk driver, the block cache and the block allocator (\<open>fs/ide.c\<close>,
  \<open>fs/bc.c\<close>, \<open>fs/fs.c\<close>).
\<close>

section \<open>The block cache\<close>

text \<open>A server on a disk of eight blocks: block 2 is the bitmap, the
  blocks 5 and 6 are free, block 7 is not in memory, and the file of the examples is the root directory's entry in the
  superblock, with its data in blocks 3 and 4.\<close>

definition demo_page :: "u32 \<Rightarrow> u8" where
  "demo_page a = (if a = 0x10001004 then 8 else if a = 0x10002000 then 0x60
     else if a = 0x10001090 then 3 else if a = 0x10001094 then 4
     else if a = 0x10001089 then 0x20 else if a = 0x10003000 then 65 else 0)"

definition demo_fs :: fs where
  "demo_fs = \<lparr>fmem = demo_page, fmapped = (\<lambda>p. p \<noteq> 65543), fwritable = (\<lambda>_. True), fdirty = (\<lambda>_. True), pages_left = 4,
     super = 0x10001000, bitmap = 0x10002000, diskno = 1, disk = (\<lambda>d x o'. 7), ide_status = (\<lambda>_. IDE_DRDY),
     ide_time = 0, fs_out = []\<rparr>"

lemma demo_fs_simps [simp]:
  "fmapped demo_fs p = (p \<noteq> 65543)" "fwritable demo_fs p" "fdirty demo_fs p" "pages_left demo_fs = 4"
  "super demo_fs = 0x10001000" "bitmap demo_fs = 0x10002000" "fmem demo_fs = demo_page" "diskno demo_fs = 1"
  "disk demo_fs d x o' = 7" "ide_status demo_fs n = IDE_DRDY"
  by (simp_all add: demo_fs_def)

lemma demo_cache_ok: "cache_ok demo_fs"
  by (simp add: cache_ok_def)

text \<open>The page fault handler returns.  A fault on an allocated block of the disk, when the drive
  answers, the kernel has a page left and the superblock and the bitmap block are present, ends with
  the block in its page, clean, with the bytes of the disk.\<close>

theorem block_fault_loads_block:
  assumes d: "drive_ok s" and pl: "0 < pages_left s" and un: "\<not> fmapped s (PGNUM va)" and dm: "in_diskmap va"
    and sup: "super s \<noteq> 0" "super s AND 3 = 0" "fmapped s (PGNUM (super s + 4))" "block_of va < vword (view s) (super s + 4)"
    and bm: "bitmap s \<noteq> 0" "bitmap s AND 3 = 0" "fmapped s (PGNUM (bitmap s + 4 * (block_of va div 32)))"
    and used: "\<not> bit (vword (view s) (bitmap s + 4 * (block_of va div 32))) (unat (block_of va mod 32))"
  shows "\<exists>t. touch va s = Some t \<and> fmapped t (PGNUM va) \<and> \<not> fdirty t (PGNUM va)
     \<and> (\<forall>a. PGNUM a = PGNUM va \<longrightarrow> fmem t a = disk_byte s a) \<and> pages_left t + 1 = pages_left s"
proof -
  have s4: "(super s + 4) AND 3 = 0" using align_add[of "super s" 1] sup(2) by simp
  let ?acc = "access_to 3" and ?b = "ROUNDDOWN va PGSIZE"
  have acc: "?acc a u = Some u" if "fmapped u (PGNUM a)" for a u using that by (simp add: eval_nat_numeral)
  have 1: "beyond_disk_by ?acc (block_of va) s = Some (False, s)"
    using sup s4 acc by (simp add: beyond_disk_by_def read32_by_present not_le)
  obtain s2 where 2: "fs_page_alloc ?b s = (0, s2)" and s2: "fmapped s2 = (fmapped s)(PGNUM va := True)"
    "fwritable s2 (PGNUM va)" "ide_status s2 = ide_status s" "pages_left s2 + 1 = pages_left s"
    using pl un below_UTOP[OF dm] by (simp add: fs_page_alloc_def)
  have "drive_ok s2" using d s2(3) by (simp add: drive_ok_def)
  then obtain s3 where 3: "ide_read (block_of va * BLKSECTS) ?b BLKSECTS s2 = Some (0, s3)"
    using ide_read_total[of s2 ?b] s2 by auto
  have m3: "fmapped s3 = fmapped s2" "pages_left s3 = pages_left s2" using ide_read_page[OF 3 _ dm] by auto
  obtain s4' where 4: "fs_page_remap ?b s3 = (0, s4')" "pages_left s4' = pages_left s3"
    using below_UTOP[OF dm] m3 s2 by (simp add: fs_page_remap_def)
  have P: "pages_in s s4' \<and> fmapped s4' (PGNUM va)"
    by (rule page_in_step[OF un dm pages_in_refl 2 _ 3 _ 4(1)]) simp_all
  then have v4: "view s4' = view s" "super s4' = super s" "bitmap s4' = bitmap s" "\<And>p. fmapped s p \<Longrightarrow> fmapped s4' p"
    by (auto simp: pages_in_def)
  have wb: "w AND push_bit k 1 \<noteq> 0 \<longleftrightarrow> bit w k" for w :: u32 and k
    by (metis and_exp_eq_0_iff_not_bit push_bit_of_1)
  have 5: "block_is_free_by ?acc (block_of va) s4' = Some (False, s4')"
    using sup s4 bm used align_add[OF bm(2), of "block_of va div 32"] acc v4 wb
    by (simp add: block_is_free_by_def read32_by_present not_le)
  have "touch va s = Some s4'"
  proof -
    have "touch va s = bc_pgfault ?acc va s" using un by (simp add: touch_def eval_nat_numeral)
    then show ?thesis using dm 1 2 3 4(1) 5 v4(3) bm(1) by (simp add: bc_pgfault_def Let_def)
  qed
  moreover have "\<not> fdirty s4' (PGNUM va)" using P un by (auto simp: pages_in_def)
  moreover have "fmem s4' a = disk_byte s a" if "PGNUM a = PGNUM va" for a
    using P that un v4(1) by (metis view_def)
  moreover have "pages_left s4' + 1 = pages_left s" using 4(2) m3(2) s2(4) by simp
  ultimately show ?thesis using P by blast
qed

lemma demo_vword:
  "vword (view demo_fs) 0x10001004 = 8" "vword (view demo_fs) 0x10002000 = 0x60"
  "vword (view demo_fs) 0x10001090 = 3" "vword (view demo_fs) 0x10001094 = 4" "vword (view demo_fs) 0x10001088 = 0x2000"
  "vword (view demo_fs) 0x10001098 = 0"
  by (simp_all add: vword_def view_def demo_page_def PGNUM_arith bytes_word_def)

lemma demo_drive: "drive_ok demo_fs"
  by (simp add: drive_ok_def)

theorem block_fault_loads_block_witness:
  "\<exists>t. touch 0x10007000 demo_fs = Some t \<and> fmapped t (PGNUM 0x10007000) \<and> \<not> fdirty t (PGNUM 0x10007000)
     \<and> (\<forall>a. PGNUM a = PGNUM 0x10007000 \<longrightarrow> fmem t a = disk_byte demo_fs a) \<and> pages_left t + 1 = pages_left demo_fs"
proof -
  have b: "block_of 0x10007000 = 7" by (simp add: block_of_def DISKMAP_def BLKSIZE_def PGSIZE_def)
  show ?thesis
    by (rule block_fault_loads_block)
       (simp_all add: demo_drive b demo_vword PGNUM_arith in_diskmap_def DISKMAP_def DISKSIZE_def bit_iff_odd)
qed

text \<open>C28: \<open>flush_block\<close> returns when the drive answers; then the disk holds what the server sees in that
  block, the block is clean, no other block of the disk has changed, and nothing the server sees has.\<close>

theorem flush_block_writes_back:
  assumes "drive_ok s" and "cache_ok s" and "in_diskmap va"
  shows "\<exists>t. flush_block va s = Some t \<and> view t = view s \<and> cache_ok t
     \<and> (\<forall>a. disk_byte t a = (if PGNUM a = PGNUM va then view s a else disk_byte s a))
     \<and> (fmapped s (PGNUM va) \<longrightarrow> \<not> fdirty t (PGNUM va))"
proof -
  obtain t where t: "flush_block va s = Some t" using flush_block_total[OF assms(3,1)] by blast
  have "cache_ok t" using flush_block_view[OF t assms(2)] assms(2) by (simp add: same_fs_def)
  then show ?thesis using t flush_block_result[OF t assms(2)] by (simp add: flushed_def)
qed

theorem flush_block_writes_back_witness:
  "\<exists>t. flush_block 0x10003010 demo_fs = Some t \<and> view t = view demo_fs \<and> cache_ok t
     \<and> (\<forall>a. disk_byte t a = (if PGNUM a = PGNUM 0x10003010 then view demo_fs a else disk_byte demo_fs a))
     \<and> (fmapped demo_fs (PGNUM 0x10003010) \<longrightarrow> \<not> fdirty t (PGNUM 0x10003010))"
  by (rule flush_block_writes_back[OF demo_drive demo_cache_ok]) (simp add: in_diskmap_def DISKMAP_def DISKSIZE_def)

section \<open>The block allocator\<close>

text \<open>The superblock and the bitmap are in memory, and the disk fits the disk map.\<close>

definition nblocks :: "fs \<Rightarrow> u32" where
  "nblocks s = vword (view s) (s_nblocks (super s))"

definition meta_ok :: "fs \<Rightarrow> bool" where
  "meta_ok s \<longleftrightarrow> super s = DISKMAP + BLKSIZE \<and> bitmap s = DISKMAP + 2 * BLKSIZE \<and> fmapped s 65537
     \<and> nblocks s \<le> DISKSIZE div BLKSIZE \<and> drive_ok s \<and> cache_ok s
     \<and> (\<forall>b < nblocks s. fmapped s (PGNUM (bit_addr b s)) \<and> fwritable s (PGNUM (bit_addr b s)))"

definition is_free :: "fs \<Rightarrow> u32 \<Rightarrow> bool" where
  "is_free s b \<longleftrightarrow> bit (vword (view s) (bit_addr b s)) (unat (b mod 32))"

lemma meta_okD:
  assumes "meta_ok s"
  shows "super s = 0x10001000" "bitmap s = 0x10002000" "fmapped s 65537" "nblocks s \<le> 786432" "drive_ok s" "cache_ok s"
    "b < nblocks s \<Longrightarrow> fmapped s (PGNUM (bit_addr b s)) \<and> fwritable s (PGNUM (bit_addr b s))"
  using assms by (auto simp: meta_ok_def DISKMAP_def BLKSIZE_def PGSIZE_def DISKSIZE_def)

lemma read_nblocks:
  assumes "meta_ok s"
  shows "read32 (s_nblocks (super s)) s = Some (nblocks s, s)"
  using meta_okD[OF assms] by (simp add: read32_present nblocks_def s_nblocks_def PGNUM_arith)

lemma bit_addr_aligned: "meta_ok s \<Longrightarrow> bit_addr b s AND 3 = 0"
  using align_add[of "0x10002000" "b div 32"] meta_okD(2)[of s] by (simp add: bit_addr_def)

lemma block_is_free_present:
  assumes "meta_ok s" and "b < nblocks s"
  shows "block_is_free b s = Some (is_free s b, s)"
proof -
  have wb: "w AND push_bit k 1 \<noteq> 0 \<longleftrightarrow> bit w k" for w :: u32 and k
    by (metis and_exp_eq_0_iff_not_bit push_bit_of_1)
  have "read32 (bit_addr b s) s = Some (vword (view s) (bit_addr b s), s)"
    by (rule read32_present) (use bit_addr_aligned[OF assms(1)] meta_okD(7)[OF assms] in auto)
  moreover have "\<not> nblocks s \<le> b" using assms(2) by simp
  ultimately show ?thesis using read_nblocks[OF assms(1)] meta_okD(1)[OF assms(1)] wb
    by (simp add: block_is_free_unfold is_free_def bit_addr_def s_nblocks_def)
qed

text \<open>Where the bits of the blocks are.\<close>

lemma bit_addr_at:
  assumes "meta_ok s" and "b < nblocks s"
  shows "unat (bit_addr b s) = 0x10002000 + 4 * (unat b div 32)" and "unat b < 786432"
proof -
  show b: "unat b < 786432" using assms(2) meta_okD(4)[OF assms(1)] by (simp add: word_less_nat_alt word_le_nat_alt)
  then have "unat b div 32 < 24576" by linarith
  then have "unat (4 * (b div 32)) = 4 * (unat b div 32)" by (simp add: unat_word_ariths unat_div)
  then show "unat (bit_addr b s) = 0x10002000 + 4 * (unat b div 32)"
    using \<open>unat b div 32 < 24576\<close> meta_okD(2)[OF assms(1)] by (simp add: bit_addr_def unat_word_ariths)
qed

lemma bit_place_inject:
  assumes "meta_ok s" "b < nblocks s" "c < nblocks s" "bit_addr b s = bit_addr c s" "unat (b mod 32) = unat (c mod 32)"
  shows "b = c"
proof -
  have "unat b div 32 = unat c div 32"
    using bit_addr_at(1)[OF assms(1,2)] bit_addr_at(1)[OF assms(1,3)] assms(4) by simp
  moreover have "unat b mod 32 = unat c mod 32" using assms(5) by (simp add: unat_mod)
  ultimately have "unat b = unat c" by (metis mult_div_mod_eq)
  then show ?thesis by (simp only: word_unat_eq_iff)
qed

lemma super_not_bit_addr: "meta_ok s \<Longrightarrow> b < nblocks s \<Longrightarrow> s_nblocks (super s) \<noteq> bit_addr b s"
proof
  assume m: "meta_ok s" "b < nblocks s" and e: "s_nblocks (super s) = bit_addr b s"
  have "unat (s_nblocks (super s)) = 0x10001004" using meta_okD(1)[OF m(1)] by (simp add: s_nblocks_def)
  then show False using bit_addr_at(1)[OF m] by (simp add: e)
qed

lemma bit_bit_mask: "bit (bit_mask b) n \<longleftrightarrow> n = unat (b mod 32)"
proof -
  have "unat (b mod 32) < 32" by (simp add: unat_mod)
  then show ?thesis by (auto simp: bit_mask_def bit_exp_iff)
qed

text \<open>The server after a change of the bitmap word of block \<open>b\<close>.\<close>

lemma bitmap_update:
  assumes m: "meta_ok s" "b < nblocks s" and v: "view t = put_word (view s) (bit_addr b s) w" and st: "same_fs s t"
  shows "meta_ok t" and "nblocks t = nblocks s"
    and "c < nblocks s \<Longrightarrow> is_free t c = (if bit_addr c s = bit_addr b s then bit w (unat (c mod 32)) else is_free s c)"
proof -
  have al: "s_nblocks (super s) AND 3 = 0" using meta_okD(1)[OF m(1)] by (simp add: s_nblocks_def)
  have sb: "super t = super s" "bitmap t = bitmap s" using st by (simp_all add: same_fs_def)
  have ba: "bit_addr x t = bit_addr x s" for x by (simp add: bit_addr_def sb)
  have "vword (view t) (s_nblocks (super s)) = vword (view s) (s_nblocks (super s))"
    using vword_put_word[OF bit_addr_aligned[OF m(1)] al] super_not_bit_addr[OF m] by (simp add: v)
  then show n: "nblocks t = nblocks s" by (simp add: nblocks_def sb)
  show "meta_ok t" using m(1) n st unfolding meta_ok_def ba sb
    by (auto simp: same_fs_def drive_ok_def)
  show "is_free t c = (if bit_addr c s = bit_addr b s then bit w (unat (c mod 32)) else is_free s c)"
    using vword_put_word[OF bit_addr_aligned[OF m(1)] bit_addr_aligned[OF m(1)], of "view s" b w c]
    by (simp add: is_free_def ba v)
qed

lemma alloc_here:
  assumes m: "meta_ok s" "b < nblocks s" and f: "is_free s b"
  shows "\<exists>t. alloc_loop b s = Some (uint b, t) \<and> same_fs s t
    \<and> view t = put_word (view s) (bit_addr b s) (vword (view s) (bit_addr b s) AND NOT (bit_mask b))"
proof -
  let ?w = "vword (view s) (bit_addr b s)"
  note pg = meta_okD(7)[OF m] and al = bit_addr_aligned[OF m(1), of b]
  have r: "read32 (bit_addr b s) s = Some (?w, s)" using pg al by (simp add: read32_present)
  obtain u where u: "write32 (bit_addr b s) (?w AND NOT (bit_mask b)) s = Some u" using write32_present[OF al] pg by blast
  note W = write32_view[OF u]
  have "drive_ok u" "cache_ok u" using W meta_okD(5,6)[OF m(1)] by (simp_all add: same_fs_def drive_ok_def)
  moreover have "in_diskmap (bitmap u)" using W meta_okD(2)[OF m(1)]
    by (simp add: same_fs_def in_diskmap_def DISKMAP_def DISKSIZE_def)
  ultimately obtain t where t: "flush_block (bitmap u) u = Some t" using flush_block_total by blast
  note F = flush_block_view[OF t \<open>cache_ok u\<close>]
  have "sint b = uint b" using bit_addr_at(2)[OF m] by (simp add: sint_cases)
  then have "alloc_loop b s = Some (uint b, t)"
    using m(2) f r u t by (subst alloc_loop.simps) (simp add: read_nblocks[OF m(1)] block_is_free_present[OF m])
  then show ?thesis using W F same_fs_trans[of s u t] by auto
qed

text \<open>The loop passes over the blocks in use, in order.\<close>

lemma alloc_loop_find:
  assumes m: "meta_ok s" and "k \<le> unat (nblocks s)"
  shows "alloc_loop (word_of_nat k) s = (case find (is_free s) (map word_of_nat [k..<unat (nblocks s)]) of
     None \<Rightarrow> Some (- E_NO_DISK, s) | Some b \<Rightarrow> alloc_loop b s)"
  using assms(2)
proof (induction "unat (nblocks s) - k" arbitrary: k)
  case 0
  then have "k = unat (nblocks s)" by simp
  then show ?case by (subst alloc_loop.simps) (simp add: read_nblocks[OF m])
next
  case (Suc d)
  have k: "k < unat (nblocks s)" using Suc.hyps(2) by simp
  have b: "(word_of_nat k :: u32) < nblocks s"
    using k unat_less[of "nblocks s"] by (simp add: word_less_nat_alt unat_of_nat take_bit_eq_mod)
  have l: "[k..<unat (nblocks s)] = k # [Suc k..<unat (nblocks s)]" using k by (rule upt_conv_Cons)
  show ?case
  proof (cases "is_free s (word_of_nat k)")
    case True
    then show ?thesis by (simp add: l)
  next
    case False
    have "alloc_loop (word_of_nat k) s = alloc_loop (word_of_nat (Suc k)) s"
      using b False by (subst alloc_loop.simps) (simp add: read_nblocks[OF m] block_is_free_present[OF m b] add.commute)
    then show ?thesis using Suc.hyps(1)[of "Suc k"] Suc.hyps(2) False k by (simp add: l del: of_nat_Suc)
  qed
qed

lemma alloc_block_None:
  assumes "meta_ok s" and "\<forall>b < nblocks s. \<not> is_free s b"
  shows "alloc_block s = Some (- E_NO_DISK, s)"
proof -
  have "find (is_free s) (map word_of_nat [0..<unat (nblocks s)]) = None"
    using assms(2) unat_less[of "nblocks s"]
    by (auto simp: find_None_iff word_less_nat_alt unat_of_nat take_bit_eq_mod)
  then show ?thesis using alloc_loop_find[OF assms(1), of 0] by (simp add: alloc_block_def)
qed

lemma alloc_block_found:
  assumes m: "meta_ok s" and f: "find (is_free s) (map word_of_nat [0..<unat (nblocks s)]) = Some b"
  shows "b < nblocks s \<and> is_free s b \<and> (\<exists>t. alloc_block s = Some (uint b, t) \<and> same_fs s t
    \<and> view t = put_word (view s) (bit_addr b s) (vword (view s) (bit_addr b s) AND NOT (bit_mask b)))"
proof -
  have b: "b < nblocks s" "is_free s b" using f unat_less[of "nblocks s"]
    by (auto simp: find_Some_iff word_less_nat_alt unat_of_nat take_bit_eq_mod)
  then show ?thesis using alloc_loop_find[OF m, of 0] f alloc_here[OF m b] by (simp add: alloc_block_def)
qed

text \<open>C29: \<open>alloc_block\<close> returns the first free block of the disk and marks it used, without touching
  the state of any other block or any byte outside its bitmap word; when no block is free it returns
  \<open>-E_NO_DISK\<close> and changes nothing.\<close>

theorem alloc_block_first_free:
  assumes "meta_ok s"
  shows "case find (is_free s) (map word_of_nat [0..<unat (nblocks s)]) of
      None \<Rightarrow> alloc_block s = Some (- E_NO_DISK, s)
    | Some b \<Rightarrow> b < nblocks s \<and> is_free s b \<and> (\<exists>t. alloc_block s = Some (uint b, t) \<and> meta_ok t
        \<and> (\<forall>c < nblocks s. is_free t c \<longleftrightarrow> is_free s c \<and> c \<noteq> b)
        \<and> (\<forall>a. a \<notin> {bit_addr b s, bit_addr b s + 1, bit_addr b s + 2, bit_addr b s + 3} \<longrightarrow> view t a = view s a))"
proof (cases "find (is_free s) (map word_of_nat [0..<unat (nblocks s)])")
  case None
  then show ?thesis using alloc_loop_find[OF assms, of 0] by (simp add: alloc_block_def)
next
  case (Some b)
  let ?w = "vword (view s) (bit_addr b s)"
  from alloc_block_found[OF assms Some] obtain t where b: "b < nblocks s" "is_free s b"
    and t: "alloc_block s = Some (uint b, t)" "same_fs s t"
    "view t = put_word (view s) (bit_addr b s) (?w AND NOT (bit_mask b))" by blast
  note U = bitmap_update[OF assms b(1) t(3,2)]
  have "is_free t c \<longleftrightarrow> is_free s c \<and> c \<noteq> b" if c: "c < nblocks s" for c
  proof (cases "bit_addr c s = bit_addr b s")
    case True
    have "unat (c mod 32) < 32" by (simp add: unat_mod)
    then have "bit (?w AND NOT (bit_mask b)) (unat (c mod 32)) \<longleftrightarrow> bit ?w (unat (c mod 32)) \<and> unat (c mod 32) \<noteq> unat (b mod 32)"
      by (simp add: bit_and_iff bit_not_iff bit_bit_mask)
    then show ?thesis using U(3)[OF c] True bit_place_inject[OF assms c b(1) True] by (auto simp: is_free_def)
  next
    case False
    then show ?thesis using U(3)[OF c] by auto
  qed
  moreover have "view t a = view s a" if "a \<notin> {bit_addr b s, bit_addr b s + 1, bit_addr b s + 2, bit_addr b s + 3}" for a
    using that by (simp add: t(3) put_word_def)
  ultimately show ?thesis using Some b t(1) U(1) by auto
qed

lemma demo_meta: "meta_ok demo_fs" and demo_nblocks: "nblocks demo_fs = 8"
proof -
  show n: "nblocks demo_fs = 8" by (simp add: nblocks_def s_nblocks_def demo_vword)
  have "bit_addr b demo_fs = 0x10002000" if "b < 8" for b
  proof -
    have "unat b < 8" using that by (simp add: word_less_nat_alt)
    then have "unat (b div 32) = 0" by (simp add: unat_div)
    then have "b div 32 = 0" by (simp add: unsigned_eq_0_iff)
    then show ?thesis by (simp add: bit_addr_def)
  qed
  then show "meta_ok demo_fs"
    by (simp add: meta_ok_def n demo_drive demo_cache_ok DISKMAP_def BLKSIZE_def PGSIZE_def DISKSIZE_def PGNUM_arith)
qed

lemma demo_is_free: "is_free demo_fs b \<longleftrightarrow> b = 5 \<or> b = 6" if "b < 8"
proof -
  have "unat b < 8" using that by (simp add: word_less_nat_alt)
  then have "unat b = 0 \<or> unat b = 1 \<or> unat b = 2 \<or> unat b = 3 \<or> unat b = 4 \<or> unat b = 5 \<or> unat b = 6 \<or> unat b = 7"
    by linarith
  moreover have eq: "b = word_of_nat k" if "unat b = k" for k using that by (simp add: that [symmetric])
  ultimately have "b = word_of_nat 0 \<or> b = word_of_nat 1 \<or> b = word_of_nat 2 \<or> b = word_of_nat 3
    \<or> b = word_of_nat 4 \<or> b = word_of_nat 5 \<or> b = word_of_nat 6 \<or> b = word_of_nat 7" by blast
  then show ?thesis by (elim disjE) (simp_all add: is_free_def bit_addr_def demo_vword bit_iff_odd)
qed

lemma demo_first_free: "find (is_free demo_fs) (map word_of_nat [0..<unat (nblocks demo_fs)]) = Some 5"
proof -
  have "[0..<8] = [0, 1, 2, 3, 4, 5, 6, 7 :: nat]" by (simp add: upt_rec)
  then show ?thesis by (simp add: demo_nblocks demo_is_free)
qed

theorem alloc_block_first_free_witness:
  "\<exists>t. alloc_block demo_fs = Some (5, t) \<and> meta_ok t \<and> (\<forall>c < 8. is_free t c \<longleftrightarrow> is_free demo_fs c \<and> c \<noteq> 5)"
  using alloc_block_first_free[OF demo_meta] by (simp only: demo_first_free option.case) (auto simp: demo_nblocks)

text \<open>Freeing the block that was just allocated restores the bitmap, and with it all that the
  server sees.\<close>

theorem alloc_then_free_block:
  assumes "meta_ok s" and a: "alloc_block s = Some (uint b, t)" and "b \<noteq> 0" and fr: "\<exists>c < nblocks s. is_free s c"
  shows "\<exists>u. free_block b t = Some u \<and> view u = view s"
proof -
  let ?l = "map word_of_nat [0..<unat (nblocks s)]"
  have "find (is_free s) ?l \<noteq> None"
  proof -
    from fr obtain c where c: "c < nblocks s" "is_free s c" by blast
    have "c \<in> set ?l" unfolding set_map
      by (rule image_eqI[of _ _ "unat c"]) (use c(1) in \<open>simp_all add: word_less_nat_alt\<close>)
    then show ?thesis using c(2) by (auto simp: find_None_iff)
  qed
  then obtain c where f: "find (is_free s) ?l = Some c" by blast
  let ?w = "vword (view s) (bit_addr c s)"
  have c: "c < nblocks s" "is_free s c" and t: "same_fs s t"
    "view t = put_word (view s) (bit_addr c s) (?w AND NOT (bit_mask c))" and "uint b = uint c"
    using alloc_block_found[OF assms(1) f] a by auto
  then have "c = b" by (simp only: word_uint_eq_iff)
  have al: "bit_addr b s AND 3 = 0" using bit_addr_aligned[OF assms(1)] .
  note pg = meta_okD(7)[OF assms(1) c(1)]
  have ba: "bit_addr b t = bit_addr b s" using t(1) by (simp add: bit_addr_def same_fs_def)
  have pt: "fmapped t (PGNUM (bit_addr b s))" "fwritable t (PGNUM (bit_addr b s))"
    using pg t(1) \<open>c = b\<close> by (auto simp: same_fs_def)
  have rd: "read32 (bit_addr b t) t = Some (?w AND NOT (bit_mask b), t)"
    using vword_put_word[OF al al] \<open>c = b\<close> pt al by (simp add: read32_present ba t(2))
  have wb: "(?w AND NOT (bit_mask b)) OR bit_mask b = ?w"
  proof (rule bit_word_eqI)
    fix n assume "n < LENGTH(32)"
    then show "bit ((?w AND NOT (bit_mask b)) OR bit_mask b) n = bit ?w n"
      using c(2) \<open>c = b\<close> by (auto simp: bit_or_iff bit_and_iff bit_not_iff bit_bit_mask is_free_def)
  qed
  obtain u where u: "write32 (bit_addr b t) ?w t = Some u" using write32_present[OF al pt] ba by auto
  have "put_word (put_word v x w1) x (vword v x) = v" if "x AND 3 = 0" for v w1 x
  proof -
    have "word_bytes (vword v x) = [v x, v (x + 1), v (x + 2), v (x + 3)]"
      by (simp add: vword_def word_bytes_bytes)
    then show ?thesis by (auto simp: put_word_def word_bytes_def fun_eq_iff)
  qed
  then have "view u = view s" using write32_view[OF u] al \<open>c = b\<close> by (simp add: t(2) ba)
  moreover have "free_block b t = Some u" using assms(3) rd u wb by (simp add: free_block_def)
  ultimately show ?thesis by blast
qed

theorem alloc_then_free_block_witness:
  "\<exists>t u. alloc_block demo_fs = Some (5, t) \<and> free_block 5 t = Some u \<and> view u = view demo_fs"
proof -
  obtain t where t: "alloc_block demo_fs = Some (uint (5 :: u32), t)"
    using alloc_block_found[OF demo_meta demo_first_free] by auto
  have "\<exists>c < nblocks demo_fs. is_free demo_fs c" using alloc_block_found[OF demo_meta demo_first_free] by blast
  from alloc_then_free_block[OF demo_meta t _ this] t show ?thesis by auto
qed

section \<open>A full disk\<close>

text \<open>C31: on a full disk, for a hole among the direct blocks (\<open>i < NDIRECT\<close>) of a resident file structure: \<open>alloc_block\<close> returns
  \<open>-E_NO_DISK\<close>, \<open>file_get_block\<close> stores it as a block number, since it tests the result of \<open>alloc_block\<close> through an unsigned slot, and the call ends in
  the panic of \<open>diskaddr\<close> for that number, which is beyond the disk, where the comment promises \<open>-E_NO_DISK\<close>.  (An indirect block
  that cannot be allocated is reported properly, by \<open>file_block_walk\<close>.)\<close>

theorem file_get_block_full_disk_panics:
  assumes m: "meta_ok s" and full: "\<forall>b < nblocks s. \<not> is_free s b" and i: "i < NDIRECT"
    and f: "f_direct f i AND 3 = 0" "fmapped s (PGNUM (f_direct f i))" "fwritable s (PGNUM (f_direct f i))"
    and hole: "vword (view s) (f_direct f i) = 0" and ne: "f_direct f i \<noteq> s_nblocks (super s)"
  shows "\<exists>u. alloc_block s = Some (- E_NO_DISK, s) \<and> file_block_walk f i True s = Some ((0, f_direct f i), s)
     \<and> write32 (f_direct f i) (word_of_int (- E_NO_DISK)) s = Some u \<and> read32 (f_direct f i) u = Some (word_of_int (- E_NO_DISK), u)
     \<and> beyond_disk_by touch (word_of_int (- E_NO_DISK)) u = Some (True, u) \<and> diskaddr (word_of_int (- E_NO_DISK)) u = None
     \<and> file_get_block f i s = None"
proof -
  let ?e = "word_of_int (- E_NO_DISK) :: u32"
  have e: "?e = 0xFFFFFFF7" by (simp add: err_consts)
  obtain u where u: "write32 (f_direct f i) ?e s = Some u" using write32_present[OF f(1-3)] by blast
  note W = write32_view[OF u]
  have sup: "super u = super s" "super s = 0x10001000" using W meta_okD(1)[OF m] by (simp_all add: same_fs_def)
  have al: "s_nblocks (super s) AND 3 = 0" by (simp add: s_nblocks_def sup)
  have pu: "fmapped u (PGNUM (f_direct f i))" "fmapped u 65537" using W f(2) meta_okD(3)[OF m] by (simp_all add: same_fs_def)
  have ru: "read32 (f_direct f i) u = Some (?e, u)"
    using f(1) pu W vword_put_word[OF f(1) f(1)] by (simp add: read32_present)
  have "read32 (s_nblocks (super u)) u = Some (nblocks s, u)"
    using pu W vword_put_word[OF f(1) al] ne by (simp add: read32_present sup s_nblocks_def PGNUM_arith nblocks_def)
  moreover have "nblocks s \<le> ?e" using meta_okD(4)[OF m] unfolding e by (rule order_trans) simp
  ultimately have bd: "beyond_disk_by touch ?e u = Some (True, u)"
    using sup by (simp add: beyond_disk_by_def read32_def s_nblocks_def)
  then have d: "diskaddr ?e u = None" using e by (simp add: diskaddr_def)
  have w: "file_block_walk f i True s = Some ((0, f_direct f i), s)"
  proof -
    have "\<not> NDIRECT + NINDIRECT \<le> i" using i by (simp add: NDIRECT_def NINDIRECT_def BLKSIZE_def PGSIZE_def not_le word_less_nat_alt)
    then show ?thesis using i by (simp add: file_block_walk_def)
  qed
  have r: "read32 (f_direct f i) s = Some (0, s)" using f hole by (simp add: read32_present)
  have "file_get_block f i s = None" using w r u ru d by (simp add: file_get_block_def alloc_block_None[OF m full])
  then show ?thesis using alloc_block_None[OF m full] w u ru bd d by blast
qed

definition demo_full_disk :: fs where
  "demo_full_disk = demo_fs\<lparr>fmem := demo_page(0x10002000 := 0)\<rparr>"

theorem file_get_block_full_disk_panics_witness:
  "\<exists>u. alloc_block demo_full_disk = Some (- E_NO_DISK, demo_full_disk)
     \<and> file_block_walk 0x10001008 2 True demo_full_disk = Some ((0, f_direct 0x10001008 2), demo_full_disk)
     \<and> write32 (f_direct 0x10001008 2) (word_of_int (- E_NO_DISK)) demo_full_disk = Some u
     \<and> read32 (f_direct 0x10001008 2) u = Some (word_of_int (- E_NO_DISK), u)
     \<and> beyond_disk_by touch (word_of_int (- E_NO_DISK)) u = Some (True, u) \<and> diskaddr (word_of_int (- E_NO_DISK)) u = None
     \<and> file_get_block 0x10001008 2 demo_full_disk = None"
proof (rule file_get_block_full_disk_panics)
  let ?d = demo_full_disk
  have fields: "fmapped ?d p = (p \<noteq> 65543)" "fwritable ?d p" "super ?d = 0x10001000" "bitmap ?d = 0x10002000" for p
    by (simp_all add: demo_full_disk_def)
  have v: "view ?d a = (if a = 0x10002000 then 0 else view demo_fs a)" for a
    by (simp add: view_def demo_full_disk_def disk_byte_def PGNUM_arith)
  have w: "vword (view ?d) 0x10001004 = 8" "vword (view ?d) 0x10002000 = 0" "vword (view ?d) 0x10001098 = 0"
    by (simp_all add: vword_def v view_def[of demo_fs] demo_page_def PGNUM_arith bytes_word_def)
  have n: "nblocks ?d = 8" by (simp add: nblocks_def s_nblocks_def fields w)
  have ba: "bit_addr b ?d = 0x10002000" if "b < 8" for b
  proof -
    have "unat b < 8" using that by (simp add: word_less_nat_alt)
    then have "unat (b div 32) = 0" by (simp add: unat_div)
    then have "b div 32 = 0" by (simp add: unsigned_eq_0_iff)
    then show ?thesis by (simp add: bit_addr_def fields)
  qed
  have "cache_ok ?d" using demo_cache_ok by (simp add: cache_ok_def demo_full_disk_def)
  moreover have "drive_ok ?d" using demo_drive by (simp add: drive_ok_def demo_full_disk_def)
  ultimately show "meta_ok ?d"
    using ba by (simp add: meta_ok_def fields n DISKMAP_def BLKSIZE_def PGSIZE_def DISKSIZE_def PGNUM_arith)
  show "\<forall>b < nblocks ?d. \<not> is_free ?d b" using ba by (simp add: n is_free_def w)
  show "2 < NDIRECT" "f_direct 0x10001008 2 AND 3 = 0" "f_direct 0x10001008 2 \<noteq> s_nblocks (super ?d)"
    "fmapped ?d (PGNUM (f_direct 0x10001008 2))" "fwritable ?d (PGNUM (f_direct 0x10001008 2))"
    "vword (view ?d) (f_direct 0x10001008 2) = 0"
    by (simp_all add: NDIRECT_def f_direct_def s_nblocks_def fields PGNUM_arith w)
qed

end
