(* ===== verification/FsCache.thy ===== *)
theory FsCache
  imports FsProps
begin

text \<open>
  The server's loads, stores and write-backs through the block cache, in any order, against flat memory: the
  superblock and the bitmap are resident, the addresses are in blocks that are in use.
\<close>

section \<open>Operations\<close>

datatype cache_op = Load u32 | Store u32 u8 | Flush u32

fun cache_ops :: "cache_op list \<Rightarrow> fs \<Rightarrow> (u8 list \<times> fs) option" where
  "cache_ops [] s = Some ([], s)"
| "cache_ops (Load va # ops) s = do { (b, s) \<leftarrow> read8 va s; (bs, s) \<leftarrow> cache_ops ops s; Some (b # bs, s) }"
| "cache_ops (Store va b # ops) s = do { s \<leftarrow> write8 va b s; cache_ops ops s }"
| "cache_ops (Flush va # ops) s = do { s \<leftarrow> flush_block va s; cache_ops ops s }"

text \<open>The same on flat memory, where a write-back does nothing.\<close>

fun flat_ops :: "cache_op list \<Rightarrow> (u32 \<Rightarrow> u8) \<Rightarrow> u8 list \<times> (u32 \<Rightarrow> u8)" where
  "flat_ops [] v = ([], v)"
| "flat_ops (Load va # ops) v = (v va # fst (flat_ops ops v), snd (flat_ops ops v))"
| "flat_ops (Store va b # ops) v = flat_ops ops (v(va := b))"
| "flat_ops (Flush va # ops) v = flat_ops ops v"

section \<open>Blocks in use\<close>

definition in_use :: "fs \<Rightarrow> u32 \<Rightarrow> bool" where
  "in_use s va \<longleftrightarrow> in_diskmap va \<and> block_of va < nblocks s \<and> \<not> is_free s (block_of va)"

definition meta_page :: "fs \<Rightarrow> nat \<Rightarrow> bool" where
  "meta_page s p \<longleftrightarrow> p = 65537 \<or> (\<exists>b < nblocks s. p = PGNUM (bit_addr b s))"

definition op_ok :: "fs \<Rightarrow> cache_op \<Rightarrow> bool" where
  "op_ok s op \<longleftrightarrow> (case op of
      Load va \<Rightarrow> in_use s va
    | Store va _ \<Rightarrow> in_use s va \<and> \<not> meta_page s (PGNUM va)
    | Flush va \<Rightarrow> in_diskmap va)"

fun op_pages :: "cache_op list \<Rightarrow> nat set" where
  "op_pages [] = {}"
| "op_pages (Load va # ops) = insert (PGNUM va) (op_pages ops)"
| "op_pages (Store va _ # ops) = insert (PGNUM va) (op_pages ops)"
| "op_pages (Flush _ # ops) = op_pages ops"

text \<open>The pages that are still to be brought in.\<close>

definition misses :: "cache_op list \<Rightarrow> fs \<Rightarrow> nat" where
  "misses ops s = card {p \<in> op_pages ops. \<not> fmapped s p}"

lemma op_pages_finite [simp]: "finite (op_pages ops)"
  by (induction ops rule: op_pages.induct) simp_all

text \<open>What keeps the pages of the superblock and the bitmap keeps the meaning of the blocks.\<close>

lemma vword_same_page:
  assumes "x AND 3 = 0" and "\<And>a. PGNUM a = PGNUM x \<Longrightarrow> v a = w a"
  shows "vword v x = vword w x"
  using assms word_in_page_123[OF assms(1)] by (simp add: vword_def)

lemma same_meta:
  assumes m: "meta_ok s" and st: "same_fs s t" and v: "\<And>a. meta_page s (PGNUM a) \<Longrightarrow> view t a = view s a"
  shows "meta_ok t" "nblocks t = nblocks s" "\<And>b. b < nblocks s \<Longrightarrow> is_free t b = is_free s b" "meta_page t = meta_page s"
proof -
  have sb: "super t = super s" "bitmap t = bitmap s" using st by (simp_all add: same_fs_def)
  have ba: "bit_addr x t = bit_addr x s" for x by (simp add: bit_addr_def sb)
  have al: "s_nblocks (super s) AND 3 = 0" and pg: "PGNUM (s_nblocks (super s)) = 65537"
    using meta_okD(1)[OF m] by (simp_all add: s_nblocks_def PGNUM_arith)
  have "vword (view t) (s_nblocks (super s)) = vword (view s) (s_nblocks (super s))"
    by (rule vword_same_page[OF al]) (rule v, simp add: meta_page_def pg)
  then show n: "nblocks t = nblocks s" by (simp add: nblocks_def sb)
  show "meta_ok t" using m n st unfolding meta_ok_def ba sb by (auto simp: same_fs_def drive_ok_def)
  show "is_free t b = is_free s b" if b: "b < nblocks s" for b
  proof -
    have "vword (view t) (bit_addr b s) = vword (view s) (bit_addr b s)"
      by (rule vword_same_page[OF bit_addr_aligned[OF m]]) (rule v, use b in \<open>auto simp: meta_page_def\<close>)
    then show ?thesis by (simp add: is_free_def ba)
  qed
  show "meta_page t = meta_page s" by (rule ext) (simp add: meta_page_def n ba)
qed

lemma op_ok_cong:
  assumes "nblocks t = nblocks s" "\<And>b. b < nblocks s \<Longrightarrow> is_free t b = is_free s b" "meta_page t = meta_page s"
  shows "op_ok t = op_ok s"
proof -
  have "in_use t va = in_use s va" for va using assms by (auto simp: in_use_def)
  then show ?thesis by (auto simp: op_ok_def assms(3) fun_eq_iff split: cache_op.splits)
qed

section \<open>A touch\<close>

lemma touch_in_use:
  assumes m: "meta_ok s" and u: "in_use s va" and p: "fmapped s (PGNUM va) \<or> 0 < pages_left s"
  shows "\<exists>t. touch va s = Some t \<and> pages_in s t \<and> fmapped t (PGNUM va) \<and> fwritable t (PGNUM va)
    \<and> pages_left s = pages_left t + (if fmapped s (PGNUM va) then 0 else 1)"
proof -
  note M = meta_okD[OF m] and U = u[unfolded in_use_def]
  have "\<exists>t. touch va s = Some t \<and> pages_left s = pages_left t + (if fmapped s (PGNUM va) then 0 else 1)"
  proof (cases "fmapped s (PGNUM va)")
    case False
    have "\<exists>t. touch va s = Some t \<and> fmapped t (PGNUM va) \<and> \<not> fdirty t (PGNUM va)
        \<and> (\<forall>a. PGNUM a = PGNUM va \<longrightarrow> fmem t a = disk_byte s a) \<and> pages_left t + 1 = pages_left s"
    proof (rule block_fault_loads_block[OF M(5) _ False])
      show "block_of va < vword (view s) (super s + 4)" using U by (simp add: nblocks_def s_nblocks_def)
      show "fmapped s (PGNUM (bitmap s + 4 * (block_of va div 32)))" using M(7) U by (simp add: bit_addr_def)
      show "\<not> bit (vword (view s) (bitmap s + 4 * (block_of va div 32))) (unat (block_of va mod 32))"
        using U by (simp add: is_free_def bit_addr_def)
    qed (use p False U M(1-3) in \<open>simp_all add: PGNUM_arith\<close>)
    then show ?thesis using False by auto
  qed simp
  then obtain t where t: "touch va s = Some t" "pages_left s = pages_left t + (if fmapped s (PGNUM va) then 0 else 1)" by blast
  note P = touch_pages_in[OF t(1)]
  have "cache_ok t" using P pages_in_cache_ok M(6) by blast
  then have "fwritable t (PGNUM va)" using P U by (simp add: cache_ok_def)
  then show ?thesis using t P by blast
qed

lemma misses_touch:
  assumes "pages_in s t" "fmapped t p" "misses ops s \<le> pages_left s" and op: "op_pages ops = insert p (op_pages ops')"
    and pl: "pages_left s = pages_left t + (if fmapped s p then 0 else 1)"
  shows "misses ops' t \<le> pages_left t"
proof -
  have "finite (op_pages ops)" and fo: "finite (op_pages ops')" by simp_all
  have sub: "{q \<in> op_pages ops'. \<not> fmapped t q} \<subseteq> {q \<in> op_pages ops. \<not> fmapped s q} - {p}"
    using assms(1,2) op by (auto simp: pages_in_def)
  have "misses ops' t \<le> card ({q \<in> op_pages ops. \<not> fmapped s q} - {p})"
    unfolding misses_def by (rule card_mono[OF _ sub]) simp
  also have "\<dots> = misses ops s - (if fmapped s p then 0 else 1)"
    using op by (auto simp: misses_def card_Diff_singleton_if)
  finally show ?thesis using assms(3) pl by simp
qed

lemma misses_pos:
  assumes "misses ops s \<le> pages_left s" "p \<in> op_pages ops"
  shows "fmapped s p \<or> 0 < pages_left s"
proof (rule disjCI)
  assume "\<not> 0 < pages_left s"
  then have "{q \<in> op_pages ops. \<not> fmapped s q} = {}" using assms(1) by (simp add: misses_def)
  then show "fmapped s p" using assms(2) by blast
qed

section \<open>All operations\<close>

text \<open>Where the disk was written: only in blocks that were flushed.\<close>

definition no_flush :: "cache_op list \<Rightarrow> u32 \<Rightarrow> bool" where
  "no_flush ops a \<longleftrightarrow> list_all (\<lambda>op. case op of Flush va \<Rightarrow> PGNUM va \<noteq> PGNUM a | _ \<Rightarrow> True) ops"

lemma no_flush_simps [simp]:
  "no_flush [] a" "no_flush (Load va # ops) a = no_flush ops a" "no_flush (Store va b # ops) a = no_flush ops a"
  "no_flush (Flush va # ops) a \<longleftrightarrow> PGNUM va \<noteq> PGNUM a \<and> no_flush ops a"
  by (simp_all add: no_flush_def)

lemma pages_in_disk_byte: "pages_in s t \<Longrightarrow> disk_byte t = disk_byte s"
  by (auto simp: pages_in_def intro: disk_byte_cong)

lemma cache_ops_flat:
  assumes "meta_ok s" "list_all (op_ok s) ops" "misses ops s \<le> pages_left s"
  shows "\<exists>t. cache_ops ops s = Some (fst (flat_ops ops (view s)), t) \<and> view t = snd (flat_ops ops (view s)) \<and> meta_ok t
    \<and> (\<forall>a. no_flush ops a \<longrightarrow> disk_byte t a = disk_byte s a)"
  using assms
proof (induction ops arbitrary: s rule: op_pages.induct)
  case 1
  then show ?case by simp
next
  case (2 va ops)
  have u: "in_use s va" using 2(3) by (simp add: op_ok_def)
  obtain t where t: "touch va s = Some t" "pages_in s t" "fmapped t (PGNUM va)"
    "pages_left s = pages_left t + (if fmapped s (PGNUM va) then 0 else 1)"
    using touch_in_use[OF 2(2) u misses_pos[OF 2(4)]] by auto
  have v: "view t = view s" using t(2) by (simp add: pages_in_def)
  note S = same_meta[OF 2(2) conjunct1[OF pages_in_same[OF t(2)]]]
  have S': "meta_ok t" "op_ok t = op_ok s" using S v op_ok_cong[of t s] by simp_all
  have "misses ops t \<le> pages_left t" by (rule misses_touch[OF t(2,3) 2(4) _ t(4)]) simp
  from 2(1)[OF S'(1) _ this] 2(3) obtain w where
    "cache_ops ops t = Some (fst (flat_ops ops (view s)), w)" "view w = snd (flat_ops ops (view s))" "meta_ok w"
    "\<forall>a. no_flush ops a \<longrightarrow> disk_byte w a = disk_byte s a"
    by (auto simp: S'(2) v pages_in_disk_byte[OF t(2)])
  moreover have "read8 va s = Some (view s va, t)"
    using t v by (simp add: read8_def) (simp add: view_def[of t, symmetric] flip: v, simp add: view_def)
  ultimately show ?case by simp
next
  case (3 va b ops)
  have u: "in_use s va" and nm: "\<not> meta_page s (PGNUM va)" using 3(3) by (simp_all add: op_ok_def)
  obtain t where t: "touch va s = Some t" "pages_in s t" "fmapped t (PGNUM va)" "fwritable t (PGNUM va)"
    "pages_left s = pages_left t + (if fmapped s (PGNUM va) then 0 else 1)"
    using touch_in_use[OF 3(2) u misses_pos[OF 3(4)]] by auto
  obtain w where wr: "write8 va b s = Some w" and w: "fmapped w = fmapped t" "pages_left w = pages_left t" "diskno w = diskno t" "disk w = disk t"
    using t by (simp add: write8_def)
  note W = write8_view[OF wr]
  have keep: "view w a = view s a" if "meta_page s (PGNUM a)" for a using W nm that by auto
  note S = same_meta[OF 3(2) conjunct1[OF conjunct2[OF W]] keep]
  have S': "meta_ok w" "op_ok w = op_ok s" using S op_ok_cong[of w s] by simp_all
  have "misses ops t \<le> pages_left t" by (rule misses_touch[OF t(2,3) 3(4) _ t(5)]) simp
  then have "misses ops w \<le> pages_left w" by (simp add: misses_def w)
  moreover have "disk_byte w = disk_byte s"
    using pages_in_disk_byte[OF t(2)] disk_byte_cong[of w t] w by simp
  moreover have "list_all (op_ok s) ops" using 3(3) by simp
  ultimately show ?case
    using 3(1)[OF S'(1), unfolded S'(2) conjunct1[OF W]] wr by (simp del: fun_upd_apply)
next
  case (4 va ops)
  have dm: "in_diskmap va" using 4(3) by (simp add: op_ok_def)
  obtain t where t: "flush_block va s = Some t" using flush_block_total[OF dm meta_okD(5)[OF 4(2)]] by blast
  note F = flush_block_result[OF t meta_okD(6)[OF 4(2)], unfolded flushed_def]
    and V = flush_block_view[OF t meta_okD(6)[OF 4(2)]]
  have S': "meta_ok t" "op_ok t = op_ok s" using same_meta[OF 4(2), of t] V op_ok_cong[of t s] by simp_all
  have "pages_left t = pages_left s" by (rule flush_block_pages_left[OF t])
  then have "misses ops t \<le> pages_left t" using 4(4) F by (simp add: misses_def)
  from 4(1)[OF S'(1) _ this] 4(3) show ?case using t V F by (auto simp: S'(2))
qed

text \<open>C27: the block cache is transparent.  Let the superblock and the bitmap be resident and the drive answer, and
  let memory be left for the pages that are still to be brought in.  Then any sequence of loads, stores and write-backs, with loads and stores in blocks in
  use, and stores outside the superblock and the bitmap, returns, and gives
  what it gives on flat memory that holds the disk's image, whatever is cached at the
  start.  The disk itself changes only in blocks written back, and agrees afterwards with the image
  outside dirty pages.\<close>

theorem block_cache_transparent:
  assumes "meta_ok s" and "list_all (op_ok s) ops" and "misses ops s \<le> pages_left s"
  shows "\<exists>t. cache_ops ops s = Some (fst (flat_ops ops (view s)), t) \<and> view t = snd (flat_ops ops (view s)) \<and> meta_ok t
    \<and> (\<forall>a. no_flush ops a \<longrightarrow> disk_byte t a = disk_byte s a)
    \<and> (\<forall>a. in_diskmap a \<longrightarrow> disk_byte t a = view t a \<or> fmapped t (PGNUM a) \<and> fdirty t (PGNUM a))"
proof -
  from cache_ops_flat[OF assms] obtain t where
    t: "cache_ops ops s = Some (fst (flat_ops ops (view s)), t)" "view t = snd (flat_ops ops (view s))" "meta_ok t"
      "\<forall>a. no_flush ops a \<longrightarrow> disk_byte t a = disk_byte s a" by blast
  have "disk_byte t a = view t a \<or> fmapped t (PGNUM a) \<and> fdirty t (PGNUM a)" if "in_diskmap a" for a
    using meta_okD(6)[OF t(3)] that unfolding cache_ok_def view_def by auto
  then show ?thesis using t by blast
qed

text \<open>A byte of block 7, which is not in memory, is stored, read back and written to the disk.\<close>

theorem block_cache_transparent_witness:
  "\<exists>t. cache_ops [Load 0x10007001, Store 0x10007000 9, Load 0x10007000, Flush 0x10007000, Load 0x10003000] demo_fs = Some ([7, 9, 65], t)
     \<and> view t = (view demo_fs)(0x10007000 := 9) \<and> disk_byte t 0x10003000 = disk_byte demo_fs 0x10003000"
proof -
  let ?ops = "[Load 0x10007001, Store 0x10007000 9, Load 0x10007000, Flush 0x10007000, Load 0x10003000]"
  have b: "block_of 0x10007000 = 7" "block_of 0x10007001 = 7" "block_of 0x10003000 = 3"
    by (simp_all add: block_of_def DISKMAP_def BLKSIZE_def PGSIZE_def)
  have p: "PGNUM 0x10007000 = 65543" "PGNUM 0x10007001 = 65543" "PGNUM 0x10003000 = 65539" by (simp_all add: PGNUM_arith)
  have "bit_addr b demo_fs = 0x10002000" if "b < 8" for b
  proof -
    have "unat b < 8" using that by (simp add: word_less_nat_alt)
    then have "unat (b div 32) = 0" by (simp add: unat_div)
    then have "b div 32 = 0" by (simp add: unsigned_eq_0_iff)
    then show ?thesis by (simp add: bit_addr_def)
  qed
  then have mp: "\<not> meta_page demo_fs 65543" by (auto simp: meta_page_def demo_nblocks PGNUM_arith)
  have ok: "list_all (op_ok demo_fs) ?ops"
    using mp by (simp add: op_ok_def in_use_def demo_nblocks demo_is_free b p in_diskmap_def DISKMAP_def DISKSIZE_def)
  have "{q \<in> op_pages ?ops. \<not> fmapped demo_fs q} = {65543}" by (auto simp: p)
  then have "misses ?ops demo_fs = 1" by (simp add: misses_def)
  then have mi: "misses ?ops demo_fs \<le> pages_left demo_fs" by simp
  have "fst (flat_ops ?ops (view demo_fs)) = [7, 9, 65]" "snd (flat_ops ?ops (view demo_fs)) = (view demo_fs)(0x10007000 := 9)"
    by (simp_all add: view_def disk_byte_def demo_page_def p)
  then show ?thesis using block_cache_transparent[OF demo_meta ok mi] by (auto simp: p)
qed

end
