(* ===== verification/EnvTab.thy ===== *)
theory EnvTab
  imports HwMem
begin

text \<open>
  Environments: \<open>kern/env.c\<close>, the scheduler \<open>kern/sched.c\<close> that \<open>env_destroy\<close> calls, and
  \<open>user_mem_assert\<close> of \<open>kern/pmap.c\<close>, which destroys the environment at fault.

  Functions that may leave the kernel for good return \<open>Some how\<close> for that and \<open>None\<close> when they
  come back to their caller; \<open>how\<close> says what the processor does next.
\<close>

datatype leave =
    RunEnv nat       \<comment> \<open>\<open>iret\<close> into this environment\<close>
  | Halted           \<comment> \<open>\<open>hlt\<close> until the next interrupt\<close>
  | InMonitor        \<comment> \<open>the endless loop over \<open>monitor\<close>\<close>

section \<open>Constants (inc/env.h, inc/mmu.h, inc/memlayout.h)\<close>

definition GD_KT :: u16 where [mmu_consts]: "GD_KT = 0x08"
definition GD_KD :: u16 where [mmu_consts]: "GD_KD = 0x10"
definition GD_UT :: u16 where [mmu_consts]: "GD_UT = 0x18"
definition GD_UD :: u16 where [mmu_consts]: "GD_UD = 0x20"
definition GD_TSS0 :: u16 where [mmu_consts]: "GD_TSS0 = 0x28"
definition FL_IF :: u32 where [mmu_consts]: "FL_IF = 0x200"
definition FL_IOPL_3 :: u32 where [mmu_consts]: "FL_IOPL_3 = 0x3000"
definition ENVGENSHIFT :: nat where [mmu_consts]: "ENVGENSHIFT = 12"

section \<open>The big kernel lock (kern/spinlock.h)\<close>

text \<open>
  \<open>spin_lock\<close> panics when the processor holds the lock already; otherwise the model takes up
  the run where the \<open>xchg\<close> has obtained it.  The interleaving of several processors is the
  subject of theory \<open>Spinlock\<close>.
\<close>

definition lock_kernel :: "kst \<Rightarrow> kst option" where
  "lock_kernel s = (if klock s = Some (this_cpu s) then None
                    else Some (s\<lparr>klock := Some (this_cpu s)\<rparr>))"

definition unlock_kernel :: "kst \<Rightarrow> kst option" where
  "unlock_kernel s = (if klock s \<noteq> Some (this_cpu s) then None else Some (s\<lparr>klock := None\<rparr>))"

section \<open>Environment identifiers\<close>

definition envid2env :: "envid \<Rightarrow> bool \<Rightarrow> kst \<Rightarrow> (int \<times> nat option) option" where
  "envid2env eid checkperm s =
     (if eid = 0 then Some (0, curenv s)
      else do {
        e \<leftarrow> env_at s (ENVX eid);
        if env_status e = ENV_FREE \<or> env_id e \<noteq> eid then Some (- E_BAD_ENV, None)
        else if checkperm \<and> Some (ENVX eid) \<noteq> curenv s then do {
          c \<leftarrow> curenv s;
          ce \<leftarrow> env_at s c;
          if env_parent_id e \<noteq> env_id ce then Some (- E_BAD_ENV, None)
          else Some (0, Some (ENVX eid))
        }
        else Some (0, Some (ENVX eid))
      })"

section \<open>The table\<close>

definition env_init_step :: "nat \<Rightarrow> kst \<Rightarrow> kst" where
  "env_init_step i s =
     set_env i ((envs s ! i)\<lparr>env_id := 0, env_status := ENV_FREE, env_link := Some (i + 1)\<rparr>) s"

definition env_init :: "kst \<Rightarrow> kst" where
  "env_init s =
     (let s = fold env_init_step [0..<NENV - 1] s;
          s = s\<lparr>env_free_list := Some 0\<rparr>
      in set_env (NENV - 1) ((envs s ! (NENV - 1))\<lparr>env_link := None\<rparr>) s)"

text \<open>\<open>memcpy\<close> of one frame to another.\<close>

definition copy_frame :: "nat \<Rightarrow> nat \<Rightarrow> kst \<Rightarrow> kst" where
  "copy_frame dst src s = s\<lparr>pmem := (pmem s)(dst := pmem s src)\<rparr>"

definition env_setup_vm :: "nat \<Rightarrow> kst \<Rightarrow> (int \<times> kst) option" where
  "env_setup_vm e s = do {
     (p, s) \<leftarrow> page_alloc ALLOC_ZERO s;
     (case p of
        None \<Rightarrow> Some (- E_NO_MEM, s)
      | Some p \<Rightarrow> do {
          s \<leftarrow> page_incref p s;
          pgdir \<leftarrow> page2kva s p;
          ent \<leftarrow> env_at s e;
          let s = set_env e (ent\<lparr>env_pgdir := Some pgdir\<rparr>) s;
          let s = copy_frame pgdir (kern_pgdir s) s;
          Some (0, write_pte (pgdir, PDX UVPT) (page2pa pgdir OR PTE_P OR PTE_U) s)
        })
   }"

text \<open>The identifier that follows \<open>old\<close> in slot \<open>i\<close>; the generation is signed.\<close>

definition next_env_id :: "envid \<Rightarrow> nat \<Rightarrow> envid" where
  "next_env_id old i =
     (let generation = (old + push_bit ENVGENSHIFT 1) AND NOT (1024 - 1);
          generation = (if generation \<le>s 0 then push_bit ENVGENSHIFT 1 else generation)
      in generation OR word_of_nat i)"

definition fresh_tf :: trapframe where
  "fresh_tf = zero_tf\<lparr>tf_ds := GD_UD OR 3, tf_es := GD_UD OR 3, tf_ss := GD_UD OR 3,
                      tf_esp := USTACKTOP, tf_cs := GD_UT OR 3, tf_eflags := FL_IF\<rparr>"

definition fresh_env :: "nat \<Rightarrow> envid \<Rightarrow> env \<Rightarrow> env" where
  "fresh_env i parent_id e = e\<lparr>
     env_id := next_env_id (env_id e) i,
     env_parent_id := parent_id, env_type := ENV_TYPE_USER, env_status := ENV_RUNNABLE,
     env_runs := 0, env_tf := fresh_tf, env_pgfault_upcall := 0, env_ipc_recving := False\<rparr>"

text \<open>The result is the code and, on success, the value stored in \<open>*newenv_store\<close>.\<close>

definition env_alloc :: "envid \<Rightarrow> kst \<Rightarrow> ((int \<times> nat option) \<times> kst) option" where
  "env_alloc parent_id s =
     (case env_free_list s of
        None \<Rightarrow> Some ((- E_NO_FREE_ENV, None), s)
      | Some i \<Rightarrow> do {
          (r, s) \<leftarrow> env_setup_vm i s;
          if r < 0 then Some ((r, None), s)
          else do {
            e \<leftarrow> env_at s i;
            Some ((0, Some i), (set_env i (fresh_env i parent_id e) s)\<lparr>env_free_list := env_link e\<rparr>)
          }
        })"

section \<open>Loading a program\<close>

partial_function (option) region_alloc_loop :: "nat \<Rightarrow> u32 \<Rightarrow> u32 \<Rightarrow> kst \<Rightarrow> kst option" where
  "region_alloc_loop pgdir va_aux va_len s =
     (if va_aux < va_len then
        Option.bind (page_alloc ALLOC_ZERO s) (\<lambda>(page, s).
          case page of
            None \<Rightarrow> None
          | Some pp \<Rightarrow> Option.bind (page_insert pgdir pp va_aux (PTE_W OR PTE_U) s) (\<lambda>(r, s).
              if r < 0 then None else region_alloc_loop pgdir (va_aux + PGSIZE) va_len s))
      else Some s)"

definition region_alloc :: "nat \<Rightarrow> u32 \<Rightarrow> u32 \<Rightarrow> kst \<Rightarrow> kst option" where
  "region_alloc e va len s = do {
     ent \<leftarrow> env_at s e;
     pgdir \<leftarrow> env_pgdir ent;
     region_alloc_loop pgdir (ROUNDDOWN va PGSIZE) (ROUNDUP (va + len) PGSIZE) s
   }"

text \<open>
  The ELF image is the list of its bytes (\<open>inc/elf.h\<close>); a read beyond it is a fault of the
  model.
\<close>

definition ELF_MAGIC :: u32 where "ELF_MAGIC = 0x464C457F"
definition ELF_PROG_LOAD :: u32 where "ELF_PROG_LOAD = 1"

definition bin_u32 :: "u8 list \<Rightarrow> nat \<Rightarrow> u32 option" where
  "bin_u32 b off = (if off + 4 \<le> length b then Some (bytes_word (take 4 (drop off b))) else None)"

definition bin_u16 :: "u8 list \<Rightarrow> nat \<Rightarrow> u16 option" where
  "bin_u16 b off = (if off + 2 \<le> length b
     then Some (ucast (b ! off) OR push_bit 8 (ucast (b ! (off + 1)))) else None)"

definition bin_bytes :: "u8 list \<Rightarrow> nat \<Rightarrow> nat \<Rightarrow> u8 list option" where
  "bin_bytes b off n = (if off + n \<le> length b then Some (take n (drop off b)) else None)"

record Elf =
  e_magic :: u32
  e_elf :: "u8 list"
  e_type :: u16
  e_machine :: u16
  e_version :: u32
  e_entry :: u32
  e_phoff :: u32
  e_shoff :: u32
  e_flags :: u32
  e_ehsize :: u16
  e_phentsize :: u16
  e_phnum :: u16
  e_shentsize :: u16
  e_shnum :: u16
  e_shstrndx :: u16

definition read_Elf :: "u8 list \<Rightarrow> Elf option" where
  "read_Elf b = do {
     m \<leftarrow> bin_u32 b 0; ty \<leftarrow> bin_u16 b 16; ma \<leftarrow> bin_u16 b 18; ve \<leftarrow> bin_u32 b 20;
     en \<leftarrow> bin_u32 b 24; po \<leftarrow> bin_u32 b 28; so \<leftarrow> bin_u32 b 32; fl \<leftarrow> bin_u32 b 36;
     eh \<leftarrow> bin_u16 b 40; pe \<leftarrow> bin_u16 b 42; pn \<leftarrow> bin_u16 b 44; se \<leftarrow> bin_u16 b 46;
     sn \<leftarrow> bin_u16 b 48; st \<leftarrow> bin_u16 b 50;
     Some \<lparr>e_magic = m, e_elf = take 12 (drop 4 b), e_type = ty, e_machine = ma, e_version = ve,
           e_entry = en, e_phoff = po, e_shoff = so, e_flags = fl, e_ehsize = eh, e_phentsize = pe,
           e_phnum = pn, e_shentsize = se, e_shnum = sn, e_shstrndx = st\<rparr>
   }"

record Proghdr =
  p_type :: u32
  p_offset :: u32
  p_va :: u32
  p_pa :: u32
  p_filesz :: u32
  p_memsz :: u32
  p_flags :: u32
  p_align :: u32

definition read_Proghdr :: "u8 list \<Rightarrow> nat \<Rightarrow> Proghdr option" where
  "read_Proghdr b off = do {
     t \<leftarrow> bin_u32 b off; po \<leftarrow> bin_u32 b (off + 4); va \<leftarrow> bin_u32 b (off + 8);
     pa \<leftarrow> bin_u32 b (off + 12); fs \<leftarrow> bin_u32 b (off + 16); ms \<leftarrow> bin_u32 b (off + 20);
     fl \<leftarrow> bin_u32 b (off + 24); al \<leftarrow> bin_u32 b (off + 28);
     Some \<lparr>p_type = t, p_offset = po, p_va = va, p_pa = pa, p_filesz = fs, p_memsz = ms,
           p_flags = fl, p_align = al\<rparr>
   }"

text \<open>One round of the loop over the program headers; stores go through \<open>cr3\<close>.\<close>

definition load_segment :: "nat \<Rightarrow> u8 list \<Rightarrow> nat \<Rightarrow> nat \<Rightarrow> kst \<Rightarrow> kst option" where
  "load_segment e binary phoff k s = do {
     ph \<leftarrow> read_Proghdr binary (phoff + 32 * k);
     if p_type ph \<noteq> ELF_PROG_LOAD then Some s
     else if p_filesz ph > p_memsz ph then None
     else do {
       s \<leftarrow> region_alloc e (p_va ph) (p_memsz ph) s;
       bs \<leftarrow> bin_bytes binary (unat (p_offset ph)) (unat (p_filesz ph));
       s \<leftarrow> store_bytes (cr3 s) (p_va ph) bs s;
       store_bytes (cr3 s) (p_va ph + p_filesz ph) (replicate (unat (p_memsz ph - p_filesz ph)) 0) s
     }
   }"

definition load_icode :: "nat \<Rightarrow> u8 list \<Rightarrow> kst \<Rightarrow> kst option" where
  "load_icode e binary s = do {
     elf \<leftarrow> read_Elf binary;
     if e_magic elf \<noteq> ELF_MAGIC then None
     else do {
       ent \<leftarrow> env_at s e;
       pgdir \<leftarrow> env_pgdir ent;
       let s = s\<lparr>cr3 := pgdir\<rparr>;
       s \<leftarrow> foldM (load_segment e binary (unat (e_phoff elf))) [0..<unat (e_phnum elf)] s;
       let s = s\<lparr>cr3 := kern_pgdir s\<rparr>;
       ent \<leftarrow> env_at s e;
       let s = set_env e (ent\<lparr>env_tf := (env_tf ent)\<lparr>tf_eip := e_entry elf\<rparr>\<rparr>) s;
       region_alloc e (USTACKTOP - PGSIZE) PGSIZE s
     }
   }"

definition env_create :: "u8 list \<Rightarrow> env_type_t \<Rightarrow> kst \<Rightarrow> kst option" where
  "env_create binary ty s = do {
     ((err, e), s) \<leftarrow> env_alloc 0 s;
     if err < 0 then None
     else do {
       i \<leftarrow> e;
       s \<leftarrow> load_icode i binary s;
       ent \<leftarrow> env_at s i;
       let ent = ent\<lparr>env_parent_id := 0, env_type := ty\<rparr>;
       let ent = (if ty = ENV_TYPE_FS
                  then ent\<lparr>env_tf := (env_tf ent)\<lparr>tf_eflags := tf_eflags (env_tf ent) OR FL_IOPL_3\<rparr>\<rparr>
                  else ent);
       Some (set_env i ent s)
     }
   }"

section \<open>Freeing an environment\<close>

text \<open>One page table entry, and one page table with its entries.\<close>

definition env_free_pte :: "nat \<Rightarrow> nat \<Rightarrow> nat \<Rightarrow> nat \<Rightarrow> kst \<Rightarrow> kst option" where
  "env_free_pte pgdir pdeno pt pteno s =
     (if read_pte s (pt, pteno) AND PTE_P \<noteq> 0 then page_remove pgdir (PGADDR pdeno pteno 0) s
      else Some s)"

definition env_free_pde :: "nat \<Rightarrow> nat \<Rightarrow> kst \<Rightarrow> kst option" where
  "env_free_pde pgdir pdeno s =
     (let pde = read_pte s (pgdir, pdeno)
      in if pde AND PTE_P = 0 then Some s
         else do {
           pt \<leftarrow> KADDR s (PTE_ADDR pde);
           s \<leftarrow> foldM (env_free_pte pgdir pdeno pt) [0..<PTX (NOT 0) + 1] s;
           let s = write_pte (pgdir, pdeno) 0 s;
           pp \<leftarrow> pa2page s (PTE_ADDR pde);
           page_decref pp s
         })"

definition env_free :: "nat \<Rightarrow> kst \<Rightarrow> kst option" where
  "env_free e s = do {
     let s = (if Some e = curenv s then s\<lparr>cr3 := kern_pgdir s\<rparr> else s);
     ent \<leftarrow> env_at s e;
     pgdir \<leftarrow> env_pgdir ent;
     s \<leftarrow> foldM (env_free_pde pgdir) [0..<PDX UTOP] s;
     ent \<leftarrow> env_at s e;
     let s = set_env e (ent\<lparr>env_pgdir := None\<rparr>) s;
     pp \<leftarrow> pa2page s (page2pa pgdir);
     s \<leftarrow> page_decref pp s;
     ent \<leftarrow> env_at s e;
     Some ((set_env e (ent\<lparr>env_status := ENV_FREE, env_link := env_free_list s\<rparr>) s)
             \<lparr>env_free_list := Some e\<rparr>)
   }"

section \<open>Running an environment\<close>

definition env_pop_tf :: "nat \<Rightarrow> kst \<Rightarrow> (leave \<times> kst) option" where
  "env_pop_tf e s = do {
     c \<leftarrow> curenv s;
     ent \<leftarrow> env_at s c;
     Some (RunEnv e, set_env c (ent\<lparr>env_cpunum := this_cpu s\<rparr>) s)
   }"

definition env_run :: "nat \<Rightarrow> kst \<Rightarrow> (leave \<times> kst) option" where
  "env_run e s = do {
     s \<leftarrow> (case curenv s of
            None \<Rightarrow> Some s
          | Some c \<Rightarrow> do {
              ce \<leftarrow> env_at s c;
              Some (if env_status ce = ENV_RUNNING then set_env c (ce\<lparr>env_status := ENV_RUNNABLE\<rparr>) s
                    else s)
            });
     let s = s\<lparr>curenv := Some e\<rparr>;
     ent \<leftarrow> env_at s e;
     let s = set_env e (ent\<lparr>env_status := ENV_RUNNING, env_runs := env_runs ent + 1\<rparr>) s;
     pgdir \<leftarrow> env_pgdir ent;
     let s = s\<lparr>cr3 := pgdir\<rparr>;
     s \<leftarrow> unlock_kernel s;
     env_pop_tf e s
   }"

section \<open>The scheduler (kern/sched.c)\<close>

definition has_status :: "kst \<Rightarrow> env_status_t list \<Rightarrow> nat \<Rightarrow> bool" where
  "has_status s sts i = (case env_at s i of None \<Rightarrow> False | Some e \<Rightarrow> env_status e \<in> set sts)"

text \<open>The order in which \<open>sched_yield\<close> looks at the table, from \<open>indx\<close>.\<close>

definition sched_order :: "nat \<Rightarrow> nat list" where
  "sched_order indx = map (\<lambda>i. (indx + i) mod NENV) [0..<NENV]"

definition sched_halt :: "kst \<Rightarrow> (leave \<times> kst) option" where
  "sched_halt s =
     (if \<not> (\<exists>i \<in> set [0..<NENV]. has_status s [ENV_RUNNABLE, ENV_RUNNING, ENV_DYING] i)
      then Some (InMonitor, s)
      else do {
        let s = s\<lparr>curenv := None, cr3 := kern_pgdir s\<rparr>;
        let s = s\<lparr>cpu_status := (cpu_status s)(this_cpu s := CPU_HALTED)\<rparr>;
        s \<leftarrow> unlock_kernel s;
        Some (Halted, s)
      })"

definition sched_yield :: "kst \<Rightarrow> (leave \<times> kst) option" where
  "sched_yield s = do {
     indx \<leftarrow> (case curenv s of
               None \<Rightarrow> Some 0
             | Some c \<Rightarrow> do { ce \<leftarrow> env_at s c; Some (ENVX (env_id ce) + 1) });
     (case List.find (has_status s [ENV_RUNNABLE]) (sched_order indx) of
        Some j \<Rightarrow> env_run j s
      | None \<Rightarrow>
          (case curenv s of
             Some c \<Rightarrow> if has_status s [ENV_RUNNING] c then env_run c s else sched_halt s
           | None \<Rightarrow> sched_halt s))
   }"

section \<open>Destroying an environment\<close>

definition env_destroy :: "nat \<Rightarrow> kst \<Rightarrow> (leave option \<times> kst) option" where
  "env_destroy e s = do {
     ent \<leftarrow> env_at s e;
     if env_status ent = ENV_RUNNING \<and> curenv s \<noteq> Some e
     then Some (None, set_env e (ent\<lparr>env_status := ENV_DYING\<rparr>) s)
     else do {
       s \<leftarrow> env_free e s;
       if curenv s = Some e
       then do { (how, s) \<leftarrow> sched_yield (s\<lparr>curenv := None\<rparr>); Some (Some how, s) }
       else Some (None, s)
     }
   }"

definition user_mem_assert :: "nat \<Rightarrow> u32 \<Rightarrow> u32 \<Rightarrow> u32 \<Rightarrow> kst \<Rightarrow> (leave option \<times> kst) option" where
  "user_mem_assert e va len perm s = do {
     ent \<leftarrow> env_at s e;
     pgdir \<leftarrow> env_pgdir ent;
     (r, s) \<leftarrow> user_mem_check pgdir va len (perm OR PTE_U) s;
     if r < 0 then env_destroy e s else Some (None, s)
   }"

end
