(* ===== verification/Syscall.thy ===== *)
theory Syscall
  imports EnvTab
begin

text \<open>
  System calls: \<open>kern/syscall.c\<close>.  A system call returns an integer to its caller, \<open>Ret r\<close>, or
  leaves the kernel through the scheduler, \<open>Leaves how\<close>.  The arguments are the registers, as
  32-bit words; user memory is read with the page directory that is loaded, and a fault of the
  kernel is a panic (\<open>page_fault_handler\<close>), so \<open>None\<close>.
\<close>

datatype outcome = Ret int | Leaves leave

lemma holds_outcome [vcg]:
  "(\<And>r. x = Ret r \<Longrightarrow> holds P (f r)) \<Longrightarrow> (\<And>how. x = Leaves how \<Longrightarrow> holds P (g how))
   \<Longrightarrow> holds P (case x of Ret r \<Rightarrow> f r | Leaves how \<Rightarrow> g how)"
  by (cases x) simp_all

definition SYS_cputs :: u32 where "SYS_cputs = 0"
definition SYS_cgetc :: u32 where "SYS_cgetc = 1"
definition SYS_getenvid :: u32 where "SYS_getenvid = 2"
definition SYS_env_destroy :: u32 where "SYS_env_destroy = 3"
definition SYS_page_alloc :: u32 where "SYS_page_alloc = 4"
definition SYS_page_map :: u32 where "SYS_page_map = 5"
definition SYS_page_unmap :: u32 where "SYS_page_unmap = 6"
definition SYS_exofork :: u32 where "SYS_exofork = 7"
definition SYS_env_set_status :: u32 where "SYS_env_set_status = 8"
definition SYS_env_set_trapframe :: u32 where "SYS_env_set_trapframe = 9"
definition SYS_env_set_pgfault_upcall :: u32 where "SYS_env_set_pgfault_upcall = 10"
definition SYS_yield :: u32 where "SYS_yield = 11"
definition SYS_ipc_try_send :: u32 where "SYS_ipc_try_send = 12"
definition SYS_ipc_recv :: u32 where "SYS_ipc_recv = 13"

lemmas syscall_nums = SYS_cputs_def SYS_cgetc_def SYS_getenvid_def SYS_env_destroy_def SYS_page_alloc_def
  SYS_page_map_def SYS_page_unmap_def SYS_exofork_def SYS_env_set_status_def SYS_env_set_trapframe_def
  SYS_env_set_pgfault_upcall_def SYS_yield_def SYS_ipc_try_send_def SYS_ipc_recv_def

section \<open>Access to the environments\<close>

definition upd_env :: "nat \<Rightarrow> (env \<Rightarrow> env) \<Rightarrow> kst \<Rightarrow> kst option" where
  "upd_env i f s = do { e \<leftarrow> env_at s i; Some (set_env i (f e) s) }"

definition pgdir_of :: "nat \<Rightarrow> kst \<Rightarrow> nat option" where
  "pgdir_of i s = do { e \<leftarrow> env_at s i; env_pgdir e }"

text \<open>\<open>curenv->..\<close>\<close>

definition cur_env :: "kst \<Rightarrow> (nat \<times> env) option" where
  "cur_env s = do { c \<leftarrow> curenv s; e \<leftarrow> env_at s c; Some (c, e) }"

section \<open>Console\<close>

definition putch :: "u8 \<Rightarrow> kst \<Rightarrow> kst option" where
  "putch ch s = do { cs \<leftarrow> cons_putc (scast ch) (con s); Some (s\<lparr>con := cs\<rparr>) }"

text \<open>
  \<open>cprintf("%.*s", len, s)\<close>: the case \<open>'s'\<close> of \<open>vprintfmt\<close> with a zero width.  The test
  reads the character before it counts down the precision, and a negative precision is no limit.
\<close>

partial_function (option) print_user :: "int \<Rightarrow> u32 \<Rightarrow> kst \<Rightarrow> kst option" where
  "print_user precision p s =
     Option.bind (load_byte s (cr3 s) p) (\<lambda>ch.
       if ch = 0 then Some s
       else if precision < 0 then Option.bind (putch ch s) (print_user precision (p + 1))
       else if 0 \<le> precision - 1 then Option.bind (putch ch s) (print_user (precision - 1) (p + 1))
       else Some s)"

definition null_string :: "u8 list" where
  "null_string = [0x28, 0x6e, 0x75, 0x6c, 0x6c, 0x29]"

definition print_arg :: "int \<Rightarrow> u32 \<Rightarrow> kst \<Rightarrow> kst option" where
  "print_arg precision p s =
     (if p = 0 then foldM putch (if precision < 0 then null_string else take (nat precision) null_string) s
      else print_user precision p s)"

definition sys_cputs :: "u32 \<Rightarrow> u32 \<Rightarrow> kst \<Rightarrow> (outcome \<times> kst) option" where
  "sys_cputs str len s = do {
     c \<leftarrow> curenv s;
     (l, s) \<leftarrow> user_mem_assert c str len PTE_U s;
     (case l of
        Some how \<Rightarrow> Some (Leaves how, s)
      | None \<Rightarrow> do { s \<leftarrow> print_arg (sint len) str s; Some (Ret 0, s) })
   }"

definition sys_cgetc :: "kst \<Rightarrow> (outcome \<times> kst) option" where
  "sys_cgetc s = do { (c, cs) \<leftarrow> cons_getc (con s); Some (Ret (uint c), s\<lparr>con := cs\<rparr>) }"

section \<open>Environments\<close>

definition sys_getenvid :: "kst \<Rightarrow> (outcome \<times> kst) option" where
  "sys_getenvid s = do { (c, e) \<leftarrow> cur_env s; Some (Ret (sint (env_id e)), s) }"

definition sys_env_destroy :: "u32 \<Rightarrow> kst \<Rightarrow> (outcome \<times> kst) option" where
  "sys_env_destroy eid s = do {
     (r, e) \<leftarrow> envid2env eid True s;
     if r < 0 then Some (Ret r, s)
     else do {
       e \<leftarrow> e;
       (l, s) \<leftarrow> env_destroy e s;
       Some (case l of Some how \<Rightarrow> Leaves how | None \<Rightarrow> Ret 0, s)
     }
   }"

definition sys_yield :: "kst \<Rightarrow> (outcome \<times> kst) option" where
  "sys_yield s = do { (how, s) \<leftarrow> sched_yield s; Some (Leaves how, s) }"

definition sys_exofork :: "kst \<Rightarrow> (outcome \<times> kst) option" where
  "sys_exofork s = do {
     (c, ce) \<leftarrow> cur_env s;
     ((r, e), s) \<leftarrow> env_alloc (env_id ce) s;
     if r < 0 then Some (Ret r, s)
     else do {
       e \<leftarrow> e;
       (c, ce) \<leftarrow> cur_env s;
       s \<leftarrow> upd_env e (\<lambda>ent. ent\<lparr>env_tf := env_tf ce\<rparr>) s;
       s \<leftarrow> upd_env e (\<lambda>ent. ent\<lparr>env_status := ENV_NOT_RUNNABLE\<rparr>) s;
       s \<leftarrow> upd_env e (\<lambda>ent. ent\<lparr>env_tf := (env_tf ent)\<lparr>tf_regs := (tf_regs (env_tf ent))\<lparr>reg_eax := 0\<rparr>\<rparr>\<rparr>) s;
       ent \<leftarrow> env_at s e;
       Some (Ret (sint (env_id ent)), s)
     }
   }"

definition sys_env_set_status :: "u32 \<Rightarrow> u32 \<Rightarrow> kst \<Rightarrow> (outcome \<times> kst) option" where
  "sys_env_set_status eid status s =
     (if status \<noteq> status_num ENV_RUNNABLE \<and> status \<noteq> status_num ENV_NOT_RUNNABLE
      then Some (Ret (- E_INVAL), s)
      else do {
        (r, e) \<leftarrow> envid2env eid True s;
        if r < 0 then Some (Ret (- E_BAD_ENV), s)
        else do {
          e \<leftarrow> e;
          s \<leftarrow> upd_env e (\<lambda>ent. ent\<lparr>env_status :=
                 (if status = status_num ENV_RUNNABLE then ENV_RUNNABLE else ENV_NOT_RUNNABLE)\<rparr>) s;
          Some (Ret 0, s)
        }
      })"

text \<open>The layout of \<open>struct Trapframe\<close>: 17 words, the selectors with their padding.\<close>

definition tf_of_words :: "u32 list \<Rightarrow> trapframe" where
  "tf_of_words w = \<lparr>
     tf_regs = \<lparr>reg_edi = w ! 0, reg_esi = w ! 1, reg_ebp = w ! 2, reg_oesp = w ! 3,
                reg_ebx = w ! 4, reg_edx = w ! 5, reg_ecx = w ! 6, reg_eax = w ! 7\<rparr>,
     tf_es = ucast (w ! 8), tf_ds = ucast (w ! 9), tf_trapno = w ! 10, tf_err = w ! 11,
     tf_eip = w ! 12, tf_cs = ucast (w ! 13), tf_eflags = w ! 14, tf_esp = w ! 15,
     tf_ss = ucast (w ! 16)\<rparr>"

fun load_words :: "kst \<Rightarrow> nat \<Rightarrow> u32 \<Rightarrow> nat \<Rightarrow> u32 list option" where
  "load_words s pd va 0 = Some []"
| "load_words s pd va (Suc n) = do {
     w \<leftarrow> load_word s pd va;
     ws \<leftarrow> load_words s pd (va + 4) n;
     Some (w # ws)
   }"

definition user_tf :: "trapframe \<Rightarrow> trapframe" where
  "user_tf tf = tf\<lparr>tf_es := tf_es tf OR 3, tf_ds := tf_ds tf OR 3, tf_cs := tf_cs tf OR 3,
                   tf_ss := tf_ss tf OR 3,
                   tf_eflags := (tf_eflags tf OR FL_IF) AND NOT FL_IOPL_3\<rparr>"

definition sys_env_set_trapframe :: "u32 \<Rightarrow> u32 \<Rightarrow> kst \<Rightarrow> (outcome \<times> kst) option" where
  "sys_env_set_trapframe eid tf s = do {
     (r, e) \<leftarrow> envid2env eid True s;
     if r < 0 then Some (Ret (- E_BAD_ENV), s)
     else if tf \<ge> UTOP then Some (Ret (- E_INVAL), s)
     else do {
       e \<leftarrow> e;
       ws \<leftarrow> load_words s (cr3 s) tf 17;
       s \<leftarrow> upd_env e (\<lambda>ent. ent\<lparr>env_tf := user_tf (tf_of_words ws)\<rparr>) s;
       Some (Ret 0, s)
     }
   }"

definition sys_env_set_pgfault_upcall :: "u32 \<Rightarrow> u32 \<Rightarrow> kst \<Rightarrow> (outcome \<times> kst) option" where
  "sys_env_set_pgfault_upcall eid func s = do {
     (r, e) \<leftarrow> envid2env eid True s;
     if r < 0 then Some (Ret (- E_BAD_ENV), s)
     else do {
       e \<leftarrow> e;
       s \<leftarrow> upd_env e (\<lambda>ent. ent\<lparr>env_pgfault_upcall := func\<rparr>) s;
       Some (Ret 0, s)
     }
   }"

section \<open>Memory\<close>

definition sys_page_alloc :: "u32 \<Rightarrow> u32 \<Rightarrow> u32 \<Rightarrow> kst \<Rightarrow> (outcome \<times> kst) option" where
  "sys_page_alloc eid va perm s = do {
     (r, e) \<leftarrow> envid2env eid True s;
     if r < 0 then Some (Ret (- E_BAD_ENV), s)
     else if perm AND NOT PTE_SYSCALL \<noteq> 0 \<or> perm AND (PTE_U OR PTE_P) = 0
     then Some (Ret (- E_INVAL), s)
     else if va \<ge> UTOP \<or> va mod PGSIZE \<noteq> 0 then Some (Ret (- E_INVAL), s)
     else do {
       (page, s) \<leftarrow> page_alloc ALLOC_ZERO s;
       (case page of
          None \<Rightarrow> Some (Ret (- E_NO_MEM), s)
        | Some pp \<Rightarrow> do {
            e \<leftarrow> e;
            pgdir \<leftarrow> pgdir_of e s;
            (r, s) \<leftarrow> page_insert pgdir pp va perm s;
            if r < 0 then do { s \<leftarrow> page_free pp s; Some (Ret (- E_NO_MEM), s) }
            else Some (Ret 0, s)
          })
     }
   }"

definition sys_page_map :: "u32 \<Rightarrow> u32 \<Rightarrow> u32 \<Rightarrow> u32 \<Rightarrow> u32 \<Rightarrow> kst \<Rightarrow> (outcome \<times> kst) option" where
  "sys_page_map srcenvid srcva dstenvid dstva perm s = do {
     (r, se) \<leftarrow> envid2env srcenvid False s;
     if r < 0 then Some (Ret (- E_BAD_ENV), s)
     else do {
       (r, de) \<leftarrow> envid2env dstenvid False s;
       if r < 0 then Some (Ret (- E_BAD_ENV), s)
       else if srcva \<ge> UTOP \<or> ROUNDUP srcva PGSIZE \<noteq> srcva then Some (Ret (- E_INVAL), s)
       else if dstva \<ge> UTOP \<or> ROUNDUP dstva PGSIZE \<noteq> dstva then Some (Ret (- E_INVAL), s)
       else do {
         se \<leftarrow> se;
         spd \<leftarrow> pgdir_of se s;
         (pg, s) \<leftarrow> page_lookup spd srcva s;
         (case pg of
            None \<Rightarrow> Some (Ret (- E_INVAL), s)
          | Some (pp, pte) \<Rightarrow>
              let flags = PTE_U OR PTE_P in
              if flags AND perm \<noteq> flags then Some (Ret (- E_INVAL), s)
              else if read_pte s pte AND PTE_W = 0 \<and> perm AND PTE_W \<noteq> 0 then Some (Ret (- E_INVAL), s)
              else do {
                de \<leftarrow> de;
                dpd \<leftarrow> pgdir_of de s;
                (r, s) \<leftarrow> page_insert dpd pp dstva perm s;
                if r < 0 then do { s \<leftarrow> page_free pp s; Some (Ret (- E_NO_MEM), s) }
                else Some (Ret 0, s)
              })
       }
     }
   }"

definition sys_page_unmap :: "u32 \<Rightarrow> u32 \<Rightarrow> kst \<Rightarrow> (outcome \<times> kst) option" where
  "sys_page_unmap eid va s = do {
     (r, e) \<leftarrow> envid2env eid True s;
     if r < 0 then Some (Ret (- E_BAD_ENV), s)
     else if va \<ge> UTOP \<or> va mod PGSIZE \<noteq> 0 then Some (Ret (- E_INVAL), s)
     else do {
       e \<leftarrow> e;
       pgdir \<leftarrow> pgdir_of e s;
       (pg, s) \<leftarrow> page_lookup pgdir va s;
       (case pg of
          None \<Rightarrow> Some (Ret 0, s)
        | Some _ \<Rightarrow> do { s \<leftarrow> page_remove pgdir va s; Some (Ret 0, s) })
     }
   }"

section \<open>Interprocess communication\<close>

text \<open>The transfer of the page: \<open>Inl\<close> an error code, \<open>Inr\<close> when the send goes on.\<close>

definition ipc_send_page :: "nat \<Rightarrow> u32 \<Rightarrow> u32 \<Rightarrow> kst \<Rightarrow> ((int + unit) \<times> kst) option" where
  "ipc_send_page e srcva perm s =
     (if srcva mod PGSIZE \<noteq> 0 then Some (Inl (- E_INVAL), s)
      else if PTE_P AND perm = 0 \<or> PTE_U AND perm = 0 \<or> PTE_SYSCALL AND perm \<noteq> perm
      then Some (Inl (- E_INVAL), s)
      else do {
        (c, ce) \<leftarrow> cur_env s;
        spd \<leftarrow> env_pgdir ce;
        (pg, s) \<leftarrow> page_lookup spd srcva s;
        (case pg of
           None \<Rightarrow> Some (Inl (- E_INVAL), s)
         | Some (pp, pte) \<Rightarrow>
             if perm AND PTE_W = PTE_W \<and> PGOFF (read_pte s pte) AND PTE_W \<noteq> PTE_W
             then Some (Inl (- E_INVAL), s)
             else do {
               ent \<leftarrow> env_at s e;
               if env_ipc_dstva ent < UTOP then do {
                 s \<leftarrow> upd_env e (\<lambda>ent. ent\<lparr>env_ipc_perm := 0\<rparr>) s;
                 pd \<leftarrow> pgdir_of e s;
                 (r, s) \<leftarrow> page_insert pd pp (env_ipc_dstva ent) perm s;
                 Some (if r < 0 then Inl (- E_NO_MEM) else Inr (), s)
               }
               else Some (Inr (), s)
             })
      })"

definition sys_ipc_try_send :: "u32 \<Rightarrow> u32 \<Rightarrow> u32 \<Rightarrow> u32 \<Rightarrow> kst \<Rightarrow> (outcome \<times> kst) option" where
  "sys_ipc_try_send eid val srcva perm s = do {
     (r, e) \<leftarrow> envid2env eid False s;
     if r < 0 then Some (Ret (- E_BAD_ENV), s)
     else do {
       e \<leftarrow> e;
       ent \<leftarrow> env_at s e;
       if \<not> env_ipc_recving ent then Some (Ret (- E_IPC_NOT_RECV), s)
       else do {
         (r, s) \<leftarrow> (if srcva < UTOP then ipc_send_page e srcva perm s else Some (Inr (), s));
         (case r of
            Inl err \<Rightarrow> Some (Ret err, s)
          | Inr _ \<Rightarrow> do {
              s \<leftarrow> upd_env e (\<lambda>ent. ent\<lparr>env_ipc_recving := False\<rparr>) s;
              (c, ce) \<leftarrow> cur_env s;
              s \<leftarrow> upd_env e (\<lambda>ent. ent\<lparr>env_ipc_from := env_id ce, env_ipc_value := val,
                                         env_ipc_perm := perm, env_status := ENV_RUNNABLE\<rparr>) s;
              Some (Ret 0, s)
            })
       }
     }
   }"

definition sys_ipc_recv :: "u32 \<Rightarrow> kst \<Rightarrow> (outcome \<times> kst) option" where
  "sys_ipc_recv dstva s =
     (if dstva < UTOP \<and> dstva mod PGSIZE \<noteq> 0 then Some (Ret (- E_INVAL), s)
      else do {
        c \<leftarrow> curenv s;
        s \<leftarrow> (if dstva < UTOP then upd_env c (\<lambda>e. e\<lparr>env_ipc_dstva := dstva\<rparr>) s else Some s);
        s \<leftarrow> upd_env c (\<lambda>e. e\<lparr>env_ipc_recving := True, env_status := ENV_NOT_RUNNABLE,
               env_tf := (env_tf e)\<lparr>tf_regs := (tf_regs (env_tf e))\<lparr>reg_eax := 0\<rparr>\<rparr>\<rparr>) s;
        (how, s) \<leftarrow> sched_yield s;
        Some (Leaves how, s)
      })"

section \<open>The dispatcher\<close>

definition syscall :: "u32 \<Rightarrow> u32 \<Rightarrow> u32 \<Rightarrow> u32 \<Rightarrow> u32 \<Rightarrow> u32 \<Rightarrow> kst \<Rightarrow> (outcome \<times> kst) option" where
  "syscall syscallno a1 a2 a3 a4 a5 s =
     (if syscallno = SYS_cputs then sys_cputs a1 a2 s
      else if syscallno = SYS_getenvid then sys_getenvid s
      else if syscallno = SYS_cgetc then sys_cgetc s
      else if syscallno = SYS_env_destroy then sys_env_destroy a1 s
      else if syscallno = SYS_yield then sys_yield s
      else if syscallno = SYS_exofork then sys_exofork s
      else if syscallno = SYS_env_set_status then sys_env_set_status a1 a2 s
      else if syscallno = SYS_page_alloc then sys_page_alloc a1 a2 a3 s
      else if syscallno = SYS_page_map then sys_page_map a1 a2 a3 a4 a5 s
      else if syscallno = SYS_page_unmap then sys_page_unmap a1 a2 s
      else if syscallno = SYS_ipc_recv then sys_ipc_recv a1 s
      else if syscallno = SYS_ipc_try_send then sys_ipc_try_send a1 a2 a3 a4 s
      else if syscallno = SYS_env_set_pgfault_upcall then sys_env_set_pgfault_upcall a1 a2 s
      else if syscallno = SYS_env_set_trapframe then sys_env_set_trapframe a1 a2 s
      else Some (Ret (- E_INVAL), s))"

end
