(* ===== verification/Ulib.thy ===== *)
theory Ulib
  imports HwMem Syscall
begin

text \<open>
  What the user library sees of the kernel: the stubs of \<open>lib/syscall.c\<close>, the read-only view of the
  page tables at \<open>UVPT\<close>, and the small functions built on them.  The state is the kernel's, with the
  program as the current environment and its page directory in \<open>cr3\<close>.  A stub runs the kernel's
  handler; a call from which the kernel does not come straight back to the program (\<open>Leaves\<close>) is outside
  this view and is \<open>None\<close>, like a panic of the program.
\<close>

section \<open>System calls\<close>

definition usyscall :: "u32 \<Rightarrow> bool \<Rightarrow> u32 \<Rightarrow> u32 \<Rightarrow> u32 \<Rightarrow> u32 \<Rightarrow> u32 \<Rightarrow> kst \<Rightarrow> (int \<times> kst) option" where
  "usyscall num check a1 a2 a3 a4 a5 s = do {
     (res, s) \<leftarrow> syscall num a1 a2 a3 a4 a5 s;
     (case res of
        Leaves how \<Rightarrow> None
      | Ret ret \<Rightarrow> if check \<and> ret > 0 then None else Some (ret, s))
   }"

definition usys_cputs :: "u32 \<Rightarrow> u32 \<Rightarrow> kst \<Rightarrow> (int \<times> kst) option" where
  "usys_cputs str len = usyscall SYS_cputs False str len 0 0 0"

definition usys_cgetc :: "kst \<Rightarrow> (int \<times> kst) option" where
  "usys_cgetc = usyscall SYS_cgetc False 0 0 0 0 0"

definition usys_env_destroy :: "u32 \<Rightarrow> kst \<Rightarrow> (int \<times> kst) option" where
  "usys_env_destroy eid = usyscall SYS_env_destroy True eid 0 0 0 0"

definition usys_getenvid :: "kst \<Rightarrow> (int \<times> kst) option" where
  "usys_getenvid = usyscall SYS_getenvid False 0 0 0 0 0"

definition usys_page_alloc :: "u32 \<Rightarrow> u32 \<Rightarrow> u32 \<Rightarrow> kst \<Rightarrow> (int \<times> kst) option" where
  "usys_page_alloc eid va perm = usyscall SYS_page_alloc True eid va perm 0 0"

definition usys_page_map :: "u32 \<Rightarrow> u32 \<Rightarrow> u32 \<Rightarrow> u32 \<Rightarrow> u32 \<Rightarrow> kst \<Rightarrow> (int \<times> kst) option" where
  "usys_page_map srcenv srcva dstenv dstva perm = usyscall SYS_page_map True srcenv srcva dstenv dstva perm"

definition usys_page_unmap :: "u32 \<Rightarrow> u32 \<Rightarrow> kst \<Rightarrow> (int \<times> kst) option" where
  "usys_page_unmap eid va = usyscall SYS_page_unmap True eid va 0 0 0"

definition usys_env_set_status :: "u32 \<Rightarrow> u32 \<Rightarrow> kst \<Rightarrow> (int \<times> kst) option" where
  "usys_env_set_status eid status = usyscall SYS_env_set_status True eid status 0 0 0"

definition usys_env_set_trapframe :: "u32 \<Rightarrow> u32 \<Rightarrow> kst \<Rightarrow> (int \<times> kst) option" where
  "usys_env_set_trapframe eid tf = usyscall SYS_env_set_trapframe True eid tf 0 0 0"

definition usys_env_set_pgfault_upcall :: "u32 \<Rightarrow> u32 \<Rightarrow> kst \<Rightarrow> (int \<times> kst) option" where
  "usys_env_set_pgfault_upcall eid upcall = usyscall SYS_env_set_pgfault_upcall True eid upcall 0 0 0"

definition usys_ipc_try_send :: "u32 \<Rightarrow> u32 \<Rightarrow> u32 \<Rightarrow> u32 \<Rightarrow> kst \<Rightarrow> (int \<times> kst) option" where
  "usys_ipc_try_send eid value srcva perm = usyscall SYS_ipc_try_send False eid value srcva perm 0"

text \<open>Inlined in \<open>inc/lib.h\<close>, so that it does not touch the stack that parent and child share.\<close>

definition usys_exofork :: "kst \<Rightarrow> (int \<times> kst) option" where
  "usys_exofork = usyscall SYS_exofork False 0 0 0 0 0"

section \<open>Memory of the program\<close>

text \<open>The program may use a page that is marked for the user at both levels.\<close>

definition user_page :: "kst \<Rightarrow> u32 \<Rightarrow> bool" where
  "user_page s va \<longleftrightarrow> pmem s (cr3 s) (PDX va) AND PTE_U \<noteq> 0 \<and> va_pte s (cr3 s) va AND PTE_U \<noteq> 0"

definition uload :: "u32 \<Rightarrow> kst \<Rightarrow> u32 option" where
  "uload va s = (if user_page s va then load_word s (cr3 s) va else None)"

text \<open>\<open>memmove\<close> between two pages of the program.\<close>

definition upage_copy :: "u32 \<Rightarrow> u32 \<Rightarrow> kst \<Rightarrow> kst option" where
  "upage_copy dst src s =
     (if user_page s dst \<and> user_page s src
      then do { bs \<leftarrow> load_bytes s (cr3 s) src (unat PGSIZE); store_bytes (cr3 s) dst bs s }
      else None)"

text \<open>\<open>uvpt[n]\<close> and \<open>uvpd[i]\<close> (\<open>lib/entry.S\<close>), and \<open>pages[n].pp_ref\<close> at \<open>UPAGES\<close>.\<close>

definition UVPD :: u32 where "UVPD = UVPT + drop_bit 12 UVPT * 4"

definition uvpt :: "nat \<Rightarrow> kst \<Rightarrow> u32 option" where
  "uvpt n s = uload (UVPT + word_of_nat n * 4) s"

definition uvpd :: "nat \<Rightarrow> kst \<Rightarrow> u32 option" where
  "uvpd i s = uload (UVPD + word_of_nat i * 4) s"

text \<open>\<open>pages\<close> is mapped for the user at \<open>UPAGES\<close>; the model reads the array itself.\<close>

definition pageref :: "u32 \<Rightarrow> kst \<Rightarrow> nat option" where
  "pageref v s = do {
     pde \<leftarrow> uvpd (PDX v) s;
     if pde AND PTE_P = 0 then Some 0
     else do {
       pte \<leftarrow> uvpt (PGNUM v) s;
       if pte AND PTE_P = 0 then Some 0
       else do { p \<leftarrow> page_at s (PGNUM pte); Some (unat (pp_ref p)) }
     }
   }"

text \<open>The globals of the library: \<open>thisenv\<close>, as an index into \<open>envs\<close>, and \<open>_pgfault_handler\<close>.\<close>

record ulib =
  thisenv :: nat
  handler :: u32

definition find_this_env :: "ulib \<times> kst \<Rightarrow> (ulib \<times> kst) option" where
  "find_this_env us = (case us of (u, s) \<Rightarrow> do {
     (eid, s) \<leftarrow> usys_getenvid s;
     Some (u\<lparr>thisenv := ENVX (word_of_int eid)\<rparr>, s)
   })"

definition libmain_thisenv :: "ulib \<times> kst \<Rightarrow> (ulib \<times> kst) option" where
  "libmain_thisenv us = (case us of (u, s) \<Rightarrow> do {
     (eid, s) \<leftarrow> usys_getenvid s;
     Some (if 0 \<le> eid then u\<lparr>thisenv := ENVX (word_of_int eid)\<rparr> else u, s)
   })"

text \<open>\<open>upcall\<close> is the address of \<open>_pgfault_upcall\<close> (\<open>lib/pfentry.S\<close>).\<close>

definition set_pgfault_handler :: "u32 \<Rightarrow> u32 \<Rightarrow> ulib \<times> kst \<Rightarrow> (ulib \<times> kst) option" where
  "set_pgfault_handler upcall h us = (case us of (u, s) \<Rightarrow> do {
     s \<leftarrow> (if handler u = 0 then do {
              (r, s) \<leftarrow> usys_page_alloc 0 (UXSTACKTOP - PGSIZE) (PTE_W OR PTE_U OR PTE_P) s;
              if r < 0 then None else Some s
            }
            else Some s);
     let u = u\<lparr>handler := h\<rparr>;
     (r, s) \<leftarrow> usys_env_set_pgfault_upcall 0 upcall s;
     if r < 0 then None else Some (u, s)
   })"

text \<open>The first environment of a type; its identifier, or 0.\<close>

definition ipc_find_env :: "env_type_t \<Rightarrow> kst \<Rightarrow> envid" where
  "ipc_find_env ty s = (case List.find (\<lambda>i. env_type (envs s ! i) = ty) [0..<NENV] of
      Some i \<Rightarrow> env_id (envs s ! i) | None \<Rightarrow> 0)"

text \<open>\<open>wait\<close> looks at the table once more after every yield: whether it goes on waiting.\<close>

definition wait_more :: "envid \<Rightarrow> kst \<Rightarrow> bool option" where
  "wait_more eid s =
     (if eid = 0 then None
      else do {
        e \<leftarrow> env_at s (ENVX eid);
        Some (env_id e = eid \<and> env_status e \<noteq> ENV_FREE)
      })"

end
