(* ===== verification/EnvFrame.thy ===== *)
theory EnvFrame
  imports Syscall
begin

text \<open>
  The memory operations leave the environments alone: whatever a function of \<open>kern/pmap.c\<close> does
  to the pages and to the page tables, the environment table, the scheduler's variables and the
  console are as before.  The facts are the collection \<open>env_frames\<close>.
\<close>

definition env_part where
  "env_part s = (envs s, env_free_list s, curenv s, this_cpu s, klock s, cpu_status s, con s,
                 panicked s, cr3 s, kern_pgdir s, npages s)"

abbreviation same_envs :: "kst \<Rightarrow> kst \<Rightarrow> bool" where
  "same_envs t s \<equiv> env_part t = env_part s"

named_theorems env_frames \<open>operations that keep the environments\<close>

lemma env_part_updates [simp]:
  "env_part (set_page i p s) = env_part s" "env_part (write_pte q v s) = env_part s"
  "env_part (zero_frame i s) = env_part s" "env_part (s\<lparr>page_free_list := l\<rparr>) = env_part s"
  "env_part (s\<lparr>tlb_log := tlog\<rparr>) = env_part s" "env_part (s\<lparr>user_mem_check_addr := a\<rparr>) = env_part s"
  "env_part (s\<lparr>mmio_base := a\<rparr>) = env_part s" "env_part (copy_frame d c s) = env_part s"
  by (simp_all add: env_part_def set_page_def write_pte_def zero_frame_def copy_frame_def)

lemma same_envsD:
  assumes "same_envs t s"
  shows "envs t = envs s" "env_free_list t = env_free_list s" "curenv t = curenv s"
    "this_cpu t = this_cpu s" "klock t = klock s" "cpu_status t = cpu_status s" "con t = con s"
    "panicked t = panicked s" "cr3 t = cr3 s" "kern_pgdir t = kern_pgdir s" "npages t = npages s"
    "env_at t i = env_at s i"
  using assms by (simp_all add: env_part_def env_at_def)

lemma page_alloc_frame [env_frames]: "page_alloc fl s = Some (r, t) \<Longrightarrow> same_envs t s"
  by (auto simp: page_alloc_def bind_eq_Some_conv Let_def split: option.splits if_splits)

lemma page_free_frame [env_frames]: "page_free p s = Some t \<Longrightarrow> same_envs t s"
  by (auto simp: page_free_def bind_eq_Some_conv split: if_splits)

lemma page_incref_frame [env_frames]: "page_incref p s = Some t \<Longrightarrow> same_envs t s"
  by (auto simp: page_incref_def bind_eq_Some_conv)

lemma page_decref_frame [env_frames]: "page_decref p s = Some t \<Longrightarrow> same_envs t s"
  by (auto simp: page_decref_def bind_eq_Some_conv Let_def split: if_splits dest!: page_free_frame)

lemma create_page_table_frame [env_frames]: "create_page_table e s = Some (r, t) \<Longrightarrow> same_envs t s"
  by (auto simp: create_page_table_def bind_eq_Some_conv split: option.splits
      dest!: page_alloc_frame page_incref_frame)

lemma pgdir_walk_frame [env_frames]: "pgdir_walk pd va c s = Some (r, t) \<Longrightarrow> same_envs t s"
  by (auto simp: pgdir_walk_def bind_eq_Some_conv Let_def split: if_splits
      dest!: create_page_table_frame)

lemma page_lookup_frame [env_frames]: "page_lookup pd va s = Some (r, t) \<Longrightarrow> same_envs t s"
  by (auto simp: page_lookup_def bind_eq_Some_conv split: option.splits if_splits dest!: pgdir_walk_frame)

lemma tlb_invalidate_frame [simp]: "env_part (tlb_invalidate pd va s) = env_part s"
  by (auto simp: tlb_invalidate_def split: option.splits)

lemma page_remove_frame [env_frames]: "page_remove pd va s = Some t \<Longrightarrow> same_envs t s"
  by (auto simp: page_remove_def bind_eq_Some_conv Let_def split: option.splits if_splits
      dest!: page_lookup_frame page_decref_frame)

lemma page_insert_frame [env_frames]: "page_insert pd pp va perm s = Some (r, t) \<Longrightarrow> same_envs t s"
  by (auto simp: page_insert_def bind_eq_Some_conv split: option.splits if_splits
      dest!: pgdir_walk_frame page_incref_frame page_remove_frame)

lemma user_mem_check_loop_frame:
  "user_mem_check_loop pd va a l perm s = Some (r, t) \<Longrightarrow> same_envs t s"
proof (induction pd va a l perm s rule: user_mem_check_loop.induct)
  case (1 pd va a l perm s)
  show ?case
  proof (cases "a < l \<and> \<not> ULIM \<le> a")
    case False
    then show ?thesis using 1(2) by (subst (asm) user_mem_check_loop.simps) (auto split: if_splits)
  next
    case True
    then obtain r' s' where l: "page_lookup pd a s = Some (r', s')"
      using 1(2) by (subst (asm) user_mem_check_loop.simps) (auto split: option.splits)
    have f: "same_envs s' s" by (rule page_lookup_frame[OF l])
    show ?thesis
    proof (cases "case r' of None \<Rightarrow> False | Some (pp, pte) \<Rightarrow> read_pte s' pte AND perm \<noteq> 0")
      case False
      then show ?thesis using 1(2) True l f
        by (subst (asm) user_mem_check_loop.simps) (auto split: if_splits)
    next
      case ok: True
      then have "user_mem_check_loop pd va (a + PGSIZE) l perm s' = Some (r, t)"
        using 1(2) True l by (subst (asm) user_mem_check_loop.simps) simp
      from 1(1)[OF _ _ l _ _ this] True ok have "same_envs t s'" by simp
      then show ?thesis using f by simp
    qed
  qed
qed

lemma user_mem_check_frame [env_frames]:
  "user_mem_check pd va len perm s = Some (r, t) \<Longrightarrow> same_envs t s"
  unfolding user_mem_check_def by (rule user_mem_check_loop_frame)

lemma store_byte_frame: "store_byte pd va b s = Some t \<Longrightarrow> same_envs t s"
  by (auto simp: store_byte_def bind_eq_Some_conv Let_def)

lemma store_bytes_frame [env_frames]: "store_bytes pd va bs s = Some t \<Longrightarrow> same_envs t s"
  by (induction bs arbitrary: va s)
     (auto simp: bind_eq_Some_conv dest!: store_byte_frame)

lemma store_word_frame [env_frames]: "store_word pd va w s = Some t \<Longrightarrow> same_envs t s"
  by (simp add: store_word_def store_bytes_frame)

lemma store_words_frame [env_frames]: "store_words pd va ws s = Some t \<Longrightarrow> same_envs t s"
  by (induction ws arbitrary: va s)
     (auto simp: bind_eq_Some_conv dest!: store_word_frame)

lemma foldM_frame:
  assumes "foldM f xs s = Some t" and "\<And>x s t. f x s = Some t \<Longrightarrow> same_envs t s"
  shows "same_envs t s"
  using foldM_inv[OF assms(1), of "\<lambda>t. same_envs t s"] assms(2) by auto

lemma env_free_pte_frame: "env_free_pte pd d pt i s = Some t \<Longrightarrow> same_envs t s"
  by (auto simp: env_free_pte_def split: if_splits dest: page_remove_frame)

lemma env_free_pde_frame: "env_free_pde pd d s = Some t \<Longrightarrow> same_envs t s"
  by (auto simp: env_free_pde_def bind_eq_Some_conv Let_def split: if_splits
      dest!: page_decref_frame foldM_frame[OF _ env_free_pte_frame])

lemma env_free_loop_frame [env_frames]: "foldM (env_free_pde pd) ds s = Some t \<Longrightarrow> same_envs t s"
  by (rule foldM_frame) (auto dest: env_free_pde_frame)

lemma same_envs_set_env: "same_envs t s \<Longrightarrow> same_envs (set_env i e t) (set_env i e s)"
  by (simp add: env_part_def set_env_def)

text \<open>The rest of the state that the environment operations keep: what controls the processor.\<close>

definition ctl_part where
  "ctl_part s = (curenv s, this_cpu s, klock s, cpu_status s, con s, panicked s, kern_pgdir s)"

lemma ctl_part_updates [simp]:
  "ctl_part (set_env i e s) = ctl_part s" "ctl_part (s\<lparr>env_free_list := l\<rparr>) = ctl_part s"
  "ctl_part (s\<lparr>cr3 := x\<rparr>) = ctl_part s"
  by (simp_all add: ctl_part_def set_env_def)

lemma same_envs_ctl: "same_envs t s \<Longrightarrow> ctl_part t = ctl_part s"
  by (simp add: env_part_def ctl_part_def)

lemma ctl_partD:
  assumes "ctl_part t = ctl_part s"
  shows "curenv t = curenv s" "this_cpu t = this_cpu s" "klock t = klock s"
    "cpu_status t = cpu_status s" "con t = con s" "panicked t = panicked s" "kern_pgdir t = kern_pgdir s"
  using assms by (simp_all add: ctl_part_def)

end
