(* ===== verification/PmapTwo.thy ===== *)
theory PmapTwo
  imports Ulib EnvFrame
begin

text \<open>
  Two page directories side by side: what \<open>page_insert\<close> in one of them leaves alone in the other, and
  how a program reads its own tables through the slot of \<open>UVPT\<close>.
\<close>

section \<open>The view of the tables at UVPT\<close>

lemma PDX_PTX_of: "PGNUM a = PGNUM b \<Longrightarrow> PDX a = PDX b \<and> PTX a = PTX b"
  by (simp add: same_page_iff)

lemma load_byte_in_page:
  assumes "hw_frame s pd va False = Some f" and "va AND 3 = 0" and "k < 4"
  shows "load_byte s pd (va + word_of_nat k) = Some (get_byte (pmem s f (unat (PGOFF va) div 4)) k)"
proof -
  note W = word_in_page[OF assms(2,3)]
  have "hw_frame s pd (va + word_of_nat k) False = Some f"
    using assms(1) PDX_PTX_of[OF W(2)] by (simp add: hw_frame_def va_pte_def split: if_splits)
  moreover have m: "unat va mod 4 = 0" using assms(2) by (simp add: and_3)
  have "unat (PGOFF (va + word_of_nat k)) = unat (PGOFF va) + k"
  proof -
    obtain q where q: "unat va = 4 * q" using m by auto
    have "(4 * q + k) mod 4096 = 4 * q mod 4096 + k"
    proof -
      have "(4 * q) mod 4096 = 4 * (q mod 1024)" using mult_mod_right[of 4 q 1024] by simp
      then have "(4 * q) mod 4096 + k < 4096"
        using assms(3) mod_less_divisor[of 1024 q] by simp
      then show ?thesis by (metis mod_add_left_eq mod_less)
    qed
    then show ?thesis using W(1) q by (simp add: unat_PGOFF)
  qed
  moreover have "(unat (PGOFF va) + k) div 4 = unat (PGOFF va) div 4 \<and> (unat (PGOFF va) + k) mod 4 = k"
  proof -
    have "unat (PGOFF va) mod 4 = 0" using m by (simp add: unat_PGOFF mod_mod_cancel)
    then obtain r where "unat (PGOFF va) = 4 * r" by auto
    then show ?thesis using assms(3) by simp
  qed
  ultimately show ?thesis by (simp add: load_byte_def Let_def)
qed

lemma load_word_in_page:
  assumes "hw_frame s pd va False = Some f" and "va AND 3 = 0"
  shows "load_word s pd va = Some (pmem s f (unat (PGOFF va) div 4))"
proof -
  define w where "w = pmem s f (unat (PGOFF va) div 4)"
  have b: "load_byte s pd (va + word_of_nat k) = Some (get_byte w k)" if "k < 4" for k
    using load_byte_in_page[OF assms that] by (simp add: w_def)
  have "load_bytes s pd va 4 = Some (word_bytes w)"
    using b[of 0] b[of 1] b[of 2] b[of 3] by (simp add: word_bytes_def numeral_eq_Suc add.assoc)
  then show ?thesis using bytes_word_bytes[of w] by (simp add: load_word_def w_def)
qed

text \<open>The slot that \<open>env_setup_vm\<close> fills: the directory is its own page table there.\<close>

definition self_mapped :: "kst \<Rightarrow> nat \<Rightarrow> bool" where
  "self_mapped s pd \<longleftrightarrow> pd < 2 ^ 20 \<and> pmem s pd (PDX UVPT) = page2pa pd OR PTE_P OR PTE_U"

lemma self_mapped_slot:
  assumes "self_mapped s pd"
  shows "pde_present s pd (PDX UVPT)" "pt_frame s pd (PDX UVPT) = pd" "pmem s pd (PDX UVPT) AND PTE_U \<noteq> 0"
proof -
  have e: "pmem s pd (PDX UVPT) = page2pa pd OR (PTE_P OR PTE_U)" using assms by (simp add: self_mapped_def or.assoc)
  show "pt_frame s pd (PDX UVPT) = pd"
    using PGNUM_entry[of pd "PTE_P OR PTE_U"] assms by (simp add: pt_frame_def e self_mapped_def flags_only_or)
  show "pde_present s pd (PDX UVPT)"
    by (simp add: pde_present_def e bit.conj_disj_distrib2 or_eq_0_iff) (simp add: PTE_P_def)
  show "pmem s pd (PDX UVPT) AND PTE_U \<noteq> 0"
    by (simp add: e bit.conj_disj_distrib2 or_eq_0_iff) (simp add: PTE_U_def)
qed

lemma uvpt_address:
  assumes "n < 1048576"
  shows "PDX (UVPT + word_of_nat n * 4) = PDX UVPT" "PTX (UVPT + word_of_nat n * 4) = n div 1024"
    "unat (PGOFF (UVPT + word_of_nat n * 4)) div 4 = n mod 1024" "(UVPT + word_of_nat n * 4) AND 3 = 0"
proof -
  have u: "unat (UVPT + word_of_nat n * 4) = 4013948928 + n * 4"
  proof -
    have "unat (word_of_nat n * 4 :: u32) = n * 4"
      using assms by (simp add: unat_word_ariths unat_of_nat take_bit_eq_mod)
    then show ?thesis using assms by (simp add: UVPT_def mmu_consts unat_word_ariths)
  qed
  have P: "PDX UVPT = 957" by (simp add: PDX_arith UVPT_def mmu_consts)
  have "(4013948928 + n * 4) div 4194304 = 957" using assms by simp
  then show "PDX (UVPT + word_of_nat n * 4) = PDX UVPT" by (simp only: P PDX_arith[of "UVPT + word_of_nat n * 4"] u)
  have "(4013948928 + n * 4) div 4096 = 979968 + n div 1024" by simp
  moreover have "(979968 + n div 1024) mod 1024 = n div 1024"
    using mod_mult_self1[of "n div 1024" 957 1024] assms by (simp add: add.commute)
  ultimately show "PTX (UVPT + word_of_nat n * 4) = n div 1024" by (simp only: PTX_arith u)
  have "(4013948928 + n * 4) mod 4096 = n * 4 mod 4096" by (simp add: mod_add_eq[symmetric])
  also have "\<dots> = 4 * (n mod 1024)" using mult_mod_right[of 4 n 1024] by (simp add: mult.commute)
  finally show "unat (PGOFF (UVPT + word_of_nat n * 4)) div 4 = n mod 1024" unfolding unat_PGOFF u by simp
  have "(4013948928 + n * 4) mod 4 = 0" by simp
  then show "(UVPT + word_of_nat n * 4) AND 3 = 0" unfolding and_3 u by simp
qed

text \<open>\<open>uvpt[n]\<close> is entry \<open>n mod 1024\<close> of the page table that entry \<open>n div 1024\<close> of the directory points at.\<close>

lemma uvpt_entry:
  assumes "self_mapped s (cr3 s)" and "n < 1048576"
    and "pde_present s (cr3 s) (n div 1024)" and "pmem s (cr3 s) (n div 1024) AND PTE_U \<noteq> 0"
  shows "uvpt n s = Some (pmem s (pt_frame s (cr3 s) (n div 1024)) (n mod 1024))"
proof -
  note A = uvpt_address[OF assms(2)] and S = self_mapped_slot[OF assms(1)]
  have pte: "va_pte s (cr3 s) (UVPT + word_of_nat n * 4) = pmem s (cr3 s) (n div 1024)"
    using S A by (simp add: va_pte_def)
  have "hw_frame s (cr3 s) (UVPT + word_of_nat n * 4) False = Some (pt_frame s (cr3 s) (n div 1024))"
    using S A(1) assms(3) unfolding hw_frame_def pte by (simp add: pde_present_def pte_page_def pt_frame_def)
  from load_word_in_page[OF this A(4)] show ?thesis
    using S A(1,3) assms(4) by (simp add: uvpt_def uload_def user_page_def pte)
qed

text \<open>Nothing can be read there where there is no page table.\<close>

lemma uvpt_absent:
  assumes "self_mapped s (cr3 s)" and "n < 1048576" and "\<not> pde_present s (cr3 s) (n div 1024)"
  shows "uvpt n s = None"
proof -
  note A = uvpt_address[OF assms(2)] and S = self_mapped_slot[OF assms(1)]
  have pte: "va_pte s (cr3 s) (UVPT + word_of_nat n * 4) = pmem s (cr3 s) (n div 1024)"
    using S A by (simp add: va_pte_def)
  have "hw_frame s (cr3 s) (UVPT + word_of_nat n * 4) False = None"
    using assms(3) unfolding hw_frame_def pte by (simp add: pde_present_def)
  then have "load_byte s (cr3 s) (UVPT + word_of_nat n * 4) = None" by (simp add: load_byte_def)
  then show ?thesis by (simp add: uvpt_def uload_def load_word_def numeral_eq_Suc)
qed

lemma UVPD_eq: "UVPD = UVPT + word_of_nat (PDX UVPT * 1024) * 4"
  by (simp add: UVPD_def PDX_arith UVPT_def mmu_consts)

text \<open>\<open>uvpd[i]\<close> is entry \<open>i\<close> of the directory.\<close>

lemma uvpd_entry:
  assumes "self_mapped s (cr3 s)" and "i < 1024"
  shows "uvpd i s = Some (pmem s (cr3 s) i)"
proof -
  define n where "n = PDX UVPT * 1024 + i"
  have n: "n < 1048576" "n div 1024 = PDX UVPT" "n mod 1024 = i"
    using assms(2) PDX_less[of UVPT] by (simp_all add: n_def del: PDX_less)
  have "UVPD + word_of_nat i * 4 = UVPT + word_of_nat n * 4"
    unfolding UVPD_eq n_def by (simp add: algebra_simps)
  then have "uvpd i s = uvpt n s" by (simp add: uvpd_def uvpt_def)
  also have "\<dots> = Some (pmem s (cr3 s) i)"
    using uvpt_entry[OF assms(1) n(1)] self_mapped_slot[OF assms(1)] n by simp
  finally show ?thesis .
qed

section \<open>What page_insert leaves alone\<close>

lemma page_free_pmem: "page_free p s = Some t \<Longrightarrow> pmem t = pmem s"
  by (auto simp: page_free_def bind_eq_Some_conv split: if_splits)

lemma page_incref_pmem: "page_incref p s = Some t \<Longrightarrow> pmem t = pmem s"
  by (auto simp: page_incref_def bind_eq_Some_conv)

lemma page_decref_pmem: "page_decref p s = Some t \<Longrightarrow> pmem t = pmem s"
  by (auto simp: page_decref_def bind_eq_Some_conv Let_def split: if_splits dest!: page_free_pmem)

lemma page_lookup_loc:
  "page_lookup pd va s = Some (Some (pp, loc), t) \<Longrightarrow> t = s \<and> loc = (pt_frame s pd (PDX va), PTX va)"
  by (auto simp: page_lookup_def pgdir_walk_def bind_eq_Some_conv Let_def KADDR_def pt_frame_def read_pte_def
      split: if_splits option.splits)

lemma page_remove_pmem:
  assumes "page_remove pd va s = Some t" and "f \<noteq> pt_frame s pd (PDX va)"
  shows "pmem t f = pmem s f"
proof -
  from assms(1) obtain r u where l: "page_lookup pd va s = Some (r, u)"
    and k: "(case r of None \<Rightarrow> Some u | Some (pp, pte) \<Rightarrow> do {
          s \<leftarrow> page_decref pp u;
          let s = (if read_pte s pte \<noteq> 0 then write_pte pte 0 s else s);
          Some (tlb_invalidate pd va s) }) = Some t"
    by (auto simp: page_remove_def bind_eq_Some_conv)
  have u: "u = s" using l
    by (auto simp: page_lookup_def pgdir_walk_def bind_eq_Some_conv Let_def split: if_splits option.splits)
  show ?thesis
  proof (cases r)
    case None
    then show ?thesis using k u by simp
  next
    case (Some x)
    obtain pp pte where x: "x = (pp, pte)" by (cases x)
    with l Some have "pte = (pt_frame s pd (PDX va), PTX va)" using page_lookup_loc[of pd va s pp pte u] by simp
    then show ?thesis using k Some x u assms(2)
      by (auto simp: bind_eq_Some_conv Let_def dest!: page_decref_pmem)
  qed
qed

text \<open>The page table that \<open>page_insert\<close> writes: the one of the directory, or the first free page.\<close>

definition insert_table :: "kst \<Rightarrow> nat \<Rightarrow> u32 \<Rightarrow> nat" where
  "insert_table s pd va = (if pde_present s pd (PDX va) then pt_frame s pd (PDX va) else hd (free_pages s))"

lemma insert_tail:
  assumes inv: "pages_inv w" and ok: "pgdir_ok w pd" and d: "PDX va \<noteq> PDX UVPT"
    and pres: "pde_present w pd (PDX va)" and leaf: "leaf_ok w pd pp"
    and old: "va_pte w pd va AND PTE_P \<noteq> 0 \<Longrightarrow> leaf_ok w pd (pte_page (va_pte w pd va))"
    and u: "page_incref pp w = Some u"
    and x: "(if read_pte u (pt_frame w pd (PDX va), PTX va) AND PTE_P \<noteq> 0 then page_remove pd va u else Some u) = Some x"
  shows "f \<noteq> pt_frame w pd (PDX va) \<Longrightarrow> pmem x f = pmem w f"
    and "set (free_pages x) \<subseteq> set (free_pages w) \<union> (if va_pte w pd va AND PTE_P \<noteq> 0 then {pte_page (va_pte w pd va)} else {})"
proof -
  have pp: "pp < npages w" "pp \<notin> set (free_pages w)" using leaf by (auto simp: leaf_ok_def)
  from page_incref_spec[OF inv pp] u have
    U: "pages_inv u" "same_rest u w" "free_pages u = free_pages w" by auto
  have rd: "read_pte u (pt_frame w pd (PDX va), PTX va) = va_pte w pd va"
    using pres U(2) by (simp add: read_pte_def va_pte_def same_rest_def)
  note S = pde_present_same_rest[OF U(2)] va_pte_same_rest[OF U(2)]
  have uw: "pmem u = pmem w" using page_incref_pmem[OF u] .
  show "pmem x f = pmem w f" if "f \<noteq> pt_frame w pd (PDX va)"
    using x uw that page_remove_pmem[of pd va u x f] by (auto simp: S split: if_splits)
  show "set (free_pages x) \<subseteq> set (free_pages w) \<union> (if va_pte w pd va AND PTE_P \<noteq> 0 then {pte_page (va_pte w pd va)} else {})"
  proof (cases "va_pte w pd va AND PTE_P = 0")
    case True
    then show ?thesis using x rd U(3) by simp
  next
    case False
    have oku: "pgdir_ok u pd" using pgdir_ok_same_rest[OF U(2)] U(3) ok by simp
    have lu: "leaf_ok u pd (pte_page (va_pte u pd va))"
      using old[OF False] U(2,3) by (simp add: leaf_ok_def S same_rest_def)
    have "page_remove pd va u = Some x" using x rd False by simp
    then show ?thesis using page_remove_spec[OF U(1) oku d _ lu] pres U(3) False by (auto simp: S split: if_splits)
  qed
qed

lemma page_insert_rest:
  assumes inv: "pages_inv s" and ok: "pgdir_ok s pd" and d: "PDX va \<noteq> PDX UVPT"
    and leaf: "leaf_ok s pd pp"
    and old: "va_pte s pd va AND PTE_P \<noteq> 0 \<Longrightarrow> leaf_ok s pd (pte_page (va_pte s pd va))"
    and room: "pde_present s pd (PDX va) \<or> free_pages s \<noteq> []"
    and run: "page_insert pd pp va perm s = Some (0, t)"
  shows "f \<noteq> pd \<Longrightarrow> f \<noteq> insert_table s pd va \<Longrightarrow> pmem t f = pmem s f"
    and "pde_present s pd (PDX va) \<or> i \<noteq> PDX va \<Longrightarrow> pmem t pd i = pmem s pd i"
    and "pt_frame t pd (PDX va) = insert_table s pd va"
    and "set (free_pages t) \<subseteq> set (free_pages s)
       \<union> (if va_pte s pd va AND PTE_P \<noteq> 0 then {pte_page (va_pte s pd va)} else {})"
proof -
  obtain w where walk: "pgdir_walk pd va True s = Some (Some (pt_frame w pd (PDX va), PTX va), w)"
    and w: "pages_inv w" "pgdir_ok w pd" "pde_present w pd (PDX va)" "leaf_ok w pd pp"
      "va_pte w pd va = va_pte s pd va" "pt_frame w pd (PDX va) = insert_table s pd va"
      "set (free_pages w) \<subseteq> set (free_pages s)"
      "\<And>f. f \<noteq> pd \<Longrightarrow> f \<noteq> insert_table s pd va \<Longrightarrow> pmem w f = pmem s f"
      "\<And>i. pde_present s pd (PDX va) \<or> i \<noteq> PDX va \<Longrightarrow> pmem w pd i = pmem s pd i"
      "va_pte s pd va AND PTE_P \<noteq> 0 \<Longrightarrow> leaf_ok w pd (pte_page (va_pte s pd va))"
  proof (cases "pde_present s pd (PDX va)")
    case True
    show ?thesis
      by (rule that[of s]) (use True inv ok leaf old pgdir_walk_present[OF ok d True] in \<open>simp_all add: insert_table_def\<close>)
  next
    case False
    with room obtain p ps where av: "free_pages s = p # ps" by (cases "free_pages s") auto
    let ?w = "walk_state pd (PDX va) p s"
    note W = pgdir_walk_create[OF inv ok d False av]
    have ppd: "p \<noteq> pd" using ok av by (auto simp: pgdir_ok_def)
    have dir: "i \<noteq> PDX va \<Longrightarrow> pmem ?w pd i = pmem s pd i" for i
      using ppd by (simp add: walk_state_def)
    have lw: "leaf_ok ?w pd pp"
    proof -
      have "pde_present ?w pd i \<Longrightarrow> i \<noteq> PDX va \<Longrightarrow> pde_present s pd i \<and> pt_frame ?w pd i = pt_frame s pd i" for i
        using dir by (simp add: pde_present_def pt_frame_def)
      moreover have "pp < npages s" "pp \<noteq> p" "pp \<notin> set ps" "pp \<noteq> pd"
        "\<And>i. i < 1024 \<Longrightarrow> i \<noteq> PDX UVPT \<Longrightarrow> pde_present s pd i \<Longrightarrow> pt_frame s pd i \<noteq> pp"
        using leaf av by (auto simp: leaf_ok_def)
      ultimately show ?thesis unfolding leaf_ok_def W(3,8) by (metis W(6))
    qed
    show ?thesis
    proof (rule that[of ?w])
      show "pmem ?w f = pmem s f" if "f \<noteq> pd" "f \<noteq> insert_table s pd va" for f
        using that False av by (simp add: walk_state_def insert_table_def fun_eq_iff)
      show "va_pte s pd va AND PTE_P \<noteq> 0 \<Longrightarrow> leaf_ok ?w pd (pte_page (va_pte s pd va))"
        using False by (simp add: va_pte_def)
    qed (use W False av lw dir d in \<open>auto simp: insert_table_def\<close>)
  qed
  from run walk obtain u x where u: "page_incref pp w = Some u"
    and x: "(if read_pte u (pt_frame w pd (PDX va), PTX va) AND PTE_P \<noteq> 0 then page_remove pd va u else Some u) = Some x"
    and t: "t = write_pte (pt_frame w pd (PDX va), PTX va) (page2pa pp OR perm OR PTE_P) x"
    by (auto simp: page_insert_def bind_eq_Some_conv)
  note T = insert_tail[OF w(1,2) d w(3,4) _ u x]
  have ne: "pt_frame w pd (PDX va) \<noteq> pd" using w(2,3) d by (simp add: pgdir_ok_def)
  have old': "va_pte w pd va AND PTE_P \<noteq> 0 \<Longrightarrow> leaf_ok w pd (pte_page (va_pte w pd va))" using w(5,10) by simp
  have pd: "pmem t pd i = pmem w pd i" for i using T(1)[OF old', of pd] ne by (simp add: t)
  show "pt_frame t pd (PDX va) = insert_table s pd va" using w(6) pd by (simp add: pt_frame_def)
  show "pmem t f = pmem s f" if "f \<noteq> pd" "f \<noteq> insert_table s pd va"
    using T(1)[OF old', of f] that w(6,8) by (simp add: t write_pte_def)
  show "pmem t pd i = pmem s pd i" if "pde_present s pd (PDX va) \<or> i \<noteq> PDX va" using pd w(9) that by simp
  show "set (free_pages t) \<subseteq> set (free_pages s)
       \<union> (if va_pte s pd va AND PTE_P \<noteq> 0 then {pte_page (va_pte s pd va)} else {})"
    using T(2)[OF old'] w(5,7) by (auto simp: t)
qed

text \<open>The frames that hold the tables of a directory, the slot of \<open>UVPT\<close> aside.\<close>

definition dir_frames :: "kst \<Rightarrow> nat \<Rightarrow> nat set" where
  "dir_frames s pd = insert pd {pt_frame s pd i | i. i < 1024 \<and> i \<noteq> PDX UVPT \<and> pde_present s pd i}"

lemma dir_frames_table: "i < 1024 \<Longrightarrow> i \<noteq> PDX UVPT \<Longrightarrow> pde_present s pd i \<Longrightarrow> pt_frame s pd i \<in> dir_frames s pd"
  by (auto simp: dir_frames_def)

lemma dir_frames_self [simp]: "pd \<in> dir_frames s pd"
  by (simp add: dir_frames_def)

lemma leaf_ok_frames: "leaf_ok s pd q \<longleftrightarrow> q < npages s \<and> q \<notin> set (free_pages s) \<and> q \<notin> dir_frames s pd"
  by (auto simp: leaf_ok_def dir_frames_def)

text \<open>A directory whose frames, and free pages among them, are as before, is the same directory.\<close>

lemma same_dir:
  assumes same: "\<And>f. f \<in> dir_frames s cd \<Longrightarrow> pmem t f = pmem s f"
  shows "pde_present t cd i = pde_present s cd i" "pt_frame t cd i = pt_frame s cd i"
    "dir_frames t cd = dir_frames s cd" "PDX vb \<noteq> PDX UVPT \<Longrightarrow> va_pte t cd vb = va_pte s cd vb"
proof -
  have cd: "pmem t cd = pmem s cd" by (rule same) simp
  show p: "pde_present t cd i = pde_present s cd i" and q: "pt_frame t cd i = pt_frame s cd i" for i
    by (simp_all add: pde_present_def pt_frame_def cd)
  show "dir_frames t cd = dir_frames s cd" by (simp add: dir_frames_def p q)
  show "va_pte t cd vb = va_pte s cd vb" if "PDX vb \<noteq> PDX UVPT"
    using same[OF dir_frames_table[OF PDX_less that]] by (simp add: va_pte_def p q)
qed

lemma same_dir_ok:
  assumes ok: "pgdir_ok s cd" and same: "\<And>f. f \<in> dir_frames s cd \<Longrightarrow> pmem t f = pmem s f"
    and n: "npages t = npages s" and free: "set (free_pages t) \<inter> dir_frames s cd = {}"
  shows "pgdir_ok t cd"
proof -
  have S: "pde_present t cd i = pde_present s cd i" "pt_frame t cd i = pt_frame s cd i" for i
    using same_dir(1,2)[of s cd t i] same by blast+
  have "cd \<notin> set (free_pages t)" using free dir_frames_self by blast
  moreover have "pt_frame s cd i \<notin> set (free_pages t)" if "i < 1024" "i \<noteq> PDX UVPT" "pde_present s cd i" for i
    using free dir_frames_table[OF that] by blast
  ultimately show ?thesis using ok unfolding pgdir_ok_def n S by blast
qed

text \<open>\<open>page_insert\<close> in \<open>pd\<close> leaves every other directory alone that shares no table with it there.\<close>

lemma page_insert_other:
  assumes inv: "pages_inv s" and ok: "pgdir_ok s pd" and d: "PDX va \<noteq> PDX UVPT"
    and leaf: "leaf_ok s pd pp"
    and old: "va_pte s pd va AND PTE_P \<noteq> 0 \<Longrightarrow> leaf_ok s pd (pte_page (va_pte s pd va))
        \<and> pte_page (va_pte s pd va) \<notin> dir_frames s cd"
    and room: "pde_present s pd (PDX va) \<or> free_pages s \<noteq> []"
    and run: "page_insert pd pp va perm s = Some (0, t)" and n: "npages t = npages s"
    and okc: "pgdir_ok s cd" and ne: "pd \<notin> dir_frames s cd"
    and own: "pde_present s pd (PDX va) \<Longrightarrow> pt_frame s pd (PDX va) \<notin> dir_frames s cd"
  shows "f \<in> dir_frames s cd \<Longrightarrow> pmem t f = pmem s f" and "pgdir_ok t cd"
proof -
  have free: "set (free_pages s) \<inter> dir_frames s cd = {}"
    using okc by (auto simp: pgdir_ok_def dir_frames_def)
  have it: "insert_table s pd va \<notin> dir_frames s cd"
    using own room free by (cases "free_pages s") (auto simp: insert_table_def)
  note R = page_insert_rest[OF inv ok d leaf _ room run]
  show same: "pmem t f = pmem s f" if "f \<in> dir_frames s cd" for f
    by (rule R(1)) (use old ne it that in auto)
  show "pgdir_ok t cd"
  proof (rule same_dir_ok[OF okc same n])
    show "set (free_pages t) \<inter> dir_frames s cd = {}"
    proof -
      have "va_pte s pd va AND PTE_P \<noteq> 0 \<Longrightarrow> leaf_ok s pd (pte_page (va_pte s pd va))" using old by simp
      from R(4)[OF this] show ?thesis using free old by (auto split: if_splits)
    qed
  qed
qed

text \<open>The frames of the directory itself gain at most the new table.\<close>

lemma page_insert_frames:
  assumes "pages_inv s" "pgdir_ok s pd" "PDX va \<noteq> PDX UVPT" "leaf_ok s pd pp"
    and "va_pte s pd va AND PTE_P \<noteq> 0 \<Longrightarrow> leaf_ok s pd (pte_page (va_pte s pd va))"
    and "pde_present s pd (PDX va) \<or> free_pages s \<noteq> []"
    and "page_insert pd pp va perm s = Some (0, t)"
  shows "dir_frames t pd \<subseteq> insert (insert_table s pd va) (dir_frames s pd)"
proof -
  note R = page_insert_rest[OF assms]
  have "pt_frame t pd i \<in> insert (insert_table s pd va) (dir_frames s pd)"
    if "i < 1024" "i \<noteq> PDX UVPT" "pde_present t pd i" for i
  proof (cases "i = PDX va")
    case True
    then show ?thesis using R(3) by simp
  next
    case False
    then have "pmem t pd i = pmem s pd i" using R(2) by simp
    then show ?thesis using that dir_frames_table[OF that(1,2)] by (simp add: pde_present_def pt_frame_def)
  qed
  then show ?thesis by (auto simp: dir_frames_def)
qed

end
