(* ===== verification/SpawnMap.thy ===== *)
theory SpawnMap
  imports PmapTwo
begin

text \<open>
  Mapping a page where nothing was mapped, and taking it out again: everything that
  \<open>sys_page_alloc\<close>, \<open>sys_page_map\<close> and \<open>sys_page_unmap\<close> do to one directory and to the others.
\<close>

section \<open>A new page in a directory\<close>

text \<open>The user may use the tables of \<open>va\<close>, if there are any.\<close>

definition pde_open :: "kst \<Rightarrow> nat \<Rightarrow> u32 \<Rightarrow> bool" where
  "pde_open s pd va \<longleftrightarrow> (pde_present s pd (PDX va) \<longrightarrow> pmem s pd (PDX va) AND PTE_U \<noteq> 0 \<and> pmem s pd (PDX va) AND PTE_W \<noteq> 0)"

lemma new_pde_flags: "(page2pa p OR PTE_P OR PTE_W OR PTE_U) AND PTE_U \<noteq> 0" "(page2pa p OR PTE_P OR PTE_W OR PTE_U) AND PTE_W \<noteq> 0"
  by (simp_all add: bit.conj_disj_distrib2 or_eq_0_iff) (simp_all add: PTE_U_def PTE_W_def)

lemma set_tl: "x \<in> set (tl xs) \<Longrightarrow> x \<in> set xs"
  by (cases xs) simp_all

lemma insert_fresh:
  assumes inv: "pages_inv s" and ok: "pgdir_ok s pd" and d: "PDX va \<noteq> PDX UVPT" and leaf: "leaf_ok s pd pp"
    and none: "va_pte s pd va AND PTE_P = 0" and room: "pde_present s pd (PDX va) \<or> free_pages s \<noteq> []"
    and op: "pde_open s pd va" and run: "page_insert pd pp va perm s = Some (0, t)"
  shows "free_pages t = (if pde_present s pd (PDX va) then free_pages s else tl (free_pages s))"
    and "pmem t pd (PDX va) AND PTE_U \<noteq> 0" "pmem t pd (PDX va) AND PTE_W \<noteq> 0"
proof -
  obtain w where walk: "pgdir_walk pd va True s = Some (Some (pt_frame w pd (PDX va), PTX va), w)"
    and w: "pages_inv w" "pgdir_ok w pd" "pde_present w pd (PDX va)" "va_pte w pd va = va_pte s pd va" "npages w = npages s"
      "free_pages w = (if pde_present s pd (PDX va) then free_pages s else tl (free_pages s))"
      "pmem w pd (PDX va) AND PTE_U \<noteq> 0" "pmem w pd (PDX va) AND PTE_W \<noteq> 0"
  proof (cases "pde_present s pd (PDX va)")
    case True
    show ?thesis
      by (rule that[of s]) (use True inv ok op pgdir_walk_present[OF ok d True] in \<open>simp_all add: pde_open_def\<close>)
  next
    case False
    with room obtain p ps where av: "free_pages s = p # ps" by (cases "free_pages s") auto
    note W = pgdir_walk_create[OF inv ok d False av]
    have "pmem (walk_state pd (PDX va) p s) pd (PDX va) = page2pa p OR PTE_P OR PTE_W OR PTE_U" by (simp add: walk_state_def)
    then show ?thesis
      by (intro that[of "walk_state pd (PDX va) p s"]) (use W False av d new_pde_flags in simp_all)
  qed
  have pp: "pp < npages w" "pp \<notin> set (free_pages w)"
    using leaf w(5,6) by (auto simp: leaf_ok_def dest: set_tl)
  from page_incref_spec[OF w(1) pp] obtain u where u: "page_incref pp w = Some u" "same_rest u w" "free_pages u = free_pages w" by blast
  have "read_pte u (pt_frame w pd (PDX va), PTX va) = va_pte w pd va"
    using u(2) w(3) by (simp add: read_pte_def va_pte_def same_rest_def)
  then have "read_pte u (pt_frame w pd (PDX va), PTX va) AND PTE_P = 0" using none w(4) by simp
  then have t: "t = write_pte (pt_frame w pd (PDX va), PTX va) (page2pa pp OR perm OR PTE_P) u"
    using run walk u(1) by (simp add: page_insert_def)
  have "pt_frame w pd (PDX va) \<noteq> pd" using w(2,3) d by (simp add: pgdir_ok_def)
  then have "pmem t pd (PDX va) = pmem w pd (PDX va)" using u(2) by (simp add: t same_rest_def)
  then show "pmem t pd (PDX va) AND PTE_U \<noteq> 0" "pmem t pd (PDX va) AND PTE_W \<noteq> 0" using w(7,8) by simp_all
  show "free_pages t = (if pde_present s pd (PDX va) then free_pages s else tl (free_pages s))" using u(3) w(6) by (simp add: t)
qed

text \<open>What \<open>page_insert\<close> of \<open>pp\<close> at \<open>va\<close> in \<open>pd\<close> leaves, when nothing was there.\<close>

definition mapped_new :: "nat \<Rightarrow> nat \<Rightarrow> u32 \<Rightarrow> u32 \<Rightarrow> kst \<Rightarrow> kst \<Rightarrow> bool" where
  "mapped_new pd pp va perm s t \<longleftrightarrow> pages_inv t \<and> pgdir_ok t pd \<and> npages t = npages s \<and> same_envs t s
     \<and> va_pte t pd va = page2pa pp OR perm OR PTE_P \<and> pde_present t pd (PDX va)
     \<and> pmem t pd (PDX va) AND PTE_U \<noteq> 0 \<and> pmem t pd (PDX va) AND PTE_W \<noteq> 0 \<and> leaf_ok t pd pp
     \<and> (\<forall>vb. PDX vb \<noteq> PDX UVPT \<and> PGNUM vb \<noteq> PGNUM va \<longrightarrow> va_pte t pd vb = va_pte s pd vb)
     \<and> (\<forall>i. pde_present s pd (PDX va) \<or> i \<noteq> PDX va \<longrightarrow> pmem t pd i = pmem s pd i)
     \<and> (\<forall>g. g \<noteq> pd \<and> g \<noteq> insert_table s pd va \<longrightarrow> pmem t g = pmem s g)
     \<and> free_pages t = (if pde_present s pd (PDX va) then free_pages s else tl (free_pages s))
     \<and> pp_ref (pages t ! pp) = pp_ref (pages s ! pp) + 1
     \<and> dir_frames t pd \<subseteq> insert (insert_table s pd va) (dir_frames s pd)"

lemma insert_table_cases: "pde_present s pd (PDX va) \<or> free_pages s \<noteq> [] \<Longrightarrow> PDX va \<noteq> PDX UVPT
    \<Longrightarrow> insert_table s pd va \<in> (if pde_present s pd (PDX va) then dir_frames s pd else set (free_pages s))"
  using dir_frames_table[OF PDX_less] by (cases "free_pages s") (auto simp: insert_table_def)

lemma insert_new:
  assumes inv: "pages_inv s" and ok: "pgdir_ok s pd" and d: "PDX va \<noteq> PDX UVPT" and leaf: "leaf_ok s pd pp"
    and none: "va_pte s pd va AND PTE_P = 0" and room: "pde_present s pd (PDX va) \<or> free_pages s \<noteq> []"
    and op: "pde_open s pd va"
  obtains t where "page_insert pd pp va perm s = Some (0, t)" "mapped_new pd pp va perm s t"
proof -
  from page_insert_spec[OF inv ok d leaf _ room, of perm] none obtain t where
    T: "page_insert pd pp va perm s = Some (0, t)" "pages_inv t" "pgdir_ok t pd" "npages t = npages s"
      "va_pte t pd va = page2pa pp OR perm OR PTE_P" "pde_present t pd (PDX va)" "pp \<notin> set (free_pages t)"
      "\<forall>vb. PDX vb \<noteq> PDX UVPT \<and> PGNUM vb \<noteq> PGNUM va \<longrightarrow> va_pte t pd vb = va_pte s pd vb"
      "\<forall>r < npages s. pp_ref (pages t ! r) = pp_ref (pages s ! r) + (if r = pp then 1 else 0)
          + (if new_table s pd va = Some r then 1 else 0)
          - (if va_pte s pd va AND PTE_P \<noteq> 0 \<and> r = pte_page (va_pte s pd va) then 1 else 0)" by auto
  have old: "va_pte s pd va AND PTE_P \<noteq> 0 \<Longrightarrow> leaf_ok s pd (pte_page (va_pte s pd va))" using none by simp
  note R = page_insert_rest[OF inv ok d leaf old room T(1)]
  note F = page_insert_frames[OF inv ok d leaf old room T(1)]
  note N = insert_fresh[OF inv ok d leaf none room op T(1)]
  have pp: "pp < npages s" "pp \<notin> set (free_pages s)" "pp \<notin> dir_frames s pd" using leaf by (simp_all add: leaf_ok_frames)
  have tab: "insert_table s pd va \<noteq> pp" using insert_table_cases[OF room d] pp by (auto split: if_splits)
  have new: "new_table s pd va \<noteq> Some pp" using pp by (auto simp: new_table_def split: list.splits)
  have "leaf_ok t pd pp" using pp T(4,7) F tab by (auto simp: leaf_ok_frames)
  moreover have "pp_ref (pages t ! pp) = pp_ref (pages s ! pp) + 1" using T(9) pp(1) new none by simp
  ultimately have "mapped_new pd pp va perm s t"
    unfolding mapped_new_def using T(2-6,8) R(1,2) N F page_insert_frame[OF T(1)] by simp
  then show ?thesis using that T(1) by blast
qed

lemma mapped_newD:
  assumes "mapped_new pd pp va perm s t"
  shows "pages_inv t" "pgdir_ok t pd" "npages t = npages s" "same_envs t s" "va_pte t pd va = page2pa pp OR perm OR PTE_P"
    "pde_present t pd (PDX va)" "pmem t pd (PDX va) AND PTE_U \<noteq> 0" "pmem t pd (PDX va) AND PTE_W \<noteq> 0" "leaf_ok t pd pp"
    "\<And>vb. PDX vb \<noteq> PDX UVPT \<Longrightarrow> PGNUM vb \<noteq> PGNUM va \<Longrightarrow> va_pte t pd vb = va_pte s pd vb"
    "\<And>i. pde_present s pd (PDX va) \<or> i \<noteq> PDX va \<Longrightarrow> pmem t pd i = pmem s pd i"
    "\<And>g. g \<noteq> pd \<Longrightarrow> g \<noteq> insert_table s pd va \<Longrightarrow> pmem t g = pmem s g"
    "free_pages t = (if pde_present s pd (PDX va) then free_pages s else tl (free_pages s))"
    "pp_ref (pages t ! pp) = pp_ref (pages s ! pp) + 1"
    "dir_frames t pd \<subseteq> insert (insert_table s pd va) (dir_frames s pd)"
  using assms unfolding mapped_new_def by blast+

text \<open>Other directories are as before.\<close>

lemma mapped_new_other:
  assumes m: "mapped_new pd pp va perm s t" and d: "PDX va \<noteq> PDX UVPT" and room: "pde_present s pd (PDX va) \<or> free_pages s \<noteq> []"
    and okc: "pgdir_ok s cd" and dis: "dir_frames s pd \<inter> dir_frames s cd = {}"
  shows "\<And>g. g \<in> dir_frames s cd \<Longrightarrow> pmem t g = pmem s g" "pgdir_ok t cd" "dir_frames t cd = dir_frames s cd"
    "dir_frames t pd \<inter> dir_frames t cd = {}" "\<And>vb. PDX vb \<noteq> PDX UVPT \<Longrightarrow> va_pte t cd vb = va_pte s cd vb"
    "\<And>i. pde_present t cd i = pde_present s cd i" "set (free_pages t) \<subseteq> set (free_pages s)"
proof -
  note M = mapped_newD[OF m]
  have free: "set (free_pages s) \<inter> dir_frames s cd = {}" using okc by (auto simp: pgdir_ok_def dir_frames_def)
  have tab: "insert_table s pd va \<notin> dir_frames s cd"
    using insert_table_cases[OF room d] dis free by (auto split: if_splits)
  have pd: "pd \<notin> dir_frames s cd" using dis dir_frames_self by blast
  show same: "pmem t g = pmem s g" if "g \<in> dir_frames s cd" for g using M(12) tab pd that by metis
  have S: "pde_present t cd i = pde_present s cd i" "dir_frames t cd = dir_frames s cd"
    "PDX vb \<noteq> PDX UVPT \<Longrightarrow> va_pte t cd vb = va_pte s cd vb" for i vb
    by (rule same_dir; (rule same)?; assumption)+
  show "dir_frames t cd = dir_frames s cd" "pde_present t cd i = pde_present s cd i" for i using S(1)[of i] S(2) by simp_all
  show "va_pte t cd vb = va_pte s cd vb" if "PDX vb \<noteq> PDX UVPT" for vb by (rule S(3)[OF that])
  show sub: "set (free_pages t) \<subseteq> set (free_pages s)" using M(13) by (auto dest: set_tl)
  then show "pgdir_ok t cd" using same_dir_ok[OF okc same M(3)] free by blast
  show "dir_frames t pd \<inter> dir_frames t cd = {}" using M(15) dis tab S(2) by auto
qed

section \<open>A page from the allocator\<close>

lemma alloc_dir:
  assumes inv: "pages_inv s" and ok: "pgdir_ok s pd" and av: "free_pages s = p # ps"
  defines "a \<equiv> alloc_state ALLOC_ZERO p s"
  shows "pgdir_ok a pd" "leaf_ok a pd p" "dir_frames a pd = dir_frames s pd" "\<And>g. g \<noteq> p \<Longrightarrow> pmem a g = pmem s g"
    "\<And>vb. PDX vb \<noteq> PDX UVPT \<Longrightarrow> va_pte a pd vb = va_pte s pd vb" "\<And>i. pde_present a pd i = pde_present s pd i"
    "\<And>i. pmem a pd i = pmem s pd i"
proof -
  note A = page_alloc_Cons[OF inv av, of ALLOC_ZERO, folded a_def]
  have free: "set (free_pages s) \<inter> dir_frames s pd = {}" using ok by (auto simp: pgdir_ok_def dir_frames_def)
  then have p: "p \<notin> dir_frames s pd" using av by auto
  have d: "distinct (p # ps)" using pages_invD(4)[OF inv] av by simp
  show g: "pmem a g = pmem s g" if "g \<noteq> p" for g using that by (simp add: a_def fun_eq_iff)
  then have same: "pmem a g = pmem s g" if "g \<in> dir_frames s pd" for g using that p by metis
  have S: "pde_present a pd i = pde_present s pd i" "dir_frames a pd = dir_frames s pd"
    "PDX vb \<noteq> PDX UVPT \<Longrightarrow> va_pte a pd vb = va_pte s pd vb" for i vb
    by (rule same_dir; (rule same)?; assumption)+
  show "dir_frames a pd = dir_frames s pd" "pde_present a pd i = pde_present s pd i" for i using S(1)[of i] S(2) by simp_all
  show "va_pte a pd vb = va_pte s pd vb" if "PDX vb \<noteq> PDX UVPT" for vb by (rule S(3)[OF that])
  show "pmem a pd i = pmem s pd i" for i using same[OF dir_frames_self] by simp
  have n: "npages a = npages s" by (simp add: a_def)
  show "pgdir_ok a pd" by (rule same_dir_ok[OF ok same n]) (use A(3) av free in auto)
  show "leaf_ok a pd p" using p d A(3) S(2) n pages_invD(7)[OF inv, of p] av by (simp add: leaf_ok_frames)
qed

end
