(* ===== verification/Fd.thy ===== *)
theory Fd
  imports Ulib
begin

text \<open>
  File descriptors of the user library: \<open>lib/fd.c\<close>, and the devices over it that need no other
  environment, \<open>lib/pipe.c\<close> (setting up and tearing down; the transfer of bytes is in the theory \<open>Pipe\<close>)
  and \<open>lib/console.c\<close>.  A descriptor is a page of its own at \<open>FDTABLE\<close>, and the page tables say which are
  open.  The devices are records of functions, as in the code; \<open>devtab\<close> is an argument.  Messages about
  wrong descriptors are left out.
\<close>

section \<open>Memory of the program, byte by byte\<close>

fun uread :: "u32 \<Rightarrow> nat \<Rightarrow> kst \<Rightarrow> u8 list option" where
  "uread va 0 s = Some []"
| "uread va (Suc n) s =
     (if user_page s va then do { b \<leftarrow> load_byte s (cr3 s) va; bs \<leftarrow> uread (va + 1) n s; Some (b # bs) } else None)"

fun uwrite :: "u32 \<Rightarrow> u8 list \<Rightarrow> kst \<Rightarrow> kst option" where
  "uwrite va [] s = Some s"
| "uwrite va (b # bs) s =
     (if user_page s va then do { s \<leftarrow> store_byte (cr3 s) va b s; uwrite (va + 1) bs s } else None)"

definition ustore :: "u32 \<Rightarrow> u32 \<Rightarrow> kst \<Rightarrow> kst option" where
  "ustore va w s = uwrite va (word_bytes w) s"

definition ustrcpy :: "u32 \<Rightarrow> string \<Rightarrow> kst \<Rightarrow> kst option" where
  "ustrcpy va str s = uwrite va (map of_char str @ [0]) s"

section \<open>Descriptors and devices (inc/fd.h)\<close>

text \<open>The fields of \<open>struct Fd\<close> and of \<open>struct Stat\<close>, as offsets.\<close>

definition fd_dev_id_off :: u32 where "fd_dev_id_off = 0"
definition fd_offset_off :: u32 where "fd_offset_off = 4"
definition fd_omode_off :: u32 where "fd_omode_off = 8"
definition st_name_off :: u32 where "st_name_off = 0"
definition st_size_off :: u32 where "st_size_off = word_of_nat MAXNAMELEN"
definition st_isdir_off :: u32 where "st_isdir_off = st_size_off + 4"
definition st_dev_off :: u32 where "st_dev_off = st_size_off + 8"

record dev =
  dev_addr :: u32      \<comment> \<open>where the structure is\<close>
  dev_id :: u32
  dev_name :: string
  dev_read :: "(u32 \<Rightarrow> u32 \<Rightarrow> u32 \<Rightarrow> kst \<Rightarrow> (int \<times> kst) option) option"
  dev_write :: "(u32 \<Rightarrow> u32 \<Rightarrow> u32 \<Rightarrow> kst \<Rightarrow> (int \<times> kst) option) option"
  dev_close :: "(u32 \<Rightarrow> kst \<Rightarrow> (int \<times> kst) option) option"
  dev_stat :: "(u32 \<Rightarrow> u32 \<Rightarrow> kst \<Rightarrow> (int \<times> kst) option) option"
  dev_trunc :: "(u32 \<Rightarrow> u32 \<Rightarrow> kst \<Rightarrow> (int \<times> kst) option) option"

definition MAXFD :: nat where "MAXFD = 32"
definition FDTABLE :: u32 where "FDTABLE = 0xD0000000"
definition FILEDATA :: u32 where "FILEDATA = FDTABLE + word_of_nat MAXFD * PGSIZE"

definition INDEX2FD :: "int \<Rightarrow> u32" where
  "INDEX2FD i = FDTABLE + word_of_int i * PGSIZE"

definition INDEX2DATA :: "int \<Rightarrow> u32" where
  "INDEX2DATA i = FILEDATA + word_of_int i * PGSIZE"

section \<open>The descriptor table\<close>

definition fd2num :: "u32 \<Rightarrow> int" where
  "fd2num fd = sint ((fd - FDTABLE) div PGSIZE)"

definition fd2data :: "u32 \<Rightarrow> u32" where
  "fd2data fd = INDEX2DATA (fd2num fd)"

text \<open>\<open>(uvpd[PDX(va)] & PTE_P) && (uvpt[PGNUM(va)] & PTE_P)\<close>\<close>

definition umapped :: "u32 \<Rightarrow> kst \<Rightarrow> bool option" where
  "umapped va s = do {
     pde \<leftarrow> uvpd (PDX va) s;
     if pde AND PTE_P = 0 then Some False
     else do { pte \<leftarrow> uvpt (PGNUM va) s; Some (pte AND PTE_P \<noteq> 0) }
   }"

text \<open>The result and \<open>*fd_store\<close>.\<close>

fun fd_alloc_loop :: "nat list \<Rightarrow> kst \<Rightarrow> (int \<times> u32) option" where
  "fd_alloc_loop [] s = Some (- E_MAX_OPEN, 0)"
| "fd_alloc_loop (i # is) s = do {
     used \<leftarrow> umapped (INDEX2FD (int i)) s;
     if used then fd_alloc_loop is s else Some (0, INDEX2FD (int i))
   }"

definition fd_alloc :: "kst \<Rightarrow> (int \<times> u32) option" where
  "fd_alloc s = fd_alloc_loop [0..<MAXFD] s"

text \<open>The result, and what is stored if anything is.\<close>

definition fd_lookup :: "int \<Rightarrow> kst \<Rightarrow> (int \<times> u32 option) option" where
  "fd_lookup fdnum s =
     (if fdnum < 0 \<or> int MAXFD \<le> fdnum then Some (- E_INVAL, None)
      else do {
        used \<leftarrow> umapped (INDEX2FD fdnum) s;
        if used then Some (0, Some (INDEX2FD fdnum)) else Some (- E_INVAL, None)
      })"

definition dev_lookup :: "dev list \<Rightarrow> u32 \<Rightarrow> int \<times> dev option" where
  "dev_lookup devtab devid = (case List.find (\<lambda>d. dev_id d = devid) devtab of
      Some d \<Rightarrow> (0, Some d) | None \<Rightarrow> (- E_INVAL, None))"

definition fd_close :: "dev list \<Rightarrow> u32 \<Rightarrow> bool \<Rightarrow> kst \<Rightarrow> (int \<times> kst) option" where
  "fd_close devtab fd must_exist s = do {
     (r, fd2) \<leftarrow> fd_lookup (fd2num fd) s;
     if r < 0 \<or> fd2 \<noteq> Some fd then Some (if must_exist then r else 0, s)
     else do {
       devid \<leftarrow> uload (fd + fd_dev_id_off) s;
       (r, s) \<leftarrow> (case dev_lookup devtab devid of
           (r, None) \<Rightarrow> Some (r, s)
         | (_, Some d) \<Rightarrow> (case dev_close d of Some f \<Rightarrow> f fd s | None \<Rightarrow> Some (0, s)));
       (_, s) \<leftarrow> usys_page_unmap 0 fd s;
       Some (r, s)
     }
   }"

definition close :: "dev list \<Rightarrow> int \<Rightarrow> kst \<Rightarrow> (int \<times> kst) option" where
  "close devtab fdnum s = do {
     (r, fd) \<leftarrow> fd_lookup fdnum s;
     if r < 0 then Some (r, s) else do { fd \<leftarrow> fd; fd_close devtab fd True s }
   }"

definition close_all :: "dev list \<Rightarrow> kst \<Rightarrow> kst option" where
  "close_all devtab s = foldM (\<lambda>i s. do { (_, s) \<leftarrow> close devtab (int i) s; Some s }) [0..<MAXFD] s"

text \<open>The two mappings of \<open>dup\<close>; a negative result leads to its error exit.\<close>

definition dup_data :: "u32 \<Rightarrow> u32 \<Rightarrow> kst \<Rightarrow> (int \<times> kst) option" where
  "dup_data ova nva s = do {
     used \<leftarrow> umapped ova s;
     if used then do { pte \<leftarrow> uvpt (PGNUM ova) s; usys_page_map 0 ova 0 nva (pte AND PTE_SYSCALL) s }
     else Some (0, s)
   }"

definition dup_fd :: "u32 \<Rightarrow> u32 \<Rightarrow> kst \<Rightarrow> (int \<times> kst) option" where
  "dup_fd oldfd newfd s = do { pte \<leftarrow> uvpt (PGNUM oldfd) s; usys_page_map 0 oldfd 0 newfd (pte AND PTE_SYSCALL) s }"

definition dup :: "dev list \<Rightarrow> int \<Rightarrow> int \<Rightarrow> kst \<Rightarrow> (int \<times> kst) option" where
  "dup devtab oldfdnum newfdnum s = do {
     (r, oldfd) \<leftarrow> fd_lookup oldfdnum s;
     if r < 0 then Some (r, s)
     else do {
       oldfd \<leftarrow> oldfd;
       (_, s) \<leftarrow> close devtab newfdnum s;
       let newfd = INDEX2FD newfdnum;
       let nva = fd2data newfd;
       (r, s) \<leftarrow> dup_data (fd2data oldfd) nva s;
       (r, s) \<leftarrow> (if r < 0 then Some (r, s) else dup_fd oldfd newfd s);
       if r < 0 then do {
         (_, s) \<leftarrow> usys_page_unmap 0 newfd s;
         (_, s) \<leftarrow> usys_page_unmap 0 nva s;
         Some (r, s)
       }
       else Some (newfdnum, s)
     }
   }"

section \<open>Operations on descriptors\<close>

text \<open>How every operation starts: the descriptor and its device, or the error.\<close>

definition fd_dev :: "dev list \<Rightarrow> int \<Rightarrow> kst \<Rightarrow> (int + u32 \<times> dev) option" where
  "fd_dev devtab fdnum s = do {
     (r, fd) \<leftarrow> fd_lookup fdnum s;
     if r < 0 then Some (Inl r)
     else do {
       fd \<leftarrow> fd;
       devid \<leftarrow> uload (fd + fd_dev_id_off) s;
       (case dev_lookup devtab devid of (r, None) \<Rightarrow> Some (Inl r) | (_, Some d) \<Rightarrow> Some (Inr (fd, d)))
     }
   }"

definition read_fd :: "dev list \<Rightarrow> int \<Rightarrow> u32 \<Rightarrow> u32 \<Rightarrow> kst \<Rightarrow> (int \<times> kst) option" where
  "read_fd devtab fdnum buf n s = do {
     x \<leftarrow> fd_dev devtab fdnum s;
     (case x of Inl r \<Rightarrow> Some (r, s) | Inr (fd, d) \<Rightarrow> do {
        omode \<leftarrow> uload (fd + fd_omode_off) s;
        if omode AND O_ACCMODE = O_WRONLY then Some (- E_INVAL, s)
        else (case dev_read d of None \<Rightarrow> Some (- E_NOT_SUPP, s) | Some f \<Rightarrow> f fd buf n s)
      })
   }"

definition write_fd :: "dev list \<Rightarrow> int \<Rightarrow> u32 \<Rightarrow> u32 \<Rightarrow> kst \<Rightarrow> (int \<times> kst) option" where
  "write_fd devtab fdnum buf n s = do {
     x \<leftarrow> fd_dev devtab fdnum s;
     (case x of Inl r \<Rightarrow> Some (r, s) | Inr (fd, d) \<Rightarrow> do {
        omode \<leftarrow> uload (fd + fd_omode_off) s;
        if omode AND O_ACCMODE = O_RDONLY then Some (- E_INVAL, s)
        else (case dev_write d of None \<Rightarrow> Some (- E_NOT_SUPP, s) | Some f \<Rightarrow> f fd buf n s)
      })
   }"

text \<open>\<open>tot\<close> is an \<open>int\<close> that is compared as unsigned; \<open>rd\<close> is \<open>read(fdnum, ..)\<close>.\<close>

partial_function (option) readn_loop :: "(u32 \<Rightarrow> u32 \<Rightarrow> kst \<Rightarrow> (int \<times> kst) option) \<Rightarrow> u32 \<Rightarrow> u32 \<Rightarrow> u32 \<Rightarrow> kst \<Rightarrow> (int \<times> kst) option" where
  "readn_loop rd buf n tot s =
     (if tot < n then do {
        (m, s) \<leftarrow> rd (buf + tot) (n - tot) s;
        if m < 0 then Some (m, s)
        else if m = 0 then Some (sint tot, s)
        else readn_loop rd buf n (tot + word_of_int m) s
      }
      else Some (sint tot, s))"

definition readn :: "dev list \<Rightarrow> int \<Rightarrow> u32 \<Rightarrow> u32 \<Rightarrow> kst \<Rightarrow> (int \<times> kst) option" where
  "readn devtab fdnum buf n s = readn_loop (read_fd devtab fdnum) buf n 0 s"

definition seek :: "int \<Rightarrow> u32 \<Rightarrow> kst \<Rightarrow> (int \<times> kst) option" where
  "seek fdnum offset s = do {
     (r, fd) \<leftarrow> fd_lookup fdnum s;
     if r < 0 then Some (r, s)
     else do { fd \<leftarrow> fd; s \<leftarrow> ustore (fd + fd_offset_off) offset s; Some (0, s) }
   }"

definition ftruncate :: "dev list \<Rightarrow> int \<Rightarrow> u32 \<Rightarrow> kst \<Rightarrow> (int \<times> kst) option" where
  "ftruncate devtab fdnum newsize s = do {
     x \<leftarrow> fd_dev devtab fdnum s;
     (case x of Inl r \<Rightarrow> Some (r, s) | Inr (fd, d) \<Rightarrow> do {
        omode \<leftarrow> uload (fd + fd_omode_off) s;
        if omode AND O_ACCMODE = O_RDONLY then Some (- E_INVAL, s)
        else (case dev_trunc d of None \<Rightarrow> Some (- E_NOT_SUPP, s) | Some f \<Rightarrow> f fd newsize s)
      })
   }"

definition fstat :: "dev list \<Rightarrow> int \<Rightarrow> u32 \<Rightarrow> kst \<Rightarrow> (int \<times> kst) option" where
  "fstat devtab fdnum st s = do {
     x \<leftarrow> fd_dev devtab fdnum s;
     (case x of Inl r \<Rightarrow> Some (r, s) | Inr (fd, d) \<Rightarrow>
        (case dev_stat d of
           None \<Rightarrow> Some (- E_NOT_SUPP, s)
         | Some f \<Rightarrow> do {
             s \<leftarrow> uwrite (st + st_name_off) [0] s;
             s \<leftarrow> ustore (st + st_size_off) 0 s;
             s \<leftarrow> ustore (st + st_isdir_off) 0 s;
             s \<leftarrow> ustore (st + st_dev_off) (dev_addr d) s;
             f fd st s
           }))
   }"

text \<open>\<open>op\<close> is \<open>open\<close> of \<open>lib/file.c\<close>.\<close>

definition stat :: "(u32 \<Rightarrow> u32 \<Rightarrow> kst \<Rightarrow> (int \<times> kst) option) \<Rightarrow> dev list \<Rightarrow> u32 \<Rightarrow> u32 \<Rightarrow> kst \<Rightarrow> (int \<times> kst) option" where
  "stat op devtab path st s = do {
     (fd, s) \<leftarrow> op path O_RDONLY s;
     if fd < 0 then Some (fd, s)
     else do {
       (r, s) \<leftarrow> fstat devtab fd st s;
       (_, s) \<leftarrow> close devtab fd s;
       Some (r, s)
     }
   }"

section \<open>Setting up a pipe (lib/pipe.c)\<close>

definition SHARED :: u32 where "SHARED = PTE_P OR PTE_W OR PTE_U OR PTE_SHARE"

definition devpipe_id :: u32 where "devpipe_id = of_char CHR ''p''"

text \<open>A page for a fresh descriptor: the result, and the descriptor that was chosen.\<close>

definition fd_page :: "kst \<Rightarrow> (int \<times> u32 \<times> kst) option" where
  "fd_page s = do {
     (r, fd) \<leftarrow> fd_alloc s;
     if r < 0 then Some (r, fd, s)
     else do { (r, s) \<leftarrow> usys_page_alloc 0 fd SHARED s; Some (r, fd, s) }
   }"

text \<open>The descriptors of the two ends on success; the exits undo what was done.\<close>

definition pipe :: "kst \<Rightarrow> (int \<times> (int \<times> int) \<times> kst) option" where
  "pipe s = do {
     (r, fd0, s) \<leftarrow> fd_page s;
     if r < 0 then Some (r, (0, 0), s)
     else do {
       (r, fd1, s) \<leftarrow> fd_page s;
       if r < 0 then do { (_, s) \<leftarrow> usys_page_unmap 0 fd0 s; Some (r, (0, 0), s) }
       else do {
         let va = fd2data fd0;
         (r, s) \<leftarrow> usys_page_alloc 0 va SHARED s;
         if r < 0 then do {
           (_, s) \<leftarrow> usys_page_unmap 0 fd1 s;
           (_, s) \<leftarrow> usys_page_unmap 0 fd0 s;
           Some (r, (0, 0), s)
         }
         else do {
           (r, s) \<leftarrow> usys_page_map 0 va 0 (fd2data fd1) SHARED s;
           if r < 0 then do {
             (_, s) \<leftarrow> usys_page_unmap 0 va s;
             (_, s) \<leftarrow> usys_page_unmap 0 fd1 s;
             (_, s) \<leftarrow> usys_page_unmap 0 fd0 s;
             Some (r, (0, 0), s)
           }
           else do {
             s \<leftarrow> ustore (fd0 + fd_dev_id_off) devpipe_id s;
             s \<leftarrow> ustore (fd0 + fd_omode_off) O_RDONLY s;
             s \<leftarrow> ustore (fd1 + fd_dev_id_off) devpipe_id s;
             s \<leftarrow> ustore (fd1 + fd_omode_off) O_WRONLY s;
             Some (0, (fd2num fd0, fd2num fd1), s)
           }
         }
       }
     }
   }"

text \<open>Nobody else runs between the two reads of \<open>env_runs\<close> here, so the loop ends in its first round.\<close>

definition pipe_closed :: "u32 \<Rightarrow> u32 \<Rightarrow> kst \<Rightarrow> bool option" where
  "pipe_closed fd p s = do { a \<leftarrow> pageref fd s; b \<leftarrow> pageref p s; Some (a = b) }"

definition pipeisclosed :: "int \<Rightarrow> kst \<Rightarrow> int option" where
  "pipeisclosed fdnum s = do {
     (r, fd) \<leftarrow> fd_lookup fdnum s;
     if r < 0 then Some r
     else do { fd \<leftarrow> fd; c \<leftarrow> pipe_closed fd (fd2data fd) s; Some (of_bool c) }
   }"

definition devpipe_stat :: "u32 \<Rightarrow> u32 \<Rightarrow> u32 \<Rightarrow> kst \<Rightarrow> (int \<times> kst) option" where
  "devpipe_stat devpipe fd st s = do {
     let p = fd2data fd;
     s \<leftarrow> ustrcpy (st + st_name_off) ''<pipe>'' s;
     rpos \<leftarrow> uload p s;
     wpos \<leftarrow> uload (p + 4) s;
     s \<leftarrow> ustore (st + st_size_off) (wpos - rpos) s;
     s \<leftarrow> ustore (st + st_isdir_off) 0 s;
     s \<leftarrow> ustore (st + st_dev_off) devpipe s;
     Some (0, s)
   }"

definition devpipe_close :: "u32 \<Rightarrow> kst \<Rightarrow> (int \<times> kst) option" where
  "devpipe_close fd s = do {
     (_, s) \<leftarrow> usys_page_unmap 0 fd s;
     usys_page_unmap 0 (fd2data fd) s
   }"

section \<open>The console as a device (lib/console.c)\<close>

definition devcons_id :: u32 where "devcons_id = of_char CHR ''c''"

text \<open>The address of the local variable that the character is passed in is an argument.\<close>

definition lib_cputchar :: "u32 \<Rightarrow> u32 \<Rightarrow> kst \<Rightarrow> kst option" where
  "lib_cputchar c_va ch s = do {
     s \<leftarrow> uwrite c_va [ucast ch] s;
     (_, s) \<leftarrow> usys_cputs c_va 1 s;
     Some s
   }"

definition getchar :: "dev list \<Rightarrow> u32 \<Rightarrow> kst \<Rightarrow> (int \<times> kst) option" where
  "getchar devtab c_va s = do {
     (r, s) \<leftarrow> read_fd devtab 0 c_va 1 s;
     if r < 0 then Some (r, s)
     else if r < 1 then Some (- E_EOF, s)
     else do { c \<leftarrow> uread c_va 1 s; Some (uint (hd c), s) }
   }"

definition iscons :: "int \<Rightarrow> kst \<Rightarrow> int option" where
  "iscons fdnum s = do {
     (r, fd) \<leftarrow> fd_lookup fdnum s;
     if r < 0 then Some r
     else do { fd \<leftarrow> fd; devid \<leftarrow> uload (fd + fd_dev_id_off) s; Some (of_bool (devid = devcons_id)) }
   }"

definition opencons :: "kst \<Rightarrow> (int \<times> kst) option" where
  "opencons s = do {
     (r, fd, s) \<leftarrow> fd_page s;
     if r < 0 then Some (r, s)
     else do {
       s \<leftarrow> ustore (fd + fd_dev_id_off) devcons_id s;
       s \<leftarrow> ustore (fd + fd_omode_off) O_RDWR s;
       Some (fd2num fd, s)
     }
   }"

text \<open>Without a character it yields, which is outside this view.\<close>

definition devcons_read :: "u32 \<Rightarrow> u32 \<Rightarrow> u32 \<Rightarrow> kst \<Rightarrow> (int \<times> kst) option" where
  "devcons_read fd vbuf n s =
     (if n = 0 then Some (0, s)
      else do {
        (c, s) \<leftarrow> usys_cgetc s;
        if c = 0 then None
        else if c < 0 then Some (c, s)
        else if c = 0x04 then Some (0, s)
        else do { s \<leftarrow> uwrite vbuf [word_of_int c] s; Some (1, s) }
      })"

text \<open>Chunks of 127 through the local buffer at \<open>lbuf\<close>.\<close>

definition cons_chunk :: "u32 \<Rightarrow> u32 \<Rightarrow> u32" where
  "cons_chunk n tot = (if n - tot > 127 then 127 else n - tot)"

function devcons_write_loop :: "u32 \<Rightarrow> u32 \<Rightarrow> u32 \<Rightarrow> u32 \<Rightarrow> kst \<Rightarrow> (int \<times> kst) option" where
  "devcons_write_loop lbuf vbuf n tot s =
     (if tot < n then do {
        let m = cons_chunk n tot;
        bs \<leftarrow> uread (vbuf + tot) (unat m) s;
        s \<leftarrow> uwrite lbuf bs s;
        (_, s) \<leftarrow> usys_cputs lbuf m s;
        devcons_write_loop lbuf vbuf n (tot + m) s
      }
      else Some (sint tot, s))"
  by pat_completeness auto

lemma cons_chunk_step:
  assumes "tot < n"
  shows "unat n - unat (tot + cons_chunk n tot) < unat n - unat tot"
proof -
  have d: "unat (n - tot) = unat n - unat tot" using assms by (simp add: unat_sub less_imp_le)
  have lt: "unat tot < unat n" using assms by (simp add: word_less_nat_alt)
  have c: "unat (cons_chunk n tot) = min 127 (unat n - unat tot)"
    using d by (simp add: cons_chunk_def word_less_nat_alt)
  have "unat (tot + cons_chunk n tot) = unat tot + min 127 (unat n - unat tot)"
    using c lt unsigned_less[of n, where 'a = nat] by (subst unat_word_ariths) simp
  then show ?thesis using lt by simp
qed

termination devcons_write_loop
  by (relation "measure (\<lambda>(lbuf, vbuf, n, tot, s). unat n - unat tot)") (use cons_chunk_step in auto)

definition devcons_write :: "u32 \<Rightarrow> u32 \<Rightarrow> u32 \<Rightarrow> u32 \<Rightarrow> kst \<Rightarrow> (int \<times> kst) option" where
  "devcons_write lbuf fd vbuf n s = devcons_write_loop lbuf vbuf n 0 s"

definition devcons_close :: "u32 \<Rightarrow> kst \<Rightarrow> (int \<times> kst) option" where
  "devcons_close fd s = Some (0, s)"

definition devcons_stat :: "u32 \<Rightarrow> u32 \<Rightarrow> kst \<Rightarrow> (int \<times> kst) option" where
  "devcons_stat fd st s = do { s \<leftarrow> ustrcpy (st + st_name_off) ''<cons>'' s; Some (0, s) }"

text \<open>The two devices; \<open>lbuf\<close> is on the stack.\<close>

definition devpipe :: "u32 \<Rightarrow> (u32 \<Rightarrow> u32 \<Rightarrow> u32 \<Rightarrow> kst \<Rightarrow> (int \<times> kst) option) \<Rightarrow> (u32 \<Rightarrow> u32 \<Rightarrow> u32 \<Rightarrow> kst \<Rightarrow> (int \<times> kst) option) \<Rightarrow> dev" where
  "devpipe a devpipe_read devpipe_write = \<lparr>dev_addr = a, dev_id = devpipe_id, dev_name = ''pipe'', dev_read = Some devpipe_read,
     dev_write = Some devpipe_write, dev_close = Some devpipe_close, dev_stat = Some (devpipe_stat a),
     dev_trunc = None\<rparr>"

definition devcons :: "u32 \<Rightarrow> u32 \<Rightarrow> dev" where
  "devcons a lbuf = \<lparr>dev_addr = a, dev_id = devcons_id, dev_name = ''cons'', dev_read = Some devcons_read,
     dev_write = Some (devcons_write lbuf), dev_close = Some devcons_close, dev_stat = Some devcons_stat,
     dev_trunc = None\<rparr>"

end
