(* ===== verification/Spawn.thy ===== *)
theory Spawn
  imports Fd EnvTab
begin

text \<open>
  Spawning a program from a file, \<open>lib/spawn.c\<close>.  \<open>open\<close> sends a message to the file server, which leaves
  this environment; it is the argument \<open>op\<close> here (the theory \<open>FsClient\<close> models it together with the
  server), and the reads of the file go through the device table as in \<open>Fd\<close>.  The local variables that the
  kernel or \<open>readn\<close> works on, \<open>elf_buf\<close> and \<open>child_tf\<close>, are at the addresses \<open>elf_va\<close> and \<open>tf_va\<close>.  Panics
  and failed assertions are \<open>None\<close>.
\<close>

section \<open>The stack page of the child\<close>

definition UTEMP2USTACK :: "u32 \<Rightarrow> u32" where
  "UTEMP2USTACK addr = addr + (USTACKTOP - PGSIZE) - UTEMP"

text \<open>A string and a null-terminated array of strings in the program's memory.\<close>

partial_function (option) ustring :: "u32 \<Rightarrow> kst \<Rightarrow> u8 list option" where
  "ustring va s =
     (if user_page s va then do {
        b \<leftarrow> load_byte s (cr3 s) va;
        if b = 0 then Some [] else do { bs \<leftarrow> ustring (va + 1) s; Some (b # bs) }
      }
      else None)"

partial_function (option) uargv :: "u32 \<Rightarrow> kst \<Rightarrow> u8 list list option" where
  "uargv argv s = do {
     p \<leftarrow> uload argv s;
     if p = 0 then Some []
     else do { a \<leftarrow> ustring p s; as \<leftarrow> uargv (argv + 4) s; Some (a # as) }
   }"

text \<open>\<open>string_store\<close> and \<open>argv_store\<close>.\<close>

definition string_size :: "u8 list list \<Rightarrow> u32" where
  "string_size args = sum_list (map (\<lambda>a. word_of_nat (length a) + 1) args)"

definition string_start :: "u8 list list \<Rightarrow> u32" where
  "string_start args = UTEMP + PGSIZE - string_size args"

definition argv_start :: "u8 list list \<Rightarrow> u32" where
  "argv_start args = ROUNDDOWN (string_start args) 4 - 4 * (word_of_nat (length args) + 1)"

text \<open>The loop that stores the pointers and the strings.\<close>

fun store_args :: "u32 \<Rightarrow> u32 \<Rightarrow> u8 list list \<Rightarrow> kst \<Rightarrow> (u32 \<times> kst) option" where
  "store_args argv_store string_store [] s = Some (string_store, s)"
| "store_args argv_store string_store (a # as) s = do {
     s \<leftarrow> ustore argv_store (UTEMP2USTACK string_store) s;
     s \<leftarrow> uwrite string_store (a @ [0]) s;
     store_args (argv_store + 4) (string_store + word_of_nat (length a) + 1) as s
   }"

text \<open>What is written into the page at \<open>UTEMP\<close>, and the initial stack pointer.\<close>

definition fill_stack :: "u8 list list \<Rightarrow> kst \<Rightarrow> (u32 \<times> kst) option" where
  "fill_stack args s = do {
     let argv_store = argv_start args;
     (string_store, s) \<leftarrow> store_args argv_store (string_start args) args s;
     s \<leftarrow> ustore (argv_store + 4 * word_of_nat (length args)) 0 s;
     if string_store \<noteq> UTEMP + PGSIZE then None
     else do {
       s \<leftarrow> ustore (argv_store - 4) (UTEMP2USTACK argv_store) s;
       s \<leftarrow> ustore (argv_store - 8) (word_of_nat (length args)) s;
       Some (UTEMP2USTACK (argv_store - 8), s)
     }
   }"

text \<open>The result, \<open>*init_esp\<close> and the state.  The arguments are read again after the allocation at \<open>UTEMP\<close>.\<close>

definition init_stack :: "u32 \<Rightarrow> u32 \<Rightarrow> u32 \<Rightarrow> kst \<Rightarrow> (int \<times> u32 \<times> kst) option" where
  "init_stack child argv esp s = do {
     args \<leftarrow> uargv argv s;
     if argv_start args - 8 < UTEMP then Some (- E_NO_MEM, esp, s)
     else do {
       (r, s) \<leftarrow> usys_page_alloc 0 UTEMP (PTE_P OR PTE_U OR PTE_W) s;
       if r < 0 then Some (r, esp, s)
       else do {
         args \<leftarrow> uargv argv s;
         (esp, s) \<leftarrow> fill_stack args s;
         (r, s) \<leftarrow> usys_page_map 0 UTEMP child (USTACKTOP - PGSIZE) (PTE_P OR PTE_U OR PTE_W) s;
         (r, s) \<leftarrow> (if r < 0 then Some (r, s) else usys_page_unmap 0 UTEMP s);
         if r < 0 then do { (_, s) \<leftarrow> usys_page_unmap 0 UTEMP s; Some (r, esp, s) }
         else Some (0, esp, s)
       }
     }
   }"

section \<open>The segments of the program\<close>

definition ELF_PROG_FLAG_WRITE :: u32 where "ELF_PROG_FLAG_WRITE = 2"

text \<open>One page of a segment, at offset \<open>i\<close>; a negative result ends the loop.\<close>

definition map_segment_page :: "dev list \<Rightarrow> u32 \<Rightarrow> u32 \<Rightarrow> int \<Rightarrow> u32 \<Rightarrow> u32 \<Rightarrow> u32 \<Rightarrow> u32 \<Rightarrow> kst \<Rightarrow> (int \<times> kst) option" where
  "map_segment_page devtab child va fd filesz fileoffset perm i s =
     (if filesz \<le> i then usys_page_alloc child (va + i) perm s
      else do {
        (r, s) \<leftarrow> usys_page_alloc 0 UTEMP (PTE_P OR PTE_U OR PTE_W) s;
        if r < 0 then Some (r, s)
        else do {
          (r, s) \<leftarrow> seek fd (fileoffset + i) s;
          if r < 0 then Some (r, s)
          else do {
            (r, s) \<leftarrow> readn devtab fd UTEMP (min PGSIZE (filesz - i)) s;
            if r < 0 then Some (r, s)
            else do {
              (r, s) \<leftarrow> usys_page_map 0 UTEMP child (va + i) perm s;
              if r < 0 then None
              else do { (_, s) \<leftarrow> usys_page_unmap 0 UTEMP s; Some (0, s) }
            }
          }
        }
      })"

partial_function (option) map_segment_loop :: "(u32 \<Rightarrow> kst \<Rightarrow> (int \<times> kst) option) \<Rightarrow> u32 \<Rightarrow> u32 \<Rightarrow> kst \<Rightarrow> (int \<times> kst) option" where
  "map_segment_loop page memsz i s =
     (if i < memsz then do {
        (r, s) \<leftarrow> page i s;
        if r < 0 then Some (r, s) else map_segment_loop page memsz (i + PGSIZE) s
      }
      else Some (0, s))"

definition map_segment :: "dev list \<Rightarrow> u32 \<Rightarrow> u32 \<Rightarrow> u32 \<Rightarrow> int \<Rightarrow> u32 \<Rightarrow> u32 \<Rightarrow> u32 \<Rightarrow> kst \<Rightarrow> (int \<times> kst) option" where
  "map_segment devtab child va memsz fd filesz fileoffset perm s =
     (let i = PGOFF va
      in map_segment_loop (map_segment_page devtab child (va - i) fd (filesz + i) (fileoffset - i) perm) (memsz + i) 0 s)"

section \<open>Shared pages\<close>

definition copy_shared_page :: "u32 \<Rightarrow> nat \<Rightarrow> nat \<Rightarrow> kst \<Rightarrow> (int \<times> kst) option" where
  "copy_shared_page child i j s =
     (let va = PGADDR i j 0 in do {
        pte \<leftarrow> uvpt (PGNUM va) s;
        if pte AND PTE_SHARE \<noteq> 0 \<and> pte AND PTE_P \<noteq> 0
        then usys_page_map 0 va child va (pte AND PTE_SYSCALL) s
        else Some (0, s)
      })"

fun copy_shared_table :: "u32 \<Rightarrow> nat \<Rightarrow> nat list \<Rightarrow> kst \<Rightarrow> (int \<times> kst) option" where
  "copy_shared_table child i [] s = Some (0, s)"
| "copy_shared_table child i (j # js) s = do {
     (r, s) \<leftarrow> copy_shared_page child i j s;
     if r < 0 then Some (r, s) else copy_shared_table child i js s
   }"

fun copy_shared_tables :: "u32 \<Rightarrow> nat list \<Rightarrow> kst \<Rightarrow> (int \<times> kst) option" where
  "copy_shared_tables child [] s = Some (0, s)"
| "copy_shared_tables child (i # is) s = do {
     pde \<leftarrow> uvpd i s;
     (r, s) \<leftarrow> (if pde AND PTE_P = 0 then Some (0, s) else copy_shared_table child i [0..<1024] s);
     if r < 0 then Some (r, s) else copy_shared_tables child is s
   }"

definition copy_shared_pages :: "u32 \<Rightarrow> kst \<Rightarrow> (int \<times> kst) option" where
  "copy_shared_pages child s = copy_shared_tables child [0..<PDX USTACKTOP] s"

section \<open>Spawn\<close>

text \<open>The words of a \<open>struct Trapframe\<close>, whose padding is zero.\<close>

definition words_of_tf :: "trapframe \<Rightarrow> u32 list" where
  "words_of_tf tf = (let g = tf_regs tf in
     [reg_edi g, reg_esi g, reg_ebp g, reg_oesp g, reg_ebx g, reg_edx g, reg_ecx g, reg_eax g,
      ucast (tf_es tf), ucast (tf_ds tf), tf_trapno tf, tf_err tf, tf_eip tf, ucast (tf_cs tf),
      tf_eflags tf, tf_esp tf, ucast (tf_ss tf)])"

text \<open>The loop over the program headers, which lie in \<open>elf_buf\<close>; a negative result goes to \<open>error\<close>.\<close>

fun spawn_segments :: "dev list \<Rightarrow> u32 \<Rightarrow> int \<Rightarrow> u8 list \<Rightarrow> nat \<Rightarrow> nat list \<Rightarrow> kst \<Rightarrow> (int \<times> kst) option" where
  "spawn_segments devtab child fd elf_buf phoff [] s = Some (0, s)"
| "spawn_segments devtab child fd elf_buf phoff (k # ks) s = do {
     ph \<leftarrow> read_Proghdr elf_buf (phoff + 32 * k);
     if p_type ph \<noteq> ELF_PROG_LOAD then spawn_segments devtab child fd elf_buf phoff ks s
     else do {
       let perm = (if p_flags ph AND ELF_PROG_FLAG_WRITE \<noteq> 0 then PTE_P OR PTE_U OR PTE_W else PTE_P OR PTE_U);
       (r, s) \<leftarrow> map_segment devtab child (p_va ph) (p_memsz ph) fd (p_filesz ph) (p_offset ph) perm s;
       if r < 0 then Some (r, s) else spawn_segments devtab child fd elf_buf phoff ks s
     }
   }"

text \<open>From the point where the segments are in place.\<close>

definition spawn_start :: "u32 \<Rightarrow> u32 \<Rightarrow> trapframe \<Rightarrow> kst \<Rightarrow> (int \<times> kst) option" where
  "spawn_start child tf_va child_tf s = do {
     s \<leftarrow> (do { (r, s) \<leftarrow> copy_shared_pages child s; if r < 0 then None else Some s });
     let child_tf = child_tf\<lparr>tf_eflags := tf_eflags child_tf OR FL_IOPL_3\<rparr>;
     s \<leftarrow> uwrite tf_va (concat (map word_bytes (words_of_tf child_tf))) s;
     (r, s) \<leftarrow> usys_env_set_trapframe child tf_va s;
     if r < 0 then None
     else do {
       (r, s) \<leftarrow> usys_env_set_status child (status_num ENV_RUNNABLE) s;
       if r < 0 then None else Some (sint child, s)
     }
   }"

definition spawn :: "(u32 \<Rightarrow> u32 \<Rightarrow> kst \<Rightarrow> (int \<times> kst) option) \<Rightarrow> dev list \<Rightarrow> u32 \<Rightarrow> u32 \<Rightarrow> u32 \<Rightarrow> u32 \<Rightarrow> kst \<Rightarrow> (int \<times> kst) option" where
  "spawn op devtab elf_va tf_va prog argv s = do {
     (fd, s) \<leftarrow> op prog O_RDONLY s;
     if fd < 0 then Some (fd, s)
     else do {
       (r, s) \<leftarrow> readn devtab fd elf_va 512 s;
       elf_buf \<leftarrow> uread elf_va 512 s;
       elf \<leftarrow> read_Elf elf_buf;
       if r \<noteq> 512 \<or> e_magic elf \<noteq> ELF_MAGIC
       then do { (_, s) \<leftarrow> close devtab fd s; Some (- E_NOT_EXEC, s) }
       else do {
         (r, s) \<leftarrow> usys_exofork s;
         if r < 0 then Some (r, s)
         else do {
           let child = word_of_int r;
           e \<leftarrow> env_at s (ENVX child);
           let child_tf = (env_tf e)\<lparr>tf_eip := e_entry elf\<rparr>;
           (r, esp, s) \<leftarrow> init_stack child argv (tf_esp child_tf) s;
           if r < 0 then Some (r, s)
           else do {
             (r, s) \<leftarrow> spawn_segments devtab child fd elf_buf (unat (e_phoff elf)) [0..<unat (e_phnum elf)] s;
             if r < 0 then do {
               (_, s) \<leftarrow> usys_env_destroy child s;
               (_, s) \<leftarrow> close devtab fd s;
               Some (r, s)
             }
             else do {
               (_, s) \<leftarrow> close devtab fd s;
               spawn_start child tf_va (child_tf\<lparr>tf_esp := esp\<rparr>) s
             }
           }
         }
       }
     }
   }"

end
