(* ===== verification/Fork.thy ===== *)
theory Fork
  imports Ulib
begin

text \<open>
  Copy-on-write fork in the user library, \<open>lib/fork.c\<close>.  Parent and child share a page with \<open>PTE_COW\<close> in
  place of \<open>PTE_W\<close>; the page fault handler \<open>pgfault\<close> gives the one that writes a copy of its own.  Every
  panic is \<open>None\<close>.
\<close>

definition PTE_COW :: u32 where "PTE_COW = 0x800"
definition FEC_PR :: u32 where "FEC_PR = 1"
definition FEC_WR :: u32 where "FEC_WR = 2"

text \<open>A system call whose failure is a panic.\<close>

definition must :: "(int \<times> kst) option \<Rightarrow> kst option" where
  "must m = do { (r, s) \<leftarrow> m; if r < 0 then None else Some s }"

definition pgfault :: "u32 \<Rightarrow> u32 \<Rightarrow> kst \<Rightarrow> kst option" where
  "pgfault addr err s = do {
     pte \<leftarrow> uvpt (PGNUM addr) s;
     if err AND FEC_PR = 0 then None
     else if err AND FEC_WR = 0 then None
     else if pte AND PTE_COW = 0 then None
     else do {
       s \<leftarrow> must (usys_page_alloc 0 PFTEMP (PTE_U OR PTE_W OR PTE_P) s);
       s \<leftarrow> upage_copy PFTEMP (ROUNDDOWN addr PGSIZE) s;
       s \<leftarrow> must (usys_page_map 0 PFTEMP 0 (ROUNDDOWN addr PGSIZE) (PTE_P OR PTE_U OR PTE_W) s);
       must (usys_page_unmap 0 PFTEMP s)
     }
   }"

definition duppage :: "u32 \<Rightarrow> nat \<Rightarrow> kst \<Rightarrow> (int \<times> kst) option" where
  "duppage eid pn s =
     (let va = word_of_nat pn * PGSIZE in do {
        pte \<leftarrow> uvpt pn s;
        if pte AND PTE_SHARE \<noteq> 0 then do {
          s \<leftarrow> must (usys_page_map 0 va eid va (pte AND PTE_SYSCALL) s);
          Some (0, s)
        }
        else if pte AND PTE_COW \<noteq> 0 \<or> pte AND PTE_W \<noteq> 0 then do {
          s \<leftarrow> must (usys_page_map 0 va eid va (PTE_COW OR PTE_P OR PTE_U) s);
          s \<leftarrow> must (usys_page_map 0 va 0 va (PTE_COW OR PTE_P OR PTE_U) s);
          Some (0, s)
        }
        else do {
          s \<leftarrow> must (usys_page_map 0 va eid va (PTE_P OR PTE_U) s);
          Some (0, s)
        }
      })"

definition dup_or_share :: "u32 \<Rightarrow> u32 \<Rightarrow> u32 \<Rightarrow> kst \<Rightarrow> kst option" where
  "dup_or_share dstenv va perm s =
     (if perm AND PTE_W \<noteq> 0 then do {
        s \<leftarrow> must (usys_page_alloc dstenv va perm s);
        s \<leftarrow> must (usys_page_map dstenv va 0 UTEMP perm s);
        s \<leftarrow> upage_copy UTEMP va s;
        must (usys_page_unmap 0 UTEMP s)
      }
      else must (usys_page_map 0 va dstenv va perm s))"

text \<open>One round of \<open>fork_v0\<close>, which copies every writable page at once.\<close>

definition fork_v0_page :: "u32 \<Rightarrow> nat \<Rightarrow> kst \<Rightarrow> kst option" where
  "fork_v0_page eid pn s =
     (let va = word_of_nat pn * PGSIZE in do {
        pde \<leftarrow> uvpd (PDX va) s;
        if pde AND PTE_P = 0 then Some s
        else do {
          pte \<leftarrow> uvpt (PGNUM va) s;
          if pte AND PTE_P = 0 then Some s
          else do {
            pte \<leftarrow> uvpt (PGNUM va) s;
            dup_or_share eid va (PGOFF pte AND PTE_SYSCALL) s
          }
        }
      })"

text \<open>The result, the globals and the kernel; the child of \<open>sys_exofork\<close> comes back with 0.\<close>

definition fork_v0 :: "ulib \<times> kst \<Rightarrow> (int \<times> ulib \<times> kst) option" where
  "fork_v0 us = (case us of (u, s) \<Rightarrow> do {
     (eid, s) \<leftarrow> usys_exofork s;
     if eid < 0 then None
     else if eid = 0 then do { us \<leftarrow> find_this_env (u, s); Some (0, us) }
     else do {
       s \<leftarrow> foldM (fork_v0_page (word_of_int eid)) [0..<PGNUM UTOP] s;
       s \<leftarrow> must (usys_env_set_status (word_of_int eid) (status_num ENV_RUNNABLE) s);
       Some (eid, u, s)
     }
   })"

text \<open>The pages of one page table, and the tables below \<open>UTOP\<close>.\<close>

definition fork_page :: "u32 \<Rightarrow> nat \<Rightarrow> nat \<Rightarrow> kst \<Rightarrow> kst option" where
  "fork_page eid i j s =
     (let addr = PGADDR i j 0 in
      if addr = UXSTACKTOP - PGSIZE then Some s
      else do {
        pte \<leftarrow> uvpt (PGNUM addr) s;
        if pte AND PTE_P \<noteq> 0 then do { (_, s) \<leftarrow> duppage eid (PGNUM addr) s; Some s } else Some s
      })"

definition fork_table :: "u32 \<Rightarrow> nat \<Rightarrow> kst \<Rightarrow> kst option" where
  "fork_table eid i s = do {
     pde \<leftarrow> uvpd i s;
     if pde AND PTE_P = 0 then Some s else foldM (fork_page eid i) [0..<1024] s
   }"

definition fork :: "u32 \<Rightarrow> u32 \<Rightarrow> ulib \<times> kst \<Rightarrow> (int \<times> ulib \<times> kst) option" where
  "fork upcall pgfault_fn us = do {
     (u, s) \<leftarrow> set_pgfault_handler upcall pgfault_fn us;
     (eid, s) \<leftarrow> usys_exofork s;
     if eid < 0 then None
     else if eid = 0 then do { us \<leftarrow> find_this_env (u, s); Some (0, us) }
     else do {
       s \<leftarrow> foldM (fork_table (word_of_int eid)) [0..<PDX UTOP] s;
       s \<leftarrow> must (usys_page_alloc (word_of_int eid) (UXSTACKTOP - PGSIZE) (PTE_W OR PTE_U OR PTE_P) s);
       this \<leftarrow> env_at s (thisenv u);
       s \<leftarrow> must (usys_env_set_pgfault_upcall (word_of_int eid) (env_pgfault_upcall this) s);
       (r, s) \<leftarrow> usys_env_set_status (word_of_int eid) (status_num ENV_RUNNABLE) s;
       if r < 0 then Some (r, u, s) else Some (eid, u, s)
     }
   }"

definition sfork :: "kst \<Rightarrow> (int \<times> kst) option" where
  "sfork s = None"

end
