(* ===== verification/EnvIds.thy ===== *)
theory EnvIds
  imports EnvTab
begin

text \<open>
  The identifiers that \<open>env_alloc\<close> gives out.  An identifier is \<open>4096 * g + i\<close> for the slot \<open>i\<close>
  and a generation \<open>g\<close> from 1 to \<open>2^19 - 1\<close>; the generations of a slot go round.
\<close>

definition mk_id :: "nat \<Rightarrow> nat \<Rightarrow> envid" where
  "mk_id g i = word_of_nat (4096 * g + i)"

definition next_gen :: "nat \<Rightarrow> nat" where
  "next_gen g = (if g = 524287 then 1 else g + 1)"

lemma unat_mk_id: "g < 524288 \<Longrightarrow> i < 1024 \<Longrightarrow> unat (mk_id g i) = 4096 * g + i"
  unfolding mk_id_def unat_of_nat take_bit_eq_mod by simp

lemma mk_id_inject:
  assumes "g < 524288" "h < 524288" "i < 1024" "j < 1024"
  shows "mk_id g i = mk_id h j \<longleftrightarrow> g = h \<and> i = j"
proof
  assume "mk_id g i = mk_id h j"
  then have e: "4096 * g + i = 4096 * h + j" using assms by (metis unat_mk_id)
  then have "(4096 * g + i) div 4096 = (4096 * h + j) div 4096" by simp
  then have "g = h" using assms by simp
  then show "g = h \<and> i = j" using e by simp
qed simp

lemma and_not_1023: "unat (x AND NOT (1023 :: u32)) = unat x - unat x mod 1024"
proof -
  have m: "x AND 1023 = take_bit 10 x" by (simp add: take_bit_eq_mask mask_eq_decr_exp)
  have "NOT x AND (x AND 1023) = 0" by (simp flip: and.assoc)
  then have "x - (x AND 1023) = x AND NOT (x AND 1023)" by (rule disjunctive_diff_eq_and_not)
  then have "x AND NOT 1023 = x - (x AND 1023)" by (simp add: bit.conj_disj_distrib)
  moreover have "x AND 1023 \<le> x" unfolding m by (simp add: word_le_nat_alt take_bit_eq_mod unat_mod)
  ultimately show ?thesis by (simp add: unat_sub m take_bit_eq_mod unat_mod)
qed

lemma ENVX_arith: "ENVX eid = unat eid mod 1024"
proof -
  have "eid AND 1023 = take_bit 10 eid" by (simp add: take_bit_eq_mask mask_eq_decr_exp)
  then show ?thesis by (simp add: ENVX_def take_bit_eq_mod unat_mod)
qed

lemma ENVX_mk_id:
  assumes "g < 524288" and "i < 1024"
  shows "ENVX (mk_id g i) = i"
proof -
  have "4096 * g + i = i + 1024 * (4 * g)" by simp
  then have "(4096 * g + i) mod 1024 = i" using assms(2) by (simp only: mod_mult_self2) simp
  then show ?thesis using assms by (simp add: ENVX_arith unat_mk_id)
qed

lemma next_env_id_mk:
  assumes g: "g < 524288" and i: "i < 1024" and j: "j < 1024"
  shows "next_env_id (mk_id g j) i = mk_id (next_gen g) i"
proof -
  let ?o = "mk_id g j + push_bit ENVGENSHIFT 1" and ?m = "NOT (1024 - 1) :: u32"
  have u: "unat ?o = 4096 * (g + 1) + j" using g j
    by (simp add: ENVGENSHIFT_def unat_word_ariths unat_mk_id push_bit_eq_mult)
  have "4096 * (g + 1) + j = j + 1024 * (4 * (g + 1))" by simp
  then have "unat ?o mod 1024 = j" using j unfolding u by (simp only: mod_mult_self2) simp
  then have a: "unat (?o AND ?m) = 4096 * (g + 1)" using and_not_1023[of ?o] u by simp
  have "?o AND ?m \<le>s 0 \<longleftrightarrow> g = 524287"
    using g a by (auto simp: word_sle_eq sint_cases)
  then have gen: "(if ?o AND ?m \<le>s 0 then push_bit ENVGENSHIFT 1 else ?o AND ?m) = mk_id (next_gen g) 0"
    using g a by (auto simp: word_unat_eq_iff unat_mk_id next_gen_def ENVGENSHIFT_def push_bit_eq_mult
        unat_word_ariths)
  have ng: "next_gen g < 524288" using g by (auto simp: next_gen_def)
  have "mk_id (next_gen g) 0 AND word_of_nat i = 0"
  proof (rule bit_word_eqI)
    fix n assume "n < LENGTH(32)"
    have e: "mk_id (next_gen g) 0 = word_of_nat (push_bit 12 (next_gen g))"
      by (simp add: mk_id_def push_bit_eq_mult mult.commute)
    show "bit (mk_id (next_gen g) 0 AND word_of_nat i) n = bit (0 :: u32) n"
    proof (cases "n < 12")
      case True
      then show ?thesis unfolding e bit_and_iff bit_of_nat_iff bit_push_bit_iff by simp
    next
      case False
      then have "(1024 :: nat) \<le> 2 ^ n" using power_increasing[of 10 n "2 :: nat"] by simp
      then have "i < 2 ^ n" using i by linarith
      then have "\<not> bit i n" by (simp add: bit_iff_odd)
      then show ?thesis by (simp add: bit_and_iff bit_of_nat_iff)
    qed
  qed
  then have "mk_id (next_gen g) 0 OR word_of_nat i = mk_id (next_gen g) 0 + word_of_nat i"
    by (rule disjunctive_add_eq_or [symmetric])
  also have "\<dots> = mk_id (next_gen g) i" by (simp add: mk_id_def)
  finally show ?thesis unfolding next_env_id_def Let_def gen .
qed

text \<open>The identifiers of one slot, from the cleared table on.\<close>

fun slot_id :: "nat \<Rightarrow> nat \<Rightarrow> envid" where
  "slot_id i 0 = 0"
| "slot_id i (Suc k) = next_env_id (slot_id i k) i"

lemma slot_id_Suc: "i < 1024 \<Longrightarrow> slot_id i (Suc k) = mk_id (k mod 524287 + 1) i"
proof (induction k)
  case 0
  have "(0 :: u32) = mk_id 0 0" by (simp add: mk_id_def)
  then show ?case using next_env_id_mk[of 0 i 0] 0 by (simp add: next_gen_def)
next
  case (Suc k)
  have "k mod 524287 + 1 < 524288" using mod_less_divisor[of 524287 k] by linarith
  moreover have "Suc k mod 524287 + 1 = next_gen (k mod 524287 + 1)"
    by (simp add: next_gen_def mod_Suc)
  ultimately show ?case using next_env_id_mk Suc by simp
qed

lemma next_gen_range: "g < 524288 \<Longrightarrow> 0 < next_gen g \<and> next_gen g < 524288"
  by (auto simp: next_gen_def)

lemma next_gen_neq: "0 < g \<Longrightarrow> next_gen g \<noteq> g"
  by (auto simp: next_gen_def)

lemma mk_id_pos: "0 < g \<Longrightarrow> g < 524288 \<Longrightarrow> i < 1024 \<Longrightarrow> mk_id g i \<noteq> 0 \<and> 0 < sint (mk_id g i)"
  by (auto simp: sint_cases unat_mk_id word_unat_eq_iff)

end
