(* ===== verification/EnvInv.thy ===== *)
theory EnvInv
  imports EnvFrame EnvIds
begin

text \<open>
  The invariant of the environment table and its preservation by the functions of \<open>kern/env.c\<close>
  and \<open>kern/sched.c\<close>: the free list threads exactly the entries with status \<open>ENV_FREE\<close>, the
  identifier of slot \<open>i\<close> is 0 or of the form \<open>4096 * g + i\<close>, and an environment that is not free
  has an identifier and a page directory.
\<close>

definition free_envs :: "kst \<Rightarrow> nat list" where
  "free_envs s = walk env_link (envs s) (length (envs s)) (env_free_list s)"

definition env_entry_ok :: "nat \<Rightarrow> env \<Rightarrow> bool" where
  "env_entry_ok i e \<longleftrightarrow>
     (env_id e = 0 \<or> (\<exists>g. 0 < g \<and> g < 524288 \<and> env_id e = mk_id g i))
     \<and> (env_status e \<noteq> ENV_FREE \<longrightarrow> env_id e \<noteq> 0 \<and> env_pgdir e \<noteq> None)"

definition envs_core :: "kst \<Rightarrow> bool" where
  "envs_core s \<longleftrightarrow>
     length (envs s) = NENV
     \<and> chain env_link (envs s) (env_free_list s) (free_envs s)
     \<and> distinct (free_envs s)
     \<and> (\<forall>i < NENV. i \<in> set (free_envs s) \<longleftrightarrow> env_status (envs s ! i) = ENV_FREE)
     \<and> (\<forall>i < NENV. env_entry_ok i (envs s ! i))"

definition cur_ok :: "kst \<Rightarrow> bool" where
  "cur_ok s \<longleftrightarrow> (\<forall>c. curenv s = Some c \<longrightarrow> c < NENV \<and> env_status (envs s ! c) \<noteq> ENV_FREE)"

definition envs_inv :: "kst \<Rightarrow> bool" where
  "envs_inv s \<longleftrightarrow> envs_core s \<and> cur_ok s"

lemma envs_coreI:
  assumes "length (envs s) = NENV" "chain env_link (envs s) (env_free_list s) xs" "distinct xs"
    "\<And>i. i < NENV \<Longrightarrow> i \<in> set xs \<longleftrightarrow> env_status (envs s ! i) = ENV_FREE"
    "\<And>i. i < NENV \<Longrightarrow> env_entry_ok i (envs s ! i)"
  shows "envs_core s" and "free_envs s = xs"
proof -
  show f: "free_envs s = xs" using walk_chain_distinct[OF assms(2,3)] by (simp add: free_envs_def)
  show "envs_core s" unfolding envs_core_def f using assms by blast
qed

lemma envs_coreD:
  assumes "envs_core s"
  shows "length (envs s) = NENV" "chain env_link (envs s) (env_free_list s) (free_envs s)"
    "distinct (free_envs s)"
    "\<And>i. i < NENV \<Longrightarrow> i \<in> set (free_envs s) \<longleftrightarrow> env_status (envs s ! i) = ENV_FREE"
    "\<And>i. i < NENV \<Longrightarrow> env_entry_ok i (envs s ! i)"
    "\<And>i. i \<in> set (free_envs s) \<Longrightarrow> i < NENV"
  using assms by (auto simp: envs_core_def dest: chain_bounds)

lemma envs_core_cong:
  assumes "envs t = envs s" "env_free_list t = env_free_list s"
  shows "envs_core t = envs_core s" "free_envs t = free_envs s"
  using assms by (simp_all add: envs_core_def free_envs_def)

lemma envs_inv_frame:
  assumes "same_envs t s"
  shows "envs_inv t = envs_inv s"
  unfolding envs_inv_def cur_ok_def envs_core_cong(1)[OF same_envsD(1,2)[OF assms]]
    same_envsD(1,3)[OF assms] ..

lemma envs_inv_other [simp]:
  "envs_inv (s\<lparr>cr3 := x\<rparr>) = envs_inv s" "envs_inv (s\<lparr>klock := k\<rparr>) = envs_inv s"
  "envs_inv (s\<lparr>cpu_status := cst\<rparr>) = envs_inv s" "envs_inv (s\<lparr>con := cs\<rparr>) = envs_inv s"
  by (simp_all add: envs_inv_def cur_ok_def envs_core_def free_envs_def)

lemma envs_core_other [simp]:
  "envs_core (s\<lparr>cr3 := x\<rparr>) = envs_core s" "envs_core (s\<lparr>klock := k\<rparr>) = envs_core s"
  "envs_core (s\<lparr>cpu_status := cst\<rparr>) = envs_core s" "envs_core (s\<lparr>curenv := c\<rparr>) = envs_core s"
  by (simp_all add: envs_core_def free_envs_def)

text \<open>An update of an entry that keeps its link, its place in the free list and its identity.\<close>

lemma envs_core_set_env:
  assumes inv: "envs_core s" and l: "env_link e = env_link (envs s ! i)"
    and st: "env_status e = ENV_FREE \<longleftrightarrow> env_status (envs s ! i) = ENV_FREE"
    and id: "env_id e = env_id (envs s ! i)" "env_pgdir e = env_pgdir (envs s ! i)"
  shows "envs_core (set_env i e s)" and "free_envs (set_env i e s) = free_envs s"
proof -
  note D = envs_coreD[OF inv]
  have ch: "chain env_link (envs (set_env i e s)) (env_free_list (set_env i e s)) (free_envs s)"
    using D(2) l by (auto intro: chain_update_same)
  have ok: "env_entry_ok i e" if "i < NENV"
    using D(5)[OF that] st id by (auto simp: env_entry_ok_def)
  have len: "length (envs (set_env i e s)) = NENV" using D(1) by simp
  have mem: "k \<in> set (free_envs s) \<longleftrightarrow> env_status (envs (set_env i e s) ! k) = ENV_FREE" if "k < NENV" for k
    using D(4)[OF that] st by (simp add: nth_update_if)
  have all: "env_entry_ok k (envs (set_env i e s) ! k)" if "k < NENV" for k
    using D(5)[OF that] ok that by (auto simp: nth_update_if)
  show "envs_core (set_env i e s)" by (rule envs_coreI(1)[OF len ch D(3) mem all])
  show "free_envs (set_env i e s) = free_envs s" by (rule envs_coreI(2)[OF len ch D(3) mem all])
qed

lemma envs_inv_set_env:
  assumes "envs_inv s" and "env_link e = env_link (envs s ! i)"
    and "env_status e = ENV_FREE \<longleftrightarrow> env_status (envs s ! i) = ENV_FREE"
    and "env_id e = env_id (envs s ! i)" "env_pgdir e = env_pgdir (envs s ! i)"
  shows "envs_inv (set_env i e s)"
  using envs_core_set_env(1)[of s e i] assms
  by (auto simp: envs_inv_def cur_ok_def nth_update_if)

lemma env_at_core: "envs_core s \<Longrightarrow> env_at s i = (if i < NENV then Some (envs s ! i) else None)"
  by (simp add: env_at_def envs_coreD(1))

lemma upd_env_inv:
  assumes "upd_env i f s = Some t" and "envs_inv s"
    and "\<And>e. env_link (f e) = env_link e" "\<And>e. env_id (f e) = env_id e"
    and "\<And>e. env_pgdir (f e) = env_pgdir e"
    and "env_status (f (envs s ! i)) = ENV_FREE \<longleftrightarrow> env_status (envs s ! i) = ENV_FREE"
  shows "envs_inv t"
  using assms by (auto simp: upd_env_def bind_eq_Some_conv env_at_def intro!: envs_inv_set_env split: if_splits)

section \<open>Initialisation\<close>

lemma env_init_fold:
  "length (envs s) = NENV \<Longrightarrow> m \<le> NENV \<Longrightarrow>
   length (envs (fold env_init_step [0..<m] s)) = NENV
   \<and> (\<forall>i < NENV. envs (fold env_init_step [0..<m] s) ! i =
       (if i < m then (envs s ! i)\<lparr>env_id := 0, env_status := ENV_FREE, env_link := Some (i + 1)\<rparr>
        else envs s ! i))"
  by (induction m) (auto simp: env_init_step_def nth_update_if)

text \<open>The links \<open>i, i + 1, ..\<close> make a list.\<close>

lemma chain_upt:
  assumes "j \<le> length xs" "\<And>k. i \<le> k \<Longrightarrow> k < j \<Longrightarrow> lnk (xs ! k) = (if k + 1 < j then Some (k + 1) else None)"
  shows "i < j \<Longrightarrow> chain lnk xs (Some i) [i..<j]"
  using assms
proof (induction "j - i" arbitrary: i)
  case (Suc n)
  have [simp]: "[i..<j] = i # [Suc i..<j]" using Suc.prems(1) by (rule upt_conv_Cons)
  show ?case
  proof (cases "Suc i < j")
    case True
    have "chain lnk xs (Some (Suc i)) [Suc i..<j]"
      by (rule Suc.hyps(1)) (use Suc True in auto)
    then show ?thesis using Suc.prems(1,2) Suc.prems(3)[of i] True by simp
  next
    case False
    then show ?thesis using Suc.prems(1,2) Suc.prems(3)[of i] by simp
  qed
qed simp

lemma env_init_envs:
  assumes len: "length (envs s) = NENV" and zero: "\<forall>i < NENV. envs s ! i = zero_env"
  shows "envs_core (env_init s)" and "free_envs (env_init s) = [0..<NENV]"
    and "\<forall>i < NENV. env_id (envs (env_init s) ! i) = 0"
proof -
  let ?f = "fold env_init_step [0..<NENV - 1] s"
  have f: "length (envs ?f) = NENV"
    "\<forall>i < NENV. envs ?f ! i = (if i < NENV - 1
        then zero_env\<lparr>env_id := 0, env_status := ENV_FREE, env_link := Some (i + 1)\<rparr> else zero_env)"
    using env_init_fold[OF len, of "NENV - 1"] zero by auto
  have lenI: "length (envs (env_init s)) = NENV" using f(1) by (simp add: env_init_def Let_def)
  have nth: "envs (env_init s) ! i =
      zero_env\<lparr>env_link := (if i + 1 < NENV then Some (i + 1) else None)\<rparr>" if "i < NENV" for i
    using f that by (auto simp: env_init_def Let_def nth_update_if zero_env_def)
  have ch: "chain env_link (envs (env_init s)) (env_free_list (env_init s)) [0..<NENV]"
    using chain_upt[of NENV "envs (env_init s)" 0 env_link] nth lenI
    by (simp add: NENV_def) (simp add: env_init_def Let_def)
  have st: "i \<in> set [0..<NENV] \<longleftrightarrow> env_status (envs (env_init s) ! i) = ENV_FREE" if "i < NENV" for i
    using nth[OF that] that by (simp add: zero_env_def)
  have ok: "env_entry_ok i (envs (env_init s) ! i)" if "i < NENV" for i
    using nth[OF that] by (simp add: zero_env_def env_entry_ok_def)
  show "envs_core (env_init s)" by (rule envs_coreI(1)[OF lenI ch distinct_upt st ok])
  show "free_envs (env_init s) = [0..<NENV]" by (rule envs_coreI(2)[OF lenI ch distinct_upt st ok])
  show "\<forall>i < NENV. env_id (envs (env_init s) ! i) = 0" using nth by (simp add: zero_env_def)
qed

section \<open>Allocation\<close>

lemma env_setup_vm_result:
  assumes "env_setup_vm i s = Some (r, t)"
  shows "(r = - E_NO_MEM \<and> same_envs t s) \<or>
    (r = 0 \<and> (\<exists>pd e. env_at s i = Some e \<and> same_envs t (set_env i (e\<lparr>env_pgdir := Some pd\<rparr>) s)))"
proof -
  from assms obtain p s1 where p: "page_alloc ALLOC_ZERO s = Some (p, s1)"
    by (auto simp: env_setup_vm_def bind_eq_Some_conv)
  note f = page_alloc_frame[OF p]
  show ?thesis
  proof (cases p)
    case None
    then show ?thesis using assms p f by (simp add: env_setup_vm_def)
  next
    case (Some q)
    with assms p obtain s2 pd e where
      s2: "page_incref q s1 = Some s2" "env_at s2 i = Some e" "r = 0"
        "t = write_pte (pd, PDX UVPT) (page2pa pd OR PTE_P OR PTE_U)
               (copy_frame pd (kern_pgdir (set_env i (e\<lparr>env_pgdir := Some pd\<rparr>) s2))
                 (set_env i (e\<lparr>env_pgdir := Some pd\<rparr>) s2))"
      by (auto simp: env_setup_vm_def bind_eq_Some_conv Let_def)
    have fr: "same_envs s2 s" using page_incref_frame[OF s2(1)] f by simp
    then have "same_envs t (set_env i (e\<lparr>env_pgdir := Some pd\<rparr>) s)"
      unfolding s2(4) env_part_updates by (rule same_envs_set_env)
    then show ?thesis using s2(2,3) same_envsD(12)[OF fr, of i] by auto
  qed
qed

lemma env_alloc_result:
  assumes a: "env_alloc par s = Some ((r, eo), t)" and inv: "envs_core s"
  shows "(r < 0 \<and> eo = None \<and> (r = - E_NO_FREE_ENV \<and> free_envs s = [] \<or> r = - E_NO_MEM)
            \<and> same_envs t s) \<or>
    (r = 0 \<and> (\<exists>i is pd. eo = Some i \<and> free_envs s = i # is
        \<and> envs t = (envs s)[i := fresh_env i par ((envs s ! i)\<lparr>env_pgdir := Some pd\<rparr>)]
        \<and> env_free_list t = env_link (envs s ! i) \<and> ctl_part t = ctl_part s))"
proof (cases "env_free_list s")
  case None
  then show ?thesis using a envs_coreD(2)[OF inv]
    by (cases "free_envs s") (auto simp: env_alloc_def chain_Cons err_consts)
next
  case (Some i)
  then obtain "is" where av: "free_envs s = i # is"
    using envs_coreD(2)[OF inv] by (cases "free_envs s") (auto simp: chain_Cons)
  then have i: "i < NENV" using envs_coreD(6)[OF inv] by simp
  from a Some obtain r1 s1 where v: "env_setup_vm i s = Some (r1, s1)"
    by (auto simp: env_alloc_def bind_eq_Some_conv)
  from env_setup_vm_result[OF v] show ?thesis
  proof
    assume "r1 = - E_NO_MEM \<and> same_envs s1 s"
    then show ?thesis using a Some v by (auto simp: env_alloc_def err_consts)
  next
    assume "r1 = 0 \<and> (\<exists>pd e. env_at s i = Some e
        \<and> same_envs s1 (set_env i (e\<lparr>env_pgdir := Some pd\<rparr>) s))"
    then obtain pd where r1: "r1 = 0"
      and fr: "same_envs s1 (set_env i ((envs s ! i)\<lparr>env_pgdir := Some pd\<rparr>) s)"
      using i by (auto simp: env_at_core[OF inv])
    have at: "env_at s1 i = Some ((envs s ! i)\<lparr>env_pgdir := Some pd\<rparr>)"
      using same_envsD(1)[OF fr] i envs_coreD(1)[OF inv] by (simp add: env_at_def)
    then show ?thesis using a Some v r1 av same_envsD(1)[OF fr] same_envs_ctl[OF fr]
      by (auto simp: env_alloc_def fresh_env_def)
  qed
qed

lemma env_alloc_core:
  assumes a: "env_alloc par s = Some ((0, Some i), t)" and inv: "envs_core s"
  shows "envs_core t" and "free_envs s = i # free_envs t" and "i < NENV"
    and "env_status (envs t ! i) = ENV_RUNNABLE" and "env_id (envs t ! i) = next_env_id (env_id (envs s ! i)) i"
    and "ctl_part t = ctl_part s" and "\<forall>j. j \<noteq> i \<longrightarrow> envs t ! j = envs s ! j"
    and "env_tf (envs t ! i) = fresh_tf" and "env_parent_id (envs t ! i) = par"
proof -
  note D = envs_coreD[OF inv]
  from env_alloc_result[OF a inv] obtain "is" pd where
    fe: "free_envs s = i # is"
    and e: "envs t = (envs s)[i := fresh_env i par ((envs s ! i)\<lparr>env_pgdir := Some pd\<rparr>)]"
    and fl: "env_free_list t = env_link (envs s ! i)" and c: "ctl_part t = ctl_part s" by auto
  show i: "i < NENV" using D(6) fe by simp
  have nt: "envs t ! j = (if j = i then fresh_env i par ((envs s ! i)\<lparr>env_pgdir := Some pd\<rparr>) else envs s ! j)" for j
    using e i D(1) by (simp add: nth_update_if)
  have id0: "\<exists>g j. g < 524288 \<and> j < 1024 \<and> env_id (envs s ! i) = mk_id g j"
  proof -
    have "env_id (envs s ! i) = 0 \<or> (\<exists>g. 0 < g \<and> g < 524288 \<and> env_id (envs s ! i) = mk_id g i)"
      using D(5)[OF i] by (simp add: env_entry_ok_def)
    then show ?thesis
    proof
      assume "env_id (envs s ! i) = 0"
      then have "env_id (envs s ! i) = mk_id 0 0" by (simp add: mk_id_def)
      then show ?thesis using zero_less_numeral by blast
    next
      assume "\<exists>g. 0 < g \<and> g < 524288 \<and> env_id (envs s ! i) = mk_id g i"
      then show ?thesis using i by (auto simp: NENV_def)
    qed
  qed
  then obtain g j where g: "g < 524288" "j < 1024" "env_id (envs s ! i) = mk_id g j" by blast
  have nid: "next_env_id (env_id (envs s ! i)) i = mk_id (next_gen g) i"
    using next_env_id_mk[OF g(1) _ g(2)] i g(3) by (simp add: NENV_def)
  have gr: "0 < next_gen g" "next_gen g < 524288" using next_gen_range[OF g(1)] by auto
  have len: "length (envs t) = NENV" using e D(1) by simp
  have ch: "chain env_link (envs t) (env_free_list t) is"
    using D(2,3) fe fl e by (auto simp: chain_Cons intro: chain_update_other)
  have d: "distinct is" "i \<notin> set is" using D(3) fe by auto
  have st: "k \<in> set is \<longleftrightarrow> env_status (envs t ! k) = ENV_FREE" if "k < NENV" for k
    using D(4)[OF that] fe d by (auto simp: nt fresh_env_def)
  have ok: "env_entry_ok k (envs t ! k)" if "k < NENV" for k
    using D(5)[OF that] gr nid mk_id_pos[OF gr, of i] i
    by (auto simp: nt fresh_env_def env_entry_ok_def NENV_def)
  show "envs_core t" by (rule envs_coreI(1)[OF len ch d(1) st ok])
  show "free_envs s = i # free_envs t" using envs_coreI(2)[OF len ch d(1) st ok] fe by simp
  show "env_status (envs t ! i) = ENV_RUNNABLE" "env_tf (envs t ! i) = fresh_tf"
    "env_parent_id (envs t ! i) = par" "\<forall>j. j \<noteq> i \<longrightarrow> envs t ! j = envs s ! j"
    "env_id (envs t ! i) = next_env_id (env_id (envs s ! i)) i" by (simp_all add: nt fresh_env_def)
  show "ctl_part t = ctl_part s" by (rule c)
qed

text \<open>With a free slot and a free page the allocation succeeds.\<close>

lemma env_alloc_succeeds:
  assumes inv: "envs_core s" "pages_inv s" and av: "free_envs s = i # is" "free_pages s = p # ps"
  shows "\<exists>t. env_alloc par s = Some ((0, Some i), t)"
proof -
  note P = page_alloc_Cons[OF inv(2) av(2), of ALLOC_ZERO]
  have fl: "env_free_list s = Some i" and i: "i < NENV"
    using envs_coreD(2,6)[OF inv(1)] av(1) by (auto simp: chain_Cons)
  have p: "p < npages s" "npages s \<le> 2 ^ 20" using pages_invD(2,7)[OF inv(2)] av(2) by auto
  let ?u = "set_page p ((pages (alloc_state ALLOC_ZERO p s) ! p)\<lparr>pp_ref := pp_ref (pages (alloc_state ALLOC_ZERO p s) ! p) + 1\<rparr>) (alloc_state ALLOC_ZERO p s)"
  have u: "page_incref p (alloc_state ALLOC_ZERO p s) = Some ?u" by (rule page_incref_eq[OF P(2)]) (simp add: p)
  have k: "page2kva ?u p = Some p" by (rule page2kva_in) (use p in simp_all)
  have len: "length (envs s) = NENV" by (rule envs_coreD(1)[OF inv(1)])
  have at: "env_at ?u i = Some (envs s ! i)" using i len by (simp add: env_at_def)
  obtain v where v: "env_setup_vm i s = Some (0, v)"
    using P(1) u k at by (auto simp: env_setup_vm_def Let_def)
  from env_setup_vm_result[OF v] obtain pd e where
    "same_envs v (set_env i (e\<lparr>env_pgdir := Some pd\<rparr>) s)" by (auto simp: err_consts)
  then have "env_at v i \<noteq> None" using i len by (auto simp: env_at_def dest: same_envsD(1))
  then show ?thesis using fl v by (auto simp: env_alloc_def)
qed

section \<open>Freeing and destroying\<close>

lemma env_free_core:
  assumes a: "env_free i s = Some t" and inv: "envs_core s" and st0: "env_status (envs s ! i) \<noteq> ENV_FREE"
  shows "envs_core t" and "free_envs t = i # free_envs s" and "i < NENV"
    and "env_status (envs t ! i) = ENV_FREE" and "env_id (envs t ! i) = env_id (envs s ! i)"
    and "ctl_part t = ctl_part s" and "\<forall>j. j \<noteq> i \<longrightarrow> envs t ! j = envs s ! j"
    and "cr3 t = (if curenv s = Some i then kern_pgdir s else cr3 s)"
proof -
  let ?s = "if Some i = curenv s then s\<lparr>cr3 := kern_pgdir s\<rparr> else s"
  note D = envs_coreD[OF inv]
  have es: "envs ?s = envs s" "env_free_list ?s = env_free_list s" "ctl_part ?s = ctl_part s" by simp_all
  from a obtain ent0 pd s1 ent1 pp s2 ent2 where
    w: "env_at ?s i = Some ent0" "env_pgdir ent0 = Some pd"
      "foldM (env_free_pde pd) [0..<PDX UTOP] ?s = Some s1" "env_at s1 i = Some ent1"
      "page_decref pp (set_env i (ent1\<lparr>env_pgdir := None\<rparr>) s1) = Some s2" "env_at s2 i = Some ent2"
      "t = (set_env i (ent2\<lparr>env_status := ENV_FREE, env_link := env_free_list s2\<rparr>) s2)\<lparr>env_free_list := Some i\<rparr>"
    by (auto simp: env_free_def Let_def bind_eq_Some_conv)
  have f1: "same_envs s1 ?s" by (rule env_free_loop_frame[OF w(3)])
  have f2: "same_envs s2 (set_env i (ent1\<lparr>env_pgdir := None\<rparr>) s1)" by (rule page_decref_frame[OF w(5)])
  show i: "i < NENV" using w(1) D(1) es(1) by (simp add: env_at_def split: if_splits)
  have e1: "ent1 = envs s ! i" using w(4) same_envsD(1)[OF f1] es(1) by (simp add: env_at_def split: if_splits)
  have e2: "envs s2 = (envs s)[i := (envs s ! i)\<lparr>env_pgdir := None\<rparr>]"
    using same_envsD(1)[OF f2] same_envsD(1)[OF f1] es(1) e1 by simp
  have e2': "ent2 = (envs s ! i)\<lparr>env_pgdir := None\<rparr>"
    using w(6) e2 i D(1) by (simp add: env_at_def split: if_splits)
  have fl: "env_free_list s2 = env_free_list s"
    using same_envsD(2)[OF f2] same_envsD(2)[OF f1] es(2) by simp
  define e' where "e' = (envs s ! i)\<lparr>env_pgdir := None, env_status := ENV_FREE, env_link := env_free_list s\<rparr>"
  have et: "envs t = (envs s)[i := e']" using w(7) e2 e2' fl by (simp add: e'_def)
  have nt: "envs t ! j = (if j = i then e' else envs s ! j)" for j
    using et i D(1) by (simp add: nth_update_if)
  have ni: "i \<notin> set (free_envs s)" using D(4)[OF i] st0 by simp
  have len: "length (envs t) = NENV" using et D(1) by simp
  have ch: "chain env_link (envs t) (env_free_list t) (i # free_envs s)"
    using D(1,2) ni w(7) i et by (auto simp: chain_Cons e'_def intro: chain_update_other)
  have d: "distinct (i # free_envs s)" using D(3) ni by simp
  have st: "k \<in> set (i # free_envs s) \<longleftrightarrow> env_status (envs t ! k) = ENV_FREE" if "k < NENV" for k
    using D(4)[OF that] by (auto simp: nt e'_def)
  have ok: "env_entry_ok k (envs t ! k)" if "k < NENV" for k
    using D(5)[OF that] by (auto simp: nt e'_def env_entry_ok_def)
  show "envs_core t" by (rule envs_coreI(1)[OF len ch d st ok])
  show "free_envs t = i # free_envs s" by (rule envs_coreI(2)[OF len ch d st ok])
  show "env_status (envs t ! i) = ENV_FREE" "env_id (envs t ! i) = env_id (envs s ! i)"
    "\<forall>j. j \<noteq> i \<longrightarrow> envs t ! j = envs s ! j" by (simp_all add: nt e'_def)
  show "ctl_part t = ctl_part s"
    using same_envs_ctl[OF f1] same_envs_ctl[OF f2] es(3) w(7) by simp
  show "cr3 t = (if curenv s = Some i then kern_pgdir s else cr3 s)"
    using same_envsD(9)[OF f2] same_envsD(9)[OF f1] w(7) by auto
qed


end
