(* ===== verification/SchedInv.thy ===== *)
theory SchedInv
  imports EnvInv
begin

text \<open>
  The scheduler: which environment \<open>sched_yield\<close> chooses, the state in which it leaves the
  kernel, and how long an environment that stays runnable can wait.
\<close>

section \<open>Leaving the kernel\<close>

text \<open>
  The state in which a processor leaves the kernel: it has released the lock, it runs the
  environment that \<open>curenv\<close> names in that environment's address space, or it runs none and is
  halted.
\<close>

definition leave_ok :: "leave \<Rightarrow> kst \<Rightarrow> bool" where
  "leave_ok how s = (case how of
     RunEnv e \<Rightarrow> curenv s = Some e \<and> e < NENV \<and> env_status (envs s ! e) = ENV_RUNNING
       \<and> env_pgdir (envs s ! e) = Some (cr3 s) \<and> klock s = None
   | Halted \<Rightarrow> curenv s = None \<and> klock s = None \<and> cr3 s = kern_pgdir s
       \<and> cpu_status s (this_cpu s) = CPU_HALTED
   | InMonitor \<Rightarrow> True)"

lemma cur_ok_None [simp]: "cur_ok (s\<lparr>curenv := None\<rparr>)"
  by (simp add: cur_ok_def)

text \<open>Giving up the processor: the first step of \<open>env_run\<close>.\<close>

definition yield_cur :: "kst \<Rightarrow> kst" where
  "yield_cur s = (case curenv s of None \<Rightarrow> s
     | Some c \<Rightarrow> if env_status (envs s ! c) = ENV_RUNNING
                 then set_env c ((envs s ! c)\<lparr>env_status := ENV_RUNNABLE\<rparr>) s else s)"

definition run_state :: "nat \<Rightarrow> nat \<Rightarrow> kst \<Rightarrow> kst" where
  "run_state e pd s =
     (let s = (yield_cur s)\<lparr>curenv := Some e\<rparr>;
          s = set_env e ((envs s ! e)\<lparr>env_status := ENV_RUNNING, env_runs := env_runs (envs s ! e) + 1\<rparr>) s;
          s = s\<lparr>cr3 := pd, klock := None\<rparr>
      in set_env e ((envs s ! e)\<lparr>env_cpunum := this_cpu s\<rparr>) s)"

lemma yield_cur_simps [simp]:
  "length (envs (yield_cur s)) = length (envs s)" "this_cpu (yield_cur s) = this_cpu s"
  "klock (yield_cur s) = klock s" "kern_pgdir (yield_cur s) = kern_pgdir s"
  "env_pgdir (envs (yield_cur s) ! i) = env_pgdir (envs s ! i)"
  "env_tf (envs (yield_cur s) ! i) = env_tf (envs s ! i)"
  "env_id (envs (yield_cur s) ! i) = env_id (envs s ! i)"
  "curenv (yield_cur s) = curenv s"
  by (auto simp: yield_cur_def nth_update_if split: option.splits)

lemma env_run_result:
  assumes inv: "envs_inv s" and e: "e < NENV" and pd: "env_pgdir (envs s ! e) = Some pd"
  shows "env_run e s = (if klock s = Some (this_cpu s) then Some (RunEnv e, run_state e pd s) else None)"
proof -
  have len: "length (envs s) = NENV" using inv envs_coreD(1) by (simp add: envs_inv_def)
  have c: "c < NENV" if "curenv s = Some c" for c using inv that by (simp add: envs_inv_def cur_ok_def)
  let ?y = "yield_cur s"
  have y: "(case curenv s of None \<Rightarrow> Some s
          | Some c \<Rightarrow> do {
              ce \<leftarrow> env_at s c;
              Some (if env_status ce = ENV_RUNNING then set_env c (ce\<lparr>env_status := ENV_RUNNABLE\<rparr>) s
                    else s)
            }) = Some ?y"
    using c len by (auto simp: yield_cur_def env_at_def split: option.splits)
  have pd': "env_pgdir (envs ?y ! e) = Some pd" using pd by simp
  have "env_at (?y\<lparr>curenv := Some e\<rparr>) e = Some (envs ?y ! e)" using e len by (simp add: env_at_def)
  then show ?thesis using pd' e len
    unfolding env_run_def y
    by (simp add: unlock_kernel_def env_pop_tf_def run_state_def Let_def env_at_def)
qed

lemma yield_cur_core: "envs_core s \<Longrightarrow> envs_core (yield_cur s)"
  by (auto simp: yield_cur_def split: option.splits intro!: envs_core_set_env(1))

lemma yield_cur_status:
  "i < NENV \<Longrightarrow> length (envs s) = NENV \<Longrightarrow>
   env_status (envs (yield_cur s) ! i) =
     (if curenv s = Some i \<and> env_status (envs s ! i) = ENV_RUNNING then ENV_RUNNABLE else env_status (envs s ! i))"
  by (auto simp: yield_cur_def nth_update_if split: option.splits)

lemma run_state_simps:
  assumes "e < length (envs s)"
  shows "curenv (run_state e pd s) = Some e" "klock (run_state e pd s) = None" "cr3 (run_state e pd s) = pd"
    "env_status (envs (run_state e pd s) ! e) = ENV_RUNNING"
    "env_pgdir (envs (run_state e pd s) ! i) = env_pgdir (envs s ! i)"
    "env_tf (envs (run_state e pd s) ! i) = env_tf (envs s ! i)"
    "env_id (envs (run_state e pd s) ! i) = env_id (envs s ! i)"
    "i \<noteq> e \<Longrightarrow> envs (run_state e pd s) ! i = envs (yield_cur s) ! i"
  using assms by (auto simp: run_state_def Let_def nth_update_if)

lemma run_state_core:
  assumes inv: "envs_core s" and e: "e < NENV" "env_status (envs s ! e) \<noteq> ENV_FREE"
  shows "envs_core (run_state e pd s)"
proof -
  note len = envs_coreD(1)[OF inv]
  have st: "env_status (envs (yield_cur s) ! e) \<noteq> ENV_FREE"
    using e yield_cur_status[OF e(1) len] by auto
  let ?s1 = "(yield_cur s)\<lparr>curenv := Some e\<rparr>"
  let ?s2 = "set_env e ((envs ?s1 ! e)\<lparr>env_status := ENV_RUNNING, env_runs := env_runs (envs ?s1 ! e) + 1\<rparr>) ?s1"
  have c2: "envs_core ?s2"
    by (rule envs_core_set_env(1)) (use yield_cur_core[OF inv] st in auto)
  show ?thesis unfolding run_state_def Let_def
    by (rule envs_core_set_env(1)) (use c2 in auto)
qed

lemma env_run_ok:
  assumes r: "env_run e s = Some (how, t)" and inv: "envs_inv s" and st: "env_status (envs s ! e) \<noteq> ENV_FREE"
    and e: "e < NENV"
  shows "how = RunEnv e" and "envs_inv t" and "leave_ok how t"
proof -
  have len: "length (envs s) = NENV" using inv envs_coreD(1) by (simp add: envs_inv_def)
  have "env_pgdir (envs s ! e) \<noteq> None"
    using inv st e envs_coreD(5)[of s e] by (auto simp: envs_inv_def env_entry_ok_def)
  then obtain pd where pd: "env_pgdir (envs s ! e) = Some pd" by auto
  have t: "how = RunEnv e" "t = run_state e pd s"
    using r env_run_result[OF inv e pd] by (auto split: if_splits)
  have el: "e < length (envs s)" using e len by simp
  note S = run_state_simps[OF el, of pd]
  show "how = RunEnv e" by (rule t)
  have "envs_core t" unfolding t using run_state_core[of s e pd] inv e st by (simp add: envs_inv_def)
  then show "envs_inv t" using S e by (simp add: envs_inv_def cur_ok_def t)
  show "leave_ok how t" using S pd e by (simp add: leave_ok_def t)
qed

section \<open>The choice\<close>

lemma set_sched_order: "set (sched_order k) = {..<NENV}"
proof -
  have "j \<in> set (sched_order k)" if "j < NENV" for j
  proof -
    let ?i = "(j + NENV - k mod NENV) mod NENV"
    have m: "k mod NENV < NENV" by (simp add: NENV_def)
    have "(k + ?i) mod NENV = (k mod NENV + (j + NENV - k mod NENV)) mod NENV"
      by (simp add: mod_simps)
    also have "k mod NENV + (j + NENV - k mod NENV) = j + NENV" using m by simp
    finally have "j = (k + ?i) mod NENV" using that by simp
    then show ?thesis unfolding sched_order_def set_map by (rule image_eqI) (simp add: NENV_def)
  qed
  moreover have "set (sched_order k) \<subseteq> {..<NENV}" by (auto simp: sched_order_def NENV_def)
  ultimately show ?thesis by auto
qed

lemma length_sched_order: "length (sched_order k) = NENV"
  by (simp add: sched_order_def)

lemma find_SomeD: "List.find P xs = Some x \<Longrightarrow> x \<in> set xs \<and> P x"
  by (induction xs) (auto split: if_splits)

lemma find_NoneD: "List.find P xs = None \<Longrightarrow> x \<in> set xs \<Longrightarrow> \<not> P x"
  by (induction xs) (auto split: if_splits)

text \<open>Where the search starts.\<close>

definition sched_start :: "kst \<Rightarrow> nat" where
  "sched_start s = (case curenv s of None \<Rightarrow> 0 | Some c \<Rightarrow> ENVX (env_id (envs s ! c)) + 1)"

lemma ENVX_cur:
  assumes "envs_inv s" and "curenv s = Some c"
  shows "ENVX (env_id (envs s ! c)) = c"
proof -
  have c: "c < NENV" "env_status (envs s ! c) \<noteq> ENV_FREE"
    using assms by (auto simp: envs_inv_def cur_ok_def)
  then obtain g where "0 < g" "g < 524288" "env_id (envs s ! c) = mk_id g c"
    using assms(1) envs_coreD(5)[of s c] by (auto simp: envs_inv_def env_entry_ok_def)
  then show ?thesis using ENVX_mk_id[of g c] c by (simp add: NENV_def)
qed

lemma sched_start_cur: "envs_inv s \<Longrightarrow> sched_start s = (case curenv s of None \<Rightarrow> 0 | Some c \<Rightarrow> c + 1)"
  by (auto simp: sched_start_def ENVX_cur split: option.splits)

lemma sched_yield_unfold:
  assumes inv: "envs_inv s"
  shows "sched_yield s =
     (case List.find (has_status s [ENV_RUNNABLE]) (sched_order (sched_start s)) of
        Some j \<Rightarrow> env_run j s
      | None \<Rightarrow>
          (case curenv s of
             Some c \<Rightarrow> if has_status s [ENV_RUNNING] c then env_run c s else sched_halt s
           | None \<Rightarrow> sched_halt s))"
proof -
  have "env_at s c = Some (envs s ! c)" if "curenv s = Some c" for c
    using inv that by (auto simp: envs_inv_def cur_ok_def env_at_core)
  then show ?thesis by (simp add: sched_yield_def sched_start_def split: option.splits)
qed

lemma has_status_iff: "envs_core s \<Longrightarrow> has_status s sts i \<longleftrightarrow> i < NENV \<and> env_status (envs s ! i) \<in> set sts"
  by (simp add: has_status_def env_at_core)

lemma sched_halt_ok:
  assumes h: "sched_halt s = Some (how, t)" and inv: "envs_inv s"
  shows "envs_inv t" and "leave_ok how t" and "\<And>e. how \<noteq> RunEnv e" and "envs t = envs s"
proof -
  have "envs_core s" using inv by (simp add: envs_inv_def)
  then have "envs_inv t \<and> leave_ok how t \<and> (\<forall>e. how \<noteq> RunEnv e) \<and> envs t = envs s"
    using h inv by (auto simp: sched_halt_def unlock_kernel_def Let_def envs_inv_def leave_ok_def
        cur_ok_def envs_core_def free_envs_def split: if_splits)
  then show "envs_inv t" "leave_ok how t" "\<And>e. how \<noteq> RunEnv e" "envs t = envs s" by auto
qed

lemma sched_yield_ok:
  assumes y: "sched_yield s = Some (how, t)" and inv: "envs_inv s"
  shows "envs_inv t" and "leave_ok how t"
proof -
  have core: "envs_core s" using inv by (simp add: envs_inv_def)
  show "envs_inv t" "leave_ok how t"
    using y env_run_ok[OF _ inv] sched_halt_ok[OF _ inv]
    unfolding sched_yield_unfold[OF inv]
    by (fastforce simp: has_status_iff[OF core] split: option.splits if_splits dest!: find_SomeD)+
qed

text \<open>With the lock held the scheduler always leaves the kernel: it does not panic.\<close>

lemma env_run_total:
  assumes "envs_inv s" and "klock s = Some (this_cpu s)" and "e < NENV" and "env_status (envs s ! e) \<noteq> ENV_FREE"
  shows "\<exists>t. env_run e s = Some (RunEnv e, t)"
proof -
  have "env_pgdir (envs s ! e) \<noteq> None"
    using assms envs_coreD(5)[of s e] by (auto simp: envs_inv_def env_entry_ok_def)
  then show ?thesis using env_run_result[OF assms(1,3)] assms(2) by auto
qed

lemma sched_yield_total:
  assumes inv: "envs_inv s" and l: "klock s = Some (this_cpu s)"
  shows "\<exists>how t. sched_yield s = Some (how, t)"
proof -
  have core: "envs_core s" using inv by (simp add: envs_inv_def)
  have h: "\<exists>how t. sched_halt s = Some (how, t)" using l by (auto simp: sched_halt_def unlock_kernel_def Let_def)
  show ?thesis
  proof (cases "List.find (has_status s [ENV_RUNNABLE]) (sched_order (sched_start s))")
    case (Some j)
    then have "j < NENV" "env_status (envs s ! j) = ENV_RUNNABLE"
      using find_SomeD[OF Some] by (auto simp: has_status_iff[OF core])
    then show ?thesis using env_run_total[OF inv l, of j] Some by (auto simp: sched_yield_unfold[OF inv])
  next
    case None
    show ?thesis
    proof (cases "\<exists>c. curenv s = Some c \<and> has_status s [ENV_RUNNING] c")
      case True
      then obtain c where c: "curenv s = Some c" "has_status s [ENV_RUNNING] c" by blast
      then have "c < NENV" "env_status (envs s ! c) \<noteq> ENV_FREE" by (auto simp: has_status_iff[OF core])
      from env_run_total[OF inv l this] show ?thesis using None c by (auto simp: sched_yield_unfold[OF inv])
    next
      case False
      then show ?thesis using h None by (auto simp: sched_yield_unfold[OF inv] split: option.splits)
    qed
  qed
qed

section \<open>Waiting\<close>

text \<open>How many entries the search from slot \<open>k\<close> passes before it comes to \<open>j\<close>.\<close>

definition sched_dist :: "nat \<Rightarrow> nat \<Rightarrow> nat" where
  "sched_dist k j = (j + NENV - k mod NENV) mod NENV"

lemma sched_dist_less: "sched_dist k j < NENV"
  by (simp add: sched_dist_def NENV_def)

lemma sched_dist_reach: "j < NENV \<Longrightarrow> (k + sched_dist k j) mod NENV = j"
proof -
  assume j: "j < NENV"
  have m: "k mod NENV < NENV" by (simp add: NENV_def)
  have "(k + sched_dist k j) mod NENV = (k mod NENV + (j + NENV - k mod NENV)) mod NENV"
    by (simp add: sched_dist_def mod_simps)
  also have "k mod NENV + (j + NENV - k mod NENV) = j + NENV" using m by simp
  finally show ?thesis using j by simp
qed

lemma sched_dist_unique:
  assumes "d < NENV" and "j = (k + d) mod NENV"
  shows "sched_dist k j = d"
proof -
  let ?m = "k mod NENV"
  have m: "?m < NENV" by (simp add: NENV_def)
  have j: "j = (?m + d) mod NENV" using assms(2) by (simp add: mod_simps)
  show ?thesis
  proof (cases "?m + d < NENV")
    case True
    then have "j + NENV - ?m = d + NENV" using j by simp
    then show ?thesis using assms(1) by (simp add: sched_dist_def)
  next
    case False
    then have "(?m + d) mod NENV = (?m + d - NENV) mod NENV" by (simp add: le_mod_geq)
    also have "\<dots> = ?m + d - NENV" using m assms(1) by (intro mod_less) linarith
    finally have "j + NENV - ?m = d" using j False by simp
    then show ?thesis using assms(1) by (simp add: sched_dist_def)
  qed
qed

lemma find_map_first:
  "List.find P (map f [a..<b]) = Some x \<Longrightarrow> \<exists>i. a \<le> i \<and> i < b \<and> x = f i \<and> P x \<and> (\<forall>k. a \<le> k \<and> k < i \<longrightarrow> \<not> P (f k))"
proof (induction "b - a" arbitrary: a)
  case (Suc n)
  then have u: "[a..<b] = a # [Suc a..<b]" by (simp add: upt_conv_Cons)
  show ?case
  proof (cases "P (f a)")
    case True
    then show ?thesis using Suc u by (intro exI[of _ a]) auto
  next
    case False
    then have "List.find P (map f [Suc a..<b]) = Some x" using Suc.prems u by simp
    moreover have "n = b - Suc a" using Suc.hyps(2) by simp
    ultimately obtain i where
      i: "Suc a \<le> i" "i < b" "x = f i" "P x" "\<forall>k. Suc a \<le> k \<and> k < i \<longrightarrow> \<not> P (f k)"
      using Suc.hyps(1) by blast
    then have "\<forall>k. a \<le> k \<and> k < i \<longrightarrow> \<not> P (f k)"
      using False by (metis Suc_leI le_neq_implies_less)
    then show ?thesis using i by (intro exI[of _ i]) simp
  qed
qed simp

text \<open>The search finds the runnable environment that is nearest.\<close>

lemma find_nearest:
  assumes "List.find P (sched_order k) = Some j"
  shows "j < NENV" "P j" "i < NENV \<Longrightarrow> P i \<Longrightarrow> sched_dist k j \<le> sched_dist k i"
proof -
  from find_map_first[OF assms[unfolded sched_order_def]] obtain d where
    d: "d < NENV" "j = (k + d) mod NENV" "P j" "\<forall>n. n < d \<longrightarrow> \<not> P ((k + n) mod NENV)" by auto
  show "j < NENV" "P j" using d by (simp_all add: NENV_def)
  assume i: "i < NENV" "P i"
  have "\<not> sched_dist k i < d" using d(4) sched_dist_reach[OF i(1), of k] i(2) by metis
  then show "sched_dist k j \<le> sched_dist k i" using sched_dist_unique[OF d(1,2)] by simp
qed

text \<open>Each choice of another environment brings the turn of a waiting one nearer.\<close>

lemma sched_dist_next:
  assumes "i < NENV" "j < NENV" "i \<noteq> j" "sched_dist k j \<le> sched_dist k i"
  shows "sched_dist (j + 1) i < sched_dist k i"
proof -
  let ?a = "sched_dist k j" and ?b = "sched_dist k i"
  have r: "(k + ?a) mod NENV = j" "(k + ?b) mod NENV = i" using sched_dist_reach assms by auto
  then have "?a \<noteq> ?b" using assms(3) by metis
  then have lt: "?a < ?b" using assms(4) by simp
  have "i = (j + 1 + (?b - ?a - 1)) mod NENV"
  proof -
    have "j + 1 + (?b - ?a - 1) = j + (?b - ?a)" using lt by linarith
    then have "(j + 1 + (?b - ?a - 1)) mod NENV = ((k + ?a) mod NENV + (?b - ?a)) mod NENV"
      using r(1) by (simp only:)
    also have "\<dots> = (k + ?a + (?b - ?a)) mod NENV" by (simp only: mod_add_left_eq)
    also have "k + ?a + (?b - ?a) = k + ?b" using lt by simp
    finally show ?thesis using r by simp
  qed
  moreover have "?b - ?a - 1 < NENV" using sched_dist_less[of k i] by simp
  ultimately have "sched_dist (j + 1) i = ?b - ?a - 1" by (intro sched_dist_unique) auto
  then show ?thesis using lt by simp
qed

text \<open>What the scheduler does with the lock held, in each of its cases.\<close>

lemma sched_yield_runnable:
  assumes inv: "envs_inv s" and l: "klock s = Some (this_cpu s)" and i: "i < NENV" "env_status (envs s ! i) = ENV_RUNNABLE"
  obtains j t where "sched_yield s = Some (RunEnv j, t)" "j < NENV" "env_status (envs s ! j) = ENV_RUNNABLE"
    "env_run j s = Some (RunEnv j, t)"
    "\<And>k. k < NENV \<Longrightarrow> env_status (envs s ! k) = ENV_RUNNABLE \<Longrightarrow> sched_dist (sched_start s) j \<le> sched_dist (sched_start s) k"
proof -
  have core: "envs_core s" using inv by (simp add: envs_inv_def)
  show ?thesis
  proof (cases "List.find (has_status s [ENV_RUNNABLE]) (sched_order (sched_start s))")
    case (Some j)
    note J = find_nearest[OF Some]
    have j: "j < NENV" "env_status (envs s ! j) = ENV_RUNNABLE" using J(1,2) by (simp_all add: has_status_iff[OF core])
    obtain t where t: "env_run j s = Some (RunEnv j, t)" using env_run_total[OF inv l j(1)] j(2) by auto
    have y: "sched_yield s = Some (RunEnv j, t)" using Some t by (simp add: sched_yield_unfold[OF inv])
    show ?thesis by (rule that[OF y j t]) (simp add: J(3) has_status_iff[OF core])
  next
    case None
    then show ?thesis using find_NoneD[OF None, of i] i by (simp add: set_sched_order has_status_iff[OF core])
  qed
qed

lemma sched_yield_none:
  assumes inv: "envs_inv s" and l: "klock s = Some (this_cpu s)" and n: "\<forall>i < NENV. env_status (envs s ! i) \<noteq> ENV_RUNNABLE"
  shows "(\<exists>c. curenv s = Some c \<and> env_status (envs s ! c) = ENV_RUNNING \<and> (\<exists>t. sched_yield s = Some (RunEnv c, t)))
    \<or> (\<nexists>c. curenv s = Some c \<and> env_status (envs s ! c) = ENV_RUNNING) \<and>
      (if \<exists>i < NENV. env_status (envs s ! i) \<in> {ENV_RUNNING, ENV_DYING}
       then \<exists>t. sched_yield s = Some (Halted, t) else sched_yield s = Some (InMonitor, s))"
proof -
  have core: "envs_core s" using inv by (simp add: envs_inv_def)
  have f: "List.find (has_status s [ENV_RUNNABLE]) (sched_order (sched_start s)) = None"
    using n by (auto simp: find_None_iff has_status_iff[OF core])
  show ?thesis
  proof (cases "\<exists>c. curenv s = Some c \<and> env_status (envs s ! c) = ENV_RUNNING")
    case True
    then obtain c where c: "curenv s = Some c" "env_status (envs s ! c) = ENV_RUNNING" by blast
    have cl: "c < NENV" using inv c(1) by (simp add: envs_inv_def cur_ok_def)
    obtain t where "env_run c s = Some (RunEnv c, t)" using env_run_total[OF inv l cl] c(2) by auto
    then have "sched_yield s = Some (RunEnv c, t)" using f c cl by (simp add: sched_yield_unfold[OF inv] has_status_iff[OF core])
    then show ?thesis using c by blast
  next
    case False
    then have y: "sched_yield s = sched_halt s"
      using f by (auto simp: sched_yield_unfold[OF inv] has_status_iff[OF core] split: option.splits)
    show ?thesis
    proof (rule disjI2, intro conjI False)
      show "if \<exists>i < NENV. env_status (envs s ! i) \<in> {ENV_RUNNING, ENV_DYING}
         then \<exists>t. sched_yield s = Some (Halted, t) else sched_yield s = Some (InMonitor, s)"
        using n l unfolding y by (auto simp: sched_halt_def has_status_iff[OF core] unlock_kernel_def Let_def)
    qed
  qed
qed

end
