(* ===== verification/Segments.thy ===== *)
theory Segments
  imports EnvTab
begin

text \<open>
  Segment descriptors, gates and the tables built from them: the macros of part 2 and 3 of
  \<open>inc/mmu.h\<close>, \<open>gdt\<close> of \<open>kern/env.c\<close>, and \<open>trap_init\<close> and \<open>trap_init_percpu\<close> of
  \<open>kern/trap.c\<close>.  The addresses of the assembly entry points (\<open>kern/trapentry.S\<close>) are a
  parameter \<open>entry\<close> of the interrupt table.
\<close>

section \<open>Segment descriptors (inc/mmu.h)\<close>

record Segdesc =
  sd_lim_15_0 :: u16
  sd_base_15_0 :: u16
  sd_base_23_16 :: u8
  sd_type :: "4 word"
  sd_s :: "1 word"
  sd_dpl :: "2 word"
  sd_p :: "1 word"
  sd_lim_19_16 :: "4 word"
  sd_avl :: "1 word"
  sd_rsv1 :: "1 word"
  sd_db :: "1 word"
  sd_g :: "1 word"
  sd_base_31_24 :: u8

definition SEG_NULL :: Segdesc where
  "SEG_NULL = \<lparr>sd_lim_15_0 = 0, sd_base_15_0 = 0, sd_base_23_16 = 0, sd_type = 0, sd_s = 0,
     sd_dpl = 0, sd_p = 0, sd_lim_19_16 = 0, sd_avl = 0, sd_rsv1 = 0, sd_db = 0, sd_g = 0,
     sd_base_31_24 = 0\<rparr>"

definition SEG :: "4 word \<Rightarrow> u32 \<Rightarrow> u32 \<Rightarrow> 2 word \<Rightarrow> Segdesc" where
  "SEG ty base lim dpl =
     \<lparr>sd_lim_15_0 = ucast (drop_bit 12 lim AND 0xffff), sd_base_15_0 = ucast (base AND 0xffff),
      sd_base_23_16 = ucast (drop_bit 16 base AND 0xff), sd_type = ty, sd_s = 1, sd_dpl = dpl,
      sd_p = 1, sd_lim_19_16 = ucast (drop_bit 28 lim), sd_avl = 0, sd_rsv1 = 0, sd_db = 1,
      sd_g = 1, sd_base_31_24 = ucast (drop_bit 24 base)\<rparr>"

definition SEG16 :: "4 word \<Rightarrow> u32 \<Rightarrow> u32 \<Rightarrow> 2 word \<Rightarrow> Segdesc" where
  "SEG16 ty base lim dpl =
     \<lparr>sd_lim_15_0 = ucast (lim AND 0xffff), sd_base_15_0 = ucast (base AND 0xffff),
      sd_base_23_16 = ucast (drop_bit 16 base AND 0xff), sd_type = ty, sd_s = 1, sd_dpl = dpl,
      sd_p = 1, sd_lim_19_16 = ucast (drop_bit 16 lim), sd_avl = 0, sd_rsv1 = 0, sd_db = 1,
      sd_g = 0, sd_base_31_24 = ucast (drop_bit 24 base)\<rparr>"

text \<open>What the processor reads back from a descriptor.\<close>

definition sd_base :: "Segdesc \<Rightarrow> u32" where
  "sd_base d = ucast (sd_base_15_0 d) OR push_bit 16 (ucast (sd_base_23_16 d))
                 OR push_bit 24 (ucast (sd_base_31_24 d))"

definition sd_limit :: "Segdesc \<Rightarrow> u32" where
  "sd_limit d =
     (let l = ucast (sd_lim_15_0 d) OR push_bit 16 (ucast (sd_lim_19_16 d))
      in if sd_g d = 0 then l else push_bit 12 l OR 0xFFF)"

definition STA_X :: "4 word" where "STA_X = 8"
definition STA_W :: "4 word" where "STA_W = 2"
definition STA_R :: "4 word" where "STA_R = 2"
definition STS_T32A :: "4 word" where "STS_T32A = 9"
definition STS_IG32 :: "4 word" where "STS_IG32 = 0xE"
definition STS_TG32 :: "4 word" where "STS_TG32 = 0xF"
definition NCPU :: nat where "NCPU = 8"

text \<open>The global descriptor table as \<open>kern/env.c\<close> initialises it.\<close>

definition gdt :: "Segdesc list" where
  "gdt = [SEG_NULL,
          SEG (STA_X OR STA_R) 0 0xffffffff 0,
          SEG STA_W 0 0xffffffff 0,
          SEG (STA_X OR STA_R) 0 0xffffffff 3,
          SEG STA_W 0 0xffffffff 3] @ replicate NCPU SEG_NULL"

section \<open>Gates\<close>

record Gatedesc =
  gd_off_15_0 :: u16
  gd_sel :: u16
  gd_args :: "5 word"
  gd_rsv1 :: "3 word"
  gd_type :: "4 word"
  gd_s :: "1 word"
  gd_dpl :: "2 word"
  gd_p :: "1 word"
  gd_off_31_16 :: u16

definition zero_gate :: Gatedesc where
  "zero_gate = \<lparr>gd_off_15_0 = 0, gd_sel = 0, gd_args = 0, gd_rsv1 = 0, gd_type = 0, gd_s = 0,
                gd_dpl = 0, gd_p = 0, gd_off_31_16 = 0\<rparr>"

definition SETGATE :: "bool \<Rightarrow> u16 \<Rightarrow> u32 \<Rightarrow> 2 word \<Rightarrow> Gatedesc" where
  "SETGATE istrap sel off dpl =
     \<lparr>gd_off_15_0 = ucast (off AND 0xffff), gd_sel = sel, gd_args = 0, gd_rsv1 = 0,
      gd_type = (if istrap then STS_TG32 else STS_IG32), gd_s = 0, gd_dpl = dpl, gd_p = 1,
      gd_off_31_16 = ucast (drop_bit 16 off)\<rparr>"

definition gd_off :: "Gatedesc \<Rightarrow> u32" where
  "gd_off g = ucast (gd_off_15_0 g) OR push_bit 16 (ucast (gd_off_31_16 g))"

text \<open>The vectors that \<open>trap_init\<close> fills, with their privilege level.\<close>

definition T_BRKPT :: nat where "T_BRKPT = 3"
definition T_PGFLT :: nat where "T_PGFLT = 14"
definition T_SYSCALL :: nat where "T_SYSCALL = 48"
definition IRQ_OFFSET :: nat where "IRQ_OFFSET = 32"
definition IRQ_TIMER :: nat where "IRQ_TIMER = 0"
definition IRQ_KBD :: nat where "IRQ_KBD = 1"
definition IRQ_SERIAL :: nat where "IRQ_SERIAL = 4"
definition IRQ_SPURIOUS :: nat where "IRQ_SPURIOUS = 7"

definition trap_vectors :: "(nat \<times> 2 word) list" where
  "trap_vectors =
     [(0, 0), (1, 0), (2, 0), (T_BRKPT, 3), (4, 0), (5, 0), (6, 0), (7, 0), (8, 0), (9, 0),
      (10, 0), (11, 0), (12, 0), (13, 0), (T_PGFLT, 0), (15, 0), (16, 0), (17, 0), (18, 0),
      (19, 0), (IRQ_OFFSET + IRQ_TIMER, 0), (IRQ_OFFSET + IRQ_KBD, 0),
      (IRQ_OFFSET + IRQ_SERIAL, 0), (T_SYSCALL, 3)]"

definition trap_init :: "(nat \<Rightarrow> u32) \<Rightarrow> Gatedesc list" where
  "trap_init entry =
     fold (\<lambda>(v, dpl) idt. idt[v := SETGATE False GD_KT (entry v) dpl]) trap_vectors
          (replicate 256 zero_gate)"

section \<open>The task state of a processor\<close>

record Taskstate =
  ts_link :: u32
  ts_esp0 :: u32
  ts_ss0 :: u16
  ts_padding1 :: u16
  ts_esp1 :: u32
  ts_ss1 :: u16
  ts_padding2 :: u16
  ts_esp2 :: u32
  ts_ss2 :: u16
  ts_padding3 :: u16
  ts_cr3 :: u32
  ts_eip :: u32
  ts_eflags :: u32
  ts_eax :: u32
  ts_ecx :: u32
  ts_edx :: u32
  ts_ebx :: u32
  ts_esp :: u32
  ts_ebp :: u32
  ts_esi :: u32
  ts_edi :: u32
  ts_es :: u16
  ts_padding4 :: u16
  ts_cs :: u16
  ts_padding5 :: u16
  ts_ss :: u16
  ts_padding6 :: u16
  ts_ds :: u16
  ts_padding7 :: u16
  ts_fs :: u16
  ts_padding8 :: u16
  ts_gs :: u16
  ts_padding9 :: u16
  ts_ldt :: u16
  ts_padding10 :: u16
  ts_t :: u16
  ts_iomb :: u16

text \<open>\<open>ts_addr\<close> is the address of \<open>thiscpu->cpu_ts\<close>; the result has the selector for \<open>ltr\<close>.\<close>

definition trap_init_percpu :: "u32 \<Rightarrow> nat \<Rightarrow> Taskstate \<Rightarrow> Segdesc list \<Rightarrow> Taskstate \<times> Segdesc list \<times> u16" where
  "trap_init_percpu ts_addr i ts g =
     (let ts = ts\<lparr>ts_esp0 := KSTACKTOP - word_of_nat i * (KSTKSIZE + KSTKGAP),
                  ts_ss0 := GD_KD, ts_iomb := 104\<rparr>;
          idx = drop_bit 3 GD_TSS0 + word_of_nat i;
          seg = push_bit 3 idx
      in (ts, g[unat idx := (SEG16 STS_T32A ts_addr (104 - 1) 0)\<lparr>sd_s := 0\<rparr>], seg))"

section \<open>What the descriptors mean\<close>

lemma bit_ones: "bit (0xFF :: u32) n \<longleftrightarrow> n < 8" "bit (0xFFFF :: u32) n \<longleftrightarrow> n < 16"
  "bit (0xFF :: u8) n \<longleftrightarrow> n < 8" "bit (0xFFFF :: u16) n \<longleftrightarrow> n < 16"
proof -
  have "(0xFF :: u8) = mask 8" "(0xFFFF :: u16) = mask 16" "(0xFF :: u32) = mask 8" "(0xFFFF :: u32) = mask 16"
    by (simp_all add: mask_eq_decr_exp)
  then show "bit (0xFF :: u8) n \<longleftrightarrow> n < 8" "bit (0xFFFF :: u16) n \<longleftrightarrow> n < 16"
    "bit (0xFF :: u32) n \<longleftrightarrow> n < 8" "bit (0xFFFF :: u32) n \<longleftrightarrow> n < 16"
    by (simp_all only: bit_mask_iff) auto
qed

lemma bit_sd_base:
  "bit (sd_base d) n \<longleftrightarrow> n < 32 \<and>
     (n < 16 \<and> bit (sd_base_15_0 d) n \<or> 16 \<le> n \<and> n < 24 \<and> bit (sd_base_23_16 d) (n - 16)
      \<or> 24 \<le> n \<and> bit (sd_base_31_24 d) (n - 24))"
  using bit_imp_le_length[of "sd_base_15_0 d" n] bit_imp_le_length[of "sd_base_23_16 d" "n - 16"]
    bit_imp_le_length[of "sd_base_31_24 d" "n - 24"]
  by (auto simp: sd_base_def bit_or_iff bit_push_bit_iff bit_ucast_iff)

lemma sd_base_SEG16: "sd_base (SEG16 ty base lim dpl) = base"
proof (rule bit_word_eqI)
  fix n assume "n < LENGTH(32)"
  then consider "n < 16" | "16 \<le> n" "n < 24" | "24 \<le> n" "n < 32" by fastforce
  then show "bit (sd_base (SEG16 ty base lim dpl)) n = bit base n"
    unfolding bit_sd_base using bit_ones[of n] bit_ones[of "n - 16"]
    by cases (simp_all add: SEG16_def bit_ucast_iff bit_drop_bit_eq bit_and_iff 
        less_diff_conv2)
qed

lemma gd_off_SETGATE: "gd_off (SETGATE istrap sel off dpl) = off"
proof (rule bit_word_eqI)
  fix n assume "n < LENGTH(32)"
  then consider "n < 16" | "16 \<le> n" "n < 32" by fastforce
  then show "bit (gd_off (SETGATE istrap sel off dpl)) n = bit off n"
    using bit_ones[of n] by cases (simp_all add: gd_off_def SETGATE_def bit_or_iff bit_push_bit_iff bit_ucast_iff
        bit_drop_bit_eq bit_and_iff less_diff_conv2)
qed

lemma trap_init_nth:
  "v < 256 \<Longrightarrow> trap_init entry ! v =
     (case map_of trap_vectors v of None \<Rightarrow> zero_gate
      | Some dpl \<Rightarrow> SETGATE False GD_KT (entry v) dpl)"
  by (simp add: trap_init_def trap_vectors_def T_BRKPT_def T_PGFLT_def IRQ_OFFSET_def IRQ_TIMER_def
      IRQ_KBD_def IRQ_SERIAL_def T_SYSCALL_def nth_list_update del: upt_rec_numeral)

end
