(* ===== verification/Trap.thy ===== *)
theory Trap
  imports Syscall Segments
begin

text \<open>
  Trap handling: \<open>kern/trap.c\<close>.  A trap enters with the frame that the entry code pushed
  (\<open>kern/trapentry.S\<close>), the register \<open>cr2\<close> and the flags at entry; it never comes back, and its
  result says how the processor leaves the kernel.  Printing a trap frame is diagnosis and is
  left out, as is \<open>lapic_eoi\<close>.  \<open>monitor\<close> leaves its loop only when a command returns a negative
  value, and no command of the table does, so a breakpoint ends in the monitor.
\<close>

section \<open>Names of traps\<close>

definition excnames :: "string list" where
  "excnames = [''Divide error'', ''Debug'', ''Non-Maskable Interrupt'', ''Breakpoint'', ''Overflow'',
     ''BOUND Range Exceeded'', ''Invalid Opcode'', ''Device Not Available'', ''Double Fault'',
     ''Coprocessor Segment Overrun'', ''Invalid TSS'', ''Segment Not Present'', ''Stack Fault'',
     ''General Protection'', ''Page Fault'', ''(unknown trap)'', ''x87 FPU Floating-Point Error'',
     ''Alignment Check'', ''Machine-Check'', ''SIMD Floating-Point Exception'']"

definition trapname :: "u32 \<Rightarrow> string" where
  "trapname trapno =
     (if unat trapno < length excnames then excnames ! unat trapno
      else if unat trapno = T_SYSCALL then ''System call''
      else if IRQ_OFFSET \<le> unat trapno \<and> unat trapno < IRQ_OFFSET + 16 then ''Hardware Interrupt''
      else ''(unknown trap)'')"

section \<open>The trap frame that is handled\<close>

text \<open>
  \<open>tf\<close> points at the copy in \<open>curenv\<close> when the trap came from user mode, at the frame on the
  kernel stack otherwise.
\<close>

datatype tf_ptr = InEnv nat | OnStack trapframe

definition get_tf :: "tf_ptr \<Rightarrow> kst \<Rightarrow> trapframe option" where
  "get_tf tf s = (case tf of InEnv i \<Rightarrow> map_option env_tf (env_at s i) | OnStack f \<Rightarrow> Some f)"

text \<open>\<open>regs->reg_eax = r\<close>; a frame on the stack is not read again after the dispatch.\<close>

definition set_eax :: "tf_ptr \<Rightarrow> u32 \<Rightarrow> kst \<Rightarrow> kst option" where
  "set_eax tf r s = (case tf of
     InEnv i \<Rightarrow> upd_env i (\<lambda>e. e\<lparr>env_tf := (env_tf e)\<lparr>tf_regs := (tf_regs (env_tf e))\<lparr>reg_eax := r\<rparr>\<rparr>\<rparr>) s
   | OnStack f \<Rightarrow> Some s)"

section \<open>Page faults\<close>

definition UTF_SIZE :: u32 where "UTF_SIZE = 52"

definition regs_words :: "pushregs \<Rightarrow> u32 list" where
  "regs_words r = [reg_edi r, reg_esi r, reg_ebp r, reg_oesp r, reg_ebx r, reg_edx r, reg_ecx r, reg_eax r]"

text \<open>
  The place of the user trap frame: below the current stack pointer when the fault happened on
  the exception stack, with a spare word, else at its top.  The second component is the size
  that is checked.
\<close>

definition utf_place :: "u32 \<Rightarrow> u32 \<times> u32" where
  "utf_place esp =
     (if esp < UXSTACKTOP \<and> esp \<ge> UXSTACKTOP - PGSIZE then (esp - 4 - UTF_SIZE, UTF_SIZE + 4)
      else (UXSTACKTOP - UTF_SIZE, UTF_SIZE))"

text \<open>The assignments to the fields of \<open>u\<close>, in the order of the code.\<close>

definition push_utf :: "u32 \<Rightarrow> u32 \<Rightarrow> trapframe \<Rightarrow> kst \<Rightarrow> kst option" where
  "push_utf u fault_va tf s = do {
     s \<leftarrow> store_word (cr3 s) u fault_va s;
     s \<leftarrow> store_word (cr3 s) (u + 4) (tf_err tf) s;
     s \<leftarrow> store_words (cr3 s) (u + 8) (regs_words (tf_regs tf)) s;
     s \<leftarrow> store_word (cr3 s) (u + 44) (tf_eflags tf) s;
     s \<leftarrow> store_word (cr3 s) (u + 40) (tf_eip tf) s;
     store_word (cr3 s) (u + 48) (tf_esp tf) s
   }"

definition page_fault_handler :: "tf_ptr \<Rightarrow> u32 \<Rightarrow> kst \<Rightarrow> (leave option \<times> kst) option" where
  "page_fault_handler tfp cr2 s = do {
     tf \<leftarrow> get_tf tfp s;
     if tf_cs tf AND 3 = 0 then None
     else do {
       (c, ce) \<leftarrow> cur_env s;
       if env_pgfault_upcall ce \<noteq> 0 then
         let (u, n) = utf_place (tf_esp tf) in do {
           (l, s) \<leftarrow> user_mem_assert c u n (PTE_W OR PTE_P) s;
           (case l of
              Some how \<Rightarrow> Some (Some how, s)
            | None \<Rightarrow> do {
                (l, s) \<leftarrow> user_mem_assert c (env_pgfault_upcall ce) 4 PTE_P s;
                (case l of
                   Some how \<Rightarrow> Some (Some how, s)
                 | None \<Rightarrow> do {
                     s \<leftarrow> push_utf u cr2 tf s;
                     s \<leftarrow> upd_env c (\<lambda>e. e\<lparr>env_tf := (env_tf e)\<lparr>tf_eip := env_pgfault_upcall e,
                                                                   tf_esp := u\<rparr>\<rparr>) s;
                     (how, s) \<leftarrow> env_run c s;
                     Some (Some how, s)
                   })
              })
         }
       else env_destroy c s
     }
   }"

section \<open>Dispatch\<close>

definition trap_dispatch :: "tf_ptr \<Rightarrow> u32 \<Rightarrow> kst \<Rightarrow> (leave option \<times> kst) option" where
  "trap_dispatch tfp cr2 s = do {
     tf \<leftarrow> get_tf tfp s;
     let n = unat (tf_trapno tf);
     if n = T_BRKPT then Some (Some InMonitor, s)
     else if n = T_PGFLT then page_fault_handler tfp cr2 s
     else if n = T_SYSCALL then do {
       let r = tf_regs tf;
       (res, s) \<leftarrow> syscall (reg_eax r) (reg_edx r) (reg_ecx r) (reg_ebx r) (reg_edi r) (reg_esi r) s;
       (case res of
          Leaves how \<Rightarrow> Some (Some how, s)
        | Ret v \<Rightarrow> do { s \<leftarrow> set_eax tfp (word_of_int v) s; Some (None, s) })
     }
     else if n = IRQ_OFFSET + IRQ_SPURIOUS then Some (None, s)
     else if n = IRQ_OFFSET + IRQ_TIMER then do { (how, s) \<leftarrow> sched_yield s; Some (Some how, s) }
     else if n = IRQ_OFFSET + IRQ_KBD then do {
       cs \<leftarrow> kbd_intr (con s); Some (None, s\<lparr>con := cs\<rparr>)
     }
     else if n = IRQ_OFFSET + IRQ_SERIAL then do {
       cs \<leftarrow> serial_intr (con s); Some (None, s\<lparr>con := cs\<rparr>)
     }
     else if tf_cs tf = GD_KT then None
     else do { c \<leftarrow> curenv s; env_destroy c s }
   }"

text \<open>What \<open>trap\<close> does after the dispatch came back.\<close>

definition trap_return :: "kst \<Rightarrow> (leave \<times> kst) option" where
  "trap_return s = (case curenv s of
     Some c \<Rightarrow> do {
       e \<leftarrow> env_at s c;
       if env_status e = ENV_RUNNING then env_run c s else sched_yield s
     }
   | None \<Rightarrow> sched_yield s)"

definition trap_body :: "tf_ptr \<Rightarrow> u32 \<Rightarrow> kst \<Rightarrow> (leave \<times> kst) option" where
  "trap_body tfp cr2 s = do {
     (l, s) \<leftarrow> trap_dispatch tfp cr2 s;
     (case l of Some how \<Rightarrow> Some (how, s) | None \<Rightarrow> trap_return s)
   }"

definition trap :: "trapframe \<Rightarrow> u32 \<Rightarrow> u32 \<Rightarrow> kst \<Rightarrow> (leave \<times> kst) option" where
  "trap tf cr2 eflags s =
     (if panicked s then Some (Halted, s)
      else do {
        let old = cpu_status s (this_cpu s);
        let s = s\<lparr>cpu_status := (cpu_status s)(this_cpu s := CPU_STARTED)\<rparr>;
        s \<leftarrow> (if old = CPU_HALTED then lock_kernel s else Some s);
        if eflags AND FL_IF \<noteq> 0 then None
        else if tf_cs tf AND 3 = 3 then do {
          s \<leftarrow> lock_kernel s;
          (c, ce) \<leftarrow> cur_env s;
          if env_status ce = ENV_DYING then do {
            s \<leftarrow> env_free c s;
            sched_yield (s\<lparr>curenv := None\<rparr>)
          }
          else do {
            s \<leftarrow> upd_env c (\<lambda>e. e\<lparr>env_tf := tf\<rparr>) s;
            trap_body (InEnv c) cr2 s
          }
        }
        else trap_body (OnStack tf) cr2 s
      })"

end
