(* ===== verification/SysInv.thy ===== *)
theory SysInv
  imports SchedInv Trap
begin

text \<open>
  Every system call and every trap keeps the invariant of the environment table, and leaves the
  kernel, when it does, in a state in which the processor may run the environment it names.
\<close>

lemma envid2env_result:
  assumes r: "envid2env eid chk s = Some (r, e)" and inv: "envs_inv s"
  shows "(r = - E_BAD_ENV \<and> e = None) \<or> (r = 0 \<and> eid = 0 \<and> e = curenv s) \<or>
    (r = 0 \<and> eid \<noteq> 0 \<and> e = Some (ENVX eid) \<and> env_id (envs s ! ENVX eid) = eid
      \<and> env_status (envs s ! ENVX eid) \<noteq> ENV_FREE
      \<and> (chk \<longrightarrow> e = curenv s \<or> (\<exists>c. curenv s = Some c \<and> env_parent_id (envs s ! ENVX eid) = env_id (envs s ! c))))"
proof -
  have c: "env_at s i = (if i < NENV then Some (envs s ! i) else None)" for i
    using inv env_at_core by (simp add: envs_inv_def)
  show ?thesis using r ENVX_less[of eid]
    by (auto simp: envid2env_def bind_eq_Some_conv c split: if_splits)
qed

lemma envid2env_live:
  assumes "envid2env eid chk s = Some (r, Some i)" and "envs_inv s"
  shows "r = 0" "i < NENV" "env_status (envs s ! i) \<noteq> ENV_FREE"
  using envid2env_result[OF assms] assms(2) ENVX_less[of eid]
  by (auto simp: envs_inv_def cur_ok_def)

section \<open>Destroying an environment\<close>

definition left_ok :: "leave option \<Rightarrow> kst \<Rightarrow> bool" where
  "left_ok l s \<longleftrightarrow> envs_inv s \<and> (case l of None \<Rightarrow> True | Some how \<Rightarrow> leave_ok how s)"

lemma left_ok_None [simp]: "left_ok None s = envs_inv s"
  by (simp add: left_ok_def)

lemma left_ok_Some [simp]: "left_ok (Some how) s = (envs_inv s \<and> leave_ok how s)"
  by (simp add: left_ok_def)

lemma env_destroy_ok:
  assumes d: "env_destroy e s = Some (l, t)" and inv: "envs_inv s"
    and st: "env_status (envs s ! e) \<noteq> ENV_FREE"
  shows "left_ok l t"
proof -
  have core: "envs_core s" using inv by (simp add: envs_inv_def)
  from d obtain ent where at: "env_at s e = Some ent" by (auto simp: env_destroy_def bind_eq_Some_conv)
  then have e: "e < NENV" "ent = envs s ! e" using env_at_core[OF core] by (auto split: if_splits)
  show ?thesis
  proof (cases "env_status ent = ENV_RUNNING \<and> curenv s \<noteq> Some e")
    case True
    then have "l = None" "t = set_env e (ent\<lparr>env_status := ENV_DYING\<rparr>) s"
      using d at by (auto simp: env_destroy_def)
    moreover have "envs_inv (set_env e (ent\<lparr>env_status := ENV_DYING\<rparr>) s)"
      by (rule envs_inv_set_env[OF inv]) (use e st in auto)
    ultimately show ?thesis by simp
  next
    case False
    with d at obtain s1 where f: "env_free e s = Some s1"
      by (auto simp: env_destroy_def bind_eq_Some_conv)
    note F = env_free_core[OF f core st]
    show ?thesis
    proof (cases "curenv s1 = Some e")
      case True
      have i1: "envs_inv (s1\<lparr>curenv := None\<rparr>)" using F(1) by (simp add: envs_inv_def)
      from d at False f True obtain how where
        y: "sched_yield (s1\<lparr>curenv := None\<rparr>) = Some (how, t)" "l = Some how"
        by (auto simp: env_destroy_def bind_eq_Some_conv)
      show ?thesis using sched_yield_ok[OF y(1) i1] y(2) by (simp add: left_ok_def)
    next
      case ne: False
      then have "l = None" "t = s1" using d at False f by (auto simp: env_destroy_def)
      moreover have "cur_ok s1"
        using inv F(7) ne ctl_partD(1)[OF F(6)] by (auto simp: envs_inv_def cur_ok_def)
      ultimately show ?thesis using F(1) by (simp add: envs_inv_def)
    qed
  qed
qed

lemma user_mem_assert_ok:
  assumes u: "user_mem_assert e va len perm s = Some (l, t)" and inv: "envs_inv s"
    and st: "env_status (envs s ! e) \<noteq> ENV_FREE"
  shows "left_ok l t"
proof -
  from u obtain pd r s1 where c: "user_mem_check pd va len (perm OR PTE_U) s = Some (r, s1)"
    and d: "(if r < 0 then env_destroy e s1 else Some (None, s1)) = Some (l, t)"
    by (auto simp: user_mem_assert_def bind_eq_Some_conv)
  note f = user_mem_check_frame[OF c]
  have "envs_inv s1" using envs_inv_frame[OF f] inv by simp
  then show ?thesis using d env_destroy_ok[of e s1 l t] st same_envsD(1)[OF f] by (auto split: if_splits)
qed

text \<open>When \<open>user_mem_assert\<close> comes back for the current environment, nothing was destroyed.\<close>

lemma user_mem_assert_None:
  assumes u: "user_mem_assert e va len perm s = Some (None, t)" and c: "curenv s = Some e"
  shows "same_envs t s"
proof -
  from u obtain pd r s1 where w: "user_mem_check pd va len (perm OR PTE_U) s = Some (r, s1)"
    and d: "(if r < 0 then env_destroy e s1 else Some (None, s1)) = Some (None, t)"
    by (auto simp: user_mem_assert_def bind_eq_Some_conv)
  note f = user_mem_check_frame[OF w]
  have "r \<ge> 0"
  proof (rule ccontr)
    assume "\<not> r \<ge> 0"
    then have "env_destroy e s1 = Some (None, t)" using d by simp
    moreover have "curenv s1 = Some e" using same_envsD(3)[OF f] c by simp
    ultimately show False
      by (auto simp: env_destroy_def env_free_def Let_def bind_eq_Some_conv dest!: env_free_loop_frame
          page_decref_frame same_envsD(3) split: if_splits)
  qed
  then show ?thesis using d f by simp
qed

section \<open>System calls\<close>

definition sys_ok :: "outcome \<Rightarrow> kst \<Rightarrow> bool" where
  "sys_ok res s \<longleftrightarrow> envs_inv s \<and> (case res of Ret _ \<Rightarrow> True | Leaves how \<Rightarrow> leave_ok how s)"

lemma sys_ok_simps [simp]:
  "sys_ok (Ret r) s = envs_inv s" "sys_ok (Leaves how) s = (envs_inv s \<and> leave_ok how s)"
  by (simp_all add: sys_ok_def)

named_theorems sys_inv \<open>system calls keep the environment table\<close>

lemma putch_inv: "putch ch s = Some t \<Longrightarrow> envs_inv t = envs_inv s"
  by (auto simp: putch_def bind_eq_Some_conv)

lemma print_user_inv:
  assumes "print_user pr p s = Some t" and "envs_inv s"
  shows "envs_inv t"
proof -
  have "envs_inv s \<longrightarrow> envs_inv t"
    by (rule print_user.raw_induct[where P = "\<lambda>pr p s t. envs_inv s \<longrightarrow> envs_inv t", OF _ assms(1)])
       (auto simp: bind_eq_Some_conv putch_inv split: if_splits)
  then show ?thesis using assms(2) by simp
qed

lemma print_arg_inv: "print_arg pr p s = Some t \<Longrightarrow> envs_inv s \<Longrightarrow> envs_inv t"
  by (auto simp: print_arg_def print_user_inv putch_inv split: if_splits
      dest: foldM_inv[where P = envs_inv])

lemma exofork_alloc_inv:
  assumes a: "env_alloc par s = Some ((r, Some i), t)" and inv: "envs_inv s"
  shows "envs_inv t" and "env_status (envs t ! i) \<noteq> ENV_FREE" and "r = 0"
proof -
  have core: "envs_core s" using inv by (simp add: envs_inv_def)
  show r: "r = 0" using env_alloc_result[OF a core] by auto
  note A = env_alloc_core[OF a[unfolded r] core]
  have "c \<noteq> i" if "curenv s = Some c" for c
    using inv that A(2) envs_coreD(4)[OF core A(3)] by (auto simp: envs_inv_def cur_ok_def)
  then show "envs_inv t" using inv A(1,7) ctl_partD(1)[OF A(6)] by (auto simp: envs_inv_def cur_ok_def)
  show "env_status (envs t ! i) \<noteq> ENV_FREE" using A(4) by simp
qed

lemma env_alloc_fail_inv:
  assumes a: "env_alloc par s = Some ((r, e), t)" and inv: "envs_inv s" and r: "r < 0"
  shows "envs_inv t"
proof -
  have core: "envs_core s" using inv by (simp add: envs_inv_def)
  have "same_envs t s" using env_alloc_result[OF a core] r by auto
  from envs_inv_frame[OF this] show ?thesis using inv by simp
qed

lemma upd_env_status:
  assumes "upd_env i f s = Some t" and "\<And>e. env_status (f e) = env_status e"
  shows "env_status (envs t ! j) = env_status (envs s ! j)"
  using assms by (auto simp: upd_env_def bind_eq_Some_conv env_at_def nth_update_if split: if_splits)

lemma exofork_child_inv:
  assumes "envs_inv s" and "env_alloc par s = Some ((r, Some i), t)"
    and u: "upd_env i (\<lambda>ent. ent\<lparr>env_tf := tf\<rparr>) t = Some s2"
      "upd_env i (\<lambda>ent. ent\<lparr>env_status := ENV_NOT_RUNNABLE\<rparr>) s2 = Some s3"
      "upd_env i (\<lambda>ent. ent\<lparr>env_tf := (env_tf ent)\<lparr>tf_regs := (tf_regs (env_tf ent))\<lparr>reg_eax := 0\<rparr>\<rparr>\<rparr>) s3 = Some s4"
  shows "envs_inv s4"
proof -
  note A = exofork_alloc_inv[OF assms(2,1)]
  have i2: "envs_inv s2" by (rule upd_env_inv[OF u(1) A(1)]) simp_all
  have "env_status (envs s2 ! i) \<noteq> ENV_FREE" using upd_env_status[OF u(1), of i] A(2) by simp
  then have i3: "envs_inv s3" by (intro upd_env_inv[OF u(2) i2]) simp_all
  show "envs_inv s4" by (rule upd_env_inv[OF u(3) i3]) simp_all
qed

lemma envs_inv_same: "same_envs t s \<Longrightarrow> envs_inv s \<Longrightarrow> envs_inv t"
  by (rule envs_inv_frame[THEN iffD2])

text \<open>The specification of a system call, and its proof by the rules of the control flow.\<close>

abbreviation sys_spec :: "(outcome \<times> kst) option \<Rightarrow> bool" where
  "sys_spec m \<equiv> holds (\<lambda>(res, t). sys_ok res t) m"

lemma sys_exofork_inv [sys_inv]: "envs_inv s \<Longrightarrow> sys_spec (sys_exofork s)"
  unfolding sys_exofork_def
  by (intro vcg) (clarsimp; blast intro: exofork_child_inv env_alloc_fail_inv)+

lemma sys_cputs_inv [sys_inv]:
  assumes inv: "envs_inv s"
  shows "sys_spec (sys_cputs str len s)"
proof -
  have "left_ok l t" if "curenv s = Some e" "user_mem_assert e str len PTE_U s = Some (l, t)" for e l t
    using user_mem_assert_ok[OF that(2) inv] inv that(1) by (simp add: envs_inv_def cur_ok_def)
  then show ?thesis unfolding sys_cputs_def
    by (intro vcg) (fastforce dest: print_arg_inv)+
qed

lemma sys_cgetc_inv [sys_inv]: "envs_inv s \<Longrightarrow> sys_spec (sys_cgetc s)"
  unfolding sys_cgetc_def by (intro vcg) simp

lemma sys_getenvid_inv [sys_inv]: "envs_inv s \<Longrightarrow> sys_spec (sys_getenvid s)"
  unfolding sys_getenvid_def by (intro vcg) simp

lemma sys_yield_inv [sys_inv]: "envs_inv s \<Longrightarrow> sys_spec (sys_yield s)"
  unfolding sys_yield_def by (intro vcg) (auto dest: sched_yield_ok)

lemma sys_env_destroy_inv [sys_inv]:
  assumes inv: "envs_inv s"
  shows "sys_spec (sys_env_destroy eid s)"
proof -
  have "left_ok l t" if "envid2env eid True s = Some (r, Some e)" "env_destroy e s = Some (l, t)" for r e l t
    using env_destroy_ok[OF that(2) inv] envid2env_live(3)[OF that(1) inv] by simp
  then show ?thesis unfolding sys_env_destroy_def
    by (intro vcg) (use inv in \<open>fastforce split: option.splits\<close>)+
qed

lemma sys_env_set_status_inv [sys_inv]:
  assumes inv: "envs_inv s"
  shows "sys_spec (sys_env_set_status eid st s)"
proof -
  let ?f = "\<lambda>ent. ent\<lparr>env_status := (if st = status_num ENV_RUNNABLE then ENV_RUNNABLE else ENV_NOT_RUNNABLE)\<rparr>"
  have "envs_inv t" if "envid2env eid True s = Some (r, Some e)" "upd_env e ?f s = Some t" for r e t
    by (rule upd_env_inv[OF that(2) inv]) (use envid2env_live(3)[OF that(1) inv] in simp_all)
  then show ?thesis unfolding sys_env_set_status_def
    by (intro vcg) (use inv in \<open>auto simp del: status_num.simps\<close>)
qed

text \<open>The calls that change a field of the environment they find, and those that change pages.\<close>

lemma sys_env_set_trapframe_inv [sys_inv]: "envs_inv s \<Longrightarrow> sys_spec (sys_env_set_trapframe eid tf s)"
  unfolding sys_env_set_trapframe_def by (intro vcg) (auto elim: upd_env_inv)

lemma sys_env_set_pgfault_upcall_inv [sys_inv]:
  "envs_inv s \<Longrightarrow> sys_spec (sys_env_set_pgfault_upcall eid func s)"
  unfolding sys_env_set_pgfault_upcall_def by (intro vcg) (auto elim: upd_env_inv)

lemma sys_page_alloc_frame: "holds (\<lambda>(res, t). same_envs t s \<and> (\<exists>r. res = Ret r)) (sys_page_alloc eid va perm s)"
  unfolding sys_page_alloc_def by (intro vcg) (auto dest!: env_frames)

lemma sys_page_map_frame: "holds (\<lambda>(res, t). same_envs t s \<and> (\<exists>r. res = Ret r)) (sys_page_map se sva de dva perm s)"
  unfolding sys_page_map_def by (intro vcg) (auto dest!: env_frames)

lemma sys_page_unmap_frame: "holds (\<lambda>(res, t). same_envs t s \<and> (\<exists>r. res = Ret r)) (sys_page_unmap eid va s)"
  unfolding sys_page_unmap_def by (intro vcg) (auto dest!: env_frames)

definition keeps_envs :: "kst \<Rightarrow> kst \<Rightarrow> bool" where
  "keeps_envs s t \<longleftrightarrow> envs_inv t \<and> (\<forall>j. env_status (envs t ! j) = env_status (envs s ! j))"

lemma keeps_envs_same: "same_envs u t \<Longrightarrow> keeps_envs s t \<Longrightarrow> keeps_envs s u"
  using envs_inv_same[of u t] same_envsD(1)[of u t] by (auto simp: keeps_envs_def)

lemma keeps_envs_upd:
  assumes "upd_env i f t = Some u" and "keeps_envs s t"
    and "\<And>e. env_link (f e) = env_link e" "\<And>e. env_id (f e) = env_id e"
    "\<And>e. env_pgdir (f e) = env_pgdir e" "\<And>e. env_status (f e) = env_status e"
  shows "keeps_envs s u"
proof -
  have k: "envs_inv t" "\<forall>j. env_status (envs t ! j) = env_status (envs s ! j)"
    using assms(2) by (simp_all add: keeps_envs_def)
  have "envs_inv u" by (rule upd_env_inv[OF assms(1) k(1) assms(3,4,5)]) (simp only: assms(6))
  moreover have "\<forall>j. env_status (envs u ! j) = env_status (envs s ! j)"
    unfolding upd_env_status[OF assms(1,6)] by (rule k(2))
  ultimately show ?thesis by (simp add: keeps_envs_def)
qed

lemmas keeps_frames =
  keeps_envs_same[OF page_lookup_frame] keeps_envs_same[OF page_insert_frame]
  keeps_envs_same[OF page_remove_frame]

lemma keeps_envs_perm: "upd_env i (\<lambda>e. e\<lparr>env_ipc_perm := q\<rparr>) t = Some u \<Longrightarrow> keeps_envs s t \<Longrightarrow> keeps_envs s u"
  by (erule keeps_envs_upd) simp_all

lemma ipc_send_page_keeps:
  assumes k: "keeps_envs s s"
  shows "holds (\<lambda>(r, t). keeps_envs s t) (ipc_send_page e srcva perm s)"
  unfolding ipc_send_page_def
  by (intro vcg, simp_all only: prod.case k) (rule k | erule keeps_frames keeps_envs_perm)+

lemma sys_ipc_try_send_inv [sys_inv]:
  assumes inv: "envs_inv s"
  shows "sys_spec (sys_ipc_try_send eid val srcva perm s)"
proof -
  have k: "keeps_envs s s" using inv by (simp add: keeps_envs_def)
  have q: "keeps_envs s t"
    if "(if srcva < UTOP then ipc_send_page e srcva perm s else Some (Inr (), s)) = Some (r, t)" for e r t
    using that k holdsD[OF ipc_send_page_keeps[OF k], of e srcva perm "(r, t)"] by (auto split: if_splits)
  have f: "envs_inv t" if "keeps_envs s s'" "upd_env e (\<lambda>ent. ent\<lparr>env_ipc_recving := False\<rparr>) s' = Some s2"
    "upd_env e (\<lambda>ent. ent\<lparr>env_ipc_from := fr, env_ipc_value := val, env_ipc_perm := perm,
                            env_status := ENV_RUNNABLE\<rparr>) s2 = Some t"
    "envid2env eid False s = Some (r, Some e)" for s' s2 t e fr r
  proof -
    have k2: "keeps_envs s s2" by (rule keeps_envs_upd[OF that(2,1)]) simp_all
    then have i2: "envs_inv s2" by (simp add: keeps_envs_def)
    show ?thesis
      by (rule upd_env_inv[OF that(3) i2]) (use k2 envid2env_live(3)[OF that(4) inv] in \<open>simp_all add: keeps_envs_def\<close>)
  qed
  show ?thesis unfolding sys_ipc_try_send_def
    by (intro vcg, simp_all add: inv, drule q, simp add: keeps_envs_def, drule q, erule (3) f)
qed

lemma sys_ipc_recv_inv [sys_inv]:
  assumes inv: "envs_inv s"
  shows "sys_spec (sys_ipc_recv dstva s)"
proof -
  have f: "envs_inv t" if "curenv s = Some c"
    "(if dstva < UTOP then upd_env c (\<lambda>e. e\<lparr>env_ipc_dstva := dstva\<rparr>) s else Some s) = Some s1"
    "upd_env c (\<lambda>e. e\<lparr>env_ipc_recving := True, env_status := ENV_NOT_RUNNABLE,
               env_tf := (env_tf e)\<lparr>tf_regs := (tf_regs (env_tf e))\<lparr>reg_eax := 0\<rparr>\<rparr>\<rparr>) s1 = Some t" for c s1 t
  proof -
    have k: "keeps_envs s s1" using that(2) inv
      by (auto simp: keeps_envs_def split: if_splits elim!: upd_env_inv upd_env_status)
    then have i1: "envs_inv s1" by (simp add: keeps_envs_def)
    have st: "env_status (envs s ! c) \<noteq> ENV_FREE" using inv that(1) by (simp add: envs_inv_def cur_ok_def)
    show ?thesis by (rule upd_env_inv[OF that(3) i1]) (use k st in \<open>simp_all add: keeps_envs_def\<close>)
  qed
  show ?thesis unfolding sys_ipc_recv_def
    by (intro vcg, simp_all add: inv, drule (2) f) (rule conjI; erule (1) sched_yield_ok)
qed

text \<open>All of them, by the number of the call.\<close>

lemma sys_page_inv [sys_inv]:
  assumes "envs_inv s"
  shows "sys_spec (sys_page_unmap eid va s)" "sys_spec (sys_page_alloc eid va perm s)"
    "sys_spec (sys_page_map se sva de dva perm s)"
  using sys_page_unmap_frame[of s eid va] sys_page_alloc_frame[of s eid va perm]
    sys_page_map_frame[of s se sva de dva perm] envs_inv_same[OF _ assms]
  by (auto simp: holds_def)

lemma syscall_inv: "envs_inv s \<Longrightarrow> sys_spec (syscall n a1 a2 a3 a4 a5 s)"
  unfolding syscall_def by (intro holds_if) (simp_all add: sys_inv holds_Some)

section \<open>Traps\<close>

abbreviation left_spec :: "(leave option \<times> kst) option \<Rightarrow> bool" where
  "left_spec m \<equiv> holds (\<lambda>(l, t). left_ok l t) m"

lemma push_utf_frame: "holds (\<lambda>t. same_envs t s) (push_utf u va tf s)"
  unfolding push_utf_def by (intro vcg, rule holdsI) (auto dest!: env_frames)

lemma cur_live: "envs_inv s \<Longrightarrow> curenv s = Some c \<Longrightarrow> c < NENV \<and> env_status (envs s ! c) \<noteq> ENV_FREE"
  by (simp add: envs_inv_def cur_ok_def)

lemma cur_envD: "cur_env s = Some (c, e) \<Longrightarrow> curenv s = Some c"
  by (auto simp: cur_env_def bind_eq_Some_conv)

lemma env_run_cur:
  assumes "env_run c s = Some (how, t)" and "envs_inv s" and "curenv s = Some c"
  shows "left_ok (Some how) t"
  using env_run_ok[OF assms(1,2)] cur_live[OF assms(2,3)] by simp

lemma page_fault_push:
  assumes inv: "envs_inv s" and c: "curenv s = Some c"
    and a: "user_mem_assert c u n p s = Some (None, s1)"
    and b: "user_mem_assert c w m q s1 = Some (None, s2)"
    and pu: "push_utf u va tf s2 = Some s3" and up: "upd_env c (\<lambda>e. e\<lparr>env_tf := (env_tf e)\<lparr>tf_eip := env_pgfault_upcall e, tf_esp := u\<rparr>\<rparr>) s3 = Some s4"
    and r: "env_run c s4 = Some (how, t)"
  shows "left_ok (Some how) t"
proof -
  have f1: "same_envs s1 s" by (rule user_mem_assert_None[OF a c])
  have c1: "curenv s1 = Some c" using same_envsD(3)[OF f1] c by simp
  have f2: "same_envs s2 s" using user_mem_assert_None[OF b c1] f1 by simp
  have f3: "same_envs s3 s" using holdsD[OF push_utf_frame pu] f2 by simp
  have i3: "envs_inv s3" by (rule envs_inv_same[OF f3 inv])
  have i4: "envs_inv s4" by (rule upd_env_inv[OF up i3]) simp_all
  have "curenv s4 = Some c" using up same_envsD(3)[OF f3] c by (auto simp: upd_env_def bind_eq_Some_conv)
  then show ?thesis using r i4 by (intro env_run_cur)
qed

lemma page_fault_handler_inv:
  assumes inv: "envs_inv s"
  shows "left_spec (page_fault_handler tfp cr2 s)"
proof -
  have a: "left_ok l t" if "cur_env s = Some (c, ce)" "user_mem_assert c u n p s = Some (l, t)" for c ce u n p l t
    using user_mem_assert_ok[OF that(2) inv] cur_live[OF inv cur_envD[OF that(1)]] by simp
  have b: "left_ok l t" if "cur_env s = Some (c, ce)" "user_mem_assert c u n p s = Some (None, s1)"
      "user_mem_assert c w m q s1 = Some (l, t)" for c ce u n p s1 l t w m q
  proof -
    have f: "same_envs s1 s" by (rule user_mem_assert_None[OF that(2) cur_envD[OF that(1)]])
    show ?thesis
      by (rule user_mem_assert_ok[OF that(3) envs_inv_same[OF f inv]])
         (use same_envsD(1)[OF f] cur_live[OF inv cur_envD[OF that(1)]] in simp)
  qed
  have d: "left_ok l t" if "cur_env s = Some (c, ce)" "env_destroy c s = Some (l, t)" for c ce l t
    using env_destroy_ok[OF that(2) inv] cur_live[OF inv cur_envD[OF that(1)]] by simp
  have e: "left_ok (Some how) t"
    if "cur_env s = Some (c, ce)" "user_mem_assert c u n p s = Some (None, s1)"
      "user_mem_assert c w m q s1 = Some (None, s2)" "push_utf u va tf s2 = Some s3"
      "upd_env c (\<lambda>e. e\<lparr>env_tf := (env_tf e)\<lparr>tf_eip := env_pgfault_upcall e, tf_esp := u\<rparr>\<rparr>) s3 = Some s4"
      "env_run c s4 = Some (how, t)" for c ce u n p s1 w m q s2 va tf s3 s4 how t
    by (rule page_fault_push[OF inv cur_envD[OF that(1)] that(2-6)])
  show ?thesis unfolding page_fault_handler_def
    by (intro vcg holdsI, simp_all only: prod.case) ((erule (5) e | erule (2) b | erule (1) a | (clarsimp, erule (1) d)))+
qed

lemma trap_return_inv:
  assumes inv: "envs_inv s"
  shows "holds (\<lambda>(how, t). left_ok (Some how) t) (trap_return s)"
proof -
  have "left_ok (Some how) t" if "sched_yield s = Some (how, t)" for how t
    using sched_yield_ok[OF that inv] by simp
  then show ?thesis unfolding trap_return_def
    by (intro vcg holdsI) (use env_run_cur[OF _ inv] in auto)
qed

lemma set_eax_inv: "set_eax tf r s = Some t \<Longrightarrow> envs_inv s \<Longrightarrow> envs_inv t"
  by (auto simp: set_eax_def split: tf_ptr.splits elim!: upd_env_inv)

lemma trap_dispatch_inv:
  assumes inv: "envs_inv s"
  shows "left_spec (trap_dispatch tfp cr2 s)"
proof -
  have sys: "sys_ok res t" if "syscall n a b c d e s = Some (res, t)" for n a b c d e res t
    using holdsD[OF syscall_inv[OF inv] that] by simp
  have y: "left_ok (Some how) t" if "sched_yield s = Some (how, t)" for how t
    using sched_yield_ok[OF that inv] by simp
  have pf: "left_ok l t" if "page_fault_handler tfp cr2 s = Some (l, t)" for l t
    using holdsD[OF page_fault_handler_inv[OF inv] that] by simp
  have d: "left_ok l t" if "curenv s = Some c" "env_destroy c s = Some (l, t)" for c l t
    using env_destroy_ok[OF that(2) inv] cur_live[OF inv that(1)] by simp
  have ex: "left_ok None t" if "syscall n a b c d e s = Some (Ret r, s1)" "set_eax tfp v s1 = Some t"
    for n a b c d e r s1 v t
    using set_eax_inv[OF that(2)] sys[OF that(1)] by simp
  show ?thesis unfolding trap_dispatch_def
    by (intro vcg holdsI, simp_all only: prod.case)
       (auto simp: leave_ok_def inv dest: sys y pf d ex)
qed

lemma trap_body_inv:
  assumes inv: "envs_inv s"
  shows "holds (\<lambda>(how, t). left_ok (Some how) t) (trap_body tfp cr2 s)"
proof -
  have d: "left_ok l t" if "trap_dispatch tfp cr2 s = Some (l, t)" for l t
    using holdsD[OF trap_dispatch_inv[OF inv] that] by simp
  have r: "left_ok (Some how) t" if "trap_return s1 = Some (how, t)" "envs_inv s1" for s1 how t
    using holdsD[OF trap_return_inv[OF that(2)] that(1)] by simp
  show ?thesis unfolding trap_body_def
    by (intro vcg holdsI, simp_all only: prod.case) (auto dest!: d dest: r)
qed

lemma lock_kernel_inv: "lock_kernel s = Some t \<Longrightarrow> envs_inv t = envs_inv s \<and> panicked t = panicked s"
  by (auto simp: lock_kernel_def split: if_splits)

lemma trap_inv:
  assumes inv: "envs_inv s" and np: "\<not> panicked s"
  shows "holds (\<lambda>(how, t). left_ok (Some how) t) (trap tf cr2 fl s)"
proof -
  have b: "left_ok (Some how) t" if "trap_body tfp cr2 s1 = Some (how, t)" "envs_inv s1" for tfp s1 how t
    using holdsD[OF trap_body_inv[OF that(2)] that(1)] by simp
  have z: "left_ok (Some how) t"
    if "envs_inv s1" "cur_env s1 = Some (c, ce)" "env_free c s1 = Some s2"
      "sched_yield (s2\<lparr>curenv := None\<rparr>) = Some (how, t)" for s1 c ce s2 how t
  proof -
    have "envs_core s2" using env_free_core(1)[OF that(3)] that(1) cur_live[OF that(1) cur_envD[OF that(2)]]
      by (simp add: envs_inv_def)
    then have "envs_inv (s2\<lparr>curenv := None\<rparr>)" by (simp add: envs_inv_def)
    from sched_yield_ok[OF that(4) this] show ?thesis by simp
  qed
  have u: "left_ok (Some how) t"
    if "envs_inv s1" "upd_env c (\<lambda>e. e\<lparr>env_tf := tf\<rparr>) s1 = Some s2" "trap_body tfp cr2 s2 = Some (how, t)" for s1 c s2 tfp how t
    by (rule b[OF that(3)]) (rule upd_env_inv[OF that(2,1)], simp_all)
  have l: "envs_inv s1" if "(if c then lock_kernel (s\<lparr>cpu_status := cs\<rparr>) else Some (s\<lparr>cpu_status := cs\<rparr>)) = Some s1" for c cs s1
    using that inv by (auto split: if_splits dest!: lock_kernel_inv)
  show ?thesis unfolding trap_def
    by (intro vcg holdsI, simp_all only: prod.case np)
       (drule l, (drule lock_kernel_inv)?, clarsimp simp del: left_ok_Some, blast intro: z u b)+
qed

end
