(* ===== verification/UserMem.thy ===== *)
theory UserMem
  imports PmapTables
begin

text \<open>
  The check of user pointers, \<open>user_mem_check\<close> of \<open>kern/pmap.c\<close>: what a successful check
  guarantees, which address a failing one reports, and the two ways in which the code accepts
  more than its comment says.
\<close>

section \<open>What one round sees\<close>

lemma pgdir_walk_False:
  "pgdir_walk pd va False s =
    (if \<not> pde_present s pd (PDX va) then Some (None, s)
     else if npages s \<le> pt_frame s pd (PDX va) then None
     else Some (Some (pt_frame s pd (PDX va), PTX va), s))"
  by (simp add: pgdir_walk_def pde_present_def pt_frame_def read_pte_def KADDR_def)

text \<open>A lookup, in every case: it never changes the state.\<close>

lemma page_lookup_eq:
  "page_lookup pd va s =
    (if \<not> pde_present s pd (PDX va) then Some (None, s)
     else if npages s \<le> pt_frame s pd (PDX va) \<or> npages s \<le> pte_page (va_pte s pd va) then None
     else Some (Some (pte_page (va_pte s pd va), (pt_frame s pd (PDX va), PTX va)), s))"
  by (simp add: page_lookup_def pgdir_walk_False or_PTE_P_nonzero read_pte_def
      va_pte_def pte_page_def pa2page_def)

lemma read_pte_loc:
  "pde_present s pd (PDX va) \<Longrightarrow> read_pte s (pt_frame s pd (PDX va), PTX va) = va_pte s pd va"
  by (simp add: read_pte_def va_pte_def)

text \<open>The test that \<open>user_mem_check\<close> makes of one page.\<close>

definition umc_ok :: "kst \<Rightarrow> nat \<Rightarrow> u32 \<Rightarrow> u32 \<Rightarrow> bool" where
  "umc_ok s pd perm a \<longleftrightarrow> a < ULIM \<and> va_pte s pd a AND perm \<noteq> 0"

text \<open>All addresses of a page have the same answer.\<close>

lemma unat_ULIM: "unat ULIM = 980992 * 4096"
  by (simp add: ULIM_def)

lemma umc_ok_page:
  assumes "umc_ok s pd perm p" and "4096 dvd unat p" and "p \<le> a" and "unat a < unat p + 4096"
  shows "umc_ok s pd perm a"
proof -
  from assms(2) obtain k where k: "unat p = 4096 * k" by auto
  have le: "unat p \<le> unat a" using assms(3) by (simp add: word_le_nat_alt)
  have ka: "unat a div 4096 = k" using k le assms(4) by auto
  then have "PGNUM a = PGNUM p" using k by (simp add: PGNUM_arith)
  then have "va_pte s pd a = va_pte s pd p" by (simp add: same_page_iff va_pte_def)
  moreover have "a < ULIM"
    using assms(1,4) k unat_ULIM by (simp add: umc_ok_def word_less_nat_alt)
  ultimately show ?thesis using assms(1) by (simp add: umc_ok_def)
qed

lemma umc_round:
  assumes "aux < lst" and "aux < ULIM"
  shows "user_mem_check_loop pd va aux lst perm s =
    (case page_lookup pd aux s of None \<Rightarrow> None | Some (r, s') \<Rightarrow>
       if umc_ok s pd perm aux then user_mem_check_loop pd va (aux + PGSIZE) lst perm s
       else Some (- E_FAULT, s\<lparr>user_mem_check_addr := (if aux < va then va else aux)\<rparr>))"
  using assms
  by (subst user_mem_check_loop.simps)
     (auto simp: page_lookup_eq read_pte_loc umc_ok_def va_pte_def)

section \<open>The loop\<close>

lemma aux_step:
  assumes "aux < ULIM"
  shows "unat (aux + PGSIZE) = unat aux + 4096"
  using assms by (simp add: word_less_nat_alt unat_word_ariths mmu_consts)

text \<open>
  Every outcome of the loop from a page-aligned \<open>aux\<close>: all addresses up to \<open>lst\<close> are good, or
  the first bad page has been reported, at \<open>va\<close> when that lies inside it.
\<close>

lemma user_mem_check_loop_result:
  assumes "user_mem_check_loop pd va aux lst perm s = Some (r, t)" and "4096 dvd unat aux"
  shows "(r = 0 \<and> t = s \<and> (\<forall>a. aux \<le> a \<and> a < lst \<longrightarrow> umc_ok s pd perm a))
       \<or> (r = - E_FAULT \<and> (\<exists>p. aux \<le> p \<and> p < lst \<and> 4096 dvd unat p \<and> \<not> umc_ok s pd perm p
             \<and> (\<forall>a. aux \<le> a \<and> a < p \<longrightarrow> umc_ok s pd perm a)
             \<and> t = s\<lparr>user_mem_check_addr := (if p < va then va else p)\<rparr>))"
  using assms
proof (induction pd va aux lst perm s rule: user_mem_check_loop.induct)
  case (1 pd va aux lst perm s)
  consider (fin) "\<not> aux < lst" | (high) "aux < lst" "\<not> aux < ULIM"
    | (bad) "aux < lst" "aux < ULIM" "\<not> umc_ok s pd perm aux"
    | (good) "aux < lst" "aux < ULIM" "umc_ok s pd perm aux" by blast
  then show ?case
  proof cases
    case fin
    then have "r = 0 \<and> t = s" using "1.prems"(1) by (subst (asm) user_mem_check_loop.simps) simp
    then show ?thesis using fin by (auto simp: not_less)
  next
    case high
    then have "r = - E_FAULT \<and> t = s\<lparr>user_mem_check_addr := (if aux < va then va else aux)\<rparr>"
      using "1.prems"(1) by (subst (asm) user_mem_check_loop.simps) (simp add: not_less)
    moreover have "\<not> umc_ok s pd perm aux" using high by (simp add: umc_ok_def)
    ultimately show ?thesis using high "1.prems"(2) by (intro disjI2 conjI exI[of _ aux]) auto
  next
    case bad
    then have "r = - E_FAULT \<and> t = s\<lparr>user_mem_check_addr := (if aux < va then va else aux)\<rparr>"
      using "1.prems"(1) by (auto simp: umc_round split: option.splits)
    then show ?thesis using bad "1.prems"(2) by (intro disjI2 conjI exI[of _ aux]) auto
  next
    case good
    then obtain rs where lk: "page_lookup pd aux s = Some rs" and
      rec: "user_mem_check_loop pd va (aux + PGSIZE) lst perm s = Some (r, t)"
      using "1.prems"(1) by (auto simp: umc_round split: option.splits)
    have un: "unat (aux + PGSIZE) = unat aux + 4096" using good(2) by (rule aux_step)
    have al: "4096 dvd unat (aux + PGSIZE)" using "1.prems"(2) un by simp
    have rs: "rs = (Some (pte_page (va_pte s pd aux), (pt_frame s pd (PDX aux), PTX aux)), s)"
      "pde_present s pd (PDX aux)"
      using lk good(3) by (auto simp: page_lookup_eq umc_ok_def va_pte_def split: if_splits)
    have nh: "\<not> ULIM \<le> aux" using good(2) by simp
    have c: "\<not> \<not> (case fst rs of None \<Rightarrow> False | Some (pp, pte) \<Rightarrow> read_pte (snd rs) pte AND perm \<noteq> 0)"
      using rs good(3) by (simp add: read_pte_loc umc_ok_def)
    have s: "snd rs = s" by (simp add: rs(1))
    note IH = "1.IH"[OF good(1) nh lk prod.collapse c, unfolded s, OF rec al]
    have here: "umc_ok s pd perm a" if "aux \<le> a" "\<not> aux + PGSIZE \<le> a" for a
      using umc_ok_page[OF good(3) "1.prems"(2) that(1)] that(2) un by (simp add: word_le_nat_alt)
    have lo: "aux \<le> aux + PGSIZE" using un by (simp add: word_le_nat_alt)
    from IH show ?thesis
    proof
      assume "r = 0 \<and> t = s \<and> (\<forall>a. aux + PGSIZE \<le> a \<and> a < lst \<longrightarrow> umc_ok s pd perm a)"
      then show ?thesis using here by blast
    next
      assume "r = - E_FAULT \<and> (\<exists>p. aux + PGSIZE \<le> p \<and> p < lst \<and> 4096 dvd unat p \<and> \<not> umc_ok s pd perm p
             \<and> (\<forall>a. aux + PGSIZE \<le> a \<and> a < p \<longrightarrow> umc_ok s pd perm a)
             \<and> t = s\<lparr>user_mem_check_addr := (if p < va then va else p)\<rparr>)"
      then obtain p where p: "r = - E_FAULT" "aux + PGSIZE \<le> p" "p < lst" "4096 dvd unat p"
        "\<not> umc_ok s pd perm p" "\<forall>a. aux + PGSIZE \<le> a \<and> a < p \<longrightarrow> umc_ok s pd perm a"
        "t = s\<lparr>user_mem_check_addr := (if p < va then va else p)\<rparr>" by blast
      have "aux \<le> p" using lo p(2) by (rule order_trans)
      moreover have "\<forall>a. aux \<le> a \<and> a < p \<longrightarrow> umc_ok s pd perm a" using here p(6) by blast
      ultimately show ?thesis using p by blast
    qed
  qed
qed

section \<open>The check\<close>

lemma PGSIZE_nz: "PGSIZE \<noteq> 0" and unat_PGSIZE: "unat PGSIZE = 4096"
  by (simp_all add: PGSIZE_def)

lemma unat_ROUNDUP_ge:
  assumes "unat x + 4096 \<le> 2 ^ 32"
  shows "unat x \<le> unat (ROUNDUP x PGSIZE)"
proof -
  have "unat (ROUNDUP x PGSIZE) = (unat x + 4096 - 1) div 4096 * 4096"
    using unat_ROUNDUP[OF PGSIZE_nz] assms by (simp add: unat_PGSIZE)
  then show ?thesis by simp
qed

lemma ROUNDDOWN_aligned: "4096 dvd unat (ROUNDDOWN va PGSIZE)"
  using ROUNDDOWN_dvd[of PGSIZE va] by (simp add: unat_PGSIZE)


definition mem_granted :: "kst \<Rightarrow> nat \<Rightarrow> u32 \<Rightarrow> nat \<Rightarrow> u32 \<Rightarrow> bool" where
  "mem_granted s pd va n perm \<longleftrightarrow>
     (\<forall>a. va \<le> a \<and> unat a < unat va + n \<longrightarrow> umc_ok s pd perm a)"

lemma user_mem_check_sound:
  assumes "user_mem_check pd va len perm s = Some (0, t)"
    and "unat va + unat len + 4096 \<le> 2 ^ 32"
  shows "t = s" and "mem_granted s pd va (unat len) perm"
proof -
  let ?up = "ROUNDUP (va + len) PGSIZE"
  have sum: "unat (va + len) = unat va + unat len"
    using assms(2) by (simp add: unat_word_ariths)
  have up: "unat va + unat len \<le> unat ?up"
    using unat_ROUNDUP_ge[of "va + len"] assms(2) sum by simp
  have res: "t = s \<and> (\<forall>a. ROUNDDOWN va PGSIZE \<le> a \<and> a < ?up \<longrightarrow> umc_ok s pd perm a)"
    using user_mem_check_loop_result[OF assms(1)[unfolded user_mem_check_def] ROUNDDOWN_aligned]
    by (auto simp: err_consts)
  then show "t = s" by simp
  show "mem_granted s pd va (unat len) perm"
    unfolding mem_granted_def
  proof (intro allI impI)
    fix a assume a: "va \<le> a \<and> unat a < unat va + unat len"
    then have "a < ?up" using up by (simp add: word_less_nat_alt)
    moreover have "ROUNDDOWN va PGSIZE \<le> a" using a ROUNDDOWN_le order_trans by blast
    ultimately show "umc_ok s pd perm a" using res by blast
  qed
qed

text \<open>The address that a failing check reports is the first bad one of the range.\<close>

lemma user_mem_check_fault:
  assumes "user_mem_check pd va len perm s = Some (r, t)" and "r \<noteq> 0"
  shows "r = - E_FAULT"
    and "\<not> umc_ok s pd perm (user_mem_check_addr t)"
    and "va \<le> user_mem_check_addr t"
    and "\<And>a. va \<le> a \<Longrightarrow> a < user_mem_check_addr t \<Longrightarrow> umc_ok s pd perm a"
    and "t = s\<lparr>user_mem_check_addr := user_mem_check_addr t\<rparr>"
proof -
  let ?lo = "ROUNDDOWN va PGSIZE"
  from user_mem_check_loop_result[OF assms(1)[unfolded user_mem_check_def] ROUNDDOWN_aligned] assms(2)
  obtain p where p: "r = - E_FAULT" "?lo \<le> p" "4096 dvd unat p" "\<not> umc_ok s pd perm p"
      "\<forall>a. ?lo \<le> a \<and> a < p \<longrightarrow> umc_ok s pd perm a"
      "t = s\<lparr>user_mem_check_addr := (if p < va then va else p)\<rparr>" by blast
  show "r = - E_FAULT" by (fact p(1))
  show "t = s\<lparr>user_mem_check_addr := user_mem_check_addr t\<rparr>" using p(6) by simp
  show "va \<le> user_mem_check_addr t" using p(6) by auto
  have lo: "?lo \<le> va" by (rule ROUNDDOWN_le)
  show "\<And>a. va \<le> a \<Longrightarrow> a < user_mem_check_addr t \<Longrightarrow> umc_ok s pd perm a"
    using p(5,6) lo by (auto split: if_splits)
  show "\<not> umc_ok s pd perm (user_mem_check_addr t)"
  proof (cases "p < va")
    case True
    have "unat va < unat p + 4096"
    proof -
      have "unat ?lo = unat va - unat va mod 4096" by (simp add: unat_ROUNDDOWN unat_PGSIZE)
      then have "unat va < unat ?lo + 4096" by simp
      then show ?thesis using p(2) by (simp add: word_le_nat_alt)
    qed
    then have "PGNUM va = PGNUM p"
      using p(3) True by (auto simp: PGNUM_arith word_less_nat_alt elim!: dvdE)
    then have "umc_ok s pd perm va \<Longrightarrow> umc_ok s pd perm p"
      using True by (auto simp: umc_ok_def same_page_iff va_pte_def split: if_splits)
    then show ?thesis using p(4,6) True by auto
  next
    case False
    then show ?thesis using p(4,6) by simp
  qed
qed

text \<open>
  A range whose end wraps around to 0 is accepted without looking at any page: \<open>last_page\<close>
  becomes 0 and the loop does not run, although the range lies at the top of the address space.
\<close>

lemma user_mem_check_wraps:
  assumes "unat va + unat len = 2 ^ 32"
  shows "user_mem_check pd va len perm s = Some (0, s)"
proof -
  have "va + len = 0" using assms by (simp add: unat_eq_0 [symmetric] unat_word_ariths)
  then have "ROUNDUP (va + len) PGSIZE = 0"
    by (simp add: ROUNDUP_def ROUNDDOWN_def PGSIZE_def)
  then show ?thesis by (simp add: user_mem_check_def user_mem_check_loop.simps)
qed

text \<open>
  One permission bit of \<open>perm\<close> is enough, although the comment asks for all of them: a page
  that the user may only read passes the check for writing.
\<close>

lemma user_mem_check_any_bit:
  assumes al: "4096 dvd unat va" and lo: "va < ULIM"
    and pde: "pde_present s pd (PDX va)" "pt_frame s pd (PDX va) < npages s"
    and pte: "va_pte s pd va AND PTE_U \<noteq> 0" "pte_page (va_pte s pd va) < npages s"
  shows "user_mem_check pd va PGSIZE (PTE_W OR PTE_U) s = Some (0, s)"
proof -
  have sum: "unat (va + PGSIZE) = unat va + 4096" using lo by (rule aux_step)
  have b: "unat va + 4096 + 4096 \<le> 2 ^ 32"
    using lo by (simp add: word_less_nat_alt ULIM_def)
  have up: "ROUNDUP (va + PGSIZE) PGSIZE = va + PGSIZE"
  proof (rule word_unat_eq_iff [THEN iffD2])
    show "unat (ROUNDUP (va + PGSIZE) PGSIZE) = unat (va + PGSIZE)"
      using unat_ROUNDUP[OF PGSIZE_nz, of "va + PGSIZE"] sum b al by (auto simp: unat_PGSIZE elim!: dvdE)
  qed
  have down: "ROUNDDOWN va PGSIZE = va"
    using al by (simp add: word_unat_eq_iff unat_ROUNDDOWN unat_PGSIZE)
  have lt: "va < va + PGSIZE" using sum by (simp add: word_less_nat_alt)
  have ok: "umc_ok s pd (PTE_W OR PTE_U) va"
    using pte(1) lo by (simp add: umc_ok_def bit.conj_disj_distrib or_eq_0_iff)
  have "user_mem_check_loop pd va va (va + PGSIZE) (PTE_W OR PTE_U) s =
      user_mem_check_loop pd va (va + PGSIZE) (va + PGSIZE) (PTE_W OR PTE_U) s"
    using umc_round[OF lt lo] ok pde pte(2) by (simp add: page_lookup_eq not_le)
  then show ?thesis
    by (simp add: user_mem_check_def up down user_mem_check_loop.simps[of pd va "va + PGSIZE"])
qed

end
