(* ===== verification/Demo.thy ===== *)
theory Demo
  imports SysInv UserMem
begin

text \<open>
  A small concrete state of the kernel, at which the witnesses of the properties are evaluated:
  sixteen frames, of which 5 to 15 are free; frame 1 is the kernel's page directory, frame 2 the
  directory of environment 0, frame 3 its page table for the addresses from \<open>0x800000\<close>, and
  frame 4 the page mapped there.  Environment 0 runs; the other entries of the table are free.
\<close>

definition demo_pages :: "pageinfo list" where
  "demo_pages = map (\<lambda>i. \<lparr>pp_link = (if 5 \<le> i \<and> i < 15 then Some (i + 1) else None),
                           pp_ref = (if i \<in> {2, 3, 4} then 1 else 0)\<rparr>) [0..<16]"

definition demo_env :: env where
  "demo_env = zero_env\<lparr>env_tf := fresh_tf, env_id := 0x1000, env_status := ENV_RUNNING,
                       env_runs := 1, env_pgdir := Some 2\<rparr>"

definition demo_envs :: "env list" where
  "demo_envs = demo_env # map (\<lambda>i. zero_env\<lparr>env_link := (if i + 1 < NENV then Some (i + 1) else None)\<rparr>) [1..<NENV]"

definition demo_con :: console where
  "demo_con = \<lparr>cbuf = replicate CONSBUFSIZE 0, crpos = 0, cwpos = 0, kbd_shift = 0, kbd_in = [],
     serial_exists = True, serial_in = [], serial_out = [], lpt_out = [],
     crt_buf = replicate CRT_SIZE 0, crt_pos = 0, crt_cursor = 0, rebooted = False\<rparr>"

definition demo_mem :: "nat \<Rightarrow> nat \<Rightarrow> u32" where
  "demo_mem f i = (if f = 2 \<and> i = 2 then 0x3007 else if f = 2 \<and> i = 957 then 0x2005
                   else if f = 3 \<and> i = 0 then 0x4007 else 0)"

definition demo :: kst where
  "demo = \<lparr>npages = 16, npages_basemem = 16, pages = demo_pages, page_free_list = Some 5,
     pmem = demo_mem, kern_pgdir = 1, nextfree = 0xF0002000, mmio_base = MMIOBASE,
     user_mem_check_addr = 0, tlb_log = [], cr3 = 2, envs = demo_envs, env_free_list = Some 1,
     curenv = Some 0, this_cpu = 0, con = demo_con, cpu_status = (\<lambda>_. CPU_STARTED),
     klock = Some 0, panicked = False\<rparr>"

lemma demo_simps [simp]:
  "npages demo = 16" "pages demo = demo_pages" "page_free_list demo = Some 5" "pmem demo = demo_mem"
  "kern_pgdir demo = 1" "cr3 demo = 2" "envs demo = demo_envs" "env_free_list demo = Some 1"
  "curenv demo = Some 0" "this_cpu demo = 0" "klock demo = Some 0" "panicked demo = False"
  "con demo = demo_con" "cpu_status demo = (\<lambda>_. CPU_STARTED)" "mmio_base demo = MMIOBASE"
  by (simp_all add: demo_def)

lemma demo_pages_nth: "i < 16 \<Longrightarrow> demo_pages ! i =
  \<lparr>pp_link = (if 5 \<le> i \<and> i < 15 then Some (i + 1) else None), pp_ref = (if i \<in> {2, 3, 4} then 1 else 0)\<rparr>"
  by (simp add: demo_pages_def)

lemma demo_pages_inv: "pages_inv demo" and demo_free_pages: "free_pages demo = [5..<16]"
proof -
  have ch: "chain pp_link (pages demo) (page_free_list demo) [5..<16]"
    unfolding demo_simps by (rule chain_upt) (simp_all add: demo_pages_nth, simp add: demo_pages_def)
  have len: "length (pages demo) = npages demo" "npages demo \<le> 2 ^ 20" by (simp_all add: demo_pages_def)
  have ref: "pp_ref (pages demo ! i) = 0" if "i \<in> set [5..<16]" for i
    using that by (simp add: demo_pages_nth del: upt_rec_numeral)
  have lnk: "pp_link (pages demo ! i) = None" if "i < npages demo" "i \<notin> set [5..<16]" for i
    using that by (simp add: demo_pages_nth del: upt_rec_numeral)
  show "pages_inv demo" by (rule pages_invI(1)[OF len ch distinct_upt ref lnk])
  show "free_pages demo = [5..<16]" by (rule pages_invI(2)[OF len ch distinct_upt ref lnk])
qed

lemma demo_PDX_UVPT [simp]: "PDX UVPT = 957"
  by (simp add: PDX_arith mmu_consts)

lemma demo_page2pa: "page2pa 3 = 0x3000" "page2pa 4 = 0x4000" "page2pa 2 = 0x2000"
  by (simp_all add: page2pa_def push_bit_eq_mult)

lemma demo_pde: "pde_present demo 2 d \<longleftrightarrow> d = 2 \<or> d = 957" "pt_frame demo 2 2 = 3" "pt_frame demo 2 957 = 2"
  by (auto simp: pde_present_def pt_frame_def demo_mem_def PTE_P_def PGNUM_arith PTE_ADDR_def)

lemma demo_pgdir_ok: "pgdir_ok demo 2"
  by (auto simp: pgdir_ok_def demo_pde demo_free_pages)

lemma demo_leaf_ok: "leaf_ok demo 2 4" "leaf_ok demo 2 0"
  by (auto simp: leaf_ok_def demo_pde demo_free_pages)

lemma demo_PDX: "PDX 0x800000 = 2" "PTX 0x800000 = 0" "PDX 0x801000 = 2" "PTX 0x801000 = 1"
  by (simp_all add: PDX_arith PTX_arith)

lemma demo_va: "va_pte demo 2 0x800000 = 0x4007" "va_pte demo 2 0x801000 = 0" "pte_page 0x4007 = 4"
  "pte_page 0 = 0"
  by (simp_all add: va_pte_def demo_pde demo_PDX demo_mem_def pte_page_def PGNUM_arith PTE_ADDR_def)

lemma demo_envs_nth: "demo_envs ! 0 = demo_env" "length demo_envs = NENV"
  "0 < i \<Longrightarrow> i < NENV \<Longrightarrow> demo_envs ! i = zero_env\<lparr>env_link := (if i + 1 < NENV then Some (i + 1) else None)\<rparr>"
  by (simp_all add: demo_envs_def NENV_def nth_Cons')

lemma demo_envs_inv: "envs_inv demo" and demo_free_envs: "free_envs demo = [1..<NENV]"
proof -
  have ch: "chain env_link (envs demo) (env_free_list demo) [1..<NENV]"
    unfolding demo_simps by (rule chain_upt) (auto simp: demo_envs_nth NENV_def)
  have len: "length (envs demo) = NENV" by (simp add: demo_envs_nth)
  have st: "i \<in> set [1..<NENV] \<longleftrightarrow> env_status (envs demo ! i) = ENV_FREE" if "i < NENV" for i
    using that by (cases "i = 0") (auto simp: demo_envs_nth demo_env_def zero_env_def)
  have "mk_id 1 0 = 0x1000" by (simp add: mk_id_def)
  then have "env_entry_ok 0 demo_env"
    by (auto simp: env_entry_ok_def demo_env_def intro: exI[of _ 1])
  then have ok: "env_entry_ok i (envs demo ! i)" if "i < NENV" for i
    using that by (cases "i = 0") (auto simp: demo_envs_nth env_entry_ok_def zero_env_def)
  have "cur_ok demo" by (simp add: cur_ok_def demo_envs_nth demo_env_def NENV_def)
  then show "envs_inv demo"
    using envs_coreI(1)[OF len ch distinct_upt st ok] by (simp add: envs_inv_def)
  show "free_envs demo = [1..<NENV]" by (rule envs_coreI(2)[OF len ch distinct_upt st ok])
qed

text \<open>The page of environment 0 can be read, and is zero.\<close>

lemma demo_page_addr:
  assumes "a < 4096"
  shows "PDX (0x800000 + word_of_nat a) = 2" "PTX (0x800000 + word_of_nat a) = 0"
proof -
  have "unat (0x800000 + word_of_nat a :: u32) = 8388608 + a"
    using assms by (simp add: unat_word_ariths unat_of_nat take_bit_eq_mod)
  moreover have "(8388608 + a) div 4096 = 2048" by (rule div_nat_eqI) (use assms in simp_all)
  ultimately show "PDX (0x800000 + word_of_nat a) = 2" "PTX (0x800000 + word_of_nat a) = 0"
    using assms by (simp_all add: PDX_arith PTX_arith)
qed

lemma demo_load_byte: "a < 4096 \<Longrightarrow> load_byte demo 2 (0x800000 + word_of_nat a) = Some 0"
  by (simp add: load_byte_def hw_frame_def demo_page_addr demo_pde va_pte_def demo_mem_def demo_va PTE_P_def
      get_byte_def Let_def)

lemma demo_load_bytes: "a + n \<le> 4096 \<Longrightarrow> load_bytes demo 2 (0x800000 + word_of_nat a) n = Some (replicate n 0)"
proof (induction n arbitrary: a)
  case (Suc n)
  have e: "0x800000 + word_of_nat a + 1 = (0x800000 + word_of_nat (Suc a) :: u32)" by simp
  have "load_bytes demo 2 (0x800000 + word_of_nat (Suc a)) n = Some (replicate n 0)"
    using Suc.prems by (intro Suc.IH) simp
  moreover have "load_byte demo 2 (0x800000 + word_of_nat a) = Some 0"
    using Suc.prems by (intro demo_load_byte) simp
  ultimately show ?case by (simp only: load_bytes.simps e) simp
qed simp

lemma demo_load_words: "a + 4 * n \<le> 4096 \<Longrightarrow> load_words demo 2 (0x800000 + word_of_nat a) n = Some (replicate n 0)"
proof (induction n arbitrary: a)
  case (Suc n)
  have e: "0x800000 + word_of_nat a + 4 = (0x800000 + word_of_nat (a + 4) :: u32)" by simp
  have "load_words demo 2 (0x800000 + word_of_nat (a + 4)) n = Some (replicate n 0)"
    using Suc.prems by (intro Suc.IH) simp
  moreover have "bytes_word (replicate 4 0) = 0" by (simp add: bytes_word_def numeral_eq_Suc)
  moreover have "load_bytes demo 2 (0x800000 + word_of_nat a) 4 = Some (replicate 4 0)"
    using Suc.prems by (intro demo_load_bytes) simp
  ultimately show ?case by (simp only: load_words.simps e load_word_def) simp
qed simp


lemma demo_env_alloc: "\<exists>t. env_alloc 0x1000 demo = Some ((0, Some 1), t)"
proof (rule env_alloc_succeeds[OF _ demo_pages_inv])
  show "envs_core demo" using demo_envs_inv by (simp add: envs_inv_def)
  show "free_envs demo = 1 # [Suc 1..<NENV]"
    unfolding demo_free_envs by (rule upt_conv_Cons) (simp add: NENV_def)
  show "free_pages demo = 5 # [6..<16]" by (simp add: demo_free_pages)
qed

end
