(* ===== verification/ForkProps.thy ===== *)
theory ForkProps
  imports Fork PmapTwo Demo
begin

text \<open>
  Copy-on-write sharing: what \<open>duppage\<close> leaves in the two address spaces.
\<close>

section \<open>Addresses of pages\<close>

lemma unat_PGSIZE: "unat PGSIZE = 4096"
  by (simp add: PGSIZE_def)

lemma page_address:
  assumes "n < 1048576"
  shows "PDX (word_of_nat n * PGSIZE) = n div 1024" "PTX (word_of_nat n * PGSIZE) = n mod 1024"
    "ROUNDUP (word_of_nat n * PGSIZE) PGSIZE = word_of_nat n * PGSIZE"
    "unat (word_of_nat n * PGSIZE :: u32) = n * 4096"
proof -
  show u: "unat (word_of_nat n * PGSIZE :: u32) = n * 4096"
    using assms by (simp add: PGSIZE_def unat_word_ariths unat_of_nat take_bit_eq_mod)
  show "PDX (word_of_nat n * PGSIZE) = n div 1024" unfolding PDX_arith u by simp
  show "PTX (word_of_nat n * PGSIZE) = n mod 1024" unfolding PTX_arith u by simp
  have "unat (ROUNDUP (word_of_nat n * PGSIZE) PGSIZE) = unat (word_of_nat n * PGSIZE :: u32)"
    using assms by (subst unat_ROUNDUP) (simp_all add: u unat_PGSIZE, simp add: PGSIZE_def)
  then show "ROUNDUP (word_of_nat n * PGSIZE) PGSIZE = word_of_nat n * PGSIZE" by (simp add: unsigned_word_eqI)
qed

lemma user_page_address:
  assumes "n < PGNUM UTOP"
  shows "n < 1048576" "word_of_nat n * PGSIZE < UTOP" "PDX (word_of_nat n * PGSIZE) \<noteq> PDX UVPT"
proof -
  have n: "n < 977920" using assms by (simp add: PGNUM_arith UTOP_def)
  then show "n < 1048576" by simp
  note A = page_address[OF this]
  show "word_of_nat n * PGSIZE < UTOP" using n by (simp add: word_less_nat_alt A(4) UTOP_def)
  show "PDX (word_of_nat n * PGSIZE) \<noteq> PDX UVPT" using n demo_PDX_UVPT by (simp add: A(1))
qed

section \<open>Mapping a page of one environment in another\<close>

lemma sys_page_map_inserts:
  assumes "envid2env se False s = Some (0, Some i)" "envid2env de False s = Some (0, Some j)"
    and "pgdir_of i s = Some sp" "pgdir_of j s = Some dp" "n < PGNUM UTOP"
    and "pgdir_ok s sp" "pde_present s sp (PDX (word_of_nat n * PGSIZE))"
    and "pte_page (va_pte s sp (word_of_nat n * PGSIZE)) = pp" "pp < npages s"
    and P: "(PTE_U OR PTE_P) AND perm = PTE_U OR PTE_P" and W: "perm AND PTE_W = 0"
    and I: "page_insert dp pp (word_of_nat n * PGSIZE) perm s = Some (0, t)"
  shows "usys_page_map se (word_of_nat n * PGSIZE) de (word_of_nat n * PGSIZE) perm s = Some (0, t)"
proof -
  note A = user_page_address[OF assms(5)]
  have U: "\<not> UTOP \<le> word_of_nat n * PGSIZE" using A(2) by simp
  have L: "page_lookup sp (word_of_nat n * PGSIZE) s
      = Some (Some (pp, (pt_frame s sp (PDX (word_of_nat n * PGSIZE)), PTX (word_of_nat n * PGSIZE))), s)"
    using page_lookup_present[OF assms(6) A(3) assms(7)] assms(8,9) by simp
  show ?thesis
    using assms(1-4) I W U
    by (simp add: usys_page_map_def usyscall_def syscall_def sys_page_map_def L P page_address(3)[OF A(1)]
        syscall_nums)
qed

section \<open>One page of fork\<close>

text \<open>Nothing in \<open>pd\<close> at \<open>va\<close> belongs to the tables of \<open>cd\<close>.\<close>

definition apart :: "kst \<Rightarrow> nat \<Rightarrow> nat \<Rightarrow> u32 \<Rightarrow> bool" where
  "apart s pd cd va \<longleftrightarrow> pd \<notin> dir_frames s cd
     \<and> (pde_present s pd (PDX va) \<longrightarrow> pt_frame s pd (PDX va) \<notin> dir_frames s cd)"

text \<open>A page mapped in \<open>pd\<close> is mapped in \<open>cd\<close> too, where nothing was mapped: both directories, the page and the count.\<close>

lemma insert_shared:
  assumes inv: "pages_inv s" and okp: "pgdir_ok s pd" and okc: "pgdir_ok s cd"
    and d: "PDX va \<noteq> PDX UVPT" and leafp: "leaf_ok s pd pp" and leafc: "leaf_ok s cd pp"
    and none: "va_pte s cd va AND PTE_P = 0" and room: "pde_present s cd (PDX va) \<or> free_pages s \<noteq> []"
    and apart: "apart s cd pd va" "apart s pd cd va" and pres: "pde_present s pd (PDX va)"
  obtains t where "page_insert cd pp va perm s = Some (0, t)" "pages_inv t" "pgdir_ok t cd" "pgdir_ok t pd"
    "npages t = npages s" "va_pte t cd va = page2pa pp OR perm OR PTE_P" "leaf_ok t pd pp" "leaf_ok t cd pp"
    "apart t pd cd va" "\<And>f. f \<in> dir_frames s pd \<Longrightarrow> pmem t f = pmem s f" "pmem t pp = pmem s pp"
    "\<And>vb. PDX vb \<noteq> PDX UVPT \<Longrightarrow> PGNUM vb \<noteq> PGNUM va \<Longrightarrow> va_pte t cd vb = va_pte s cd vb"
    "pp_ref (pages t ! pp) = pp_ref (pages s ! pp) + 1" "pde_present t cd (PDX va)"
proof -
  from page_insert_spec[OF inv okc d leafc _ room, of perm] none obtain t where
    T: "page_insert cd pp va perm s = Some (0, t)" "pages_inv t" "pgdir_ok t cd" "npages t = npages s"
      "va_pte t cd va = page2pa pp OR perm OR PTE_P" "pde_present t cd (PDX va)" "pp \<notin> set (free_pages t)"
      "\<forall>vb. PDX vb \<noteq> PDX UVPT \<and> PGNUM vb \<noteq> PGNUM va \<longrightarrow> va_pte t cd vb = va_pte s cd vb"
      "\<forall>r < npages s. pp_ref (pages t ! r) = pp_ref (pages s ! r) + (if r = pp then 1 else 0)
          + (if new_table s cd va = Some r then 1 else 0)
          - (if va_pte s cd va AND PTE_P \<noteq> 0 \<and> r = pte_page (va_pte s cd va) then 1 else 0)" by auto
  have pp: "pp < npages s" "pp \<notin> set (free_pages s)" "pp \<notin> dir_frames s cd" "pp \<notin> dir_frames s pd"
    using leafc leafp by (simp_all add: leaf_ok_frames)
  have free: "set (free_pages s) \<inter> dir_frames s pd = {}"
    using okp by (auto simp: pgdir_ok_def dir_frames_def)
  have tab: "insert_table s cd va \<noteq> pp" "insert_table s cd va \<notin> dir_frames s pd"
    using room pp free dir_frames_table[OF PDX_less d, of s cd] apart(1)
    by (cases "free_pages s"; auto simp: insert_table_def apart_def)+
  have new: "new_table s cd va \<noteq> Some pp" using pp by (auto simp: new_table_def split: list.splits)
  note O = page_insert_other[OF inv okc d leafc _ room T(1,4) okp]
  have same: "pmem t f = pmem s f" if "f \<in> dir_frames s pd" for f
    by (rule O(1)) (use none apart(1) that in \<open>auto simp: apart_def\<close>)
  have okt: "pgdir_ok t pd" by (rule O(2)) (use none apart(1) in \<open>auto simp: apart_def\<close>)
  note S = same_dir[of s pd t, OF same]
  have F: "dir_frames t cd \<subseteq> insert (insert_table s cd va) (dir_frames s cd)"
    by (rule page_insert_frames[OF inv okc d leafc _ room T(1)]) (use none in simp)
  show ?thesis
  proof (rule that[OF T(1,2,3) okt T(4,5)])
    show "leaf_ok t pd pp" using pp T(4,7) S(3) by (simp add: leaf_ok_frames)
    show "leaf_ok t cd pp" using pp T(4,7) F tab(1) by (auto simp: leaf_ok_frames)
    have "pd \<in> dir_frames s pd" "pt_frame s pd (PDX va) \<in> dir_frames s pd"
      using dir_frames_table[OF PDX_less d pres] by simp_all
    then show "apart t pd cd va" using apart(2) pres F tab(2) S(1,2) by (auto simp: apart_def)
    show "pmem t pp = pmem s pp"
      by (rule page_insert_rest(1)[OF inv okc d leafc _ room T(1)]) (use none pp tab(1) in auto)
    show "pp_ref (pages t ! pp) = pp_ref (pages s ! pp) + 1" using T(9) pp(1) new none by simp
  qed (use same T(6,8) in auto)
qed

text \<open>A page that is mapped in \<open>pd\<close> is mapped there once more with other permissions: the count stays.\<close>

lemma insert_again:
  assumes inv: "pages_inv t" and okp: "pgdir_ok t pd" and okc: "pgdir_ok t cd" and d: "PDX va \<noteq> PDX UVPT"
    and leafp: "leaf_ok t pd pp" and leafc: "leaf_ok t cd pp" and apart: "apart t pd cd va"
    and pres: "pde_present t pd (PDX va)" and m: "va_pte t pd va AND PTE_P \<noteq> 0" "pte_page (va_pte t pd va) = pp"
    and ref: "pp_ref (pages t ! pp) \<noteq> 0"
  obtains u where "page_insert pd pp va perm t = Some (0, u)" "pages_inv u" "pgdir_ok u pd" "pgdir_ok u cd"
    "va_pte u pd va = page2pa pp OR perm OR PTE_P" "pp_ref (pages u ! pp) = pp_ref (pages t ! pp)" "pmem u pp = pmem t pp"
    "\<And>vb. PDX vb \<noteq> PDX UVPT \<Longrightarrow> PGNUM vb \<noteq> PGNUM va \<Longrightarrow> va_pte u pd vb = va_pte t pd vb"
    "\<And>vb. PDX vb \<noteq> PDX UVPT \<Longrightarrow> va_pte u cd vb = va_pte t cd vb"
proof -
  have old: "va_pte t pd va AND PTE_P \<noteq> 0 \<Longrightarrow> leaf_ok t pd (pte_page (va_pte t pd va))" using leafp m by simp
  have pp: "pp < npages t" "pp \<noteq> pt_frame t pd (PDX va)" "pp \<noteq> pd"
    using leafp dir_frames_table[OF PDX_less d pres] by (auto simp: leaf_ok_frames)
  from page_insert_spec[OF inv okp d leafp, of perm] leafp m ref pres obtain u where
    U: "page_insert pd pp va perm t = Some (0, u)" "pages_inv u" "pgdir_ok u pd" "npages u = npages t"
      "va_pte u pd va = page2pa pp OR perm OR PTE_P"
      "\<forall>vb. PDX vb \<noteq> PDX UVPT \<and> PGNUM vb \<noteq> PGNUM va \<longrightarrow> va_pte u pd vb = va_pte t pd vb"
      "\<forall>r < npages t. pp_ref (pages u ! r) = pp_ref (pages t ! r) + (if r = pp then 1 else 0)
          + (if new_table t pd va = Some r then 1 else 0)
          - (if va_pte t pd va AND PTE_P \<noteq> 0 \<and> r = pte_page (va_pte t pd va) then 1 else 0)" by auto
  note O = page_insert_other[OF inv okp d leafp _ disjI1[OF pres] U(1,4) okc]
  have O: "\<And>f. f \<in> dir_frames t cd \<Longrightarrow> pmem u f = pmem t f" "pgdir_ok u cd"
    by (rule O; use old leafc apart m in \<open>auto simp: apart_def leaf_ok_frames\<close>)+
  show ?thesis
  proof (rule that[OF U(1,2,3) O(2) U(5)])
    show "pp_ref (pages u ! pp) = pp_ref (pages t ! pp)" using U(7) pp(1) pres m by (simp add: new_table_def)
    show "pmem u pp = pmem t pp"
      using page_insert_rest(1)[OF inv okp d leafp old disjI1[OF pres] U(1)] pp pres by (simp add: insert_table_def)
  qed (use U(6) same_dir(4)[OF O(1)] in auto)
qed

lemma share_perm: "(PTE_U OR PTE_P) AND (PTE_COW OR PTE_P OR PTE_U) = PTE_U OR PTE_P" "(PTE_COW OR PTE_P OR PTE_U) AND PTE_W = 0"
  "page2pa pp OR (PTE_COW OR PTE_P OR PTE_U) OR PTE_P = page2pa pp OR (PTE_COW OR PTE_P OR PTE_U)"
  by (simp_all add: PTE_COW_def PTE_U_def PTE_P_def PTE_W_def or.assoc)

text \<open>C38: \<open>duppage\<close> of a writable or copy-on-write page of the caller that is not marked \<open>PTE_SHARE\<close>, at an address where the child has nothing
  mapped, with a free page for a page table, in two address spaces that share no page table there: it returns 0, parent and child end up with the same frame at that
  address, copy-on-write and not writable in both; the frame's contents are untouched, its count of
  references is one higher, and every other page of the two address spaces is mapped as before.
\<close>

theorem duppage_shares_cow:
  fixes pn :: nat
  defines "va \<equiv> word_of_nat pn * PGSIZE"
  assumes "pages_inv s" "pgdir_ok s (cr3 s)" "pgdir_ok s cd" "self_mapped s (cr3 s)" "pn < PGNUM UTOP"
    and "curenv s = Some c" "pgdir_of c s = Some (cr3 s)"
    and "envid2env eid False s = Some (0, Some e)" "pgdir_of e s = Some cd"
    and "pmem s (cr3 s) (PDX va) AND PTE_P \<noteq> 0" "pmem s (cr3 s) (PDX va) AND PTE_U \<noteq> 0"
    and "va_pte s (cr3 s) va AND PTE_P \<noteq> 0" "va_pte s (cr3 s) va AND PTE_SHARE = 0"
    and "va_pte s (cr3 s) va AND PTE_W \<noteq> 0 \<or> va_pte s (cr3 s) va AND PTE_COW \<noteq> 0"
    and "pte_page (va_pte s (cr3 s) va) = pp" "pp_ref (pages s ! pp) + 1 \<noteq> 0"
    and "leaf_ok s (cr3 s) pp" "leaf_ok s cd pp" "va_pte s cd va AND PTE_P = 0" "free_pages s \<noteq> []"
    and "apart s cd (cr3 s) va" "apart s (cr3 s) cd va"
  shows "\<exists>t. duppage eid pn s = Some (0, t) \<and> pages_inv t \<and> pgdir_ok t (cr3 s) \<and> pgdir_ok t cd
    \<and> va_pte t (cr3 s) va = page2pa pp OR (PTE_COW OR PTE_P OR PTE_U)
    \<and> va_pte t cd va = page2pa pp OR (PTE_COW OR PTE_P OR PTE_U)
    \<and> pmem t pp = pmem s pp \<and> pp_ref (pages t ! pp) = pp_ref (pages s ! pp) + 1
    \<and> (\<forall>vb. PDX vb \<noteq> PDX UVPT \<and> PGNUM vb \<noteq> PGNUM va \<longrightarrow>
         va_pte t (cr3 s) vb = va_pte s (cr3 s) vb \<and> va_pte t cd vb = va_pte s cd vb)"
proof -
  let ?P = "cr3 s" and ?perm = "PTE_COW OR PTE_P OR PTE_U"
  note asm = assms(2-)
  note A = user_page_address[OF asm(5), folded va_def] page_address[OF user_page_address(1)[OF asm(5)], folded va_def]
  have pres: "pde_present s ?P (PDX va)" using asm(10) by (simp add: pde_present_def)
  have uv: "uvpt pn s = Some (va_pte s ?P va)"
    using uvpt_entry[OF asm(4) A(1)] pres asm(11) by (simp add: va_pte_def A(4,5))
  obtain t where T: "page_insert cd pp va ?perm s = Some (0, t)" "pages_inv t" "pgdir_ok t cd" "pgdir_ok t ?P"
    "npages t = npages s" "va_pte t cd va = page2pa pp OR ?perm OR PTE_P" "leaf_ok t ?P pp" "leaf_ok t cd pp"
    "apart t ?P cd va" "\<And>f. f \<in> dir_frames s ?P \<Longrightarrow> pmem t f = pmem s f" "pmem t pp = pmem s pp"
    "\<And>vb. PDX vb \<noteq> PDX UVPT \<Longrightarrow> PGNUM vb \<noteq> PGNUM va \<Longrightarrow> va_pte t cd vb = va_pte s cd vb"
    "pp_ref (pages t ! pp) = pp_ref (pages s ! pp) + 1" "pde_present t cd (PDX va)"
    by (rule insert_shared[OF asm(1-3) A(3) asm(17,18,19) _ asm(21,22) pres, where perm = ?perm]) (use asm(20) in auto)
  have S: "pde_present t ?P (PDX va)" "pt_frame t ?P (PDX va) = pt_frame s ?P (PDX va)"
    "\<And>vb. PDX vb \<noteq> PDX UVPT \<Longrightarrow> va_pte t ?P vb = va_pte s ?P vb"
    using same_dir[of s ?P t, OF T(10)] pres by simp_all
  have pp: "pp < npages s" "pp < npages t" using asm(17) T(7) by (simp_all add: leaf_ok_def)
  obtain u where U: "page_insert ?P pp va ?perm t = Some (0, u)" "pages_inv u" "pgdir_ok u ?P" "pgdir_ok u cd"
    "va_pte u ?P va = page2pa pp OR ?perm OR PTE_P" "pp_ref (pages u ! pp) = pp_ref (pages t ! pp)" "pmem u pp = pmem t pp"
    "\<And>vb. PDX vb \<noteq> PDX UVPT \<Longrightarrow> PGNUM vb \<noteq> PGNUM va \<Longrightarrow> va_pte u ?P vb = va_pte t ?P vb"
    "\<And>vb. PDX vb \<noteq> PDX UVPT \<Longrightarrow> va_pte u cd vb = va_pte t cd vb"
    by (rule insert_again[OF T(2,4,3) A(3) T(7,8,9) S(1), where perm = ?perm])
      (use S(3)[OF A(3)] T(13) asm(12,15,16) in simp_all)
  have E: "curenv t = curenv s" "pgdir_of i t = pgdir_of i s" "cr3 t = cr3 s" for i
    using same_envsD[OF page_insert_frame[OF T(1)]] by (simp_all add: pgdir_of_def)
  have c0: "envid2env 0 False s = Some (0, Some c)" "envid2env 0 False t = Some (0, Some c)"
    using asm(6) E(1) by (simp_all add: envid2env_def)
  have M1: "usys_page_map 0 va eid va ?perm s = Some (0, t)"
    using sys_page_map_inserts[OF c0(1) asm(8,7,9,5,2)] pres asm(15) pp(1) T(1) share_perm(1,2)
    by (simp add: va_def)
  have M2: "usys_page_map 0 va 0 va ?perm t = Some (0, u)"
    using sys_page_map_inserts[OF c0(2) c0(2), of ?P ?P pn pp ?perm u] E asm(5,7) T(4) S asm(15) A(3) pp(2) U(1) share_perm(1,2)
    by (simp add: va_def)
  have "duppage eid pn s = Some (0, u)"
    using asm(13,14) M1 M2 by (auto simp: duppage_def Let_def uv must_def va_def[symmetric])
  moreover have "va_pte u ?P va = page2pa pp OR ?perm" "va_pte u cd va = page2pa pp OR ?perm"
    using U(5) U(9)[OF A(3)] T(6) by (simp_all only: share_perm(3))
  ultimately show ?thesis using U(2-4,6-9) T(11-13) S(3) by (intro exI[of _ u]) simp
qed

text \<open>The program of the demonstration has a child with an empty directory.\<close>

definition demo_child :: kst where
  "demo_child = demo\<lparr>envs := demo_envs[1 := zero_env\<lparr>env_id := 0x1001, env_parent_id := 0x1000,
     env_status := ENV_NOT_RUNNABLE, env_pgdir := Some 1\<rparr>]\<rparr>"

lemma demo_child_simps [simp]:
  "pmem demo_child = demo_mem" "cr3 demo_child = 2" "npages demo_child = 16" "pages demo_child = demo_pages"
  "curenv demo_child = Some 0"
  by (simp_all add: demo_child_def)

lemma demo_child_free: "free_pages demo_child = [5..<16]"
  using demo_free_pages by (simp add: free_pages_def demo_child_def)

lemma demo_child_inv: "pages_inv demo_child"
  using demo_pages_inv by (simp add: pages_inv_def demo_child_free demo_free_pages) (simp add: demo_child_def)

lemma demo_child_dirs:
  "pde_present demo_child 2 d \<longleftrightarrow> d = 2 \<or> d = 957" "pt_frame demo_child 2 2 = 3" "\<not> pde_present demo_child 1 d"
  "va_pte demo_child 2 0x800000 = 0x4007" "dir_frames demo_child 1 = {1}" "dir_frames demo_child 2 = {2, 3}"
proof -
  show p: "pde_present demo_child 2 d \<longleftrightarrow> d = 2 \<or> d = 957" "pt_frame demo_child 2 2 = 3" for d
    using demo_pde by (simp_all add: pde_present_def pt_frame_def)
  show q: "\<not> pde_present demo_child 1 d" for d by (simp add: pde_present_def demo_mem_def)
  show "va_pte demo_child 2 0x800000 = 0x4007" using demo_va(1) p demo_pde by (simp add: va_pte_def demo_PDX)
  show "dir_frames demo_child 1 = {1}" by (simp add: dir_frames_def q del: One_nat_def)
  show "dir_frames demo_child 2 = {2, 3}" using p by (auto simp: dir_frames_def intro: exI[of _ 2])
qed

lemma demo_child_ok: "pgdir_ok demo_child 2" "pgdir_ok demo_child 1"
  by (auto simp: pgdir_ok_def demo_child_dirs demo_child_free simp del: One_nat_def)

lemma demo_child_envs:
  "pgdir_of 0 demo_child = Some 2" "pgdir_of 1 demo_child = Some 1"
  "envid2env 0x1001 False demo_child = Some (0, Some 1)"
proof -
  have n: "length (envs demo_child) = NENV" "envs demo_child ! 0 = demo_env"
    "envs demo_child ! 1 = zero_env\<lparr>env_id := 0x1001, env_parent_id := 0x1000,
       env_status := ENV_NOT_RUNNABLE, env_pgdir := Some 1\<rparr>"
    by (simp_all add: demo_child_def demo_envs_nth NENV_def)
  have at: "env_at demo_child 0 = Some demo_env" "env_at demo_child 1 = Some (envs demo_child ! 1)"
    using n by (simp_all add: env_at_def NENV_def)
  have x: "ENVX 0x1001 = 1" by (simp add: ENVX_def NENV_def)
  show "pgdir_of 0 demo_child = Some 2" by (simp add: pgdir_of_def at demo_env_def)
  show "pgdir_of 1 demo_child = Some 1" unfolding pgdir_of_def at n by simp
  show "envid2env 0x1001 False demo_child = Some (0, Some 1)"
    unfolding envid2env_def x at n by simp
qed

theorem duppage_shares_cow_witness:
  "\<exists>t. duppage 0x1001 0x800 demo_child = Some (0, t)
    \<and> va_pte t 2 0x800000 = page2pa 4 OR (PTE_COW OR PTE_P OR PTE_U)
    \<and> va_pte t 1 0x800000 = page2pa 4 OR (PTE_COW OR PTE_P OR PTE_U)"
proof -
  have va: "word_of_nat 0x800 * PGSIZE = 0x800000" by (simp add: PGSIZE_def)
  have map: "self_mapped demo_child (cr3 demo_child)"
    by (simp add: self_mapped_def demo_mem_def page2pa_def PTE_P_def PTE_U_def)
  note T = duppage_shares_cow[where s = demo_child and cd = 1 and pn = "0x800" and c = 0 and eid = "0x1001" and e = 1 and pp = 4,
      unfolded va, OF demo_child_inv _ demo_child_ok(2) map _ _ _ demo_child_envs(3,2)]
  have "\<not> pde_present demo_child 1 2" by (rule demo_child_dirs)
  then have "va_pte demo_child 1 0x800000 AND PTE_P = 0" by (simp add: va_pte_def demo_PDX del: One_nat_def)
  moreover have "0x800 < PGNUM UTOP" "pp_ref (demo_pages ! 4) + 1 \<noteq> 0" "demo_mem 2 2 = 0x3007"
    by (simp_all add: PGNUM_arith UTOP_def demo_pages_nth demo_mem_def)
  ultimately show ?thesis
    using T demo_child_ok(1) demo_child_envs(1) demo_child_dirs demo_va(3)
    by (simp add: PTE_P_def PTE_U_def PTE_W_def PTE_COW_def PTE_SHARE_def
        apart_def leaf_ok_frames demo_child_free demo_PDX del: One_nat_def) blast
qed

end
