(* ===== verification/SpawnProps.thy ===== *)
theory SpawnProps
  imports Spawn ForkProps
begin

text \<open>
  The stack page that \<open>init_stack\<close> prepares at \<open>UTEMP\<close>: in the child, where the page is the topmost one of
  the stack, it holds \<open>argc\<close>, \<open>argv\<close>, the array of pointers and the strings.
\<close>

section \<open>Bytes of the page at UTEMP\<close>

definition page_byte :: "kst \<Rightarrow> nat \<Rightarrow> nat \<Rightarrow> u8" where
  "page_byte s f k = get_byte (pmem s f (k div 4)) (k mod 4)"

text \<open>The page at \<open>UTEMP\<close> is frame \<open>f\<close>, writable for the user, and no part of its own translation.\<close>

definition utemp_at :: "kst \<Rightarrow> nat \<Rightarrow> bool" where
  "utemp_at s f \<longleftrightarrow> f \<noteq> cr3 s \<and> pt_frame s (cr3 s) (PDX UTEMP) \<noteq> f \<and> hw_frame s (cr3 s) UTEMP True = Some f \<and> user_page s UTEMP"

text \<open>Only the contents of frame \<open>f\<close> differ.\<close>

definition only_frame :: "nat \<Rightarrow> kst \<Rightarrow> kst \<Rightarrow> bool" where
  "only_frame f s t \<longleftrightarrow> (\<exists>m. t = s\<lparr>pmem := (pmem s)(f := m)\<rparr>)"

lemma only_frame_refl [simp]: "only_frame f s s"
  unfolding only_frame_def by (rule exI[of _ "pmem s f"]) simp

lemma only_frame_trans: "only_frame f s t \<Longrightarrow> only_frame f t u \<Longrightarrow> only_frame f s u"
  by (auto simp: only_frame_def)

lemma utemp_offset:
  assumes "k < 4096"
  shows "PGNUM (UTEMP + word_of_nat k) = PGNUM UTEMP" "unat (PGOFF (UTEMP + word_of_nat k)) = k"
proof -
  have u: "unat (UTEMP + word_of_nat k) = 4096 * 1024 + k"
    using assms by (simp add: UTEMP_def mmu_consts unat_word_ariths unat_of_nat take_bit_eq_mod)
  have "PGNUM UTEMP = 1024" by (simp add: UTEMP_def mmu_consts PGNUM_arith)
  moreover have "(4096 * 1024 + k) div 4096 = 1024" using assms by simp
  ultimately show "PGNUM (UTEMP + word_of_nat k) = PGNUM UTEMP" by (simp only: PGNUM_arith u)
  show "unat (PGOFF (UTEMP + word_of_nat k)) = k" using assms by (simp only: unat_PGOFF u mod_mult_self4 mod_less)
qed

lemma utemp_same:
  assumes "k < 4096"
  shows "hw_frame s pd (UTEMP + word_of_nat k) wr = hw_frame s pd UTEMP wr" "user_page s (UTEMP + word_of_nat k) = user_page s UTEMP"
  using PDX_PTX_of[OF utemp_offset(1)[OF assms]] by (simp_all add: hw_frame_def user_page_def va_pte_def)

lemma utemp_store:
  assumes u: "utemp_at s f" and k: "k < 4096"
  shows "\<exists>t. store_byte (cr3 s) (UTEMP + word_of_nat k) b s = Some t \<and> utemp_at t f \<and> only_frame f s t
     \<and> (\<forall>j. page_byte t f j = (if j = k then b else page_byte s f j))"
proof -
  let ?t = "write_pte (f, k div 4) (set_byte (pmem s f (k div 4)) (k mod 4) b) s"
  have st: "store_byte (cr3 s) (UTEMP + word_of_nat k) b s = Some ?t"
    using u k by (simp add: store_byte_def utemp_same utemp_at_def utemp_offset(2) Let_def)
  have "only_frame f s ?t" by (auto simp: only_frame_def write_pte_def)
  moreover have "page_byte ?t f j = (if j = k then b else page_byte s f j)" for j
  proof (cases "j div 4 = k div 4")
    case True
    then have "j = k \<longleftrightarrow> j mod 4 = k mod 4" using div_mult_mod_eq[of j 4] div_mult_mod_eq[of k 4] by auto
    then show ?thesis using True by (simp add: page_byte_def get_set_byte)
  next
    case False
    then show ?thesis by (auto simp: page_byte_def)
  qed
  moreover have "utemp_at ?t f"
    using u by (auto simp: utemp_at_def hw_frame_def user_page_def va_pte_def pde_present_def pt_frame_def split: if_splits)
  ultimately show ?thesis using st by blast
qed

lemma uwrite_utemp:
  assumes "utemp_at s f" and "k + length bs \<le> 4096"
  shows "\<exists>t. uwrite (UTEMP + word_of_nat k) bs s = Some t \<and> utemp_at t f \<and> only_frame f s t
     \<and> (\<forall>j. page_byte t f j = (if k \<le> j \<and> j < k + length bs then bs ! (j - k) else page_byte s f j))"
  using assms
proof (induction bs arbitrary: k s)
  case (Cons b bs)
  from utemp_store[OF Cons.prems(1), of k b] Cons.prems(2) obtain t where
    t: "store_byte (cr3 s) (UTEMP + word_of_nat k) b s = Some t" "utemp_at t f" "only_frame f s t"
      "\<forall>j. page_byte t f j = (if j = k then b else page_byte s f j)" by auto
  from Cons.IH[OF t(2), of "Suc k"] Cons.prems(2) obtain u where
    u: "uwrite (UTEMP + word_of_nat (Suc k)) bs t = Some u" "utemp_at u f" "only_frame f t u"
      "\<forall>j. page_byte u f j = (if Suc k \<le> j \<and> j < Suc k + length bs then bs ! (j - Suc k) else page_byte t f j)" by auto
  have up: "user_page s (UTEMP + word_of_nat k)" using Cons.prems by (simp add: utemp_same utemp_at_def)
  have e: "UTEMP + word_of_nat k + 1 = UTEMP + word_of_nat (Suc k)" by simp
  have "uwrite (UTEMP + word_of_nat k) (b # bs) s = Some u" using up t(1) u(1) by (simp only: uwrite.simps e) simp
  moreover have "page_byte u f j = (if k \<le> j \<and> j < k + length (b # bs) then (b # bs) ! (j - k) else page_byte s f j)" for j
    using t(4) u(4) by (auto simp: nth_Cons' Suc_le_eq)
  ultimately show ?case using u(2) only_frame_trans[OF t(3) u(3)] by blast
qed auto


section \<open>The layout\<close>

text \<open>The address in the child of offset \<open>k\<close> of its topmost stack page.\<close>

definition child_addr :: "nat \<Rightarrow> u32" where
  "child_addr k = USTACKTOP - PGSIZE + word_of_nat k"

definition arg_bytes :: "u8 list list \<Rightarrow> nat" where
  "arg_bytes args = sum_list (map (\<lambda>a. length a + 1) args)"

text \<open>Where string \<open>i\<close> starts when the first is at offset \<open>so\<close>.\<close>

definition arg_at :: "nat \<Rightarrow> u8 list list \<Rightarrow> nat \<Rightarrow> nat" where
  "arg_at so args i = so + arg_bytes (take i args)"

lemma arg_bytes_simps [simp]: "arg_bytes [] = 0" "arg_bytes (a # as) = length a + 1 + arg_bytes as"
  by (simp_all add: arg_bytes_def)

lemma arg_at_simps [simp]: "arg_at so args 0 = so" "arg_at so (a # as) (Suc i) = arg_at (so + (length a + 1)) as i"
  by (simp_all add: arg_at_def)

lemma UTEMP2USTACK_offset: "UTEMP2USTACK (UTEMP + word_of_nat k) = child_addr k"
  by (simp add: UTEMP2USTACK_def child_addr_def)

lemma ustore_utemp:
  assumes "utemp_at s f" and "k + 4 \<le> 4096"
  shows "\<exists>t. ustore (UTEMP + word_of_nat k) w s = Some t \<and> utemp_at t f \<and> only_frame f s t
     \<and> (\<forall>j. page_byte t f j = (if k \<le> j \<and> j < k + 4 then get_byte w (j - k) else page_byte s f j))"
proof -
  have len: "length (word_bytes w) = 4" by (simp add: word_bytes_def)
  have nth: "word_bytes w ! j = get_byte w j" if "j < 4" for j
    using that by (auto simp: word_bytes_def less_Suc_eq numeral_eq_Suc)
  from uwrite_utemp[OF assms(1), of k "word_bytes w"] assms(2) show ?thesis
    unfolding ustore_def len by (auto simp: nth less_diff_conv2)
qed

text \<open>The loop over the arguments.\<close>

lemma store_args_page:
  assumes "utemp_at s f" and "ao + 4 * length args \<le> so" and "so + arg_bytes args \<le> 4096"
  shows "\<exists>t. store_args (UTEMP + word_of_nat ao) (UTEMP + word_of_nat so) args s
       = Some (UTEMP + word_of_nat (so + arg_bytes args), t) \<and> utemp_at t f \<and> only_frame f s t
     \<and> (\<forall>i < length args. \<forall>k < 4. page_byte t f (ao + 4 * i + k) = get_byte (child_addr (arg_at so args i)) k)
     \<and> (\<forall>i < length args. \<forall>j \<le> length (args ! i). page_byte t f (arg_at so args i + j) = (args ! i @ [0]) ! j)
     \<and> (\<forall>k. k < ao \<or> ao + 4 * length args \<le> k \<and> k < so \<or> so + arg_bytes args \<le> k \<longrightarrow> page_byte t f k = page_byte s f k)"
  using assms
proof (induction args arbitrary: ao so s)
  case Nil
  then show ?case by auto
next
  case (Cons a as)
  let ?so = "so + (length a + 1)"
  from ustore_utemp[OF Cons.prems(1), of ao "child_addr so"] Cons.prems(2,3) obtain t where
    t: "ustore (UTEMP + word_of_nat ao) (child_addr so) s = Some t" "utemp_at t f" "only_frame f s t"
      "\<And>j. page_byte t f j = (if ao \<le> j \<and> j < ao + 4 then get_byte (child_addr so) (j - ao) else page_byte s f j)" by auto
  from uwrite_utemp[OF t(2), of so "a @ [0]"] Cons.prems(3) obtain u where
    u: "uwrite (UTEMP + word_of_nat so) (a @ [0]) t = Some u" "utemp_at u f" "only_frame f t u"
      "\<And>j. page_byte u f j = (if so \<le> j \<and> j < ?so then (a @ [0]) ! (j - so) else page_byte t f j)" by auto
  have pre: "ao + 4 + 4 * length as \<le> ?so" "?so + arg_bytes as \<le> 4096" using Cons.prems(2,3) by simp_all
  from Cons.IH[OF u(2) pre] obtain v where
    v: "store_args (UTEMP + word_of_nat (ao + 4)) (UTEMP + word_of_nat ?so) as u
         = Some (UTEMP + word_of_nat (?so + arg_bytes as), v)" "utemp_at v f" "only_frame f u v"
      "\<forall>i < length as. \<forall>k < 4. page_byte v f (ao + 4 + 4 * i + k) = get_byte (child_addr (arg_at ?so as i)) k"
      "\<forall>i < length as. \<forall>j \<le> length (as ! i). page_byte v f (arg_at ?so as i + j) = (as ! i @ [0]) ! j"
      and v6: "\<forall>k. k < ao + 4 \<or> ao + 4 + 4 * length as \<le> k \<and> k < ?so \<or> ?so + arg_bytes as \<le> k \<longrightarrow> page_byte v f k = page_byte u f k"
    by blast
  have w: "UTEMP + word_of_nat ao + 4 = UTEMP + word_of_nat (ao + 4)"
    "UTEMP + word_of_nat so + word_of_nat (length a) + 1 = UTEMP + word_of_nat ?so" by simp_all
  have "store_args (UTEMP + word_of_nat ao) (UTEMP + word_of_nat so) (a # as) s
      = Some (UTEMP + word_of_nat (so + arg_bytes (a # as)), v)"
    using t(1) u(1) v(1) by (simp add: UTEMP2USTACK_offset ac_simps)
  moreover have "page_byte v f (ao + 4 * i + k) = get_byte (child_addr (arg_at so (a # as) i)) k"
    if "i < length (a # as)" "k < 4" for i k
  proof (cases i)
    case 0
    then show ?thesis using that Cons.prems(2) by (simp add: v6 u(4) t(4))
  next
    case (Suc i')
    then show ?thesis using that v(4)[rule_format, of i' k] by (simp add: add.assoc add.left_commute)
  qed
  moreover have "page_byte v f (arg_at so (a # as) i + j) = ((a # as) ! i @ [0]) ! j"
    if "i < length (a # as)" "j \<le> length ((a # as) ! i)" for i j
  proof (cases i)
    case 0
    then show ?thesis using that Cons.prems(2) by (simp add: v6 u(4))
  next
    case (Suc i')
    then show ?thesis using that v(5)[rule_format, of i' j] by simp
  qed
  moreover have "page_byte v f k = page_byte s f k"
    if "k < ao \<or> ao + 4 * length (a # as) \<le> k \<and> k < so \<or> so + arg_bytes (a # as) \<le> k" for k
    using that Cons.prems(2) by (auto simp: v6 u(4) t(4))
  ultimately show ?case using v(2) only_frame_trans[OF only_frame_trans[OF t(3) u(3)] v(3)] by blast
qed


text \<open>With strings beyond the 4 MB below the page, \<open>string_store\<close> wraps round to the top of the address
  space and the check does not notice.\<close>

lemma init_stack_check_wraps:
  assumes "string_size args = 0x500000" and "length args = 1"
  shows "\<not> argv_start args - 8 < UTEMP"
  using assms by (simp add: argv_start_def string_start_def UTEMP_def mmu_consts ROUNDDOWN_def)

section \<open>What the child finds\<close>

text \<open>Memory of the child when frame \<open>f\<close> is the topmost page of its stack.\<close>

definition child_byte :: "kst \<Rightarrow> nat \<Rightarrow> u32 \<Rightarrow> u8 option" where
  "child_byte s f a = (if PGNUM a = PGNUM (USTACKTOP - PGSIZE) then Some (page_byte s f (unat (PGOFF a))) else None)"

fun child_bytes :: "kst \<Rightarrow> nat \<Rightarrow> u32 \<Rightarrow> nat \<Rightarrow> u8 list option" where
  "child_bytes s f a 0 = Some []"
| "child_bytes s f a (Suc n) = do { b \<leftarrow> child_byte s f a; bs \<leftarrow> child_bytes s f (a + 1) n; Some (b # bs) }"

definition child_word :: "kst \<Rightarrow> nat \<Rightarrow> u32 \<Rightarrow> u32 option" where
  "child_word s f a = map_option bytes_word (child_bytes s f a 4)"

lemma child_addr_page:
  assumes "k < 4096"
  shows "PGNUM (child_addr k) = PGNUM (USTACKTOP - PGSIZE)" "unat (PGOFF (child_addr k)) = k"
proof -
  have u: "unat (child_addr k) = 4096 * 977917 + k"
    using assms by (simp add: child_addr_def mmu_consts unat_word_ariths unat_of_nat take_bit_eq_mod)
  have "PGNUM (USTACKTOP - PGSIZE) = 977917" by (simp add: mmu_consts PGNUM_arith)
  moreover have "(4096 * 977917 + k) div 4096 = 977917" using assms by simp
  ultimately show "PGNUM (child_addr k) = PGNUM (USTACKTOP - PGSIZE)" by (simp only: PGNUM_arith u)
  show "unat (PGOFF (child_addr k)) = k" using assms by (simp only: unat_PGOFF u mod_mult_self4 mod_less)
qed

lemma child_addr_add: "child_addr k + word_of_nat j = child_addr (k + j)"
  by (simp add: child_addr_def)

lemma child_bytes_at: "k + n \<le> 4096 \<Longrightarrow> child_bytes s f (child_addr k) n = Some (map (page_byte s f) [k..<k + n])"
proof (induction n arbitrary: k)
  case (Suc n)
  have "child_addr k + 1 = child_addr (Suc k)" using child_addr_add[of k 1] by simp
  moreover have "[k..<k + Suc n] = k # [Suc k..<Suc k + n]" by (simp add: upt_conv_Cons del: upt_Suc)
  ultimately show ?case using Suc.prems Suc.IH[of "Suc k"] by (simp add: child_byte_def child_addr_page del: upt_Suc)
qed simp

lemma child_word_at:
  assumes "k + 4 \<le> 4096" and "\<forall>j < 4. page_byte s f (k + j) = get_byte w j"
  shows "child_word s f (child_addr k) = Some w"
proof -
  have "map (page_byte s f) [k..<k + 4] = map (\<lambda>j. page_byte s f (k + j)) [0..<4]"
    by (rule nth_equalityI) (simp_all del: upt_rec_numeral)
  also have "\<dots> = map (get_byte w) [0..<4]" using assms(2) by (intro map_cong) simp_all
  also have "\<dots> = word_bytes w" by (simp add: word_bytes_def upt_rec eval_nat_numeral)
  finally show ?thesis using child_bytes_at[OF assms(1), of s f] by (simp add: child_word_def bytes_word_bytes)
qed

section \<open>The layout fits when the check passes\<close>

lemma string_size_eq: "string_size args = word_of_nat (arg_bytes args)"
  by (induction args) (simp_all add: string_size_def)

lemma argv_start_offset:
  assumes small: "arg_bytes args + 4 * length args < 0x400000" and ck: "\<not> argv_start args - 8 < UTEMP"
  defines "so \<equiv> 4096 - arg_bytes args"
  defines "ao \<equiv> so - so mod 4 - 4 * (length args + 1)"
  shows "arg_bytes args \<le> 4096" and "8 \<le> ao" and "ao + 4 * (length args + 1) \<le> so"
    and "string_start args = UTEMP + word_of_nat so" and "argv_start args = UTEMP + word_of_nat ao"
proof -
  let ?S = "arg_bytes args" and ?n = "length args"
  have s: "unat (string_start args) = 0x401000 - ?S"
    using small by (simp add: string_start_def string_size_eq UTEMP_def mmu_consts unat_sub unat_of_nat take_bit_eq_mod word_le_nat_alt)
  define m where "m = (0x401000 - ?S) mod 4"
  define X where "X = (0x401000 - ?S) - m"
  have m: "m < 4" by (simp add: m_def)
  have x: "unat (ROUNDDOWN (string_start args) 4) = X" by (simp add: unat_ROUNDDOWN s X_def m_def)
  have n4: "unat (4 * (word_of_nat ?n + 1) :: u32) = 4 * (?n + 1)"
  proof -
    have "4 * (word_of_nat ?n + 1) = (word_of_nat (4 * (?n + 1)) :: u32)" by simp
    then show ?thesis using small by (simp only: unat_of_nat take_bit_eq_mod) simp
  qed
  have X: "4 * ?n + 0x1000 \<le> X + 4" using small m unfolding X_def by linarith
  have a: "unat (argv_start args) = X - 4 * (?n + 1)"
    unfolding argv_start_def using x n4 X by (subst unat_sub) (simp_all add: word_le_nat_alt)
  have a8: "unat (argv_start args - 8) = X - 4 * (?n + 1) - 8"
    using a X by (subst unat_sub) (simp_all add: word_le_nat_alt)
  have c: "0x400000 \<le> X - 4 * (?n + 1) - 8"
    using ck a8 by (simp add: word_less_nat_alt not_less UTEMP_def mmu_consts)
  have "0x400000 \<le> 0x401000 - ?S" using c unfolding X_def by linarith
  then show S: "?S \<le> 4096" by linarith
  then have V: "0x401000 - ?S = 4 * 0x100000 + so" by (simp add: so_def)
  have m': "m = so mod 4" unfolding m_def V by (simp only: mod_mult_self4)
  define q where "q = so - m"
  have q: "X = 0x400000 + q" using V m' by (simp add: X_def q_def)
  have aq: "ao = q - 4 * (?n + 1)" by (simp add: ao_def q_def m')
  have "4 * (?n + 1) + 8 \<le> q" using c unfolding q by linarith
  then have ao: "X - 4 * (?n + 1) = 0x400000 + ao" "8 \<le> ao" unfolding q aq by linarith+
  show "8 \<le> ao" by (rule ao(2))
  show "ao + 4 * (?n + 1) \<le> so" using ao(2) by (simp add: ao_def)
  have so4: "so \<le> 4096" "ao \<le> 4096" by (simp_all add: so_def ao_def)
  show "string_start args = UTEMP + word_of_nat so"
    using S by (simp add: string_start_def string_size_eq so_def of_nat_diff PGSIZE_def)
  show "argv_start args = UTEMP + word_of_nat ao"
  proof -
    have "unat (UTEMP + word_of_nat ao) = 0x400000 + ao"
      using so4 by (simp add: UTEMP_def mmu_consts unat_word_ariths unat_of_nat take_bit_eq_mod)
    then show ?thesis unfolding word_unat_eq_iff a ao(1) by simp
  qed
qed


section \<open>The arguments arrive\<close>

lemma arg_at_in: "i < length args \<Longrightarrow> arg_at so args i + length (args ! i) + 1 \<le> so + arg_bytes args"
proof (induction args arbitrary: so i)
  case (Cons a as)
  show ?case
  proof (cases i)
    case (Suc j)
    then show ?thesis using Cons.IH[of j "so + (length a + 1)"] Cons.prems by simp
  qed simp
qed simp

text \<open>When the check of \<open>init_stack\<close> passes (for arguments of less than 4 MB altogether), the stores into
  the page at \<open>UTEMP\<close> succeed and touch no other frame, and a child that has this page on top of its stack
  finds, from the stack pointer it is given, \<open>argc\<close>, the pointer \<open>argv\<close>, for each argument a pointer to the
  string with its terminator, and the null pointer after the last, all inside the page.\<close>

theorem fill_stack_arguments:
  assumes u: "utemp_at s f" and small: "arg_bytes args + 4 * length args < 0x400000" and ck: "\<not> argv_start args - 8 < UTEMP"
  shows "\<exists>esp t av. fill_stack args s = Some (esp, t) \<and> only_frame f s t
     \<and> child_word t f esp = Some (word_of_nat (length args)) \<and> child_word t f (esp + 4) = Some av
     \<and> (\<forall>i < length args. \<exists>p. child_word t f (av + 4 * word_of_nat i) = Some p
          \<and> child_bytes t f p (length (args ! i) + 1) = Some (args ! i @ [0]))
     \<and> child_word t f (av + 4 * word_of_nat (length args)) = Some 0"
proof -
  define so where "so = 4096 - arg_bytes args"
  define ao where "ao = so - so mod 4 - 4 * (length args + 1)"
  let ?n = "length args"
  have L: "arg_bytes args \<le> 4096" "8 \<le> ao" "ao + 4 * (?n + 1) \<le> so" "string_start args = UTEMP + word_of_nat so"
    "argv_start args = UTEMP + word_of_nat ao"
    using argv_start_offset[OF small ck] unfolding ao_def so_def by blast+
  have so: "so + arg_bytes args = 4096" using L(1) by (simp add: so_def)
  have "ao + 4 * ?n \<le> so" "so + arg_bytes args \<le> 4096" using L(3) so by simp_all
  from store_args_page[OF u this] obtain t where
    t: "store_args (UTEMP + word_of_nat ao) (UTEMP + word_of_nat so) args s = Some (UTEMP + word_of_nat 4096, t)"
      "utemp_at t f" "only_frame f s t"
      "\<forall>i < ?n. \<forall>k < 4. page_byte t f (ao + 4 * i + k) = get_byte (child_addr (arg_at so args i)) k"
      "\<forall>i < ?n. \<forall>j \<le> length (args ! i). page_byte t f (arg_at so args i + j) = (args ! i @ [0]) ! j"
    unfolding so by blast
  have pre1: "ao + 4 * ?n + 4 \<le> 4096" using L(3) so by simp
  have pre2: "ao - 4 + 4 \<le> 4096" and pre3: "ao - 8 + 4 \<le> 4096" using pre1 L(2) by simp_all
  from ustore_utemp[OF t(2) pre1, of 0] obtain v where
    v: "ustore (UTEMP + word_of_nat (ao + 4 * ?n)) 0 t = Some v" "utemp_at v f" "only_frame f t v"
      "\<forall>j. page_byte v f j = (if ao + 4 * ?n \<le> j \<and> j < ao + 4 * ?n + 4 then get_byte 0 (j - (ao + 4 * ?n)) else page_byte t f j)"
    by blast
  from ustore_utemp[OF v(2) pre2, of "child_addr ao"] obtain w where
    w: "ustore (UTEMP + word_of_nat (ao - 4)) (child_addr ao) v = Some w" "utemp_at w f" "only_frame f v w"
      "\<forall>j. page_byte w f j = (if ao - 4 \<le> j \<and> j < ao - 4 + 4 then get_byte (child_addr ao) (j - (ao - 4)) else page_byte v f j)"
    by blast
  from ustore_utemp[OF w(2) pre3, of "word_of_nat ?n"] obtain x where
    x: "ustore (UTEMP + word_of_nat (ao - 8)) (word_of_nat ?n) w = Some x" "only_frame f w x"
      "\<forall>j. page_byte x f j = (if ao - 8 \<le> j \<and> j < ao - 8 + 4 then get_byte (word_of_nat ?n) (j - (ao - 8)) else page_byte w f j)"
    by blast
  have e: "UTEMP + word_of_nat ao - 4 = UTEMP + word_of_nat (ao - 4)" "UTEMP + word_of_nat ao - 8 = UTEMP + word_of_nat (ao - 8)"
    "UTEMP + word_of_nat ao + 4 * word_of_nat ?n = UTEMP + word_of_nat (ao + 4 * ?n)" "UTEMP + word_of_nat 4096 = UTEMP + PGSIZE"
    using L(2) by (simp_all add: of_nat_diff PGSIZE_def)
  have fs: "fill_stack args s = Some (child_addr (ao - 8), x)"
    unfolding fill_stack_def L(4,5) Let_def t(1) using v(1) w(1) x(1)
    by (simp add: e UTEMP2USTACK_offset PGSIZE_def)
  have keep: "page_byte x f j = page_byte t f j" if "ao \<le> j" "j < ao + 4 * ?n \<or> ao + 4 * ?n + 4 \<le> j" for j
  proof -
    have "\<not> (ao - 8 \<le> j \<and> j < ao - 8 + 4)" "\<not> (ao - 4 \<le> j \<and> j < ao - 4 + 4)"
      "\<not> (ao + 4 * ?n \<le> j \<and> j < ao + 4 * ?n + 4)" using that L(2) by auto
    then show ?thesis using x(3) w(4) v(4) by metis
  qed
  have "only_frame f s x" using t(3) v(3) w(3) x(2) only_frame_trans by blast
  moreover have "child_word x f (child_addr (ao - 8)) = Some (word_of_nat ?n)"
    by (rule child_word_at) (use L(3) so x(3) in auto)
  moreover have "child_word x f (child_addr (ao - 8) + 4) = Some (child_addr ao)"
  proof -
    have "child_addr (ao - 8) + 4 = child_addr (ao - 4)" using child_addr_add[of "ao - 8" 4] L(2) by simp
    moreover have "child_word x f (child_addr (ao - 4)) = Some (child_addr ao)"
      by (rule child_word_at) (use L(2,3) so in \<open>auto simp: x(3) w(4)\<close>)
    ultimately show ?thesis by simp
  qed
  moreover have "\<exists>p. child_word x f (child_addr ao + 4 * word_of_nat i) = Some p
      \<and> child_bytes x f p (length (args ! i) + 1) = Some (args ! i @ [0])" if i: "i < ?n" for i
  proof -
    let ?a = "arg_at so args i" and ?l = "length (args ! i) + 1"
    have "child_addr ao + 4 * word_of_nat i = child_addr (ao + 4 * i)" using child_addr_add[of ao "4 * i"] by simp
    moreover have "child_word x f (child_addr (ao + 4 * i)) = Some (child_addr ?a)"
      by (rule child_word_at) (use L(3) so i t(4) in \<open>auto simp: keep\<close>)
    moreover have "child_bytes x f (child_addr ?a) ?l = Some (args ! i @ [0])"
    proof -
      have in_page: "?a + ?l \<le> 4096" using arg_at_in[OF i, of so] so by simp
      have "so \<le> ?a" by (simp add: arg_at_def)
      then have "page_byte x f (?a + j) = (args ! i @ [0]) ! j" if "j < ?l" for j
        using that i t(5) L(3) by (simp add: keep)
      then have "map (page_byte x f) [?a..<?a + ?l] = args ! i @ [0]"
        by (intro nth_equalityI) (simp_all del: upt_Suc)
      then show ?thesis using child_bytes_at[OF in_page, of x f] by simp
    qed
    ultimately show ?thesis by auto
  qed
  moreover have "child_word x f (child_addr ao + 4 * word_of_nat ?n) = Some 0"
  proof -
    have "child_addr ao + 4 * word_of_nat ?n = child_addr (ao + 4 * ?n)" using child_addr_add[of ao "4 * ?n"] by simp
    moreover have "child_word x f (child_addr (ao + 4 * ?n)) = Some 0"
      by (rule child_word_at) (use L(2,3) so in \<open>auto simp: x(3) w(4) v(4)\<close>)
    ultimately show ?thesis by simp
  qed
  ultimately show ?thesis using fs by blast
qed

end
