(* ===== verification/SpawnStack.thy ===== *)
theory SpawnStack
  imports SpawnMap SpawnProps
begin

text \<open>
  \<open>init_stack\<close> as a whole: the page that it allocates at \<open>UTEMP\<close>, fills, maps on top of the child's stack and
  takes out of the parent.
\<close>

section \<open>The arguments in the parent's memory\<close>

text \<open>A byte that the program can read, in a page that is not one of its page tables.\<close>

definition arg_byte :: "kst \<Rightarrow> u32 \<Rightarrow> u8 \<Rightarrow> bool" where
  "arg_byte s a b \<longleftrightarrow> PDX a \<noteq> PDX UVPT \<and> user_page s a
     \<and> (\<exists>g. hw_frame s (cr3 s) a False = Some g \<and> leaf_ok s (cr3 s) g \<and> page_byte s g (unat (PGOFF a)) = b)"

definition arg_in :: "kst \<Rightarrow> u32 \<Rightarrow> u8 list \<Rightarrow> bool" where
  "arg_in s a bs \<longleftrightarrow> (\<forall>k < length bs. arg_byte s (a + word_of_nat k) (bs ! k))"

text \<open>The array \<open>argv\<close> with its strings.\<close>

fun args_in :: "kst \<Rightarrow> u32 \<Rightarrow> u8 list list \<Rightarrow> bool" where
  "args_in s argv [] \<longleftrightarrow> arg_in s argv (word_bytes 0)"
| "args_in s argv (a # as) \<longleftrightarrow> 0 \<notin> set a \<and> (\<exists>p. p \<noteq> 0 \<and> arg_in s argv (word_bytes p) \<and> arg_in s p (a @ [0])) \<and> args_in s (argv + 4) as"

lemma arg_byte_load: "arg_byte s a b \<Longrightarrow> load_byte s (cr3 s) a = Some b"
  by (auto simp: arg_byte_def load_byte_def page_byte_def Let_def)

lemma arg_in_Cons: "arg_in s a (b # bs) \<longleftrightarrow> arg_byte s a b \<and> arg_in s (a + 1) bs"
proof
  assume c: "arg_in s a (b # bs)"
  have "arg_byte s (a + 1 + word_of_nat k) (bs ! k)" if "k < length bs" for k
    using c[unfolded arg_in_def, rule_format, of "Suc k"] that by (simp add: add.assoc)
  then show "arg_byte s a b \<and> arg_in s (a + 1) bs" using c[unfolded arg_in_def, rule_format, of 0] by (simp add: arg_in_def)
next
  assume c: "arg_byte s a b \<and> arg_in s (a + 1) bs"
  show "arg_in s a (b # bs)" unfolding arg_in_def
  proof (intro allI impI)
    fix k assume "k < length (b # bs)"
    then show "arg_byte s (a + word_of_nat k) ((b # bs) ! k)"
      using c by (cases k) (auto simp: arg_in_def add.assoc)
  qed
qed

lemma arg_in_load: "arg_in s a bs \<Longrightarrow> load_bytes s (cr3 s) a (length bs) = Some bs"
  by (induction bs arbitrary: a) (auto simp: arg_in_Cons arg_byte_load)

lemma arg_in_uload:
  assumes "arg_in s a (word_bytes w)"
  shows "uload a s = Some w"
proof -
  have l: "length (word_bytes w) = 4" by (simp add: word_bytes_def)
  have "arg_byte s a (word_bytes w ! 0)" using assms[unfolded arg_in_def, rule_format, of 0] l by simp
  then have "user_page s a" by (simp add: arg_byte_def)
  then show ?thesis using arg_in_load[OF assms] l by (simp add: uload_def load_word_def bytes_word_bytes)
qed

lemma arg_in_string: "arg_in s a (bs @ [0]) \<Longrightarrow> 0 \<notin> set bs \<Longrightarrow> ustring a s = Some bs"
proof (induction bs arbitrary: a)
  case Nil
  then have "arg_byte s a 0" by (simp add: arg_in_Cons)
  then show ?case by (subst ustring.simps) (simp add: arg_byte_load, simp add: arg_byte_def)
next
  case (Cons b bs)
  then have "arg_byte s a b" "ustring (a + 1) s = Some bs" "b \<noteq> 0" by (auto simp: arg_in_Cons)
  then show ?case by (subst ustring.simps) (simp add: arg_byte_load, simp add: arg_byte_def)
qed

lemma args_in_uargv: "args_in s argv args \<Longrightarrow> uargv argv s = Some args"
proof (induction args arbitrary: argv)
  case Nil
  then show ?case using arg_in_uload by (subst uargv.simps) simp
next
  case (Cons a as)
  then obtain p where p: "p \<noteq> 0" "uload argv s = Some p" "ustring p s = Some a" "uargv (argv + 4) s = Some as"
    using arg_in_uload arg_in_string by auto
  then show ?case by (subst uargv.simps) simp
qed

text \<open>They survive what keeps every such byte.\<close>

lemma args_in_mono:
  assumes "\<And>a b. arg_byte s a b \<Longrightarrow> arg_byte t a b"
  shows "args_in s argv args \<Longrightarrow> args_in t argv args"
proof (induction args arbitrary: argv)
  case (Cons a as)
  have "arg_in t x bs" if "arg_in s x bs" for x bs using that assms by (simp add: arg_in_def)
  then show ?case using Cons by auto
qed (use assms in \<open>simp add: arg_in_def\<close>)

section \<open>The system calls\<close>

lemma UTEMP_page: "PDX UTEMP \<noteq> PDX UVPT" "\<not> UTOP \<le> UTEMP" "UTEMP mod PGSIZE = 0" "ROUNDUP UTEMP PGSIZE = UTEMP"
  by (simp_all add: UTEMP_def mmu_consts PDX_arith ROUNDUP_def ROUNDDOWN_def)

lemma ustack_page: "PDX (USTACKTOP - PGSIZE) \<noteq> PDX UVPT" "\<not> UTOP \<le> USTACKTOP - PGSIZE" "ROUNDUP (USTACKTOP - PGSIZE) PGSIZE = USTACKTOP - PGSIZE"
  "PGNUM UTEMP \<noteq> PGNUM (USTACKTOP - PGSIZE)"
  by (simp_all add: UTEMP_def mmu_consts PDX_arith PGNUM_arith ROUNDUP_def ROUNDDOWN_def)

definition PUW :: u32 where "PUW = PTE_P OR PTE_U OR PTE_W"

lemma PUW_ok: "PUW AND NOT PTE_SYSCALL = 0" "PUW AND (PTE_U OR PTE_P) \<noteq> 0" "(PTE_U OR PTE_P) AND PUW = PTE_U OR PTE_P" "PUW AND PTE_W \<noteq> 0"
  "flags_only PUW" "(x OR PUW) AND PTE_P \<noteq> 0" "(x OR PUW) AND PTE_W \<noteq> 0" "(x OR PUW) AND PTE_U \<noteq> 0" "x OR PUW OR PTE_P = x OR PUW"
  by (simp_all add: PUW_def mmu_consts flags_only_def PTE_ADDR_def bit.conj_disj_distrib2 or_eq_0_iff PTE_SYSCALL_def)

lemma usys_alloc_utemp:
  assumes inv: "pages_inv s" and ok: "pgdir_ok s P" and av: "free_pages s = f # ps"
    and c: "curenv s = Some c" "pgdir_of c s = Some P"
    and i: "page_insert P f UTEMP PUW (alloc_state ALLOC_ZERO f s) = Some (0, t)"
  shows "usys_page_alloc 0 UTEMP PUW s = Some (0, t)"
proof -
  note A = page_alloc_Cons[OF inv av, of ALLOC_ZERO]
  have e: "envid2env 0 True s = Some (0, Some c)" using c by (simp add: envid2env_def)
  have p: "pgdir_of c (alloc_state ALLOC_ZERO f s) = Some P"
    using c same_envsD[OF page_alloc_frame[OF A(1)]] by (simp add: pgdir_of_def)
  show ?thesis
    using e p i A(1) UTEMP_page PUW_ok(1,2)
    by (simp add: usys_page_alloc_def usyscall_def syscall_def syscall_nums sys_page_alloc_def)
qed

lemma usys_map_utemp:
  assumes c: "curenv s = Some c" "pgdir_of c s = Some P" and de: "envid2env child False s = Some (0, Some e)" "pgdir_of e s = Some C"
    and ok: "pgdir_ok s P" "pde_present s P (PDX UTEMP)" and m: "va_pte s P UTEMP = page2pa f OR PUW" "pte_page (va_pte s P UTEMP) = f" "f < npages s"
    and i: "page_insert C f (USTACKTOP - PGSIZE) PUW s = Some (0, t)"
  shows "usys_page_map 0 UTEMP child (USTACKTOP - PGSIZE) PUW s = Some (0, t)"
proof -
  have e: "envid2env 0 False s = Some (0, Some c)" using c by (simp add: envid2env_def)
  have L: "page_lookup P UTEMP s = Some (Some (f, (pt_frame s P (PDX UTEMP), PTX UTEMP)), s)"
    using page_lookup_present[OF ok(1) UTEMP_page(1) ok(2)] m(2,3) by simp
  have "read_pte s (pt_frame s P (PDX UTEMP), PTX UTEMP) = page2pa f OR PUW" using m(1) ok(2) by (simp add: read_pte_def va_pte_def)
  then show ?thesis
    using e c de i L UTEMP_page ustack_page PUW_ok(3,7)
    by (simp add: usys_page_map_def usyscall_def syscall_def syscall_nums sys_page_map_def Let_def)
qed

lemma usys_unmap_utemp:
  assumes c: "curenv s = Some c" "pgdir_of c s = Some P"
    and ok: "pgdir_ok s P" "pde_present s P (PDX UTEMP)" and m: "pte_page (va_pte s P UTEMP) = f" "f < npages s"
    and i: "page_remove P UTEMP s = Some t"
  shows "usys_page_unmap 0 UTEMP s = Some (0, t)"
proof -
  have e: "envid2env 0 True s = Some (0, Some c)" using c by (simp add: envid2env_def)
  have L: "page_lookup P UTEMP s = Some (Some (f, (pt_frame s P (PDX UTEMP), PTX UTEMP)), s)"
    using page_lookup_present[OF ok(1) UTEMP_page(1) ok(2)] m by simp
  then show ?thesis
    using e c i UTEMP_page
    by (simp add: usys_page_unmap_def usyscall_def syscall_def syscall_nums sys_page_unmap_def)
qed

section \<open>The page at UTEMP\<close>

lemma pte_page_PUW: "f < 2 ^ 20 \<Longrightarrow> pte_page (page2pa f OR PUW) = f"
  using PGNUM_entry[OF _ PUW_ok(5)] by (simp add: pte_page_def)

lemma alloc_utemp:
  assumes inv: "pages_inv s" and ok: "pgdir_ok s (cr3 s)" and av: "free_pages s = f # ps"
    and c: "curenv s = Some c" "pgdir_of c s = Some (cr3 s)" and none: "va_pte s (cr3 s) UTEMP AND PTE_P = 0"
    and room: "pde_present s (cr3 s) (PDX UTEMP) \<or> ps \<noteq> []" and op: "pde_open s (cr3 s) UTEMP"
  obtains t where "usys_page_alloc 0 UTEMP PUW s = Some (0, t)" "mapped_new (cr3 s) f UTEMP PUW (alloc_state ALLOC_ZERO f s) t"
    "utemp_at t f" "\<And>x b. arg_byte s x b \<Longrightarrow> arg_byte t x b" "cr3 t = cr3 s"
    "\<And>vb. PDX vb \<noteq> PDX UVPT \<Longrightarrow> PGNUM vb \<noteq> PGNUM UTEMP \<Longrightarrow> va_pte t (cr3 s) vb = va_pte s (cr3 s) vb"
proof -
  let ?P = "cr3 s" and ?a = "alloc_state ALLOC_ZERO f s"
  note A = page_alloc_Cons[OF inv av, of ALLOC_ZERO] and D = alloc_dir[OF inv ok av]
  have none': "va_pte ?a ?P UTEMP AND PTE_P = 0" using none D(5)[OF UTEMP_page(1)] by simp
  have room': "pde_present ?a ?P (PDX UTEMP) \<or> free_pages ?a \<noteq> []" using room D(6) A(3) by simp
  have op': "pde_open ?a ?P UTEMP" using op by (simp only: pde_open_def D(6,7))
  obtain t where t: "page_insert ?P f UTEMP PUW ?a = Some (0, t)" "mapped_new ?P f UTEMP PUW ?a t"
    using insert_new[OF A(2) D(1) UTEMP_page(1) D(2) none' room' op'] by blast
  note M = mapped_newD[OF t(2)]
  have cr: "cr3 t = ?P" using same_envsD(9)[OF M(4)] same_envsD(9)[OF page_alloc_frame[OF A(1)]] by simp
  have f20: "f < 2 ^ 20" using pages_invD(2,7)[OF inv] av by fastforce
  have pte: "va_pte t ?P UTEMP = page2pa f OR PUW" using M(5) PUW_ok(9) by simp
  have vb: "va_pte t ?P vb = va_pte s ?P vb" if "PDX vb \<noteq> PDX UVPT" "PGNUM vb \<noteq> PGNUM UTEMP" for vb
    using M(10)[OF that] D(5)[OF that(1)] by simp
  have ut: "utemp_at t f"
  proof -
    have "f \<notin> dir_frames t ?P" using M(9) by (simp add: leaf_ok_frames)
    then have "f \<noteq> ?P" "pt_frame t ?P (PDX UTEMP) \<noteq> f"
      using dir_frames_self dir_frames_table[OF PDX_less UTEMP_page(1) M(6)] by auto
    then show ?thesis using M(6,7,8) pte PUW_ok f20 pte_page_PUW
      by (simp add: utemp_at_def cr hw_frame_def user_page_def)
  qed
  have args: "arg_byte t x b" if x: "arg_byte s x b" for x b
  proof -
    from x obtain g where d: "PDX x \<noteq> PDX UVPT" and u: "user_page s x" and h: "hw_frame s ?P x False = Some g" and l: "leaf_ok s ?P g"
      and b: "page_byte s g (unat (PGOFF x)) = b" by (auto simp: arg_byte_def)
    have ne: "PGNUM x \<noteq> PGNUM UTEMP"
    proof
      assume e: "PGNUM x = PGNUM UTEMP"
      then have "va_pte s ?P x = va_pte s ?P UTEMP" using PDX_PTX_of[OF e] by (simp add: va_pte_def)
      then show False using h none by (simp add: hw_frame_def split: if_splits)
    qed
    have pr: "pde_present s ?P (PDX x)" using h by (simp add: hw_frame_def split: if_splits)
    have pde: "pmem t ?P (PDX x) = pmem s ?P (PDX x)"
      using M(11)[of "PDX x"] D(6,7) pr by metis
    have pr': "pde_present t ?P (PDX x)" using pr pde by (simp add: pde_present_def)
    have g: "g < npages s" "g \<notin> set (free_pages s)" "g \<notin> dir_frames s ?P" using l by (simp_all add: leaf_ok_frames)
    have tab: "insert_table ?a ?P UTEMP \<noteq> g"
      using insert_table_cases[OF room' UTEMP_page(1)] D(3) A(3) av g(2,3) by (auto split: if_splits)
    have gP: "g \<noteq> ?P" using g(3) dir_frames_self by metis
    have "pmem t g = pmem ?a g" by (rule M(12)) (use gP tab in auto)
    also have "\<dots> = pmem s g" by (rule D(4)) (use av g(2) in auto)
    finally have m: "pmem t g = pmem s g" .
    have "hw_frame t ?P x False = Some g" "user_page t x"
      using h u vb[OF d ne] pr pr' pde by (simp_all add: hw_frame_def user_page_def cr split: if_splits)
    moreover have "leaf_ok t ?P g"
    proof -
      have "g \<notin> set (free_pages t)" using M(13) A(3) av g(2) set_tl by (fastforce split: if_splits)
      moreover have "g \<notin> dir_frames t ?P" using M(15) D(3) tab g(3) by auto
      ultimately show ?thesis using g(1) M(3) by (simp add: leaf_ok_frames)
    qed
    ultimately show ?thesis using d b m by (simp add: arg_byte_def cr page_byte_def)
  qed
  show ?thesis by (rule that[OF usys_alloc_utemp[OF inv ok av c t(1)] t(2) ut args cr vb])
qed

text \<open>Stores into a page that is no table change no directory.\<close>

lemma only_frame_dir:
  assumes o: "only_frame f t u" and f: "f \<notin> dir_frames t d"
  shows "\<And>g. g \<in> dir_frames t d \<Longrightarrow> pmem u g = pmem t g" "dir_frames u d = dir_frames t d"
    "\<And>vb. PDX vb \<noteq> PDX UVPT \<Longrightarrow> va_pte u d vb = va_pte t d vb" "\<And>i. pde_present u d i = pde_present t d i" "\<And>i. pmem u d i = pmem t d i"
    "pgdir_ok t d \<Longrightarrow> pgdir_ok u d"
proof -
  obtain m where m: "u = t\<lparr>pmem := (pmem t)(f := m)\<rparr>" using o by (auto simp: only_frame_def)
  show same: "pmem u g = pmem t g" if "g \<in> dir_frames t d" for g using f that by (auto simp: m)
  have S: "pde_present u d i = pde_present t d i" "dir_frames u d = dir_frames t d"
    "PDX vb \<noteq> PDX UVPT \<Longrightarrow> va_pte u d vb = va_pte t d vb" for i vb
    by (rule same_dir; (rule same)?; assumption)+
  show "dir_frames u d = dir_frames t d" by (rule S)
  show "va_pte u d vb = va_pte t d vb" if "PDX vb \<noteq> PDX UVPT" for vb by (rule S(3)[OF that])
  show "pde_present u d i = pde_present t d i" for i by (rule S(1))
  show "pmem u d i = pmem t d i" for i using same[OF dir_frames_self] by simp
  have fr: "free_pages u = free_pages t" by (rule pages_inv_cong(2)) (simp_all add: m)
  show "pgdir_ok u d" if ok: "pgdir_ok t d"
    by (rule same_dir_ok[OF ok same]) (use ok fr in \<open>auto simp: m pgdir_ok_def dir_frames_def\<close>)
qed

lemma only_frame_rest:
  assumes "only_frame f t u"
  shows "pages_inv u = pages_inv t" "free_pages u = free_pages t" "npages u = npages t" "pages u = pages t" "same_envs u t"
proof -
  obtain m where m: "u = t\<lparr>pmem := (pmem t)(f := m)\<rparr>" using assms by (auto simp: only_frame_def)
  show "pages_inv u = pages_inv t" "free_pages u = free_pages t" by (rule pages_inv_cong; simp add: m)+
  show "npages u = npages t" "pages u = pages t" "same_envs u t" by (simp_all add: m env_part_def)
qed

section \<open>The child's view\<close>

lemma child_load:
  assumes "pde_present t C (PDX (USTACKTOP - PGSIZE))" "va_pte t C (USTACKTOP - PGSIZE) = page2pa f OR PUW" "f < 2 ^ 20" "pmem t f = pmem u f"
  shows "child_bytes u f a n = Some bs \<Longrightarrow> load_bytes t C a n = Some bs"
proof (induction n arbitrary: a bs)
  case (Suc n)
  then obtain b bs' where b: "child_byte u f a = Some b" "child_bytes u f (a + 1) n = Some bs'" "bs = b # bs'"
    by (auto simp: bind_eq_Some_conv)
  then have e: "PGNUM a = PGNUM (USTACKTOP - PGSIZE)" by (simp add: child_byte_def split: if_splits)
  have "hw_frame t C a False = Some f"
    using assms(1-3) PDX_PTX_of[OF e] PUW_ok(6) pte_page_PUW by (simp add: hw_frame_def va_pte_def)
  then have "load_byte t C a = Some b"
    using b(1) e assms(4) by (simp add: load_byte_def child_byte_def page_byte_def Let_def)
  then show ?case using Suc.IH[OF b(2)] b(3) by simp
qed simp

lemma child_load_word:
  assumes "pde_present t C (PDX (USTACKTOP - PGSIZE))" "va_pte t C (USTACKTOP - PGSIZE) = page2pa f OR PUW" "f < 2 ^ 20" "pmem t f = pmem u f"
    and "child_word u f a = Some w"
  shows "load_word t C a = Some w"
  using assms(5) child_load[OF assms(1-4)] by (auto simp: child_word_def load_word_def)

section \<open>The whole operation\<close>

text \<open>Moving the filled page: it goes on top of the child's stack, and leaves the parent.\<close>

lemma move_utemp:
  assumes inv: "pages_inv s" and okP: "pgdir_ok s P" and okC: "pgdir_ok s C" and dis: "dir_frames s P \<inter> dir_frames s C = {}"
    and c: "curenv s = Some c" "pgdir_of c s = Some P" and de: "envid2env child False s = Some (0, Some e)" "pgdir_of e s = Some C"
    and m: "pde_present s P (PDX UTEMP)" "va_pte s P UTEMP = page2pa f OR PUW" and f: "f < 2 ^ 20" "leaf_ok s P f" "leaf_ok s C f" "pp_ref (pages s ! f) = 1"
    and none: "va_pte s C (USTACKTOP - PGSIZE) AND PTE_P = 0" and op: "pde_open s C (USTACKTOP - PGSIZE)" and room: "free_pages s \<noteq> []"
  obtains t u where "usys_page_map 0 UTEMP child (USTACKTOP - PGSIZE) PUW s = Some (0, t)" "usys_page_unmap 0 UTEMP t = Some (0, u)"
    "pages_inv u" "pgdir_ok u P" "pgdir_ok u C" "va_pte u P UTEMP = 0" "pde_present u C (PDX (USTACKTOP - PGSIZE))"
    "va_pte u C (USTACKTOP - PGSIZE) = page2pa f OR PUW" "pmem u f = pmem s f" "pp_ref (pages u ! f) = 1"
    "\<And>vb. PDX vb \<noteq> PDX UVPT \<Longrightarrow> PGNUM vb \<noteq> PGNUM UTEMP \<Longrightarrow> va_pte u P vb = va_pte s P vb"
    "\<And>vb. PDX vb \<noteq> PDX UVPT \<Longrightarrow> PGNUM vb \<noteq> PGNUM (USTACKTOP - PGSIZE) \<Longrightarrow> va_pte u C vb = va_pte s C vb"
proof -
  let ?S = "USTACKTOP - PGSIZE"
  have room': "pde_present s C (PDX ?S) \<or> free_pages s \<noteq> []" using room by simp
  obtain t where t: "page_insert C f ?S PUW s = Some (0, t)" "mapped_new C f ?S PUW s t"
    using insert_new[OF inv okC ustack_page(1) f(3) none room' op] by blast
  note M = mapped_newD[OF t(2)]
  have dis': "dir_frames s C \<inter> dir_frames s P = {}" using dis by blast
  note O = mapped_new_other[OF t(2) ustack_page(1) room' okP dis']
  have fl: "f < npages s" "f \<notin> set (free_pages s)" "f \<notin> dir_frames s P" "f \<notin> dir_frames s C" using f(2,3) by (simp_all add: leaf_ok_frames)
  have pg: "pte_page (va_pte s P UTEMP) = f" using m(2) pte_page_PUW[OF f(1)] by simp
  have M1: "usys_page_map 0 UTEMP child ?S PUW s = Some (0, t)"
    by (rule usys_map_utemp[OF c de okP m pg fl(1) t(1)])
  have vt: "va_pte t P UTEMP = page2pa f OR PUW" "pde_present t P (PDX UTEMP)" using O(5)[OF UTEMP_page(1)] O(6) m by simp_all
  have pgt: "pte_page (va_pte t P UTEMP) = f" using vt pte_page_PUW[OF f(1)] by simp
  have "leaf_ok t P (pte_page (va_pte t P UTEMP))"
    unfolding pgt using fl M(3) M(9) O(3) by (simp add: leaf_ok_frames)
  from page_remove_spec[OF M(1) O(2) UTEMP_page(1) vt(2) this] obtain u where
    u: "page_remove P UTEMP t = Some u" "pages_inv u" "pgdir_ok u P" "npages u = npages t" "va_pte u P UTEMP = 0"
      "\<forall>vb. PDX vb \<noteq> PDX UVPT \<and> PGNUM vb \<noteq> PGNUM UTEMP \<longrightarrow> va_pte u P vb = va_pte t P vb"
      "\<forall>q < npages t. pp_ref (pages u ! q) = pp_ref (pages t ! q) - (if q = f then 1 else 0)"
      "free_pages u = (if pp_ref (pages t ! f) = 1 then f # free_pages t else free_pages t)"
    unfolding pgt by blast
  have ref2: "pp_ref (pages t ! f) = 2" using M(14) f(4) by simp
  have E: "curenv t = Some c" "pgdir_of c t = Some P" using c same_envsD[OF M(4)] by (simp_all add: pgdir_of_def)
  have M2: "usys_page_unmap 0 UTEMP t = Some (0, u)"
    by (rule usys_unmap_utemp[OF E O(2) vt(2) pgt _ u(1)]) (use fl(1) M(3) in simp)
  have tabP: "pt_frame t P (PDX UTEMP) \<in> dir_frames t P" by (rule dir_frames_table[OF PDX_less UTEMP_page(1) vt(2)])
  have keep: "pmem u g = pmem t g" if "g \<notin> dir_frames t P" for g
    by (rule page_remove_pmem[OF u(1)]) (use that tabP in auto)
  have same: "pmem u g = pmem t g" if "g \<in> dir_frames t C" for g by (rule keep) (use that O(4) in auto)
  have SC: "pde_present u C i = pde_present t C i" "dir_frames u C = dir_frames t C"
    "PDX vb \<noteq> PDX UVPT \<Longrightarrow> va_pte u C vb = va_pte t C vb" for i vb
    by (rule same_dir; (rule same)?; assumption)+
  have fu: "free_pages u = free_pages t" using u(8) ref2 by simp
  have okC': "pgdir_ok u C"
    by (rule same_dir_ok[OF M(2) same u(4)]) (use M(2) fu in \<open>auto simp: pgdir_ok_def dir_frames_def\<close>)
  have tab: "f \<noteq> insert_table s C ?S" using insert_table_cases[OF room' ustack_page(1)] fl by (auto split: if_splits)
  have "f \<noteq> C" using fl(4) dir_frames_self by metis
  then have "pmem t f = pmem s f" using M(12) tab by simp
  moreover have "pmem u f = pmem t f" by (rule keep) (use O(3) fl(3) in simp)
  ultimately have pf: "pmem u f = pmem s f" by simp
  have ru: "pp_ref (pages u ! f) = 1" using u(7) fl(1) M(3) ref2 by simp
  have vP: "va_pte u P vb = va_pte s P vb" if "PDX vb \<noteq> PDX UVPT" "PGNUM vb \<noteq> PGNUM UTEMP" for vb
    using u(6) that O(5) by simp
  have vC: "va_pte u C vb = va_pte s C vb" if "PDX vb \<noteq> PDX UVPT" "PGNUM vb \<noteq> PGNUM ?S" for vb
    using SC(3)[OF that(1)] M(10)[OF that] by simp
  have vS: "va_pte u C ?S = page2pa f OR PUW" using SC(3)[OF ustack_page(1)] M(5) PUW_ok(9) by simp
  have pS: "pde_present u C (PDX ?S)" using SC(1) M(6) by simp
  show ?thesis by (rule that[OF M1 M2 u(2,3) okC' u(5) pS vS pf ru vP vC])
qed

text \<open>The addresses that \<open>fill_stack\<close> returns, in one predicate.\<close>

definition args_found :: "kst \<Rightarrow> nat \<Rightarrow> u32 \<Rightarrow> u8 list list \<Rightarrow> bool" where
  "args_found t C esp args \<longleftrightarrow> load_word t C esp = Some (word_of_nat (length args))
     \<and> (\<exists>av. load_word t C (esp + 4) = Some av
        \<and> (\<forall>i < length args. \<exists>p. load_word t C (av + 4 * word_of_nat i) = Some p
             \<and> load_bytes t C p (length (args ! i) + 1) = Some (args ! i @ [0]))
        \<and> load_word t C (av + 4 * word_of_nat (length args)) = Some 0)"

text \<open>C9: \<open>init_stack\<close> gives the child its arguments.  When the arguments are in the program's memory (less than
  4 MB of them altogether, outside its page tables), nothing is mapped at \<open>UTEMP\<close> nor on top of the child's stack, the two
  address spaces share no page table, and three pages are free, then: if the arguments do not fit in a page it returns \<open>-E_NO_MEM\<close> and
  changes nothing; else it returns 0 and a stack pointer from which the child, reading through its own page directory,
  finds \<open>argc\<close>, the pointer \<open>argv\<close>, for each argument a pointer to the string with its terminator, and the null
  pointer after the last.  The page is mapped once, in the child, for user and writable; \<open>UTEMP\<close> is unmapped again, and
  every other page of the two address spaces is mapped as before.\<close>

theorem init_stack_passes_arguments:
  assumes "pages_inv s" "pgdir_ok s (cr3 s)" "pgdir_ok s C" "dir_frames s (cr3 s) \<inter> dir_frames s C = {}" "3 \<le> length (free_pages s)"
    and "curenv s = Some c" "pgdir_of c s = Some (cr3 s)" "envid2env child False s = Some (0, Some e)" "pgdir_of e s = Some C"
    and "va_pte s (cr3 s) UTEMP AND PTE_P = 0" "pde_open s (cr3 s) UTEMP"
    and "va_pte s C (USTACKTOP - PGSIZE) AND PTE_P = 0" "pde_open s C (USTACKTOP - PGSIZE)"
    and "args_in s argv args" "arg_bytes args + 4 * length args < 0x400000"
  shows "if argv_start args - 8 < UTEMP then init_stack child argv esp0 s = Some (- E_NO_MEM, esp0, s)
    else \<exists>esp t f. init_stack child argv esp0 s = Some (0, esp, t) \<and> args_found t C esp args
      \<and> va_pte t C (USTACKTOP - PGSIZE) = page2pa f OR (PTE_P OR PTE_U OR PTE_W) \<and> pp_ref (pages t ! f) = 1 \<and> va_pte t (cr3 s) UTEMP = 0
      \<and> (\<forall>vb. PDX vb \<noteq> PDX UVPT \<and> PGNUM vb \<noteq> PGNUM UTEMP \<longrightarrow> va_pte t (cr3 s) vb = va_pte s (cr3 s) vb)
      \<and> (\<forall>vb. PDX vb \<noteq> PDX UVPT \<and> PGNUM vb \<noteq> PGNUM (USTACKTOP - PGSIZE) \<longrightarrow> va_pte t C vb = va_pte s C vb)"
proof -
  let ?P = "cr3 s" and ?S = "USTACKTOP - PGSIZE"
  note inv = assms(1) and cu = assms(6,7) and ch = assms(8,9)
  have av0: "uargv argv s = Some args" by (rule args_in_uargv[OF assms(14)])
  show ?thesis
  proof (cases "argv_start args - 8 < UTEMP")
    case True
    then show ?thesis by (simp add: init_stack_def av0)
  next
    case False
    from assms(5) obtain f ps where av: "free_pages s = f # ps" "2 \<le> length ps" by (cases "free_pages s") auto
    have room: "pde_present s ?P (PDX UTEMP) \<or> ps \<noteq> []" using av(2) by auto
    obtain t1 where al: "usys_page_alloc 0 UTEMP PUW s = Some (0, t1)" and mn: "mapped_new ?P f UTEMP PUW (alloc_state ALLOC_ZERO f s) t1"
      and ut: "utemp_at t1 f" and ab: "\<And>x b. arg_byte s x b \<Longrightarrow> arg_byte t1 x b" and cr: "cr3 t1 = ?P"
      and vb1: "\<And>vb. PDX vb \<noteq> PDX UVPT \<Longrightarrow> PGNUM vb \<noteq> PGNUM UTEMP \<Longrightarrow> va_pte t1 ?P vb = va_pte s ?P vb"
      by (rule alloc_utemp[OF inv assms(2) av(1) cu assms(10) room assms(11)]) blast
    let ?a = "alloc_state ALLOC_ZERO f s"
    note A = page_alloc_Cons[OF inv av(1), of ALLOC_ZERO]
    note DP = alloc_dir[OF inv assms(2) av(1)] and DC = alloc_dir[OF inv assms(3) av(1)]
    note M = mapped_newD[OF mn]
    have rooma: "pde_present ?a ?P (PDX UTEMP) \<or> free_pages ?a \<noteq> []" using A(3) av(2) by auto
    have disa: "dir_frames ?a ?P \<inter> dir_frames ?a C = {}" using assms(4) DP(3) DC(3) by simp
    note O = mapped_new_other[OF mn UTEMP_page(1) rooma DC(1) disa]
    have av1: "uargv argv t1 = Some args" by (rule args_in_uargv[OF args_in_mono[OF ab assms(14)]])
    from fill_stack_arguments[OF ut assms(15) False] obtain esp t2 av where
      fs: "fill_stack args t1 = Some (esp, t2)" "only_frame f t1 t2" "child_word t2 f esp = Some (word_of_nat (length args))"
        "child_word t2 f (esp + 4) = Some av"
        "\<forall>i < length args. \<exists>p. child_word t2 f (av + 4 * word_of_nat i) = Some p
          \<and> child_bytes t2 f p (length (args ! i) + 1) = Some (args ! i @ [0])"
        "child_word t2 f (av + 4 * word_of_nat (length args)) = Some 0" by blast
    have leafC: "f \<notin> dir_frames t1 C" using DC(2,3) O(3) by (simp add: leaf_ok_frames)
    have leafP: "f \<notin> dir_frames t1 ?P" using M(9) by (simp add: leaf_ok_frames)
    note FP = only_frame_dir[OF fs(2) leafP] and FC = only_frame_dir[OF fs(2) leafC] and R = only_frame_rest[OF fs(2)]
    have E: "same_envs t2 s" using R(5) M(4) page_alloc_frame[OF A(1)] by simp
    have cu2: "curenv t2 = Some c" "pgdir_of c t2 = Some ?P" "pgdir_of e t2 = Some C" "envid2env child False t2 = Some (0, Some e)"
      using cu ch by (simp_all only: envid2env_def pgdir_of_def same_envsD(3)[OF E] same_envsD(12)[OF E])
    have fr: "free_pages t2 \<noteq> []"
      using R(2) M(13) A(3) av(2) by (cases ps) (auto split: if_splits)
    have inv2: "pages_inv t2" using R(1) M(1) by simp
    have dis2: "dir_frames t2 ?P \<inter> dir_frames t2 C = {}" using FP(2) FC(2) O(4) by simp
    have f20: "f < 2 ^ 20" using pages_invD(2,7)[OF inv] av(1) by fastforce
    have mU: "pde_present t2 ?P (PDX UTEMP)" "va_pte t2 ?P UTEMP = page2pa f OR PUW"
      using FP(3)[OF UTEMP_page(1)] FP(4) M(5,6) PUW_ok(9) by simp_all
    have lP: "leaf_ok t2 ?P f" and lC: "leaf_ok t2 C f"
      using M(9) leafC FP(2) FC(2) R(2,3) by (simp_all add: leaf_ok_frames)
    have "pp_ref (pages ?a ! f) = 0"
      using pages_invD(1,5,7)[OF inv] av(1) by simp
    then have ref: "pp_ref (pages t2 ! f) = 1" using M(14) R(4) by simp
    have nC: "va_pte t2 C ?S AND PTE_P = 0"
      using FC(3)[OF ustack_page(1)] O(5)[OF ustack_page(1)] DC(5)[OF ustack_page(1)] assms(12) by simp
    have pC: "pde_open t2 C ?S"
    proof -
      have "pmem t2 C i = pmem s C i" for i using FC(5) O(1)[of C] DC(3,7) dir_frames_self by metis
      then show ?thesis using assms(13) by (simp add: pde_open_def pde_present_def)
    qed
    obtain t3 u where mv: "usys_page_map 0 UTEMP child ?S PUW t2 = Some (0, t3)" "usys_page_unmap 0 UTEMP t3 = Some (0, u)"
      "va_pte u ?P UTEMP = 0" "pde_present u C (PDX ?S)" "va_pte u C ?S = page2pa f OR PUW" "pmem u f = pmem t2 f" "pp_ref (pages u ! f) = 1"
      "\<And>vb. PDX vb \<noteq> PDX UVPT \<Longrightarrow> PGNUM vb \<noteq> PGNUM UTEMP \<Longrightarrow> va_pte u ?P vb = va_pte t2 ?P vb"
      "\<And>vb. PDX vb \<noteq> PDX UVPT \<Longrightarrow> PGNUM vb \<noteq> PGNUM ?S \<Longrightarrow> va_pte u C vb = va_pte t2 C vb"
      by (rule move_utemp[OF inv2 FP(6)[OF M(2)] FC(6)[OF O(2)] dis2 cu2(1,2,4,3) mU f20 lP lC ref nC pC fr]) blast
    have run: "init_stack child argv esp0 s = Some (0, esp, u)"
      using False al av1 fs(1) mv(1,2) by (simp add: init_stack_def av0 PUW_def)
    have found: "args_found u C esp args"
    proof -
      note W = child_load_word[OF mv(4,5) f20 mv(6)] and B = child_load[OF mv(4,5) f20 mv(6)]
      show ?thesis unfolding args_found_def using W[OF fs(3)] W[OF fs(4)] W[OF fs(6)] fs(5) W B by blast
    qed
    have "va_pte u ?P vb = va_pte s ?P vb" if "PDX vb \<noteq> PDX UVPT" "PGNUM vb \<noteq> PGNUM UTEMP" for vb
      using mv(8)[OF that] FP(3)[OF that(1)] vb1[OF that] by simp
    moreover have "va_pte u C vb = va_pte s C vb" if "PDX vb \<noteq> PDX UVPT" "PGNUM vb \<noteq> PGNUM ?S" for vb
      using mv(9)[OF that] FC(3)[OF that(1)] O(5)[OF that(1)] DC(5)[OF that(1)] by simp
    ultimately show ?thesis unfolding if_not_P[OF False] using run found mv(3,5,7) unfolding PUW_def by blast
  qed
qed

text \<open>The parent has \<open>argv\<close> at \<open>0x800000\<close>, with the string \<open>hi\<close> behind it; its child has an empty directory.\<close>

definition demo_argv_page :: "nat \<Rightarrow> u32" where
  "demo_argv_page i = (if i = 0 then 0x800008 else if i = 2 then 0x6968 else 0)"

definition demo_argv :: kst where
  "demo_argv = demo_child\<lparr>pmem := demo_mem(4 := demo_argv_page)\<rparr>"

lemma demo_argv_simps [simp]:
  "pmem demo_argv = demo_mem(4 := demo_argv_page)" "cr3 demo_argv = 2" "npages demo_argv = 16" "pages demo_argv = demo_pages" "curenv demo_argv = Some 0"
  by (simp_all add: demo_argv_def)

lemma demo_argv_state:
  "only_frame 4 demo_child demo_argv" "4 \<notin> dir_frames demo_child 2" "4 \<notin> dir_frames demo_child 1"
  by (auto simp: only_frame_def demo_argv_def demo_child_dirs simp del: One_nat_def)

lemma demo_argv_byte:
  assumes "a < 4096"
  shows "arg_byte demo_argv (0x800000 + word_of_nat a) (get_byte (demo_argv_page (a div 4)) (a mod 4))"
proof -
  let ?x = "0x800000 + word_of_nat a :: u32"
  note R = only_frame_rest[OF demo_argv_state(1)] and D = only_frame_dir[OF demo_argv_state(1,2)]
  have P: "PDX ?x = 2" "PTX ?x = 0" by (rule demo_page_addr[OF assms])+
  have pr: "pde_present demo_argv 2 2" "pt_frame demo_argv 2 2 = 3"
    using D(4)[of 2] demo_child_dirs(1,2) by (simp_all add: pt_frame_def)
  have v: "va_pte demo_argv 2 ?x = 0x4007" using pr P by (simp add: va_pte_def demo_mem_def)
  have o: "unat (PGOFF ?x) = a"
  proof -
    have "unat ?x = 4096 * 2048 + a" using assms by (simp add: unat_word_ariths unat_of_nat take_bit_eq_mod)
    then show ?thesis using assms by (simp only: unat_PGOFF mod_mult_self4 mod_less)
  qed
  have "hw_frame demo_argv 2 ?x False = Some 4" using pr P v demo_va(3) by (simp add: hw_frame_def PTE_P_def)
  moreover have "user_page demo_argv ?x" using P v by (simp add: user_page_def demo_mem_def PTE_U_def)
  moreover have "leaf_ok demo_argv 2 4" using R(2) D(2) demo_argv_state(2) demo_child_free by (simp add: leaf_ok_frames)
  ultimately show ?thesis using P o by (simp add: arg_byte_def page_byte_def)
qed

lemma demo_args_in: "args_in demo_argv 0x800000 [[104, 105]]"
proof -
  note B = demo_argv_byte
  have g: "get_byte 0x6968 0 = 104" "get_byte 0x6968 1 = 105" "get_byte 0x6968 2 = 0" by (code_simp)+
  have w: "word_bytes w = [get_byte w 0, get_byte w 1, get_byte w 2, get_byte w 3]" for w by (simp add: word_bytes_def)
  have "arg_in demo_argv 0x800000 (word_bytes 0x800008)"
    using B[of 0] B[of 1] B[of 2] B[of 3] by (simp add: w arg_in_Cons demo_argv_page_def add.assoc) (simp add: arg_in_def)
  moreover have "arg_in demo_argv 0x800004 (word_bytes 0)"
    using B[of 4] B[of 5] B[of 6] B[of 7] by (simp add: w arg_in_Cons demo_argv_page_def add.assoc) (simp add: arg_in_def)
  moreover have "arg_in demo_argv 0x800008 [104, 105, 0]"
    using B[of 8] B[of 9] B[of 10] g by (simp add: arg_in_Cons demo_argv_page_def add.assoc) (simp add: arg_in_def)
  ultimately show ?thesis by (auto intro: exI[of _ "0x800008"])
qed

theorem init_stack_passes_arguments_witness:
  "\<exists>esp t. init_stack 0x1001 0x800000 0 demo_argv = Some (0, esp, t) \<and> args_found t 1 esp [[104, 105]]"
proof -
  note R = only_frame_rest[OF demo_argv_state(1)] and D2 = only_frame_dir[OF demo_argv_state(1,2)] and D1 = only_frame_dir[OF demo_argv_state(1,3)]
  have inv: "pages_inv demo_argv" using R(1) demo_child_inv by simp
  have free: "free_pages demo_argv = [5..<16]" using R(2) demo_child_free by simp
  have dis: "dir_frames demo_argv (cr3 demo_argv) \<inter> dir_frames demo_argv 1 = {}" using D1(2) D2(2) demo_child_dirs(5,6) by simp
  have E: "pgdir_of i demo_argv = pgdir_of i demo_child" "envid2env x False demo_argv = envid2env x False demo_child" for i x
    by (simp_all only: envid2env_def pgdir_of_def same_envsD(3)[OF R(5)] same_envsD(12)[OF R(5)])
  have U: "PDX UTEMP = 1" by (simp add: UTEMP_def mmu_consts PDX_arith)
  have nU: "\<not> pde_present demo_argv (cr3 demo_argv) (PDX UTEMP)" using D2(4)[of 1] demo_child_dirs(1)[of 1] by (simp add: U)
  have nS: "\<not> pde_present demo_argv 1 (PDX (USTACKTOP - PGSIZE))" using D1(4) demo_child_dirs(3) by simp
  have ck: "\<not> argv_start [[104, 105]] - 8 < UTEMP"
    by (simp add: argv_start_def string_start_def string_size_def UTEMP_def mmu_consts ROUNDDOWN_def)
  have "if argv_start [[104, 105]] - 8 < UTEMP then init_stack 0x1001 0x800000 0 demo_argv = Some (- E_NO_MEM, 0, demo_argv)
    else \<exists>esp t f. init_stack 0x1001 0x800000 0 demo_argv = Some (0, esp, t) \<and> args_found t 1 esp [[104, 105]]
      \<and> va_pte t 1 (USTACKTOP - PGSIZE) = page2pa f OR (PTE_P OR PTE_U OR PTE_W) \<and> pp_ref (pages t ! f) = 1 \<and> va_pte t (cr3 demo_argv) UTEMP = 0
      \<and> (\<forall>vb. PDX vb \<noteq> PDX UVPT \<and> PGNUM vb \<noteq> PGNUM UTEMP \<longrightarrow> va_pte t (cr3 demo_argv) vb = va_pte demo_argv (cr3 demo_argv) vb)
      \<and> (\<forall>vb. PDX vb \<noteq> PDX UVPT \<and> PGNUM vb \<noteq> PGNUM (USTACKTOP - PGSIZE) \<longrightarrow> va_pte t 1 vb = va_pte demo_argv 1 vb)"
    by (rule init_stack_passes_arguments[where c = 0 and e = 1, OF inv _ _ dis _ _ _ _ _ _ _ _ _ demo_args_in])
       (use D1(6) D2(6) demo_child_ok free demo_child_envs E nU nS in \<open>simp_all add: pde_open_def va_pte_def\<close>)
  then show ?thesis unfolding if_not_P[OF ck] by blast
qed

end
