(* ===== verification/TrapMon.thy ===== *)
theory TrapMon
  imports SysInv
begin

text \<open>
  The kernel monitor.  A trap that ends in the monitor leaves the lock, the panic flag and the
  processor as they were after its entry, and ends there only for a breakpoint or because no
  environment is left that could run.
\<close>

definition lock_part where
  "lock_part s = (klock s, this_cpu s, panicked s)"

text \<open>No environment is runnable, running or dying: the case of \<open>sched_halt\<close> that enters the monitor.\<close>

definition no_work :: "kst \<Rightarrow> bool" where
  "no_work s \<longleftrightarrow> \<not> (\<exists>i < NENV. has_status s [ENV_RUNNABLE, ENV_RUNNING, ENV_DYING] i)"

text \<open>What an operation that began in \<open>s\<close> promises when it ends in \<open>t\<close>.\<close>

definition mon_ok :: "leave option \<Rightarrow> kst \<Rightarrow> kst \<Rightarrow> bool" where
  "mon_ok l s t = (case l of
     None \<Rightarrow> lock_part t = lock_part s
   | Some InMonitor \<Rightarrow> lock_part t = lock_part s \<and> no_work t
   | Some _ \<Rightarrow> True)"

lemma mon_ok_simps [simp]:
  "mon_ok None s t = (lock_part t = lock_part s)" "mon_ok (Some (RunEnv e)) s t" "mon_ok (Some Halted) s t"
  "mon_ok (Some InMonitor) s t = (lock_part t = lock_part s \<and> no_work t)"
  by (simp_all add: mon_ok_def)

lemma mon_ok_cong: "lock_part s = lock_part s0 \<Longrightarrow> mon_ok l s t = mon_ok l s0 t"
  by (simp add: mon_ok_def split: option.splits leave.splits)

definition left_by :: "outcome \<Rightarrow> leave option" where
  "left_by res = (case res of Ret _ \<Rightarrow> None | Leaves how \<Rightarrow> Some how)"

lemma left_by_simps [simp]: "left_by (Ret r) = None" "left_by (Leaves how) = Some how"
  by (simp_all add: left_by_def)

lemma lock_part_updates [simp]:
  "lock_part (set_env i e s) = lock_part s" "lock_part (s\<lparr>env_free_list := l\<rparr>) = lock_part s"
  "lock_part (s\<lparr>cr3 := x\<rparr>) = lock_part s" "lock_part (s\<lparr>con := cs\<rparr>) = lock_part s"
  "lock_part (s\<lparr>curenv := c\<rparr>) = lock_part s" "lock_part (copy_frame d b s) = lock_part s"
  "lock_part (write_pte q v s) = lock_part s" "lock_part (set_page j p s) = lock_part s"
  by (simp_all add: lock_part_def set_env_def copy_frame_def write_pte_def set_page_def)

named_theorems lock_frames \<open>operations that keep the lock\<close>

lemma same_envs_lock: "same_envs t s \<Longrightarrow> lock_part t = lock_part s"
  by (simp add: env_part_def lock_part_def)

lemmas mem_lock [lock_frames] =
  env_frames[THEN same_envs_lock]

lemma upd_env_lock [lock_frames]: "upd_env i f s = Some t \<Longrightarrow> lock_part t = lock_part s"
  by (auto simp: upd_env_def bind_eq_Some_conv)

lemma env_setup_vm_lock [lock_frames]: "env_setup_vm e s = Some (r, t) \<Longrightarrow> lock_part t = lock_part s"
  by (auto simp: env_setup_vm_def bind_eq_Some_conv Let_def split: option.splits dest!: lock_frames)

lemma env_alloc_lock [lock_frames]: "env_alloc par s = Some (r, t) \<Longrightarrow> lock_part t = lock_part s"
  by (auto simp: env_alloc_def bind_eq_Some_conv split: option.splits if_splits dest!: env_setup_vm_lock)

lemma env_free_lock [lock_frames]: "env_free e s = Some t \<Longrightarrow> lock_part t = lock_part s"
  by (auto simp: env_free_def bind_eq_Some_conv Let_def split: if_splits
      dest!: env_free_loop_frame[THEN same_envs_lock] page_decref_frame[THEN same_envs_lock])

section \<open>The scheduler\<close>

lemma env_run_mon: "env_run e s = Some (how, t) \<Longrightarrow> mon_ok (Some how) s0 t"
  by (auto simp: env_run_def env_pop_tf_def bind_eq_Some_conv Let_def split: option.splits)

lemma sched_halt_mon: "sched_halt s = Some (how, t) \<Longrightarrow> mon_ok (Some how) s t"
  by (auto simp: sched_halt_def no_work_def bind_eq_Some_conv Let_def split: if_splits)

lemma sched_yield_mon: "sched_yield s = Some (how, t) \<Longrightarrow> mon_ok (Some how) s t"
  by (auto simp: sched_yield_def bind_eq_Some_conv split: option.splits if_splits
      dest: env_run_mon sched_halt_mon)

lemma env_destroy_mon: "env_destroy e s = Some (l, t) \<Longrightarrow> mon_ok l s t"
proof -
  assume d: "env_destroy e s = Some (l, t)"
  have y: "mon_ok (Some how) s t" if "env_free e s = Some s1" "sched_yield (s1\<lparr>curenv := None\<rparr>) = Some (how, t)" for s1 how
    using sched_yield_mon[OF that(2)] env_free_lock[OF that(1)] mon_ok_cong[of "s1\<lparr>curenv := None\<rparr>" s] by simp
  show ?thesis using d
    by (auto simp: env_destroy_def bind_eq_Some_conv env_free_lock split: if_splits intro: y)
qed

lemma user_mem_assert_mon:
  assumes u: "user_mem_assert e va len perm s = Some (l, t)"
  shows "mon_ok l s t"
proof -
  have y: "mon_ok l s t" if "env_destroy e s1 = Some (l, t)" "lock_part s1 = lock_part s" for s1
    using env_destroy_mon[OF that(1)] mon_ok_cong[OF that(2)] by simp
  show ?thesis using u
    by (auto simp: user_mem_assert_def bind_eq_Some_conv split: if_splits intro: y dest!: user_mem_check_frame[THEN same_envs_lock])
qed

section \<open>System calls\<close>

named_theorems sys_mon \<open>system calls and the monitor\<close>

lemma putch_lock: "putch ch s = Some t \<Longrightarrow> lock_part t = lock_part s"
  by (auto simp: putch_def bind_eq_Some_conv)

lemma print_user_lock:
  assumes "print_user pr p s = Some t"
  shows "lock_part t = lock_part s"
  by (rule print_user.raw_induct[where P = "\<lambda>pr p s t. lock_part t = lock_part s", OF _ assms])
     (auto simp: bind_eq_Some_conv putch_lock split: if_splits)

lemma print_arg_lock: "print_arg pr p s = Some t \<Longrightarrow> lock_part t = lock_part s"
  by (auto simp: print_arg_def print_user_lock putch_lock split: if_splits
      dest: foldM_inv[where P = "\<lambda>t. lock_part t = lock_part s"])

lemma sys_cputs_mon [sys_mon]: "sys_cputs str len s = Some (res, t) \<Longrightarrow> mon_ok (left_by res) s t"
  by (auto simp: sys_cputs_def bind_eq_Some_conv split: option.splits dest!: user_mem_assert_mon print_arg_lock)

lemma sys_simple_mon [sys_mon]:
  "sys_cgetc s = Some (res, t) \<Longrightarrow> mon_ok (left_by res) s t"
  "sys_getenvid s = Some (res, t) \<Longrightarrow> mon_ok (left_by res) s t"
  "sys_yield s = Some (res, t) \<Longrightarrow> mon_ok (left_by res) s t"
  "sys_env_set_status eid st s = Some (res, t) \<Longrightarrow> mon_ok (left_by res) s t"
  "sys_env_set_trapframe eid tf s = Some (res, t) \<Longrightarrow> mon_ok (left_by res) s t"
  "sys_env_set_pgfault_upcall eid func s = Some (res, t) \<Longrightarrow> mon_ok (left_by res) s t"
  by (auto simp: sys_cgetc_def sys_getenvid_def sys_yield_def sys_env_set_status_def sys_env_set_trapframe_def
      sys_env_set_pgfault_upcall_def bind_eq_Some_conv split: if_splits dest!: upd_env_lock sched_yield_mon)

lemma sys_env_destroy_mon [sys_mon]: "sys_env_destroy eid s = Some (res, t) \<Longrightarrow> mon_ok (left_by res) s t"
  by (auto simp: sys_env_destroy_def bind_eq_Some_conv split: if_splits option.splits dest!: env_destroy_mon)

lemma sys_exofork_mon [sys_mon]: "sys_exofork s = Some (res, t) \<Longrightarrow> mon_ok (left_by res) s t"
proof -
  assume x: "sys_exofork s = Some (res, t)"
  have "holds (\<lambda>(res, t). mon_ok (left_by res) s t) (sys_exofork s)"
    unfolding sys_exofork_def by (intro vcg) (simp_all add: env_alloc_lock upd_env_lock)
  from holdsD[OF this x] show ?thesis by simp
qed

lemma sys_ret_mon:
  assumes "holds (\<lambda>(res, t). same_envs t s \<and> (\<exists>r. res = Ret r)) m" and "m = Some (res, t)"
  shows "mon_ok (left_by res) s t"
proof -
  have "same_envs t s" "\<exists>r. res = Ret r" using holdsD[OF assms] by simp_all
  then show ?thesis using same_envs_lock[of t s] by fastforce
qed

lemmas sys_page_mon [sys_mon] =
  sys_ret_mon[OF sys_page_alloc_frame] sys_ret_mon[OF sys_page_map_frame] sys_ret_mon[OF sys_page_unmap_frame]

lemma ipc_send_page_lock: "holds (\<lambda>(r, t). lock_part t = lock_part s) (ipc_send_page e srcva perm s)"
  unfolding ipc_send_page_def
  by (intro vcg) (auto dest!: page_lookup_frame[THEN same_envs_lock] page_insert_frame[THEN same_envs_lock] upd_env_lock)

lemma sys_ipc_try_send_mon [sys_mon]:
  assumes "sys_ipc_try_send eid val srcva perm s = Some (res, t)"
  shows "mon_ok (left_by res) s t"
proof -
  have q: "lock_part t = lock_part s"
    if "(if srcva < UTOP then ipc_send_page e srcva perm s else Some (Inr (), s)) = Some (r, t)" for e r t
    using that holdsD[OF ipc_send_page_lock, of e srcva perm s "(r, t)"] by (auto split: if_splits)
  have "holds (\<lambda>(res, t). mon_ok (left_by res) s t) (sys_ipc_try_send eid val srcva perm s)"
    unfolding sys_ipc_try_send_def by (intro vcg) (auto dest!: q upd_env_lock)
  from holdsD[OF this assms] show ?thesis by simp
qed

lemma sys_ipc_recv_mon [sys_mon]:
  assumes r: "sys_ipc_recv dstva s = Some (res, t)"
  shows "mon_ok (left_by res) s t"
proof -
  have y: "mon_ok (Some how) s t" if "lock_part s1 = lock_part s" "sched_yield s1 = Some (how, t)" for s1 how
    using sched_yield_mon[OF that(2)] mon_ok_cong[OF that(1)] by simp
  show ?thesis using r
    by (auto simp: sys_ipc_recv_def bind_eq_Some_conv split: if_splits intro!: y dest!: upd_env_lock)
qed

lemma syscall_mon: "syscall n a1 a2 a3 a4 a5 s = Some (res, t) \<Longrightarrow> mon_ok (left_by res) s t"
  unfolding syscall_def by (auto split: if_splits dest!: sys_mon)

section \<open>Traps\<close>

lemma push_utf_lock: "push_utf u va tf s = Some t \<Longrightarrow> lock_part t = lock_part s"
  using holdsD[OF push_utf_frame] same_envs_lock by blast

lemma page_fault_handler_mon:
  assumes h: "page_fault_handler tfp cr2 s = Some (l, t)"
  shows "mon_ok l s t"
proof -
  have b: "mon_ok l s t" if "user_mem_assert c u n p s = Some (None, s1)" "user_mem_assert c w m q s1 = Some (l, t)"
    for c u n p s1 w m q l t
    using user_mem_assert_mon[OF that(1)] user_mem_assert_mon[OF that(2)] mon_ok_cong[of s1 s] by simp
  have "holds (\<lambda>(l, t). mon_ok l s t) (page_fault_handler tfp cr2 s)"
    unfolding page_fault_handler_def
    by (intro vcg) (auto simp: holds_def intro: b env_run_mon dest: user_mem_assert_mon env_destroy_mon)
  from holdsD[OF this h] show ?thesis by simp
qed

lemma set_eax_lock: "set_eax tf r s = Some t \<Longrightarrow> lock_part t = lock_part s"
  by (auto simp: set_eax_def split: tf_ptr.splits dest: upd_env_lock)

lemma trap_dispatch_mon:
  assumes d: "trap_dispatch tfp cr2 s = Some (l, t)" and g: "get_tf tfp s = Some tf"
  shows "mon_ok l s t \<or> l = Some InMonitor \<and> t = s \<and> unat (tf_trapno tf) = T_BRKPT"
proof -
  have x: "lock_part t = lock_part s" if "syscall n a b c d e s = Some (Ret r, s1)" "set_eax tfp v s1 = Some t" for n a b c d e r s1 v t
    using syscall_mon[OF that(1)] set_eax_lock[OF that(2)] by simp
  have y: "mon_ok (Some how) s t" if "syscall n a b c d e s = Some (Leaves how, t)" for n a b c d e how t
    using syscall_mon[OF that] by simp
  have "holds (\<lambda>(l, t). mon_ok l s t \<or> l = Some InMonitor \<and> t = s \<and> unat (tf_trapno tf) = T_BRKPT) (trap_dispatch tfp cr2 s)"
    unfolding trap_dispatch_def g
    by (intro vcg) (auto simp: holds_def intro: page_fault_handler_mon sched_yield_mon env_destroy_mon y dest: x)
  from holdsD[OF this d] show ?thesis by simp
qed

lemma trap_body_mon:
  assumes b: "trap_body tfp cr2 s = Some (how, t)" and g: "get_tf tfp s = Some tf"
  shows "mon_ok (Some how) s t \<or> how = InMonitor \<and> t = s \<and> unat (tf_trapno tf) = T_BRKPT"
proof -
  from b obtain l s1 where d: "trap_dispatch tfp cr2 s = Some (l, s1)"
    and r: "(case l of Some how \<Rightarrow> Some (how, s1) | None \<Rightarrow> trap_return s1) = Some (how, t)"
    by (auto simp: trap_body_def bind_eq_Some_conv)
  have m: "mon_ok (Some how) s1 t" if "trap_return s1 = Some (how, t)"
    using that by (auto simp: trap_return_def bind_eq_Some_conv split: option.splits if_splits intro: env_run_mon sched_yield_mon)
  show ?thesis
  proof (cases l)
    case None
    then have "lock_part s1 = lock_part s" using trap_dispatch_mon[OF d g] by simp
    then show ?thesis using None r m mon_ok_cong[of s1 s] by simp
  next
    case (Some h)
    then show ?thesis using trap_dispatch_mon[OF d g] r by auto
  qed
qed

text \<open>
  The lock in the monitor: the trap has taken it when it came from user mode or woke a halted
  processor, and otherwise, in the kernel, leaves it as it was.
\<close>

theorem trap_monitor:
  assumes t: "trap tf cr2 fl s = Some (InMonitor, t)"
  shows "\<not> panicked t \<and> this_cpu t = this_cpu s
    \<and> klock t = (if tf_cs tf AND 3 = 3 \<or> cpu_status s (this_cpu s) = CPU_HALTED then Some (this_cpu s) else klock s)
    \<and> (unat (tf_trapno tf) = T_BRKPT \<or> no_work t)"
proof -
  define s0 where "s0 = s\<lparr>cpu_status := (cpu_status s)(this_cpu s := CPU_STARTED)\<rparr>"
  have s0: "klock s0 = klock s" "this_cpu s0 = this_cpu s" "panicked s0 = panicked s" by (simp_all add: s0_def)
  let ?h = "cpu_status s (this_cpu s) = CPU_HALTED"
  have np: "\<not> panicked s" using t by (auto simp: trap_def)
  from t np obtain s1 where l1: "(if ?h then lock_kernel s0 else Some s0) = Some s1"
    and r: "(if fl AND FL_IF \<noteq> 0 then None
        else if tf_cs tf AND 3 = 3 then do {
          s \<leftarrow> lock_kernel s1;
          (c, ce) \<leftarrow> cur_env s;
          if env_status ce = ENV_DYING then do { s \<leftarrow> env_free c s; sched_yield (s\<lparr>curenv := None\<rparr>) }
          else do { s \<leftarrow> upd_env c (\<lambda>e. e\<lparr>env_tf := tf\<rparr>) s; trap_body (InEnv c) cr2 s }
        } else trap_body (OnStack tf) cr2 s1) = Some (InMonitor, t)"
    by (auto simp: trap_def s0_def[symmetric] Let_def bind_eq_Some_conv)
  have L1: "lock_part s1 = (if ?h then Some (this_cpu s) else klock s, this_cpu s, False)"
    using l1 np s0 by (auto simp: lock_kernel_def lock_part_def split: if_splits)
  show ?thesis
  proof (cases "tf_cs tf AND 3 = 3")
    case True
    from r True obtain s2 c ce where l2: "lock_kernel s1 = Some s2" and c: "cur_env s2 = Some (c, ce)"
      and q: "(if env_status ce = ENV_DYING then do { s \<leftarrow> env_free c s2; sched_yield (s\<lparr>curenv := None\<rparr>) }
          else do { s \<leftarrow> upd_env c (\<lambda>e. e\<lparr>env_tf := tf\<rparr>) s2; trap_body (InEnv c) cr2 s }) = Some (InMonitor, t)"
      by (auto simp: bind_eq_Some_conv split: if_splits)
    have L2: "lock_part s2 = (Some (this_cpu s), this_cpu s, False)"
      using l2 L1 by (auto simp: lock_kernel_def lock_part_def split: if_splits)
    have "lock_part t = lock_part s2 \<and> (unat (tf_trapno tf) = T_BRKPT \<or> no_work t)"
    proof (cases "env_status ce = ENV_DYING")
      case True
      with q obtain s3 where "env_free c s2 = Some s3" "sched_yield (s3\<lparr>curenv := None\<rparr>) = Some (InMonitor, t)"
        by (auto simp: bind_eq_Some_conv)
      then show ?thesis using sched_yield_mon env_free_lock by fastforce
    next
      case False
      with q obtain s3 where u: "upd_env c (\<lambda>e. e\<lparr>env_tf := tf\<rparr>) s2 = Some s3" "trap_body (InEnv c) cr2 s3 = Some (InMonitor, t)"
        by (auto simp: bind_eq_Some_conv)
      have "get_tf (InEnv c) s3 = Some tf"
        using u(1) by (auto simp: upd_env_def bind_eq_Some_conv get_tf_def env_at_def set_env_def split: if_splits)
      from trap_body_mon[OF u(2) this] show ?thesis using upd_env_lock[OF u(1)] by auto
    qed
    then show ?thesis using L2 True by (auto simp: lock_part_def)
  next
    case False
    then have b: "trap_body (OnStack tf) cr2 s1 = Some (InMonitor, t)" using r by (auto split: if_splits)
    have "get_tf (OnStack tf) s1 = Some tf" by (simp add: get_tf_def)
    from trap_body_mon[OF b this] have "lock_part t = lock_part s1 \<and> (unat (tf_trapno tf) = T_BRKPT \<or> no_work t)" by auto
    then show ?thesis using L1 False by (auto simp: lock_part_def)
  qed
qed

end
