(* ===== verification/Shell.thy ===== *)
theory Shell
  imports Main "HOL-Library.Monad_Syntax"
begin

text \<open>
  The command parser of the Linux shell, \<open>TPShell/parsing.c\<close>, \<open>utils.c\<close> and \<open>createcmd.c\<close>, and how a line is
  dispatched (\<open>builtin.c\<close>, \<open>runcmd.c\<close>).  A string in memory is the list of the characters of its block, with
  the terminator and what is behind it; an access outside a block, or a string that is not terminated inside
  its block, is \<open>None\<close>.  The environment and the status of the last command are arguments.
\<close>

section \<open>Strings in blocks\<close>

definition NUL :: char where "NUL = CHR 0x00"
definition SPACE :: char where "SPACE = CHR '' ''"

definition BUFLEN :: nat where "BUFLEN = 1024"
definition MAXARGS :: nat where "MAXARGS = 20"
definition ARGSIZE :: nat where "ARGSIZE = 1024"

text \<open>The string that starts at an index of a block.\<close>

definition str_in :: "string \<Rightarrow> nat \<Rightarrow> string option" where
  "str_in b i = (let s = takeWhile (\<lambda>c. c \<noteq> NUL) (drop i b) in if i + length s < length b then Some s else None)"

text \<open>A block of \<open>n\<close> bytes from \<open>calloc\<close> with a string copied into it.\<close>

definition block :: "nat \<Rightarrow> string \<Rightarrow> string option" where
  "block n s = (if length s < n then Some (s @ replicate (n - length s) NUL) else None)"

section \<open>utils.c\<close>

text \<open>\<open>split_line\<close>: the block afterwards and the index of the second part.\<close>

fun skip_to :: "string \<Rightarrow> char \<Rightarrow> nat \<Rightarrow> nat option" where
  "skip_to [] splitter i = None"
| "skip_to (c # cs) splitter i = (if c \<noteq> splitter \<and> c \<noteq> NUL then skip_to cs splitter (i + 1) else Some i)"

fun skip_spaces :: "string \<Rightarrow> nat \<Rightarrow> nat option" where
  "skip_spaces [] i = None"
| "skip_spaces (c # cs) i = (if c = SPACE then skip_spaces cs (i + 1) else Some i)"

definition split_line :: "string \<Rightarrow> nat \<Rightarrow> char \<Rightarrow> (string \<times> nat) option" where
  "split_line b off splitter = do {
     i \<leftarrow> skip_to (drop off b) splitter off;
     let b = b[i := NUL];
     j \<leftarrow> skip_spaces (drop (i + 1) b) (i + 1);
     Some (b, j)
   }"

definition block_contains :: "string \<Rightarrow> char \<Rightarrow> int" where
  "block_contains s c = (if c \<in> set s then int (length (takeWhile (\<lambda>x. x \<noteq> c) s)) else - 1)"

section \<open>Commands (types.h, createcmd.c)\<close>

text \<open>\<open>argv\<close> holds blocks; \<open>redir\<close> tells \<open>REDIR\<close> from \<open>EXEC\<close>.\<close>

record execcmd =
  redir :: bool
  scmd :: string
  argv :: "string list"
  eargv :: "string list"
  out_file :: string
  in_file :: string
  err_file :: string

datatype cmd = Exec execcmd | Back string cmd | Pipe "cmd option" cmd

definition exec_cmd_create :: "string \<Rightarrow> execcmd" where
  "exec_cmd_create s = \<lparr>redir = False, scmd = s, argv = [], eargv = [], out_file = [], in_file = [], err_file = []\<rparr>"

definition back_cmd_create :: "execcmd \<Rightarrow> cmd" where
  "back_cmd_create c = Back (scmd c) (Exec c)"

text \<open>\<open>None\<close> is the null pointer.\<close>

definition pipe_cmd_create :: "cmd option \<Rightarrow> cmd option \<Rightarrow> cmd option" where
  "pipe_cmd_create l r = (case r of None \<Rightarrow> l | Some r \<Rightarrow> Some (Pipe l r))"

section \<open>Parsing one command\<close>

text \<open>A token of 1024 characters or more overflows its block.\<close>

definition get_token :: "string \<Rightarrow> string option" where
  "get_token s = (let t = takeWhile (\<lambda>c. c \<noteq> SPACE) s in if length t < ARGSIZE then Some t else None)"

text \<open>The command if the token was a redirection.\<close>

definition parse_redir_flow :: "execcmd \<Rightarrow> string \<Rightarrow> execcmd option" where
  "parse_redir_flow c arg =
     (let i = block_contains arg CHR ''>'' in
      if i \<ge> 0 then
        Some ((if i = 0 then c\<lparr>out_file := drop 1 arg\<rparr>
               else if i = 1 then c\<lparr>err_file := drop 2 arg\<rparr> else c)\<lparr>redir := True\<rparr>)
      else if block_contains arg CHR ''<'' \<ge> 0 then Some (c\<lparr>in_file := drop 1 arg, redir := True\<rparr>)
      else None)"

definition is_environ_var :: "string \<Rightarrow> bool" where
  "is_environ_var arg \<longleftrightarrow> block_contains arg CHR ''='' > 0 \<and> block_contains arg CHR ''-'' < 0"

text \<open>\<open>%d\<close>\<close>

fun show_nat :: "nat \<Rightarrow> string" where
  "show_nat n = (if n < 10 then [char_of (48 + n)] else show_nat (n div 10) @ [char_of (48 + n mod 10)])"

declare show_nat.simps [simp del]

definition show_int :: "int \<Rightarrow> string" where
  "show_int i = (if i < 0 then CHR ''-'' # show_nat (nat (- i)) else show_nat (nat i))"

text \<open>
  The block of the argument, in and out.  \<open>realloc\<close> to a smaller size keeps the first bytes; \<open>memcpy\<close> copies
  the value without its terminator.
\<close>

definition expand_environ_var :: "(string \<Rightarrow> string option) \<Rightarrow> int \<Rightarrow> string \<Rightarrow> string option" where
  "expand_environ_var env status b = do {
     arg \<leftarrow> str_in b 0;
     if arg \<noteq> [] \<and> hd arg = CHR ''$'' then
       (if length arg > 1 \<and> arg ! 1 = CHR ''?'' then Some (show_int status @ [NUL])
        else case env (drop 1 arg) of
          None \<Rightarrow> Some (b[0 := NUL])
        | Some v \<Rightarrow>
            let b = (if length arg > length v then take (length v + 1) b else b)
            in if length v \<le> length b then Some (v @ drop (length v) b) else None)
     else Some b
   }"

text \<open>The arguments of a command, whose array has room for 20 pointers, and the last one must be null.\<close>

function parse_args :: "(string \<Rightarrow> string option) \<Rightarrow> int \<Rightarrow> string \<Rightarrow> execcmd \<Rightarrow> execcmd option" where
  "parse_args env status s c =
     (if s = [] then (if length (argv c) < MAXARGS then Some c else None)
      else do {
        tok \<leftarrow> get_token s;
        let s = drop (length tok + 1) s;
        (case parse_redir_flow c tok of
           Some c \<Rightarrow> parse_args env status s c
         | None \<Rightarrow>
             if is_environ_var tok then
               (if length (eargv c) < MAXARGS then parse_args env status s (c\<lparr>eargv := eargv c @ [tok]\<rparr>) else None)
             else do {
               b \<leftarrow> block ARGSIZE tok;
               b \<leftarrow> expand_environ_var env status b;
               (if length (argv c) < MAXARGS then parse_args env status s (c\<lparr>argv := argv c @ [b]\<rparr>) else None)
             })
      })"
  by pat_completeness auto
termination by (relation "measure (\<lambda>(env, status, s, c). length s)") auto

declare parse_args.simps [simp del]

definition parse_exec :: "(string \<Rightarrow> string option) \<Rightarrow> int \<Rightarrow> string \<Rightarrow> execcmd option" where
  "parse_exec env status s = (if length s < BUFLEN then parse_args env status s (exec_cmd_create s) else None)"

definition parse_back :: "(string \<Rightarrow> string option) \<Rightarrow> int \<Rightarrow> string \<Rightarrow> cmd option" where
  "parse_back env status s =
     map_option back_cmd_create (parse_exec env status (takeWhile (\<lambda>c. c \<noteq> CHR ''&'') s))"

text \<open>The command at an index of the line's block; the inner \<open>None\<close> is the null pointer.\<close>

definition parse_cmd :: "(string \<Rightarrow> string option) \<Rightarrow> int \<Rightarrow> string \<Rightarrow> nat \<Rightarrow> cmd option option" where
  "parse_cmd env status b off = do {
     s \<leftarrow> str_in b off;
     if s = [] then Some None
     else let i = block_contains s CHR ''&'' in
       if i < 0 then map_option (\<lambda>c. Some (Exec c)) (parse_exec env status s)
       else if off = 0 \<and> i = 0 then None
       else if b ! (off + nat i - 1) \<noteq> CHR ''>'' then map_option Some (parse_back env status s)
       else map_option (\<lambda>c. Some (Exec c)) (parse_exec env status s)
   }"

partial_function (option) parse_line :: "(string \<Rightarrow> string option) \<Rightarrow> int \<Rightarrow> string \<Rightarrow> nat \<Rightarrow> cmd option option" where
  "parse_line env status b off = do {
     (b, right) \<leftarrow> split_line b off CHR ''|'';
     l \<leftarrow> parse_cmd env status b off;
     s \<leftarrow> str_in b right;
     r \<leftarrow> (if block_contains s CHR ''|'' > 0 then parse_line env status b right else parse_cmd env status b right);
     Some (pipe_cmd_create l r)
   }"

section \<open>Dispatching a line (builtin.c, runcmd.c)\<close>

text \<open>
  \<open>strstr(cmd, "history")\<close> is a search anywhere in the line.  The arguments say whether \<open>chdir\<close> to the home
  directory, \<open>getcwd\<close> and opening the history file succeed.  The process that runs the parsed command, and the
  history file, belong to the system.
\<close>

fun contains :: "string \<Rightarrow> string \<Rightarrow> bool" where
  "contains [] pat = (pat = [])"
| "contains (c # cs) pat = (take (length pat) (c # cs) = pat \<or> contains cs pat)"

datatype action = Nothing | ChangeHome | Leave | PrintDirectory | ShowHistory bool | Launch "cmd option"

definition run_cmd_without_history :: "bool \<Rightarrow> bool \<Rightarrow> bool \<Rightarrow> (string \<Rightarrow> string option) \<Rightarrow> int \<Rightarrow> string \<Rightarrow> action option" where
  "run_cmd_without_history home_ok cwd_ok hist_ok env status b = do {
     line \<leftarrow> str_in b 0;
     if line = [] then Some Nothing
     else if line = ''cd'' \<and> home_ok then Some ChangeHome
     else if line = ''exit'' then Some Leave
     else if line = ''pwd'' \<and> cwd_ok then Some PrintDirectory
     else if contains line ''history'' \<and> hist_ok then Some (ShowHistory (line = ''history''))
     else map_option Launch (parse_line env status b 0)
   }"

text \<open>A directory given to \<open>cd\<close> is never used: the line goes to \<open>execvp\<close>.\<close>

lemma cd_with_directory:
  "run_cmd_without_history True True False env status (''cd /'' @ [NUL, NUL, NUL]) =
     map_option Launch (parse_line env status (''cd /'' @ [NUL, NUL, NUL]) 0)"
  by (simp add: run_cmd_without_history_def str_in_def NUL_def Let_def)

section \<open>Plain pipelines\<close>

text \<open>Words without any character that means something to the shell.\<close>

definition plain :: "string \<Rightarrow> bool" where
  "plain w \<longleftrightarrow> w \<noteq> [] \<and> length w < ARGSIZE \<and> set w \<inter> {NUL, SPACE, CHR ''|'', CHR ''&'', CHR ''<'', CHR ''>'', CHR ''='', CHR ''$''} = {}"

fun join :: "string \<Rightarrow> string list \<Rightarrow> string" where
  "join sep [] = []"
| "join sep [w] = w"
| "join sep (w # ws) = w @ sep @ join sep ws"

lemma join_Cons: "ws \<noteq> [] \<Longrightarrow> join sep (w # ws) = w @ sep @ join sep ws"
  by (cases ws) simp_all

definition word_block :: "string \<Rightarrow> string" where
  "word_block w = w @ replicate (ARGSIZE - length w) NUL"

lemma not_in_contains: "c \<notin> set s \<Longrightarrow> block_contains s c = - 1"
  by (simp add: block_contains_def)

lemma plain_token:
  assumes "plain w"
  shows "parse_redir_flow c w = None" "\<not> is_environ_var w" "block ARGSIZE w = Some (word_block w)"
    "expand_environ_var env status (word_block w) = Some (word_block w)" "SPACE \<notin> set w" "w \<noteq> []" "length w < ARGSIZE"
proof -
  have n: "CHR ''>'' \<notin> set w" "CHR ''<'' \<notin> set w" "CHR ''='' \<notin> set w" "NUL \<notin> set w" "CHR ''$'' \<notin> set w" "w \<noteq> []"
    using assms unfolding plain_def by blast+
  then have d: "hd w \<noteq> CHR ''$''" using hd_in_set[of w] by metis
  show l: "w \<noteq> []" "length w < ARGSIZE" "SPACE \<notin> set w" using assms by (auto simp: plain_def)
  show "parse_redir_flow c w = None" "\<not> is_environ_var w"
    using n by (simp_all add: parse_redir_flow_def is_environ_var_def not_in_contains)
  show "block ARGSIZE w = Some (word_block w)" using l by (simp add: block_def word_block_def)
  have "takeWhile (\<lambda>c. c \<noteq> NUL) (word_block w) = w" using n(4) by (simp add: word_block_def takeWhile_append)
  then have "str_in (word_block w) 0 = Some w" using l by (simp add: str_in_def word_block_def Let_def)
  then show "expand_environ_var env status (word_block w) = Some (word_block w)"
    using d by (simp add: expand_environ_var_def)
qed

lemma parse_args_step:
  assumes "plain w" and "length (argv c) < MAXARGS" and "t = [] \<or> hd t = SPACE"
  shows "parse_args env status (w @ t) c = parse_args env status (drop 1 t) (c\<lparr>argv := argv c @ [word_block w]\<rparr>)"
proof -
  note P = plain_token[OF assms(1)]
  have "takeWhile (\<lambda>x. x \<noteq> SPACE) (w @ t) = w" using P(5) assms(3) by (cases t) (auto simp: takeWhile_append)
  then have "get_token (w @ t) = Some w" using P(7) by (simp add: get_token_def)
  then show ?thesis using P assms(2) by (subst parse_args.simps) simp
qed

lemma parse_args_words:
  assumes "ws \<noteq> []" and "\<forall>w \<in> set ws. plain w" and "length (argv c) + length ws < MAXARGS" and "t = [] \<or> t = [SPACE]"
  shows "parse_args env status (join [SPACE] ws @ t) c = Some (c\<lparr>argv := argv c @ map word_block ws\<rparr>)"
  using assms(1-3)
proof (induction ws arbitrary: c rule: list_nonempty_induct)
  case (single w)
  then show ?case using parse_args_step[of w c t env status] assms(4) by (auto simp: parse_args.simps)
next
  case (cons w ws)
  have "parse_args env status (join [SPACE] (w # ws) @ t) c
      = parse_args env status (join [SPACE] ws @ t) (c\<lparr>argv := argv c @ [word_block w]\<rparr>)"
    using parse_args_step[of w c "[SPACE] @ join [SPACE] ws @ t" env status] cons by (simp add: join_Cons)
  then show ?case using cons by simp
qed

text \<open>A command line of plain words, and the commands that it stands for; all but the last are cut before a space.\<close>

definition simple :: "string list \<Rightarrow> string \<Rightarrow> cmd" where
  "simple ws t = Exec ((exec_cmd_create (join [SPACE] ws @ t))\<lparr>argv := map word_block ws\<rparr>)"

fun pipeline :: "string list list \<Rightarrow> cmd" where
  "pipeline [] = Exec (exec_cmd_create [])"
| "pipeline [c] = simple c []"
| "pipeline (c # cs) = Pipe (Some (simple c [SPACE])) (pipeline cs)"

definition line_of :: "string list list \<Rightarrow> string" where
  "line_of cs = join [SPACE, CHR ''|'', SPACE] (map (join [SPACE]) cs)"

definition good_cmd :: "string list \<Rightarrow> bool" where
  "good_cmd ws \<longleftrightarrow> ws \<noteq> [] \<and> (\<forall>w \<in> set ws. plain w) \<and> length ws < MAXARGS"

lemma set_join: "set (join sep ws) \<subseteq> set sep \<union> \<Union> (set ` set ws)"
  by (induction sep ws rule: join.induct) auto

lemma good_cmd_chars:
  assumes "good_cmd c"
  shows "NUL \<notin> set (join [SPACE] c)" "CHR ''|'' \<notin> set (join [SPACE] c)" "CHR ''&'' \<notin> set (join [SPACE] c)"
    "join [SPACE] c \<noteq> []" "hd (join [SPACE] c @ x) \<noteq> SPACE" "hd (join [SPACE] c @ x) \<noteq> CHR ''|''"
proof -
  obtain w ws where c: "c = w # ws" using assms by (cases c) (auto simp: good_cmd_def)
  have pl: "plain v" if "v \<in> set c" for v using assms that by (simp add: good_cmd_def)
  have no: "x \<notin> set (join [SPACE] c)" if "x \<noteq> SPACE" "\<And>v. plain v \<Longrightarrow> x \<notin> set v" for x
    using set_join[of "[SPACE]" c] that pl by fastforce
  show "NUL \<notin> set (join [SPACE] c)" by (rule no) (simp_all add: NUL_def SPACE_def plain_def)
  show "CHR ''|'' \<notin> set (join [SPACE] c)" "CHR ''&'' \<notin> set (join [SPACE] c)"
    by (rule no; simp add: SPACE_def plain_def)+
  have "w \<noteq> []" "SPACE \<notin> set w" "CHR ''|'' \<notin> set w" using pl[of w] c by (auto simp: plain_def)
  then have w: "w \<noteq> []" "hd w \<noteq> SPACE" "hd w \<noteq> CHR ''|''" using hd_in_set[of w] by metis+
  have j: "\<exists>y. join [SPACE] c = w @ y" by (cases ws) (simp_all add: c)
  then show "join [SPACE] c \<noteq> []" using w by auto
  show "hd (join [SPACE] c @ x) \<noteq> SPACE" "hd (join [SPACE] c @ x) \<noteq> CHR ''|''"
    using j w by auto
qed

lemma str_in_mid: "NUL \<notin> set s \<Longrightarrow> str_in (pre @ s @ NUL # tail) (length pre) = Some s"
  by (simp add: str_in_def takeWhile_append Let_def)

lemma parse_cmd_words:
  assumes "good_cmd c" and "t = [] \<or> t = [SPACE]" and "length (join [SPACE] c @ t) < BUFLEN"
  shows "parse_cmd env status (pre @ (join [SPACE] c @ t) @ NUL # tail) (length pre) = Some (Some (simple c t))"
proof -
  note C = good_cmd_chars[OF assms(1)]
  define s where "s = join [SPACE] c @ t"
  have s: "NUL \<notin> set s" "CHR ''&'' \<notin> set s" "s \<noteq> []"
    using C assms(2) by (auto simp: NUL_def SPACE_def s_def)
  have "parse_exec env status s = Some ((exec_cmd_create s)\<lparr>argv := map word_block c\<rparr>)"
    using parse_args_words[of c "exec_cmd_create s" t env status] assms
    by (simp add: parse_exec_def good_cmd_def exec_cmd_create_def s_def)
  then have "parse_cmd env status (pre @ s @ NUL # tail) (length pre) = Some (Some (simple c t))"
    using s by (simp add: parse_cmd_def str_in_mid[OF s(1)] not_in_contains simple_def Let_def s_def[symmetric])
  then show ?thesis by (simp add: s_def)
qed

lemma skip_to_append: "splitter \<notin> set s \<Longrightarrow> NUL \<notin> set s \<Longrightarrow> x = splitter \<or> x = NUL \<Longrightarrow>
  skip_to (s @ x # rest) splitter i = Some (i + length s)"
  by (induction s arbitrary: i) auto

lemma split_line_at:
  assumes "splitter \<notin> set s" "NUL \<notin> set s" "x = splitter \<or> x = NUL" and "hd y \<noteq> SPACE" "y \<noteq> []"
  shows "split_line (pre @ s @ x # replicate k SPACE @ y) (length pre) splitter =
    Some (pre @ s @ NUL # replicate k SPACE @ y, length pre + length s + 1 + k)"
proof -
  have "skip_spaces (replicate k SPACE @ y) i = Some (i + k)" for i
    using assms(4,5) by (induction k arbitrary: i) (cases y, auto)
  then show ?thesis
    using skip_to_append[OF assms(1-3), of "replicate k SPACE @ y" "length pre"]
    by (simp add: split_line_def list_update_append)
qed

lemma parse_line_pipes:
  assumes "length cs \<ge> 2" "\<forall>c \<in> set cs. good_cmd c" "length (line_of cs) < BUFLEN"
  shows "parse_line env status (pre @ line_of cs @ NUL # tail) (length pre) = Some (Some (pipeline cs))"
  using assms
proof (induction cs arbitrary: pre)
  case (Cons c cs)
  then obtain d ds where cs: "cs = d # ds" by (cases cs) auto
  let ?s = "join [SPACE] c @ [SPACE]"
  have g: "good_cmd c" "good_cmd d" using Cons.prems cs by simp_all
  have line: "line_of (c # cs) = ?s @ CHR ''|'' # SPACE # line_of cs"
    by (simp add: line_of_def cs)
  have s: "CHR ''|'' \<notin> set ?s" "NUL \<notin> set ?s" using good_cmd_chars[OF g(1)] by (auto simp: SPACE_def NUL_def)
  obtain z where z: "line_of cs = join [SPACE] d @ z" by (cases ds) (auto simp: line_of_def cs)
  note D = good_cmd_chars[OF g(2)]
  have nul: "NUL \<notin> set (line_of cs)"
  proof -
    have "NUL \<notin> set x" if "x \<in> set (map (join [SPACE]) cs)" for x
      using that Cons.prems(2) good_cmd_chars(1) by auto
    moreover have "NUL \<notin> set [SPACE, CHR ''|'', SPACE]" by (simp add: NUL_def SPACE_def)
    ultimately show ?thesis using set_join[of "[SPACE, CHR ''|'', SPACE]" "map (join [SPACE]) cs"]
      unfolding line_of_def by blast
  qed
  let ?pre = "pre @ ?s @ [NUL, SPACE]"
  define B where "B = ?pre @ line_of cs @ NUL # tail"
  define n where "n = length ?pre"
  have split: "split_line (pre @ line_of (c # cs) @ NUL # tail) (length pre) CHR ''|'' =
      Some (B, n)"
    using split_line_at[OF s, of "CHR ''|''" "line_of cs @ NUL # tail" pre 1] D(4,5) line z by (simp add: B_def n_def)
  have left: "parse_cmd env status B (length pre) = Some (Some (simple c [SPACE]))"
    using parse_cmd_words[OF g(1), of "[SPACE]" env status pre "SPACE # line_of cs @ NUL # tail"] Cons.prems(3) line by (simp add: B_def)
  have right: "str_in B n = Some (line_of cs)" unfolding B_def n_def by (rule str_in_mid[OF nul])
  have "(if block_contains (line_of cs) CHR ''|'' > 0 then parse_line env status B n
      else parse_cmd env status B n) = Some (Some (pipeline cs))"
  proof (cases ds)
    case Nil
    then have l: "line_of cs = join [SPACE] d" by (simp add: line_of_def cs)
    then show ?thesis using Nil D(2) cs parse_cmd_words[OF g(2), of "[]" env status ?pre tail] Cons.prems(3) line
      by (simp add: not_in_contains B_def n_def)
  next
    case (Cons e es)
    have "block_contains (line_of cs) CHR ''|'' > 0"
    proof -
      have "CHR ''|'' \<in> set (line_of cs)" by (simp add: line_of_def cs Cons)
      moreover have "takeWhile (\<lambda>x. x \<noteq> CHR ''|'') (line_of cs) \<noteq> []"
        using D(4,6) z by (metis append_is_Nil_conv takeWhile_eq_Nil_iff)
      ultimately show ?thesis by (simp add: block_contains_def)
    qed
    moreover have "length (line_of cs) < BUFLEN" using \<open>length (line_of (c # cs)) < BUFLEN\<close> line by simp
    ultimately show ?thesis using Cons.IH[of ?pre] \<open>\<forall>c \<in> set (c # cs). good_cmd c\<close> cs Cons by (simp add: B_def n_def)
  qed
  then have "parse_line env status (pre @ line_of (c # cs) @ NUL # tail) (length pre) =
      Some (pipe_cmd_create (Some (simple c [SPACE])) (Some (pipeline cs)))"
    using split left right by (subst parse_line.simps) simp
  then show ?case by (simp add: pipe_cmd_create_def cs)
qed simp

text \<open>A pipeline comes back from its command line.  Commands of one to nineteen plain words each, written with
  spaces between the words and bars between the commands, are parsed into exactly these commands in a
  right-nested pipeline, in a buffer that is zero behind the line and has room for the terminator and one more byte.
\<close>

theorem parse_line_pipeline:
  assumes "cs \<noteq> []" "\<forall>c \<in> set cs. good_cmd c" "length (line_of cs) + 1 < BUFLEN"
  shows "parse_line env status (line_of cs @ replicate (BUFLEN - length (line_of cs)) NUL) 0 = Some (Some (pipeline cs))"
proof -
  obtain k where k: "BUFLEN - length (line_of cs) = Suc (Suc k)"
    using assms(3) by (metis Suc_diff_Suc Suc_eq_plus1 Suc_lessD)
  show ?thesis
  proof (cases "length cs \<ge> 2")
    case True
    then show ?thesis using parse_line_pipes[OF True assms(2), of env status "[]"] assms(3) k by simp
  next
    case False
    then obtain c where c: "cs = [c]" using assms(1) by (cases cs) (auto simp: Suc_le_eq)
    have g: "good_cmd c" using assms(2) c by simp
    have l: "line_of cs = join [SPACE] c" by (simp add: line_of_def c)
    note C = good_cmd_chars[OF g]
    have "split_line (line_of cs @ NUL # NUL # replicate k NUL) 0 CHR ''|'' =
        Some (line_of cs @ NUL # NUL # replicate k NUL, length (line_of cs) + 1)"
      using split_line_at[OF C(2,1), of NUL "NUL # replicate k NUL" "[]" 0] l by (simp add: NUL_def SPACE_def)
    moreover have "parse_cmd env status (line_of cs @ NUL # NUL # replicate k NUL) 0 = Some (Some (simple c []))"
      using parse_cmd_words[OF g, of "[]" env status "[]"] assms(3) l by simp
    moreover have "str_in (line_of cs @ NUL # NUL # replicate k NUL) (length (line_of cs) + 1) = Some []"
      using str_in_mid[of "[]" "line_of cs @ [NUL]" "replicate k NUL"] by simp
    moreover have "parse_cmd env status (line_of cs @ NUL # NUL # replicate k NUL) (length (line_of cs) + 1) = Some None"
      using calculation(3) by (simp add: parse_cmd_def)
    ultimately show ?thesis unfolding k
      by (subst parse_line.simps) (simp add: c pipe_cmd_create_def not_in_contains)
  qed
qed

theorem parse_line_pipeline_witness:
  "parse_line (\<lambda>_. None) 0 (''ls -l | wc'' @ replicate (BUFLEN - 10) NUL) 0
     = Some (Some (Pipe (Some (simple [''ls'', ''-l''] '' '')) (simple [''wc''] [])))"
proof -
  have "good_cmd [''ls'', ''-l'']" "good_cmd [''wc'']"
    by (simp_all add: good_cmd_def plain_def NUL_def SPACE_def ARGSIZE_def MAXARGS_def)
  moreover have l: "line_of [[''ls'', ''-l''], [''wc'']] = ''ls -l | wc''" by (simp add: line_of_def SPACE_def)
  ultimately show ?thesis
    using parse_line_pipeline[of "[[''ls'', ''-l''], [''wc'']]" "\<lambda>_. None" 0] by (simp add: l BUFLEN_def SPACE_def)
qed

section \<open>Expansion of a variable\<close>

text \<open>
  A value shorter than the argument (with its dollar sign) leaves a string without a terminator: the block is cut
  to the length of the value and one more, and that last byte is the old character of the argument.
\<close>

lemma expand_environ_var_unterminated:
  assumes "arg = CHR ''$'' # name" and "name \<noteq> []" and "hd name \<noteq> CHR ''?''" and "NUL \<notin> set arg"
    and "length arg < ARGSIZE" and "env name = Some v" and "NUL \<notin> set v" and "length v < length arg"
  shows "\<exists>b. expand_environ_var env status (word_block arg) = Some b \<and> str_in b 0 = None"
proof -
  have "str_in (word_block arg) 0 = Some arg"
    using assms(4,5) by (simp add: str_in_def word_block_def takeWhile_append Let_def)
  moreover have "take (length v + 1) (word_block arg) = take (length v) arg @ [arg ! length v]"
    using assms(8) by (simp add: word_block_def take_Suc_conv_app_nth)
  moreover have "\<not> (length arg > 1 \<and> arg ! 1 = CHR ''?'')" using assms(1-3) by (cases name) auto
  ultimately have "expand_environ_var env status (word_block arg) = Some (v @ [arg ! length v])"
    using assms(1,6,8) by (auto simp: expand_environ_var_def)
  moreover have "arg ! length v \<noteq> NUL" using assms(4,8) by (metis nth_mem)
  moreover from this have "takeWhile (\<lambda>c. c \<noteq> NUL) (v @ [arg ! length v]) = v @ [arg ! length v]"
    using assms(7) by (subst takeWhile_eq_all_conv) auto
  ultimately show ?thesis by (simp add: str_in_def)
qed

end
