(* ===== verification/ShellLine.thy ===== *)
theory ShellLine
  imports Shell
begin

text \<open>
  Editing a line in the Linux shell and its history: \<open>TPShell/readline.c\<close>, \<open>history.c\<close> and the designators and
  listings of \<open>builtin.c\<close>.  The history file is a string.  The line buffer is the list of its bytes; a store outside it
  is \<open>None\<close>, and so is a wait for input that does not come, because the loop ignores the end of the input.
  What is shown on the terminal is left out of \<open>read_line\<close>.
\<close>

section \<open>The history file\<close>

definition NEWLINE :: char where "NEWLINE = CHR 0x0A"

text \<open>What successive calls of \<open>getline\<close> return: each line with its newline, the last one perhaps without.\<close>

fun getlines :: "string \<Rightarrow> string list" where
  "getlines [] = []"
| "getlines (c # cs) =
     (if c = NEWLINE then [NEWLINE] # getlines cs
      else case getlines cs of [] \<Rightarrow> [[c]] | l # ls \<Rightarrow> (c # l) # ls)"

definition count_lines :: "string \<Rightarrow> int" where
  "count_lines f = int (length (getlines f))"

text \<open>\<open>None\<close>: there is no environment variable for the path to be made of.\<close>

definition path_history :: "(string \<Rightarrow> string option) \<Rightarrow> string option" where
  "path_history env = (case env ''HISTFILE'' of
      Some p \<Rightarrow> Some p
    | None \<Rightarrow> map_option (\<lambda>h. h @ ''/'' @ ''.fisop_history'') (env ''HOME''))"

definition save_history :: "string \<Rightarrow> string \<Rightarrow> string" where
  "save_history cmd f = f @ cmd @ [NEWLINE]"

text \<open>The line that the loop stops at; without one the string that is cut is not there.\<close>

definition find_command :: "string \<Rightarrow> int \<Rightarrow> string option" where
  "find_command f n =
     (let cant = count_lines f; saltar = nat (if cant - n > 0 then cant - n else 0)
      in if saltar < length (getlines f) then Some (butlast (getlines f ! saltar)) else None)"

text \<open>The commands that can be scrolled through.\<close>

definition get_lines :: "string \<Rightarrow> string list" where
  "get_lines f = map butlast (getlines f)"

text \<open>What is written to the terminal.\<close>

definition show_history :: "string \<Rightarrow> int \<Rightarrow> string" where
  "show_history f n =
     (if n = 0 then []
      else if n = - 1 then f
      else
        let cant = count_lines f; innecesarias = nat (if cant > n then cant - n else 0)
        in concat (drop innecesarias (getlines f)))"

section \<open>Built-ins that use it\<close>

text \<open>\<open>atoi\<close>: spaces, a sign, digits; the value is within an \<open>int\<close>.\<close>

fun digits_value :: "int \<Rightarrow> string \<Rightarrow> int" where
  "digits_value v [] = v"
| "digits_value v (c # cs) =
     (if 48 \<le> (of_char c :: int) \<and> of_char c \<le> (57 :: int) then digits_value (10 * v + (of_char c - 48)) cs else v)"

definition atoi :: "string \<Rightarrow> int" where
  "atoi s = (let s = dropWhile (\<lambda>c. c = SPACE \<or> 9 \<le> (of_char c :: nat) \<and> of_char c \<le> (13 :: nat)) s in
     case s of [] \<Rightarrow> 0
     | c # cs \<Rightarrow> if c = CHR ''-'' then - digits_value 0 cs else if c = CHR ''+'' then digits_value 0 cs else digits_value 0 s)"

text \<open>The command that a designator stands for, and whether it is to be saved; the outer \<open>None\<close> is an access to a line that is not there.
  \<open>file\<close> is the history file if it can be opened.\<close>

definition event_designators :: "string \<Rightarrow> string option \<Rightarrow> (string \<times> bool) option option" where
  "event_designators cmd file =
     (if cmd = [] \<or> hd cmd \<noteq> CHR ''!'' then Some None
      else case file of
        None \<Rightarrow> Some None
      | Some f \<Rightarrow>
          if cmd = ''!!'' \<or> cmd = ''!-1'' then map_option (\<lambda>c. Some (c, False)) (find_command f 1)
          else if length cmd > 1 \<and> cmd ! 1 = CHR ''-'' then map_option (\<lambda>c. Some (c, True)) (find_command f (atoi (drop 2 cmd)))
          else Some None)"

text \<open>The built-in \<open>history\<close>: what it writes, if it is meant.  The count is read behind the eighth character of the line,
  which has at least seven.\<close>

definition history_builtin :: "string \<Rightarrow> string option \<Rightarrow> string option" where
  "history_builtin cmd file =
     (if contains cmd ''history'' then
        (case file of None \<Rightarrow> None
         | Some f \<Rightarrow> Some (show_history f (if cmd = ''history'' then - 1 else atoi (drop 8 cmd))))
      else None)"

definition exit_shell :: "string \<Rightarrow> bool" where
  "exit_shell cmd \<longleftrightarrow> cmd = ''exit''"

text \<open>The directory of the shell and its prompt.  \<open>chdir\<close> and \<open>getcwd\<close> are what the calls of the system return; a null pointer is refused
  by \<open>chdir\<close>.\<close>

record shdir =
  sh_dir :: string
  promt :: string

definition PRMTLEN :: nat where "PRMTLEN = 1024"

definition set_promt :: "string \<Rightarrow> shdir \<Rightarrow> shdir" where
  "set_promt d s = s\<lparr>promt := take ARGSIZE d @ replicate (PRMTLEN - length d) NUL\<rparr>"

definition cd :: "(string \<Rightarrow> string \<Rightarrow> string option) \<Rightarrow> (string \<Rightarrow> string option) \<Rightarrow> (string \<Rightarrow> string option) \<Rightarrow> string \<Rightarrow> shdir \<Rightarrow> bool \<times> shdir" where
  "cd chdir getcwd env cmd s =
     (if cmd = ''cd'' then
        (let pos = block_contains cmd SPACE in
         if pos \<noteq> - 1 then
           (case chdir (sh_dir s) (drop (nat pos + 1) cmd) of
              None \<Rightarrow> (False, s)
            | Some d \<Rightarrow>
                (let s = s\<lparr>sh_dir := d\<rparr>
                 in case getcwd d of None \<Rightarrow> (False, s) | Some cwd \<Rightarrow> (True, set_promt cwd s)))
         else
           (case env ''HOME'' of
              None \<Rightarrow> (False, s)
            | Some home \<Rightarrow> (case chdir (sh_dir s) home of
                None \<Rightarrow> (False, s)
              | Some d \<Rightarrow> (True, set_promt home (s\<lparr>sh_dir := d\<rparr>)))))
      else (False, s))"

text \<open>What \<open>pwd\<close> prints.\<close>

definition pwd :: "(string \<Rightarrow> string option) \<Rightarrow> string \<Rightarrow> shdir \<Rightarrow> string option" where
  "pwd getcwd cmd s = (if cmd = ''pwd'' then getcwd (sh_dir s) else None)"

text \<open>
  One command line with its history (\<open>runcmd.c\<close>): what the line comes to, and the history file afterwards.  \<open>can_save\<close> is whether the
  file can be opened for appending; a command from the history is in the block that \<open>getline\<close> has made, which ends somewhere.
\<close>

partial_function (option) run_cmd ::
  "bool \<Rightarrow> bool \<Rightarrow> bool \<Rightarrow> (string \<Rightarrow> string option) \<Rightarrow> int \<Rightarrow> string option \<Rightarrow> string \<Rightarrow> (action \<times> string option) option" where
  "run_cmd home_ok cwd_ok can_save env status file b = do {
     line \<leftarrow> str_in b 0;
     ev \<leftarrow> event_designators line file;
     (case ev of
        Some (new, should_save) \<Rightarrow>
          if should_save then run_cmd home_ok cwd_ok can_save env status file (new @ [NUL, NUL])
          else map_option (\<lambda>a. (a, file)) (run_cmd_without_history home_ok cwd_ok (file \<noteq> None) env status (new @ [NUL, NUL]))
      | None \<Rightarrow>
          if line = [] then Some (Nothing, file)
          else
            (let file = (if can_save then Some (save_history line (case file of None \<Rightarrow> [] | Some f \<Rightarrow> f)) else file)
             in map_option (\<lambda>a. (a, file)) (run_cmd_without_history home_ok cwd_ok (file \<noteq> None) env status b)))
   }"

section \<open>Editing a line\<close>

definition ESCAPE :: char where "ESCAPE = CHR 0x1B"
definition BACKSPACE :: char where "BACKSPACE = CHR 0x7F"
definition VEOF :: char where "VEOF = CHR 0x04"

definition es_imprimible :: "char \<Rightarrow> bool" where
  "es_imprimible c \<longleftrightarrow> (of_char c :: nat) > 31"

record editst =
  ed_buf :: string
  ed_i :: nat
  ed_shown :: nat    \<comment> \<open>\<open>cant_comandos_mostrados\<close>\<close>

definition limpiar_buffer :: "editst \<Rightarrow> editst" where
  "limpiar_buffer s = s\<lparr>ed_buf := replicate (length (ed_buf s)) NUL\<rparr>"

definition actualizar_buffer :: "string \<Rightarrow> editst \<Rightarrow> editst option" where
  "actualizar_buffer linea s =
     (let s = limpiar_buffer s
      in if length (ed_buf s) < length linea then None
         else Some (s\<lparr>ed_buf := linea @ drop (length linea) (ed_buf s), ed_i := length linea\<rparr>))"

definition set_buf :: "nat \<Rightarrow> char \<Rightarrow> editst \<Rightarrow> editst option" where
  "set_buf i c s = (if i < length (ed_buf s) then Some (s\<lparr>ed_buf := (ed_buf s)[i := c]\<rparr>) else None)"

text \<open>An arrow key \<open>c\<close>; \<open>cs\<close> are the commands of the history.\<close>

definition manejar_desplazamiento :: "string list \<Rightarrow> char \<Rightarrow> editst \<Rightarrow> editst option" where
  "manejar_desplazamiento cs c s =
     (if cs = [] then set_buf 0 NUL ((limpiar_buffer s)\<lparr>ed_i := 0\<rparr>)
      else if c = CHR ''A'' then
        (let s = (if ed_shown s = length cs then s\<lparr>ed_shown := 0\<rparr> else s);
             s = s\<lparr>ed_shown := ed_shown s + 1\<rparr>
         in actualizar_buffer (cs ! (length cs - ed_shown s)) s)
      else if c = CHR ''B'' then
        (if ed_shown s > 1 then
           (let s = s\<lparr>ed_shown := ed_shown s - 1\<rparr> in actualizar_buffer (cs ! (length cs - ed_shown s)) s)
         else set_buf 0 NUL (s\<lparr>ed_i := 0\<rparr>))
      else Some s)"

text \<open>The loop over the keys: the line, or the null pointer for the end of a session.\<close>

fun read_keys :: "string list \<Rightarrow> string \<Rightarrow> editst \<Rightarrow> (string option \<times> string) option" where
  "read_keys cs [] s = None"
| "read_keys cs (c # ks) s =
     (if c = NEWLINE then do { s \<leftarrow> set_buf (ed_i s) NUL s; l \<leftarrow> str_in (ed_buf s) 0; Some (Some l, ks) }
      else if c = VEOF then Some (None, ks)
      else if c = ESCAPE then
        (case ks of
           [] \<Rightarrow> None
         | x # ks1 \<Rightarrow>
             if x = CHR ''['' then
               (case ks1 of [] \<Rightarrow> None | y # ks2 \<Rightarrow> do { s \<leftarrow> manejar_desplazamiento cs y s; read_keys cs ks2 s })
             else read_keys cs ks1 s)
      else if c = BACKSPACE then
        (if ed_i s \<noteq> 0 then do {
           s \<leftarrow> set_buf (ed_i s) NUL s;
           s \<leftarrow> set_buf (ed_i s - 1) NUL (s\<lparr>ed_i := ed_i s - 1\<rparr>);
           read_keys cs ks s
         } else read_keys cs ks s)
      else if es_imprimible c then do {
        s \<leftarrow> set_buf (ed_i s) c s;
        read_keys cs ks (s\<lparr>ed_i := ed_i s + 1\<rparr>)
      }
      else read_keys cs ks s)"

text \<open>\<open>file\<close> is the history file if it can be opened; a line of it that is too long for its block is \<open>None\<close>.\<close>

definition read_line :: "string option \<Rightarrow> string \<Rightarrow> (string option \<times> string) option" where
  "read_line file ks = do {
     cs \<leftarrow> (case file of None \<Rightarrow> Some [] | Some f \<Rightarrow> if \<forall>l \<in> set (getlines f). length l < BUFLEN then Some (get_lines f) else None);
     read_keys cs ks \<lparr>ed_buf = replicate BUFLEN NUL, ed_i = 0, ed_shown = 0\<rparr>
   }"

section \<open>What the history gives back\<close>

lemma getlines_line: "NEWLINE \<notin> set c \<Longrightarrow> getlines (c @ NEWLINE # f) = (c @ [NEWLINE]) # getlines f"
  by (induction c) auto

lemma getlines_saved: "\<forall>c \<in> set cs. NEWLINE \<notin> set c \<Longrightarrow> getlines (concat (map (\<lambda>c. c @ [NEWLINE]) cs)) = map (\<lambda>c. c @ [NEWLINE]) cs"
  by (induction cs) (simp_all add: getlines_line)

text \<open>A file that is made of saved commands.\<close>

definition saved :: "string list \<Rightarrow> string" where
  "saved cs = foldl (\<lambda>f c. save_history c f) [] cs"

lemma saved_concat: "saved cs = concat (map (\<lambda>c. c @ [NEWLINE]) cs)"
proof -
  have "foldl (\<lambda>f c. save_history c f) a cs = a @ concat (map (\<lambda>c. c @ [NEWLINE]) cs)" for a
    by (induction cs arbitrary: a) (simp_all add: save_history_def)
  then show ?thesis by (simp add: saved_def)
qed

lemma find_saved:
  assumes "\<forall>c \<in> set cs. NEWLINE \<notin> set c" "1 \<le> k" "k \<le> length cs"
  shows "find_command (saved cs) (int k) = Some (cs ! (length cs - k))"
proof -
  have g: "getlines (saved cs) = map (\<lambda>c. c @ [NEWLINE]) cs" using getlines_saved[OF assms(1)] by (simp add: saved_concat)
  have "nat (if int (length cs) - int k > 0 then int (length cs) - int k else 0) = length cs - k" by auto
  then show ?thesis using assms(2,3) by (simp add: find_command_def g count_lines_def Let_def)
qed

definition is_digit :: "char \<Rightarrow> bool" where
  "is_digit c \<longleftrightarrow> 48 \<le> (of_char c :: int) \<and> of_char c \<le> (57 :: int)"

lemma digit_char: "(m :: nat) < 10 \<Longrightarrow> is_digit (char_of (48 + m :: nat)) \<and> (of_char (char_of (48 + m :: nat)) :: int) = 48 + int m"
proof -
  assume "m < 10"
  then have "m = 0 \<or> m = 1 \<or> m = 2 \<or> m = 3 \<or> m = 4 \<or> m = 5 \<or> m = 6 \<or> m = 7 \<or> m = 8 \<or> m = 9" by presburger
  moreover have "(of_char (char_of (48 + m)) :: int) = int (of_char (char_of (48 + m)))" by (simp only: of_nat_of_char)
  ultimately show ?thesis unfolding is_digit_def by (elim disjE) simp_all
qed

lemma show_nat_digits: "\<forall>c \<in> set (show_nat n). is_digit c"
proof (induction n rule: show_nat.induct)
  case (1 n)
  show ?case
  proof (cases "n < 10")
    case True
    then show ?thesis using digit_char[OF True] by (subst show_nat.simps) simp
  next
    case False
    have "n mod 10 < 10" by simp
    then show ?thesis using 1[OF False] digit_char[of "n mod 10"] False by (subst show_nat.simps) auto
  qed
qed

lemma digits_append: "\<forall>c \<in> set a. is_digit c \<Longrightarrow> digits_value v (a @ b) = digits_value (digits_value v a) b"
  by (induction a arbitrary: v) (simp_all add: is_digit_def)

lemma digits_show: "digits_value 0 (show_nat n) = int n"
proof (induction n rule: show_nat.induct)
  case (1 n)
  have one: "digits_value v [char_of (48 + m)] = 10 * v + int m" if "m < 10" for v and m :: nat
    using digit_char[OF that] by (simp add: is_digit_def)
  show ?case
  proof (cases "n < 10")
    case True
    then show ?thesis using one[OF True, of 0] by (subst show_nat.simps) simp
  next
    case False
    have "n mod 10 < 10" by simp
    then have "digits_value 0 (show_nat (n div 10) @ [char_of (48 + n mod 10)]) = 10 * int (n div 10) + int (n mod 10)"
      unfolding digits_append[OF show_nat_digits] 1[OF False] by (rule one)
    also have "\<dots> = int n" by (metis mult_div_mod_eq of_nat_add of_nat_mult of_nat_numeral)
    finally show ?thesis using False by (subst show_nat.simps) simp
  qed
qed

lemma show_nat_not_Nil: "show_nat n \<noteq> []"
  by (subst show_nat.simps) simp

lemma atoi_show: "atoi (show_nat n) = int n"
proof -
  obtain c cs where s: "show_nat n = c # cs" using show_nat_not_Nil by (cases "show_nat n") auto
  then have d: "is_digit c" using show_nat_digits[of n] by simp
  have i: "(of_char c :: int) = int (of_char c)" by (simp only: of_nat_of_char)
  have "\<not> (9 \<le> (of_char c :: nat) \<and> of_char c \<le> (13 :: nat))" "c \<noteq> SPACE" "c \<noteq> CHR ''-''" "c \<noteq> CHR ''+''"
    using d by (auto simp: is_digit_def SPACE_def i)
  moreover from this have "dropWhile (\<lambda>c. c = SPACE \<or> 9 \<le> (of_char c :: nat) \<and> of_char c \<le> (13 :: nat)) (c # cs) = c # cs" by auto
  ultimately show ?thesis using digits_show[of n] unfolding atoi_def s by (simp del: dropWhile.simps digits_value.simps)
qed

lemma show_saved:
  assumes "\<forall>c \<in> set cs. NEWLINE \<notin> set c" "1 \<le> k" "k \<le> length cs"
  shows "show_history (saved cs) (int k) = saved (drop (length cs - k) cs)"
proof -
  have g: "getlines (saved cs) = map (\<lambda>c. c @ [NEWLINE]) cs" using getlines_saved[OF assms(1)] by (simp add: saved_concat)
  have "nat (if int (length cs) > int k then int (length cs) - int k else 0) = length cs - k" by auto
  then have "show_history (saved cs) (int k) = concat (drop (length cs - k) (map (\<lambda>c. c @ [NEWLINE]) cs))"
    using assms(2) by (simp add: show_history_def g count_lines_def Let_def)
  then show ?thesis by (simp add: saved_concat drop_map)
qed

lemma digit_one: "char_of (49 :: nat) = CHR ''1''" "char_of (50 :: nat) = CHR ''2''"
proof -
  have "(of_char CHR ''1'' :: nat) = 49" "(of_char CHR ''2'' :: nat) = 50" by simp_all
  then show "char_of (49 :: nat) = CHR ''1''" "char_of (50 :: nat) = CHR ''2''" by (metis char_of_char)+
qed

lemma minus_one: "show_nat k = ''1'' \<longleftrightarrow> k = 1"
proof
  assume "show_nat k = ''1''"
  then have "int k = atoi ''1''" using atoi_show[of k] by simp
  then show "k = 1" by (simp add: atoi_def SPACE_def)
qed (simp add: show_nat.simps digit_one)

text \<open>C15: what the history designators stand for: after any commands were saved, \<open>!!\<close> is the last of them and \<open>!-k\<close> the one \<open>k\<close> before
  the end, exactly as it was typed; and \<open>history k\<close> shows the last \<open>k\<close> of them.\<close>

theorem history_recalls:
  assumes "\<forall>c \<in> set cs. NEWLINE \<notin> set c" "1 \<le> k" "k \<le> length cs"
  shows "event_designators (''!-'' @ show_nat k) (Some (saved cs)) = Some (Some (cs ! (length cs - k), k \<noteq> 1))
    \<and> event_designators ''!!'' (Some (saved cs)) = Some (Some (cs ! (length cs - 1), False))
    \<and> history_builtin (''history '' @ show_nat k) (Some (saved cs)) = Some (saved (drop (length cs - k) cs))"
proof (intro conjI)
  have one: "find_command (saved cs) 1 = Some (cs ! (length cs - 1))" using find_saved[OF assms(1), of 1] assms(2,3) by simp
  show "event_designators ''!!'' (Some (saved cs)) = Some (Some (cs ! (length cs - 1), False))"
    by (simp add: event_designators_def one)
  show "event_designators (''!-'' @ show_nat k) (Some (saved cs)) = Some (Some (cs ! (length cs - k), k \<noteq> 1))"
    using find_saved[OF assms] one minus_one[of k] by (simp add: event_designators_def atoi_show)
  have c: "contains (pre @ x) pre" for pre x by (cases pre) (simp_all, cases x, simp_all)
  have "contains (''history '' @ show_nat k) ''history''" by simp
  moreover have "''history '' @ show_nat k \<noteq> ''history''" by simp
  ultimately show "history_builtin (''history '' @ show_nat k) (Some (saved cs)) = Some (saved (drop (length cs - k) cs))"
    using show_saved[OF assms] by (simp add: history_builtin_def atoi_show)
qed

theorem history_recalls_witness:
  "event_designators ''!-2'' (Some (saved [''ls'', ''pwd'', ''wc''])) = Some (Some (''pwd'', True))"
proof -
  have "\<forall>c \<in> set [''ls'', ''pwd'', ''wc'']. NEWLINE \<notin> set c" by (simp add: NEWLINE_def)
  from history_recalls[OF this, of 2] show ?thesis by (simp add: show_nat.simps digit_one)
qed

section \<open>What is typed is what comes out\<close>

datatype key = Typed char | Rubout | Up | Down

fun key_codes :: "key \<Rightarrow> string" where
  "key_codes (Typed c) = [c]"
| "key_codes Rubout = [BACKSPACE]"
| "key_codes Up = [ESCAPE, CHR ''['', CHR ''A'']"
| "key_codes Down = [ESCAPE, CHR ''['', CHR ''B'']"

text \<open>The line, and how far back in the history it is.\<close>

fun press :: "string list \<Rightarrow> string \<times> nat \<Rightarrow> key \<Rightarrow> string \<times> nat" where
  "press cs (l, n) (Typed c) = (l @ [c], n)"
| "press cs (l, n) Rubout = (butlast l, n)"
| "press cs (l, n) Up =
     (if cs = [] then ([], n) else let n = (if n = length cs then 0 else n) + 1 in (cs ! (length cs - n), n))"
| "press cs (l, n) Down = (if cs \<noteq> [] \<and> n > 1 then (cs ! (length cs - (n - 1)), n - 1) else ([], n))"

definition good_key :: "key \<Rightarrow> bool" where
  "good_key k \<longleftrightarrow> (case k of Typed c \<Rightarrow> es_imprimible c \<and> c \<noteq> BACKSPACE | _ \<Rightarrow> True)"

definition edits :: "string list \<Rightarrow> editst \<Rightarrow> string \<times> nat \<Rightarrow> bool" where
  "edits cs s ln \<longleftrightarrow> length (ed_buf s) = BUFLEN \<and> ed_i s = length (fst ln) \<and> length (fst ln) < BUFLEN
     \<and> take (length (fst ln)) (ed_buf s) = fst ln \<and> NUL \<notin> set (fst ln) \<and> ed_shown s = snd ln \<and> snd ln \<le> length cs"

lemma read_keys_end:
  assumes "edits cs s (l, n)"
  shows "read_keys cs (NEWLINE # rest) s = Some (Some l, rest)"
proof -
  have e: "length (ed_buf s) = BUFLEN" "ed_i s = length l" "length l < BUFLEN" "take (length l) (ed_buf s) = l" "NUL \<notin> set l"
    using assms by (simp_all add: edits_def)
  have b: "(ed_buf s)[length l := NUL] = l @ NUL # drop (Suc (length l)) (ed_buf s)"
    using e by (simp add: upd_conv_take_nth_drop)
  have "set_buf (length l) NUL s = Some (s\<lparr>ed_buf := l @ NUL # drop (Suc (length l)) (ed_buf s)\<rparr>)"
    using e by (simp add: set_buf_def b)
  moreover have "str_in (l @ NUL # drop (Suc (length l)) (ed_buf s)) 0 = Some l"
    using e(5) by (simp add: str_in_def takeWhile_append Let_def)
  ultimately show ?thesis using e(2) by simp
qed

lemma recalled:
  assumes "length (ed_buf s) = BUFLEN" "NUL \<notin> set c" "length c < BUFLEN"
  shows "\<exists>t. actualizar_buffer c s = Some t \<and> length (ed_buf t) = BUFLEN \<and> ed_i t = length c \<and> take (length c) (ed_buf t) = c \<and> ed_shown t = ed_shown s"
  using assms by (simp add: actualizar_buffer_def limpiar_buffer_def Let_def)

lemma printable_codes: "es_imprimible c \<Longrightarrow> c \<noteq> NEWLINE \<and> c \<noteq> VEOF \<and> c \<noteq> ESCAPE \<and> c \<noteq> NUL"
  by (auto simp: es_imprimible_def NEWLINE_def VEOF_def ESCAPE_def NUL_def)

lemma read_keys_step:
  assumes e: "edits cs s (l, n)" and g: "good_key k" and cs: "\<forall>c \<in> set cs. NUL \<notin> set c \<and> length c < BUFLEN"
    and fit: "length (fst (press cs (l, n) k)) < BUFLEN"
  shows "\<exists>t. read_keys cs (key_codes k @ rest) s = read_keys cs rest t \<and> edits cs t (press cs (l, n) k)"
proof -
  have E: "length (ed_buf s) = BUFLEN" "ed_i s = length l" "length l < BUFLEN" "take (length l) (ed_buf s) = l" "NUL \<notin> set l"
    "ed_shown s = n" "n \<le> length cs"
    using e by (simp_all add: edits_def)
  have esc: "read_keys cs (ESCAPE # CHR ''['' # y # rest) s = do { s \<leftarrow> manejar_desplazamiento cs y s; read_keys cs rest s }" for y
    by (simp add: NEWLINE_def VEOF_def ESCAPE_def)
  have B0: "0 < BUFLEN" by (simp add: BUFLEN_def)
  show ?thesis
  proof (cases k)
    case (Typed c)
    then have c: "es_imprimible c" "c \<noteq> BACKSPACE" using g by (simp_all add: good_key_def)
    note P = printable_codes[OF c(1)]
    let ?t = "s\<lparr>ed_buf := (ed_buf s)[length l := c], ed_i := length l + 1\<rparr>"
    have "read_keys cs (key_codes k @ rest) s = read_keys cs rest ?t"
      using Typed c P E by (simp add: set_buf_def)
    moreover have "edits cs ?t (press cs (l, n) k)"
      using Typed P E fit by (auto simp: edits_def take_Suc_conv_app_nth)
    ultimately show ?thesis by blast
  next
    case Rubout
    have r: "BACKSPACE \<noteq> NEWLINE" "BACKSPACE \<noteq> VEOF" "BACKSPACE \<noteq> ESCAPE"
      by (simp_all add: BACKSPACE_def NEWLINE_def VEOF_def ESCAPE_def)
    show ?thesis
    proof (cases "l = []")
      case True
      then have "read_keys cs (key_codes k @ rest) s = read_keys cs rest s" using Rubout r E by simp
      moreover have "edits cs s (press cs (l, n) k)" using e Rubout True by simp
      ultimately show ?thesis by blast
    next
      case False
      let ?t = "s\<lparr>ed_i := length l - 1, ed_buf := (ed_buf s)[length l := NUL, length l - 1 := NUL]\<rparr>"
      have "length l - 1 < BUFLEN" using E by simp
      then have "read_keys cs (key_codes k @ rest) s = read_keys cs rest ?t"
        using Rubout r E False by (simp add: set_buf_def)
      moreover have "take (length l - 1) (ed_buf s) = butlast l"
      proof -
        have "butlast l = take (length l - 1) l" by (simp add: butlast_conv_take)
        also have "\<dots> = take (length l - 1) (take (length l) (ed_buf s))" by (simp only: E(4))
        finally show ?thesis by (simp add: min_def)
      qed
      then have "edits cs ?t (press cs (l, n) k)"
        using Rubout E by (auto simp: edits_def dest: in_set_butlastD)
      ultimately show ?thesis by blast
    qed
  next
    case Up
    show ?thesis
    proof (cases "cs = []")
      case True
      let ?t = "(limpiar_buffer s)\<lparr>ed_i := 0, ed_buf := (replicate BUFLEN NUL)[0 := NUL]\<rparr>"
      have "manejar_desplazamiento cs CHR ''A'' s = Some ?t"
        using True E B0 by (simp add: manejar_desplazamiento_def set_buf_def limpiar_buffer_def)
      then have "read_keys cs (key_codes k @ rest) s = read_keys cs rest ?t" using Up esc[of "CHR ''A''"] by simp
      moreover have "edits cs ?t (press cs (l, n) k)" using Up True E B0 by (simp add: edits_def limpiar_buffer_def)
      ultimately show ?thesis by blast
    next
      case False
      define m where "m = (if n = length cs then 0 else n) + 1"
      have m: "1 \<le> m" "m \<le> length cs" using E(7) False by (auto simp: m_def Suc_le_eq)
      then have "cs ! (length cs - m) \<in> set cs" by simp
      then have c: "NUL \<notin> set (cs ! (length cs - m))" "length (cs ! (length cs - m)) < BUFLEN" using cs by auto
      from recalled[of "s\<lparr>ed_shown := m\<rparr>", OF _ c] E(1) obtain t where
        t: "actualizar_buffer (cs ! (length cs - m)) (s\<lparr>ed_shown := m\<rparr>) = Some t" "length (ed_buf t) = BUFLEN" "ed_i t = length (cs ! (length cs - m))"
        "take (length (cs ! (length cs - m))) (ed_buf t) = cs ! (length cs - m)" "ed_shown t = m" by auto
      have "manejar_desplazamiento cs CHR ''A'' s = Some t"
        using False E t(1) by (simp add: manejar_desplazamiento_def Let_def m_def split: if_splits)
      then have "read_keys cs (key_codes k @ rest) s = read_keys cs rest t" using Up esc[of "CHR ''A''"] by simp
      moreover have "press cs (l, n) k = (cs ! (length cs - m), m)" using Up False by (simp add: Let_def m_def)
      then have "edits cs t (press cs (l, n) k)" using t c m by (simp add: edits_def)
      ultimately show ?thesis by blast
    qed
  next
    case Down
    show ?thesis
    proof (cases "cs \<noteq> [] \<and> n > 1")
      case True
      have "length cs - (n - 1) < length cs" using True E(7) by auto
      then have "cs ! (length cs - (n - 1)) \<in> set cs" by simp
      then have c: "NUL \<notin> set (cs ! (length cs - (n - 1)))" "length (cs ! (length cs - (n - 1))) < BUFLEN" using cs by auto
      from recalled[of "s\<lparr>ed_shown := n - 1\<rparr>", OF _ c] E(1) obtain t where
        t: "actualizar_buffer (cs ! (length cs - (n - 1))) (s\<lparr>ed_shown := n - 1\<rparr>) = Some t" "length (ed_buf t) = BUFLEN"
        "ed_i t = length (cs ! (length cs - (n - 1)))" "take (length (cs ! (length cs - (n - 1)))) (ed_buf t) = cs ! (length cs - (n - 1))"
        "ed_shown t = n - 1" by auto
      have "manejar_desplazamiento cs CHR ''B'' s = Some t"
        using True E t(1) by (simp add: manejar_desplazamiento_def Let_def)
      then have "read_keys cs (key_codes k @ rest) s = read_keys cs rest t" using Down esc[of "CHR ''B''"] by simp
      moreover have "edits cs t (press cs (l, n) k)" using t c Down True E(7) by (simp add: edits_def)
      ultimately show ?thesis by blast
    next
      case False
      have "\<exists>t. manejar_desplazamiento cs CHR ''B'' s = Some t \<and> edits cs t ([], n)"
        using False E B0 by (cases "cs = []") (auto simp: manejar_desplazamiento_def set_buf_def limpiar_buffer_def edits_def)
      then obtain t where t: "manejar_desplazamiento cs CHR ''B'' s = Some t" "edits cs t ([], n)" by blast
      then have "read_keys cs (key_codes k @ rest) s = read_keys cs rest t" using Down esc[of "CHR ''B''"] by simp
      moreover have "press cs (l, n) k = ([], n)" using Down False by auto
      ultimately show ?thesis using t(2) by auto
    qed
  qed
qed

lemma read_keys_all:
  assumes "edits cs s ln" "\<forall>k \<in> set ks. good_key k" "\<forall>c \<in> set cs. NUL \<notin> set c \<and> length c < BUFLEN"
    and "\<forall>i \<le> length ks. length (fst (foldl (press cs) ln (take i ks))) < BUFLEN"
  shows "read_keys cs (concat (map key_codes ks) @ NEWLINE # rest) s = Some (Some (fst (foldl (press cs) ln ks)), rest)"
  using assms
proof (induction ks arbitrary: s ln)
  case Nil
  then show ?case using read_keys_end[of cs s "fst ln" "snd ln" rest] by simp
next
  case (Cons k ks)
  have "length (fst (press cs (fst ln, snd ln) k)) < BUFLEN" using Cons.prems(4)[rule_format, of 1] by simp
  from read_keys_step[of cs s "fst ln" "snd ln" k "concat (map key_codes ks) @ NEWLINE # rest", OF _ _ Cons.prems(3) this] Cons.prems
  obtain t where t: "read_keys cs (key_codes k @ concat (map key_codes ks) @ NEWLINE # rest) s
      = read_keys cs (concat (map key_codes ks) @ NEWLINE # rest) t" "edits cs t (press cs ln k)" by auto
  have "\<forall>i \<le> length ks. length (fst (foldl (press cs) (press cs ln k) (take i ks))) < BUFLEN"
    using Cons.prems(4) by (metis Suc_le_mono foldl_Cons length_Cons take_Suc_Cons)
  from Cons.IH[OF t(2) _ Cons.prems(3) this] Cons.prems(2) t(1) show ?case by simp
qed

text \<open>C14: the line editor gives back what was typed: for any sequence of characters, rubouts and arrow keys, as long as the line
  fits its buffer, the line is what the simple editor \<open>press\<close> has, with the lines of the history where the arrows call for
  them, and the keys behind the newline are left.\<close>

theorem read_line_edits:
  assumes "\<forall>l \<in> set (getlines f). NUL \<notin> set l \<and> length l < BUFLEN" "\<forall>k \<in> set ks. good_key k"
    and "\<forall>i \<le> length ks. length (fst (foldl (press (get_lines f)) ([], 0) (take i ks))) < BUFLEN"
  shows "read_line (Some f) (concat (map key_codes ks) @ NEWLINE # rest) = Some (Some (fst (foldl (press (get_lines f)) ([], 0) ks)), rest)"
proof -
  have c: "\<forall>c \<in> set (get_lines f). NUL \<notin> set c \<and> length c < BUFLEN"
    using assms(1) by (fastforce simp: get_lines_def dest: in_set_butlastD)
  have "edits (get_lines f) \<lparr>ed_buf = replicate BUFLEN NUL, ed_i = 0, ed_shown = 0\<rparr> ([], 0)"
    by (simp add: edits_def BUFLEN_def)
  from read_keys_all[OF this assms(2) c assms(3), of rest] show ?thesis using assms(1) by (simp add: read_line_def)
qed

theorem read_line_edits_witness:
  "read_line (Some (saved [''ls'', ''pwd''])) (concat (map key_codes [Typed CHR ''x'', Up, Up, Rubout, Typed CHR ''n'']) @ NEWLINE # ''q'')
     = Some (Some ''ln'', ''q'')"
proof -
  have g: "getlines (saved [''ls'', ''pwd'']) = [''ls'' @ [NEWLINE], ''pwd'' @ [NEWLINE]]"
    using getlines_saved[of "[''ls'', ''pwd'']"] by (simp add: saved_concat NEWLINE_def)
  have l: "get_lines (saved [''ls'', ''pwd'']) = [''ls'', ''pwd'']" by (simp add: get_lines_def g)
  have a: "\<forall>l \<in> set (getlines (saved [''ls'', ''pwd''])). NUL \<notin> set l \<and> length l < BUFLEN"
    by (simp add: g NUL_def NEWLINE_def BUFLEN_def)
  have k: "\<forall>k \<in> set [Typed CHR ''x'', Up, Up, Rubout, Typed CHR ''n'']. good_key k"
    by (simp add: good_key_def es_imprimible_def BACKSPACE_def)
  have "\<forall>i \<le> length [Typed CHR ''x'', Up, Up, Rubout, Typed CHR ''n''].
      length (fst (foldl (press (get_lines (saved [''ls'', ''pwd'']))) ([], 0) (take i [Typed CHR ''x'', Up, Up, Rubout, Typed CHR ''n'']))) < BUFLEN"
    by (auto simp: l BUFLEN_def le_Suc_eq numeral_eq_Suc)
  from read_line_edits[OF a k this, of "''q''"] show ?thesis by (simp add: l)
qed

text \<open>At the first command shown, the down arrow empties the line but not the count, so that the up arrow then skips that command; and
  the 1025th character is stored behind the buffer.\<close>

lemma down_keeps_place: "fst (foldl (press [''a'', ''b'']) ([], 0) [Up, Down, Up]) = ''a''"
  by simp

lemma long_line_overflows: "es_imprimible c \<Longrightarrow> c \<noteq> BACKSPACE \<Longrightarrow> ed_i s = length (ed_buf s) \<Longrightarrow> read_keys cs (c # ks) s = None"
  using printable_codes[of c] by (simp add: set_buf_def)

text \<open>Since the whole line must be \<open>cd\<close>, the branch for a directory is never reached.\<close>

lemma cd_only_home: "cd chdir getcwd env cmd s = (if cmd = ''cd'' then
     (case env ''HOME'' of None \<Rightarrow> (False, s)
      | Some home \<Rightarrow> (case chdir (sh_dir s) home of None \<Rightarrow> (False, s) | Some d \<Rightarrow> (True, set_promt home (s\<lparr>sh_dir := d\<rparr>))))
     else (False, s))"
  by (simp add: cd_def block_contains_def SPACE_def)

text \<open>A designator runs the command without saving the designator; \<open>!!\<close> is the command before it.\<close>

lemma run_cmd_again:
  assumes "str_in b 0 = Some ''!!''" "\<forall>c \<in> set cs. NEWLINE \<notin> set c" "cs \<noteq> []"
  shows "run_cmd home_ok cwd_ok can_save env status (Some (saved cs)) b
     = map_option (\<lambda>a. (a, Some (saved cs))) (run_cmd_without_history home_ok cwd_ok True env status (cs ! (length cs - 1) @ [NUL, NUL]))"
proof -
  have "find_command (saved cs) 1 = Some (cs ! (length cs - 1))" using find_saved[OF assms(2), of 1] assms(3) by (simp add: Suc_le_eq)
  then show ?thesis using assms(1) by (subst run_cmd.simps) (simp add: event_designators_def)
qed

end
