(* ===== verification/Mpconfig.thy ===== *)
theory Mpconfig
  imports HwMem Segments "HOL-Library.Monad_Syntax"
begin

text \<open>
  Finding the processors, \<open>kern/mpconfig.c\<close>.  The tables are bytes of physical memory \<open>mp_mem\<close>, at the offsets
  that the packed structures give their fields; \<open>KADDR\<close> is the identity on physical addresses and panics, which is \<open>None\<close>,
  for an address beyond the memory that is there.  A store outside the array of processors is also \<open>None\<close>.
  Messages are left out.
\<close>

record mpst =
  mp_mem :: "u32 \<Rightarrow> u8"
  mp_npages :: nat
  cpu_id :: "nat \<Rightarrow> u8"
  cpu_started :: "nat \<Rightarrow> bool"
  bootcpu :: nat
  ismp :: bool
  ncpu :: nat
  lapicaddr :: u32
  mp_ports :: "(u16 \<times> u8) list"   \<comment> \<open>what was sent to the ports\<close>

definition MPPROC :: u8 where "MPPROC = 0"
definition MPPROC_BOOT :: u8 where "MPPROC_BOOT = 2"
definition mp_others :: "u8 list" where "mp_others = [1, 2, 3, 4]"

text \<open>\<open>MPBUS\<close>, \<open>MPIOAPIC\<close>, \<open>MPIOINTR\<close> and \<open>MPLINTR\<close>.\<close>

definition mp_kaddr :: "mpst \<Rightarrow> u32 \<Rightarrow> u32 option" where
  "mp_kaddr s a = (if mp_npages s \<le> PGNUM a then None else Some a)"

definition mem16 :: "mpst \<Rightarrow> u32 \<Rightarrow> nat" where
  "mem16 s a = unat (mp_mem s a) + 256 * unat (mp_mem s (a + 1))"

definition mem32 :: "mpst \<Rightarrow> u32 \<Rightarrow> u32" where
  "mem32 s a = bytes_word [mp_mem s a, mp_mem s (a + 1), mp_mem s (a + 2), mp_mem s (a + 3)]"

definition mem_list :: "mpst \<Rightarrow> u32 \<Rightarrow> nat \<Rightarrow> u8 list" where
  "mem_list s a n = map (\<lambda>i. mp_mem s (a + word_of_nat i)) [0..<n]"

text \<open>\<open>sum\<close>: the sum as an \<open>int\<close>, cut to a byte when it is returned.\<close>

definition mp_sum :: "mpst \<Rightarrow> u32 \<Rightarrow> nat \<Rightarrow> u8" where
  "mp_sum s a len = word_of_nat (sum_list (map unat (mem_list s a len)))"

definition mpsearch1 :: "u32 \<Rightarrow> nat \<Rightarrow> mpst \<Rightarrow> u32 option option" where
  "mpsearch1 a len s = do {
     mp \<leftarrow> mp_kaddr s a;
     e \<leftarrow> mp_kaddr s (a + word_of_nat len);
     Some (find (\<lambda>p. mem_list s p 4 = [95, 77, 80, 95] \<and> mp_sum s p 16 = 0)
             (map (\<lambda>i. mp + word_of_nat (16 * i)) [0..<(unat (e - mp) + 15) div 16]))
   }"

definition mpsearch :: "mpst \<Rightarrow> u32 option option" where
  "mpsearch s = do {
     bda \<leftarrow> mp_kaddr s 0x400;
     let p = mem16 s (bda + 0x0E);
     mp \<leftarrow> (if p \<noteq> 0 then mpsearch1 (push_bit 4 (word_of_nat p)) 1024 s
             else mpsearch1 (word_of_nat (mem16 s (bda + 0x13)) * 1024 - 1024) 1024 s);
     (case mp of Some m \<Rightarrow> Some (Some m) | None \<Rightarrow> mpsearch1 0xF0000 0x10000 s)
   }"

text \<open>The configuration table and the floating pointer that leads to it.\<close>

definition mpconfig :: "mpst \<Rightarrow> (u32 \<times> u32) option option" where
  "mpconfig s = do {
     r \<leftarrow> mpsearch s;
     (case r of
        None \<Rightarrow> Some None
      | Some mp \<Rightarrow>
          if mem32 s (mp + 4) = 0 \<or> mp_mem s (mp + 11) \<noteq> 0 then Some None
          else do {
            conf \<leftarrow> mp_kaddr s (mem32 s (mp + 4));
            Some (if mem_list s conf 4 \<noteq> [80, 67, 77, 80] then None
                  else if mp_sum s conf (mem16 s (conf + 4)) \<noteq> 0 then None
                  else if mp_mem s (conf + 6) \<noteq> 1 \<and> mp_mem s (conf + 6) \<noteq> 4 then None
                  else if mp_sum s (conf + word_of_nat (mem16 s (conf + 4))) (mem16 s (conf + 40)) + mp_mem s (conf + 42) \<noteq> 0 then None
                  else Some (conf, mp))
          })
   }"

text \<open>The loop over the entries, \<open>n\<close> of which are left, with \<open>p\<close> at the next one.\<close>

fun mp_entries :: "nat \<Rightarrow> u32 \<Rightarrow> mpst \<Rightarrow> mpst" where
  "mp_entries 0 p s = s"
| "mp_entries (Suc n) p s =
     (if mp_mem s p = MPPROC then
        let s = (if mp_mem s (p + 3) AND MPPROC_BOOT \<noteq> 0 then s\<lparr>bootcpu := ncpu s\<rparr> else s);
            s = (if ncpu s < NCPU then s\<lparr>cpu_id := (cpu_id s)(ncpu s := word_of_nat (ncpu s)), ncpu := ncpu s + 1\<rparr> else s)
        in mp_entries n (p + 20) s
      else if mp_mem s p \<in> set mp_others then mp_entries n (p + 8) s
      else s\<lparr>ismp := False\<rparr>)"

definition mp_init :: "(u16 \<Rightarrow> u8) \<Rightarrow> mpst \<Rightarrow> mpst option" where
  "mp_init inb s = do {
     let s = s\<lparr>bootcpu := 0\<rparr>;
     r \<leftarrow> mpconfig s;
     (case r of
        None \<Rightarrow> Some s
      | Some (conf, mp) \<Rightarrow>
          let s = mp_entries (mem16 s (conf + 34)) (conf + 44) (s\<lparr>ismp := True, lapicaddr := mem32 s (conf + 36)\<rparr>)
          in if NCPU \<le> bootcpu s then None
             else
               let s = s\<lparr>cpu_started := (cpu_started s)(bootcpu s := True)\<rparr>
               in if \<not> ismp s then Some (s\<lparr>ncpu := 1, lapicaddr := 0\<rparr>)
                  else if mp_mem s (mp + 12) \<noteq> 0 then
                    Some (s\<lparr>mp_ports := mp_ports s @ [(0x22, 0x70), (0x23, inb 0x23 OR 1)]\<rparr>)
                  else Some s)
   }"

section \<open>What a table says\<close>

text \<open>An entry: a processor and its flags, or something else that is known or is not.\<close>

datatype mpentry = Proc u8 | Other u8

fun entry_size :: "mpentry \<Rightarrow> nat" where
  "entry_size (Proc fl) = 20"
| "entry_size (Other ty) = 8"

fun entries_at :: "mpst \<Rightarrow> u32 \<Rightarrow> mpentry list \<Rightarrow> bool" where
  "entries_at s p [] = True"
| "entries_at s p (Proc fl # es) = (mp_mem s p = MPPROC \<and> mp_mem s (p + 3) = fl \<and> entries_at s (p + 20) es)"
| "entries_at s p (Other ty # es) = (mp_mem s p = ty \<and> ty \<in> set mp_others \<and> entries_at s (p + 8) es)"

fun procs :: "mpentry list \<Rightarrow> u8 list" where
  "procs [] = []"
| "procs (Proc fl # es) = fl # procs es"
| "procs (Other ty # es) = procs es"

text \<open>The number of the last of the processors \<open>k, k + 1, \<dots>\<close> that is marked, counting at most \<open>NCPU\<close>.\<close>

fun last_boot :: "nat \<Rightarrow> nat \<Rightarrow> u8 list \<Rightarrow> nat" where
  "last_boot k b [] = b"
| "last_boot k b (fl # fls) = last_boot (min NCPU (k + 1)) (if fl AND MPPROC_BOOT \<noteq> 0 then k else b) fls"

lemma entries_at_cong: "mp_mem t = mp_mem s \<Longrightarrow> entries_at t p es = entries_at s p es"
  by (induction s p es rule: entries_at.induct) auto

lemma mp_entries_spec:
  assumes "entries_at s p es" "ncpu s \<le> NCPU" "\<forall>i < ncpu s. cpu_id s i = word_of_nat i"
  shows "ncpu (mp_entries (length es) p s) = min NCPU (ncpu s + length (procs es))
    \<and> bootcpu (mp_entries (length es) p s) = last_boot (ncpu s) (bootcpu s) (procs es)
    \<and> (\<forall>i < min NCPU (ncpu s + length (procs es)). cpu_id (mp_entries (length es) p s) i = word_of_nat i)
    \<and> ismp (mp_entries (length es) p s) = ismp s \<and> lapicaddr (mp_entries (length es) p s) = lapicaddr s
    \<and> mp_mem (mp_entries (length es) p s) = mp_mem s \<and> cpu_started (mp_entries (length es) p s) = cpu_started s"
  using assms
proof (induction es arbitrary: p s)
  case (Cons e es)
  show ?case
  proof (cases e)
    case (Proc fl)
    let ?s1 = "if fl AND MPPROC_BOOT \<noteq> 0 then s\<lparr>bootcpu := ncpu s\<rparr> else s"
    let ?s2 = "if ncpu s < NCPU then ?s1\<lparr>cpu_id := (cpu_id s)(ncpu s := word_of_nat (ncpu s)), ncpu := ncpu s + 1\<rparr> else ?s1"
    have m: "mp_mem ?s2 = mp_mem s" by simp
    have at: "mp_mem s p = MPPROC" "mp_mem s (p + 3) = fl" "entries_at s (p + 20) es" using Cons.prems(1) Proc by simp_all
    then have at2: "entries_at ?s2 (p + 20) es" using entries_at_cong[OF m] by simp
    have n2: "ncpu ?s2 = min NCPU (ncpu s + 1)" "bootcpu ?s2 = (if fl AND MPPROC_BOOT \<noteq> 0 then ncpu s else bootcpu s)"
      using Cons.prems(2) by auto
    have ids: "\<forall>i < ncpu ?s2. cpu_id ?s2 i = word_of_nat i" using Cons.prems(2,3) by (auto simp: less_Suc_eq)
    have step: "mp_entries (length (e # es)) p s = mp_entries (length es) (p + 20) ?s2"
      using at(1,2) by (simp add: Let_def)
    have "ncpu ?s2 \<le> NCPU" using n2 by simp
    note I = Cons.IH[OF at2 this ids]
    have c: "min NCPU (ncpu ?s2 + length (procs es)) = min NCPU (ncpu s + length (procs (e # es)))"
      using n2(1) Proc by simp
    have k: "ismp ?s2 = ismp s" "lapicaddr ?s2 = lapicaddr s" "cpu_started ?s2 = cpu_started s" by simp_all
    have b: "last_boot (ncpu ?s2) (bootcpu ?s2) (procs es) = last_boot (ncpu s) (bootcpu s) (procs (e # es))"
      using n2 Proc by simp
    show ?thesis unfolding step using I unfolding c b k m by blast
  next
    case (Other ty)
    then have at: "mp_mem s p = ty" "ty \<in> set mp_others" "entries_at s (p + 8) es" using Cons.prems(1) by simp_all
    have "ty \<noteq> MPPROC" using at(2) by (auto simp: mp_others_def MPPROC_def)
    then have "mp_entries (length (e # es)) p s = mp_entries (length es) (p + 8) s" using at by simp
    then show ?thesis using Cons.IH[OF at(3) Cons.prems(2,3)] Other by simp
  qed
qed simp

lemma last_boot_range: "k \<le> NCPU \<Longrightarrow> b \<le> NCPU \<Longrightarrow> last_boot k b fls \<le> NCPU"
  by (induction fls arbitrary: k b) auto

text \<open>With one processor marked, it is that one.\<close>

lemma last_boot_one:
  assumes "\<forall>fl \<in> set xs. fl AND MPPROC_BOOT = 0" "\<forall>fl \<in> set ys. fl AND MPPROC_BOOT = 0" "fl AND MPPROC_BOOT \<noteq> 0" "k \<le> NCPU"
  shows "last_boot k b (xs @ fl # ys) = min NCPU (k + length xs)"
proof -
  have z: "last_boot k b zs = b" if "\<forall>fl \<in> set zs. fl AND MPPROC_BOOT = 0" for k b zs
    using that by (induction zs arbitrary: k) auto
  show ?thesis using assms(1,4)
  proof (induction xs arbitrary: k)
    case Nil
    then show ?case using assms(3) z[OF assms(2)] by simp
  next
    case (Cons x xs)
    then show ?case by simp
  qed
qed

text \<open>C13: on a good configuration table \<open>mp_init\<close> counts the processors that the table has, at most eight of them, numbers them
  from 0, takes the address of the local APIC from it, and finds the boot processor where its flag is;
  that one alone is marked as started.\<close>

theorem mp_init_counts_processors:
  assumes "mpconfig (s\<lparr>bootcpu := 0\<rparr>) = Some (Some (conf, mp))" "mem16 s (conf + 34) = length es" "entries_at s (conf + 44) es"
    and "ncpu s = 0" "procs es = xs @ fl # ys" "\<forall>x \<in> set (xs @ ys). x AND MPPROC_BOOT = 0" "fl AND MPPROC_BOOT \<noteq> 0" "length xs < NCPU"
  shows "\<exists>t. mp_init inb s = Some t \<and> ismp t \<and> ncpu t = min NCPU (length (procs es)) \<and> bootcpu t = length xs
    \<and> (\<forall>i < ncpu t. cpu_id t i = word_of_nat i) \<and> lapicaddr t = mem32 s (conf + 36)
    \<and> cpu_started t = (cpu_started s)(length xs := True)"
proof -
  let ?s = "s\<lparr>bootcpu := 0, ismp := True, lapicaddr := mem32 s (conf + 36)\<rparr>"
  have "entries_at ?s (conf + 44) es" using assms(3) entries_at_cong[of ?s s] by simp
  note E = mp_entries_spec[OF this]
  have l: "last_boot 0 0 (xs @ fl # ys) = length xs"
    using last_boot_one[of xs ys fl 0 0] assms(6-8) by simp
  have m: "mem16 (s\<lparr>bootcpu := 0\<rparr>) a = mem16 s a" "mem32 (s\<lparr>bootcpu := 0\<rparr>) a = mem32 s a" for a by (simp_all add: mem16_def mem32_def)
  show ?thesis using E assms(1,2,4,5,8) l by (auto simp: mp_init_def m Let_def)
qed

text \<open>A machine with two processors, the second of which boots it: the floating pointer is in the EBDA.\<close>

definition demo_mp :: "u8 list" where
  "demo_mp = [95, 77, 80, 95, 0, 0, 15, 0, 1, 4, 145, 0, 0, 0, 0, 0]"

definition demo_conf :: "u8 list" where
  "demo_conf = [80, 67, 77, 80, 92, 0, 4, 103, 0, 0, 0, 0, 0, 0, 0, 0, 0, 0, 0, 0, 0, 0, 0, 0, 0, 0, 0, 0,
     0, 0, 0, 0, 0, 0, 3, 0, 0, 0, 224, 254, 0, 0, 0, 0,
     0, 0, 17, 1, 0, 0, 0, 0, 0, 0, 0, 0, 0, 0, 0, 0, 0, 0, 0, 0, 0, 1, 17, 3, 0, 0, 0, 0, 0, 0, 0, 0, 0, 0, 0, 0, 0, 0, 0, 0, 1, 0, 0, 0, 0, 0, 0, 0]"

definition demo_phys :: "u32 \<Rightarrow> u8" where
  "demo_phys a = (if unat (a - 0x9FC00) < length demo_mp then demo_mp ! unat (a - 0x9FC00)
     else if unat (a - 0xF0000) < length demo_conf then demo_conf ! unat (a - 0xF0000)
     else if a = 0x40E then 0xC0 else if a = 0x40F then 0x9F else 0)"

definition demo_mpst :: mpst where
  "demo_mpst = \<lparr>mp_mem = demo_phys, mp_npages = 0x8000, cpu_id = (\<lambda>_. 0), cpu_started = (\<lambda>_. False), bootcpu = 0, ismp = False,
     ncpu = 0, lapicaddr = 0, mp_ports = []\<rparr>"

lemma demo_sizes: "length demo_mp = 16" "length demo_conf = 92"
  by (simp_all add: demo_mp_def demo_conf_def)

lemma demo_byte:
  "i < 16 \<Longrightarrow> demo_phys (0x9FC00 + word_of_nat i) = demo_mp ! i"
  "i < 92 \<Longrightarrow> demo_phys (0xF0000 + word_of_nat i) = demo_conf ! i"
proof -
  show "demo_phys (0x9FC00 + word_of_nat i) = demo_mp ! i" if "i < 16"
    using that by (simp add: demo_phys_def demo_sizes unat_of_nat take_bit_eq_mod)
  assume i: "i < 92"
  then have u: "unat (word_of_nat i :: u32) = i" by (simp add: unat_of_nat take_bit_eq_mod)
  have "unat (0x50400 + word_of_nat i :: u32) = 328704 + i" using i u by (simp add: unat_word_ariths)
  then have "unat (0xF0000 + word_of_nat i - 0x9FC00 :: u32) = 328704 + i" by simp
  then show "demo_phys (0xF0000 + word_of_nat i) = demo_conf ! i" using i u by (simp add: demo_phys_def demo_sizes)
qed

lemma demo_list:
  "n \<le> 16 \<Longrightarrow> mem_list demo_mpst 0x9FC00 n = take n demo_mp" "n \<le> 92 \<Longrightarrow> mem_list demo_mpst 0xF0000 n = take n demo_conf"
  by (rule nth_equalityI; simp add: mem_list_def demo_mpst_def demo_byte demo_sizes)+

lemma demo_at:
  "mp_mem demo_mpst (0x9FC00 + word_of_nat i) = demo_mp ! i" if "i < 16"
  using that by (simp add: demo_mpst_def demo_byte)

lemma demo_conf_at:
  "mp_mem demo_mpst (0xF0000 + word_of_nat i) = demo_conf ! i" if "i < 92"
  using that by (simp add: demo_mpst_def demo_byte)

lemma demo_search: "mpsearch demo_mpst = Some (Some 0x9FC00)"
proof -
  have "mp_mem demo_mpst 0x40E = 0xC0" "mp_mem demo_mpst 0x40F = 0x9F" by (simp_all add: demo_mpst_def demo_phys_def demo_sizes)
  then have p: "mem16 demo_mpst 0x40E = 40896" by (simp add: mem16_def)
  have sig: "mem_list demo_mpst 0x9FC00 4 = [95, 77, 80, 95]" using demo_list(1)[of 4] by (simp add: demo_mp_def)
  have sum: "mp_sum demo_mpst 0x9FC00 16 = 0" using demo_list(1)[of 16] by (simp add: mp_sum_def demo_mp_def)
  have k: "mp_kaddr demo_mpst a = Some a" if "a < 0x8000000" for a
    using that by (simp add: mp_kaddr_def demo_mpst_def PGNUM_arith word_less_nat_alt)
  have "[0..<64] = 0 # [1..<64]" by (simp add: upt_conv_Cons)
  then have "mpsearch1 0x9FC00 1024 demo_mpst = Some (Some 0x9FC00)"
    by (simp add: mpsearch1_def k sig sum)
  then show ?thesis using p k[of "0x400"] by (simp add: mpsearch_def)
qed

lemma demo_mpconfig: "mpconfig demo_mpst = Some (Some (0xF0000, 0x9FC00))"
proof -
  note at = demo_at[of 4] demo_at[of 5] demo_at[of 6] demo_at[of 7] demo_at[of 11]
    demo_conf_at[of 4] demo_conf_at[of 5] demo_conf_at[of 6] demo_conf_at[of 40] demo_conf_at[of 41] demo_conf_at[of 42]
  have a: "mem32 demo_mpst 0x9FC04 = 0xF0000" using at by (simp add: mem32_def demo_mp_def bytes_word_def)
  have b: "mem16 demo_mpst 0xF0004 = 92" "mem16 demo_mpst 0xF0028 = 0" using at by (simp_all add: mem16_def demo_conf_def)
  have sums: "mp_sum demo_mpst 0xF0000 92 = 0" using demo_list(2)[of 92] by (simp add: mp_sum_def demo_conf_def)
  have z: "mp_sum demo_mpst x 0 = 0" for x by (simp add: mp_sum_def mem_list_def)
  have k: "mp_kaddr demo_mpst 0xF0000 = Some 0xF0000" by (simp add: mp_kaddr_def demo_mpst_def PGNUM_arith)
  have sig: "mem_list demo_mpst 0xF0000 4 = [80, 67, 77, 80]" using demo_list(2)[of 4] by (simp add: demo_conf_def)
  show ?thesis using at by (simp add: mpconfig_def demo_search a b sums z k sig) (simp add: demo_mp_def demo_conf_def)
qed

theorem mp_init_counts_processors_witness:
  "\<exists>t. mp_init (\<lambda>_. 0) demo_mpst = Some t \<and> ncpu t = 2 \<and> bootcpu t = 1 \<and> lapicaddr t = 0xFEE00000"
proof -
  let ?es = "[Proc 1, Proc 3, Other 1]"
  note at = demo_conf_at[of 34] demo_conf_at[of 35] demo_conf_at[of 36] demo_conf_at[of 37] demo_conf_at[of 38] demo_conf_at[of 39]
    demo_conf_at[of 44] demo_conf_at[of 47] demo_conf_at[of 64] demo_conf_at[of 67] demo_conf_at[of 84]
  have s: "demo_mpst\<lparr>bootcpu := 0\<rparr> = demo_mpst" by (simp add: demo_mpst_def)
  have m: "mpconfig (demo_mpst\<lparr>bootcpu := 0\<rparr>) = Some (Some (0xF0000, 0x9FC00))" unfolding s by (rule demo_mpconfig)
  have n: "mem16 demo_mpst (0xF0000 + 34) = length ?es" using at by (simp add: mem16_def demo_conf_def)
  have e: "entries_at demo_mpst (0xF0000 + 44) ?es" using at by (simp add: MPPROC_def mp_others_def demo_conf_def)
  have l: "mem32 demo_mpst 0xF0024 = 0xFEE00000" using at by (simp add: mem32_def demo_conf_def bytes_word_def)
  have "ncpu demo_mpst = 0" "procs ?es = [1] @ 3 # []" "\<forall>x \<in> set ([1] @ []). x AND MPPROC_BOOT = 0" "(3 :: u8) AND MPPROC_BOOT \<noteq> 0"
    "length [1 :: u8] < NCPU"
    by (simp_all add: demo_mpst_def MPPROC_BOOT_def NCPU_def)
  from mp_init_counts_processors[OF m n e this, of "\<lambda>_. 0"] show ?thesis using l by (auto simp: NCPU_def)
qed

text \<open>A boot processor that comes after eight others is \<open>cpus[NCPU]\<close>, behind the array, and a table that ends in an unknown entry
  leaves one processor but a boot processor that may be another.\<close>

lemma mp_init_ninth_boots:
  assumes "mpconfig (s\<lparr>bootcpu := 0\<rparr>) = Some (Some (conf, mp))" "mem16 s (conf + 34) = length es" "entries_at s (conf + 44) es"
    and "ncpu s = 0" "procs es = xs @ [fl]" "\<forall>x \<in> set xs. x AND MPPROC_BOOT = 0" "fl AND MPPROC_BOOT \<noteq> 0" "length xs = NCPU"
  shows "mp_init inb s = None"
proof -
  let ?s = "s\<lparr>bootcpu := 0, ismp := True, lapicaddr := mem32 s (conf + 36)\<rparr>"
  have "entries_at ?s (conf + 44) es" using assms(3) entries_at_cong[of ?s s] by simp
  note E = mp_entries_spec[OF this]
  have l: "last_boot 0 0 (xs @ [fl]) = NCPU" using last_boot_one[of xs "[]" fl 0 0] assms(6-8) by simp
  have m: "mem16 (s\<lparr>bootcpu := 0\<rparr>) a = mem16 s a" "mem32 (s\<lparr>bootcpu := 0\<rparr>) a = mem32 s a" for a by (simp_all add: mem16_def mem32_def)
  show ?thesis using E assms(1,2,4,5) l by (simp add: mp_init_def m Let_def)
qed

end
