(* ===== verification/Lapic.thy ===== *)
theory Lapic
  imports Mpconfig Mmu
begin

text \<open>
  The interrupt controllers, \<open>kern/lapic.c\<close> and \<open>kern/picirq.c\<close>, and starting the other processors,
  \<open>boot_aps\<close> and \<open>mp_main\<close> of \<open>kern/init.c\<close>.  A controller is seen through what is written to its registers, in
  order, and what its registers say when they are read: \<open>la_read t r\<close> is the value of register \<open>r\<close> at the read number
  \<open>t\<close>.  A loop that waits for a register may not end, which is \<open>None\<close>.
\<close>

section \<open>The local APIC\<close>

record lapst =
  la_mapped :: bool                          \<comment> \<open>\<open>lapic\<close> is not null\<close>
  la_writes :: "(nat \<times> u32) list"
  la_read :: "nat \<Rightarrow> nat \<Rightarrow> u32"
  la_time :: nat
  la_ports :: "(u16 \<times> u8) list"
  la_wrv :: "u16 \<times> u16"                      \<comment> \<open>the warm reset vector, at 40:67\<close>

definition LA_ID :: nat where "LA_ID = 0x20 div 4"
definition LA_VER :: nat where "LA_VER = 0x30 div 4"
definition LA_TPR :: nat where "LA_TPR = 0x80 div 4"
definition LA_EOI :: nat where "LA_EOI = 0xB0 div 4"
definition LA_SVR :: nat where "LA_SVR = 0xF0 div 4"
definition LA_ESR :: nat where "LA_ESR = 0x280 div 4"
definition LA_ICRLO :: nat where "LA_ICRLO = 0x300 div 4"
definition LA_ICRHI :: nat where "LA_ICRHI = 0x310 div 4"
definition LA_TIMER :: nat where "LA_TIMER = 0x320 div 4"
definition LA_PCINT :: nat where "LA_PCINT = 0x340 div 4"
definition LA_LINT0 :: nat where "LA_LINT0 = 0x350 div 4"
definition LA_LINT1 :: nat where "LA_LINT1 = 0x360 div 4"
definition LA_ERROR :: nat where "LA_ERROR = 0x370 div 4"
definition LA_TICR :: nat where "LA_TICR = 0x380 div 4"
definition LA_TDCR :: nat where "LA_TDCR = 0x3E0 div 4"

definition LA_ENABLE :: u32 where "LA_ENABLE = 0x100"
definition LA_INIT :: u32 where "LA_INIT = 0x500"
definition LA_STARTUP :: u32 where "LA_STARTUP = 0x600"
definition LA_DELIVS :: u32 where "LA_DELIVS = 0x1000"
definition LA_ASSERT :: u32 where "LA_ASSERT = 0x4000"
definition LA_LEVEL :: u32 where "LA_LEVEL = 0x8000"
definition LA_BCAST :: u32 where "LA_BCAST = 0x80000"
definition LA_OTHERS :: u32 where "LA_OTHERS = 0xC0000"
definition LA_FIXED :: u32 where "LA_FIXED = 0"
definition LA_X1 :: u32 where "LA_X1 = 0xB"
definition LA_PERIODIC :: u32 where "LA_PERIODIC = 0x20000"
definition LA_MASKED :: u32 where "LA_MASKED = 0x10000"
definition IRQ_ERROR :: nat where "IRQ_ERROR = 19"

definition lapic_read :: "nat \<Rightarrow> lapst \<Rightarrow> u32 \<times> lapst" where
  "lapic_read i s = (la_read s (la_time s) i, s\<lparr>la_time := la_time s + 1\<rparr>)"

text \<open>Writing a register, and reading \<open>ID\<close> so that the write has arrived.\<close>

definition lapicw :: "nat \<Rightarrow> u32 \<Rightarrow> lapst \<Rightarrow> lapst" where
  "lapicw i v s = snd (lapic_read LA_ID (s\<lparr>la_writes := la_writes s @ [(i, v)]\<rparr>))"

partial_function (option) wait_delivered :: "lapst \<Rightarrow> lapst option" where
  "wait_delivered s =
     (let (v, s) = lapic_read LA_ICRLO s in if v AND LA_DELIVS \<noteq> 0 then wait_delivered s else Some s)"

definition irq_vec :: "nat \<Rightarrow> u32" where "irq_vec n = word_of_nat (IRQ_OFFSET + n)"

text \<open>\<open>pa\<close> is \<open>lapicaddr\<close>; \<open>map_ok\<close> is whether \<open>mmio_map_region\<close> finds room, which else panics; \<open>is_boot\<close> is \<open>thiscpu == bootcpu\<close>.\<close>

definition lapic_init :: "bool \<Rightarrow> u32 \<Rightarrow> bool \<Rightarrow> lapst \<Rightarrow> lapst option" where
  "lapic_init map_ok pa is_boot s =
     (if pa = 0 then Some s
      else if \<not> map_ok then None
      else do {
        let s = s\<lparr>la_mapped := True\<rparr>;
        let s = lapicw LA_SVR (LA_ENABLE OR irq_vec IRQ_SPURIOUS) s;
        let s = lapicw LA_TDCR LA_X1 s;
        let s = lapicw LA_TIMER (LA_PERIODIC OR irq_vec IRQ_TIMER) s;
        let s = lapicw LA_TICR 10000000 s;
        let s = (if \<not> is_boot then lapicw LA_LINT0 LA_MASKED s else s);
        let s = lapicw LA_LINT1 LA_MASKED s;
        let (ver, s) = lapic_read LA_VER s;
        let s = (if drop_bit 16 ver AND 0xFF \<ge> 4 then lapicw LA_PCINT LA_MASKED s else s);
        let s = lapicw LA_ERROR (irq_vec IRQ_ERROR) s;
        let s = lapicw LA_ESR 0 s;
        let s = lapicw LA_ESR 0 s;
        let s = lapicw LA_EOI 0 s;
        let s = lapicw LA_ICRHI 0 s;
        let s = lapicw LA_ICRLO (LA_BCAST OR LA_INIT OR LA_LEVEL) s;
        s \<leftarrow> wait_delivered s;
        Some (lapicw LA_TPR 0 s)
      })"

definition cpunum :: "lapst \<Rightarrow> u32 \<times> lapst" where
  "cpunum s = (if la_mapped s then (let (v, s) = lapic_read LA_ID s in (drop_bit 24 v, s)) else (0, s))"

definition lapic_eoi :: "lapst \<Rightarrow> lapst" where
  "lapic_eoi s = (if la_mapped s then lapicw LA_EOI 0 s else s)"

definition startup_once :: "u8 \<Rightarrow> u32 \<Rightarrow> lapst \<Rightarrow> lapst" where
  "startup_once apicid addr s = lapicw LA_ICRLO (LA_STARTUP OR drop_bit 12 addr) (lapicw LA_ICRHI (push_bit 24 (ucast apicid)) s)"

text \<open>\<open>microdelay\<close> does nothing.  Without a mapped APIC the first write follows a null pointer.\<close>

definition lapic_startap :: "u8 \<Rightarrow> u32 \<Rightarrow> lapst \<Rightarrow> lapst option" where
  "lapic_startap apicid addr s =
     (if \<not> la_mapped s then None
      else
        let s = s\<lparr>la_ports := la_ports s @ [(0x70, 0xF), (0x71, 0x0A)], la_wrv := (0, ucast (drop_bit 4 addr))\<rparr>;
            s = lapicw LA_ICRHI (push_bit 24 (ucast apicid)) s;
            s = lapicw LA_ICRLO (LA_INIT OR LA_LEVEL OR LA_ASSERT) s;
            s = lapicw LA_ICRLO (LA_INIT OR LA_LEVEL) s
        in Some (startup_once apicid addr (startup_once apicid addr s)))"

definition lapic_ipi :: "u32 \<Rightarrow> lapst \<Rightarrow> lapst option" where
  "lapic_ipi vector s = wait_delivered (lapicw LA_ICRLO (LA_OTHERS OR LA_FIXED OR vector) s)"

section \<open>The 8259A controllers\<close>

record picst =
  irq_mask_8259A :: u16
  didinit :: bool
  pic_ports :: "(u16 \<times> u8) list"

definition IO_PIC1 :: u16 where "IO_PIC1 = 0x20"
definition IO_PIC2 :: u16 where "IO_PIC2 = 0xA0"
definition IRQ_SLAVE :: nat where "IRQ_SLAVE = 2"

definition pic_reset :: picst where
  "pic_reset = \<lparr>irq_mask_8259A = 0xFFFF AND NOT (push_bit IRQ_SLAVE 1), didinit = False, pic_ports = []\<rparr>"

definition irq_setmask_8259A :: "u16 \<Rightarrow> picst \<Rightarrow> picst" where
  "irq_setmask_8259A m s =
     (let s = s\<lparr>irq_mask_8259A := m\<rparr>
      in if \<not> didinit s then s
         else s\<lparr>pic_ports := pic_ports s @ [(IO_PIC1 + 1, ucast m), (IO_PIC2 + 1, ucast (drop_bit 8 m))]\<rparr>)"

definition pic_init :: "picst \<Rightarrow> picst" where
  "pic_init s =
     (let s = s\<lparr>didinit := True, pic_ports := pic_ports s @
                [(IO_PIC1 + 1, 0xFF), (IO_PIC2 + 1, 0xFF),
                 (IO_PIC1, 0x11), (IO_PIC1 + 1, word_of_nat IRQ_OFFSET), (IO_PIC1 + 1, push_bit IRQ_SLAVE 1), (IO_PIC1 + 1, 3),
                 (IO_PIC2, 0x11), (IO_PIC2 + 1, word_of_nat (IRQ_OFFSET + 8)), (IO_PIC2 + 1, word_of_nat IRQ_SLAVE), (IO_PIC2 + 1, 1),
                 (IO_PIC1, 0x68), (IO_PIC1, 0x0a), (IO_PIC2, 0x68), (IO_PIC2, 0x0a)]\<rparr>
      in if irq_mask_8259A s \<noteq> 0xFFFF then irq_setmask_8259A (irq_mask_8259A s) s else s)"

section \<open>Starting the other processors\<close>

text \<open>
  The entry code is copied to \<open>MPENTRY_PADDR\<close> before.  The other processors run at the same time, so the state has a
  clock: each store, each interrupt and each look at a status takes one unit of it.  \<open>up c t\<close> is whether
  \<open>cpus[c].cpu_status\<close> is seen as \<open>CPU_STARTED\<close> at the time \<open>t\<close>; the processor \<open>c\<close> itself sets it in \<open>mp_main\<close>, after
  the entry code has loaded its stack pointer from \<open>mpentry_kstack\<close>.  \<open>bp_kstack b t\<close> is the value of \<open>mpentry_kstack\<close> at
  the time \<open>t\<close>, which a store changes from then on, and \<open>bp_starts\<close> records when the interrupts that start each
  processor were sent.
\<close>

record bootst =
  bp_lapic :: lapst
  bp_kstack :: "nat \<Rightarrow> u32"
  bp_starts :: "(nat \<times> nat) list"
  bp_clock :: nat

definition set_kstack :: "u32 \<Rightarrow> bootst \<Rightarrow> bootst" where
  "set_kstack v b = b\<lparr>bp_kstack := (\<lambda>t. if t < bp_clock b then bp_kstack b t else v), bp_clock := bp_clock b + 1\<rparr>"

definition start_cpu :: "u8 \<Rightarrow> nat \<Rightarrow> bootst \<Rightarrow> bootst option" where
  "start_cpu apicid c b = do {
     l \<leftarrow> lapic_startap apicid MPENTRY_PADDR (bp_lapic b);
     Some (b\<lparr>bp_lapic := l, bp_starts := bp_starts b @ [(c, bp_clock b)], bp_clock := bp_clock b + 1\<rparr>)
   }"

partial_function (option) wait_started :: "(nat \<Rightarrow> nat \<Rightarrow> bool) \<Rightarrow> nat \<Rightarrow> bootst \<Rightarrow> bootst option" where
  "wait_started up c b =
     (let b' = b\<lparr>bp_clock := bp_clock b + 1\<rparr> in if up c (bp_clock b) then Some b' else wait_started up c b')"

text \<open>\<open>kstacks\<close> is the address of \<open>percpu_kstacks\<close>.\<close>

definition boot_ap :: "(nat \<Rightarrow> nat \<Rightarrow> bool) \<Rightarrow> u32 \<Rightarrow> u8 \<Rightarrow> nat \<Rightarrow> bootst \<Rightarrow> bootst option" where
  "boot_ap up kstacks apicid c b = do {
     let (me, l) = cpunum (bp_lapic b);
     let b = b\<lparr>bp_lapic := l\<rparr>;
     if c = unat me then Some b
     else do {
       let b = set_kstack (kstacks + word_of_nat c * KSTKSIZE + KSTKSIZE) b;
       b \<leftarrow> start_cpu apicid c b;
       wait_started up c b
     }
   }"

fun boot_loop :: "(nat \<Rightarrow> nat \<Rightarrow> bool) \<Rightarrow> u32 \<Rightarrow> (nat \<Rightarrow> u8) \<Rightarrow> nat list \<Rightarrow> bootst \<Rightarrow> bootst option" where
  "boot_loop up kstacks ids [] b = Some b"
| "boot_loop up kstacks ids (c # cs) b = do { b \<leftarrow> boot_ap up kstacks (ids c) c b; boot_loop up kstacks ids cs b }"

definition boot_aps :: "(nat \<Rightarrow> nat \<Rightarrow> bool) \<Rightarrow> u32 \<Rightarrow> mpst \<Rightarrow> bootst \<Rightarrow> bootst option" where
  "boot_aps up kstacks m b =
     (if mp_npages m \<le> PGNUM MPENTRY_PADDR then None
      else boot_loop up kstacks (cpu_id m) [0..<ncpu m] b)"

text \<open>What a started processor does with the common state: its APIC, and its mark.\<close>

definition mp_main :: "bool \<Rightarrow> nat \<Rightarrow> mpst \<Rightarrow> lapst \<Rightarrow> (mpst \<times> lapst) option" where
  "mp_main map_ok me m l = do {
     l \<leftarrow> lapic_init map_ok (lapicaddr m) (me = bootcpu m) l;
     Some (m\<lparr>cpu_started := (cpu_started m)(me := True)\<rparr>, l)
   }"

section \<open>Every other processor is started, with its own stack\<close>

text \<open>What the APIC is told to start one processor: assert and release its reset, then twice the page of the code.\<close>

definition start_writes :: "u8 \<Rightarrow> (nat \<times> u32) list" where
  "start_writes apicid = [(LA_ICRHI, push_bit 24 (ucast apicid)), (LA_ICRLO, 0xC500), (LA_ICRLO, 0x8500),
     (LA_ICRHI, push_bit 24 (ucast apicid)), (LA_ICRLO, 0x607), (LA_ICRHI, push_bit 24 (ucast apicid)), (LA_ICRLO, 0x607)]"

lemma lapicw_simps [simp]:
  "la_writes (lapicw i v s) = la_writes s @ [(i, v)]" "la_mapped (lapicw i v s) = la_mapped s" "la_read (lapicw i v s) = la_read s"
  "la_ports (lapicw i v s) = la_ports s" "la_wrv (lapicw i v s) = la_wrv s"
  by (simp_all add: lapicw_def lapic_read_def)

lemma startap_writes:
  assumes "la_mapped s"
  shows "\<exists>t. lapic_startap apicid MPENTRY_PADDR s = Some t \<and> la_writes t = la_writes s @ start_writes apicid \<and> la_mapped t \<and> la_read t = la_read s"
  using assms
  by (simp add: lapic_startap_def startup_once_def start_writes_def MPENTRY_PADDR_def LA_INIT_def LA_LEVEL_def LA_ASSERT_def LA_STARTUP_def Let_def)

lemma wait_started_returns:
  assumes "up c t" "bp_clock b \<le> t"
  shows "\<exists>t1 \<ge> bp_clock b. up c t1 \<and> wait_started up c b = Some (b\<lparr>bp_clock := t1 + 1\<rparr>)"
  using assms
proof (induction "t - bp_clock b" arbitrary: b)
  case 0
  then show ?case by (subst wait_started.simps) (auto intro: exI[of _ "bp_clock b"])
next
  case (Suc n)
  show ?case
  proof (cases "up c (bp_clock b)")
    case True
    then show ?thesis by (subst wait_started.simps) (auto intro: exI[of _ "bp_clock b"])
  next
    case False
    let ?b = "b\<lparr>bp_clock := bp_clock b + 1\<rparr>"
    have "n = t - bp_clock ?b" "bp_clock ?b \<le> t" using Suc.hyps(2) by simp_all
    from Suc.hyps(1)[OF this(1) Suc.prems(1) this(2)] obtain t1 where
      "t1 \<ge> bp_clock ?b" "up c t1" "wait_started up c ?b = Some (?b\<lparr>bp_clock := t1 + 1\<rparr>)" by blast
    then show ?thesis using False by (subst wait_started.simps) (auto intro!: exI[of _ t1])
  qed
qed

definition stack_top :: "u32 \<Rightarrow> nat \<Rightarrow> u32" where "stack_top kstacks c = kstacks + word_of_nat (c + 1) * KSTKSIZE"

text \<open>
  The processor \<open>c\<close> was sent its interrupts at \<open>t0\<close>, was then seen started, and all that time
  \<open>mpentry_kstack\<close> was \<open>v\<close>.
\<close>

definition started_with :: "(nat \<Rightarrow> nat \<Rightarrow> bool) \<Rightarrow> (nat \<Rightarrow> u32) \<Rightarrow> nat \<Rightarrow> nat \<Rightarrow> u32 \<Rightarrow> bool" where
  "started_with up ks c t0 v \<longleftrightarrow> (\<exists>t1 \<ge> t0. up c t1 \<and> (\<forall>t \<in> {t0..t1}. ks t = v))"

lemma boot_ap_other:
  assumes "la_mapped (bp_lapic b)" "\<forall>t. drop_bit 24 (la_read (bp_lapic b) t LA_ID) = word_of_nat me" "me < 256"
    and "c \<noteq> me" "\<forall>t0. \<exists>t \<ge> t0. up c t"
  obtains r t0 where "boot_ap up kstacks apicid c b = Some r" "bp_starts r = bp_starts b @ [(c, t0)]"
    "bp_clock b \<le> t0" "\<And>t. t < bp_clock b \<Longrightarrow> bp_kstack r t = bp_kstack b t"
    "\<exists>t1 \<ge> t0. t1 < bp_clock r \<and> up c t1 \<and> (\<forall>t \<in> {t0..t1}. bp_kstack r t = stack_top kstacks c)"
    "la_writes (bp_lapic r) = la_writes (bp_lapic b) @ start_writes apicid" "la_mapped (bp_lapic r)" "la_read (bp_lapic r) = la_read (bp_lapic b)"
proof -
  have m: "unat (word_of_nat me :: u32) = me" using assms(3) by (simp add: unat_of_nat take_bit_eq_mod)
  let ?l = "bp_lapic b"
  define l1 where "l1 = ?l\<lparr>la_time := la_time ?l + 1\<rparr>"
  have n: "cpunum ?l = (word_of_nat me, l1)" using assms(1,2) by (simp add: cpunum_def lapic_read_def l1_def)
  have l1: "la_mapped l1" "la_writes l1 = la_writes ?l" "la_read l1 = la_read ?l" using assms(1) by (simp_all add: l1_def)
  from startap_writes[OF l1(1), of apicid] obtain l2 where
    l2: "lapic_startap apicid MPENTRY_PADDR l1 = Some l2" "la_writes l2 = la_writes l1 @ start_writes apicid" "la_mapped l2" "la_read l2 = la_read l1"
    by blast
  define b1 where "b1 = set_kstack (stack_top kstacks c) (b\<lparr>bp_lapic := l1\<rparr>)"
  define b2 where "b2 = b1\<lparr>bp_lapic := l2, bp_starts := bp_starts b @ [(c, bp_clock b + 1)], bp_clock := bp_clock b + 2\<rparr>"
  have st: "start_cpu apicid c b1 = Some b2" by (simp add: start_cpu_def b1_def b2_def set_kstack_def l2(1))
  obtain t where "t \<ge> bp_clock b2" "up c t" using assms(5) by blast
  from wait_started_returns[of up c t b2, OF this(2,1)] obtain t1 where
    t1: "t1 \<ge> bp_clock b2" "up c t1" "wait_started up c b2 = Some (b2\<lparr>bp_clock := t1 + 1\<rparr>)" by blast
  have top: "kstacks + word_of_nat c * KSTKSIZE + KSTKSIZE = stack_top kstacks c" by (simp add: stack_top_def algebra_simps)
  have ap: "boot_ap up kstacks apicid c b = Some (b2\<lparr>bp_clock := t1 + 1\<rparr>)"
    using assms(4) n m st t1(3) by (simp add: boot_ap_def top b1_def[symmetric] Let_def)
  show ?thesis
    by (rule that[OF ap, of "bp_clock b + 1"]) (use l1 l2 t1 in \<open>auto simp: b2_def b1_def set_kstack_def intro!: exI[of _ t1]\<close>)
qed

lemma boot_loop_starts:
  assumes "la_mapped (bp_lapic b)" "\<forall>t. drop_bit 24 (la_read (bp_lapic b) t LA_ID) = word_of_nat me" "me < 256"
    and "\<forall>c \<in> set cs. c \<noteq> me \<longrightarrow> (\<forall>t0. \<exists>t \<ge> t0. up c t)"
  shows "\<exists>r ts. boot_loop up kstacks ids cs b = Some r \<and> bp_starts r = bp_starts b @ ts \<and> map fst ts = filter (\<lambda>c. c \<noteq> me) cs
    \<and> (\<forall>(c, t0) \<in> set ts. started_with up (bp_kstack r) c t0 (stack_top kstacks c))
    \<and> (\<forall>t < bp_clock b. bp_kstack r t = bp_kstack b t)
    \<and> la_writes (bp_lapic r) = la_writes (bp_lapic b) @ concat (map (\<lambda>c. start_writes (ids c)) (filter (\<lambda>c. c \<noteq> me) cs))"
  using assms
proof (induction cs arbitrary: b)
  case (Cons c cs)
  have later: "\<forall>c \<in> set cs. c \<noteq> me \<longrightarrow> (\<forall>t0. \<exists>t \<ge> t0. up c t)" using Cons.prems(4) by simp
  show ?case
  proof (cases "c = me")
    case True
    have m: "unat (word_of_nat me :: u32) = me" using Cons.prems(3) by (simp add: unat_of_nat take_bit_eq_mod)
    let ?b = "b\<lparr>bp_lapic := (bp_lapic b)\<lparr>la_time := la_time (bp_lapic b) + 1\<rparr>\<rparr>"
    have "boot_ap up kstacks (ids c) c b = Some ?b"
      using True m Cons.prems(1,2) by (simp add: boot_ap_def cpunum_def lapic_read_def)
    moreover have "la_mapped (bp_lapic ?b)" "\<forall>t. drop_bit 24 (la_read (bp_lapic ?b) t LA_ID) = word_of_nat me"
      using Cons.prems(1,2) by simp_all
    ultimately show ?thesis using Cons.IH[of ?b, OF _ _ Cons.prems(3) later] True by simp
  next
    case False
    then have "\<forall>t0. \<exists>t \<ge> t0. up c t" using Cons.prems(4) by simp
    from boot_ap_other[where up = up, OF Cons.prems(1-3) False this, of kstacks "ids c"] obtain b1 t0 where
      ap: "boot_ap up kstacks (ids c) c b = Some b1" and s1: "bp_starts b1 = bp_starts b @ [(c, t0)]" and c0: "bp_clock b \<le> t0"
      and old: "\<And>t. t < bp_clock b \<Longrightarrow> bp_kstack b1 t = bp_kstack b t"
      and w: "\<exists>t1 \<ge> t0. t1 < bp_clock b1 \<and> up c t1 \<and> (\<forall>t \<in> {t0..t1}. bp_kstack b1 t = stack_top kstacks c)"
      and l: "la_writes (bp_lapic b1) = la_writes (bp_lapic b) @ start_writes (ids c)" "la_mapped (bp_lapic b1)" "la_read (bp_lapic b1) = la_read (bp_lapic b)"
      by blast
    have "\<forall>t. drop_bit 24 (la_read (bp_lapic b1) t LA_ID) = word_of_nat me" using Cons.prems(2) l(3) by simp
    from Cons.IH[OF l(2) this Cons.prems(3) later] obtain r ts where
      r: "boot_loop up kstacks ids cs b1 = Some r" "bp_starts r = bp_starts b1 @ ts" "map fst ts = filter (\<lambda>c. c \<noteq> me) cs"
      "\<forall>(c, t0) \<in> set ts. started_with up (bp_kstack r) c t0 (stack_top kstacks c)" "\<forall>t < bp_clock b1. bp_kstack r t = bp_kstack b1 t"
      "la_writes (bp_lapic r) = la_writes (bp_lapic b1) @ concat (map (\<lambda>c. start_writes (ids c)) (filter (\<lambda>c. c \<noteq> me) cs))" by blast
    from w obtain t1 where t1: "t1 \<ge> t0" "t1 < bp_clock b1" "up c t1" "\<forall>t \<in> {t0..t1}. bp_kstack b1 t = stack_top kstacks c" by blast
    have sw: "started_with up (bp_kstack r) c t0 (stack_top kstacks c)"
      unfolding started_with_def using t1 r(5) by (intro exI[of _ t1]) auto
    have old': "\<forall>t < bp_clock b. bp_kstack r t = bp_kstack b t" using old r(5) t1 c0 by simp
    show ?thesis
      by (rule exI[of _ r], rule exI[of _ "(c, t0) # ts"]) (use ap r s1 l sw old' False in simp)
  qed
qed simp

text \<open>C10: if every other processor comes up in the end, \<open>boot_aps\<close> ends, and then it has started each processor but the
  one that it runs on, in their order and once.  The APIC of each was sent a reset and twice the page of the entry code, and
  from the time when this begins until the processor is seen started \<open>mpentry_kstack\<close> is the top of its own stack,
  so that is what it loads whenever it reads it in between.\<close>

theorem boot_aps_starts_others:
  assumes "la_mapped (bp_lapic b)" "\<forall>t. drop_bit 24 (la_read (bp_lapic b) t LA_ID) = word_of_nat me" "me < 256" "7 < mp_npages m"
    and "\<forall>c < ncpu m. c \<noteq> me \<longrightarrow> (\<forall>t0. \<exists>t \<ge> t0. up c t)"
  shows "\<exists>r ts. boot_aps up kstacks m b = Some r
    \<and> bp_starts r = bp_starts b @ ts \<and> map fst ts = filter (\<lambda>c. c \<noteq> me) [0..<ncpu m]
    \<and> (\<forall>(c, t0) \<in> set ts. \<exists>t1 \<ge> t0. up c t1 \<and> (\<forall>t \<in> {t0..t1}. bp_kstack r t = stack_top kstacks c))
    \<and> la_writes (bp_lapic r) = la_writes (bp_lapic b) @ concat (map (\<lambda>c. start_writes (cpu_id m c)) (filter (\<lambda>c. c \<noteq> me) [0..<ncpu m]))"
proof -
  have "PGNUM MPENTRY_PADDR = 7" by (simp add: PGNUM_arith MPENTRY_PADDR_def)
  moreover have "\<forall>c \<in> set [0..<ncpu m]. c \<noteq> me \<longrightarrow> (\<forall>t0. \<exists>t \<ge> t0. up c t)" using assms(5) by simp
  ultimately show ?thesis using boot_loop_starts[OF assms(1-3), of "[0..<ncpu m]" up kstacks "cpu_id m"] assms(4)
    by (simp add: boot_aps_def started_with_def) blast
qed

text \<open>Three processors, the second of which starts the others; each comes up after a time of its own.\<close>

definition demo_boot :: bootst where
  "demo_boot = \<lparr>bp_lapic = \<lparr>la_mapped = True, la_writes = [], la_read = (\<lambda>_ _. 0x1000000), la_time = 0, la_ports = [], la_wrv = (0, 0)\<rparr>,
     bp_kstack = (\<lambda>_. 0), bp_starts = [], bp_clock = 0\<rparr>"

theorem boot_aps_starts_others_witness:
  "\<exists>r t u. boot_aps (\<lambda>c t. 5 * (c + 1) < t) 0xF0100000 (demo_mpst\<lparr>ncpu := 3, cpu_id := word_of_nat\<rparr>) demo_boot = Some r
    \<and> bp_starts r = [(0, t), (2, u)] \<and> bp_kstack r t = 0xF0108000 \<and> bp_kstack r u = 0xF0118000"
proof -
  let ?m = "demo_mpst\<lparr>ncpu := 3, cpu_id := word_of_nat\<rparr>"
  have "la_mapped (bp_lapic demo_boot)" "\<forall>t. drop_bit 24 (la_read (bp_lapic demo_boot) t LA_ID) = word_of_nat 1" "(1 :: nat) < 256" "7 < mp_npages ?m"
    by (simp_all add: demo_mpst_def demo_boot_def)
  moreover have "\<exists>t \<ge> t0. 5 * (c + 1) < t" for c t0 :: nat by (rule exI[of _ "max t0 (5 * (c + 1) + 1)"]) simp
  ultimately obtain r ts where r: "boot_aps (\<lambda>c t. 5 * (c + 1) < t) 0xF0100000 ?m demo_boot = Some r"
    "bp_starts r = bp_starts demo_boot @ ts" "map fst ts = filter (\<lambda>c. c \<noteq> 1) [0..<ncpu ?m]"
    "\<forall>(c, t0) \<in> set ts. \<exists>t1 \<ge> t0. 5 * (c + 1) < t1 \<and> (\<forall>t \<in> {t0..t1}. bp_kstack r t = stack_top 0xF0100000 c)"
    using boot_aps_starts_others[of demo_boot 1 ?m "\<lambda>c t. 5 * (c + 1) < t" "0xF0100000"] by blast
  have "map fst ts = [0, 2]" using r(3) by (simp add: upt_rec)
  then obtain t u where ts: "ts = [(0, t), (2, u)]" by (auto simp: map_eq_Cons_conv)
  have "bp_kstack r t = stack_top 0xF0100000 0" "bp_kstack r u = stack_top 0xF0100000 2" using r(4) ts by fastforce+
  then show ?thesis using r(1,2) ts by (simp add: stack_top_def KSTKSIZE_def demo_boot_def)
qed

text \<open>The stacks of two processors do not meet.\<close>

lemma stacks_disjoint:
  assumes "c < d" "d < NCPU" "unat kstacks + 8 * 32768 < 4294967296"
  shows "unat (stack_top kstacks c) \<le> unat (stack_top kstacks d) - unat KSTKSIZE"
proof -
  have t: "unat (kstacks + word_of_nat (c + 1) * KSTKSIZE) = unat kstacks + 32768 * (c + 1)" if "c < 8" for c
  proof -
    have "unat (word_of_nat (c + 1) * KSTKSIZE) = 32768 * (c + 1)"
      using that by (simp add: KSTKSIZE_def unat_word_ariths unat_of_nat take_bit_eq_mod)
    then show ?thesis using that assms(3) by (simp add: unat_word_ariths)
  qed
  show ?thesis using t[of c] t[of d] assms by (simp add: stack_top_def NCPU_def KSTKSIZE_def)
qed

text \<open>The vectors that the APIC is given for an error and for a spurious interrupt have no gate.\<close>

lemma lapic_vectors_without_gate:
  "gd_p (trap_init entry ! unat (irq_vec IRQ_ERROR)) = 0" "gd_p (trap_init entry ! unat (irq_vec IRQ_SPURIOUS)) = 0"
  by (simp_all add: irq_vec_def IRQ_ERROR_def IRQ_SPURIOUS_def trap_init_def trap_vectors_def IRQ_OFFSET_def T_BRKPT_def T_PGFLT_def T_SYSCALL_def
      IRQ_TIMER_def IRQ_KBD_def IRQ_SERIAL_def zero_gate_def)

text \<open>After \<open>pic_init\<close> from the start only the line of the slave is open.\<close>

lemma pic_init_masks:
  "irq_mask_8259A (pic_init pic_reset) = 0xFFFB" "drop 14 (pic_ports (pic_init pic_reset)) = [(IO_PIC1 + 1, 0xFB), (IO_PIC2 + 1, 0xFF)]"
  by (simp_all add: pic_init_def pic_reset_def irq_setmask_8259A_def IRQ_SLAVE_def Let_def)

end
