(* ===== verification/FsIo.thy ===== *)
theory FsIo
  imports FsLive
begin

text \<open>
  Files as sequences of bytes.  \<open>fbyte v f p\<close> is the byte at position \<open>p\<close> of the file whose
  \<open>struct File\<close> is at \<open>f\<close>, found through the block pointers in the memory \<open>v\<close>.  The lemmas say what
  the loops of \<open>file_read\<close> and \<open>file_write\<close> do to it, for a file whose blocks are allocated and in
  memory.
\<close>

definition fslot :: "(u32 \<Rightarrow> u8) \<Rightarrow> u32 \<Rightarrow> u32 \<Rightarrow> u32" where
  "fslot v f i = (if i < NDIRECT then f_direct f i
     else DISKMAP + vword v (f_indirect f) * BLKSIZE + 4 * (i - NDIRECT))"

definition fblock :: "(u32 \<Rightarrow> u8) \<Rightarrow> u32 \<Rightarrow> u32 \<Rightarrow> u32" where
  "fblock v f i = vword v (fslot v f i)"

definition fbyte :: "(u32 \<Rightarrow> u8) \<Rightarrow> u32 \<Rightarrow> nat \<Rightarrow> u8" where
  "fbyte v f p = v (DISKMAP + fblock v f (word_of_nat (p div 4096)) * BLKSIZE + word_of_nat (p mod 4096))"

text \<open>The pages that hold the file's block pointers, and the pages of its first \<open>n\<close> blocks.\<close>

definition blk_page :: "u32 \<Rightarrow> nat" where
  "blk_page b = 65536 + unat b"

definition meta_pages :: "fs \<Rightarrow> u32 \<Rightarrow> nat \<Rightarrow> nat set" where
  "meta_pages s f n = {PGNUM f, PGNUM (super s + 4)}
     \<union> (if n \<le> 10 then {} else {blk_page (vword (view s) (f_indirect f))})"

definition data_pages :: "fs \<Rightarrow> u32 \<Rightarrow> nat \<Rightarrow> nat set" where
  "data_pages s f n = (\<lambda>i. blk_page (fblock (view s) f (word_of_nat i))) ` {..<n}"

definition file_ready :: "fs \<Rightarrow> u32 \<Rightarrow> nat \<Rightarrow> bool" where
  "file_ready s f n \<longleftrightarrow> f AND 3 = 0 \<and> unat (PGOFF f) \<le> 3840 \<and> in_diskmap f \<and> n \<le> 1034
     \<and> super s \<noteq> 0 \<and> super s AND 3 = 0 \<and> vword (view s) (super s + 4) \<le> 786432
     \<and> (n \<le> 10 \<or> vword (view s) (f_indirect f) \<noteq> 0 \<and> vword (view s) (f_indirect f) < vword (view s) (super s + 4))
     \<and> (\<forall>i < n. fblock (view s) f (word_of_nat i) \<noteq> 0 \<and> fblock (view s) f (word_of_nat i) < vword (view s) (super s + 4))
     \<and> (\<forall>p \<in> meta_pages s f n \<union> data_pages s f n. fmapped s p) \<and> drive_ok s \<and> cache_ok s"

lemma blk_addr:
  assumes "unat b < 786432"
  shows "unat (DISKMAP + b * BLKSIZE) = 4096 * blk_page b" and "PGNUM (DISKMAP + b * BLKSIZE) = blk_page b"
    and "PGOFF (DISKMAP + b * BLKSIZE) = 0"
proof -
  have "unat (b * BLKSIZE) = 4096 * unat b" using assms by (simp add: unat_word_ariths BLKSIZE_def PGSIZE_def)
  then show u: "unat (DISKMAP + b * BLKSIZE) = 4096 * blk_page b"
    using assms by (simp add: unat_word_ariths DISKMAP_def blk_page_def)
  then show "PGNUM (DISKMAP + b * BLKSIZE) = blk_page b" by (simp add: PGNUM_arith)
  have "unat (PGOFF (DISKMAP + b * BLKSIZE)) = 0" using u by (simp only: unat_PGOFF mod_mult_self1_is_0)
  then show "PGOFF (DISKMAP + b * BLKSIZE) = 0" by (simp add: unsigned_eq_0_iff)
qed

text \<open>Addresses at an offset from a page or from a \<open>struct File\<close>.\<close>

lemma page_offset:
  assumes "PGOFF a = 0" and "k < 4096"
  shows "unat (a + word_of_nat k) = unat a + k" and "PGNUM (a + word_of_nat k) = PGNUM a"
proof -
  have k: "unat (word_of_nat k :: u32) = k" using assms(2) by (simp add: unat_of_nat take_bit_eq_mod)
  have m: "unat a mod 4096 = 0" using assms(1) unat_PGOFF[of a] by simp
  then obtain q where q: "unat a = 4096 * q" by auto
  have "unat a + k < 2 ^ 32" using q unat_less[of a] assms(2) by simp
  then show u: "unat (a + word_of_nat k) = unat a + k" using unat_add_lem[of a "word_of_nat k"] k by simp
  then show "PGNUM (a + word_of_nat k) = PGNUM a" using assms(2) q by (simp add: PGNUM_arith)
qed

lemma field_offset:
  assumes "unat (PGOFF f) \<le> 3840" and "k < 256"
  shows "unat (f + word_of_nat k) = unat f + k" and "PGNUM (f + word_of_nat k) = PGNUM f"
proof -
  have k: "unat (word_of_nat k :: u32) = k" using assms(2) by (simp add: unat_of_nat take_bit_eq_mod)
  have m: "unat f mod 4096 \<le> 3840" using assms(1) by (simp add: unat_PGOFF)
  have f: "unat f = 4096 * (unat f div 4096) + unat f mod 4096" by simp
  have "unat f div 4096 < 1048576" using unat_less[of f] by linarith
  then have "unat f + k < 4294967296" using f m assms(2) by linarith
  then show u: "unat (f + word_of_nat k) = unat f + k" using unat_add_lem[of f "word_of_nat k"] k by simp
  have "(4096 * q + (r + k)) div 4096 = q" if "r \<le> 3840" for q r
    using that assms(2) by simp
  from this[OF m, of "unat f div 4096"]
  have "(unat f + k) div 4096 = unat f div 4096" by (simp only: add.assoc [symmetric] mult_div_mod_eq)
  then show "PGNUM (f + word_of_nat k) = PGNUM f" using u by (simp add: PGNUM_arith)
qed

lemma f_direct_offset: "i < 10 \<Longrightarrow> f_direct f (word_of_nat i) = f + word_of_nat (136 + 4 * i)"
  by (simp add: f_direct_def)

lemma f_indirect_offset: "f_indirect f = f + word_of_nat 176"
  by (simp add: f_indirect_def)

lemma file_readyD:
  assumes "file_ready s f n"
  shows "f AND 3 = 0" "unat (PGOFF f) \<le> 3840" "in_diskmap f" "n \<le> 1034" "super s \<noteq> 0" "super s AND 3 = 0"
    "vword (view s) (super s + 4) \<le> 786432" "fmapped s (PGNUM f)" "fmapped s (PGNUM (super s + 4))" "drive_ok s" "cache_ok s"
    "i < n \<Longrightarrow> fblock (view s) f (word_of_nat i) \<noteq> 0 \<and> fblock (view s) f (word_of_nat i) < vword (view s) (super s + 4)
       \<and> fmapped s (blk_page (fblock (view s) f (word_of_nat i)))"
    "10 < n \<Longrightarrow> vword (view s) (f_indirect f) \<noteq> 0 \<and> vword (view s) (f_indirect f) < vword (view s) (super s + 4)
       \<and> fmapped s (blk_page (vword (view s) (f_indirect f)))"
  using assms by (auto simp: file_ready_def meta_pages_def data_pages_def)

lemma below_limit: "b < vword (view s) (super s + 4) \<Longrightarrow> vword (view s) (super s + 4) \<le> 786432 \<Longrightarrow> unat b < 786432"
  by (simp add: word_less_nat_alt word_le_nat_alt)

text \<open>The slot of a block.\<close>

lemma fslot_place:
  assumes r: "file_ready s f n" and i: "i < n"
  shows "fslot (view s) f (word_of_nat i) AND 3 = 0" and "PGNUM (fslot (view s) f (word_of_nat i)) \<in> meta_pages s f n"
    and "in_diskmap (fslot (view s) f (word_of_nat i))" and "fmapped s (PGNUM (fslot (view s) f (word_of_nat i)))"
proof -
  note D = file_readyD[OF r]
  have n: "unat (word_of_nat i :: u32) = i" using i D(4) by (simp add: unat_of_nat take_bit_eq_mod)
  let ?sl = "fslot (view s) f (word_of_nat i)"
  have "?sl AND 3 = 0 \<and> PGNUM ?sl \<in> meta_pages s f n"
  proof (cases "i < 10")
    case True
    then have sl: "?sl = f_direct f (word_of_nat i)" using n by (simp add: fslot_def NDIRECT_def word_less_nat_alt)
    have "f + 4 * (34 + word_of_nat i) = ?sl" unfolding sl f_direct_def by simp
    then have "?sl AND 3 = 0" using align_add[OF D(1), of "34 + word_of_nat i"] by simp
    moreover have "PGNUM ?sl = PGNUM f"
      using field_offset(2)[OF D(2), of "136 + 4 * i"] True by (simp only: sl f_direct_offset)
    ultimately show ?thesis by (simp add: meta_pages_def)
  next
    case False
    let ?b = "vword (view s) (f_indirect f)"
    have b: "unat ?b < 786432" using D(13) below_limit[OF _ D(7)] False i by simp
    have "\<not> (word_of_nat i :: u32) < NDIRECT" using False n by (simp add: NDIRECT_def word_less_nat_alt)
    then have sl: "?sl = DISKMAP + ?b * BLKSIZE + word_of_nat (4 * (i - 10))"
      using False by (simp add: fslot_def NDIRECT_def of_nat_diff)
    have k: "4 * (i - 10) < 4096" using i D(4) by simp
    have "unat ?sl = 4096 * blk_page ?b + 4 * (i - 10)" unfolding sl
      using page_offset(1)[OF blk_addr(3)[OF b] k] blk_addr(1)[OF b] by simp
    then have "unat ?sl = 4 * (1024 * blk_page ?b + (i - 10))" by (simp add: add_mult_distrib2)
    then have "unat ?sl mod 4 = 0" by (simp only: mod_mult_self1_is_0)
    then have "?sl AND 3 = 0" by (simp only: and_3)
    moreover have "PGNUM ?sl = blk_page ?b" unfolding sl
      using page_offset(2)[OF blk_addr(3)[OF b] k] blk_addr(2)[OF b] by simp
    ultimately show ?thesis using False i by (simp add: meta_pages_def)
  qed
  then show 1: "?sl AND 3 = 0" and 2: "PGNUM ?sl \<in> meta_pages s f n" by auto
  show "fmapped s (PGNUM ?sl)" using 2 r by (simp add: file_ready_def)
  show "in_diskmap ?sl"
  proof (cases "PGNUM ?sl = PGNUM f")
    case True
    then show ?thesis using D(3) by (simp add: in_diskmap_PGNUM)
  next
    case False
    let ?b = "vword (view s) (f_indirect f)"
    show ?thesis
    proof (cases "i < 10")
      case True
      then have sl: "?sl = f_direct f (word_of_nat i)" using n by (simp add: fslot_def NDIRECT_def word_less_nat_alt)
      then have "PGNUM ?sl = PGNUM f"
        using field_offset(2)[OF D(2), of "136 + 4 * i"] True by (simp only: sl f_direct_offset)
      then show ?thesis using False by simp
    next
      case ge: False
      have b: "unat ?b < 786432" using D(13) below_limit[OF _ D(7)] ge i by simp
      have "\<not> (word_of_nat i :: u32) < NDIRECT" using ge n by (simp add: NDIRECT_def word_less_nat_alt)
      then have sl: "?sl = DISKMAP + ?b * BLKSIZE + word_of_nat (4 * (i - 10))"
        using ge by (simp add: fslot_def NDIRECT_def of_nat_diff)
      have k: "4 * (i - 10) < 4096" using i D(4) by simp
      have "PGNUM ?sl = blk_page ?b" unfolding sl
        using page_offset(2)[OF blk_addr(3)[OF b] k] blk_addr(2)[OF b] by simp
      then show ?thesis using b by (simp add: in_diskmap_PGNUM blk_page_def)
    qed
  qed
qed

section \<open>A block that is there\<close>

text \<open>A step that changes nothing the server sees: only write-backs.\<close>

definition quiet :: "fs \<Rightarrow> fs \<Rightarrow> bool" where
  "quiet s t \<longleftrightarrow> view t = view s \<and> super t = super s \<and> bitmap t = bitmap s \<and> ide_status t = ide_status s
     \<and> fmapped t = fmapped s \<and> fwritable t = fwritable s \<and> cache_ok t"

lemma flush_quiet:
  assumes "flush_block a s = Some t" and "cache_ok s"
  shows "quiet s t"
  using flush_block_result[OF assms] flush_block_view[OF assms] assms(2) by (simp add: quiet_def flushed_def same_fs_def)

lemma meta_pages_cong: "view t = view s \<Longrightarrow> super t = super s \<Longrightarrow> meta_pages t f n = meta_pages s f n"
  by (simp add: meta_pages_def)

lemma quiet_ready: "quiet s t \<Longrightarrow> file_ready s f n \<Longrightarrow> file_ready t f n"
  by (simp add: quiet_def file_ready_def meta_pages_def data_pages_def drive_ok_def)

lemma diskaddr_present:
  assumes r: "file_ready s f n" and b: "b \<noteq> 0" "b < vword (view s) (super s + 4)"
  shows "diskaddr b s = Some (DISKMAP + b * BLKSIZE, s)"
proof -
  note D = file_readyD[OF r]
  have "(super s + 4) AND 3 = 0" using align_add[OF D(6), of 1] by simp
  then have "read32 (super s + 4) s = Some (vword (view s) (super s + 4), s)" using D(9) by (simp add: read32_present)
  moreover have "\<not> vword (view s) (super s + 4) \<le> b" using b(2) by simp
  ultimately show ?thesis using b(1) D(5) by (simp add: diskaddr_def beyond_disk_by_def read32_def)
qed

lemma file_block_walk_present:
  assumes r: "file_ready s f n" and i: "i < n"
  shows "file_block_walk f (word_of_nat i) al s = Some ((0, fslot (view s) f (word_of_nat i)), s)"
proof -
  note D = file_readyD[OF r]
  have n: "unat (word_of_nat i :: u32) = i" using i D(4) by (simp add: unat_of_nat take_bit_eq_mod)
  have lim: "\<not> NDIRECT + NINDIRECT \<le> (word_of_nat i :: u32)"
    using n i D(4) by (simp add: NDIRECT_def NINDIRECT_def BLKSIZE_def PGSIZE_def word_le_nat_alt)
  show ?thesis
  proof (cases "i < 10")
    case True
    then have "(word_of_nat i :: u32) < NDIRECT" using n by (simp add: NDIRECT_def word_less_nat_alt)
    then show ?thesis using lim by (simp add: file_block_walk_def fslot_def)
  next
    case False
    then have nd: "\<not> (word_of_nat i :: u32) < NDIRECT" using n by (simp add: NDIRECT_def word_less_nat_alt)
    have I: "vword (view s) (f_indirect f) \<noteq> 0 \<and> vword (view s) (f_indirect f) < vword (view s) (super s + 4)"
      using D(13) False i by simp
    have "f_indirect f = f + 4 * 44" by (simp add: f_indirect_def)
    then have al: "f_indirect f AND 3 = 0" using align_add[OF D(1), of 44] by simp
    have "PGNUM (f_indirect f) = PGNUM f" using field_offset(2)[OF D(2), of 176] by (simp only: f_indirect_offset)
    then have rd: "read32 (f_indirect f) s = Some (vword (view s) (f_indirect f), s)" using al D(8) by (simp add: read32_present)
    show ?thesis using lim nd I rd diskaddr_present[OF r, of "vword (view s) (f_indirect f)"]
      by (simp add: file_block_walk_def fslot_def)
  qed
qed

lemma file_get_block_present:
  assumes r: "file_ready s f n" and i: "i < n"
  shows "\<exists>t. file_get_block f (word_of_nat i) s = Some ((0, DISKMAP + fblock (view s) f (word_of_nat i) * BLKSIZE), t) \<and> quiet s t"
proof -
  note D = file_readyD[OF r] and S = fslot_place[OF r i]
  let ?sl = "fslot (view s) f (word_of_nat i)" and ?b = "fblock (view s) f (word_of_nat i)"
  have rd: "read32 ?sl s = Some (?b, s)" using S(1,4) by (simp add: read32_present fblock_def)
  have b: "?b \<noteq> 0" "?b < vword (view s) (super s + 4)" using D(12)[OF i] by auto
  obtain t where t: "flush_block ?sl s = Some t" using flush_block_total[OF S(3) D(10)] by blast
  then show ?thesis using flush_quiet[OF t D(11)] file_block_walk_present[OF r i] rd b diskaddr_present[OF r b]
    by (simp add: file_get_block_def)
qed

section \<open>Reading\<close>

text \<open>Positions as numbers: block, offset and what fits in the block.\<close>

lemma pos_arith:
  assumes "p < L" and "L < 2147483648"
  shows "sdiv_blk (word_of_nat p) = word_of_nat (p div 4096)" and "smod_blk (word_of_nat p) = word_of_nat (p mod 4096)"
    and "unat (chunk (word_of_nat p) (word_of_nat L)) = min (4096 - p mod 4096) (L - p)"
    and "(word_of_nat p :: u32) < word_of_nat L"
proof -
  have u: "unat (word_of_nat p :: u32) = p" "unat (word_of_nat L :: u32) = L"
    using assms by (simp_all add: unat_of_nat take_bit_eq_mod)
  then have s: "sint (word_of_nat p :: u32) = int p" using assms by (simp add: sint_cases)
  have dm: "int p div 4096 = int (p div 4096)" "int p mod 4096 = int (p mod 4096)" by (simp_all add: zdiv_int zmod_int)
  show "sdiv_blk (word_of_nat p) = word_of_nat (p div 4096)"
    by (simp add: sdiv_blk_def s signed_divide_int_def dm sgn_if)
  have m: "smod_blk (word_of_nat p) = word_of_nat (p mod 4096)"
    by (simp add: smod_blk_def s signed_modulo_int_def signed_divide_int_def dm sgn_if minus_div_mult_eq_mod)
  then show "smod_blk (word_of_nat p) = word_of_nat (p mod 4096)" .
  have "unat (BLKSIZE - word_of_nat (p mod 4096) :: u32) = 4096 - p mod 4096"
    by (simp add: BLKSIZE_def PGSIZE_def unat_sub word_le_nat_alt unat_of_nat take_bit_eq_mod)
  moreover have "unat (word_of_nat L - word_of_nat p :: u32) = L - p"
    using u assms by (simp add: unat_sub word_le_nat_alt)
  ultimately show "unat (chunk (word_of_nat p) (word_of_nat L)) = min (4096 - p mod 4096) (L - p)"
    by (simp add: chunk_def m min_def word_le_nat_alt)
  show "(word_of_nat p :: u32) < word_of_nat L" using u assms(1) by (simp add: word_less_nat_alt)
qed

lemma block_of_pos: "p < 4096 * n \<Longrightarrow> p div 4096 < n" for p n :: nat
  by (simp add: less_mult_imp_div_less mult.commute)

text \<open>A memory change outside the pages of the pointers keeps the file's structure.\<close>

lemma vword_cong:
  assumes "a AND 3 = 0" and "\<And>x. PGNUM x = PGNUM a \<Longrightarrow> v x = w x"
  shows "vword v a = vword w a"
  using assms(2)[of a] assms(2)[of "a + 1"] assms(2)[of "a + 2"] assms(2)[of "a + 3"] word_in_page_123[OF assms(1)]
  by (simp add: vword_def)

lemma fblock_cong:
  assumes r: "file_ready s f n" and i: "i < n" and v: "\<And>x. PGNUM x \<in> meta_pages s f n \<Longrightarrow> v x = view s x"
  shows "fslot v f (word_of_nat i) = fslot (view s) f (word_of_nat i)"
    and "fblock v f (word_of_nat i) = fblock (view s) f (word_of_nat i)"
proof -
  note D = file_readyD[OF r]
  have n: "unat (word_of_nat i :: u32) = i" using i D(4) by (simp add: unat_of_nat take_bit_eq_mod)
  have "f_indirect f = f + 4 * 44" by (simp add: f_indirect_def)
  then have al: "f_indirect f AND 3 = 0" using align_add[OF D(1), of 44] by simp
  have "PGNUM (f_indirect f) = PGNUM f" using field_offset(2)[OF D(2), of 176] by (simp only: f_indirect_offset)
  then have "vword v (f_indirect f) = vword (view s) (f_indirect f)"
    by (intro vword_cong[OF al] v) (simp add: meta_pages_def)
  then show sl: "fslot v f (word_of_nat i) = fslot (view s) f (word_of_nat i)" by (simp add: fslot_def)
  show "fblock v f (word_of_nat i) = fblock (view s) f (word_of_nat i)" unfolding fblock_def sl
    by (rule vword_cong[OF fslot_place(1)[OF r i]]) (use v fslot_place(2)[OF r i] in auto)
qed

lemma file_ready_cong:
  assumes r: "file_ready s f n" and v: "\<And>x. PGNUM x \<in> meta_pages s f n \<Longrightarrow> view t x = view s x"
    and c: "super t = super s" "ide_status t = ide_status s" "cache_ok t"
      "\<And>p. p \<in> meta_pages s f n \<union> data_pages s f n \<Longrightarrow> fmapped t p"
  shows "file_ready t f n" and "meta_pages t f n = meta_pages s f n" and "data_pages t f n = data_pages s f n"
proof -
  note D = file_readyD[OF r]
  have "(super s + 4) AND 3 = 0" using align_add[OF D(6), of 1] by simp
  then have sup: "vword (view t) (super s + 4) = vword (view s) (super s + 4)"
    by (rule vword_cong) (rule v, simp add: meta_pages_def)
  have "f_indirect f = f + 4 * 44" by (simp add: f_indirect_def)
  then have al: "f_indirect f AND 3 = 0" using align_add[OF D(1), of 44] by simp
  have "PGNUM (f_indirect f) = PGNUM f" using field_offset(2)[OF D(2), of 176] by (simp only: f_indirect_offset)
  then have ind: "vword (view t) (f_indirect f) = vword (view s) (f_indirect f)"
    by (intro vword_cong[OF al] v) (simp add: meta_pages_def)
  show mp: "meta_pages t f n = meta_pages s f n" by (simp add: meta_pages_def ind c)
  have fb: "i < n \<Longrightarrow> fblock (view t) f (word_of_nat i) = fblock (view s) f (word_of_nat i)" for i
    by (rule fblock_cong(2)[OF r _ v])
  then show dp: "data_pages t f n = data_pages s f n" by (simp add: data_pages_def)
  show "file_ready t f n" using r c fb unfolding file_ready_def mp dp by (simp add: sup ind drive_ok_def)
qed

text \<open>The addresses of a file position.\<close>

lemma fbyte_at:
  assumes r: "file_ready s f n" and q: "q < 4096 * n"
  shows "PGNUM (DISKMAP + fblock (view s) f (word_of_nat (q div 4096)) * BLKSIZE + word_of_nat (q mod 4096))
       = blk_page (fblock (view s) f (word_of_nat (q div 4096)))"
    and "PGNUM (DISKMAP + fblock (view s) f (word_of_nat (q div 4096)) * BLKSIZE + word_of_nat (q mod 4096)) \<in> data_pages s f n"
proof -
  note D = file_readyD[OF r]
  let ?b = "fblock (view s) f (word_of_nat (q div 4096))"
  have b: "unat ?b < 786432" using D(12)[OF block_of_pos[OF q]] below_limit[OF _ D(7)] by blast
  show 1: "PGNUM (DISKMAP + ?b * BLKSIZE + word_of_nat (q mod 4096)) = blk_page ?b"
    using page_offset(2)[OF blk_addr(3)[OF b], of "q mod 4096"] blk_addr(2)[OF b] by simp
  show "PGNUM (DISKMAP + ?b * BLKSIZE + word_of_nat (q mod 4096)) \<in> data_pages s f n"
    unfolding 1 data_pages_def using block_of_pos[OF q] by simp
qed

lemma fbyte_cong:
  assumes r: "file_ready s f n" and q: "q < 4096 * n"
    and v: "\<And>x. PGNUM x \<in> meta_pages s f n \<union> data_pages s f n \<Longrightarrow> v x = view s x"
  shows "fbyte v f q = fbyte (view s) f q"
proof -
  have "fblock v f (word_of_nat (q div 4096)) = fblock (view s) f (word_of_nat (q div 4096))"
    by (rule fblock_cong(2)[OF r block_of_pos[OF q]]) (use v in blast)
  then show ?thesis using v fbyte_at(2)[OF r q] by (simp add: fbyte_def)
qed

lemma fbyte_same_block:
  assumes "p mod 4096 + x < 4096"
  shows "fbyte v f (p + x) = v (DISKMAP + fblock v f (word_of_nat (p div 4096)) * BLKSIZE + word_of_nat (p mod 4096) + word_of_nat x)"
proof -
  have md: "(p + x) mod 4096 = p mod 4096 + x" using assms by (metis mod_add_left_eq mod_less)
  have "4096 * ((p + x) div 4096) + (p + x) mod 4096 = p + x" "4096 * (p div 4096) + p mod 4096 = p"
    by (rule mult_div_mod_eq)+
  then have "(p + x) div 4096 = p div 4096" using md by linarith
  then show ?thesis using md by (simp add: fbyte_def add.assoc)
qed

lemma sub_shift:
  "unat (a - (b + c) :: u32) = (if unat c \<le> unat (a - b) then unat (a - b) - unat c else unat (a - b) + 4294967296 - unat c)"
proof -
  have e: "a - (b + c) = (a - b) - c" by simp
  show ?thesis unfolding e unat_sub_if' by simp
qed

lemma back_to_index: "a = b + word_of_nat (unat (a - b))" for a b :: u32
  by simp

text \<open>A buffer that can be written and is none of the file's pages.\<close>

definition buffer_ok :: "fs \<Rightarrow> u32 \<Rightarrow> nat \<Rightarrow> u32 \<Rightarrow> nat \<Rightarrow> bool" where
  "buffer_ok s f n buf len \<longleftrightarrow> (\<forall>k < len. fmapped s (PGNUM (buf + word_of_nat k)) \<and> fwritable s (PGNUM (buf + word_of_nat k))
     \<and> PGNUM (buf + word_of_nat k) \<notin> meta_pages s f n \<union> data_pages s f n)"

lemma buffer_outside:
  assumes "buffer_ok s f n buf len" and "PGNUM x \<in> meta_pages s f n \<union> data_pages s f n"
  shows "\<not> unat (x - buf) < len"
proof
  assume "unat (x - buf) < len"
  then have "PGNUM (buf + word_of_nat (unat (x - buf))) \<notin> meta_pages s f n \<union> data_pages s f n"
    using assms(1) unfolding buffer_ok_def by blast
  then show False using assms(2) by simp
qed

lemma quiet_same_fs: "quiet s t \<Longrightarrow> diskno t = diskno s \<Longrightarrow> same_fs s t"
  by (simp add: quiet_def same_fs_def)

text \<open>What a step of a transfer keeps.\<close>

definition kept :: "fs \<Rightarrow> fs \<Rightarrow> bool" where
  "kept s t \<longleftrightarrow> super t = super s \<and> bitmap t = bitmap s \<and> ide_status t = ide_status s \<and> cache_ok t
     \<and> (\<forall>p. fmapped s p \<longrightarrow> fmapped t p \<and> fwritable t p = fwritable s p)"

lemma kept_trans: "kept s t \<Longrightarrow> kept t u \<Longrightarrow> kept s u"
  by (simp add: kept_def)

lemma quiet_kept: "quiet s t \<Longrightarrow> kept s t"
  by (simp add: quiet_def kept_def)

lemma same_fs_kept: "same_fs s t \<Longrightarrow> cache_ok s \<Longrightarrow> kept s t"
  by (simp add: same_fs_def kept_def)

lemma kept_ready:
  assumes "file_ready s f n" and "\<And>x. PGNUM x \<in> meta_pages s f n \<Longrightarrow> view t x = view s x" and "kept s t"
  shows "file_ready t f n" and "meta_pages t f n = meta_pages s f n" and "data_pages t f n = data_pages s f n"
proof -
  have c: "super t = super s" "ide_status t = ide_status s" "cache_ok t" using assms(3) by (simp_all add: kept_def)
  have m: "fmapped t p" if "p \<in> meta_pages s f n \<union> data_pages s f n" for p
    using that assms(1,3) unfolding file_ready_def kept_def by blast
  note R = file_ready_cong[OF assms(1,2) c m]
  show "file_ready t f n" by (rule R)
  show "meta_pages t f n = meta_pages s f n" by (rule R)
  show "data_pages t f n = data_pages s f n" by (rule R)
qed

lemma read_loop_ready:
  assumes "file_ready s f n" and "p \<le> L" and "L \<le> 4096 * n" and "buffer_ok s f n buf (L - p)"
  shows "\<exists>t. read_loop f buf (word_of_nat p) (word_of_nat L) s = Some (0, t) \<and> kept s t
     \<and> view t = (\<lambda>a. if unat (a - buf) < L - p then fbyte (view s) f (p + unat (a - buf)) else view s a)"
  using assms
proof (induction "L - p" arbitrary: p buf s rule: less_induct)
  case less
  note r = less.prems(1) and D = file_readyD[OF less.prems(1)]
  have L31: "L < 2147483648" using less.prems(3) D(4) by simp
  show ?case
  proof (cases "p < L")
    case False
    then have "p = L" using less.prems(2) by simp
    moreover have "kept s s" using D(11) by (simp add: kept_def)
    ultimately show ?thesis by (subst read_loop.simps) auto
  next
    case True
    note A = pos_arith[OF True L31]
    define m where "m = min (4096 - p mod 4096) (L - p)"
    let ?i = "p div 4096" and ?bn = "chunk (word_of_nat p) (word_of_nat L)"
    have i: "?i < n" using True less.prems(3) by (intro block_of_pos) simp
    let ?b = "fblock (view s) f (word_of_nat ?i)"
    let ?src = "DISKMAP + ?b * BLKSIZE + word_of_nat (p mod 4096)"
    have b: "unat ?b < 786432" using D(12)[OF i] below_limit[OF _ D(7)] by blast
    obtain t1 where t1: "file_get_block f (word_of_nat ?i) s = Some ((0, DISKMAP + ?b * BLKSIZE), t1)" "quiet s t1"
      using file_get_block_present[OF r i] by blast
    have m: "0 < m" "m \<le> L - p" "p mod 4096 + m \<le> 4096" using True by (auto simp: m_def min_def)
    have bn: "unat ?bn = m" using A(3) by (simp add: m_def)
    then have bn': "?bn = word_of_nat m" by (simp add: bn [symmetric])
    have src: "fmapped t1 (PGNUM (?src + word_of_nat k))" if "k < m" for k
    proof -
      have "PGNUM (?src + word_of_nat k) = blk_page ?b"
        using page_offset(2)[OF blk_addr(3)[OF b], of "p mod 4096 + k"] blk_addr(2)[OF b] that m(3) by (simp add: add.assoc)
      then show ?thesis using D(12)[OF i] t1(2) by (simp add: quiet_def)
    qed
    have dst: "fmapped t1 (PGNUM (buf + word_of_nat k)) \<and> fwritable t1 (PGNUM (buf + word_of_nat k))" if "k < m" for k
      using less.prems(4) that m(2) t1(2) by (simp add: buffer_ok_def quiet_def)
    obtain u where u: "fs_memmove buf ?src m t1 = Some u" using fs_memmove_present[OF src dst] by blast
    have m32: "m < 2 ^ 32" using m(3) by simp
    note M = fs_memmove_view[OF u m32]
    have vu: "view u a = (if unat (a - buf) < m then fbyte (view s) f (p + unat (a - buf)) else view s a)" for a
    proof (cases "unat (a - buf) < m")
      case True
      then have "view u a = view s (?src + (a - buf))" using M t1(2) by (simp add: quiet_def)
      also have "\<dots> = fbyte (view s) f (p + unat (a - buf))"
        using fbyte_same_block[of p "unat (a - buf)"] True m(3) by simp
      finally show ?thesis using True by simp
    next
      case False
      then show ?thesis using M t1(2) by (simp add: quiet_def)
    qed
    have out: "view u x = view s x" if "PGNUM x \<in> meta_pages s f n \<union> data_pages s f n" for x
      using buffer_outside[OF less.prems(4) that] m(2) vu[of x] by simp
    have k: "kept s u" using kept_trans[OF quiet_kept[OF t1(2)] same_fs_kept] M t1(2) by (simp add: quiet_def)
    have "view u x = view s x" if "PGNUM x \<in> meta_pages s f n" for x using out that by blast
    note R = kept_ready[OF r this k]
    have "fmapped u (PGNUM (buf + ?bn + word_of_nat j)) \<and> fwritable u (PGNUM (buf + ?bn + word_of_nat j))
          \<and> PGNUM (buf + ?bn + word_of_nat j) \<notin> meta_pages s f n \<union> data_pages s f n" if "j < L - (p + m)" for j
    proof -
      have "m + j < L - p" using that by simp
      then show ?thesis
        using less.prems(4)[unfolded buffer_ok_def, rule_format, of "m + j"] k bn' by (simp add: kept_def add.assoc)
    qed
    then have "buffer_ok u f n (buf + ?bn) (L - (p + m))" by (simp add: buffer_ok_def R(2,3))
    moreover have "L - (p + m) < L - p" "p + m \<le> L" using m True by simp_all
    ultimately obtain t where t: "read_loop f (buf + ?bn) (word_of_nat (p + m)) (word_of_nat L) u = Some (0, t)" "kept u t"
      "view t = (\<lambda>a. if unat (a - (buf + ?bn)) < L - (p + m) then fbyte (view u) f (p + m + unat (a - (buf + ?bn))) else view u a)"
      using less.hyps[of "p + m" u "buf + ?bn"] R(1) less.prems(3) by blast
    have "view t a = (if unat (a - buf) < L - p then fbyte (view s) f (p + unat (a - buf)) else view s a)" for a
    proof (cases "m \<le> unat (a - buf)")
      case ge: True
      then have e: "unat (a - (buf + ?bn)) = unat (a - buf) - m" by (simp add: sub_shift bn)
      show ?thesis
      proof (cases "unat (a - buf) < L - p")
        case True
        have "fbyte (view u) f (p + unat (a - buf)) = fbyte (view s) f (p + unat (a - buf))"
          by (rule fbyte_cong[OF r _ out]) (use True less.prems(3) in auto)
        then show ?thesis using ge True by (auto simp: t(3) e)
      qed (use ge vu[of a] in \<open>auto simp: t(3) e\<close>)
    next
      case lt: False
      then have "unat (a - (buf + ?bn)) = unat (a - buf) + 4294967296 - m" by (simp add: sub_shift bn)
      then have "\<not> unat (a - (buf + ?bn)) < L - (p + m)" using L31 lt m by linarith
      then show ?thesis using lt m(2) vu[of a] by (simp add: t(3))
    qed
    moreover have "read_loop f buf (word_of_nat p) (word_of_nat L) s = Some (0, t)"
    proof -
      have pb: "word_of_nat p + ?bn = word_of_nat (p + m)" by (simp add: bn')
      show ?thesis
        by (subst read_loop.simps) (simp only: A(1,2,4) if_True t1(1) bind.bind_lunit prod.case order_less_irrefl if_False Let_def bn u pb t(1))
    qed
    ultimately show ?thesis using kept_trans[OF k t(2)] by blast
  qed
qed

section \<open>Writing\<close>

text \<open>The blocks of the file are different from one another and from the pages of the pointers.\<close>

definition file_wf :: "fs \<Rightarrow> u32 \<Rightarrow> nat \<Rightarrow> bool" where
  "file_wf s f n \<longleftrightarrow> file_ready s f n \<and> inj_on (\<lambda>i. fblock (view s) f (word_of_nat i)) {..<n}
     \<and> data_pages s f n \<inter> meta_pages s f n = {}"

definition source_ok :: "fs \<Rightarrow> u32 \<Rightarrow> nat \<Rightarrow> u32 \<Rightarrow> nat \<Rightarrow> bool" where
  "source_ok s f n buf len \<longleftrightarrow> (\<forall>k < len. fmapped s (PGNUM (buf + word_of_nat k)) \<and> PGNUM (buf + word_of_nat k) \<notin> data_pages s f n)"

lemma file_wf_cong_pages:
  assumes wf: "file_wf s f n" and v: "\<And>x. PGNUM x \<in> meta_pages s f n \<Longrightarrow> view t x = view s x"
    and c: "super t = super s" "ide_status t = ide_status s" "cache_ok t"
      "\<And>p. p \<in> meta_pages s f n \<union> data_pages s f n \<Longrightarrow> fmapped t p"
  shows "file_wf t f n"
proof -
  have r: "file_ready s f n" using wf by (simp add: file_wf_def)
  note R = file_ready_cong[OF r v c]
  have "fblock (view t) f (word_of_nat i) = fblock (view s) f (word_of_nat i)" if "i < n" for i
    by (rule fblock_cong(2)[OF r that v])
  then have "inj_on (\<lambda>i. fblock (view t) f (word_of_nat i)) {..<n} = inj_on (\<lambda>i. fblock (view s) f (word_of_nat i)) {..<n}"
    by (intro inj_on_cong) simp
  then show ?thesis using wf R by (simp add: file_wf_def)
qed

lemma file_wf_cong:
  assumes "file_wf s f n" and "\<And>x. PGNUM x \<in> meta_pages s f n \<Longrightarrow> view t x = view s x" and "kept s t"
  shows "file_wf t f n"
proof (rule file_wf_cong_pages[OF assms(1,2)])
  show "super t = super s" "ide_status t = ide_status s" "cache_ok t" using assms(3) by (simp_all add: kept_def)
  show "fmapped t p" if "p \<in> meta_pages s f n \<union> data_pages s f n" for p
    using that assms(1,3) unfolding file_wf_def file_ready_def kept_def by blast
qed

lemma data_page_writable:
  assumes r: "file_ready s f n" and i: "i < n"
  shows "fwritable s (blk_page (fblock (view s) f (word_of_nat i)))"
proof -
  note D = file_readyD[OF r]
  let ?b = "fblock (view s) f (word_of_nat i)"
  have b: "unat ?b < 786432" using D(12)[OF i] below_limit[OF _ D(7)] by blast
  have "in_diskmap (DISKMAP + ?b * BLKSIZE)" using blk_addr(2)[OF b] b by (simp add: in_diskmap_PGNUM blk_page_def)
  then show ?thesis using D(11) D(12)[OF i] blk_addr(2)[OF b] unfolding cache_ok_def by metis
qed

text \<open>Where a position of the file lies relative to the destination of a transfer.\<close>

lemma fbyte_offset:
  assumes wf: "file_wf s f n" and q: "q < 4096 * n" and p: "p < 4096 * n" and m: "p mod 4096 + m \<le> 4096"
  shows "unat (DISKMAP + fblock (view s) f (word_of_nat (q div 4096)) * BLKSIZE + word_of_nat (q mod 4096)
      - (DISKMAP + fblock (view s) f (word_of_nat (p div 4096)) * BLKSIZE + word_of_nat (p mod 4096))) < m
    \<longleftrightarrow> p \<le> q \<and> q < p + m" (is "unat (?A - ?B) < m \<longleftrightarrow> _")
    and "p \<le> q \<Longrightarrow> q < p + m \<Longrightarrow>
      DISKMAP + fblock (view s) f (word_of_nat (q div 4096)) * BLKSIZE + word_of_nat (q mod 4096)
      - (DISKMAP + fblock (view s) f (word_of_nat (p div 4096)) * BLKSIZE + word_of_nat (p mod 4096)) = word_of_nat (q - p)"
proof -
  have r: "file_ready s f n" using wf by (simp add: file_wf_def)
  note D = file_readyD[OF r]
  let ?bp = "fblock (view s) f (word_of_nat (p div 4096))" and ?bq = "fblock (view s) f (word_of_nat (q div 4096))"
  have bp: "unat ?bp < 786432" using D(12)[OF block_of_pos[OF p]] below_limit[OF _ D(7)] by blast
  have dm: "4096 * (q div 4096) + q mod 4096 = q" "4096 * (p div 4096) + p mod 4096 = p" by (rule mult_div_mod_eq)+
  have lt: "q mod 4096 < 4096" by simp
  show "unat (?A - ?B) < m \<longleftrightarrow> p \<le> q \<and> q < p + m" and "p \<le> q \<Longrightarrow> q < p + m \<Longrightarrow> ?A - ?B = word_of_nat (q - p)"
  proof -
    have same: "unat (?A - ?B) = (if p mod 4096 \<le> q mod 4096 then q mod 4096 - p mod 4096 else q mod 4096 + 4294967296 - p mod 4096)
       \<and> (p mod 4096 \<le> q mod 4096 \<longrightarrow> ?A - ?B = word_of_nat (q mod 4096 - p mod 4096))" if "q div 4096 = p div 4096"
    proof -
      let ?base = "DISKMAP + ?bp * BLKSIZE"
      have w: "unat (word_of_nat (q mod 4096) :: u32) = q mod 4096" "unat (word_of_nat (p mod 4096) :: u32) = p mod 4096"
        by (simp_all add: unat_of_nat take_bit_eq_mod)
      have e: "?A - ?base = word_of_nat (q mod 4096)" using that by simp
      have "?A - ?B = ?A - ?base - word_of_nat (p mod 4096)" by simp
      then have "?A - ?B = word_of_nat (q mod 4096) - word_of_nat (p mod 4096)" unfolding e .
      then show ?thesis using sub_shift[of ?A ?base "word_of_nat (p mod 4096)"] by (simp add: e w of_nat_diff)
    qed
    have diff: "\<not> unat (?A - ?B) < m" if ne: "q div 4096 \<noteq> p div 4096"
    proof
      assume l: "unat (?A - ?B) < m"
      have bl: "p mod 4096 + unat (?A - ?B) < 4096" using l m by simp
      have "?B + word_of_nat (unat (?A - ?B)) = DISKMAP + ?bp * BLKSIZE + word_of_nat (p mod 4096 + unat (?A - ?B))"
        by (simp only: of_nat_add add.assoc)
      then have "?A = DISKMAP + ?bp * BLKSIZE + word_of_nat (p mod 4096 + unat (?A - ?B))"
        unfolding back_to_index[of ?A ?B, symmetric] .
      then have "PGNUM ?A = PGNUM (DISKMAP + ?bp * BLKSIZE + word_of_nat (p mod 4096 + unat (?A - ?B)))" by (rule arg_cong)
      also have "\<dots> = blk_page ?bp" unfolding page_offset(2)[OF blk_addr(3)[OF bp] bl] blk_addr(2)[OF bp] ..
      finally have "PGNUM ?A = blk_page ?bp" .
      then have "unat ?bq = unat ?bp" using fbyte_at(1)[OF r q] by (simp add: blk_page_def)
      then have "?bq = ?bp" by (simp only: word_unat_eq_iff)
      then show False using wf ne block_of_pos[OF p] block_of_pos[OF q] by (auto simp: file_wf_def inj_on_def)
    qed
    show "unat (?A - ?B) < m \<longleftrightarrow> p \<le> q \<and> q < p + m"
    proof (cases "q div 4096 = p div 4096")
      case True
      have "p \<le> q \<longleftrightarrow> p mod 4096 \<le> q mod 4096" "q - p = q mod 4096 - p mod 4096" using dm True by linarith+
      moreover have "m \<le> 4096" using m by simp
      moreover have "p mod 4096 < 4096" by simp
      moreover have "q < p + m \<longleftrightarrow> q mod 4096 < p mod 4096 + m" using dm True by linarith
      moreover have "unat (?A - ?B) = (if p mod 4096 \<le> q mod 4096 then q mod 4096 - p mod 4096
          else q mod 4096 + 4294967296 - p mod 4096)" using same[OF True] by blast
      ultimately show ?thesis
        by (cases "p mod 4096 \<le> q mod 4096") (simp_all only: if_True if_False less_diff_conv2 add.commute[of m], auto)
    next
      case False
      have "\<not> (p \<le> q \<and> q < p + m)"
      proof
        assume a: "p \<le> q \<and> q < p + m"
        then have "q < 4096 * (p div 4096) + 4096" using m dm by linarith
        then have "q div 4096 = p div 4096" using a dm lt by linarith
        then show False using False by simp
      qed
      then show ?thesis using diff[OF False] by simp
    qed
    assume a: "p \<le> q" "q < p + m"
    then have "q < 4096 * (p div 4096) + 4096" using m dm by linarith
    then have d: "q div 4096 = p div 4096" using a dm lt by linarith
    then have "p mod 4096 \<le> q mod 4096" "q - p = q mod 4096 - p mod 4096" using a dm by linarith+
    then show "?A - ?B = word_of_nat (q - p)" using same[OF d] by simp
  qed
qed

lemma write_loop_ready:
  assumes "file_wf s f n" and "p \<le> L" and "L \<le> 4096 * n" and "source_ok s f n buf (L - p)"
  shows "\<exists>t. write_loop f buf (word_of_nat p) (word_of_nat L) s = Some (0, t) \<and> kept s t \<and> file_wf t f n
     \<and> (\<forall>q < 4096 * n. fbyte (view t) f q = (if p \<le> q \<and> q < L then view s (buf + word_of_nat (q - p)) else fbyte (view s) f q))
     \<and> (\<forall>a. PGNUM a \<notin> data_pages s f n \<longrightarrow> view t a = view s a)"
  using assms
proof (induction "L - p" arbitrary: p buf s rule: less_induct)
  case less
  note wf = less.prems(1)
  have r: "file_ready s f n" using wf by (simp add: file_wf_def)
  note D = file_readyD[OF r]
  have L31: "L < 2147483648" using less.prems(3) D(4) by simp
  show ?case
  proof (cases "p < L")
    case False
    then have "p = L" using less.prems(2) by simp
    moreover have "kept s s" using D(11) by (simp add: kept_def)
    ultimately show ?thesis using wf by (subst write_loop.simps) auto
  next
    case True
    note A = pos_arith[OF True L31]
    define m where "m = min (4096 - p mod 4096) (L - p)"
    let ?i = "p div 4096" and ?bn = "chunk (word_of_nat p) (word_of_nat L)"
    have pn: "p < 4096 * n" using True less.prems(3) by simp
    have i: "?i < n" by (rule block_of_pos[OF pn])
    let ?b = "fblock (view s) f (word_of_nat ?i)"
    let ?dst = "DISKMAP + ?b * BLKSIZE + word_of_nat (p mod 4096)"
    have b: "unat ?b < 786432" using D(12)[OF i] below_limit[OF _ D(7)] by blast
    obtain t1 where t1: "file_get_block f (word_of_nat ?i) s = Some ((0, DISKMAP + ?b * BLKSIZE), t1)" "quiet s t1"
      using file_get_block_present[OF r i] by blast
    have m: "0 < m" "m \<le> L - p" "p mod 4096 + m \<le> 4096" using True by (auto simp: m_def min_def)
    have bn: "unat ?bn = m" using A(3) by (simp add: m_def)
    then have bn': "?bn = word_of_nat m" by (simp add: bn [symmetric])
    have pg: "PGNUM (?dst + word_of_nat k) = blk_page ?b" if "k < m" for k
      using page_offset(2)[OF blk_addr(3)[OF b], of "p mod 4096 + k"] blk_addr(2)[OF b] that m(3) by (simp add: add.assoc)
    have dst: "fmapped t1 (PGNUM (?dst + word_of_nat k)) \<and> fwritable t1 (PGNUM (?dst + word_of_nat k))" if "k < m" for k
      using D(12)[OF i] data_page_writable[OF r i] t1(2) by (simp add: pg[OF that] quiet_def)
    have src: "fmapped t1 (PGNUM (buf + word_of_nat k))" if "k < m" for k
      using less.prems(4) that m(2) t1(2) by (simp add: source_ok_def quiet_def)
    obtain u where u: "fs_memmove ?dst buf m t1 = Some u" using fs_memmove_present[OF src dst] by blast
    have m32: "m < 2 ^ 32" using m(3) by simp
    have vu: "view u a = (if unat (a - ?dst) < m then view s (buf + (a - ?dst)) else view s a)" for a
      using fs_memmove_view[OF u m32] t1(2) by (simp add: quiet_def)
    have blk: "PGNUM a = blk_page ?b" if "unat (a - ?dst) < m" for a
      using pg[OF that] back_to_index[of a ?dst] by simp
    have dpg: "blk_page ?b \<in> data_pages s f n" using i by (simp add: data_pages_def)
    have other: "view u x = view s x" if "PGNUM x \<notin> data_pages s f n" for x
      using that dpg blk[of x] vu[of x] by auto
    have mt: "view u x = view s x" if "PGNUM x \<in> meta_pages s f n" for x
      using other that wf by (auto simp: file_wf_def)
    have k: "kept s u" using kept_trans[OF quiet_kept[OF t1(2)] same_fs_kept] fs_memmove_view[OF u m32] t1(2) by (simp add: quiet_def)
    note R = kept_ready[OF r mt k]
    have wfu: "file_wf u f n" by (rule file_wf_cong[OF wf mt k])
    have fb: "fbyte (view u) f q = (if p \<le> q \<and> q < p + m then view s (buf + word_of_nat (q - p)) else fbyte (view s) f q)"
      if q: "q < 4096 * n" for q
    proof -
      have "fbyte (view u) f q = view u (DISKMAP + fblock (view s) f (word_of_nat (q div 4096)) * BLKSIZE + word_of_nat (q mod 4096))"
        using fblock_cong(2)[OF r block_of_pos[OF q] mt] by (simp add: fbyte_def)
      then show ?thesis unfolding vu fbyte_offset(1)[OF wf q pn m(3)]
        using fbyte_offset(2)[OF wf q pn m(3)] by (simp add: fbyte_def)
    qed
    have "fmapped u (PGNUM (buf + ?bn + word_of_nat j)) \<and> PGNUM (buf + ?bn + word_of_nat j) \<notin> data_pages s f n"
      if "j < L - (p + m)" for j
    proof -
      have "m + j < L - p" using that by simp
      then show ?thesis
        using less.prems(4)[unfolded source_ok_def, rule_format, of "m + j"] k bn' by (simp add: kept_def add.assoc)
    qed
    then have so: "source_ok u f n (buf + ?bn) (L - (p + m))" by (simp add: source_ok_def R(3))
    have lt: "L - (p + m) < L - p" and le: "p + m \<le> L" using m True by simp_all
    from less.hyps[OF lt wfu le less.prems(3) so]
    obtain t where T: "write_loop f (buf + ?bn) (word_of_nat (p + m)) (word_of_nat L) u = Some (0, t) \<and> kept u t \<and> file_wf t f n
       \<and> (\<forall>q < 4096 * n. fbyte (view t) f q = (if p + m \<le> q \<and> q < L then view u (buf + ?bn + word_of_nat (q - (p + m))) else fbyte (view u) f q))
       \<and> (\<forall>a. PGNUM a \<notin> data_pages u f n \<longrightarrow> view t a = view u a)" by (elim exE) (erule that)
    then have t: "write_loop f (buf + ?bn) (word_of_nat (p + m)) (word_of_nat L) u = Some (0, t)" "kept u t" "file_wf t f n"
      and tf: "\<And>q. q < 4096 * n \<Longrightarrow> fbyte (view t) f q
          = (if p + m \<le> q \<and> q < L then view u (buf + ?bn + word_of_nat (q - (p + m))) else fbyte (view u) f q)"
      and ta': "\<And>a. PGNUM a \<notin> data_pages u f n \<Longrightarrow> view t a = view u a" by blast+
    have ta: "view t a = view u a" if "PGNUM a \<notin> data_pages s f n" for a
      by (rule ta') (use that R(3) in simp)
    have res: "fbyte (view t) f q = (if p \<le> q \<and> q < L then view s (buf + word_of_nat (q - p)) else fbyte (view s) f q)"
      if q: "q < 4096 * n" for q
    proof (cases "p + m \<le> q \<and> q < L")
      case True
      then have e: "buf + ?bn + word_of_nat (q - (p + m)) = buf + word_of_nat (q - p)" by (simp add: bn' of_nat_diff)
      have "q - p < L - p" using True by linarith
      then have "PGNUM (buf + word_of_nat (q - p)) \<notin> data_pages s f n"
        using less.prems(4) unfolding source_ok_def by blast
      then have "view u (buf + ?bn + word_of_nat (q - (p + m))) = view s (buf + word_of_nat (q - p))"
        unfolding e by (rule other)
      then show ?thesis using tf[OF q] True by (simp only: if_True) auto
    next
      case False
      then show ?thesis using tf[OF q] fb[OF q] m(2) by auto
    qed
    have "write_loop f buf (word_of_nat p) (word_of_nat L) s = Some (0, t)"
    proof -
      have pb: "word_of_nat p + ?bn = word_of_nat (p + m)" by (simp add: bn')
      show ?thesis
        by (subst write_loop.simps) (simp only: A(1,2,4) if_True t1(1) bind.bind_lunit prod.case order_less_irrefl if_False Let_def bn u pb t(1))
    qed
    then show ?thesis using kept_trans[OF k t(2)] t(3) res ta other by auto
  qed
qed

section \<open>The operations\<close>

lemma f_size_present:
  assumes "file_ready s f n"
  shows "read32 (f_size f) s = Some (vword (view s) (f_size f), s)"
proof -
  note D = file_readyD[OF assms]
  have "f_size f = f + 4 * 32" "f_size f = f + word_of_nat 128" by (simp_all add: f_size_def)
  then have "f_size f AND 3 = 0" "PGNUM (f_size f) = PGNUM f"
    using align_add[OF D(1), of 32] field_offset(2)[OF D(2), of 128] by simp_all
  then show ?thesis using D(8) by (simp add: read32_present)
qed

definition fsize :: "fs \<Rightarrow> u32 \<Rightarrow> nat" where
  "fsize s f = unat (vword (view s) (f_size f))"

lemma file_read_ready:
  assumes r: "file_ready s f n" and sz: "fsize s f \<le> 4096 * n" and off: "off < fsize s f"
    and c: "c = min cnt (fsize s f - off)" and cnt: "cnt < 2 ^ 32" and buf: "buffer_ok s f n buf c"
  shows "\<exists>t. file_read f buf (word_of_nat cnt) (word_of_nat off) s = Some (int c, t) \<and> kept s t
     \<and> view t = (\<lambda>a. if unat (a - buf) < c then fbyte (view s) f (off + unat (a - buf)) else view s a)"
proof -
  let ?z = "vword (view s) (f_size f)"
  have n: "4096 * n < 2147483648" using file_readyD(4)[OF r] by simp
  have z: "unat ?z = fsize s f" "unat ?z < 2147483648" using sz n by (simp_all add: fsize_def)
  have o: "unat (word_of_nat off :: u32) = off" "unat (word_of_nat cnt :: u32) = cnt"
    using off z cnt by (simp_all add: unat_of_nat take_bit_eq_mod)
  have s1: "\<not> sint ?z \<le> sint (word_of_nat off :: u32)" using z o off by (simp add: sint_cases)
  have d: "unat (?z - word_of_nat off) = fsize s f - off" using z o off by (simp add: unat_sub word_le_nat_alt)
  then have uc: "unat (min (word_of_nat cnt) (?z - word_of_nat off)) = c"
    using o c by (simp add: min_def word_le_nat_alt)
  then have mc: "min (word_of_nat cnt) (?z - word_of_nat off) = word_of_nat c" by (simp add: uc [symmetric])
  have cl: "c \<le> fsize s f - off" using c by simp
  have "off + c \<le> 4096 * n" using cl off sz by simp
  from read_loop_ready[OF r _ this, of off buf] buf obtain t where
    t: "read_loop f buf (word_of_nat off) (word_of_nat (off + c)) s = Some (0, t)" "kept s t"
    "view t = (\<lambda>a. if unat (a - buf) < c then fbyte (view s) f (off + unat (a - buf)) else view s a)" by auto
  have "sint (word_of_nat c :: u32) = int c"
  proof -
    have "unat (word_of_nat c :: u32) = c" using cl z off by (simp add: unat_of_nat take_bit_eq_mod)
    then show ?thesis using cl z off by (simp add: sint_cases)
  qed
  then show ?thesis using t s1 f_size_present[OF r] mc by (simp add: file_read_def)
qed

lemma file_write_ready:
  assumes wf: "file_wf s f n" and sz: "fsize s f \<le> 4096 * n" and off: "off + cnt \<le> fsize s f" and buf: "source_ok s f n buf cnt"
  shows "\<exists>t. file_write f buf (word_of_nat cnt) (word_of_nat off) s = Some (int cnt, t) \<and> kept s t \<and> file_wf t f n
     \<and> (\<forall>q < 4096 * n. fbyte (view t) f q = (if off \<le> q \<and> q < off + cnt then view s (buf + word_of_nat (q - off)) else fbyte (view s) f q))
     \<and> (\<forall>a. PGNUM a \<notin> data_pages s f n \<longrightarrow> view t a = view s a)"
proof -
  have r: "file_ready s f n" using wf by (simp add: file_wf_def)
  let ?z = "vword (view s) (f_size f)"
  have n: "4096 * n < 2147483648" using file_readyD(4)[OF r] by simp
  have z: "unat ?z = fsize s f" "unat ?z < 2147483648" using sz n by (simp_all add: fsize_def)
  have "unat (word_of_nat off + word_of_nat cnt :: u32) = off + cnt"
    using off z by (simp add: unat_of_nat take_bit_eq_mod of_nat_add [symmetric] del: of_nat_add)
  then have s1: "\<not> ?z < word_of_nat off + word_of_nat cnt" using z off by (simp add: word_less_nat_alt)
  have "off + cnt \<le> 4096 * n" using off sz by simp
  from write_loop_ready[OF wf _ this, of off buf] buf obtain t where
    t: "write_loop f buf (word_of_nat off) (word_of_nat (off + cnt)) s = Some (0, t)" "kept s t" "file_wf t f n"
    "\<forall>q < 4096 * n. fbyte (view t) f q = (if off \<le> q \<and> q < off + cnt then view s (buf + word_of_nat (q - off)) else fbyte (view s) f q)"
    "\<forall>a. PGNUM a \<notin> data_pages s f n \<longrightarrow> view t a = view s a" by auto
  have "sint (word_of_nat cnt :: u32) = int cnt"
  proof -
    have "unat (word_of_nat cnt :: u32) = cnt" using off z by (simp add: unat_of_nat take_bit_eq_mod)
    then show ?thesis using off z by (simp add: sint_cases)
  qed
  then show ?thesis using t s1 f_size_present[OF r] by (simp add: file_write_def)
qed

lemma file_read_ready_eof:
  assumes r: "file_ready s f n" and sz: "fsize s f \<le> 4096 * n" and off: "off < 2147483648" "fsize s f \<le> off"
  shows "file_read f buf w (word_of_nat off) s = Some (0, s)"
proof -
  have z: "unat (vword (view s) (f_size f)) = fsize s f" "fsize s f < 2147483648"
    using sz file_readyD(4)[OF r] by (simp_all add: fsize_def)
  have "unat (word_of_nat off :: u32) = off" using off by (simp add: unat_of_nat take_bit_eq_mod)
  then have "sint (vword (view s) (f_size f)) \<le> sint (word_of_nat off :: u32)" using z off by (simp add: sint_cases)
  then show ?thesis using f_size_present[OF r] by (simp add: file_read_def)
qed

end
