(* ===== verification/FsFormat.thy ===== *)
theory FsFormat
  imports FsIo
begin

text \<open>
  The program that builds a disk image on the host, \<open>fs/fsformat.c\<close>.  Its memory is one function: the
  image is mapped where the server has the disk (only differences to \<open>diskmap\<close> are used), and the array of
  directory entries, which comes from \<open>malloc\<close> with whatever was there before, is at \<open>fm_ents\<close>.  A call of
  \<open>panic\<close> or \<open>usage\<close> is \<open>None\<close>.
\<close>

record fmt =
  fm_mem :: "u32 \<Rightarrow> u8"
  fm_pos :: u32          \<comment> \<open>\<open>diskpos\<close>\<close>
  fm_nblocks :: u32
  fm_super :: u32
  fm_bitmap :: u32
  fm_ents :: u32         \<comment> \<open>the field \<open>ents\<close> of the root \<open>Dir\<close>\<close>
  fm_n :: nat            \<comment> \<open>and its \<open>n\<close>\<close>

definition MAX_DIR_ENTS :: nat where "MAX_DIR_ENTS = 128"
definition MAXFILESIZE :: nat where "MAXFILESIZE = (10 + 1024) * 4096"
definition FTYPE_REG :: u32 where "FTYPE_REG = 0"

text \<open>The macro \<open>ROUNDUP\<close> at its two types: \<open>uint32_t\<close>, and \<open>int\<close>, where \<open>%\<close> takes the sign of its left operand.\<close>

definition fm_roundup :: "u32 \<Rightarrow> u32" where
  "fm_roundup n = n - 1 + BLKSIZE - (n - 1) mod BLKSIZE"

definition fm_roundup_int :: "int \<Rightarrow> int" where
  "fm_roundup_int n = n - 1 + 4096 - (n - 1) smod 4096"

definition fm_alloc :: "u32 \<Rightarrow> fmt \<Rightarrow> (u32 \<times> fmt) option" where
  "fm_alloc bytes s =
     (let start = fm_pos s; pos = start + fm_roundup bytes
      in if fm_nblocks s \<le> block_of pos then None else Some (start, s\<lparr>fm_pos := pos\<rparr>))"

text \<open>The file behind the mapping is cut to nothing and extended, so that it reads as zeros.\<close>

definition opendisk :: "u32 \<Rightarrow> u32 \<Rightarrow> (u32 \<Rightarrow> u8) \<Rightarrow> fmt option" where
  "opendisk nblocks ents heap = do {
     let s = \<lparr>fm_mem = (\<lambda>a. if unat (a - DISKMAP) < 4096 * unat nblocks then 0 else heap a), fm_pos = DISKMAP,
              fm_nblocks = nblocks, fm_super = 0, fm_bitmap = 0, fm_ents = ents, fm_n = 0\<rparr>;
     (_, s) \<leftarrow> fm_alloc BLKSIZE s;
     (sup, s) \<leftarrow> fm_alloc BLKSIZE s;
     let m = put_word (fm_mem s) sup FS_MAGIC;
     let m = put_word m (s_nblocks sup) nblocks;
     let m = put_word m (f_type (s_root sup)) FTYPE_DIR;
     let m = put_bytes m (s_root sup) [47, 0];
     let nbitblocks = (nblocks + BLKBITSIZE - 1) div BLKBITSIZE;
     (bm, s) \<leftarrow> fm_alloc (nbitblocks * BLKSIZE) (s\<lparr>fm_mem := m\<rparr>);
     Some (s\<lparr>fm_mem := put_bytes (fm_mem s) bm (replicate (unat (nbitblocks * BLKSIZE)) 255), fm_super := sup, fm_bitmap := bm\<rparr>)
   }"

definition clear_bit_in :: "u32 \<Rightarrow> (u32 \<Rightarrow> u8) \<Rightarrow> nat \<Rightarrow> u32 \<Rightarrow> u8" where
  "clear_bit_in bm m i =
     (let a = bm + 4 * (word_of_nat i div 32) in put_word m a (vword m a AND NOT (bit_mask (word_of_nat i))))"

definition finishdisk :: "fmt \<Rightarrow> fmt" where
  "finishdisk s = s\<lparr>fm_mem := foldl (clear_bit_in (fm_bitmap s)) (fm_mem s) [0..<unat (block_of (fm_pos s))]\<rparr>"

text \<open>\<open>n\<close> words from \<open>a\<close> on, counting up from \<open>w\<close>: both loops of \<open>finishfile\<close>.\<close>

definition fill_words :: "u32 \<Rightarrow> u32 \<Rightarrow> nat \<Rightarrow> (u32 \<Rightarrow> u8) \<Rightarrow> u32 \<Rightarrow> u8" where
  "fill_words a w n m = foldl (\<lambda>m i. put_word m (a + 4 * word_of_nat i) (w + word_of_nat i)) m [0..<n]"

definition finishfile :: "u32 \<Rightarrow> u32 \<Rightarrow> u32 \<Rightarrow> fmt \<Rightarrow> fmt option" where
  "finishfile f start len s =
     (let nb = unat (fm_roundup len div BLKSIZE);
          m = fill_words (f_direct f 0) start (min nb 10) (put_word (fm_mem s) (f_size f) len)
      in if nb < 10 then Some (s\<lparr>fm_mem := m\<rparr>)
         else do {
           (ind, s) \<leftarrow> fm_alloc BLKSIZE (s\<lparr>fm_mem := m\<rparr>);
           Some (s\<lparr>fm_mem := fill_words ind (start + NDIRECT) (nb - 10) (put_word (fm_mem s) (f_indirect f) (block_of ind))\<rparr>)
         })"

text \<open>\<open>strcpy\<close> of a name must at least stay inside the array.\<close>

definition diradd :: "u32 \<Rightarrow> u8 list \<Rightarrow> fmt \<Rightarrow> (u32 \<times> fmt) option" where
  "diradd ty name s =
     (let out = fm_ents s + word_of_nat (256 * fm_n s)
      in if MAX_DIR_ENTS < fm_n s + 1 \<or> 256 * MAX_DIR_ENTS < 256 * fm_n s + length name + 1 then None
         else Some (out, s\<lparr>fm_mem := put_word (put_bytes (fm_mem s) out (name @ [0])) (f_type out) ty, fm_n := fm_n s + 1\<rparr>))"

definition finishdir :: "fmt \<Rightarrow> fmt option" where
  "finishdir s = do {
     let bytes = fm_n s * 256;
     (start, s) \<leftarrow> fm_alloc (word_of_nat bytes) s;
     let m = put_bytes (fm_mem s) start (map (\<lambda>i. fm_mem s (fm_ents s + word_of_nat i)) [0..<bytes]);
     finishfile (s_root (fm_super s)) (block_of start) (word_of_int (fm_roundup_int (int bytes))) (s\<lparr>fm_mem := m\<rparr>)
   }"

text \<open>
  A file of the host: its path, its size, and what the calls of \<open>read\<close> return one after the other.  No more
  calls, or an empty result, is an error or the end of the file.
\<close>

record hfile =
  hf_path :: "u8 list"
  hf_size :: nat
  hf_reads :: "u8 list list"

fun host_readn :: "nat \<Rightarrow> u8 list list \<Rightarrow> u8 list option" where
  "host_readn 0 rs = Some []"
| "host_readn (Suc n) [] = None"
| "host_readn (Suc n) (r # rs) =
     (if r = [] \<or> Suc n < length r then None else map_option ((@) r) (host_readn (Suc n - length r) rs))"

definition base_name :: "u8 list \<Rightarrow> u8 list" where
  "base_name path = rev (takeWhile (\<lambda>c. c \<noteq> 47) (rev path))"

definition writefile :: "hfile \<Rightarrow> fmt \<Rightarrow> fmt option" where
  "writefile h s =
     (if MAXFILESIZE \<le> hf_size h then None
      else do {
        (f, s) \<leftarrow> diradd FTYPE_REG (base_name (hf_path h)) s;
        (start, s) \<leftarrow> fm_alloc (word_of_nat (hf_size h)) s;
        bs \<leftarrow> host_readn (hf_size h) (hf_reads h);
        finishfile f (block_of start) (word_of_nat (hf_size h)) (s\<lparr>fm_mem := put_bytes (fm_mem s) start bs\<rparr>)
      })"

fun writefiles :: "hfile list \<Rightarrow> fmt \<Rightarrow> fmt option" where
  "writefiles [] s = Some s"
| "writefiles (h # hs) s = do { s \<leftarrow> writefile h s; writefiles hs s }"

definition fsformat :: "u32 \<Rightarrow> u32 \<Rightarrow> (u32 \<Rightarrow> u8) \<Rightarrow> hfile list \<Rightarrow> fmt option" where
  "fsformat nblocks ents heap files =
     (if nblocks < 2 \<or> 1024 < nblocks then None
      else do {
        s \<leftarrow> opendisk nblocks ents heap;
        s \<leftarrow> writefiles files s;
        s \<leftarrow> finishdir s;
        Some (finishdisk s)
      })"

section \<open>Writes by address\<close>

lemma unat_add_nat: "unat (a :: u32) + n < 4294967296 \<Longrightarrow> unat (a + word_of_nat n) = unat a + n"
  by (simp add: unat_word_ariths unat_of_nat take_bit_eq_mod)

lemma unat_minus_of: "unat (a :: u32) \<le> unat x \<Longrightarrow> unat (x - a) = unat x - unat a"
  by (simp add: unat_sub word_le_nat_alt)

lemma unat_minus_below: "unat (x :: u32) < unat a \<Longrightarrow> unat (x - a) = 4294967296 + unat x - unat a"
  by (simp add: unat_sub_if')

lemma put_bytes_at:
  assumes "unat a + length bs \<le> 4294967296"
  shows "put_bytes v a bs x = (if unat a \<le> unat x \<and> unat x < unat a + length bs then bs ! (unat x - unat a) else v x)"
proof (cases "unat a \<le> unat x")
  case True
  then show ?thesis by (auto simp: put_bytes_def unat_minus_of)
next
  case False
  then have "unat (x - a) = 4294967296 + unat x - unat a" by (simp add: unat_minus_below)
  then have "\<not> unat (x - a) < length bs" using assms False by linarith
  then show ?thesis using False by (simp add: put_bytes_def)
qed

lemma put_word_bytes:
  assumes "unat a + 4 \<le> 4294967296"
  shows "put_word v a w x = (if unat a \<le> unat x \<and> unat x < unat a + 4 then word_bytes w ! (unat x - unat a) else v x)"
proof -
  have "put_bytes v a (word_bytes w) = put_word v a w"
  proof (rule ext)
    fix x :: u32
    have n: "unat (a + 1) = unat a + 1" "unat (a + 2) = unat a + 2" "unat (a + 3) = unat a + 3"
      using assms unat_add_nat[of a 1] unat_add_nat[of a 2] unat_add_nat[of a 3] by simp_all
    have e: "(x = y) = (unat x = unat y)" for y :: u32 by (simp add: word_unat_eq_iff)
    have c: "i = 0 \<or> i = 1 \<or> i = 2 \<or> i = 3" if "i < 4" for i :: nat using that by linarith
    show "put_bytes v a (word_bytes w) x = put_word v a w x"
    proof (cases "unat a \<le> unat x \<and> unat x < unat a + 4")
      case True
      then obtain i where i: "unat x = unat a + i" "i < 4" by (metis le_Suc_ex nat_add_left_cancel_less)
      show ?thesis using c[OF i(2)] i assms by (auto simp: put_bytes_at word_bytes_def put_word_def e n)
    next
      case False
      then show ?thesis using assms by (auto simp: put_bytes_at word_bytes_def put_word_def e n)
    qed
  qed
  then show ?thesis using put_bytes_at[of a "word_bytes w" v x] assms by (simp add: word_bytes_def)
qed

lemma put_word_out: "unat a + 4 \<le> 4294967296 \<Longrightarrow> unat x < unat a \<or> unat a + 4 \<le> unat x \<Longrightarrow> put_word v a w x = v x"
  by (auto simp: put_word_bytes)

lemma vword_same:
  assumes "unat a + 4 \<le> 4294967296" "\<And>x. unat a \<le> unat x \<Longrightarrow> unat x < unat a + 4 \<Longrightarrow> w x = v x"
  shows "vword w a = vword v a"
proof -
  have n: "unat (a + 1) = unat a + 1" "unat (a + 2) = unat a + 2" "unat (a + 3) = unat a + 3"
    using assms(1) unat_add_nat[of a 1] unat_add_nat[of a 2] unat_add_nat[of a 3] by simp_all
  show ?thesis using assms(2)[of a] assms(2)[of "a + 1"] assms(2)[of "a + 2"] assms(2)[of "a + 3"]
    by (simp add: vword_def n)
qed

lemma vword_here: "unat a + 4 \<le> 4294967296 \<Longrightarrow> vword (put_word v a w) a = w"
proof -
  assume a: "unat a + 4 \<le> 4294967296"
  have n: "unat (a + 1) = unat a + 1" "unat (a + 2) = unat a + 2" "unat (a + 3) = unat a + 3"
    using a unat_add_nat[of a 1] unat_add_nat[of a 2] unat_add_nat[of a 3] by simp_all
  have "vword (put_word v a w) a = bytes_word (word_bytes w)"
    using a by (simp add: vword_def put_word_bytes n word_bytes_def)
  then show ?thesis by (simp add: bytes_word_bytes)
qed

lemma vword_out:
  "unat a + 4 \<le> 4294967296 \<Longrightarrow> unat b + 4 \<le> 4294967296 \<Longrightarrow> unat b + 4 \<le> unat a \<or> unat a + 4 \<le> unat b
     \<Longrightarrow> vword (put_word v a w) b = vword v b"
  by (rule vword_same) (auto simp: put_word_out)

lemma fill_words_Suc: "fill_words a w (Suc n) m = put_word (fill_words a w n m) (a + 4 * word_of_nat n) (w + word_of_nat n)"
  by (simp add: fill_words_def)

lemma unat_slot: "unat (a :: u32) + 4 * n < 4294967296 \<Longrightarrow> unat (a + 4 * word_of_nat n) = unat a + 4 * n"
  using unat_add_nat[of a "4 * n"] by simp

lemma fill_words_out:
  "unat a + 4 * n \<le> 4294967296 \<Longrightarrow> unat x < unat a \<or> unat a + 4 * n \<le> unat x \<Longrightarrow> fill_words a w n m x = m x"
proof (induction n)
  case (Suc n)
  have "unat (a + 4 * word_of_nat n) = unat a + 4 * n" using Suc.prems(1) by (intro unat_slot) simp
  then show ?case using Suc by (auto simp: fill_words_Suc put_word_out)
qed (simp add: fill_words_def)

lemma fill_words_at:
  "unat a + 4 * n \<le> 4294967296 \<Longrightarrow> j < n \<Longrightarrow> vword (fill_words a w n m) (a + 4 * word_of_nat j) = w + word_of_nat j"
proof (induction n)
  case (Suc n)
  have n: "unat (a + 4 * word_of_nat n) = unat a + 4 * n" using Suc.prems(1) by (intro unat_slot) simp
  show ?case
  proof (cases "j = n")
    case True
    then show ?thesis using n Suc.prems(1) by (simp add: fill_words_Suc vword_here)
  next
    case False
    then have j: "j < n" using Suc.prems(2) by simp
    then have "unat (a + 4 * word_of_nat j) = unat a + 4 * j" using Suc.prems(1) by (intro unat_slot) simp
    then show ?thesis using n j Suc by (simp add: fill_words_Suc vword_out)
  qed
qed simp

end
