(* ===== verification/FsFmtProps.thy ===== *)
theory FsFmtProps
  imports FsFormat FsProps
begin

text \<open>
  A formatted image is a file system that the server can use: the superblock and the bitmap are right, the
  root directory lists the files in their order, and each file has the bytes that it had on the host, in
  blocks of its own.
\<close>

section \<open>Blocks of the image\<close>

definition at_block :: "fmt \<Rightarrow> nat \<Rightarrow> bool" where
  "at_block s b \<longleftrightarrow> fm_pos s = DISKMAP + word_of_nat (4096 * b) \<and> b < unat (fm_nblocks s) \<and> unat (fm_nblocks s) \<le> 1024"

abbreviation img :: "nat \<Rightarrow> nat" where "img b \<equiv> 268435456 + 4096 * b"

definition nblk :: "nat \<Rightarrow> nat" where "nblk n = (n + 4095) div 4096"

text \<open>The blocks that a file of \<open>n\<close> bytes takes, with its indirect block.\<close>

definition used :: "nat \<Rightarrow> nat" where "used n = nblk n + (if 10 \<le> nblk n then 1 else 0)"

lemma nat_word: "unat (x :: u32) = n \<Longrightarrow> x = word_of_nat n"
  by auto

lemma small_nat: "k < 4294967296 \<Longrightarrow> unat (word_of_nat k :: u32) = k"
  by (simp add: unat_of_nat take_bit_eq_mod)

lemma img_addr: "b \<le> 3000 \<Longrightarrow> unat (DISKMAP + word_of_nat (4096 * b)) = img b"
  using unat_add_nat[of DISKMAP "4096 * b"] by (simp add: DISKMAP_def)

lemma block_of_img: "b \<le> 3000 \<Longrightarrow> block_of (DISKMAP + word_of_nat (4096 * b)) = word_of_nat b"
proof -
  assume b: "b \<le> 3000"
  have "unat (word_of_nat (4096 * b) :: u32) = 4096 * b" using b by (simp add: unat_of_nat take_bit_eq_mod del: of_nat_mult)
  then have "unat (block_of (DISKMAP + word_of_nat (4096 * b))) = b"
    by (simp add: unat_block_of_gen del: of_nat_mult)
  then show ?thesis by (rule nat_word)
qed

lemma roundup_nat: "unat n \<le> 5000000 \<Longrightarrow> unat (fm_roundup n) = 4096 * nblk (unat n)"
proof -
  assume n: "unat n \<le> 5000000"
  show ?thesis
  proof (cases "n = 0")
    case True
    have "(0 - 1 :: u32) = 0xFFFFFFFF" by simp
    then show ?thesis using True by (simp add: fm_roundup_def BLKSIZE_def PGSIZE_def nblk_def)
  next
    case False
    define k where "k = unat n - 1"
    have k: "unat n = k + 1" "k < 5000000" using False n by (simp_all add: k_def unat_gt_0)
    have n1: "unat (n - 1) = k" using False by (simp add: k_def unat_minus_one)
    have m: "unat ((n - 1) mod BLKSIZE) = k mod 4096" by (simp add: unat_mod n1 BLKSIZE_def PGSIZE_def)
    have a: "unat (n - 1 + BLKSIZE) = k + 4096" using k by (simp add: unat_word_ariths n1 BLKSIZE_def PGSIZE_def)
    have "unat (fm_roundup n) = k + 4096 - k mod 4096" unfolding fm_roundup_def
      using a m by (simp add: unat_sub word_le_nat_alt)
    also have "\<dots> = 4096 * (k div 4096) + 4096"
    proof -
      have "q + r = k \<Longrightarrow> k + 4096 - r = q + 4096" for q r :: nat by simp
      from this[OF mult_div_mod_eq] show ?thesis .
    qed
    also have "\<dots> = 4096 * nblk (unat n)"
    proof -
      have "(k + 1 + 4095) div 4096 = k div 4096 + 1" by simp
      then show ?thesis by (simp add: nblk_def k(1))
    qed
    finally show ?thesis .
  qed
qed

lemma fm_alloc_at:
  assumes "at_block s b" "unat n \<le> 5000000" "b + nblk (unat n) < unat (fm_nblocks s)"
  shows "\<exists>t. fm_alloc n s = Some (DISKMAP + word_of_nat (4096 * b), t) \<and> at_block t (b + nblk (unat n))
    \<and> t = s\<lparr>fm_pos := fm_pos t\<rparr>"
proof -
  have "fm_roundup n = word_of_nat (4096 * nblk (unat n))"
    by (rule nat_word[OF roundup_nat[OF assms(2)]])
  then have p: "fm_pos s + fm_roundup n = DISKMAP + word_of_nat (4096 * (b + nblk (unat n)))"
    using assms(1) by (simp add: at_block_def algebra_simps)
  have le: "b + nblk (unat n) \<le> 3000" using assms by (simp add: at_block_def)
  have "unat (block_of (fm_pos s + fm_roundup n)) = b + nblk (unat n)"
    unfolding p block_of_img[OF le] by (rule small_nat) (use le in simp)
  then have "\<not> fm_nblocks s \<le> block_of (fm_pos s + fm_roundup n)" using assms(3) by (simp add: word_le_nat_alt)
  moreover have "fm_pos s = DISKMAP + word_of_nat (4096 * b)" using assms(1) by (simp add: at_block_def)
  ultimately have "fm_alloc n s = Some (DISKMAP + word_of_nat (4096 * b), s\<lparr>fm_pos := fm_pos s + fm_roundup n\<rparr>)"
    by (simp add: fm_alloc_def Let_def)
  moreover have "at_block (s\<lparr>fm_pos := fm_pos s + fm_roundup n\<rparr>) (b + nblk (unat n))"
    using assms(1,3) p by (simp add: at_block_def del: of_nat_mult)
  ultimately show ?thesis by (intro exI[of _ "s\<lparr>fm_pos := fm_pos s + fm_roundup n\<rparr>"]) simp
qed

text \<open>At the last block the allocator panics although the block is there.\<close>

lemma fm_alloc_last:
  assumes "at_block s b" "unat n \<le> 5000000" "b + nblk (unat n) = unat (fm_nblocks s)"
  shows "fm_alloc n s = None"
proof -
  have "fm_roundup n = word_of_nat (4096 * nblk (unat n))"
    by (rule nat_word[OF roundup_nat[OF assms(2)]])
  then have p: "fm_pos s + fm_roundup n = DISKMAP + word_of_nat (4096 * (b + nblk (unat n)))"
    using assms(1) by (simp add: at_block_def algebra_simps)
  have le: "b + nblk (unat n) \<le> 3000" using assms by (simp add: at_block_def)
  have "unat (block_of (fm_pos s + fm_roundup n)) = b + nblk (unat n)"
    unfolding p block_of_img[OF le] by (rule small_nat) (use le in simp)
  then show ?thesis using assms(3) by (simp add: fm_alloc_def Let_def word_le_nat_alt)
qed

section \<open>The pointers of a file\<close>

lemma field_at: "unat (f :: u32) + 256 \<le> 4294967296 \<Longrightarrow> k < 256 \<Longrightarrow> unat (f + word_of_nat k) = unat f + k"
  by (rule unat_add_nat) simp

lemma fields:
  assumes "unat f + 256 \<le> 4294967296"
  shows "unat (f_size f) = unat f + 128" "unat (f_type f) = unat f + 132" "unat (f_direct f 0) = unat f + 136"
    "unat (f_indirect f) = unat f + 176"
  using field_at[OF assms, of 128] field_at[OF assms, of 132] field_at[OF assms, of 136] field_at[OF assms, of 176]
  by (simp_all add: f_size_def f_type_def f_direct_def f_indirect_def)

lemma finishfile_at:
  assumes at: "at_block s b" and f: "unat f + 256 \<le> 4294967296" and len: "unat len \<le> 1034 * 4096"
    and nb: "nb = nblk (unat len)" and cap: "b + (if 10 \<le> nb then 1 else 0) < unat (fm_nblocks s)"
    and dis: "unat f + 256 \<le> img b \<or> img (b + 1) \<le> unat f"
  shows "\<exists>t. finishfile f start len s = Some t \<and> t = s\<lparr>fm_mem := fm_mem t, fm_pos := fm_pos t\<rparr>
    \<and> at_block t (b + (if 10 \<le> nb then 1 else 0))
    \<and> vword (fm_mem t) (f_size f) = len
    \<and> (\<forall>i < nb. fblock (fm_mem t) f (word_of_nat i) = start + word_of_nat i)
    \<and> (10 \<le> nb \<longrightarrow> vword (fm_mem t) (f_indirect f) = word_of_nat b)
    \<and> (\<forall>x. \<not> (unat f + 128 \<le> unat x \<and> unat x < unat f + 132) \<and> \<not> (unat f + 136 \<le> unat x \<and> unat x < unat f + 180)
         \<and> \<not> (10 \<le> nb \<and> img b \<le> unat x \<and> unat x < img (b + 1)) \<longrightarrow> fm_mem t x = fm_mem s x)"
proof -
  note F = fields[OF f]
  have r: "unat (fm_roundup len div BLKSIZE) = nb"
    using roundup_nat[of len] len nb by (simp add: unat_div BLKSIZE_def PGSIZE_def)
  have nb1034: "nb \<le> 1034" using len nb by (simp add: nblk_def)
  define m0 where "m0 = put_word (fm_mem s) (f_size f) len"
  define m where "m = fill_words (f_direct f 0) start (min nb 10) m0"
  have m0_out: "m0 x = fm_mem s x" if "\<not> (unat f + 128 \<le> unat x \<and> unat x < unat f + 132)" for x
    using that F f by (auto simp: m0_def put_word_out)
  have m_out: "m x = m0 x" if "\<not> (unat f + 136 \<le> unat x \<and> unat x < unat f + 176)" for x
    unfolding m_def by (rule fill_words_out) (use that F f in auto)
  have size: "vword m (f_size f) = len"
  proof -
    have "vword m (f_size f) = vword m0 (f_size f)" by (rule vword_same) (use F f m_out in auto)
    then show ?thesis using F f by (simp add: m0_def vword_here)
  qed
  have dir: "f_direct f (word_of_nat i) = f_direct f 0 + 4 * word_of_nat i" for i by (simp add: f_direct_def)
  have direct: "vword m (f_direct f (word_of_nat i)) = start + word_of_nat i" if "i < min nb 10" for i
    unfolding dir m_def by (rule fill_words_at[OF _ that]) (use F f in simp)
  have lt: "((word_of_nat i :: u32) < NDIRECT) = (i < 10)" if "i < nb" for i
    using that nb1034 by (simp add: NDIRECT_def word_less_nat_alt unat_of_nat take_bit_eq_mod)
  show ?thesis
  proof (cases "nb < 10")
    case True
    let ?t = "s\<lparr>fm_mem := m\<rparr>"
    have "finishfile f start len s = Some ?t" using True r by (simp add: finishfile_def m_def m0_def)
    moreover have "fblock m f (word_of_nat i) = start + word_of_nat i" if "i < nb" for i
      using direct[of i] that True lt[OF that] by (simp add: fblock_def fslot_def)
    moreover have "at_block ?t b" using at by (simp add: at_block_def)
    ultimately show ?thesis using True size m_out m0_out by (intro exI[of _ ?t]) auto
  next
    case False
    then have cap1: "b + 1 < unat (fm_nblocks s)" using cap by simp
    define u where "u = s\<lparr>fm_mem := m\<rparr>"
    have "at_block u b" "unat (BLKSIZE :: u32) = 4096" "nblk 4096 = 1" "fm_nblocks u = fm_nblocks s"
      using at by (simp_all add: at_block_def BLKSIZE_def PGSIZE_def nblk_def u_def)
    with fm_alloc_at[of u b BLKSIZE] cap1 obtain t0 where
      a: "fm_alloc BLKSIZE u = Some (DISKMAP + word_of_nat (4096 * b), t0)" "at_block t0 (b + 1)" "t0 = u\<lparr>fm_pos := fm_pos t0\<rparr>"
      by auto
    have b3: "b \<le> 3000" "b < 1024" using at by (simp_all add: at_block_def)
    let ?ind = "DISKMAP + word_of_nat (4096 * b) :: u32"
    define m1 where "m1 = put_word m (f_indirect f) (word_of_nat b)"
    define m2 where "m2 = fill_words ?ind (start + NDIRECT) (nb - 10) m1"
    have ind: "unat ?ind = img b" by (rule img_addr[OF b3(1)])
    have n4: "4 * (nb - 10) \<le> 4096" using nb1034 by simp
    have m1_out: "m1 x = m x" if "\<not> (unat f + 176 \<le> unat x \<and> unat x < unat f + 180)" for x
      using that F f by (auto simp: m1_def put_word_out)
    have m2_out: "m2 x = m1 x" if "\<not> (img b \<le> unat x \<and> unat x < img (b + 1))" for x
      unfolding m2_def by (rule fill_words_out) (use that ind n4 b3 in auto)
    let ?t = "t0\<lparr>fm_mem := m2\<rparr>"
    have t0: "fm_mem t0 = m" using a(3) u_def by (metis fmt.select_convs(1) fmt.surjective fmt.update_convs(1) fmt.update_convs(2))
    have fin: "finishfile f start len s = Some ?t"
    proof -
      have m10: "fill_words (f_direct f 0) start 10 m0 = m" using False by (simp add: m_def)
      show ?thesis using False r a(1)
        by (simp add: finishfile_def m0_def[symmetric] m10 u_def[symmetric] t0 block_of_img[OF b3(1)] m1_def m2_def Let_def del: of_nat_mult)
    qed
    have in_f: "m2 x = m1 x" if "unat f \<le> unat x" "unat x < unat f + 256" for x
      by (rule m2_out) (use that dis in auto)
    have i2: "vword m2 (f_indirect f) = word_of_nat b"
    proof -
      have "vword m2 (f_indirect f) = vword m1 (f_indirect f)" by (rule vword_same) (use F f in_f in auto)
      then show ?thesis using F f by (simp add: m1_def vword_here)
    qed
    have s2: "vword m2 (f_size f) = len"
    proof -
      have "vword m2 (f_size f) = vword m (f_size f)" by (rule vword_same) (use F f in_f m1_out in auto)
      then show ?thesis using size by simp
    qed
    have blk: "fblock m2 f (word_of_nat i) = start + word_of_nat i" if i: "i < nb" for i
    proof (cases "i < 10")
      case True
      have "unat (f_direct f (word_of_nat i)) = unat f + (136 + 4 * i)"
        using field_at[OF f, of "136 + 4 * i"] True by (simp only: f_direct_offset)
      then have "vword m2 (f_direct f (word_of_nat i)) = vword m (f_direct f (word_of_nat i))"
        using True f in_f m1_out by (intro vword_same) auto
      then show ?thesis using direct[of i] True i lt[OF i] by (simp add: fblock_def fslot_def)
    next
      case False
      have w: "(word_of_nat i :: u32) = NDIRECT + word_of_nat (i - 10)"
        using False by (simp add: NDIRECT_def of_nat_diff)
      have "fslot m2 f (word_of_nat i) = ?ind + 4 * word_of_nat (i - 10)"
      proof -
        have "\<not> (word_of_nat i :: u32) < NDIRECT" using False lt[OF i] by simp
        moreover have "(word_of_nat i :: u32) - NDIRECT = word_of_nat (i - 10)" unfolding w by simp
        moreover have "(word_of_nat b :: u32) * BLKSIZE = word_of_nat (4096 * b)" by (simp add: BLKSIZE_def PGSIZE_def)
        ultimately show ?thesis by (simp only: fslot_def i2 if_False)
      qed
      moreover have "vword m2 (?ind + 4 * word_of_nat (i - 10)) = start + NDIRECT + word_of_nat (i - 10)"
        unfolding m2_def by (rule fill_words_at) (use ind n4 b3 i False in auto)
      ultimately show ?thesis unfolding fblock_def w by (simp only: add.assoc)
    qed
    have "fm_mem ?t x = fm_mem s x" if "\<not> (unat f + 128 \<le> unat x \<and> unat x < unat f + 132)"
      "\<not> (unat f + 136 \<le> unat x \<and> unat x < unat f + 180)" "\<not> (img b \<le> unat x \<and> unat x < img (b + 1))" for x
    proof -
      have "m2 x = m1 x" "m0 x = fm_mem s x" by (rule m2_out m0_out; fact that)+
      moreover have "m1 x = m x" "m x = m0 x" by (rule m1_out m_out; use that(2) in linarith)+
      ultimately show ?thesis by simp
    qed
    moreover have "?t = s\<lparr>fm_mem := fm_mem ?t, fm_pos := fm_pos ?t\<rparr>"
      by (subst a(3)) (simp add: u_def)
    moreover have "at_block ?t (b + 1)" using a(2) by (simp add: at_block_def)
    ultimately show ?thesis using fin False i2 s2 blk by (intro exI[of _ ?t]) auto
  qed
qed

section \<open>One file\<close>

definition file_at :: "(u32 \<Rightarrow> u8) \<Rightarrow> u32 \<Rightarrow> nat \<Rightarrow> u8 list \<Rightarrow> bool" where
  "file_at v f st data \<longleftrightarrow> vword v (f_size f) = word_of_nat (length data)
     \<and> (\<forall>i < nblk (length data). fblock v f (word_of_nat i) = word_of_nat (st + i))
     \<and> (10 \<le> nblk (length data) \<longrightarrow> vword v (f_indirect f) = word_of_nat (st + nblk (length data)))
     \<and> (\<forall>k < length data. fbyte v f k = data ! k)"

definition entry_at :: "(u32 \<Rightarrow> u8) \<Rightarrow> u32 \<Rightarrow> u8 list \<Rightarrow> u32 \<Rightarrow> bool" where
  "entry_at v f name ty \<longleftrightarrow> (\<forall>j < length name. v (f + word_of_nat j) = name ! j) \<and> v (f + word_of_nat (length name)) = 0
     \<and> vword v (f_type f) = ty"

lemma vword_shift:
  assumes "\<And>j. j < 4 \<Longrightarrow> w (g + word_of_nat j) = v (f + word_of_nat j)"
  shows "vword w g = vword v f"
  using assms[of 0] assms[of 1] assms[of 2] assms[of 3] by (simp add: vword_def)

lemma nblk_bounds: "n \<le> 1034 * 4096 \<Longrightarrow> nblk n \<le> 1034" "k < n \<Longrightarrow> k div 4096 < nblk n" "n \<le> 4096 * nblk n"
  by (simp_all add: nblk_def less_eq_Suc_le)

lemma fblock_copy:
  assumes e: "\<And>j. j < 256 \<Longrightarrow> w (g + word_of_nat j) = v (f + word_of_nat j)"
    and b: "\<And>x. img st \<le> unat x \<Longrightarrow> unat x < img (st + used n) \<Longrightarrow> w x = v x"
    and ind: "10 \<le> nblk n \<Longrightarrow> vword v (f_indirect f) = word_of_nat (st + nblk n)"
    and i: "i < nblk n" and n: "n \<le> 1034 * 4096" and st: "st + used n \<le> 3000"
  shows "fblock w g (word_of_nat i) = fblock v f (word_of_nat i)" "vword w (f_indirect g) = vword v (f_indirect f)"
proof -
  have off: "vword w (g + word_of_nat k) = vword v (f + word_of_nat k)" if "k + 4 \<le> 256" for k
    by (rule vword_shift) (use e[of "k + j" for j] that in \<open>simp add: add.assoc\<close>)
  show iw: "vword w (f_indirect g) = vword v (f_indirect f)" using off[of 176] by (simp add: f_indirect_def)
  have i1034: "i < 1034" using i nblk_bounds(1)[OF n] by simp
  have lt: "((word_of_nat i :: u32) < NDIRECT) = (i < 10)"
    using i1034 by (simp add: NDIRECT_def word_less_nat_alt small_nat)
  show "fblock w g (word_of_nat i) = fblock v f (word_of_nat i)"
  proof (cases "i < 10")
    case True
    have "vword w (f_direct g (word_of_nat i)) = vword v (f_direct f (word_of_nat i))"
      unfolding f_direct_offset[OF True] by (rule off) (use True in simp)
    then show ?thesis using True lt by (simp add: fblock_def fslot_def)
  next
    case False
    let ?ind = "DISKMAP + word_of_nat (4096 * (st + nblk n)) :: u32"
    have u: "used n = nblk n + 1" using False i by (simp add: used_def)
    have a: "unat ?ind = img (st + nblk n)" by (rule img_addr) (use st u in simp)
    have w: "(word_of_nat i :: u32) = NDIRECT + word_of_nat (i - 10)" using False by (simp add: NDIRECT_def of_nat_diff)
    have sl: "fslot x h (word_of_nat i) = ?ind + 4 * word_of_nat (i - 10)"
      if "vword x (f_indirect h) = word_of_nat (st + nblk n)" for x h
    proof -
      have "\<not> (word_of_nat i :: u32) < NDIRECT" using False lt by simp
      moreover have "(word_of_nat i :: u32) - NDIRECT = word_of_nat (i - 10)" unfolding w by simp
      moreover have "(word_of_nat (st + nblk n) :: u32) * BLKSIZE = word_of_nat (4096 * (st + nblk n))" by (simp add: BLKSIZE_def PGSIZE_def)
      ultimately show ?thesis by (simp only: fslot_def that if_False)
    qed
    have iv: "vword v (f_indirect f) = word_of_nat (st + nblk n)" using ind False i by simp
    have s: "unat (?ind + 4 * word_of_nat (i - 10)) = img (st + nblk n) + 4 * (i - 10)"
      using unat_slot[of ?ind "i - 10"] a i1034 st u by simp
    have "vword w (?ind + 4 * word_of_nat (i - 10)) = vword v (?ind + 4 * word_of_nat (i - 10))"
      by (rule vword_same) (use s b u i1034 False st in auto)
    then show ?thesis using sl[OF iv] sl[OF trans[OF iw iv]] by (simp add: fblock_def)
  qed
qed

lemma fbyte_place:
  assumes fb: "fblock v f (word_of_nat (k div 4096)) = word_of_nat (st + k div 4096)" and st: "st + k div 4096 \<le> 3000"
  shows "fbyte v f k = v (DISKMAP + word_of_nat (4096 * st + k))" "unat (DISKMAP + word_of_nat (4096 * st + k)) = img st + k"
proof -
  have "(word_of_nat (st + k div 4096) :: u32) * BLKSIZE = word_of_nat (4096 * (st + k div 4096))" by (simp add: BLKSIZE_def PGSIZE_def)
  then have a: "DISKMAP + word_of_nat (st + k div 4096) * BLKSIZE + word_of_nat (k mod 4096)
      = DISKMAP + word_of_nat (4096 * (st + k div 4096) + k mod 4096)"
    by (simp only: of_nat_add add.assoc)
  have "4096 * (st + k div 4096) + k mod 4096 = 4096 * st + k" by simp
  then show "fbyte v f k = v (DISKMAP + word_of_nat (4096 * st + k))"
    unfolding fbyte_def fb a by (rule arg_cong)
  show "unat (DISKMAP + word_of_nat (4096 * st + k)) = img st + k"
    using unat_add_nat[of DISKMAP "4096 * st + k"] st by (simp add: DISKMAP_def del: of_nat_add)
qed

lemma file_copy:
  assumes F: "file_at v f st data" and n: "length data \<le> 1034 * 4096" and st: "st + used (length data) \<le> 3000"
    and e: "\<And>j. j < 256 \<Longrightarrow> w (g + word_of_nat j) = v (f + word_of_nat j)"
    and b: "\<And>x. img st \<le> unat x \<Longrightarrow> unat x < img (st + used (length data)) \<Longrightarrow> w x = v x"
  shows "file_at w g st data"
proof -
  have ind: "10 \<le> nblk (length data) \<Longrightarrow> vword v (f_indirect f) = word_of_nat (st + nblk (length data))"
    using F by (simp add: file_at_def)
  have C: "fblock w g (word_of_nat i) = fblock v f (word_of_nat i)" "vword w (f_indirect g) = vword v (f_indirect f)"
    if "i < nblk (length data)" for i
    by (intro fblock_copy[where n = "length data" and st = st and w = w and v = v and g = g and f = f and i = i] that n st ind e b; assumption)+
  have fb: "fblock v f (word_of_nat i) = word_of_nat (st + i)" if "i < nblk (length data)" for i
    using F that by (simp add: file_at_def)
  have fw: "fblock w g (word_of_nat i) = word_of_nat (st + i)" if "i < nblk (length data)" for i
    using C(1)[OF that] fb[OF that] by simp
  have "vword w (f_size g) = vword v (f_size f)" unfolding f_size_def
    by (rule vword_shift) (use e[of "128 + j" for j] in \<open>simp add: add.assoc\<close>)
  moreover have "vword w (f_indirect g) = vword v (f_indirect f)" if "10 \<le> nblk (length data)"
    by (rule C(2)[of 0]) (use that in auto)
  moreover have "fbyte w g k = data ! k" if k: "k < length data" for k
  proof -
    have kb: "k div 4096 < nblk (length data)" by (rule nblk_bounds(2)[OF k])
    have le: "st + k div 4096 \<le> 3000" using kb st by (simp add: used_def)
    note P = fbyte_place[OF fb[OF kb] le] fbyte_place[OF fw[OF kb] le]
    have "img st + k < img (st + used (length data))" using k nblk_bounds(3)[of "length data"] by (simp add: used_def)
    then have "w (DISKMAP + word_of_nat (4096 * st + k)) = v (DISKMAP + word_of_nat (4096 * st + k))"
      using b[of "DISKMAP + word_of_nat (4096 * st + k)"] unfolding P(2) by simp
    then show ?thesis using P(1,3) F k by (simp add: file_at_def)
  qed
  ultimately show ?thesis using F fw by (simp add: file_at_def)
qed

lemma entry_copy:
  assumes F: "entry_at v f name ty" and n: "length name < 128" and e: "\<And>j. j < 256 \<Longrightarrow> w (g + word_of_nat j) = v (f + word_of_nat j)"
  shows "entry_at w g name ty"
proof -
  have "vword w (f_type g) = vword v (f_type f)" unfolding f_type_def
    by (rule vword_shift) (use e[of "132 + j" for j] in \<open>simp add: add.assoc\<close>)
  moreover have "w (g + word_of_nat j) = v (f + word_of_nat j)" if "j \<le> length name" for j using that n by (intro e) simp
  ultimately show ?thesis using F unfolding entry_at_def by simp
qed

lemma host_readn_length: "host_readn n rs = Some bs \<Longrightarrow> length bs = n"
proof (induction n rs arbitrary: bs rule: host_readn.induct)
  case (3 n r rs)
  from "3.prems" have c: "\<not> (r = [] \<or> Suc n < length r)" by (simp split: if_splits)
  with "3.prems" obtain bs' where b: "host_readn (Suc n - length r) rs = Some bs'" "bs = r @ bs'" by auto
  show ?case using "3.IH"[OF c b(1)] b(2) c by simp
qed simp_all


text \<open>The address of an entry.\<close>

lemma ent_addr:
  assumes "unat (ents :: u32) + 32768 \<le> 268435456" "n < 128"
  shows "unat (ents + word_of_nat (256 * n)) = unat ents + 256 * n"
  by (rule unat_add_nat) (use assms in simp)

lemma byte_at: "unat (a :: u32) + length bs \<le> 4294967296 \<Longrightarrow> j < length bs \<Longrightarrow> put_bytes v a bs (a + word_of_nat j) = bs ! j"
  using unat_add_nat[of a j] by (simp add: put_bytes_at)

text \<open>Nothing but the given ranges has changed.\<close>

definition apart :: "(u32 \<Rightarrow> u8) \<Rightarrow> (u32 \<Rightarrow> u8) \<Rightarrow> nat \<Rightarrow> nat \<Rightarrow> nat \<Rightarrow> nat \<Rightarrow> bool" where
  "apart v w a b c d \<longleftrightarrow> (\<forall>x. \<not> (a \<le> unat x \<and> unat x < b) \<and> \<not> (c \<le> unat x \<and> unat x < d) \<longrightarrow> w x = v x)"

lemma writefile_at:
  assumes at: "at_block s b" and ents: "unat (fm_ents s) + 32768 \<le> 268435456" and n: "fm_n s < 128"
    and nm: "length (base_name (hf_path h)) < 128" and rd: "host_readn (hf_size h) (hf_reads h) = Some data"
    and sz: "hf_size h < MAXFILESIZE" and cap: "b + used (hf_size h) < unat (fm_nblocks s)"
  shows "\<exists>t. writefile h s = Some t \<and> t = s\<lparr>fm_mem := fm_mem t, fm_pos := fm_pos t, fm_n := fm_n s + 1\<rparr>
    \<and> at_block t (b + used (hf_size h))
    \<and> file_at (fm_mem t) (fm_ents s + word_of_nat (256 * fm_n s)) b data
    \<and> entry_at (fm_mem t) (fm_ents s + word_of_nat (256 * fm_n s)) (base_name (hf_path h)) FTYPE_REG
    \<and> apart (fm_mem s) (fm_mem t) (unat (fm_ents s) + 256 * fm_n s) (unat (fm_ents s) + 256 * (fm_n s + 1))
        (img b) (img (b + used (hf_size h)))"
proof -
  let ?f = "fm_ents s + word_of_nat (256 * fm_n s)" and ?name = "base_name (hf_path h)" and ?len = "word_of_nat (hf_size h) :: u32"
  have fa: "unat ?f = unat (fm_ents s) + 256 * fm_n s" by (rule ent_addr[OF ents n])
  have f256: "unat ?f + 256 \<le> 4294967296" "unat ?f + 256 \<le> 268435456" using fa ents n by simp_all
  have len: "unat ?len = hf_size h" by (rule small_nat) (use sz in \<open>simp add: MAXFILESIZE_def\<close>)
  have l5: "unat ?len \<le> 5000000" "unat ?len \<le> 1034 * 4096" using len sz by (simp_all add: MAXFILESIZE_def)
  have dl: "length data = hf_size h" by (rule host_readn_length[OF rd])
  define m0 where "m0 = put_word (put_bytes (fm_mem s) ?f (?name @ [0])) (f_type ?f) FTYPE_REG"
  define s0 where "s0 = s\<lparr>fm_mem := m0, fm_n := fm_n s + 1\<rparr>"
  have add: "diradd FTYPE_REG ?name s = Some (?f, s0)"
    using n nm by (simp add: diradd_def s0_def m0_def MAX_DIR_ENTS_def Let_def)
  have at0: "at_block s0 b" using at by (simp add: at_block_def s0_def)
  have cap0: "b + nblk (unat ?len) < unat (fm_nblocks s0)" using cap len by (simp add: used_def s0_def)
  from fm_alloc_at[OF at0 l5(1) cap0] obtain s1 where
    al: "fm_alloc ?len s0 = Some (DISKMAP + word_of_nat (4096 * b), s1)" "at_block s1 (b + nblk (hf_size h))" "s1 = s0\<lparr>fm_pos := fm_pos s1\<rparr>"
    by (auto simp: len)
  define m1 where "m1 = put_bytes m0 (DISKMAP + word_of_nat (4096 * b)) data"
  have s1m: "fm_mem s1 = m0" "fm_n s1 = fm_n s + 1" "fm_ents s1 = fm_ents s" "fm_nblocks s1 = fm_nblocks s"
    by (subst al(3), simp add: s0_def)+
  define s2 where "s2 = s1\<lparr>fm_mem := m1\<rparr>"
  have b3: "b \<le> 3000" "b + used (hf_size h) \<le> 3000" using at cap by (simp_all add: at_block_def)
  have ia: "unat (DISKMAP + word_of_nat (4096 * b)) = img b" by (rule img_addr[OF b3(1)])
  have at2: "at_block s2 (b + nblk (hf_size h))" using al(2) by (simp add: at_block_def s2_def)
  have cap2: "b + nblk (hf_size h) + (if 10 \<le> nblk (hf_size h) then 1 else 0) < unat (fm_nblocks s2)"
    using cap by (simp add: used_def s2_def s1m split: if_splits)
  from finishfile_at[OF at2 f256(1) l5(2) _ cap2, of "word_of_nat b"] f256(2) len obtain t where
    fin: "finishfile ?f (word_of_nat b) ?len s2 = Some t" and t: "t = s2\<lparr>fm_mem := fm_mem t, fm_pos := fm_pos t\<rparr>"
    and att: "at_block t (b + nblk (hf_size h) + (if 10 \<le> nblk (hf_size h) then 1 else 0))"
    and size: "vword (fm_mem t) (f_size ?f) = ?len"
    and blk: "\<forall>i < nblk (hf_size h). fblock (fm_mem t) ?f (word_of_nat i) = word_of_nat b + word_of_nat i"
    and ind: "10 \<le> nblk (hf_size h) \<longrightarrow> vword (fm_mem t) (f_indirect ?f) = word_of_nat (b + nblk (hf_size h))"
    and fr: "\<forall>x. \<not> (unat ?f + 128 \<le> unat x \<and> unat x < unat ?f + 132) \<and> \<not> (unat ?f + 136 \<le> unat x \<and> unat x < unat ?f + 180)
         \<and> \<not> (10 \<le> nblk (hf_size h) \<and> img (b + nblk (hf_size h)) \<le> unat x \<and> unat x < img (b + nblk (hf_size h) + 1)) \<longrightarrow> fm_mem t x = m1 x"
    by (auto simp: s2_def)
  have w: "writefile h s = Some t"
    using sz add al(1) rd fin by (simp add: writefile_def s1m(1) block_of_img[OF b3(1)] m1_def[symmetric] s2_def[symmetric] del: of_nat_mult)
  have d4: "length data \<le> 4096 * nblk (hf_size h)" using nblk_bounds(3)[of "length data"] dl by simp
  have m1_out: "m1 x = m0 x" if "\<not> (img b \<le> unat x \<and> unat x < img b + length data)" for x
    using that ia b3 d4 by (subst m1_def, subst put_bytes_at) (auto simp: used_def)
  show ?thesis
  proof (intro exI[of _ t] conjI)
    show "writefile h s = Some t" by (rule w)
    show "t = s\<lparr>fm_mem := fm_mem t, fm_pos := fm_pos t, fm_n := fm_n s + 1\<rparr>"
      by (subst t, simp add: s2_def, subst al(3), simp add: s0_def)
    show "at_block t (b + used (hf_size h))" using att by (simp add: used_def add.assoc)
    have low: "fm_mem t x = m0 x" if "unat ?f \<le> unat x" "unat x < unat ?f + 128 \<or> unat ?f + 132 \<le> unat x \<and> unat x < unat ?f + 136" for x
    proof -
      have "fm_mem t x = m1 x" using that f256 by (intro fr[rule_format]) auto
      moreover have "m1 x = m0 x" using that f256 by (intro m1_out) auto
      ultimately show ?thesis by simp
    qed
    note F = fields[OF f256(1)]
    have nb: "put_bytes (fm_mem s) ?f (?name @ [0]) (?f + word_of_nat j) = (?name @ [0]) ! j" if "j \<le> length ?name" for j
      using that nm f256 by (intro byte_at) simp_all
    have nb2: "fm_mem t (?f + word_of_nat j) = (?name @ [0]) ! j" if "j \<le> length ?name" for j
    proof -
      have a: "unat (?f + word_of_nat j) = unat ?f + j" using that nm by (intro field_at[OF f256(1)]) simp
      have "fm_mem t (?f + word_of_nat j) = m0 (?f + word_of_nat j)" using that nm a by (intro low) simp_all
      also have "\<dots> = put_bytes (fm_mem s) ?f (?name @ [0]) (?f + word_of_nat j)"
        unfolding m0_def using that nm a F f256 by (intro put_word_out) simp_all
      finally show ?thesis using nb[OF that] by simp
    qed
    have "vword (fm_mem t) (f_type ?f) = vword m0 (f_type ?f)" by (rule vword_same) (use F f256 low in auto)
    also have "\<dots> = FTYPE_REG" using F f256 by (simp add: m0_def vword_here)
    finally have ty: "vword (fm_mem t) (f_type ?f) = FTYPE_REG" .
    show "entry_at (fm_mem t) ?f ?name FTYPE_REG"
      unfolding entry_at_def using nb2 ty by (auto simp: nth_append)
    have fb: "fblock (fm_mem t) ?f (word_of_nat i) = word_of_nat (b + i)" if "i < nblk (hf_size h)" for i using blk that by simp
    have "fbyte (fm_mem t) ?f k = data ! k" if k: "k < length data" for k
    proof -
      have kb: "k div 4096 < nblk (hf_size h)" using nblk_bounds(2)[OF k] dl by simp
      have le: "b + k div 4096 \<le> 3000" using kb b3 by (simp add: used_def)
      note P = fbyte_place[OF fb[OF kb] le]
      have kk: "img b + k < img (b + nblk (hf_size h))" using k d4 by simp
      have "fm_mem t (DISKMAP + word_of_nat (4096 * b + k)) = m1 (DISKMAP + word_of_nat (4096 * b + k))"
        by (rule fr[rule_format]) (unfold P(2), use kk f256 in auto)
      also have "\<dots> = data ! k"
        using k ia P(2) b3 d4 by (subst m1_def, subst put_bytes_at) (auto simp: used_def)
      finally show ?thesis using P(1) by simp
    qed
    then show "file_at (fm_mem t) ?f b data" using size fb ind dl by (simp add: file_at_def)
    show "apart (fm_mem s) (fm_mem t) (unat (fm_ents s) + 256 * fm_n s) (unat (fm_ents s) + 256 * (fm_n s + 1)) (img b) (img (b + used (hf_size h)))"
      unfolding apart_def
    proof (intro allI impI)
      fix x :: u32 assume x: "\<not> (unat (fm_ents s) + 256 * fm_n s \<le> unat x \<and> unat x < unat (fm_ents s) + 256 * (fm_n s + 1)) \<and>
        \<not> (img b \<le> unat x \<and> unat x < img (b + used (hf_size h)))"
      then have o1: "unat x < unat ?f \<or> unat ?f + 256 \<le> unat x" using fa by auto
      have "fm_mem t x = m1 x" using x o1 by (intro fr[rule_format]) (auto simp: used_def)
      also have "\<dots> = m0 x" using x d4 by (intro m1_out) (auto simp: used_def)
      also have "\<dots> = put_bytes (fm_mem s) ?f (?name @ [0]) x" unfolding m0_def using o1 F f256 by (intro put_word_out) auto
      also have "\<dots> = fm_mem s x" using o1 nm f256 by (subst put_bytes_at) auto
      finally show "fm_mem t x = fm_mem s x" .
    qed
  qed
qed

section \<open>All files\<close>

definition start_of :: "nat \<Rightarrow> u8 list list \<Rightarrow> nat \<Rightarrow> nat" where
  "start_of b ds i = b + sum_list (map (\<lambda>d. used (length d)) (take i ds))"

lemma start_of_simps [simp]: "start_of b ds 0 = b" "start_of b [] i = b"
  "start_of b (d # ds) (Suc i) = start_of (b + used (length d)) ds i"
  by (simp_all add: start_of_def)

lemma start_of_grows: "i < length ds \<Longrightarrow> start_of b ds i + used (length (ds ! i)) = start_of b ds (Suc i)"
  by (simp add: start_of_def take_Suc_conv_app_nth)

lemma start_of_mono: "i \<le> j \<Longrightarrow> start_of b ds i \<le> start_of b ds j"
proof -
  assume "i \<le> j"
  then have "take j ds = take i ds @ take (j - i) (drop i ds)" by (metis le_add_diff_inverse take_add)
  then show ?thesis by (simp add: start_of_def)
qed

definition listed :: "(u32 \<Rightarrow> u8) \<Rightarrow> u32 \<Rightarrow> nat \<Rightarrow> nat \<Rightarrow> hfile list \<Rightarrow> u8 list list \<Rightarrow> bool" where
  "listed v ents n b hs ds \<longleftrightarrow> (\<forall>i < length hs.
     file_at v (ents + word_of_nat (256 * (n + i))) (start_of b ds i) (ds ! i)
     \<and> entry_at v (ents + word_of_nat (256 * (n + i))) (base_name (hf_path (hs ! i))) FTYPE_REG)"

lemma keep_file:
  assumes F: "file_at v f st data" "entry_at v f name ty" and ap: "apart v w a a' c c'"
    and f: "unat f + 256 \<le> a \<or> a' \<le> unat f" "unat f + 256 \<le> c" "unat f + 256 \<le> 4294967296"
    and b: "a' \<le> img st" "img (st + used (length data)) \<le> c \<or> c' \<le> img st"
    and n: "length data \<le> 1034 * 4096" "st + used (length data) \<le> 3000" "length name < 128"
  shows "file_at w f st data" "entry_at w f name ty"
proof -
  have e: "w (f + word_of_nat j) = v (f + word_of_nat j)" if "j < 256" for j
    using field_at[OF f(3) that] f that ap[unfolded apart_def, rule_format, of "f + word_of_nat j"] by linarith
  have bl: "w x = v x" if "img st \<le> unat x" "unat x < img (st + used (length data))" for x
    using that b ap[unfolded apart_def, rule_format, of x] by linarith
  show "file_at w f st data" by (rule file_copy[OF F(1) n(1,2) e bl])
  show "entry_at w f name ty" by (rule entry_copy[OF F(2) n(3) e])
qed

lemma writefiles_at:
  assumes "at_block s b" "unat (fm_ents s) + 32768 \<le> 268435456" "fm_n s + length hs \<le> 128"
    and "\<forall>h \<in> set hs. length (base_name (hf_path h)) < 128 \<and> hf_size h < MAXFILESIZE"
    and "map (\<lambda>h. host_readn (hf_size h) (hf_reads h)) hs = map Some ds"
    and "start_of b ds (length ds) < unat (fm_nblocks s)"
  shows "\<exists>t. writefiles hs s = Some t \<and> t = s\<lparr>fm_mem := fm_mem t, fm_pos := fm_pos t, fm_n := fm_n s + length hs\<rparr>
    \<and> at_block t (start_of b ds (length ds)) \<and> listed (fm_mem t) (fm_ents s) (fm_n s) b hs ds
    \<and> apart (fm_mem s) (fm_mem t) (unat (fm_ents s) + 256 * fm_n s) (unat (fm_ents s) + 256 * (fm_n s + length hs))
        (img b) (img (start_of b ds (length ds)))"
  using assms
proof (induction hs arbitrary: s b ds)
  case Nil
  then show ?case by (intro exI[of _ s]) (auto simp: listed_def apart_def)
next
  case (Cons h hs)
  from Cons.prems(5) obtain d ds' where ds: "ds = d # ds'" and rd: "host_readn (hf_size h) (hf_reads h) = Some d"
    and rds: "map (\<lambda>h. host_readn (hf_size h) (hf_reads h)) hs = map Some ds'"
    by (cases ds) auto
  have dl: "length d = hf_size h" by (rule host_readn_length[OF rd])
  have n: "fm_n s < 128" and h: "length (base_name (hf_path h)) < 128" "hf_size h < MAXFILESIZE" using Cons.prems(3,4) by simp_all
  have ge: "b + used (hf_size h) \<le> start_of (b + used (hf_size h)) ds' (length ds')" by (simp add: start_of_def)
  have cap: "start_of (b + used (hf_size h)) ds' (length ds') < unat (fm_nblocks s)" using Cons.prems(6) by (simp add: ds dl)
  then have cap1: "b + used (hf_size h) < unat (fm_nblocks s)" using ge by simp
  from writefile_at[OF Cons.prems(1,2) n h(1) rd h(2) cap1] obtain s1 where
    s1: "writefile h s = Some s1" "s1 = s\<lparr>fm_mem := fm_mem s1, fm_pos := fm_pos s1, fm_n := fm_n s + 1\<rparr>"
    "at_block s1 (b + used (hf_size h))" "file_at (fm_mem s1) (fm_ents s + word_of_nat (256 * fm_n s)) b d"
    "entry_at (fm_mem s1) (fm_ents s + word_of_nat (256 * fm_n s)) (base_name (hf_path h)) FTYPE_REG"
    "apart (fm_mem s) (fm_mem s1) (unat (fm_ents s) + 256 * fm_n s) (unat (fm_ents s) + 256 * (fm_n s + 1)) (img b) (img (b + used (hf_size h)))"
    by blast
  have e1: "fm_ents s1 = fm_ents s" "fm_n s1 = fm_n s + 1" "fm_nblocks s1 = fm_nblocks s" by (subst s1(2), simp)+
  from Cons.IH[OF s1(3), of ds'] Cons.prems(2,3,4) rds cap e1 obtain t where
    t: "writefiles hs s1 = Some t" "t = s1\<lparr>fm_mem := fm_mem t, fm_pos := fm_pos t, fm_n := fm_n s1 + length hs\<rparr>"
    "at_block t (start_of (b + used (hf_size h)) ds' (length ds'))" "listed (fm_mem t) (fm_ents s) (fm_n s + 1) (b + used (hf_size h)) hs ds'"
    "apart (fm_mem s1) (fm_mem t) (unat (fm_ents s) + 256 * (fm_n s + 1)) (unat (fm_ents s) + 256 * (fm_n s + 1 + length hs))
       (img (b + used (hf_size h))) (img (start_of (b + used (hf_size h)) ds' (length ds')))"
    by auto
  let ?f = "fm_ents s + word_of_nat (256 * fm_n s)"
  have fa: "unat ?f = unat (fm_ents s) + 256 * fm_n s" by (rule ent_addr[OF Cons.prems(2) n])
  have b3: "b + used (hf_size h) \<le> 3000" using s1(3) by (simp add: at_block_def)
  have "unat ?f + 256 \<le> unat (fm_ents s) + 256 * (fm_n s + 1)" "unat ?f + 256 \<le> img (b + used (hf_size h))" "unat ?f + 256 \<le> 4294967296"
    "unat (fm_ents s) + 256 * (fm_n s + 1 + length hs) \<le> img b"
    using fa n Cons.prems(2,3) by simp_all
  note K = keep_file[OF s1(4,5) t(5) disjI1[OF this(1)] this(2,3,4)]
  have k: "file_at (fm_mem t) ?f b d" "entry_at (fm_mem t) ?f (base_name (hf_path h)) FTYPE_REG"
    using K h b3 dl by (simp_all add: MAXFILESIZE_def)
  have st: "start_of b ds (length ds) = start_of (b + used (hf_size h)) ds' (length ds')" by (simp add: ds dl)
  show ?case
  proof (intro exI[of _ t] conjI)
    show "writefiles (h # hs) s = Some t" using s1(1) t(1) by simp
    show "t = s\<lparr>fm_mem := fm_mem t, fm_pos := fm_pos t, fm_n := fm_n s + length (h # hs)\<rparr>"
      by (subst t(2), subst s1(2), simp add: e1)
    show "at_block t (start_of b ds (length ds))" unfolding st by (rule t(3))
    show "listed (fm_mem t) (fm_ents s) (fm_n s) b (h # hs) ds"
      unfolding listed_def
    proof (intro allI impI)
      fix i assume i: "i < length (h # hs)"
      show "file_at (fm_mem t) (fm_ents s + word_of_nat (256 * (fm_n s + i))) (start_of b ds i) (ds ! i)
        \<and> entry_at (fm_mem t) (fm_ents s + word_of_nat (256 * (fm_n s + i))) (base_name (hf_path ((h # hs) ! i))) FTYPE_REG"
      proof (cases i)
        case 0
        then show ?thesis using k by (simp add: ds del: of_nat_mult)
      next
        case (Suc j)
        then have "j < length hs" "fm_n s + i = fm_n s + 1 + j" using i by simp_all
        then show ?thesis using t(4) Suc by (simp add: listed_def ds dl del: of_nat_mult of_nat_add)
      qed
    qed
    show "apart (fm_mem s) (fm_mem t) (unat (fm_ents s) + 256 * fm_n s) (unat (fm_ents s) + 256 * (fm_n s + length (h # hs)))
        (img b) (img (start_of b ds (length ds)))"
      unfolding apart_def
    proof (intro allI impI)
      fix x :: u32
      assume x: "\<not> (unat (fm_ents s) + 256 * fm_n s \<le> unat x \<and> unat x < unat (fm_ents s) + 256 * (fm_n s + length (h # hs))) \<and>
        \<not> (img b \<le> unat x \<and> unat x < img (start_of b ds (length ds)))"
      have "fm_mem t x = fm_mem s1 x" using x ge by (intro t(5)[unfolded apart_def, rule_format]) (auto simp: st)
      also have "\<dots> = fm_mem s x" using x ge by (intro s1(6)[unfolded apart_def, rule_format]) (auto simp: st)
      finally show "fm_mem t x = fm_mem s x" .
    qed
  qed
qed

section \<open>The bitmap\<close>

lemma clear_bit_in_bits:
  assumes bm: "unat bm + 4096 \<le> 4294967296" and i: "i < 32768" and j: "j < 32768"
  shows "bit (vword (clear_bit_in bm m i) (bm + 4 * (word_of_nat j div 32))) (unat ((word_of_nat j :: u32) mod 32))
    \<longleftrightarrow> j \<noteq> i \<and> bit (vword m (bm + 4 * (word_of_nat j div 32))) (unat ((word_of_nat j :: u32) mod 32))"
    and "unat x < unat bm \<or> unat bm + 4096 \<le> unat x \<Longrightarrow> clear_bit_in bm m i x = m x"
proof -
  have u: "unat (word_of_nat k :: u32) = k" if "k < 32768" for k using that by (intro small_nat) simp
  have d: "(word_of_nat k :: u32) div 32 = word_of_nat (k div 32)" "unat ((word_of_nat k :: u32) mod 32) = k mod 32" if "k < 32768" for k
  proof -
    have "unat ((word_of_nat k :: u32) div 32) = k div 32" using u[OF that] by (simp add: unat_div)
    then show "(word_of_nat k :: u32) div 32 = word_of_nat (k div 32)" by (rule nat_word)
    show "unat ((word_of_nat k :: u32) mod 32) = k mod 32" using u[OF that] by (simp add: unat_mod)
  qed
  have a: "unat (bm + 4 * word_of_nat (k div 32)) = unat bm + 4 * (k div 32)" if "k < 32768" for k
    using that bm by (intro unat_slot) simp
  have four: "4 * (k div 32) + 4 \<le> 4096" if "k < 32768" for k :: nat using that by simp
  show "unat x < unat bm \<or> unat bm + 4096 \<le> unat x \<Longrightarrow> clear_bit_in bm m i x = m x"
    using a[OF i] four[OF i] bm by (auto simp: clear_bit_in_def d[OF i] Let_def put_word_out)
  show "bit (vword (clear_bit_in bm m i) (bm + 4 * (word_of_nat j div 32))) (unat ((word_of_nat j :: u32) mod 32))
    \<longleftrightarrow> j \<noteq> i \<and> bit (vword m (bm + 4 * (word_of_nat j div 32))) (unat ((word_of_nat j :: u32) mod 32))"
  proof (cases "j div 32 = i div 32")
    case True
    have ij: "(j = i) = (j mod 32 = i mod 32)" using True by (metis mult_div_mod_eq)
    have "j mod 32 < 32" by simp
    then show ?thesis using a[OF i] four[OF i] bm True
      by (simp add: clear_bit_in_def d[OF i] d[OF j] Let_def vword_here bit_and_iff bit_not_iff bit_bit_mask ij) auto
  next
    case False
    then have "4 * (j div 32) + 4 \<le> 4 * (i div 32) \<or> 4 * (i div 32) + 4 \<le> 4 * (j div 32)" by linarith
    then have "vword (clear_bit_in bm m i) (bm + 4 * word_of_nat (j div 32)) = vword m (bm + 4 * word_of_nat (j div 32))"
      unfolding clear_bit_in_def d[OF i] Let_def
      by (intro vword_out) (use a[OF i] a[OF j] four[OF i] four[OF j] bm in linarith)+
    then show ?thesis using False by (auto simp: d[OF j])
  qed
qed

lemma clear_bits:
  assumes bm: "unat bm + 4096 \<le> 4294967296" and n: "n \<le> 32768"
  shows "j < 32768 \<Longrightarrow> bit (vword (foldl (clear_bit_in bm) m [0..<n]) (bm + 4 * (word_of_nat j div 32))) (unat ((word_of_nat j :: u32) mod 32))
    \<longleftrightarrow> n \<le> j \<and> bit (vword m (bm + 4 * (word_of_nat j div 32))) (unat ((word_of_nat j :: u32) mod 32))"
    and "unat x < unat bm \<or> unat bm + 4096 \<le> unat x \<Longrightarrow> foldl (clear_bit_in bm) m [0..<n] x = m x"
proof -
  show "j < 32768 \<Longrightarrow> bit (vword (foldl (clear_bit_in bm) m [0..<n]) (bm + 4 * (word_of_nat j div 32))) (unat ((word_of_nat j :: u32) mod 32))
    \<longleftrightarrow> n \<le> j \<and> bit (vword m (bm + 4 * (word_of_nat j div 32))) (unat ((word_of_nat j :: u32) mod 32))"
    using n
  proof (induction n)
    case (Suc n)
    have "n < 32768" "n \<le> 32768" using Suc.prems(2) by simp_all
    then show ?case using clear_bit_in_bits(1)[OF bm _ Suc.prems(1), of n "foldl (clear_bit_in bm) m [0..<n]"] Suc.IH[OF Suc.prems(1)] by auto
  qed simp
  show "unat x < unat bm \<or> unat bm + 4096 \<le> unat x \<Longrightarrow> foldl (clear_bit_in bm) m [0..<n] x = m x"
    using n
  proof (induction n)
    case (Suc n)
    have "n < 32768" "n \<le> 32768" using Suc.prems(2) by simp_all
    then show ?case using clear_bit_in_bits(2)[OF bm _ _ Suc.prems(1), of n 0] Suc.IH[OF Suc.prems(1)] by simp
  qed simp
qed

section \<open>The whole image\<close>

abbreviation root_file :: u32 where "root_file \<equiv> 0x10001008"

lemma bitmap_blocks: "4 \<le> unat nbl \<Longrightarrow> unat nbl \<le> 1024 \<Longrightarrow> ((nbl :: u32) + BLKBITSIZE - 1) div BLKBITSIZE = 1"
proof -
  assume n: "4 \<le> unat nbl" "unat nbl \<le> 1024"
  have "unat (nbl + 32768 - 1) = unat nbl + 32767"
    using n unat_add_nat[of nbl 32767] by (simp add: add.commute)
  then have "unat ((nbl + 32768 - 1) div 32768) = 1" using n by (simp add: unat_div)
  then have "(nbl + 32768 - 1) div 32768 = 1" by (simp add: word_unat_eq_iff)
  then show ?thesis by (simp add: BLKBITSIZE_def BLKSIZE_def PGSIZE_def)
qed

lemma opendisk_at:
  assumes "4 \<le> unat nbl" "unat nbl \<le> 1024"
  shows "\<exists>s. opendisk nbl ents heap = Some s \<and> at_block s 3 \<and> fm_nblocks s = nbl \<and> fm_super s = 0x10001000
    \<and> fm_bitmap s = 0x10002000 \<and> fm_ents s = ents \<and> fm_n s = 0
    \<and> vword (fm_mem s) 0x10001000 = FS_MAGIC \<and> vword (fm_mem s) 0x10001004 = nbl
    \<and> vword (fm_mem s) (f_type root_file) = FTYPE_DIR \<and> fm_mem s root_file = 47 \<and> fm_mem s (root_file + 1) = 0
    \<and> (\<forall>x. img 2 \<le> unat x \<and> unat x < img 3 \<longrightarrow> fm_mem s x = 255)"
proof -
  define m0 where "m0 = (\<lambda>a :: u32. if unat (a - DISKMAP) < 4096 * unat nbl then 0 else heap a)"
  define s0 where "s0 = \<lparr>fm_mem = m0, fm_pos = DISKMAP, fm_nblocks = nbl, fm_super = 0, fm_bitmap = 0, fm_ents = ents, fm_n = 0\<rparr>"
  have B: "unat (BLKSIZE :: u32) = 4096" "nblk 4096 = 1" by (simp_all add: BLKSIZE_def PGSIZE_def nblk_def)
  have a0: "at_block s0 0" using assms by (simp add: at_block_def s0_def)
  from fm_alloc_at[OF a0, of BLKSIZE] B assms obtain s1 where
    s1: "fm_alloc BLKSIZE s0 = Some (DISKMAP, s1)" "at_block s1 1" "s1 = s0\<lparr>fm_pos := fm_pos s1\<rparr>" by (auto simp: s0_def)
  have n1: "fm_nblocks s1 = nbl" "fm_mem s1 = m0" by (subst s1(3), simp add: s0_def)+
  from fm_alloc_at[OF s1(2), of BLKSIZE] B assms n1 obtain s2 where
    s2: "fm_alloc BLKSIZE s1 = Some (0x10001000, s2)" "at_block s2 2" "s2 = s1\<lparr>fm_pos := fm_pos s2\<rparr>" by (auto simp: DISKMAP_def numeral_2_eq_2)
  have n2: "fm_nblocks s2 = nbl" "fm_mem s2 = m0" using n1 by (subst s2(3), simp)+
  define m1 where "m1 = put_word m0 0x10001000 FS_MAGIC"
  define m2 where "m2 = put_word m1 0x10001004 nbl"
  define m3 where "m3 = put_word m2 (f_type root_file) FTYPE_DIR"
  define m4 where "m4 = put_bytes m3 root_file [47, 0]"
  define s2' where "s2' = s2\<lparr>fm_mem := m4\<rparr>"
  have a2: "at_block s2' 2" using s2(2) by (simp add: at_block_def s2'_def)
  from fm_alloc_at[OF a2, of BLKSIZE] B assms n2 obtain s3 where
    s3: "fm_alloc BLKSIZE s2' = Some (0x10002000, s3)" "at_block s3 3" "s3 = s2'\<lparr>fm_pos := fm_pos s3\<rparr>" by (auto simp: DISKMAP_def s2'_def numeral_3_eq_3)
  have n3: "fm_mem s3 = m4" by (subst s3(3), simp add: s2'_def)
  define m5 where "m5 = put_bytes m4 0x10002000 (replicate 4096 255)"
  let ?s = "s3\<lparr>fm_mem := m5, fm_super := 0x10001000, fm_bitmap := 0x10002000\<rparr>"
  have o: "opendisk nbl ents heap = Some ?s"
    using bitmap_blocks[OF assms] s1(1) s2(1) s3(1)
    by (simp add: opendisk_def m0_def[symmetric] s0_def[symmetric] n2 m1_def[symmetric] m2_def[symmetric] m3_def[symmetric]
        m4_def[symmetric] s2'_def[symmetric] n3 B m5_def s_nblocks_def s_root_def)
  have f: "fm_nblocks ?s = nbl" "fm_ents ?s = ents" "fm_n ?s = 0"
    by (simp, subst s3(3), simp add: s2'_def, subst s2(3), simp, subst s1(3), simp add: s0_def)+
  have ft: "f_type root_file = 0x1000108C" by (simp add: f_type_def)
  have m5: "m5 x = m4 x" if "unat x < img 2" for x using that by (simp add: m5_def put_bytes_at)
  have m4: "m4 x = m3 x" if "unat x < unat root_file \<or> unat root_file + 2 \<le> unat x" for x
    unfolding m4_def by (subst put_bytes_at) (use that in auto)
  have v: "vword m5 a = vword m3 a" if "unat a + 4 \<le> unat root_file \<or> unat root_file + 2 \<le> unat a \<and> unat a + 4 \<le> img 2" for a
    by (rule vword_same) (use that m5 m4 in auto)
  have "vword m5 0x10001000 = FS_MAGIC" "vword m5 0x10001004 = nbl" "vword m5 (f_type root_file) = FTYPE_DIR"
    using v[of "0x10001000"] v[of "0x10001004"] v[of "f_type root_file"]
    by (simp_all add: ft m3_def m2_def m1_def vword_here vword_out)
  moreover have "m5 root_file = 47" "m5 (root_file + 1) = 0" using m5 by (simp_all add: m4_def put_bytes_at)
  moreover have "m5 x = 255" if "img 2 \<le> unat x \<and> unat x < img 3" for x
    unfolding m5_def by (subst put_bytes_at) (use that in auto)
  moreover have "at_block ?s 3" using s3(2) by (simp add: at_block_def)
  ultimately show ?thesis using o f by (intro exI[of _ ?s]) simp
qed

lemma roundup_int:
  assumes "0 < n" "n \<le> 5000000"
  shows "word_of_int (fm_roundup_int (int n)) = fm_roundup (word_of_nat n)"
proof -
  have w: "unat (word_of_nat n :: u32) = n" using assms(2) by (intro small_nat) simp
  have "fm_roundup (word_of_nat n) = word_of_nat (4096 * nblk n)" by (rule nat_word) (use roundup_nat[of "word_of_nat n"] w assms(2) in simp)
  moreover have "fm_roundup_int (int n) = int (4096 * nblk n)"
  proof -
    have a: "int n - 1 = int (n - 1)" using assms(1) by simp
    have m: "(int n - 1) smod 4096 = int ((n - 1) mod 4096)"
      unfolding a by (simp add: signed_modulo_int_def signed_divide_int_def sgn_if minus_div_mult_eq_mod zmod_int zdiv_int)
    have "nblk n = (n - 1) div 4096 + 1" using assms(1) by (cases n) (simp_all add: nblk_def)
    moreover have "n - 1 = 4096 * ((n - 1) div 4096) + (n - 1) mod 4096" by simp
    ultimately show ?thesis unfolding fm_roundup_int_def m using assms(1) by linarith
  qed
  ultimately show ?thesis by simp
qed

lemma finishdir_at:
  assumes at: "at_block s b" and b3: "3 \<le> b" and sup: "fm_super s = 0x10001000" and n: "0 < fm_n s" "fm_n s \<le> 128"
    and D: "D = nblk (256 * fm_n s)" and cap: "b + D < unat (fm_nblocks s)"
  shows "\<exists>t. finishdir s = Some t \<and> t = s\<lparr>fm_mem := fm_mem t, fm_pos := fm_pos t\<rparr> \<and> at_block t (b + D)
    \<and> (\<forall>j < 256 * fm_n s. fm_mem t (DISKMAP + word_of_nat (4096 * b + j)) = fm_mem s (fm_ents s + word_of_nat j))
    \<and> vword (fm_mem t) (f_size root_file) = word_of_nat (4096 * D)
    \<and> (\<forall>i < D. fblock (fm_mem t) root_file (word_of_nat i) = word_of_nat (b + i))
    \<and> (\<forall>x. \<not> (268439688 \<le> unat x \<and> unat x < 268439692) \<and> \<not> (268439696 \<le> unat x \<and> unat x < 268439740)
         \<and> \<not> (img b \<le> unat x \<and> unat x < img (b + D)) \<longrightarrow> fm_mem t x = fm_mem s x)"
proof -
  let ?len = "word_of_nat (fm_n s * 256) :: u32"
  have len: "unat ?len = 256 * fm_n s" using small_nat[of "fm_n s * 256"] n by simp
  have D8: "D \<le> 8" using n by (simp add: D nblk_def)
  have b3000: "b \<le> 3000" "b + D \<le> 3000" using at cap by (simp_all add: at_block_def)
  from fm_alloc_at[OF at, of ?len] len n cap D obtain s1 where
    s1: "fm_alloc ?len s = Some (DISKMAP + word_of_nat (4096 * b), s1)" "at_block s1 (b + D)" "s1 = s\<lparr>fm_pos := fm_pos s1\<rparr>" by auto
  have e1: "fm_mem s1 = fm_mem s" "fm_ents s1 = fm_ents s" "fm_super s1 = fm_super s" "fm_nblocks s1 = fm_nblocks s" by (subst s1(3), simp)+
  define ent where "ent = map (\<lambda>i. fm_mem s (fm_ents s + word_of_nat i)) [0..<fm_n s * 256]"
  define m1 where "m1 = put_bytes (fm_mem s) (DISKMAP + word_of_nat (4096 * b)) ent"
  define s2 where "s2 = s1\<lparr>fm_mem := m1\<rparr>"
  have el: "length ent = 256 * fm_n s" by (simp add: ent_def)
  have ia: "unat (DISKMAP + word_of_nat (4096 * b)) = img b" by (rule img_addr[OF b3000(1)])
  have r: "unat (fm_roundup ?len) = 4096 * D" using roundup_nat[of ?len] len n D by simp
  have rw: "fm_roundup ?len = word_of_nat (4096 * D)" by (rule nat_word[OF r])
  have nD: "nblk (4096 * D) = D" by (simp add: nblk_def)
  have "at_block s2 (b + D)" "unat root_file + 256 \<le> 4294967296" "unat (fm_roundup ?len) \<le> 1034 * 4096" "D = nblk (unat (fm_roundup ?len))"
    "b + D + (if 10 \<le> D then 1 else 0) < unat (fm_nblocks s2)" "unat root_file + 256 \<le> img (b + D) \<or> img (b + D + 1) \<le> unat root_file"
    using s1(2) D8 r nD cap b3 by (simp_all add: at_block_def s2_def e1)
  from finishfile_at[OF this, of "word_of_nat b"] D8 obtain t where
    fin: "finishfile root_file (word_of_nat b) (fm_roundup ?len) s2 = Some t" and t: "t = s2\<lparr>fm_mem := fm_mem t, fm_pos := fm_pos t\<rparr>"
    and att: "at_block t (b + D)" and size: "vword (fm_mem t) (f_size root_file) = fm_roundup ?len"
    and blk: "\<forall>i < D. fblock (fm_mem t) root_file (word_of_nat i) = word_of_nat b + word_of_nat i"
    and fr: "\<forall>x. \<not> (268439688 \<le> unat x \<and> unat x < 268439692) \<and> \<not> (268439696 \<le> unat x \<and> unat x < 268439740) \<longrightarrow> fm_mem t x = m1 x"
    by (auto simp: s2_def)
  have "word_of_int (fm_roundup_int (int (fm_n s * 256))) = fm_roundup ?len" by (rule roundup_int) (use n in simp_all)
  then have fd: "finishdir s = Some t"
    using s1(1) fin by (simp add: finishdir_def e1 sup s_root_def block_of_img[OF b3000(1)] ent_def[symmetric] m1_def[symmetric] s2_def[symmetric]
        Let_def del: of_nat_mult)
  have e4: "256 * fm_n s \<le> 4096 * D" using nblk_bounds(3)[of "256 * fm_n s"] D by simp
  show ?thesis
  proof (intro exI[of _ t] conjI allI impI)
    show "finishdir s = Some t" by (rule fd)
    show "t = s\<lparr>fm_mem := fm_mem t, fm_pos := fm_pos t\<rparr>" by (subst t, simp add: s2_def, subst s1(3), simp)
    show "at_block t (b + D)" by (rule att)
    show "vword (fm_mem t) (f_size root_file) = word_of_nat (4096 * D)" using size rw by simp
    show "fblock (fm_mem t) root_file (word_of_nat i) = word_of_nat (b + i)" if "i < D" for i using blk that by simp
    show "fm_mem t (DISKMAP + word_of_nat (4096 * b + j)) = fm_mem s (fm_ents s + word_of_nat j)" if j: "j < 256 * fm_n s" for j
    proof -
      have a: "unat (DISKMAP + word_of_nat (4096 * b + j)) = img b + j"
        using unat_add_nat[of DISKMAP "4096 * b + j"] b3000 j n by (simp add: DISKMAP_def del: of_nat_add)
      have "fm_mem t (DISKMAP + word_of_nat (4096 * b + j)) = m1 (DISKMAP + word_of_nat (4096 * b + j))"
        by (rule fr[rule_format]) (unfold a, use b3 in auto)
      also have "\<dots> = ent ! j" using a ia el j b3000 n by (simp add: m1_def put_bytes_at del: of_nat_add of_nat_mult)
      finally show ?thesis using j by (simp add: ent_def)
    qed
    show "fm_mem t x = fm_mem s x" if x: "\<not> (268439688 \<le> unat x \<and> unat x < 268439692) \<and> \<not> (268439696 \<le> unat x \<and> unat x < 268439740)
         \<and> \<not> (img b \<le> unat x \<and> unat x < img (b + D))" for x
    proof -
      have "fm_mem t x = m1 x" using fr x by blast
      also have "\<dots> = fm_mem s x" using x ia el e4 b3000 n by (subst m1_def, subst put_bytes_at) auto
      finally show ?thesis .
    qed
  qed
qed

end
