(* ===== verification/FsImage.thy ===== *)
theory FsImage
  imports FsFmtProps
begin

text \<open>
  From the host to the server: what \<open>fsformat\<close> leaves in the image, what the server finds in it, and that it
  reads every file back.
\<close>

section \<open>The image\<close>

definition dir_blocks :: "hfile list \<Rightarrow> nat" where "dir_blocks hs = nblk (256 * length hs)"

text \<open>The first block behind the files, which is where the root directory is.\<close>

definition dir_start :: "u8 list list \<Rightarrow> nat" where "dir_start ds = start_of 3 ds (length ds)"

definition image_ok :: "(u32 \<Rightarrow> u8) \<Rightarrow> u32 \<Rightarrow> hfile list \<Rightarrow> u8 list list \<Rightarrow> bool" where
  "image_ok v nbl hs ds \<longleftrightarrow> vword v 0x10001000 = FS_MAGIC \<and> vword v 0x10001004 = nbl
     \<and> vword v (f_type root_file) = FTYPE_DIR \<and> v root_file = 47 \<and> v (root_file + 1) = 0
     \<and> vword v (f_size root_file) = word_of_nat (4096 * dir_blocks hs)
     \<and> (\<forall>i < dir_blocks hs. fblock v root_file (word_of_nat i) = word_of_nat (dir_start ds + i))
     \<and> listed v (DISKMAP + word_of_nat (4096 * dir_start ds)) 0 3 hs ds
     \<and> (\<forall>k < unat nbl. bit (vword v (0x10002000 + 4 * (word_of_nat k div 32))) (unat ((word_of_nat k :: u32) mod 32))
          \<longleftrightarrow> dir_start ds + dir_blocks hs \<le> k)"

text \<open>
  The input of a successful run: at least one file and at most 128, names that fit, sizes below the limit, the
  calls of \<open>read\<close> return the contents \<open>ds\<close>, and everything fits on the disk.
\<close>

definition formattable :: "u32 \<Rightarrow> u32 \<Rightarrow> hfile list \<Rightarrow> u8 list list \<Rightarrow> bool" where
  "formattable nbl ents hs ds \<longleftrightarrow> unat nbl \<le> 1024 \<and> unat ents + 32768 \<le> 268435456 \<and> hs \<noteq> [] \<and> length hs \<le> 128
     \<and> (\<forall>h \<in> set hs. length (base_name (hf_path h)) < 128 \<and> hf_size h < MAXFILESIZE)
     \<and> map (\<lambda>h. host_readn (hf_size h) (hf_reads h)) hs = map Some ds
     \<and> dir_start ds + dir_blocks hs < unat nbl"

lemma formattable_length: "formattable nbl ents hs ds \<Longrightarrow> length ds = length hs"
  unfolding formattable_def by (metis length_map)

lemma formattable_nth:
  assumes "formattable nbl ents hs ds" "i < length hs"
  shows "length (ds ! i) = hf_size (hs ! i)" "length (ds ! i) < MAXFILESIZE" "length (base_name (hf_path (hs ! i))) < 128"
proof -
  have "map (\<lambda>h. host_readn (hf_size h) (hf_reads h)) hs ! i = map Some ds ! i"
    using assms(1) by (simp add: formattable_def)
  then have "host_readn (hf_size (hs ! i)) (hf_reads (hs ! i)) = Some (ds ! i)"
    using assms(2) formattable_length[OF assms(1)] by simp
  then show l: "length (ds ! i) = hf_size (hs ! i)" by (rule host_readn_length)
  show "length (ds ! i) < MAXFILESIZE" "length (base_name (hf_path (hs ! i))) < 128"
    using assms l nth_mem[OF assms(2)] by (auto simp: formattable_def)
qed

lemma in_files:
  assumes "formattable nbl ents hs ds" "i < length hs"
  shows "3 \<le> start_of 3 ds i" "start_of 3 ds i + used (length (ds ! i)) \<le> dir_start ds"
proof -
  have i: "i < length ds" using assms(2) formattable_length[OF assms(1)] by simp
  show "3 \<le> start_of 3 ds i" by (simp add: start_of_def)
  show "start_of 3 ds i + used (length (ds ! i)) \<le> dir_start ds"
    unfolding start_of_grows[OF i] dir_start_def by (rule start_of_mono) (use i in simp)
qed

lemma sizes:
  assumes "formattable nbl ents hs ds"
  shows "3 \<le> dir_start ds" "dir_blocks hs \<le> 8" "256 * length hs \<le> 4096 * dir_blocks hs" "dir_start ds + dir_blocks hs < 1024"
proof -
  have "(256 * length hs + 4095) div 4096 \<le> (256 * 128 + 4095) div 4096"
    using assms by (intro div_le_mono) (simp add: formattable_def)
  then show "dir_blocks hs \<le> 8" by (simp add: dir_blocks_def nblk_def)
  show "3 \<le> dir_start ds" by (simp add: dir_start_def start_of_def)
  show "256 * length hs \<le> 4096 * dir_blocks hs" unfolding dir_blocks_def by (rule nblk_bounds(3))
  show "dir_start ds + dir_blocks hs < 1024" using assms by (simp add: formattable_def)
qed

lemma format_image:
  assumes F: "formattable nbl ents hs ds"
  shows "\<exists>t. fsformat nbl ents heap hs = Some t \<and> fm_nblocks t = nbl \<and> image_ok (fm_mem t) nbl hs ds"
proof -
  let ?b = "dir_start ds" and ?D = "dir_blocks hs"
  note Z = sizes[OF F]
  have n4: "4 \<le> unat nbl" "unat nbl \<le> 1024" using F Z by (simp_all add: formattable_def)
  from opendisk_at[OF n4, of ents heap] obtain s where
    s: "opendisk nbl ents heap = Some s" "at_block s 3" "fm_nblocks s = nbl" "fm_super s = 0x10001000" "fm_bitmap s = 0x10002000"
    "fm_ents s = ents" "fm_n s = 0" "vword (fm_mem s) 0x10001000 = FS_MAGIC" "vword (fm_mem s) 0x10001004 = nbl"
    "vword (fm_mem s) (f_type root_file) = FTYPE_DIR" "fm_mem s root_file = 47" "fm_mem s (root_file + 1) = 0"
    "\<And>x. img 2 \<le> unat x \<and> unat x < img 3 \<Longrightarrow> fm_mem s x = 255" by blast
  have cap: "start_of 3 ds (length ds) < unat (fm_nblocks s)" using F by (simp add: formattable_def s(3) dir_start_def)
  from writefiles_at[OF s(2), of hs ds] F cap obtain u where
    u: "writefiles hs s = Some u" "u = s\<lparr>fm_mem := fm_mem u, fm_pos := fm_pos u, fm_n := fm_n s + length hs\<rparr>"
    "at_block u ?b" "listed (fm_mem u) ents 0 3 hs ds"
    "apart (fm_mem s) (fm_mem u) (unat ents) (unat ents + 256 * length hs) (img 3) (img ?b)"
    by (auto simp: formattable_def s dir_start_def)
  have eu: "fm_nblocks u = nbl" "fm_super u = 0x10001000" "fm_bitmap u = 0x10002000" "fm_ents u = ents" "fm_n u = length hs"
    by (subst u(2), simp add: s)+
  have "0 < fm_n u" "fm_n u \<le> 128" "?D = nblk (256 * fm_n u)" "?b + ?D < unat (fm_nblocks u)"
    using F by (simp_all add: formattable_def eu dir_blocks_def)
  from finishdir_at[OF u(3) Z(1) eu(2) this] obtain w where
    w: "finishdir u = Some w" "w = u\<lparr>fm_mem := fm_mem w, fm_pos := fm_pos w\<rparr>" "at_block w (?b + ?D)"
    "\<And>j. j < 256 * length hs \<Longrightarrow> fm_mem w (DISKMAP + word_of_nat (4096 * ?b + j)) = fm_mem u (ents + word_of_nat j)"
    "vword (fm_mem w) (f_size root_file) = word_of_nat (4096 * ?D)"
    "\<And>i. i < ?D \<Longrightarrow> fblock (fm_mem w) root_file (word_of_nat i) = word_of_nat (?b + i)"
    "\<And>x. \<not> (268439688 \<le> unat x \<and> unat x < 268439692) \<and> \<not> (268439696 \<le> unat x \<and> unat x < 268439740)
         \<and> \<not> (img ?b \<le> unat x \<and> unat x < img (?b + ?D)) \<Longrightarrow> fm_mem w x = fm_mem u x"
    unfolding eu by blast
  have ew: "fm_nblocks w = nbl" "fm_bitmap w = 0x10002000" by (subst w(2), simp add: eu)+
  let ?t = "finishdisk w"
  have fmt: "fsformat nbl ents heap hs = Some ?t"
    using n4 s(1) u(1) w(1) by (simp add: fsformat_def word_less_nat_alt)
  have used: "unat (block_of (fm_pos w)) = ?b + ?D"
  proof -
    have "block_of (fm_pos w) = word_of_nat (?b + ?D)" using w(3) block_of_img[of "?b + ?D"] Z by (simp add: at_block_def del: of_nat_add of_nat_mult)
    then show ?thesis using small_nat[of "?b + ?D"] Z by (simp del: of_nat_add)
  qed
  have tm: "fm_mem ?t = foldl (clear_bit_in 0x10002000) (fm_mem w) [0..<?b + ?D]" by (simp add: finishdisk_def ew used)
  have bm: "unat (0x10002000 :: u32) + 4096 \<le> 4294967296" "?b + ?D \<le> 32768" using Z by simp_all
  have t_out: "fm_mem ?t x = fm_mem w x" if "unat x < img 2 \<or> img 3 \<le> unat x" for x
    unfolding tm by (rule clear_bits(2)[OF bm]) (use that in simp)
  have s_low: "fm_mem w x = fm_mem s x" if "img 0 \<le> unat x" "unat x < img 3" "\<not> (268439688 \<le> unat x \<and> unat x < 268439692)"
    "\<not> (268439696 \<le> unat x \<and> unat x < 268439740)" for x
  proof -
    have "fm_mem w x = fm_mem u x" using that Z by (intro w(7)) simp
    also have "\<dots> = fm_mem s x" using that F by (intro u(5)[unfolded apart_def, rule_format]) (simp add: formattable_def)
    finally show ?thesis .
  qed
  have rf: "unat root_file + 256 \<le> 4294967296" by simp
  note RF = fields[OF rf, simplified]
  have low: "vword (fm_mem ?t) a = vword (fm_mem s) a"
    if "img 0 \<le> unat a" "unat a + 4 \<le> 268439688 \<or> 268439692 \<le> unat a \<and> unat a + 4 \<le> 268439696" for a
    by (rule vword_same) (use that t_out s_low in auto)
  have root_copy: "fblock (fm_mem ?t) root_file (word_of_nat i) = fblock (fm_mem w) root_file (word_of_nat i)" if "i < ?D" for i
  proof (rule fblock_copy(1)[where n = "4096 * ?D" and st = 100])
    show "fm_mem ?t (root_file + word_of_nat j) = fm_mem w (root_file + word_of_nat j)" if "j < 256" for j
      by (rule t_out) (use field_at[OF rf that] that in simp)
    show "fm_mem ?t x = fm_mem w x" if "img 100 \<le> unat x" for x by (rule t_out) (use that in simp)
    have nD: "nblk (4096 * ?D) = ?D" by (simp add: nblk_def)
    show "i < nblk (4096 * ?D)" using that nD by simp
  qed (use Z in \<open>simp_all add: nblk_def used_def\<close>)
  have sz: "vword (fm_mem ?t) (f_size root_file) = word_of_nat (4096 * ?D)"
  proof -
    have "vword (fm_mem ?t) (f_size root_file) = vword (fm_mem w) (f_size root_file)"
      by (rule vword_same) (use RF t_out in auto)
    then show ?thesis using w(5) by simp
  qed
  have files: "listed (fm_mem ?t) (DISKMAP + word_of_nat (4096 * ?b)) 0 3 hs ds"
    unfolding listed_def
  proof (intro allI impI)
    fix i assume i: "i < length hs"
    note N = formattable_nth[OF F i] and I = in_files[OF F i]
    let ?f = "ents + word_of_nat (256 * i)" and ?g = "DISKMAP + word_of_nat (4096 * ?b) + word_of_nat (256 * i)"
    have u4: "file_at (fm_mem u) ?f (start_of 3 ds i) (ds ! i)" "entry_at (fm_mem u) ?f (base_name (hf_path (hs ! i))) FTYPE_REG"
      using u(4) i by (simp_all add: listed_def del: of_nat_mult)
    have e: "fm_mem ?t (?g + word_of_nat j) = fm_mem u (?f + word_of_nat j)" if j: "j < 256" for j
    proof -
      have k: "256 * i + j < 256 * length hs" using i j by simp
      have g: "?g + word_of_nat j = DISKMAP + word_of_nat (4096 * ?b + (256 * i + j))" by (simp add: algebra_simps)
      have "unat (?g + word_of_nat j) = img ?b + (256 * i + j)"
        unfolding g using unat_add_nat[of DISKMAP "4096 * ?b + (256 * i + j)"] k Z by (simp add: DISKMAP_def del: of_nat_add of_nat_mult)
      then have "fm_mem ?t (?g + word_of_nat j) = fm_mem w (?g + word_of_nat j)" using Z by (intro t_out) simp
      also have "\<dots> = fm_mem u (ents + word_of_nat (256 * i + j))" unfolding g by (rule w(4)[OF k])
      also have "ents + word_of_nat (256 * i + j) = ?f + word_of_nat j" by (simp add: algebra_simps)
      finally show ?thesis .
    qed
    have bl: "fm_mem ?t x = fm_mem u x" if "img (start_of 3 ds i) \<le> unat x" "unat x < img (start_of 3 ds i + used (length (ds ! i)))" for x
    proof -
      have "fm_mem ?t x = fm_mem w x" using that I by (intro t_out) simp
      also have "\<dots> = fm_mem u x" using that I by (intro w(7)) simp
      finally show ?thesis .
    qed
    have "length (ds ! i) \<le> 1034 * 4096" "start_of 3 ds i + used (length (ds ! i)) \<le> 3000"
      using N I Z by (simp_all add: MAXFILESIZE_def)
    from file_copy[OF u4(1) this e bl] entry_copy[OF u4(2) N(3) e]
    show "file_at (fm_mem ?t) (DISKMAP + word_of_nat (4096 * ?b) + word_of_nat (256 * (0 + i))) (start_of 3 ds i) (ds ! i)
      \<and> entry_at (fm_mem ?t) (DISKMAP + word_of_nat (4096 * ?b) + word_of_nat (256 * (0 + i))) (base_name (hf_path (hs ! i))) FTYPE_REG"
      by (simp del: of_nat_mult)
  qed
  have bits: "bit (vword (fm_mem ?t) (0x10002000 + 4 * (word_of_nat k div 32))) (unat ((word_of_nat k :: u32) mod 32)) \<longleftrightarrow> ?b + ?D \<le> k"
    if k: "k < unat nbl" for k
  proof -
    let ?a = "0x10002000 + 4 * (word_of_nat k div 32) :: u32"
    have k1: "k < 1024" using k n4 by simp
    have "unat ((word_of_nat k :: u32) div 32) = k div 32" using small_nat[of k] k1 by (simp add: unat_div)
    then have "(word_of_nat k :: u32) div 32 = word_of_nat (k div 32)" by (rule nat_word)
    then have a: "unat ?a = img 2 + 4 * (k div 32)" using unat_slot[of "0x10002000" "k div 32"] k1 by simp
    have a4: "unat ?a + 4 \<le> img 3" using a k1 by simp
    have n: "unat (?a + 1) = unat ?a + 1" "unat (?a + 2) = unat ?a + 2" "unat (?a + 3) = unat ?a + 3"
      using unat_add_nat[of ?a 1] unat_add_nat[of ?a 2] unat_add_nat[of ?a 3] a4 by simp_all
    have "fm_mem w x = 255" if "unat ?a \<le> unat x" "unat x < unat ?a + 4" for x
      using s(13)[of x] s_low[of x] that a a4 by simp
    then have "vword (fm_mem w) ?a = bytes_word [255, 255, 255, 255]" using n by (simp add: vword_def)
    also have "\<dots> = - 1" by (simp add: bytes_word_def)
    finally have "bit (vword (fm_mem w) ?a) (unat ((word_of_nat k :: u32) mod 32))"
      by (simp add: bit_minus_1_iff unat_mod)
    then show ?thesis using clear_bits(1)[OF bm, of k "fm_mem w"] k1 by (simp add: tm)
  qed
  have "vword (fm_mem ?t) 0x10001000 = FS_MAGIC" "vword (fm_mem ?t) 0x10001004 = nbl" "vword (fm_mem ?t) (f_type root_file) = FTYPE_DIR"
    using low[of "0x10001000"] low[of "0x10001004"] low[of "f_type root_file"] s(8-10) RF by simp_all
  moreover have "fm_mem ?t root_file = 47" "fm_mem ?t (root_file + 1) = 0"
    using t_out[of root_file] s_low[of root_file] t_out[of "root_file + 1"] s_low[of "root_file + 1"] s(11,12) by simp_all
  moreover have "\<forall>i < ?D. fblock (fm_mem ?t) root_file (word_of_nat i) = word_of_nat (?b + i)" using root_copy w(6) by simp
  ultimately have "image_ok (fm_mem ?t) nbl hs ds" using sz files bits by (simp add: image_ok_def)
  then show ?thesis using fmt by (intro exI[of _ ?t]) (simp add: finishdisk_def ew)
qed

section \<open>The image in the server\<close>

lemma image_seen:
  assumes F: "formattable nbl ents hs ds" and I: "image_ok v nbl hs ds"
    and w: "\<And>x. img 0 \<le> unat x \<Longrightarrow> unat x < img (unat nbl) \<Longrightarrow> w x = v x"
  shows "image_ok w nbl hs ds"
proof -
  let ?b = "dir_start ds" and ?D = "dir_blocks hs"
  note Z = sizes[OF F]
  have cap: "?b + ?D < unat nbl" "unat nbl \<le> 1024" using F by (simp_all add: formattable_def)
  have wd: "vword w a = vword v a" if "img 0 \<le> unat a" "unat a + 4 \<le> img (unat nbl)" for a
    by (rule vword_same) (use that cap w in auto)
  have rf: "unat root_file + 256 \<le> 4294967296" by simp
  note RF = fields[OF rf, simplified]
  have n3: "3 < unat nbl" using cap Z by simp
  have blk: "fblock w root_file (word_of_nat i) = fblock v root_file (word_of_nat i)" if "i < ?D" for i
  proof (rule fblock_copy(1)[where n = "4096 * ?D" and st = ?b])
    show "w (root_file + word_of_nat j) = v (root_file + word_of_nat j)" if "j < 256" for j
      by (rule w) (use field_at[OF rf that] that n3 in simp_all)
    have nD: "nblk (4096 * ?D) = ?D" "used (4096 * ?D) = ?D" using Z by (simp_all add: nblk_def used_def)
    show "w x = v x" if "img ?b \<le> unat x" "unat x < img (?b + used (4096 * ?D))" for x
      by (rule w) (use that cap nD in simp_all)
    show "i < nblk (4096 * ?D)" "4096 * ?D \<le> 1034 * 4096" "?b + used (4096 * ?D) \<le> 3000" using that nD Z by simp_all
    show "vword v (f_indirect root_file) = word_of_nat (?b + nblk (4096 * ?D))" if "10 \<le> nblk (4096 * ?D)" using that nD Z by simp
  qed
  have "listed w (DISKMAP + word_of_nat (4096 * ?b)) 0 3 hs ds" unfolding listed_def
  proof (intro allI impI)
    fix i assume i: "i < length hs"
    note N = formattable_nth[OF F i] and J = in_files[OF F i]
    let ?f = "DISKMAP + word_of_nat (4096 * ?b) + word_of_nat (256 * (0 + i))"
    have u: "file_at v ?f (start_of 3 ds i) (ds ! i)" "entry_at v ?f (base_name (hf_path (hs ! i))) FTYPE_REG"
      using I i by (simp_all add: image_ok_def listed_def del: of_nat_mult)
    have e: "w (?f + word_of_nat j) = v (?f + word_of_nat j)" if j: "j < 256" for j
    proof (rule w)
      have g: "?f + word_of_nat j = DISKMAP + word_of_nat (4096 * ?b + (256 * i + j))" by (simp add: algebra_simps)
      have k: "256 * i + j < 256 * length hs" using i j by simp
      have "unat (?f + word_of_nat j) = img ?b + (256 * i + j)"
        unfolding g using unat_add_nat[of DISKMAP "4096 * ?b + (256 * i + j)"] k Z by (simp add: DISKMAP_def del: of_nat_add of_nat_mult)
      then show "img 0 \<le> unat (?f + word_of_nat j)" "unat (?f + word_of_nat j) < img (unat nbl)" using k Z cap by simp_all
    qed
    have bl: "w x = v x" if "img (start_of 3 ds i) \<le> unat x" "unat x < img (start_of 3 ds i + used (length (ds ! i)))" for x
      by (rule w) (use that J cap in simp_all)
    have "length (ds ! i) \<le> 1034 * 4096" "start_of 3 ds i + used (length (ds ! i)) \<le> 3000"
      using N J Z by (simp_all add: MAXFILESIZE_def)
    from file_copy[OF u(1) this e bl] entry_copy[OF u(2) N(3) e]
    show "file_at w ?f (start_of 3 ds i) (ds ! i) \<and> entry_at w ?f (base_name (hf_path (hs ! i))) FTYPE_REG" by blast
  qed
  moreover have "vword w (0x10002000 + 4 * (word_of_nat k div 32)) = vword v (0x10002000 + 4 * (word_of_nat k div 32))"
    if k: "k < unat nbl" for k
  proof (rule wd)
    have k1: "k < 1024" using k cap by simp
    have "unat ((word_of_nat k :: u32) div 32) = k div 32" using small_nat[of k] k1 by (simp add: unat_div)
    then have "(word_of_nat k :: u32) div 32 = word_of_nat (k div 32)" by (rule nat_word)
    then have "unat (0x10002000 + 4 * (word_of_nat k div 32) :: u32) = img 2 + 4 * (k div 32)"
      using unat_slot[of "0x10002000" "k div 32"] k1 by simp
    then show "img 0 \<le> unat (0x10002000 + 4 * (word_of_nat k div 32) :: u32)"
      "unat (0x10002000 + 4 * (word_of_nat k div 32) :: u32) + 4 \<le> img (unat nbl)" using k1 n3 by simp_all
  qed
  moreover have "vword w 0x10001000 = vword v 0x10001000" "vword w 0x10001004 = vword v 0x10001004"
    "vword w (f_type root_file) = vword v (f_type root_file)" "vword w (f_size root_file) = vword v (f_size root_file)"
    by (rule wd; use RF n3 in simp)+
  moreover have "w root_file = v root_file" "w (root_file + 1) = v (root_file + 1)" by (rule w; use n3 in simp)+
  ultimately show ?thesis using I blk by (simp add: image_ok_def)
qed

text \<open>A server that has the image: in the cache or on its disk, it sees these bytes.\<close>

definition serves :: "fs \<Rightarrow> fmt \<Rightarrow> bool" where
  "serves s t \<longleftrightarrow> super s = DISKMAP + BLKSIZE \<and> bitmap s = DISKMAP + 2 * BLKSIZE
     \<and> (\<forall>x. unat DISKMAP \<le> unat x \<and> unat x < unat DISKMAP + 4096 * unat (fm_nblocks t) \<longrightarrow> view s x = fm_mem t x)"

text \<open>Where the server finds entry \<open>i\<close> of its root directory.\<close>

definition root_entry :: "fs \<Rightarrow> nat \<Rightarrow> u32" where
  "root_entry s i = DISKMAP + fblock (view s) (s_root (super s)) (word_of_nat (i div 16)) * BLKSIZE + word_of_nat (256 * (i mod 16))"

lemma serves_image:
  assumes F: "formattable nbl ents hs ds" and f: "fsformat nbl ents heap hs = Some t" and s: "serves s t"
  shows "image_ok (view s) nbl hs ds" "fm_nblocks t = nbl" "super s = 0x10001000" "bitmap s = 0x10002000"
    "i < length hs \<Longrightarrow> root_entry s i = DISKMAP + word_of_nat (4096 * dir_start ds + 256 * i)"
proof -
  from format_image[OF F, of heap] f have t: "fm_nblocks t = nbl" "image_ok (fm_mem t) nbl hs ds" by auto
  show I: "image_ok (view s) nbl hs ds"
    by (rule image_seen[OF F t(2)]) (use s t(1) in \<open>simp add: serves_def DISKMAP_def\<close>)
  show "fm_nblocks t = nbl" by (rule t(1))
  show S: "super s = 0x10001000" "bitmap s = 0x10002000" using s by (simp_all add: serves_def DISKMAP_def BLKSIZE_def PGSIZE_def)
  show "root_entry s i = DISKMAP + word_of_nat (4096 * dir_start ds + 256 * i)" if i: "i < length hs"
  proof -
    have "16 * (i div 16) \<le> i" by simp
    then have "i div 16 < dir_blocks hs" using sizes(3)[OF F] i by simp
    then have fb: "fblock (view s) root_file (word_of_nat (i div 16)) = word_of_nat (dir_start ds + i div 16)"
      using I by (simp add: image_ok_def)
    have m: "(word_of_nat (dir_start ds + i div 16) :: u32) * BLKSIZE = word_of_nat (4096 * (dir_start ds + i div 16))"
      by (simp add: BLKSIZE_def PGSIZE_def)
    have "4096 * (b + q) + 256 * r = 4096 * b + 256 * (16 * q + r)" for b q r :: nat by simp
    from this[of "dir_start ds" "i div 16" "i mod 16"] have e: "4096 * (dir_start ds + i div 16) + 256 * (i mod 16) = 4096 * dir_start ds + 256 * i" by (simp only: mult_div_mod_eq)
    have "s_root (super s) = root_file" using S by (simp add: s_root_def)
    then have "root_entry s i = DISKMAP + (word_of_nat (4096 * (dir_start ds + i div 16)) + word_of_nat (256 * (i mod 16)))"
      by (simp only: root_entry_def fb m add.assoc)
    then show ?thesis by (simp only: of_nat_add [symmetric] e)
  qed
qed

text \<open>C12: an image that \<open>fsformat\<close> writes for at least one file is a file system for the server: whatever was in the memory of the
  host program, if the files fit, it ends without a panic, and a server that sees the image finds the magic number and the number
  of blocks, a bitmap in which exactly the blocks behind the root directory are free, a root directory of the right
  type and size, and in entry \<open>i\<close> the name, type, size, block pointers and every byte of the file number \<open>i\<close>.
  (Without any file the root directory is wrong, as \<open>format_without_files\<close> shows.)\<close>

theorem formatted_image_mounts:
  assumes F: "formattable nbl ents hs ds"
  shows "\<exists>t. fsformat nbl ents heap hs = Some t \<and> (\<forall>s. serves s t \<longrightarrow>
      vword (view s) (super s) = FS_MAGIC \<and> nblocks s = nbl
    \<and> (\<forall>k < unat nbl. is_free s (word_of_nat k) \<longleftrightarrow> dir_start ds + dir_blocks hs \<le> k)
    \<and> vword (view s) (f_type (s_root (super s))) = FTYPE_DIR \<and> fsize s (s_root (super s)) = 4096 * dir_blocks hs
    \<and> (\<forall>i < length hs. entry_at (view s) (root_entry s i) (base_name (hf_path (hs ! i))) FTYPE_REG
         \<and> file_at (view s) (root_entry s i) (start_of 3 ds i) (ds ! i)))"
proof -
  from format_image[OF F, of heap] obtain t where f: "fsformat nbl ents heap hs = Some t" by blast
  have "vword (view s) (super s) = FS_MAGIC \<and> nblocks s = nbl
    \<and> (\<forall>k < unat nbl. is_free s (word_of_nat k) \<longleftrightarrow> dir_start ds + dir_blocks hs \<le> k)
    \<and> vword (view s) (f_type (s_root (super s))) = FTYPE_DIR \<and> fsize s (s_root (super s)) = 4096 * dir_blocks hs
    \<and> (\<forall>i < length hs. entry_at (view s) (root_entry s i) (base_name (hf_path (hs ! i))) FTYPE_REG
         \<and> file_at (view s) (root_entry s i) (start_of 3 ds i) (ds ! i))" if s: "serves s t" for s
  proof -
    note V = serves_image[OF F f s]
    have "unat (word_of_nat (4096 * dir_blocks hs) :: u32) = 4096 * dir_blocks hs" using sizes(2)[OF F] by (intro small_nat) simp
    then show ?thesis using V
      by (simp add: image_ok_def nblocks_def s_nblocks_def s_root_def is_free_def bit_addr_def fsize_def listed_def add.assoc del: of_nat_mult)
  qed
  then show ?thesis using f by blast
qed

text \<open>One file of three bytes, read in two pieces, from a host whose memory is not clean.\<close>

definition demo_hfile :: hfile where
  "demo_hfile = \<lparr>hf_path = [47, 109], hf_size = 3, hf_reads = [[104], [105, 10]]\<rparr>"

lemma demo_formattable: "formattable 8 0x8000000 [demo_hfile] [[104, 105, 10]]"
proof -
  have "host_readn 3 [[104], [105, 10]] = Some [104, 105, 10 :: u8]" by (simp add: numeral_3_eq_3 numeral_2_eq_2)
  then show ?thesis
    by (simp add: formattable_def demo_hfile_def base_name_def MAXFILESIZE_def dir_start_def start_of_def dir_blocks_def used_def nblk_def)
qed

theorem formatted_image_mounts_witness:
  "\<exists>t. fsformat 8 0x8000000 (\<lambda>_. 204) [demo_hfile] = Some t \<and>
     (\<forall>s. serves s t \<longrightarrow> nblocks s = 8 \<and> is_free s 5 \<and> \<not> is_free s 4 \<and> fsize s (s_root (super s)) = 4096
        \<and> file_at (view s) (root_entry s 0) 3 [104, 105, 10])"
proof -
  from formatted_image_mounts[OF demo_formattable, of "\<lambda>_. 204"] obtain t where
    t: "fsformat 8 0x8000000 (\<lambda>_. 204) [demo_hfile] = Some t"
    and s: "\<And>s. serves s t \<Longrightarrow> nblocks s = 8 \<and> (\<forall>k < 8. is_free s (word_of_nat k) \<longleftrightarrow> 5 \<le> k) \<and> fsize s (s_root (super s)) = 4096
        \<and> file_at (view s) (root_entry s 0) 3 [104, 105, 10]"
    by (auto simp: dir_start_def start_of_def dir_blocks_def used_def nblk_def)
  have "nblocks s = 8 \<and> is_free s 5 \<and> \<not> is_free s 4 \<and> fsize s (s_root (super s)) = 4096
        \<and> file_at (view s) (root_entry s 0) 3 [104, 105, 10]" if "serves s t" for s
    using s[OF that] s[OF that, THEN conjunct2, THEN conjunct1, rule_format, of 5]
      s[OF that, THEN conjunct2, THEN conjunct1, rule_format, of 4] by simp
  then show ?thesis using t by blast
qed

section \<open>No files\<close>

text \<open>
  Without any file, \<open>finishdir\<close> rounds the size 0, which is an \<open>int\<close>, up to 4096: the root directory gets one block, but that
  block was not allocated, and stays free in the bitmap.
\<close>

lemma finishdir_empty:
  assumes at: "at_block s 3" and sup: "fm_super s = 0x10001000" and n: "fm_n s = 0"
  shows "\<exists>t. finishdir s = Some t \<and> t = s\<lparr>fm_mem := fm_mem t, fm_pos := fm_pos t\<rparr> \<and> at_block t 3
    \<and> vword (fm_mem t) (f_size root_file) = 4096 \<and> fblock (fm_mem t) root_file 0 = 3
    \<and> (\<forall>x. img 2 \<le> unat x \<longrightarrow> fm_mem t x = fm_mem s x)"
proof -
  have cap: "3 < unat (fm_nblocks s)" using at by (simp add: at_block_def)
  have n0: "nblk (unat (0 :: u32)) = 0" by (simp add: nblk_def)
  from fm_alloc_at[OF at, of 0] cap n0 obtain s1 where
    s1: "fm_alloc 0 s = Some (DISKMAP + word_of_nat (4096 * 3), s1)" "at_block s1 3" "s1 = s\<lparr>fm_pos := fm_pos s1\<rparr>" by auto
  have e1: "fm_mem s1 = fm_mem s" "fm_super s1 = fm_super s" "fm_nblocks s1 = fm_nblocks s" by (subst s1(3), simp)+
  have b3: "block_of (DISKMAP + word_of_nat (4096 * 3)) = 3" using block_of_img[of 3] by simp
  have "nblk (unat (4096 :: u32)) = 1" by (simp add: nblk_def)
  with finishfile_at[OF s1(2), of root_file 4096 1 3] cap e1 obtain t where
    t: "finishfile root_file 3 4096 s1 = Some t" "t = s1\<lparr>fm_mem := fm_mem t, fm_pos := fm_pos t\<rparr>" "at_block t 3"
    "vword (fm_mem t) (f_size root_file) = 4096" "\<forall>i < 1. fblock (fm_mem t) root_file (word_of_nat i) = 3 + word_of_nat i"
    "\<forall>x. \<not> (268439688 \<le> unat x \<and> unat x < 268439692) \<and> \<not> (268439696 \<le> unat x \<and> unat x < 268439740) \<longrightarrow> fm_mem t x = fm_mem s1 x"
    by auto
  have rd: "word_of_int (fm_roundup_int 0) = (4096 :: u32)" by (simp add: fm_roundup_int_def signed_modulo_int_def signed_divide_int_def)
  have p: "put_bytes (fm_mem s1) (DISKMAP + word_of_nat (4096 * 3)) [] = fm_mem s1" by (simp add: put_bytes_def)
  have s1': "s1\<lparr>fm_mem := fm_mem s1\<rparr> = s1" by simp
  have "finishdir s = Some t"
    using s1(1) t(1) n by (simp add: finishdir_def e1(2) sup s_root_def b3[simplified] rd p[simplified])
  moreover have "t = s\<lparr>fm_mem := fm_mem t, fm_pos := fm_pos t\<rparr>" by (subst t(2), subst s1(3), simp)
  moreover have "fm_mem t x = fm_mem s x" if "img 2 \<le> unat x" for x using t(6) that e1(1) by simp
  ultimately show ?thesis using t(3,4,5) by auto
qed

theorem format_without_files:
  assumes n4: "4 \<le> unat nbl" "unat nbl \<le> 1024"
  shows "\<exists>t. fsformat nbl ents heap [] = Some t
    \<and> (\<forall>s. serves s t \<longrightarrow> fsize s (s_root (super s)) = 4096 \<and> fblock (view s) (s_root (super s)) 0 = 3 \<and> is_free s 3)"
proof -
  from opendisk_at[OF n4, of ents heap] obtain s where
    s: "opendisk nbl ents heap = Some s" "at_block s 3" "fm_nblocks s = nbl" "fm_super s = 0x10001000" "fm_bitmap s = 0x10002000"
    "fm_n s = 0" "\<And>x. img 2 \<le> unat x \<and> unat x < img 3 \<Longrightarrow> fm_mem s x = 255" "vword (fm_mem s) 0x10001004 = nbl" by blast
  from finishdir_empty[OF s(2,4,6)] obtain w where
    w: "finishdir s = Some w" "w = s\<lparr>fm_mem := fm_mem w, fm_pos := fm_pos w\<rparr>" "at_block w 3"
    "vword (fm_mem w) (f_size root_file) = 4096" "fblock (fm_mem w) root_file 0 = 3" "\<And>x. img 2 \<le> unat x \<Longrightarrow> fm_mem w x = fm_mem s x" by blast
  have ew: "fm_nblocks w = nbl" "fm_bitmap w = 0x10002000" by (subst w(2), simp add: s)+
  let ?t = "finishdisk w"
  have fmt: "fsformat nbl ents heap [] = Some ?t" using n4 s(1) w(1) by (simp add: fsformat_def word_less_nat_alt)
  have "unat (block_of (fm_pos w)) = 3" using w(3) block_of_img[of 3] by (simp add: at_block_def)
  then have tm: "fm_mem ?t = foldl (clear_bit_in 0x10002000) (fm_mem w) [0..<3]" by (simp add: finishdisk_def ew)
  have bm: "unat (0x10002000 :: u32) + 4096 \<le> 4294967296" "(3 :: nat) \<le> 32768" by simp_all
  have t_out: "fm_mem ?t x = fm_mem w x" if "unat x < img 2 \<or> img 3 \<le> unat x" for x
    unfolding tm by (rule clear_bits(2)[OF bm]) (use that in simp)
  have "vword (fm_mem w) 0x10002000 = bytes_word [255, 255, 255, 255]" by (simp add: vword_def w(6) s(7))
  then have "bit (vword (fm_mem w) 0x10002000) 3" by (simp add: bytes_word_def bit_minus_1_iff)
  then have b3: "bit (vword (fm_mem ?t) 0x10002000) 3" using clear_bits(1)[OF bm, of 3 "fm_mem w"] by (simp add: tm)
  have rf: "unat root_file + 256 \<le> 4294967296" by simp
  note RF = fields[OF rf, simplified]
  have "fsize v (s_root (super v)) = 4096 \<and> fblock (view v) (s_root (super v)) 0 = 3 \<and> is_free v 3" if v: "serves v ?t" for v
  proof -
    have S: "super v = 0x10001000" "bitmap v = 0x10002000" using v by (simp_all add: serves_def DISKMAP_def BLKSIZE_def PGSIZE_def)
    have tn: "fm_nblocks ?t = nbl" by (simp add: finishdisk_def ew)
    have e: "view v x = fm_mem ?t x" if "img 0 \<le> unat x" "unat x < img 4" for x
      using v that n4 by (simp add: serves_def DISKMAP_def tn)
    have "vword (view v) (f_size root_file) = vword (fm_mem w) (f_size root_file)" "vword (view v) (f_direct root_file 0) = vword (fm_mem w) (f_direct root_file 0)"
      by (rule vword_same; use e t_out RF in simp)+
    moreover have "vword (view v) 0x10002000 = vword (fm_mem ?t) 0x10002000" by (rule vword_same; use e in simp)
    moreover have "vword (fm_mem w) (f_direct root_file 0) = 3" using w(5) by (simp add: fblock_def fslot_def NDIRECT_def)
    ultimately show ?thesis using w(4) b3
      by (simp add: S s_root_def fsize_def fblock_def fslot_def NDIRECT_def is_free_def bit_addr_def nblocks_def)
  qed
  then show ?thesis using fmt by blast
qed

section \<open>Reading a file back\<close>

lemma image_file_wf:
  assumes F: "formattable nbl ents hs ds" and f: "fsformat nbl ents heap hs = Some t" and s: "serves s t"
    and m: "\<And>b. 0 < b \<Longrightarrow> b < dir_start ds + dir_blocks hs \<Longrightarrow> fmapped s (65536 + b)" and d: "drive_ok s" "cache_ok s" and i: "i < length hs"
  shows "file_wf s (root_entry s i) (nblk (length (ds ! i)))" and "fsize s (root_entry s i) = length (ds ! i)"
    and "meta_pages s (root_entry s i) (nblk (length (ds ! i))) \<union> data_pages s (root_entry s i) (nblk (length (ds ! i))) \<subseteq> {65537..<65536 + (dir_start ds + dir_blocks hs)}"
proof -
  let ?f = "root_entry s i" and ?st = "start_of 3 ds i" and ?n = "nblk (length (ds ! i))" and ?b = "dir_start ds"
  note V = serves_image[OF F f s] and N = formattable_nth[OF F i] and J = in_files[OF F i] and Z = sizes[OF F]
  have cap: "?b + dir_blocks hs < unat nbl" "unat nbl \<le> 1024" using F by (simp_all add: formattable_def)
  have fa: "file_at (view s) ?f ?st (ds ! i)"
    using V(1) V(5)[OF i] i by (simp add: image_ok_def listed_def add.assoc)
  have k: "256 * i < 4096 * dir_blocks hs" using i Z by simp
  have uf: "unat ?f = img ?b + 256 * i"
    unfolding V(5)[OF i] using unat_add_nat[of DISKMAP "4096 * ?b + 256 * i"] k Z by (simp add: DISKMAP_def del: of_nat_add of_nat_mult)
  have ld: "length (ds ! i) \<le> 1034 * 4096" using N by (simp add: MAXFILESIZE_def)
  have n: "?n \<le> 1034" by (rule nblk_bounds(1)[OF ld])
  have us: "used (length (ds ! i)) = ?n + (if 10 \<le> ?n then 1 else 0)" by (simp add: used_def)
  have fb: "fblock (view s) ?f (word_of_nat j) = word_of_nat (?st + j)" if "j < ?n" for j using fa that by (simp add: file_at_def)
  have fbu: "unat (fblock (view s) ?f (word_of_nat j)) = ?st + j" if "j < ?n" for j
    unfolding fb[OF that] by (rule small_nat) (use that us J Z in simp)
  have ind: "unat (vword (view s) (f_indirect ?f)) = ?st + ?n" if "10 < ?n"
  proof -
    have "vword (view s) (f_indirect ?f) = word_of_nat (?st + ?n)" using fa that by (simp add: file_at_def)
    then show ?thesis using small_nat[of "?st + ?n"] that us J Z by (simp del: of_nat_add)
  qed
  have sup4: "vword (view s) (super s + 4) = nbl" using V(1,3) by (simp add: image_ok_def)
  have pf: "PGNUM ?f = 65536 + ?b + i div 16"
  proof -
    have "(268435456 + 4096 * ?b + 256 * i) div 4096 = 65536 + ?b + i div 16" by simp
    then show ?thesis using uf by (simp add: PGNUM_arith)
  qed
  have i16: "i div 16 < dir_blocks hs" using k by simp
  have mp: "meta_pages s ?f ?n \<subseteq> {65537, 65536 + ?b + i div 16} \<union> (if 10 < ?n then {65536 + ?st + ?n} else {})"
    using ind pf V(3) by (auto simp: meta_pages_def blk_page_def PGNUM_arith split: if_splits)
  have dp: "data_pages s ?f ?n = (\<lambda>j. 65536 + ?st + j) ` {..<?n}"
    unfolding data_pages_def blk_page_def by (rule image_cong) (use fbu in simp_all)
  show sub: "meta_pages s ?f ?n \<union> data_pages s ?f ?n \<subseteq> {65537..<65536 + (dir_start ds + dir_blocks hs)}"
    using mp dp J Z i16 us by (auto split: if_splits)
  have mapped: "\<forall>p \<in> meta_pages s ?f ?n \<union> data_pages s ?f ?n. fmapped s p"
  proof
    fix p assume "p \<in> meta_pages s ?f ?n \<union> data_pages s ?f ?n"
    then have "p \<in> {65537..<65536 + (dir_start ds + dir_blocks hs)}" using sub by blast
    then show "fmapped s p" using m[of "p - 65536"] by auto
  qed
  show fsz: "fsize s ?f = length (ds ! i)"
  proof -
    have "vword (view s) (f_size ?f) = word_of_nat (length (ds ! i))" using fa by (simp add: file_at_def)
    then show ?thesis using small_nat[of "length (ds ! i)"] ld by (simp add: fsize_def)
  qed
  have "inj_on (\<lambda>j. fblock (view s) ?f (word_of_nat j)) {..<?n}"
  proof (rule inj_onI)
    fix x y assume x: "x \<in> {..<?n}" "y \<in> {..<?n}" and e: "fblock (view s) ?f (word_of_nat x) = fblock (view s) ?f (word_of_nat y)"
    have "?st + x = unat (fblock (view s) ?f (word_of_nat x))" "unat (fblock (view s) ?f (word_of_nat y)) = ?st + y"
      using fbu[of x] fbu[of y] x by auto
    then have "?st + x = ?st + y" by (simp only: e)
    then show "x = y" by simp
  qed
  moreover have "data_pages s ?f ?n \<inter> meta_pages s ?f ?n = {}"
  proof -
    have "p \<notin> meta_pages s ?f ?n" if "p \<in> data_pages s ?f ?n" for p
    proof
      assume "p \<in> meta_pages s ?f ?n"
      with mp have "p = 65537 \<or> p = 65536 + ?b + i div 16 \<or> 10 < ?n \<and> p = 65536 + ?st + ?n" by (auto split: if_splits)
      moreover have "\<exists>j < ?n. p = 65536 + ?st + j" using that unfolding dp by auto
      then obtain j where "p = 65536 + ?st + j" "j < ?n" by blast
      ultimately show False using J us by auto
    qed
    then show ?thesis by blast
  qed
  moreover have "file_ready s ?f ?n"
  proof -
    have "unat ?f mod 4 = 0" "unat ?f mod 4096 \<le> 3840"
    proof -
      have "unat ?f = 4 * (67108864 + 1024 * ?b + 64 * i)" using uf by simp
      then show "unat ?f mod 4 = 0" by (simp only: mod_mult_self1_is_0)
      have "img b + 256 * (16 * q + r) = 256 * r + 4096 * (65536 + b + q)" for b q r by simp
      from this[of ?b "i div 16" "i mod 16"] have "unat ?f = 256 * (i mod 16) + 4096 * (65536 + ?b + i div 16)"
        unfolding mult_div_mod_eq using uf by simp
      then have "unat ?f mod 4096 = 256 * (i mod 16) mod 4096" by (simp only: mod_mult_self2)
      moreover have "i mod 16 \<le> 15" by simp
      ultimately show "unat ?f mod 4096 \<le> 3840" by simp
    qed
    then have "?f AND 3 = 0" "unat (PGOFF ?f) \<le> 3840" by (simp_all only: and_3 unat_PGOFF)
    moreover have "in_diskmap ?f" using pf Z i16 by (simp add: in_diskmap_PGNUM)
    moreover have "?n \<le> 10 \<or> vword (view s) (f_indirect ?f) \<noteq> 0 \<and> vword (view s) (f_indirect ?f) < nbl"
    proof (cases "?n \<le> 10")
      case False
      then have "unat (vword (view s) (f_indirect ?f)) = ?st + ?n" "?st + ?n < unat nbl" using ind us J cap by simp_all
      then show ?thesis using False by (auto simp: word_less_nat_alt)
    qed simp
    moreover have "fblock (view s) ?f (word_of_nat j) \<noteq> 0 \<and> fblock (view s) ?f (word_of_nat j) < nbl" if "j < ?n" for j
    proof -
      have "unat (fblock (view s) ?f (word_of_nat j)) \<noteq> 0" "unat (fblock (view s) ?f (word_of_nat j)) < unat nbl"
        using fbu[OF that] J us cap that by simp_all
      then show ?thesis by (auto simp: word_less_nat_alt)
    qed
    moreover have "nbl \<le> 786432" using cap by (simp add: word_le_nat_alt)
    moreover have "super s \<noteq> 0" "super s AND 3 = 0" using V(3) by simp_all
    ultimately show ?thesis using n mapped d sup4 by (simp add: file_ready_def)
  qed
  ultimately show "file_wf s ?f ?n" by (simp add: file_wf_def)
qed

text \<open>C6: from the host to a buffer of the server: a file that was given to \<open>fsformat\<close> is read back by \<open>file_read\<close> from its entry
  in the root directory, at any offset below 2 GB and for any count, with the bytes that it had on the host and the
  count of what is left of it, which is 0 behind its end; the file is well formed for the other operations.  The drive
  answers, and the blocks in use but block 0, and the pages of the buffer, are in memory; free blocks need not be.\<close>

theorem formatted_file_reads_back:
  assumes "formattable nbl ents hs ds" "fsformat nbl ents heap hs = Some t" "serves s t"
    and "\<forall>b. 0 < b \<and> b < dir_start ds + dir_blocks hs \<longrightarrow> fmapped s (65536 + b)" "drive_ok s" "cache_ok s"
    and "i < length hs" "off < 2 ^ 31" "cnt < 2 ^ 32" "c = min cnt (length (ds ! i) - off)"
    and "\<forall>k < c. fmapped s (PGNUM (buf + word_of_nat k)) \<and> fwritable s (PGNUM (buf + word_of_nat k)) \<and> PGNUM (buf + word_of_nat k) < 65536"
  shows "file_wf s (root_entry s i) (nblk (length (ds ! i)))
    \<and> (\<exists>u. file_read (root_entry s i) buf (word_of_nat cnt) (word_of_nat off) s = Some (int c, u)
         \<and> (\<forall>k < c. view u (buf + word_of_nat k) = ds ! i ! (off + k)))"
proof -
  let ?n = "nblk (length (ds ! i))" and ?f = "root_entry s i"
  have m: "0 < b \<Longrightarrow> b < dir_start ds + dir_blocks hs \<Longrightarrow> fmapped s (65536 + b)" for b using assms(4) by blast
  note W = image_file_wf[OF assms(1-3) m assms(5-7)]
  have r: "file_ready s ?f ?n" using W(1) by (simp add: file_wf_def)
  have b: "buffer_ok s ?f ?n buf c" unfolding buffer_ok_def
  proof (intro allI impI)
    fix k assume k: "k < c"
    then have "PGNUM (buf + word_of_nat k) < 65536" using assms(11) by blast
    then have "PGNUM (buf + word_of_nat k) \<notin> meta_pages s ?f ?n \<union> data_pages s ?f ?n" using W(3) by auto
    then show "fmapped s (PGNUM (buf + word_of_nat k)) \<and> fwritable s (PGNUM (buf + word_of_nat k))
      \<and> PGNUM (buf + word_of_nat k) \<notin> meta_pages s ?f ?n \<union> data_pages s ?f ?n" using assms(11) k by blast
  qed
  have sz: "fsize s ?f \<le> 4096 * ?n" "c = min cnt (fsize s ?f - off)" using W(2) nblk_bounds(3) assms(10) by simp_all
  show ?thesis
  proof (cases "off < fsize s ?f")
    case False
    then have "file_read ?f buf (word_of_nat cnt) (word_of_nat off) s = Some (0, s)" "c = 0"
      using file_read_ready_eof[OF r sz(1)] assms(8) sz(2) by simp_all
    then show ?thesis using W(1) by simp
  next
    case True
    from file_read_ready[OF r sz(1) True sz(2) assms(9) b] obtain u where
      u: "file_read ?f buf (word_of_nat cnt) (word_of_nat off) s = Some (int c, u)"
      "view u = (\<lambda>a. if unat (a - buf) < c then fbyte (view s) ?f (off + unat (a - buf)) else view s a)" by blast
    have fa: "file_at (view s) ?f (start_of 3 ds i) (ds ! i)"
      using serves_image(1)[OF assms(1-3)] serves_image(5)[OF assms(1-3,7)] assms(7)
      by (simp add: image_ok_def listed_def add.assoc)
    have "view u (buf + word_of_nat k) = ds ! i ! (off + k)" if k: "k < c" for k
    proof -
      have "length (ds ! i) \<le> 4235264" using formattable_nth(2)[OF assms(1,7)] by (simp add: MAXFILESIZE_def)
      moreover have "k < length (ds ! i)" using k assms(10) by linarith
      ultimately have "unat (word_of_nat k :: u32) = k" by (intro small_nat) simp
      moreover have "off + k < length (ds ! i)" using k assms(10) by linarith
      ultimately show ?thesis using fa k by (simp add: u(2) file_at_def)
    qed
    then show ?thesis using u(1) W(1) by blast
  qed
qed

text \<open>
  A server that has just brought in the blocks of a disk of 8 blocks of which the first five are in use; the image is on its
  disk, and block 0 and the free blocks are not in memory.
\<close>

definition demo_server :: "fmt \<Rightarrow> fs" where
  "demo_server t = \<lparr>fmem = fm_mem t, fmapped = (\<lambda>p. p < 65536 \<or> 65536 < p \<and> p < 65541), fwritable = (\<lambda>_. True), fdirty = (\<lambda>_. False),
     pages_left = 0, super = 0x10001000, bitmap = 0x10002000, diskno = 1,
     disk = (\<lambda>_ sec i. fm_mem t (DISKMAP + sec * SECTSIZE + word_of_nat i)),
     ide_status = (\<lambda>_. IDE_DRDY), ide_time = 0, fs_out = []\<rparr>"

lemma demo_disk_byte:
  assumes "in_diskmap va"
  shows "disk_byte (demo_server t) va = fm_mem t va"
proof -
  let ?d = "unat va - 268435456"
  have a: "unat (va - DISKMAP) = ?d" "268435456 \<le> unat va" "?d < 4294967296"
    using assms unsigned_less[of va, where 'a = nat] by (simp_all add: in_diskmap_def DISKMAP_def unat_sub word_le_nat_alt)
  have b: "unat (block_of va) = ?d div 4096" by (simp add: unat_block_of_gen a(1))
  have o: "unat (PGOFF va) = ?d mod 4096"
  proof -
    have "unat va = ?d + 4096 * 65536" using a(2) by simp
    then have "unat va mod 4096 = ?d mod 4096" by (metis mod_mult_self2)
    then show ?thesis by (simp add: unat_PGOFF)
  qed
  define q where "q = ?d div 4096"
  define p where "p = ?d mod 4096"
  have qp: "?d = 4096 * q + p" "p < 4096" "q < 1048576" using a(3) by (simp_all add: q_def p_def less_mult_imp_div_less)
  have B: "(BLKSECTS :: u32) = 8" by (simp add: BLKSECTS_def BLKSIZE_def PGSIZE_def SECTSIZE_def)
  have bw: "block_of va * BLKSECTS = word_of_nat (8 * q)" using b nat_word[of "block_of va" q] by (simp add: B q_def)
  have "unat (word_of_nat (8 * q) :: u32) = 8 * q" using qp(3) by (intro small_nat) simp
  then have l: "ide_lba (block_of va * BLKSECTS) = word_of_nat (8 * q)" unfolding bw using qp(3) by (intro ide_lba_id) simp
  have pd: "512 * (p div 512) + p mod 512 = p" by simp
  have L: "512 * word_of_nat (p div 512) + word_of_nat (p mod 512) = (word_of_nat p :: u32)"
    using arg_cong[OF pd, of "word_of_nat :: nat \<Rightarrow> u32"] by (simp only: of_nat_add of_nat_mult of_nat_numeral)
  have "DISKMAP + (word_of_nat (8 * q) + word_of_nat (p div 512)) * SECTSIZE + word_of_nat (p mod 512)
      = DISKMAP + (word_of_nat (4096 * q) + (512 * word_of_nat (p div 512) + word_of_nat (p mod 512)))"
    by (simp add: SECTSIZE_def algebra_simps)
  also have "\<dots> = DISKMAP + word_of_nat (4096 * q + p)" by (simp only: L of_nat_add)
  also have "\<dots> = DISKMAP + (va - DISKMAP)" using nat_word[OF a(1)] qp(1) by simp
  also have "\<dots> = va" by simp
  finally show ?thesis unfolding disk_byte_def l o by (simp add: demo_server_def p_def)
qed

lemma demo_server_serves:
  assumes "unat (fm_nblocks t) \<le> 1024"
  shows "serves (demo_server t) t" "drive_ok (demo_server t)" "cache_ok (demo_server t)"
proof -
  have v: "view (demo_server t) x = fm_mem t x" if "in_diskmap x" for x
    using demo_disk_byte[OF that] by (simp add: view_def demo_server_def)
  have "in_diskmap x" if "unat DISKMAP \<le> unat x" "unat x < unat DISKMAP + 4096 * unat (fm_nblocks t)" for x
    using that assms by (simp add: in_diskmap_def DISKMAP_def DISKSIZE_def word_le_nat_alt word_less_nat_alt)
  then show "serves (demo_server t) t" using v
    by (simp add: serves_def) (simp add: demo_server_def DISKMAP_def BLKSIZE_def PGSIZE_def)
  show "drive_ok (demo_server t)" by (simp add: demo_server_def drive_ok_def)
  show "cache_ok (demo_server t)" unfolding cache_ok_def
    using demo_disk_byte by (simp add: demo_server_def)
qed

theorem formatted_file_reads_back_witness:
  "\<exists>t u. fsformat 8 0x8000000 (\<lambda>_. 204) [demo_hfile] = Some t
     \<and> file_read (root_entry (demo_server t) 0) 0x1000 (word_of_nat 10) (word_of_nat 1) (demo_server t) = Some (2, u)
     \<and> view u 0x1000 = 105 \<and> view u 0x1001 = 10"
proof -
  from format_image[OF demo_formattable, of "\<lambda>_. 204"] obtain t where t: "fsformat 8 0x8000000 (\<lambda>_. 204) [demo_hfile] = Some t" by blast
  have "unat (fm_nblocks t) \<le> 1024" using format_image[OF demo_formattable, of "\<lambda>_. 204"] t by auto
  note S = demo_server_serves[OF this]
  have l: "(0 :: nat) < length [demo_hfile]" "(1 :: nat) < 2 ^ 31" "(10 :: nat) < 2 ^ 32"
    "2 = min 10 (length ([[104, 105, 10 :: u8]] ! 0) - 1)" by simp_all
  have m: "\<forall>b. 0 < b \<and> b < dir_start [[104, 105, 10 :: u8]] + dir_blocks [demo_hfile] \<longrightarrow> fmapped (demo_server t) (65536 + b)"
    by (simp add: demo_server_def dir_start_def start_of_def dir_blocks_def used_def nblk_def)
  have "k = 0 \<or> k = 1" if "k < 2" for k :: nat using that by linarith
  then have b: "\<forall>k < 2. fmapped (demo_server t) (PGNUM (0x1000 + word_of_nat k)) \<and> fwritable (demo_server t) (PGNUM (0x1000 + word_of_nat k))
      \<and> PGNUM (0x1000 + word_of_nat k) < 65536"
    by (force simp: demo_server_def PGNUM_arith)
  from formatted_file_reads_back[OF demo_formattable t S(1) m S(2,3) l b] obtain u where
    u: "file_read (root_entry (demo_server t) 0) 0x1000 (word_of_nat 10) (word_of_nat 1) (demo_server t) = Some (int 2, u)"
    and v: "\<And>k. k < 2 \<Longrightarrow> view u (0x1000 + word_of_nat k) = [[104, 105, 10]] ! 0 ! (1 + k)" by blast
  show ?thesis using t u v[of 0] v[of 1] by auto
qed

end
