(* ===== verification/ShellExec.thy ===== *)
theory ShellExec
  imports Shell
begin

text \<open>
  Running a parsed command in the Linux shell, \<open>TPShell/exec.c\<close>: environment variables, redirections and
  pipelines.  A process has a descriptor table, each entry with its close-on-exec flag, and an environment;
  what the system may refuse is a record of tests.  A process is named by its path from the child that the
  shell forked, and a pipe by the process that made it.  What happens is a tree: a process becomes a program,
  ends, comes back to its caller, follows a bad pointer, or forks.
\<close>

section \<open>The system\<close>

datatype chan = Given nat | ReadFile string | WriteFile string | PipeRead "nat list" | PipeWrite "nat list"

record proc =
  pr_path :: "nat list"
  pr_fds :: "nat \<Rightarrow> (chan \<times> bool) option"
  pr_env :: "string \<Rightarrow> string option"
  pr_made :: "string list"   \<comment> \<open>files created or cut to nothing\<close>

record kern =
  can_open :: "string \<Rightarrow> bool \<Rightarrow> bool"   \<comment> \<open>the name, and whether it is for writing\<close>
  can_pipe :: "nat list \<Rightarrow> bool"
  can_fork :: "nat list \<Rightarrow> nat \<Rightarrow> bool"    \<comment> \<open>a process, and which of its children\<close>
  can_exec :: "string \<Rightarrow> bool"

definition OPEN_MAX :: nat where "OPEN_MAX = 1024"

fun lowest :: "nat \<Rightarrow> nat \<Rightarrow> (nat \<Rightarrow> (chan \<times> bool) option) \<Rightarrow> nat option" where
  "lowest 0 i fds = None"
| "lowest (Suc n) i fds = (if fds i = None then Some i else lowest n (i + 1) fds)"

definition posix_open :: "kern \<Rightarrow> string \<Rightarrow> bool \<Rightarrow> bool \<Rightarrow> proc \<Rightarrow> int \<times> proc" where
  "posix_open k file wr cloexec p = (case lowest OPEN_MAX 0 (pr_fds p) of
      Some i \<Rightarrow>
        if can_open k file wr then
          (int i, p\<lparr>pr_fds := (pr_fds p)(i \<mapsto> (if wr then WriteFile file else ReadFile file, cloexec)),
                    pr_made := pr_made p @ (if wr then [file] else [])\<rparr>)
        else (- 1, p)
    | None \<Rightarrow> (- 1, p))"

text \<open>A descriptor that is not open is refused, and the table stays.\<close>

definition posix_dup2 :: "int \<Rightarrow> nat \<Rightarrow> proc \<Rightarrow> proc" where
  "posix_dup2 old new p =
     (if old < 0 then p else case pr_fds p (nat old) of
        None \<Rightarrow> p
      | Some (c, _) \<Rightarrow> if nat old = new then p else p\<lparr>pr_fds := (pr_fds p)(new \<mapsto> (c, False))\<rparr>)"

definition posix_close :: "int \<Rightarrow> proc \<Rightarrow> proc" where
  "posix_close fd p = (if fd < 0 then p else p\<lparr>pr_fds := (pr_fds p)(nat fd := None)\<rparr>)"

definition posix_pipe :: "kern \<Rightarrow> proc \<Rightarrow> (int \<times> int \<times> int) \<times> proc" where
  "posix_pipe k p = (case lowest OPEN_MAX 0 (pr_fds p) of
      None \<Rightarrow> ((- 1, 0, 0), p)
    | Some i \<Rightarrow> (case lowest OPEN_MAX 0 ((pr_fds p)(i \<mapsto> (PipeRead (pr_path p), False))) of
        None \<Rightarrow> ((- 1, 0, 0), p)
      | Some j \<Rightarrow>
          if can_pipe k (pr_path p) then
            ((0, int i, int j), p\<lparr>pr_fds := (pr_fds p)(i \<mapsto> (PipeRead (pr_path p), False), j \<mapsto> (PipeWrite (pr_path p), False))\<rparr>)
          else ((- 1, 0, 0), p)))"

text \<open>The child number \<open>i\<close> of a process.\<close>

definition child :: "nat \<Rightarrow> proc \<Rightarrow> proc" where
  "child i p = p\<lparr>pr_path := pr_path p @ [i]\<rparr>"

datatype run = Program "string list" proc | Exited int | Returned proc | Crash | Forks "run list" run

text \<open>\<open>execvp\<close>: close-on-exec descriptors are closed; a null name is followed, and a failure comes back.\<close>

definition on_exec :: "proc \<Rightarrow> proc" where
  "on_exec p = p\<lparr>pr_fds := (\<lambda>i. case pr_fds p i of Some (c, False) \<Rightarrow> Some (c, False) | _ \<Rightarrow> None)\<rparr>"

definition posix_exec :: "kern \<Rightarrow> string list \<Rightarrow> (proc \<Rightarrow> run) \<Rightarrow> proc \<Rightarrow> run" where
  "posix_exec k args failed p = (case those (map (\<lambda>b. str_in b 0) args) of
      None \<Rightarrow> Crash
    | Some [] \<Rightarrow> Crash
    | Some (x # xs) \<Rightarrow> if can_exec k x then Program (x # xs) (on_exec p) else failed p)"

section \<open>exec.c\<close>

definition get_environ_key :: "string \<Rightarrow> string option" where
  "get_environ_key arg =
     (let key = takeWhile (\<lambda>c. c \<noteq> CHR ''='') arg
      in if length key < length arg \<and> length key < BUFLEN then Some key else None)"

definition get_environ_value :: "string \<Rightarrow> nat \<Rightarrow> string option" where
  "get_environ_value arg idx =
     (let value = drop (idx + 1) arg in if length value < BUFLEN then Some value else None)"

fun set_environ_vars :: "string list \<Rightarrow> proc \<Rightarrow> proc option" where
  "set_environ_vars [] p = Some p"
| "set_environ_vars (arg # vars) p = do {
     key \<leftarrow> get_environ_key arg;
     value \<leftarrow> get_environ_value arg (nat (block_contains arg CHR ''=''));
     set_environ_vars vars (p\<lparr>pr_env := (pr_env p)(key \<mapsto> value)\<rparr>)
   }"

text \<open>In the first call the flag \<open>O_CLOEXEC\<close> stands where the mode belongs, which is not looked at.\<close>

definition open_redir_fd :: "kern \<Rightarrow> string \<Rightarrow> nat \<Rightarrow> proc \<Rightarrow> int \<times> proc" where
  "open_redir_fd k file flags p =
     (if flags = 0 then posix_open k file False False p
      else if flags = 1 then posix_open k file True True p
      else (- 1, p))"

definition close_if_valid :: "int \<Rightarrow> proc \<Rightarrow> proc" where
  "close_if_valid fd p = (if fd \<noteq> - 1 then posix_close fd p else p)"

text \<open>One of the three redirections: \<open>None\<close> when the file cannot be opened.\<close>

definition redir_to :: "kern \<Rightarrow> string \<Rightarrow> nat \<Rightarrow> nat \<Rightarrow> proc \<Rightarrow> (int \<times> proc) option" where
  "redir_to k file flags target p =
     (if file = [] then Some (- 1, p)
      else (let (fd, p) = open_redir_fd k file flags p in
            if fd = - 1 then None else Some (fd, posix_dup2 fd target p)))"

definition run_redir :: "kern \<Rightarrow> execcmd \<Rightarrow> proc \<Rightarrow> run" where
  "run_redir k r p = (case redir_to k (in_file r) 0 0 p of
      None \<Rightarrow> Exited (- 1)
    | Some (fd_in, p) \<Rightarrow> (case redir_to k (out_file r) 1 1 p of
        None \<Rightarrow> Exited (- 1)
      | Some (fd_out, p) \<Rightarrow> (case (if err_file r \<noteq> [] \<and> block_contains (err_file r) CHR ''&'' \<ge> 0 then Some (- 1, posix_dup2 fd_out 2 p)
                                  else redir_to k (err_file r) 1 2 p) of
          None \<Rightarrow> Exited (- 1)
        | Some (fd_err, p) \<Rightarrow>
            posix_exec k (argv r) Returned (close_if_valid fd_err (close_if_valid fd_out (close_if_valid fd_in p))))))"

text \<open>Freeing a command follows every pointer of the tree (\<open>freecmd.c\<close>); a null one is not tested for.\<close>

fun free_command :: "cmd \<Rightarrow> bool" where
  "free_command (Exec e) = True"
| "free_command (Back x c) = free_command c"
| "free_command (Pipe None r) = False"
| "free_command (Pipe (Some l) r) = (free_command l \<and> free_command r)"

definition then_free :: "cmd \<Rightarrow> run \<Rightarrow> run" where
  "then_free c r = (if free_command c then r else Crash)"

text \<open>
  The parent of a pipeline waits for its second child and then for its first.  Both children come back to
  \<open>exec_cmd\<close>, which is \<open>ex\<close> here.
\<close>

definition run_pipes :: "(cmd \<Rightarrow> proc \<Rightarrow> run) \<Rightarrow> kern \<Rightarrow> cmd option \<Rightarrow> cmd \<Rightarrow> proc \<Rightarrow> run" where
  "run_pipes ex k l r p =
     (let ((e, fdr, fdw), p) = posix_pipe k p in
      if e = - 1 then Returned p
      else if \<not> can_fork k (pr_path p) 0 then then_free (Pipe l r) (Exited (- 1))
      else
        let left = (let q = posix_close fdw (posix_dup2 fdw 1 (posix_close fdr (child 0 p)))
                    in case l of None \<Rightarrow> Crash | Some l \<Rightarrow> ex l q)
        in if \<not> can_fork k (pr_path p) 1 then Forks [left] (then_free (Pipe l r) (Exited (- 1)))
           else
             let right = (let q = posix_close fdr (posix_dup2 fdr 0 (posix_close fdw (child 1 p)))
                          in case l of None \<Rightarrow> Crash | Some l \<Rightarrow> then_free l (ex r q))
             in Forks [left, right] (then_free (Pipe l r) (Exited 0)))"

lemma run_pipes_cong [fundef_cong]:
  assumes "k = k'" "l = l'" "r = r'" "p = p'" "\<And>x q. x = r' \<or> l' = Some x \<Longrightarrow> ex x q = ex' x q"
  shows "run_pipes ex k l r p = run_pipes ex' k' l' r' p'"
  unfolding assms(1-4) run_pipes_def Let_def using assms(5) by (auto simp: split: option.splits prod.splits)

fun exec_cmd :: "kern \<Rightarrow> cmd \<Rightarrow> proc \<Rightarrow> run" where
  "exec_cmd k (Exec e) p =
     (if redir e then run_redir k e p
      else case set_environ_vars (eargv e) p of
        None \<Rightarrow> Crash
      | Some p \<Rightarrow> posix_exec k (argv e) (\<lambda>_. Exited (- 1)) p)"
| "exec_cmd k (Back x c) p = exec_cmd k c p"
| "exec_cmd k (Pipe l r) p = run_pipes (exec_cmd k) k l r p"

section \<open>What a pipeline starts\<close>

text \<open>The programs of a run, in the order of their commands, with what is open in each.\<close>

fun programs :: "run \<Rightarrow> (string list \<times> (nat \<Rightarrow> (chan \<times> bool) option)) list" where
  "programs (Program a p) = [(a, pr_fds p)]"
| "programs (Exited i) = []"
| "programs (Returned p) = []"
| "programs Crash = []"
| "programs (Forks rs e) = concat (map programs rs) @ programs e"

fun sound :: "run \<Rightarrow> bool" where
  "sound (Program a p) = True"
| "sound (Exited i) = (i = 0)"
| "sound (Returned p) = False"
| "sound Crash = False"
| "sound (Forks rs e) = ((\<forall>r \<in> set rs. sound r) \<and> sound e)"

definition three :: "chan \<Rightarrow> chan \<Rightarrow> chan \<Rightarrow> nat \<Rightarrow> (chan \<times> bool) option" where
  "three i x e = [0 \<mapsto> (i, False), 1 \<mapsto> (x, False), 2 \<mapsto> (e, False)]"

text \<open>The plan: every program reads from the pipe before it and writes to the one behind it.\<close>

fun plan :: "nat list \<Rightarrow> chan \<Rightarrow> chan \<Rightarrow> chan \<Rightarrow> string list list \<Rightarrow> (string list \<times> (nat \<Rightarrow> (chan \<times> bool) option)) list" where
  "plan path i x e [] = []"
| "plan path i x e [c] = [(c, three i x e)]"
| "plan path i x e (c # cs) = (c, three i (PipeWrite path) e) # plan (path @ [1]) (PipeRead path) x e cs"

lemma lowest_step: "0 < n \<Longrightarrow> lowest n i fds = (if fds i = None then Some i else lowest (n - 1) (i + 1) fds)"
  by (cases n) auto

lemma pipe_three:
  assumes "pr_fds p = three i x e" "can_pipe k (pr_path p)"
  shows "posix_pipe k p = ((0, 3, 4), p\<lparr>pr_fds := (three i x e)(3 \<mapsto> (PipeRead (pr_path p), False), 4 \<mapsto> (PipeWrite (pr_path p), False))\<rparr>)"
proof -
  have a: "lowest OPEN_MAX 0 (three i x e) = Some 3"
    by (simp add: OPEN_MAX_def lowest_step three_def)
  have b: "lowest OPEN_MAX 0 ((three i x e)(3 \<mapsto> y)) = Some 4" for y
    by (simp add: OPEN_MAX_def lowest_step three_def)
  show ?thesis using assms by (simp add: posix_pipe_def a b)
qed

lemma on_exec_three: "pr_fds p = three i x e \<Longrightarrow> pr_fds (on_exec p) = three i x e"
  by (auto simp: on_exec_def three_def fun_eq_iff)

lemma exec_simple:
  assumes "good_cmd c" "can_exec k (hd c)" "pr_fds p = three i x e"
  shows "programs (exec_cmd k (simple c t) p) = [(c, three i x e)]" "sound (exec_cmd k (simple c t) p)"
proof -
  have w: "str_in (word_block v) 0 = Some v" if "plain v" for v
  proof -
    have "NUL \<notin> set v" "length v < ARGSIZE" using that by (auto simp: plain_def)
    then show ?thesis by (simp add: str_in_def word_block_def takeWhile_append Let_def)
  qed
  have "those (map (\<lambda>b. str_in b 0) (map word_block ws)) = Some ws" if "\<forall>w \<in> set ws. plain w" for ws
    using that by (induction ws) (auto simp: w)
  then have "those (map (\<lambda>b. str_in b 0) (map word_block c)) = Some c" using assms(1) by (simp add: good_cmd_def)
  then have "exec_cmd k (simple c t) p = Program c (on_exec p)"
    using assms(1,2) by (cases c) (simp_all add: simple_def exec_cmd_create_def posix_exec_def good_cmd_def)
  then show "programs (exec_cmd k (simple c t) p) = [(c, three i x e)]" "sound (exec_cmd k (simple c t) p)"
    using on_exec_three[OF assms(3)] by simp_all
qed

definition willing :: "kern \<Rightarrow> string list list \<Rightarrow> bool" where
  "willing k cs \<longleftrightarrow> (\<forall>pa. can_pipe k pa) \<and> (\<forall>pa i. can_fork k pa i) \<and> (\<forall>c \<in> set cs. can_exec k (hd c))"

lemma free_simple [simp]: "free_command (simple c t)"
  by (simp add: simple_def)

lemma free_pipeline [simp]: "free_command (pipeline cs)"
  by (induction cs rule: pipeline.induct) auto

lemma exec_pipeline:
  "cs \<noteq> [] \<Longrightarrow> \<forall>c \<in> set cs. good_cmd c \<Longrightarrow> willing k cs \<Longrightarrow> pr_fds p = three i x e
     \<Longrightarrow> programs (exec_cmd k (pipeline cs) p) = plan (pr_path p) i x e cs \<and> sound (exec_cmd k (pipeline cs) p)"
proof (induction cs arbitrary: p i rule: pipeline.induct)
  case (2 c)
  then show ?case using exec_simple[of c k p i x e "[]"] by (auto simp: willing_def)
next
  case (3 c d cs)
  let ?F = "(three i x e)(3 \<mapsto> (PipeRead (pr_path p), False), 4 \<mapsto> (PipeWrite (pr_path p), False))"
  let ?p = "p\<lparr>pr_fds := ?F\<rparr>"
  have k: "can_pipe k (pr_path p)" "can_fork k (pr_path p) 0" "can_fork k (pr_path p) 1" "can_exec k (hd c)"
    "willing k (d # cs)"
    using "3.prems"(3) by (simp_all add: willing_def)
  have l: "pr_fds (posix_close 4 (posix_dup2 4 1 (posix_close 3 (child 0 ?p)))) = three i (PipeWrite (pr_path p)) e"
    by (auto simp: posix_close_def posix_dup2_def child_def three_def fun_eq_iff)
  have r: "pr_fds (posix_close 3 (posix_dup2 3 0 (posix_close 4 (child 1 ?p)))) = three (PipeRead (pr_path p)) x e"
    by (auto simp: posix_close_def posix_dup2_def child_def three_def fun_eq_iff)
  have path: "pr_path (posix_close a (posix_dup2 b n (posix_close f q))) = pr_path q" for a b n f q
    by (simp add: posix_close_def posix_dup2_def split: option.splits)
  have g: "good_cmd c" "\<forall>c \<in> set (d # cs). good_cmd c" using "3.prems"(2) by simp_all
  note L = exec_simple[OF g(1) k(4) l, of "[SPACE]"]
  have R: "programs (exec_cmd k (pipeline (d # cs)) (posix_close 3 (posix_dup2 3 0 (posix_close 4 (child 1 ?p)))))
      = plan (pr_path p @ [1]) (PipeRead (pr_path p)) x e (d # cs)"
    "sound (exec_cmd k (pipeline (d # cs)) (posix_close 3 (posix_dup2 3 0 (posix_close 4 (child 1 ?p)))))"
    using "3.IH"[OF _ g(2) k(5) r] by (simp_all add: path child_def)
  have "exec_cmd k (pipeline (c # d # cs)) p
      = Forks [exec_cmd k (simple c [SPACE]) (posix_close 4 (posix_dup2 4 1 (posix_close 3 (child 0 ?p)))),
               exec_cmd k (pipeline (d # cs)) (posix_close 3 (posix_dup2 3 0 (posix_close 4 (child 1 ?p))))] (Exited 0)"
    using pipe_three[OF "3.prems"(4) k(1)] k(2,3) by (simp add: run_pipes_def Let_def then_free_def)
  then show ?case using L R by simp
qed simp

text \<open>C5: a line that is a pipeline of plain commands is parsed and run as it reads: the programs are exactly the
  commands in their order, each with its own words; each reads from the pipe that the command before it
  writes to, the first from the standard input of the shell and the last to its standard output; nothing else
  is open in any of them, so that every pipe ends when its writer does; and every other process of the run
  ends with status 0.\<close>

theorem pipeline_runs_connected:
  assumes "length cs \<ge> 2" "\<forall>c \<in> set cs. good_cmd c" "length (line_of cs) < BUFLEN"
    and "willing k cs" "pr_fds p = three i x e"
  shows "\<exists>c. parse_line env status (line_of cs @ [NUL]) 0 = Some (Some c)
    \<and> programs (exec_cmd k c p) = plan (pr_path p) i x e cs \<and> sound (exec_cmd k c p)"
proof -
  have "parse_line env status (line_of cs @ [NUL]) 0 = Some (Some (pipeline cs))"
    using parse_line_pipes[OF assms(1-3), of env status "[]" "[]"] by simp
  moreover have "cs \<noteq> []" using assms(1) by auto
  ultimately show ?thesis using exec_pipeline[OF _ assms(2,4,5)] by blast
qed

definition demo_kern :: kern where
  "demo_kern = \<lparr>can_open = (\<lambda>f w. f \<noteq> ''none''), can_pipe = (\<lambda>_. True), can_fork = (\<lambda>_ _. True), can_exec = (\<lambda>f. f \<noteq> ''none'')\<rparr>"

definition demo_proc :: proc where
  "demo_proc = \<lparr>pr_path = [], pr_fds = three (Given 0) (Given 1) (Given 2), pr_env = Map.empty, pr_made = []\<rparr>"

theorem pipeline_runs_connected_witness:
  "\<exists>c. parse_line Map.empty 0 (line_of [[''ls'', ''d''], [''sort''], [''wc'']] @ [NUL]) 0 = Some (Some c)
    \<and> programs (exec_cmd demo_kern c demo_proc)
      = [([''ls'', ''d''], three (Given 0) (PipeWrite []) (Given 2)), ([''sort''], three (PipeRead []) (PipeWrite [1]) (Given 2)),
         ([''wc''], three (PipeRead [1]) (Given 1) (Given 2))]"
proof -
  have "\<forall>c \<in> set [[''ls'', ''d''], [''sort''], [''wc'']]. good_cmd c"
    by (simp add: good_cmd_def plain_def ARGSIZE_def MAXARGS_def NUL_def SPACE_def)
  moreover have "willing demo_kern [[''ls'', ''d''], [''sort''], [''wc'']]" by (simp add: willing_def demo_kern_def)
  ultimately show ?thesis
    using pipeline_runs_connected[of "[[''ls'', ''d''], [''sort''], [''wc'']]" demo_kern demo_proc "Given 0" "Given 1" "Given 2" Map.empty 0]
    by (auto simp: demo_proc_def line_of_def BUFLEN_def)
qed

section \<open>Redirections\<close>

text \<open>A redirected command runs with what was asked for and nothing else open, if all three standard descriptors were.\<close>

lemma redir_three:
  assumes "pr_fds p = three i x e" "file \<noteq> []" "can_open k file (fl = 1)" "fl = 0 \<or> fl = 1" "t < 3"
  shows "\<exists>q. redir_to k file fl t p = Some (3, q) \<and> pr_env q = pr_env p \<and>
    pr_fds q = (three i x e)(3 \<mapsto> (if fl = 1 then WriteFile file else ReadFile file, fl = 1),
                             t \<mapsto> (if fl = 1 then WriteFile file else ReadFile file, False))"
proof -
  have "lowest OPEN_MAX 0 (three i x e) = Some 3" by (simp add: OPEN_MAX_def lowest_step three_def)
  then show ?thesis using assms
    by (auto simp: redir_to_def open_redir_fd_def posix_open_def posix_dup2_def)
qed

text \<open>A program that cannot be run after a redirection comes back, and variables before it are not set.\<close>

lemma run_redir_exec_failure:
  "exec_cmd demo_kern (Exec \<lparr>redir = True, scmd = [], argv = [''none'' @ [NUL]], eargv = [''A=1''], out_file = ''o'', in_file = [], err_file = []\<rparr>) demo_proc
     = Returned (demo_proc\<lparr>pr_fds := three (Given 0) (WriteFile ''o'') (Given 2), pr_made := [''o'']\<rparr>)"
proof -
  have "lowest OPEN_MAX 0 (three (Given 0) (Given 1) (Given 2)) = Some 3" by (simp add: OPEN_MAX_def lowest_step three_def)
  moreover have "((three (Given 0) (Given 1) (Given 2))(3 \<mapsto> (WriteFile ''o'', True), Suc 0 \<mapsto> (WriteFile ''o'', False)))(3 := None)
      = three (Given 0) (WriteFile ''o'') (Given 2)"
    by (auto simp: three_def fun_eq_iff)
  ultimately show ?thesis
    by (simp add: run_redir_def redir_to_def open_redir_fd_def posix_open_def posix_dup2_def posix_close_def close_if_valid_def
      posix_exec_def demo_kern_def demo_proc_def str_in_def NUL_def)
qed

text \<open>\<open>2>&1\<close> without a redirection of the output changes nothing, and an empty left side of a bar is a null pointer.\<close>

lemma err_to_out_alone:
  "redir r \<Longrightarrow> in_file r = [] \<Longrightarrow> out_file r = [] \<Longrightarrow> err_file r = ''&1'' \<Longrightarrow> exec_cmd k (Exec r) p = posix_exec k (argv r) Returned p"
  by (simp add: run_redir_def redir_to_def posix_dup2_def close_if_valid_def block_contains_def)

lemma empty_left_side: "programs (exec_cmd k (Pipe None r) p) = []"
  by (simp add: run_pipes_def then_free_def split_beta Let_def)

end
