(* ===== verification/Args.thy ===== *)
theory Args
  imports Prelude
begin

text \<open>
  Command line options, \<open>lib/args.c\<close>.  An argument vector is the list of its strings, without terminators,
  and \<open>argc\<close> its length; a pointer into an argument is the rest of the string from there, and the null
  pointer is \<open>None\<close>.
\<close>

record argstate =
  ar_argv :: "u8 list list"
  curarg :: "u8 list option"
  ar_value :: "u8 list option"

definition DASH :: u8 where "DASH = 45"

definition argstart :: "u8 list list \<Rightarrow> argstate" where
  "argstart argv = \<lparr>ar_argv = argv, curarg = (if length argv > 1 then Some [] else None), ar_value = None\<rparr>"

text \<open>The \<open>memmove\<close> that drops \<open>argv[1]\<close>.\<close>

definition shift_args :: "u8 list list \<Rightarrow> u8 list list" where
  "shift_args argv = take 1 argv @ drop 2 argv"

definition end_of_args :: "argstate \<Rightarrow> int \<times> argstate" where
  "end_of_args st = (-1, st\<lparr>curarg := None\<rparr>)"

text \<open>\<open>argv[1][0] != '-' || argv[1][1] == '\\0'\<close>\<close>

definition not_option :: "u8 list \<Rightarrow> bool" where
  "not_option a \<longleftrightarrow> a = [] \<or> a ! 0 \<noteq> DASH \<or> length a = 1"

text \<open>The last part of \<open>argnext\<close>: the character, and the pointer moved past it.\<close>

definition take_flag :: "u8 list \<Rightarrow> argstate \<Rightarrow> int \<times> argstate" where
  "take_flag cur st = (uint (cur ! 0), st\<lparr>curarg := Some (drop 1 cur)\<rparr>)"

definition argnext :: "argstate \<Rightarrow> int \<times> argstate" where
  "argnext st =
     (let st = st\<lparr>ar_value := None\<rparr> in
      case curarg st of
        None \<Rightarrow> (-1, st)
      | Some cur \<Rightarrow>
          if cur \<noteq> [] then take_flag cur st
          else if length (ar_argv st) = 1 \<or> not_option (ar_argv st ! 1) then end_of_args st
          else (let cur = drop 1 (ar_argv st ! 1); st = st\<lparr>curarg := Some cur, ar_argv := shift_args (ar_argv st)\<rparr>
                in if cur = [DASH] then end_of_args st else take_flag cur st))"

definition argnextvalue :: "argstate \<Rightarrow> u8 list option \<times> argstate" where
  "argnextvalue st = (case curarg st of
      None \<Rightarrow> (None, st)
    | Some cur \<Rightarrow>
        let st = (if cur \<noteq> [] then st\<lparr>ar_value := Some cur, curarg := Some []\<rparr>
                  else if length (ar_argv st) > 1 then st\<lparr>ar_value := Some (ar_argv st ! 1), ar_argv := shift_args (ar_argv st)\<rparr>
                  else st\<lparr>ar_value := None, curarg := None\<rparr>)
        in (ar_value st, st))"

definition argvalue :: "argstate \<Rightarrow> u8 list option \<times> argstate" where
  "argvalue st = (case ar_value st of Some v \<Rightarrow> (Some v, st) | None \<Rightarrow> argnextvalue st)"

section \<open>All the options\<close>

text \<open>The reference: the flags of the arguments that start with a dash, up to \<open>--\<close> or the first argument
  that is no option, and the arguments that are left.\<close>

fun options :: "u8 list list \<Rightarrow> u8 list \<times> u8 list list" where
  "options [] = ([], [])"
| "options (a # as) =
     (if not_option a then ([], a # as)
      else if a = [DASH, DASH] then ([], as)
      else (let (fs, rest) = options as in (tl a @ fs, rest)))"

text \<open>\<open>n\<close> calls of \<open>argnext\<close>.\<close>

fun argnexts :: "nat \<Rightarrow> argstate \<Rightarrow> int list \<times> argstate" where
  "argnexts 0 st = ([], st)"
| "argnexts (Suc n) st = (let (r, st) = argnext st; (rs, st) = argnexts n st in (r # rs, st))"

lemma argnexts_flags:
  assumes "curarg st = Some cur"
  shows "argnexts (length cur + n) st
    = (let (rs, u) = argnexts n (st\<lparr>curarg := Some [], ar_value := if cur = [] then ar_value st else None\<rparr>) in (map uint cur @ rs, u))"
  using assms
proof (induction cur arbitrary: st)
  case Nil
  then have "st\<lparr>curarg := Some [], ar_value := ar_value st\<rparr> = st" by simp
  then show ?case by (simp add: split_beta)
next
  case (Cons c cs)
  have e: "argnext st = (uint c, st\<lparr>ar_value := None, curarg := Some cs\<rparr>)"
    using Cons.prems by (simp add: argnext_def take_flag_def Let_def)
  show ?case using Cons.IH[of "st\<lparr>ar_value := None, curarg := Some cs\<rparr>"]
    by (simp add: e split_beta Let_def)
qed

text \<open>Repeated calls of \<open>argnext\<close> after \<open>argstart\<close> return exactly the flags of the
  reference, in order, and then -1; what is left of the argument vector is the program name and the
  arguments after the options.\<close>

lemma argnexts_options:
  assumes "ar_argv st = prog # as" and "curarg st = Some []" and "options as = (fs, rest)"
  shows "\<exists>u. argnexts (length fs + 1) st = (map uint fs @ [-1], u) \<and> ar_argv u = prog # rest \<and> curarg u = None"
  using assms
proof (induction as arbitrary: st fs rest)
  case Nil
  then show ?case by (auto simp: argnext_def end_of_args_def Let_def)
next
  case (Cons a as)
  show ?case
  proof (cases "not_option a \<or> a = [DASH, DASH]")
    case True
    then show ?thesis using Cons.prems
      by (auto simp: argnext_def end_of_args_def shift_args_def Let_def not_option_def split: if_splits)
  next
    case False
    obtain gs where gs: "options as = (gs, rest)" and fs: "fs = tl a @ gs"
      using Cons.prems(3) False by (cases "options as") auto
    from False obtain c cs where a: "a = DASH # c # cs" by (cases a; cases "tl a") (auto simp: not_option_def)
    then have ne: "c # cs \<noteq> [DASH]" using False by auto
    let ?v = "st\<lparr>ar_value := None, curarg := Some cs, ar_argv := prog # as\<rparr>"
    have e: "argnext st = (uint c, ?v)"
      using Cons.prems(1,2) False ne unfolding a by (auto simp: argnext_def take_flag_def shift_args_def Let_def numeral_2_eq_2)
    let ?w = "?v\<lparr>curarg := Some [], ar_value := if cs = [] then ar_value ?v else None\<rparr>"
    from Cons.IH[of ?w gs rest] gs obtain u where
      u: "argnexts (length gs + 1) ?w = (map uint gs @ [-1], u)" "ar_argv u = prog # rest" "curarg u = None" by auto
    have l: "length fs + 1 = Suc (length cs + (length gs + 1))" by (simp add: fs a)
    have "argnexts (length fs + 1) st = (map uint fs @ [-1], u)"
      using argnexts_flags[of ?v cs "length gs + 1"] u(1) unfolding l argnexts.simps(2)
      by (simp add: e fs a del: argnexts.simps)
    then show ?thesis using u by blast
  qed
qed

theorem argnext_options:
  assumes "options as = (fs, rest)"
  shows "\<exists>u. argnexts (length fs + 1) (argstart (prog # as)) = (map uint fs @ [-1], u) \<and> ar_argv u = prog # rest"
proof (cases as)
  case Nil
  then show ?thesis using assms by (auto simp: argstart_def argnext_def Let_def)
next
  case (Cons a bs)
  then show ?thesis using argnexts_options[of "argstart (prog # as)" prog as fs rest] assms by (auto simp: argstart_def)
qed

theorem argnext_options_witness:
  "\<exists>u. argnexts 4 (argstart [[115, 104], [45, 100, 105], [45, 120], [45, 45], [45, 97]]) = ([100, 105, 120, -1], u)
     \<and> ar_argv u = [[115, 104], [45, 97]]"
proof -
  have o: "options [[45, 100, 105], [45, 120], [45, 45], [45, 97]] = ([100, 105, 120], [[45, 97]])"
    by (simp add: not_option_def DASH_def)
  have l: "length [100, 105, 120 :: u8] + 1 = 4" by simp
  show ?thesis using argnext_options[OF o, of "[115, 104]", unfolded l] by simp
qed

end
