(* ===== verification/JosSh.thy ===== *)
theory JosSh
  imports Args Mmu
begin

text \<open>
  The shell of the user environment, \<open>user/sh.c\<close>: cutting a line into tokens in place, and running the
  command.  The line is a list of bytes with its terminator, and a pointer into it is an index.  What the
  shell asks of the library (\<open>open\<close>, \<open>dup\<close>, \<open>fork\<close>, \<open>spawn\<close> and so on) is a record of functions on the state of
  the outside world.  Messages and the debugging output are left out; a panic, an access outside the
  line, and a store outside an array are \<open>None\<close>.
\<close>

section \<open>Tokens\<close>

definition sh_white :: "u8 list" where "sh_white = [32, 9, 13, 10]"
definition sh_symbols :: "u8 list" where "sh_symbols = [60, 124, 62, 38, 59, 40, 41]"

text \<open>Space, tab, return, newline; and \<open><|>&;()\<close>.\<close>

partial_function (option) skip_white :: "nat \<Rightarrow> u8 list \<Rightarrow> (nat \<times> u8 list) option" where
  "skip_white s buf =
     (if length buf \<le> s then None
      else if buf ! s \<in> set sh_white then skip_white (s + 1) (buf[s := 0])
      else Some (s, buf))"

partial_function (option) skip_word :: "nat \<Rightarrow> u8 list \<Rightarrow> nat option" where
  "skip_word s buf =
     (if length buf \<le> s then None
      else if buf ! s \<noteq> 0 \<and> buf ! s \<notin> set (sh_white @ sh_symbols) then skip_word (s + 1) buf
      else Some s)"

text \<open>The token, \<open>*p1\<close>, \<open>*p2\<close> and the line; with a null pointer the two are left as they were.\<close>

definition sh_word :: u8 where "sh_word = 119"

definition gettoken_at :: "nat option \<Rightarrow> nat option \<Rightarrow> nat option \<Rightarrow> u8 list \<Rightarrow> (u8 \<times> nat option \<times> nat option \<times> u8 list) option" where
  "gettoken_at s p1 p2 buf = (case s of
      None \<Rightarrow> Some (0, p1, p2, buf)
    | Some s \<Rightarrow> do {
        (s, buf) \<leftarrow> skip_white s buf;
        if buf ! s = 0 then Some (0, None, None, buf)
        else if buf ! s \<in> set sh_symbols then Some (buf ! s, Some s, Some (s + 1), buf[s := 0])
        else do { e \<leftarrow> skip_word s buf; Some (sh_word, Some s, Some e, buf) }
      })"

text \<open>The static variables of \<open>gettoken\<close>, with the line.\<close>

record shtok =
  tk_buf :: "u8 list"
  tk_nc :: u8
  tk_np1 :: "nat option"
  tk_np2 :: "nat option"

definition gettoken_start :: "shtok \<Rightarrow> shtok option" where
  "gettoken_start tk = do {
     (nc, np1, np2, buf) \<leftarrow> gettoken_at (Some 0) (tk_np1 tk) (tk_np2 tk) (tk_buf tk);
     Some \<lparr>tk_buf = buf, tk_nc = nc, tk_np1 = np1, tk_np2 = np2\<rparr>
   }"

definition gettoken :: "shtok \<Rightarrow> (u8 \<times> nat option \<times> shtok) option" where
  "gettoken tk = do {
     let c = tk_nc tk;
     let p1 = tk_np1 tk;
     (nc, np1, np2, buf) \<leftarrow> gettoken_at (tk_np2 tk) (tk_np1 tk) (tk_np2 tk) (tk_buf tk);
     Some (c, p1, \<lparr>tk_buf = buf, tk_nc = nc, tk_np1 = np1, tk_np2 = np2\<rparr>)
   }"

definition string_at :: "u8 list \<Rightarrow> nat \<Rightarrow> u8 list" where
  "string_at buf p = takeWhile (\<lambda>b. b \<noteq> 0) (drop p buf)"

section \<open>Running a command\<close>

record 'w shops =
  o_open :: "u8 list \<Rightarrow> u32 \<Rightarrow> 'w \<Rightarrow> int \<times> 'w"
  o_dup :: "int \<Rightarrow> int \<Rightarrow> 'w \<Rightarrow> 'w"
  o_close :: "int \<Rightarrow> 'w \<Rightarrow> 'w"
  o_pipe :: "'w \<Rightarrow> (int \<times> int \<times> int) \<times> 'w"
  o_fork :: "'w \<Rightarrow> int \<times> 'w"
  o_spawn :: "u8 list \<Rightarrow> u8 list list \<Rightarrow> 'w \<Rightarrow> int \<times> 'w"
  o_close_all :: "'w \<Rightarrow> 'w"
  o_wait :: "int \<Rightarrow> 'w \<Rightarrow> 'w"

text \<open>How \<open>runcmd\<close> ends: it returns to its caller, or the environment exits.\<close>

datatype 'w shend = Returned 'w | Exited 'w

definition SH_MAXARGS :: nat where "SH_MAXARGS = 16"
definition BUFSIZ :: nat where "BUFSIZ = 1024"

text \<open>\<open>fd\<close> is moved to descriptor \<open>to\<close>.\<close>

definition move_fd :: "'w shops \<Rightarrow> int \<Rightarrow> int \<Rightarrow> 'w \<Rightarrow> 'w" where
  "move_fd ops fd to w = (if fd \<noteq> to then o_close ops fd (o_dup ops fd to w) else w)"

definition absolute :: "u8 list \<Rightarrow> bool" where
  "absolute a \<longleftrightarrow> a \<noteq> [] \<and> a ! 0 = 47"

text \<open>The part from \<open>runit\<close> on; \<open>pipe_child\<close> is 0 when there is none.\<close>

definition runit :: "'w shops \<Rightarrow> u8 list list \<Rightarrow> int \<Rightarrow> 'w \<Rightarrow> 'w shend option" where
  "runit ops argv pipe_child w =
     (if argv = [] then Some (Returned w)
      else if \<not> absolute (hd argv) \<and> BUFSIZ < length (hd argv) + 2 \<or> SH_MAXARGS \<le> length argv then None
      else
        let prog = (if absolute (hd argv) then hd argv else 47 # hd argv);
            (r, w) = o_spawn ops prog (prog # tl argv) w;
            w = o_close_all ops w;
            w = (if r \<ge> 0 then o_wait ops r w else w);
            w = (if pipe_child \<noteq> 0 then o_wait ops pipe_child w else w)
        in Some (Exited w))"

text \<open>The loop over the tokens; \<open>argv\<close> holds the pointers to the words so far.\<close>

partial_function (option) runcmd_loop :: "'w shops \<Rightarrow> nat list \<Rightarrow> shtok \<Rightarrow> 'w \<Rightarrow> 'w shend option" where
  "runcmd_loop ops argv tk w = do {
     (c, t, tk) \<leftarrow> gettoken tk;
     if c = sh_word then
       if length argv = SH_MAXARGS then Some (Exited w)
       else do { t \<leftarrow> t; runcmd_loop ops (argv @ [t]) tk w }
     else if c = 60 \<or> c = 62 then do {
       (c2, t, tk) \<leftarrow> gettoken tk;
       if c2 \<noteq> sh_word then Some (Exited w)
       else do {
         t \<leftarrow> t;
         let (fd, w) = o_open ops (string_at (tk_buf tk) t) (if c = 60 then O_RDONLY else O_WRONLY OR O_CREAT OR O_TRUNC) w;
         if fd < 0 then Some (Exited w)
         else runcmd_loop ops argv tk (move_fd ops fd (if c = 60 then 0 else 1) w)
       }
     }
     else if c = 124 then
       (let ((r, p0, p1), w) = o_pipe ops w in
        if r < 0 then Some (Exited w)
        else
          (let (r, w) = o_fork ops w in
           if r < 0 then Some (Exited w)
           else if r = 0 then runcmd_loop ops [] tk (o_close ops p1 (move_fd ops p0 0 w))
           else runit ops (map (string_at (tk_buf tk)) argv) r (o_close ops p0 (move_fd ops p1 1 w))))
     else if c = 0 then runit ops (map (string_at (tk_buf tk)) argv) 0 w
     else None
   }"

text \<open>\<open>line\<close> comes with its terminator.\<close>

definition runcmd :: "'w shops \<Rightarrow> u8 list \<Rightarrow> 'w \<Rightarrow> 'w shend option" where
  "runcmd ops line w = do {
     tk \<leftarrow> gettoken_start \<lparr>tk_buf = line, tk_nc = 0, tk_np1 = None, tk_np2 = None\<rparr>;
     runcmd_loop ops [] tk w
   }"

section \<open>The options of the shell\<close>

record shopts =
  sh_debug :: nat
  sh_interactive :: bool   \<comment> \<open>set by \<open>-i\<close>; otherwise \<open>iscons(0)\<close> decides\<close>
  sh_echo :: bool

text \<open>The loop over \<open>argnext\<close> in \<open>umain\<close>; \<open>None\<close> is \<open>usage()\<close>, which exits.\<close>

partial_function (option) sh_options :: "shopts \<Rightarrow> argstate \<Rightarrow> (shopts \<times> argstate) option" where
  "sh_options o' st =
     (let (r, st) = argnext st in
      if r < 0 then Some (o', st)
      else if r = 100 then sh_options (o'\<lparr>sh_debug := sh_debug o' + 1\<rparr>) st
      else if r = 105 then sh_options (o'\<lparr>sh_interactive := True\<rparr>) st
      else if r = 120 then sh_options (o'\<lparr>sh_echo := True\<rparr>) st
      else None)"

text \<open>The rest of \<open>umain\<close> before its loop: with a script as the only argument, descriptor 0 becomes that file.
  \<open>argv\<close> is what \<open>argstart\<close> has left of the arguments, the name of the shell first; \<open>iscons0\<close> is what
  \<open>iscons(0)\<close> says.  The result is whether the shell is interactive.  \<open>None\<close> is the panic or the failed assertion,
  and \<open>Some (None, _)\<close> the end of the shell in \<open>usage\<close>.\<close>

definition sh_setup :: "'w shops \<Rightarrow> ('w \<Rightarrow> bool) \<Rightarrow> shopts \<Rightarrow> u8 list list \<Rightarrow> 'w \<Rightarrow> (bool option \<times> 'w) option" where
  "sh_setup ops iscons0 o' argv w =
     (if length argv > 2 then Some (None, w)
      else do {
        w \<leftarrow> (if length argv = 2
              then (let (r, w) = o_open ops (argv ! 1) O_RDONLY (o_close ops 0 w) in if r = 0 then Some w else None)
              else Some w);
        Some (Some (sh_interactive o' \<or> iscons0 w), w)
      })"

text \<open>The body of the loop for one line, without its terminator: a comment is skipped, and everything else is run in a child.
  The environment that comes out of it is the parent that goes on, or the child that has ended.\<close>

definition sh_line :: "'w shops \<Rightarrow> u8 list \<Rightarrow> 'w \<Rightarrow> 'w shend option" where
  "sh_line ops buf w =
     (if buf \<noteq> [] \<and> buf ! 0 = 35 then Some (Returned w)
      else
        (let (r, w) = o_fork ops w in
         if r < 0 then None
         else if r = 0 then do {
           e \<leftarrow> runcmd ops (buf @ [0]) w;
           (case e of Returned w \<Rightarrow> Some (Exited w) | Exited w \<Rightarrow> Some (Exited w))
         }
         else Some (Returned (o_wait ops r w))))"

end
