(* ===== verification/ShProps.thy ===== *)
theory ShProps
  imports JosSh
begin

text \<open>
  The tokens that the shell sees are those of a plain reference tokenizer, although \<open>gettoken\<close> works in
  place, one token ahead, and terminates each word only when it reads the next token; and running a line
  is interpreting its tokens.
\<close>

section \<open>The reference\<close>

datatype token = TWord "u8 list" | TSym u8

definition is_white :: "u8 \<Rightarrow> bool" where "is_white b \<longleftrightarrow> b \<in> set sh_white"
definition is_symbol :: "u8 \<Rightarrow> bool" where "is_symbol b \<longleftrightarrow> b \<in> set sh_symbols"
definition is_plain :: "u8 \<Rightarrow> bool" where "is_plain b \<longleftrightarrow> \<not> is_white b \<and> \<not> is_symbol b"

function tokens :: "u8 list \<Rightarrow> token list" where
  "tokens [] = []"
| "is_white c \<Longrightarrow> tokens (c # cs) = tokens cs"
| "\<not> is_white c \<Longrightarrow> is_symbol c \<Longrightarrow> tokens (c # cs) = TSym c # tokens cs"
| "is_plain c \<Longrightarrow> tokens (c # cs) = TWord (c # takeWhile is_plain cs) # tokens (dropWhile is_plain cs)"
  by (metis is_plain_def list.exhaust) (auto simp: is_plain_def)
termination by (relation "measure length") (auto simp: le_imp_less_Suc length_dropWhile_le)

text \<open>Running a list of tokens: \<open>words\<close> are the words so far.\<close>

fun run_tokens :: "'w shops \<Rightarrow> u8 list list \<Rightarrow> token list \<Rightarrow> 'w \<Rightarrow> 'w shend option" where
  "run_tokens ops ws [] w = runit ops ws 0 w"
| "run_tokens ops ws (TWord x # ts) w =
     (if length ws = SH_MAXARGS then Some (Exited w) else run_tokens ops (ws @ [x]) ts w)"
| "run_tokens ops ws (TSym c # ts) w =
     (if c = 60 \<or> c = 62 then
        (case ts of
           TWord x # ts \<Rightarrow>
             (let (fd, w) = o_open ops x (if c = 60 then O_RDONLY else O_WRONLY OR O_CREAT OR O_TRUNC) w in
              if fd < 0 then Some (Exited w) else run_tokens ops ws ts (move_fd ops fd (if c = 60 then 0 else 1) w))
         | _ \<Rightarrow> Some (Exited w))
      else if c = 124 then
        (let ((r, p0, p1), w) = o_pipe ops w in
         if r < 0 then Some (Exited w)
         else (let (r, w) = o_fork ops w in
               if r < 0 then Some (Exited w)
               else if r = 0 then run_tokens ops [] ts (o_close ops p1 (move_fd ops p0 0 w))
               else runit ops ws r (o_close ops p0 (move_fd ops p1 1 w))))
      else None)"

section \<open>One token\<close>

lemma white_not_zero: "is_white b \<Longrightarrow> b \<noteq> 0" "is_symbol b \<Longrightarrow> b \<noteq> 0" "is_white b \<Longrightarrow> \<not> is_symbol b" "is_symbol b \<Longrightarrow> b \<noteq> sh_word"
  by (auto simp: is_white_def is_symbol_def sh_white_def sh_symbols_def sh_word_def)

text \<open>From \<open>j\<close> on the line is still \<open>rest\<close> and the terminator.\<close>

definition line_at :: "u8 list \<Rightarrow> nat \<Rightarrow> u8 list \<Rightarrow> bool" where
  "line_at buf j rest \<longleftrightarrow> j \<le> length buf \<and> drop j buf = rest @ [0] \<and> 0 \<notin> set rest"

text \<open>The line before \<open>j\<close> is untouched.\<close>

definition before :: "nat \<Rightarrow> u8 list \<Rightarrow> u8 list \<Rightarrow> bool" where
  "before j buf buf' \<longleftrightarrow> length buf' = length buf \<and> take j buf' = take j buf"

lemma before_refl [simp]: "before j buf buf"
  by (simp add: before_def)

lemma before_trans: "before j a b \<Longrightarrow> before k b c \<Longrightarrow> j \<le> k \<Longrightarrow> before j a c"
  unfolding before_def by (metis min.absorb1 take_take)

lemma line_at_nth:
  assumes "line_at buf j rest"
  shows "j < length buf" "buf ! j = (if rest = [] then 0 else hd rest)"
proof -
  have d: "drop j buf = rest @ [0]" using assms by (simp add: line_at_def)
  then have "length (drop j buf) = Suc (length rest)" by simp
  then show j: "j < length buf" by simp
  have "buf ! j = drop j buf ! 0" using j by (simp add: nth_drop)
  then show "buf ! j = (if rest = [] then 0 else hd rest)" by (cases rest) (simp_all add: d)
qed

lemma line_at_Cons: "line_at buf j (c # cs) \<Longrightarrow> line_at buf (Suc j) cs"
  using line_at_nth(1)[of buf j "c # cs"] by (auto simp: line_at_def drop_Suc tl_drop [symmetric])

lemma line_at_upd: "line_at buf j rest \<Longrightarrow> i < j \<Longrightarrow> line_at (buf[i := x]) j rest"
  by (simp add: line_at_def)

lemma skip_white_line:
  "line_at buf j rest \<Longrightarrow> \<exists>buf'. skip_white j buf = Some (j + length (takeWhile is_white rest), buf')
     \<and> line_at buf' (j + length (takeWhile is_white rest)) (dropWhile is_white rest) \<and> before j buf buf'
     \<and> (rest \<noteq> [] \<and> is_white (hd rest) \<longrightarrow> buf' ! j = 0)"
proof (induction rest arbitrary: buf j)
  case Nil
  then show ?case using line_at_nth[OF Nil] by (subst skip_white.simps) (auto simp: sh_white_def)
next
  case (Cons c cs)
  note L = line_at_nth[OF Cons.prems]
  show ?case
  proof (cases "is_white c")
    case True
    let ?b = "buf[j := 0]"
    have "line_at ?b (Suc j) cs" by (rule line_at_upd[OF line_at_Cons[OF Cons.prems]]) simp
    from Cons.IH[OF this] obtain buf' where b: "skip_white (Suc j) ?b = Some (Suc j + length (takeWhile is_white cs), buf')"
      "line_at buf' (Suc j + length (takeWhile is_white cs)) (dropWhile is_white cs)" "before (Suc j) ?b buf'" by blast
    have "skip_white j buf = skip_white (Suc j) ?b"
      using L True by (subst skip_white.simps) (simp add: is_white_def)
    moreover have "before j buf ?b" by (simp add: before_def)
    moreover have "buf' ! j = 0"
    proof -
      have "buf' ! j = take (Suc j) buf' ! j" by simp
      also have "\<dots> = take (Suc j) ?b ! j" using b(3) by (simp add: before_def)
      also have "\<dots> = 0" using L(1) by simp
      finally show ?thesis .
    qed
    ultimately show ?thesis using b True before_trans[of j buf ?b "Suc j" buf'] by simp
  next
    case False
    then show ?thesis using L Cons.prems by (subst skip_white.simps) (simp add: is_white_def)
  qed
qed

lemma skip_word_line:
  "line_at buf j rest \<Longrightarrow> skip_word j buf = Some (j + length (takeWhile is_plain rest))
     \<and> line_at buf (j + length (takeWhile is_plain rest)) (dropWhile is_plain rest)"
proof (induction rest arbitrary: j)
  case Nil
  then show ?case using line_at_nth[OF Nil] by (subst skip_word.simps) auto
next
  case (Cons c cs)
  note L = line_at_nth[OF Cons.prems]
  have c: "c \<noteq> 0" using Cons.prems by (simp add: line_at_def)
  show ?case
  proof (cases "is_plain c")
    case True
    then have "skip_word j buf = skip_word (Suc j) buf"
      using L c by (subst skip_word.simps) (simp add: is_plain_def is_white_def is_symbol_def)
    then show ?thesis using True Cons.IH[OF line_at_Cons[OF Cons.prems]] by simp
  next
    case False
    then show ?thesis using L Cons.prems by (subst skip_word.simps) (auto simp: is_plain_def is_white_def is_symbol_def)
  qed
qed


section \<open>The look-ahead\<close>

definition word_here :: "u8 list \<Rightarrow> nat \<Rightarrow> u8 list \<Rightarrow> bool" where
  "word_here buf p x \<longleftrightarrow> p + length x \<le> length buf \<and> take (length x) (drop p buf) = x \<and> 0 \<notin> set x"

text \<open>From here on the line may still change.\<close>

definition lim :: "shtok \<Rightarrow> nat" where
  "lim tk = (case tk_np2 tk of Some j \<Rightarrow> j | None \<Rightarrow> length (tk_buf tk))"

text \<open>The state holds the first of the tokens \<open>ts\<close>; the others are still in the line.\<close>

definition holds :: "shtok \<Rightarrow> token list \<Rightarrow> bool" where
  "holds tk ts \<longleftrightarrow> (case ts of
      [] \<Rightarrow> tk_nc tk = 0 \<and> tk_np2 tk = None
    | TSym c # ts' \<Rightarrow> tk_nc tk = c \<and> is_symbol c \<and> (\<exists>j rest. tk_np2 tk = Some j \<and> line_at (tk_buf tk) j rest \<and> ts' = tokens rest)
    | TWord x # ts' \<Rightarrow> tk_nc tk = sh_word \<and> x \<noteq> [] \<and> (\<exists>j rest p. tk_np1 tk = Some p \<and> tk_np2 tk = Some j \<and> word_here (tk_buf tk) p x
        \<and> j = p + length x \<and> line_at (tk_buf tk) j rest \<and> ts' = tokens rest \<and> (rest = [] \<or> \<not> is_plain (hd rest))))"

lemma tokens_skip: "tokens rest = tokens (dropWhile is_white rest)"
  by (induction rest) auto

lemma takeWhile_ne: "is_plain c \<Longrightarrow> takeWhile is_plain (c # cs) \<noteq> []"
  by simp

lemma hd_dropWhile_not: "dropWhile P xs = [] \<or> \<not> P (hd (dropWhile P xs))"
  by (induction xs) auto

text \<open>Reading a token ahead, from \<open>j\<close>.\<close>

lemma gettoken_at_line:
  assumes l: "line_at buf j rest"
  shows "\<exists>nc np1 np2 buf'. gettoken_at (Some j) p1 p2 buf = Some (nc, np1, np2, buf')
     \<and> holds \<lparr>tk_buf = buf', tk_nc = nc, tk_np1 = np1, tk_np2 = np2\<rparr> (tokens rest) \<and> before j buf buf'
     \<and> (rest = [] \<or> \<not> is_plain (hd rest) \<longrightarrow> buf' ! j = 0 \<and> j < lim \<lparr>tk_buf = buf', tk_nc = nc, tk_np1 = np1, tk_np2 = np2\<rparr>)
     \<and> j \<le> lim \<lparr>tk_buf = buf', tk_nc = nc, tk_np1 = np1, tk_np2 = np2\<rparr>"
proof -
  define k where "k = j + length (takeWhile is_white rest)"
  define r where "r = dropWhile is_white rest"
  from skip_white_line[OF l] obtain b where b: "skip_white j buf = Some (k, b)" "line_at b k r" "before j buf b"
    "rest \<noteq> [] \<and> is_white (hd rest) \<longrightarrow> b ! j = 0" unfolding k_def r_def by blast
  note L = line_at_nth[OF b(2)]
  have jk: "j \<le> k" and tr: "tokens rest = tokens r" using tokens_skip by (auto simp: k_def r_def)
  have nw: "r \<noteq> [] \<Longrightarrow> \<not> is_white (hd r)" using hd_dropWhile_not[of is_white rest] by (auto simp: r_def)
  have jz: "b ! j = 0 \<or> k = j" if "rest = [] \<or> \<not> is_plain (hd rest)"
    using that b(4) by (cases rest) (auto simp: k_def)
  show ?thesis
  proof (cases "r = []")
    case True
    have g: "gettoken_at (Some j) p1 p2 buf = Some (0, None, None, b)" using b(1) L True by (simp add: gettoken_at_def)
    have "b ! j = 0" if "rest = [] \<or> \<not> is_plain (hd rest)" using jz[OF that] L True by auto
    then show ?thesis using g b(3) L(1) jk True tr by (auto simp: holds_def lim_def)
  next
    case False
    then obtain c cs where r: "r = c # cs" by (cases r) auto
    then have c: "b ! k = c" "\<not> is_white c" "c \<noteq> 0" using L nw b(2) by (auto simp: line_at_def)
    show ?thesis
    proof (cases "is_symbol c")
      case True
      let ?b = "b[k := 0]"
      have g: "gettoken_at (Some j) p1 p2 buf = Some (c, Some k, Some (Suc k), ?b)"
        using b(1) c True by (simp add: gettoken_at_def is_symbol_def)
      have "line_at ?b (Suc k) cs" by (rule line_at_upd[OF line_at_Cons]) (use b(2) r in auto)
      then have "holds \<lparr>tk_buf = ?b, tk_nc = c, tk_np1 = Some k, tk_np2 = Some (Suc k)\<rparr> (tokens rest)"
        using c True by (auto simp: tr r holds_def)
      moreover have "before j buf ?b" using b(3) jk by (simp add: before_def)
      moreover have "?b ! j = 0" if "rest = [] \<or> \<not> is_plain (hd rest)"
        using jz[OF that] L(1) by (auto simp: nth_list_update)
      ultimately show ?thesis using g jk by (auto simp: lim_def)
    next
      case sym: False
      then have pl: "is_plain c" using c by (simp add: is_plain_def)
      let ?x = "c # takeWhile is_plain cs"
      have tw: "takeWhile is_plain r = ?x" "dropWhile is_plain r = dropWhile is_plain cs" using pl r by simp_all
      from skip_word_line[OF b(2)] have e: "skip_word k b = Some (k + length ?x)" "line_at b (k + length ?x) (dropWhile is_plain cs)"
        unfolding tw by auto
      have g: "gettoken_at (Some j) p1 p2 buf = Some (sh_word, Some k, Some (k + length ?x), b)"
        using b(1) c sym e(1) by (simp add: gettoken_at_def is_symbol_def)
      have "word_here b k ?x"
      proof -
        have "drop k b = ?x @ dropWhile is_plain cs @ [0]" using b(2) r by (simp add: line_at_def)
        then have "take (length ?x) (drop k b) = ?x" by simp
        moreover have "0 \<notin> set ?x" using b(2) r by (auto simp: line_at_def dest: set_takeWhileD)
        ultimately show ?thesis using e(2) by (simp add: word_here_def line_at_def)
      qed
      then have "holds \<lparr>tk_buf = b, tk_nc = sh_word, tk_np1 = Some k, tk_np2 = Some (k + length ?x)\<rparr> (tokens rest)"
        using e(2) pl hd_dropWhile_not[of is_plain cs] by (auto simp: tr r holds_def)
      moreover have "b ! j = 0" if "rest = [] \<or> \<not> is_plain (hd rest)"
      proof -
        have "k \<noteq> j"
        proof
          assume "k = j"
          then have "takeWhile is_white rest = []" by (simp add: k_def)
          then have "rest = c # cs" using r by (cases rest) (auto simp: r_def split: if_splits)
          then show False using that pl by simp
        qed
        then show ?thesis using jz[OF that] by simp
      qed
      ultimately show ?thesis using g b(3) jk by (auto simp: lim_def)
    qed
  qed
qed


section \<open>Words stay\<close>

text \<open>A word that has been handed out is terminated and lies where the line no longer changes.\<close>

definition fixed :: "shtok \<Rightarrow> nat \<Rightarrow> u8 list \<Rightarrow> bool" where
  "fixed tk p x \<longleftrightarrow> word_here (tk_buf tk) p x \<and> tk_buf tk ! (p + length x) = 0 \<and> p + length x < lim tk \<and> lim tk \<le> length (tk_buf tk)"

lemma before_nth: "before j a b \<Longrightarrow> i < j \<Longrightarrow> b ! i = a ! i"
  unfolding before_def by (metis nth_take)

lemma before_word: "before j a b \<Longrightarrow> p + length x \<le> j \<Longrightarrow> word_here a p x \<Longrightarrow> word_here b p x"
proof -
  assume b: "before j a b" and l: "p + length x \<le> j" and w: "word_here a p x"
  have "take (length x) (drop p b) = take (length x) (drop p (take j b))" using l by (simp add: drop_take)
  also have "\<dots> = take (length x) (drop p (take j a))" using b by (simp add: before_def)
  also have "\<dots> = take (length x) (drop p a)" using l by (simp add: drop_take)
  finally show "word_here b p x" using w b by (simp add: word_here_def before_def)
qed

lemma fixed_step:
  assumes "fixed tk p x" and "before (lim tk) (tk_buf tk) (tk_buf tk')" and "lim tk \<le> lim tk'" and "lim tk' \<le> length (tk_buf tk')"
  shows "fixed tk' p x"
  using assms before_word[OF assms(2), of p x] before_nth[OF assms(2), of "p + length x"] by (simp add: fixed_def)

lemma fixed_string:
  assumes "fixed tk p x"
  shows "string_at (tk_buf tk) p = x"
proof -
  have w: "take (length x) (drop p (tk_buf tk)) = x" "0 \<notin> set x" and z: "tk_buf tk ! (p + length x) = 0"
    and l: "p + length x < length (tk_buf tk)" using assms by (auto simp: fixed_def word_here_def)
  have "drop (p + length x) (tk_buf tk) = 0 # drop (Suc (p + length x)) (tk_buf tk)"
    using z l by (metis Cons_nth_drop_Suc)
  then have "drop p (tk_buf tk) = x @ 0 # drop (Suc (p + length x)) (tk_buf tk)"
    using append_take_drop_id[of "length x" "drop p (tk_buf tk)"] w(1) by (simp add: add.commute)
  moreover have "\<forall>b \<in> set x. b \<noteq> 0" using w(2) by auto
  ultimately show ?thesis by (simp add: string_at_def takeWhile_append2)
qed

text \<open>What a call of \<open>gettoken\<close> hands out, by the first token.\<close>

definition hands_out :: "token list \<Rightarrow> u8 \<Rightarrow> nat option \<Rightarrow> shtok \<Rightarrow> bool" where
  "hands_out ts c p tk \<longleftrightarrow> (case ts of
      [] \<Rightarrow> c = 0
    | TSym d # ts' \<Rightarrow> c = d \<and> is_symbol d \<and> holds tk ts'
    | TWord x # ts' \<Rightarrow> c = sh_word \<and> holds tk ts' \<and> (\<exists>q. p = Some q \<and> fixed tk q x))"

lemma lim_bound: "holds \<lparr>tk_buf = b, tk_nc = n, tk_np1 = p, tk_np2 = q\<rparr> ts \<Longrightarrow> lim \<lparr>tk_buf = b, tk_nc = n, tk_np1 = p, tk_np2 = q\<rparr> \<le> length b"
  by (auto simp: holds_def lim_def line_at_def split: list.splits token.splits)

lemma gettoken_step:
  assumes h: "holds tk ts"
  shows "\<exists>c p tk'. gettoken tk = Some (c, p, tk') \<and> hands_out ts c p tk' \<and> before (lim tk) (tk_buf tk) (tk_buf tk')
     \<and> lim tk \<le> lim tk' \<and> lim tk' \<le> length (tk_buf tk')"
proof (cases ts)
  case Nil
  then show ?thesis using h by (auto simp: holds_def gettoken_def gettoken_at_def hands_out_def lim_def)
next
  case (Cons t ts')
  obtain j rest where j: "tk_np2 tk = Some j" "line_at (tk_buf tk) j rest" "ts' = tokens rest"
    using h Cons by (auto simp: holds_def split: token.splits)
  from gettoken_at_line[OF j(2), of "tk_np1 tk" "tk_np2 tk"] obtain nc np1 np2 b where
    g: "gettoken_at (Some j) (tk_np1 tk) (tk_np2 tk) (tk_buf tk) = Some (nc, np1, np2, b)"
    and hb: "holds \<lparr>tk_buf = b, tk_nc = nc, tk_np1 = np1, tk_np2 = np2\<rparr> (tokens rest)" and bf: "before j (tk_buf tk) b"
    and z: "rest = [] \<or> \<not> is_plain (hd rest) \<Longrightarrow> b ! j = 0 \<and> j < lim \<lparr>tk_buf = b, tk_nc = nc, tk_np1 = np1, tk_np2 = np2\<rparr>"
    and lj: "j \<le> lim \<lparr>tk_buf = b, tk_nc = nc, tk_np1 = np1, tk_np2 = np2\<rparr>" by blast
  define tk' where "tk' = \<lparr>tk_buf = b, tk_nc = nc, tk_np1 = np1, tk_np2 = np2\<rparr>"
  have gt: "gettoken tk = Some (tk_nc tk, tk_np1 tk, tk')" using g j(1) by (simp add: gettoken_def tk'_def)
  have lb: "lim tk' \<le> length (tk_buf tk')" using lim_bound[OF hb] by (simp add: tk'_def)
  have lt: "lim tk = j" using j(1) by (simp add: lim_def)
  have "hands_out ts (tk_nc tk) (tk_np1 tk) tk'"
  proof (cases t)
    case (TSym d)
    then show ?thesis using h Cons hb j by (auto simp: holds_def[of tk] hands_out_def tk'_def)
  next
    case (TWord x)
    then obtain q where q: "tk_np1 tk = Some q" "word_here (tk_buf tk) q x" "j = q + length x" "tk_nc tk = sh_word"
      and r: "\<exists>rest'. line_at (tk_buf tk) j rest' \<and> (rest' = [] \<or> \<not> is_plain (hd rest'))"
      using h Cons j(1) by (auto simp: holds_def)
    have "rest = [] \<or> \<not> is_plain (hd rest)" using r j(2) by (auto simp: line_at_def)
    from z[OF this] have zj: "b ! j = 0" "j < lim tk'" by (auto simp: tk'_def)
    have "word_here b q x" by (rule before_word[OF bf _ q(2)]) (simp add: q(3))
    then have "fixed tk' q x" using zj lb by (simp add: fixed_def q(3)) (simp add: tk'_def)
    then show ?thesis using TWord Cons hb q j(3) by (simp add: hands_out_def tk'_def)
  qed
  then show ?thesis using gt bf lj lb lt by (auto simp: tk'_def)
qed

section \<open>A line runs as its tokens\<close>

lemma list_all2_fixed_step:
  assumes "list_all2 (fixed tk) ps ws" and "before (lim tk) (tk_buf tk) (tk_buf tk')" and "lim tk \<le> lim tk'" and "lim tk' \<le> length (tk_buf tk')"
  shows "list_all2 (fixed tk') ps ws"
  using assms(1) fixed_step[OF _ assms(2-4)] by (rule list_all2_mono)

lemma fixed_strings: "list_all2 (fixed tk) ps ws \<Longrightarrow> map (string_at (tk_buf tk)) ps = ws"
  by (induction rule: list_all2_induct) (simp_all add: fixed_string)

lemma symbol_not_special: "is_symbol c \<Longrightarrow> c \<noteq> sh_word \<and> c \<noteq> 0"
  using white_not_zero by blast

lemma runcmd_loop_tokens:
  "holds tk ts \<Longrightarrow> list_all2 (fixed tk) argv ws \<Longrightarrow> runcmd_loop ops argv tk w = run_tokens ops ws ts w"
proof (induction ts arbitrary: tk argv ws w rule: length_induct)
  case (1 ts)
  note IH = 1(1)[rule_format]
  from gettoken_step[OF 1(2)] obtain c p tk' where
    g: "gettoken tk = Some (c, p, tk')" "hands_out ts c p tk'" "before (lim tk) (tk_buf tk) (tk_buf tk')" "lim tk \<le> lim tk'"
      "lim tk' \<le> length (tk_buf tk')" by blast
  note W = list_all2_fixed_step[OF 1(3) g(3-5)]
  note S = fixed_strings[OF W]
  have len: "length argv = length ws" using 1(3) by (rule list_all2_lengthD)
  show ?case
  proof (cases ts)
    case Nil
    then show ?thesis using g(1,2) S by (subst runcmd_loop.simps) (simp add: hands_out_def sh_word_def)
  next
    case (Cons t ts')
    show ?thesis
    proof (cases t)
      case (TWord x)
      with g(2) Cons obtain q where q: "c = sh_word" "holds tk' ts'" "p = Some q" "fixed tk' q x" by (auto simp: hands_out_def)
      have "list_all2 (fixed tk') (argv @ [q]) (ws @ [x])" using W q(4) by (simp add: list_all2_appendI)
      from IH[OF _ q(2) this, of w] show ?thesis using g(1) q TWord Cons len
        by (subst runcmd_loop.simps) simp
    next
      case (TSym d)
      with g(2) Cons have d: "c = d" "is_symbol d" "holds tk' ts'" by (auto simp: hands_out_def)
      note nd = symbol_not_special[OF d(2)]
      show ?thesis
      proof (cases "d = 60 \<or> d = 62")
        case True
        from gettoken_step[OF d(3)] obtain c2 p2 tk2 where
          g2: "gettoken tk' = Some (c2, p2, tk2)" "hands_out ts' c2 p2 tk2" "before (lim tk') (tk_buf tk') (tk_buf tk2)"
            "lim tk' \<le> lim tk2" "lim tk2 \<le> length (tk_buf tk2)" by blast
        show ?thesis
        proof (cases "\<exists>x us. ts' = TWord x # us")
          case True
          then obtain x us where u: "ts' = TWord x # us" by blast
          with g2(2) obtain q where q: "c2 = sh_word" "holds tk2 us" "p2 = Some q" "fixed tk2 q x" by (auto simp: hands_out_def)
          note W2 = list_all2_fixed_step[OF W g2(3-5)]
          have "length us < length ts" using Cons u by simp
          note I = IH[OF this q(2) W2]
          show ?thesis using g(1) g2(1) q d nd \<open>d = 60 \<or> d = 62\<close> TSym Cons u fixed_string[OF q(4)]
            by (subst runcmd_loop.simps) (auto simp: I split_beta Let_def)
        next
          case False
          then have "c2 \<noteq> sh_word" using g2(2) symbol_not_special
            by (auto simp: hands_out_def sh_word_def split: list.splits token.splits)
          moreover have "run_tokens ops ws (TSym d # ts') w = Some (Exited w)"
            using \<open>d = 60 \<or> d = 62\<close> False by (cases ts') (auto split: token.splits)
          ultimately show ?thesis using g(1) g2(1) d nd \<open>d = 60 \<or> d = 62\<close> TSym Cons
            by (subst runcmd_loop.simps) auto
        qed
      next
        case False
        have "length ts' < length ts" using Cons by simp
        note I = IH[OF this d(3), of "[]" "[]"]
        show ?thesis using g(1) d nd False TSym Cons S
          by (subst runcmd_loop.simps) (simp add: I split_beta Let_def)
      qed
    qed
  qed
qed

text \<open>C8: running a command line in the user shell is interpreting its tokens: whatever the library calls do,
  \<open>runcmd\<close> on a line does what the interpreter of the reference tokens does, with the words as the reference
  has them, although the shell cuts the line up in place and reads one token ahead.\<close>

theorem runcmd_interprets_tokens:
  assumes "0 \<notin> set line"
  shows "runcmd ops (line @ [0]) w = run_tokens ops [] (tokens line) w"
proof -
  have "line_at (line @ [0]) 0 line" using assms by (simp add: line_at_def)
  from gettoken_at_line[OF this, of None None] obtain nc np1 np2 b where
    g: "gettoken_at (Some 0) None None (line @ [0]) = Some (nc, np1, np2, b)"
    and h: "holds \<lparr>tk_buf = b, tk_nc = nc, tk_np1 = np1, tk_np2 = np2\<rparr> (tokens line)" by blast
  have "gettoken_start \<lparr>tk_buf = line @ [0], tk_nc = 0, tk_np1 = None, tk_np2 = None\<rparr>
      = Some \<lparr>tk_buf = b, tk_nc = nc, tk_np1 = np1, tk_np2 = np2\<rparr>"
    using g by (simp add: gettoken_start_def)
  then show ?thesis using runcmd_loop_tokens[OF h, of "[]" "[]"] by (simp add: runcmd_def)
qed

text \<open>Library calls that succeed and are recorded; a line is \<open>ls >f\<close>.\<close>

datatype shcall = LOpen "u8 list" u32 | LDup int int | LClose int | LSpawn "u8 list" "u8 list list" | LCloseAll | LWait int

definition demo_ops :: "shcall list shops" where
  "demo_ops = \<lparr>o_open = (\<lambda>x m w. (3, w @ [LOpen x m])), o_dup = (\<lambda>a b w. w @ [LDup a b]), o_close = (\<lambda>a w. w @ [LClose a]),
     o_pipe = (\<lambda>w. ((0, 4, 5), w)), o_fork = (\<lambda>w. (7, w)), o_spawn = (\<lambda>x a w. (9, w @ [LSpawn x a])),
     o_close_all = (\<lambda>w. w @ [LCloseAll]), o_wait = (\<lambda>a w. w @ [LWait a])\<rparr>"

lemma demo_tokens: "tokens [108, 115, 32, 62, 102] = [TWord [108, 115], TSym 62, TWord [102]]"
  by (simp add: is_plain_def is_white_def is_symbol_def sh_white_def sh_symbols_def)

theorem runcmd_interprets_tokens_witness:
  "runcmd demo_ops ([108, 115, 32, 62, 102] @ [0]) []
     = Some (Exited [LOpen [102] (O_WRONLY OR O_CREAT OR O_TRUNC), LDup 3 1, LClose 3, LSpawn [47, 108, 115] [[47, 108, 115]], LCloseAll, LWait 9])"
proof -
  have "(0 :: u8) \<notin> set [108, 115, 32, 62, 102]" by simp
  from runcmd_interprets_tokens[OF this, of demo_ops "[]"] show ?thesis
    unfolding demo_tokens by (simp add: demo_ops_def move_fd_def runit_def absolute_def SH_MAXARGS_def BUFSIZ_def sh_word_def Let_def)
qed

text \<open>Sixteen words pass the test in the loop, and the terminator of the vector goes behind the array; a
  program name of 1023 characters does not fit into \<open>argv0buf\<close> with the slash before it.\<close>

lemma runit_overruns:
  "length argv = 16 \<Longrightarrow> runit ops argv pc w = None"
  "argv \<noteq> [] \<Longrightarrow> length (hd argv) = 1023 \<Longrightarrow> \<not> absolute (hd argv) \<Longrightarrow> runit ops argv pc w = None"
  by (auto simp: runit_def SH_MAXARGS_def BUFSIZ_def)

end
