(* ===== verification/Cmem.thy ===== *)
theory Cmem
  imports Prelude
begin

text \<open>
  Byte-addressed memory as the string library of \<open>lib/string.c\<close> sees it: a partial map from 32-bit
  addresses to bytes.  An access outside its domain is a fault (\<open>None\<close>), so that a function proved to
  return \<open>Some\<close> on a small domain is proved to touch nothing else.
\<close>

type_synonym mem = "u32 \<Rightarrow> u8 option"

definition ld :: "u32 \<Rightarrow> mem \<Rightarrow> u8 option" where
  "ld a m = m a"

definition st :: "u8 \<Rightarrow> u32 \<Rightarrow> mem \<Rightarrow> mem option" where
  "st b a m = (if m a = None then None else Some (m(a \<mapsto> b)))"

lemma ld_Some [simp]: "m a = Some b \<Longrightarrow> ld a m = Some b"
  by (simp add: ld_def)

lemma st_Some [simp]: "m a \<noteq> None \<Longrightarrow> st b a m = Some (m(a \<mapsto> b))"
  by (simp add: st_def)

section \<open>Blocks of memory\<close>

text \<open>The offset of an address from \<open>p\<close>; \<open>a\<close> is in the block of \<open>n\<close> bytes at \<open>p\<close> when it is below \<open>n\<close>.\<close>

abbreviation off :: "u32 \<Rightarrow> u32 \<Rightarrow> nat" where
  "off p a \<equiv> unat (a - p)"

definition mapped :: "mem \<Rightarrow> u32 \<Rightarrow> nat \<Rightarrow> bool" where
  "mapped m p n \<longleftrightarrow> (\<forall>i < n. m (p + word_of_nat i) \<noteq> None)"

text \<open>The block at \<open>p\<close> holds the bytes \<open>bs\<close>.\<close>

definition bytes_at :: "mem \<Rightarrow> u32 \<Rightarrow> u8 list \<Rightarrow> bool" where
  "bytes_at m p bs \<longleftrightarrow> (\<forall>i < length bs. m (p + word_of_nat i) = Some (bs ! i))"

text \<open>A C string: no byte is 0 and a 0 byte follows.\<close>

definition cstr :: "mem \<Rightarrow> u32 \<Rightarrow> u8 list \<Rightarrow> bool" where
  "cstr m p cs \<longleftrightarrow> bytes_at m p (cs @ [0]) \<and> 0 \<notin> set cs"

text \<open>Memory with the block at \<open>p\<close> replaced.\<close>

definition put_block :: "u32 \<Rightarrow> u8 list \<Rightarrow> mem \<Rightarrow> mem" where
  "put_block p bs m = (\<lambda>a. if off p a < length bs then Some (bs ! off p a) else m a)"

lemma off_add: "i < 4294967296 \<Longrightarrow> off p (p + word_of_nat i) = i"
  by (simp add: unat_of_nat take_bit_eq_mod)

lemma off_inject: "off p a = off p b \<Longrightarrow> a = b"
  by (metis word_unat_eq_iff diff_add_cancel)

lemma at_off: "p + word_of_nat (off p a) = a"
  by simp

lemma off_less: "off p a < 4294967296"
  using unsigned_less[of "a - p", where 'a = nat] by simp

lemma off_Suc: "off (p + 1) a = (if a = p then 4294967295 else off p a - 1)"
proof (cases "a = p")
  case False
  then have "unat (a - p) \<noteq> 0" by (metis unat_eq_0 right_minus_eq)
  then have "unat (a - p - 1) = unat (a - p) - 1" by (simp add: unat_sub_if')
  then show ?thesis using False by (simp add: diff_diff_eq)
next
  case True
  have "unat (- 1 :: u32) = 4294967295" by (simp add: unsigned_minus_1_eq_mask mask_eq_exp_minus_1)
  then show ?thesis using True by simp
qed

lemma off_Suc_less: "n < 4294967296 \<Longrightarrow> off (p + 1) a < n \<longleftrightarrow> a \<noteq> p \<and> off p a < Suc n"
proof -
  assume n: "n < 4294967296"
  have "a \<noteq> p \<Longrightarrow> 0 < off p a" by (simp add: unat_gt_0)
  then show ?thesis using n unfolding off_Suc by auto
qed

lemma mapped_off: "mapped m p n \<Longrightarrow> off p a < n \<Longrightarrow> m a \<noteq> None"
  unfolding mapped_def by (metis at_off)

lemma mapped_iff: "n \<le> 4294967296 \<Longrightarrow> mapped m p n \<longleftrightarrow> (\<forall>a. off p a < n \<longrightarrow> m a \<noteq> None)"
proof
  assume n: "n \<le> 4294967296" and *: "\<forall>a. off p a < n \<longrightarrow> m a \<noteq> None"
  show "mapped m p n" unfolding mapped_def
  proof (intro allI impI)
    fix i assume i: "i < n"
    then have "off p (p + word_of_nat i) < n" using n off_add[of i p] by simp
    then show "m (p + word_of_nat i) \<noteq> None" using * by blast
  qed
qed (auto dest: mapped_off)

lemma mapped_sub: "mapped m p n \<Longrightarrow> i + k \<le> n \<Longrightarrow> mapped m (p + word_of_nat i) k"
  unfolding mapped_def
proof (intro allI impI)
  fix j assume "\<forall>i<n. m (p + word_of_nat i) \<noteq> None" "i + k \<le> n" "j < k"
  then have "m (p + word_of_nat (i + j)) \<noteq> None" by (auto simp del: of_nat_add)
  then show "m (p + word_of_nat i + word_of_nat j) \<noteq> None" by (simp add: add.assoc)
qed

lemma mapped_cong: "mapped m p n \<Longrightarrow> (\<And>a. m a \<noteq> None \<Longrightarrow> m' a \<noteq> None) \<Longrightarrow> mapped m' p n"
  by (simp add: mapped_def)

lemma bytes_at_Nil [simp]: "bytes_at m p []"
  by (simp add: bytes_at_def)

lemma bytes_at_Cons: "bytes_at m p (b # bs) \<longleftrightarrow> m p = Some b \<and> bytes_at m (p + 1) bs"
  by (simp add: bytes_at_def All_less_Suc2 add.assoc)

lemma bytes_at_append:
  "bytes_at m p (as @ bs) \<longleftrightarrow> bytes_at m p as \<and> bytes_at m (p + word_of_nat (length as)) bs"
  by (induction as arbitrary: p) (simp_all add: bytes_at_Cons add.assoc)

lemma bytes_at_cong:
  "bytes_at m p bs \<Longrightarrow> (\<And>a. off p a < length bs \<Longrightarrow> m' a = m a) \<Longrightarrow> length bs \<le> 4294967296 \<Longrightarrow> bytes_at m' p bs"
  unfolding bytes_at_def
proof (intro allI impI)
  fix i assume *: "\<forall>i<length bs. m (p + word_of_nat i) = Some (bs ! i)"
    "\<And>a. off p a < length bs \<Longrightarrow> m' a = m a" "length bs \<le> 4294967296" "i < length bs"
  then have "off p (p + word_of_nat i) = i" by (intro off_add) simp
  then show "m' (p + word_of_nat i) = Some (bs ! i)" using * by simp
qed

lemma bytes_at_mapped: "bytes_at m p bs \<Longrightarrow> mapped m p (length bs)"
  by (simp add: bytes_at_def mapped_def)

lemma mapped_bytes: "mapped m p n \<Longrightarrow> \<exists>bs. length bs = n \<and> bytes_at m p bs"
  by (rule exI[of _ "map (\<lambda>i. the (m (p + word_of_nat i))) [0..<n]"])
     (auto simp: bytes_at_def mapped_def)

lemma cstr_Nil: "cstr m p [] \<longleftrightarrow> m p = Some 0"
  by (simp add: cstr_def bytes_at_Cons)

lemma cstr_Cons: "cstr m p (c # cs) \<longleftrightarrow> m p = Some c \<and> c \<noteq> 0 \<and> cstr m (p + 1) cs"
  by (auto simp: cstr_def bytes_at_Cons)

lemma put_block_Nil [simp]: "put_block p [] m = m"
  by (simp add: put_block_def)

lemma put_block_Cons:
  assumes "length bs < 4294967296"
  shows "put_block p (b # bs) m = put_block (p + 1) bs (m(p \<mapsto> b))"
proof
  fix a
  show "put_block p (b # bs) m a = put_block (p + 1) bs (m(p \<mapsto> b)) a"
  proof (cases "a = p")
    case False
    then have "off p a \<noteq> 0" by (metis unat_eq_0 right_minus_eq)
    then show ?thesis using assms False off_Suc_less[of "length bs" p a]
      by (auto simp: put_block_def off_Suc nth_Cons')
  qed (use assms in \<open>simp add: put_block_def off_Suc\<close>)
qed

lemma bytes_at_put_block: "length bs \<le> 4294967296 \<Longrightarrow> bytes_at (put_block p bs m) p bs"
  unfolding bytes_at_def put_block_def
proof (intro allI impI)
  fix i assume "length bs \<le> 4294967296" "i < length bs"
  then have "off p (p + word_of_nat i) = i" by (intro off_add) simp
  then show "(if off p (p + word_of_nat i) < length bs then Some (bs ! off p (p + word_of_nat i))
      else m (p + word_of_nat i)) = Some (bs ! i)" using \<open>i < length bs\<close> by simp
qed

lemma put_block_other: "length bs \<le> off p a \<Longrightarrow> put_block p bs m a = m a"
  by (simp add: put_block_def)

lemma dom_put_block: "mapped m p (length bs) \<Longrightarrow> dom (put_block p bs m) = dom m"
  by (auto simp: put_block_def dest: mapped_off split: if_splits)

text \<open>Moving the base of a block.\<close>

lemma off_shift:
  assumes "k < 4294967296"
  shows "off (p + word_of_nat k) a = (if k \<le> off p a then off p a - k else off p a + 4294967296 - k)"
proof -
  have u: "unat (word_of_nat k :: u32) = k" using assms by (simp add: unat_of_nat take_bit_eq_mod)
  define x where "x = a - p"
  have "a - (p + word_of_nat k) = x - word_of_nat k" by (simp add: x_def)
  then show ?thesis unfolding x_def[symmetric] using u by (simp only: unat_sub_if') simp
qed

lemma put_block_append:
  "length as + length bs \<le> 4294967296 \<Longrightarrow>
   put_block p (as @ bs) m = put_block (p + word_of_nat (length as)) bs (put_block p as m)"
  by (induction as arbitrary: p m) (simp_all add: put_block_Cons add.assoc)

lemma put_block_append_rev:
  assumes "length as + length bs \<le> 4294967296" and "length as < 4294967296"
  shows "put_block p (as @ bs) m = put_block p as (put_block (p + word_of_nat (length as)) bs m)"
  unfolding put_block_append[OF assms(1)] using assms
  by (auto simp: put_block_def off_shift fun_eq_iff)

lemma bytes_at_iff_mapped: "bytes_at m p bs \<Longrightarrow> i < length bs \<Longrightarrow> m (p + word_of_nat i) = Some (bs ! i)"
  by (simp add: bytes_at_def)

section \<open>Runs of loads and stores\<close>

primrec lds :: "nat \<Rightarrow> u32 \<Rightarrow> mem \<Rightarrow> u8 list option" where
  "lds 0 p m = Some []"
| "lds (Suc n) p m = do { b \<leftarrow> ld p m; bs \<leftarrow> lds n (p + 1) m; Some (b # bs) }"

primrec sts :: "u8 list \<Rightarrow> u32 \<Rightarrow> mem \<Rightarrow> mem option" where
  "sts [] p m = Some m"
| "sts (b # bs) p m = do { m \<leftarrow> st b p m; sts bs (p + 1) m }"

lemma lds_bytes: "bytes_at m p bs \<Longrightarrow> lds (length bs) p m = Some bs"
  by (induction bs arbitrary: p) (simp_all add: bytes_at_Cons)

lemma mapped_Suc: "mapped m p (Suc n) \<longleftrightarrow> m p \<noteq> None \<and> mapped m (p + 1) n"
  by (simp add: mapped_def All_less_Suc2 add.assoc)

lemma sts_put_block: "mapped m p (length bs) \<Longrightarrow> length bs \<le> 4294967296 \<Longrightarrow> sts bs p m = Some (put_block p bs m)"
proof (induction bs arbitrary: p m)
  case (Cons b bs)
  have "mapped (m(p \<mapsto> b)) (p + 1) (length bs)"
    using Cons.prems(1) by (auto simp: mapped_Suc elim!: mapped_cong)
  then show ?case using Cons by (simp add: mapped_Suc put_block_Cons)
qed simp

end
