(* ===== verification/Str.thy ===== *)
theory Str
  imports Cmem
begin

text \<open>
  The string library \<open>lib/string.c\<close>, which the kernel and the user programs share.  Loops over a
  string are partial functions on the memory: they need not end when no terminator is found, and an
  access outside the memory is a fault.  \<open>int\<close>, \<open>size_t\<close>, \<open>long\<close> and pointers are 32-bit words.
\<close>

section \<open>Lengths and copies\<close>

partial_function (option) strlen_loop :: "u32 \<Rightarrow> u32 \<Rightarrow> mem \<Rightarrow> u32 option" where
  "strlen_loop s n m = do {
     c \<leftarrow> ld s m;
     if c \<noteq> 0 then strlen_loop (s + 1) (n + 1) m else Some n
   }"

definition strlen :: "u32 \<Rightarrow> mem \<Rightarrow> u32 option" where
  "strlen s m = strlen_loop s 0 m"

partial_function (option) strnlen_loop :: "u32 \<Rightarrow> u32 \<Rightarrow> u32 \<Rightarrow> mem \<Rightarrow> u32 option" where
  "strnlen_loop s sz n m =
     (if sz > 0 then do {
        c \<leftarrow> ld s m;
        if c \<noteq> 0 then strnlen_loop (s + 1) (sz - 1) (n + 1) m else Some n
      }
      else Some n)"

definition strnlen :: "u32 \<Rightarrow> u32 \<Rightarrow> mem \<Rightarrow> u32 option" where
  "strnlen s sz m = strnlen_loop s sz 0 m"

partial_function (option) strcpy_loop :: "u32 \<Rightarrow> u32 \<Rightarrow> mem \<Rightarrow> mem option" where
  "strcpy_loop dst src m = do {
     c \<leftarrow> ld src m;
     m \<leftarrow> st c dst m;
     if c \<noteq> 0 then strcpy_loop (dst + 1) (src + 1) m else Some m
   }"

definition strcpy :: "u32 \<Rightarrow> u32 \<Rightarrow> mem \<Rightarrow> (u32 \<times> mem) option" where
  "strcpy dst src m = do { m \<leftarrow> strcpy_loop dst src m; Some (dst, m) }"

definition strcat :: "u32 \<Rightarrow> u32 \<Rightarrow> mem \<Rightarrow> (u32 \<times> mem) option" where
  "strcat dst src m = do {
     len \<leftarrow> strlen dst m;
     (_, m) \<leftarrow> strcpy (dst + len) src m;
     Some (dst, m)
   }"

partial_function (option) strncpy_loop :: "u32 \<Rightarrow> u32 \<Rightarrow> u32 \<Rightarrow> u32 \<Rightarrow> mem \<Rightarrow> mem option" where
  "strncpy_loop i dst src sz m =
     (if i < sz then do {
        c \<leftarrow> ld src m;
        m \<leftarrow> st c dst m;
        c \<leftarrow> ld src m;
        strncpy_loop (i + 1) (dst + 1) (if c \<noteq> 0 then src + 1 else src) sz m
      }
      else Some m)"

definition strncpy :: "u32 \<Rightarrow> u32 \<Rightarrow> u32 \<Rightarrow> mem \<Rightarrow> (u32 \<times> mem) option" where
  "strncpy dst src sz m = do { m \<leftarrow> strncpy_loop 0 dst src sz m; Some (dst, m) }"

text \<open>The loop of \<open>strlcpy\<close>, from the test \<open>--size > 0 && *src\<close> on; the result is the final \<open>dst\<close>.\<close>

partial_function (option) strlcpy_loop :: "u32 \<Rightarrow> u32 \<Rightarrow> u32 \<Rightarrow> mem \<Rightarrow> (u32 \<times> mem) option" where
  "strlcpy_loop dst src sz m =
     (let sz = sz - 1 in
      if sz > 0 then do {
        c \<leftarrow> ld src m;
        if c \<noteq> 0 then do {
          m \<leftarrow> st c dst m;
          strlcpy_loop (dst + 1) (src + 1) sz m
        }
        else Some (dst, m)
      }
      else Some (dst, m))"

definition strlcpy :: "u32 \<Rightarrow> u32 \<Rightarrow> u32 \<Rightarrow> mem \<Rightarrow> (u32 \<times> mem) option" where
  "strlcpy dst src sz m =
     (if sz > 0 then do {
        (d, m) \<leftarrow> strlcpy_loop dst src sz m;
        m \<leftarrow> st 0 d m;
        Some (d - dst, m)
      }
      else Some (0, m))"

section \<open>Comparison and search\<close>

partial_function (option) strcmp :: "u32 \<Rightarrow> u32 \<Rightarrow> mem \<Rightarrow> int option" where
  "strcmp p q m = do {
     a \<leftarrow> ld p m;
     b \<leftarrow> ld q m;
     if a \<noteq> 0 \<and> a = b then strcmp (p + 1) (q + 1) m else Some (uint a - uint b)
   }"

partial_function (option) strncmp :: "u32 \<Rightarrow> u32 \<Rightarrow> u32 \<Rightarrow> mem \<Rightarrow> int option" where
  "strncmp p q n m =
     (if n = 0 then Some 0
      else do {
        a \<leftarrow> ld p m;
        b \<leftarrow> ld q m;
        if a \<noteq> 0 \<and> a = b then strncmp (p + 1) (q + 1) (n - 1) m else Some (uint a - uint b)
      })"

text \<open>A null pointer is \<open>0\<close>.\<close>

partial_function (option) strchr :: "u32 \<Rightarrow> u8 \<Rightarrow> mem \<Rightarrow> u32 option" where
  "strchr s c m = do {
     b \<leftarrow> ld s m;
     if b = 0 then Some 0 else if b = c then Some s else strchr (s + 1) c m
   }"

partial_function (option) strfind :: "u32 \<Rightarrow> u8 \<Rightarrow> mem \<Rightarrow> u32 option" where
  "strfind s c m = do {
     b \<leftarrow> ld s m;
     if b = 0 then Some s else if b = c then Some s else strfind (s + 1) c m
   }"

partial_function (option) memcmp :: "u32 \<Rightarrow> u32 \<Rightarrow> u32 \<Rightarrow> mem \<Rightarrow> int option" where
  "memcmp p q n m =
     (if n > 0 then do {
        a \<leftarrow> ld p m;
        b \<leftarrow> ld q m;
        if a \<noteq> b then Some (uint a - uint b) else memcmp (p + 1) (q + 1) (n - 1) m
      }
      else Some 0)"

partial_function (option) memfind_loop :: "u32 \<Rightarrow> u8 \<Rightarrow> u32 \<Rightarrow> mem \<Rightarrow> u32 option" where
  "memfind_loop s c ends m =
     (if s < ends then do {
        b \<leftarrow> ld s m;
        if b = c then Some s else memfind_loop (s + 1) c ends m
      }
      else Some s)"

definition memfind :: "u32 \<Rightarrow> u32 \<Rightarrow> u32 \<Rightarrow> mem \<Rightarrow> u32 option" where
  "memfind s c n m = memfind_loop s (ucast c) (s + n) m"

section \<open>The string instructions of the processor\<close>

text \<open>
  \<open>rep stosb\<close>/\<open>rep stosl\<close> and \<open>rep movsb\<close>/\<open>rep movsl\<close>: \<open>c\<close> rounds of one or four bytes each, with
  the pointers moving up (direction flag clear) or down (set).
\<close>

primrec rep_stos :: "u8 list \<Rightarrow> nat \<Rightarrow> u32 \<Rightarrow> mem \<Rightarrow> mem option" where
  "rep_stos bs 0 d m = Some m"
| "rep_stos bs (Suc c) d m = do { m \<leftarrow> sts bs d m; rep_stos bs c (d + word_of_nat (length bs)) m }"

primrec rep_movs_up :: "nat \<Rightarrow> nat \<Rightarrow> u32 \<Rightarrow> u32 \<Rightarrow> mem \<Rightarrow> mem option" where
  "rep_movs_up w 0 d s m = Some m"
| "rep_movs_up w (Suc c) d s m = do {
     bs \<leftarrow> lds w s m;
     m \<leftarrow> sts bs d m;
     rep_movs_up w c (d + word_of_nat w) (s + word_of_nat w) m
   }"

primrec rep_movs_down :: "nat \<Rightarrow> nat \<Rightarrow> u32 \<Rightarrow> u32 \<Rightarrow> mem \<Rightarrow> mem option" where
  "rep_movs_down w 0 d s m = Some m"
| "rep_movs_down w (Suc c) d s m = do {
     bs \<leftarrow> lds w s m;
     m \<leftarrow> sts bs d m;
     rep_movs_down w c (d - word_of_nat w) (s - word_of_nat w) m
   }"

text \<open>The bytes of a word, lowest first.\<close>

definition le_bytes :: "u32 \<Rightarrow> u8 list" where
  "le_bytes x = [ucast x, ucast (drop_bit 8 x), ucast (drop_bit 16 x), ucast (drop_bit 24 x)]"

definition memset :: "u32 \<Rightarrow> u32 \<Rightarrow> u32 \<Rightarrow> mem \<Rightarrow> (u32 \<times> mem) option" where
  "memset v c n m =
     (if n = 0 then Some (v, m)
      else if v mod 4 = 0 \<and> n mod 4 = 0 then
        (let c = c AND 0xFF;
             c = push_bit 24 c OR push_bit 16 c OR push_bit 8 c OR c
         in do { m \<leftarrow> rep_stos (le_bytes c) (unat (n div 4)) v m; Some (v, m) })
      else do { m \<leftarrow> rep_stos [ucast c] (unat n) v m; Some (v, m) })"

definition memmove :: "u32 \<Rightarrow> u32 \<Rightarrow> u32 \<Rightarrow> mem \<Rightarrow> (u32 \<times> mem) option" where
  "memmove dst src n m = do {
     m \<leftarrow> (if src < dst \<and> src + n > dst then
             (let s = src + n; d = dst + n in
              if s mod 4 = 0 \<and> d mod 4 = 0 \<and> n mod 4 = 0
              then rep_movs_down 4 (unat (n div 4)) (d - 4) (s - 4) m
              else rep_movs_down 1 (unat n) (d - 1) (s - 1) m)
           else
             if src mod 4 = 0 \<and> dst mod 4 = 0 \<and> n mod 4 = 0
             then rep_movs_up 4 (unat (n div 4)) dst src m
             else rep_movs_up 1 (unat n) dst src m);
     Some (dst, m)
   }"

definition memcpy :: "u32 \<Rightarrow> u32 \<Rightarrow> u32 \<Rightarrow> mem \<Rightarrow> (u32 \<times> mem) option" where
  "memcpy dst src n m = memmove dst src n m"

section \<open>The portable versions\<close>

text \<open>The bodies of \<open>memset\<close> and \<open>memmove\<close> for \<open>ASM\<close> 0.\<close>

partial_function (option) memset_c_loop :: "u32 \<Rightarrow> u8 \<Rightarrow> u32 \<Rightarrow> mem \<Rightarrow> mem option" where
  "memset_c_loop p c k m =
     (let k = k - 1 in
      if 0 \<le>s k then do { m \<leftarrow> st c p m; memset_c_loop (p + 1) c k m } else Some m)"

definition memset_c :: "u32 \<Rightarrow> u32 \<Rightarrow> u32 \<Rightarrow> mem \<Rightarrow> (u32 \<times> mem) option" where
  "memset_c v c n m = do { m \<leftarrow> memset_c_loop v (ucast c) n m; Some (v, m) }"

partial_function (option) memmove_down_loop :: "u32 \<Rightarrow> u32 \<Rightarrow> u32 \<Rightarrow> mem \<Rightarrow> mem option" where
  "memmove_down_loop d s n m =
     (if n > 0 then do {
        b \<leftarrow> ld (s - 1) m;
        m \<leftarrow> st b (d - 1) m;
        memmove_down_loop (d - 1) (s - 1) (n - 1) m
      }
      else Some m)"

partial_function (option) memmove_up_loop :: "u32 \<Rightarrow> u32 \<Rightarrow> u32 \<Rightarrow> mem \<Rightarrow> mem option" where
  "memmove_up_loop d s n m =
     (if n > 0 then do {
        b \<leftarrow> ld s m;
        m \<leftarrow> st b d m;
        memmove_up_loop (d + 1) (s + 1) (n - 1) m
      }
      else Some m)"

definition memmove_c :: "u32 \<Rightarrow> u32 \<Rightarrow> u32 \<Rightarrow> mem \<Rightarrow> (u32 \<times> mem) option" where
  "memmove_c dst src n m = do {
     m \<leftarrow> (if src < dst \<and> src + n > dst then memmove_down_loop (dst + n) (src + n) n m
           else memmove_up_loop dst src n m);
     Some (dst, m)
   }"

section \<open>Numbers\<close>

partial_function (option) skip_blanks :: "u32 \<Rightarrow> mem \<Rightarrow> u32 option" where
  "skip_blanks s m = do {
     c \<leftarrow> ld s m;
     if c = 32 \<or> c = 9 then skip_blanks (s + 1) m else Some s
   }"

text \<open>The value of a digit: 0 to 9, then the letters of either case.\<close>

definition digit_value :: "u8 \<Rightarrow> u32 option" where
  "digit_value c =
     (if 48 \<le> c \<and> c \<le> 57 then Some (ucast c - 48)
      else if 97 \<le> c \<and> c \<le> 122 then Some (ucast c - 97 + 10)
      else if 65 \<le> c \<and> c \<le> 90 then Some (ucast c - 65 + 10)
      else None)"

partial_function (option) strtol_digits :: "u32 \<Rightarrow> u32 \<Rightarrow> u32 \<Rightarrow> mem \<Rightarrow> (u32 \<times> u32) option" where
  "strtol_digits s base val m = do {
     c \<leftarrow> ld s m;
     (case digit_value c of
        None \<Rightarrow> Some (val, s)
      | Some dig \<Rightarrow>
          if base \<le>s dig then Some (val, s)
          else strtol_digits (s + 1) base (val * base + dig) m)
   }"

text \<open>The base prefix: the new base and position.\<close>

definition strtol_prefix :: "u32 \<Rightarrow> u32 \<Rightarrow> mem \<Rightarrow> (u32 \<times> u32) option" where
  "strtol_prefix s base m = do {
     hex \<leftarrow> (if base = 0 \<or> base = 16 then do {
                c \<leftarrow> ld s m;
                if c = 48 then do { x \<leftarrow> ld (s + 1) m; Some (x = 120) } else Some False
              }
              else Some False);
     if hex then Some (16, s + 2)
     else if base = 0 then do {
       c \<leftarrow> ld s m;
       if c = 48 then Some (8, s + 1) else Some (10, s)
     }
     else Some (base, s)
   }"

text \<open>The result is the value and what \<open>*endptr\<close> receives.\<close>

definition strtol :: "u32 \<Rightarrow> u32 \<Rightarrow> mem \<Rightarrow> (u32 \<times> u32) option" where
  "strtol s base m = do {
     s \<leftarrow> skip_blanks s m;
     c \<leftarrow> ld s m;
     let neg = (c = 45);
     let s = (if c = 43 \<or> c = 45 then s + 1 else s);
     (base, s) \<leftarrow> strtol_prefix s base m;
     (val, s) \<leftarrow> strtol_digits s base 0 m;
     Some (if neg then - val else val, s)
   }"

end
