(* ===== verification/Fmt.thy ===== *)
theory Fmt
  imports Str Mmu
begin

text \<open>
  The formatted output of \<open>lib/printfmt.c\<close>.  The functions take the character output \<open>putch\<close> as an
  argument, as in the source, acting on a state of any type, and read the format and the strings with
  \<open>rd\<close> from that state, so that output into the memory that holds the format is covered.  A list of
  variable arguments is the list of the 32-bit words on the stack.  A field width or precision is an
  \<open>int\<close> that the model does not wrap.
\<close>

type_synonym u64 = "64 word"

section \<open>Numbers\<close>

text \<open>\<open>while (--width > 0) putch(padc)\<close>\<close>

primrec pad :: "(u32 \<Rightarrow> 's \<Rightarrow> 's option) \<Rightarrow> u32 \<Rightarrow> nat \<Rightarrow> 's \<Rightarrow> 's option" where
  "pad putch padc 0 s = Some s"
| "pad putch padc (Suc n) s = do { s \<leftarrow> putch padc s; pad putch padc n s }"

definition hex_digits :: "u32 list" where
  "hex_digits = map (\<lambda>c. of_char c) ''0123456789abcdef''"

partial_function (option) printnum ::
  "(u32 \<Rightarrow> 's \<Rightarrow> 's option) \<Rightarrow> u64 \<Rightarrow> u32 \<Rightarrow> int \<Rightarrow> u32 \<Rightarrow> 's \<Rightarrow> 's option" where
  "printnum putch num base width padc s = do {
     s \<leftarrow> (if ucast base \<le> num
           then if base = 0 then None else printnum putch (num div ucast base) base (width - 1) padc s
           else pad putch padc (nat (width - 1)) s);
     let i = num mod ucast base;
     if i < 16 then putch (hex_digits ! unat i) s else None
   }"

text \<open>The next argument of the width that the number of \<open>l\<close> flags asks for.\<close>

fun getuint :: "nat \<Rightarrow> u32 list \<Rightarrow> (u64 \<times> u32 list) option" where
  "getuint lflag ap = (if 2 \<le> lflag
     then (case ap of lo # hi # ap \<Rightarrow> Some (push_bit 32 (ucast hi) OR ucast lo, ap) | _ \<Rightarrow> None)
     else (case ap of x # ap \<Rightarrow> Some (ucast x, ap) | _ \<Rightarrow> None))"

fun getint :: "nat \<Rightarrow> u32 list \<Rightarrow> (u64 \<times> u32 list) option" where
  "getint lflag ap = (if 2 \<le> lflag
     then (case ap of lo # hi # ap \<Rightarrow> Some (push_bit 32 (ucast hi) OR ucast lo, ap) | _ \<Rightarrow> None)
     else (case ap of x # ap \<Rightarrow> Some (scast x, ap) | _ \<Rightarrow> None))"

fun next_arg :: "u32 list \<Rightarrow> (u32 \<times> u32 list) option" where
  "next_arg [] = None"
| "next_arg (x # ap) = Some (x, ap)"

definition print_signed ::
  "(u32 \<Rightarrow> 's \<Rightarrow> 's option) \<Rightarrow> u64 \<Rightarrow> int \<Rightarrow> u32 \<Rightarrow> 's \<Rightarrow> 's option" where
  "print_signed putch num width padc s =
     (if num <s 0 then do { s \<leftarrow> putch 45 s; printnum putch (- num) 10 width padc s }
      else printnum putch num 10 width padc s)"

section \<open>Strings\<close>

text \<open>A string argument is in memory, or a literal of the program.\<close>

datatype strsrc = At u32 | Lit "u8 list"

fun get_ch :: "(u32 \<Rightarrow> 's \<Rightarrow> u8 option) \<Rightarrow> strsrc \<Rightarrow> nat \<Rightarrow> 's \<Rightarrow> u8 option" where
  "get_ch rd (At p) i s = rd (p + word_of_nat i) s"
| "get_ch rd (Lit cs) i s = (if i \<le> length cs then Some ((cs @ [0]) ! i) else None)"

definition lit :: "string \<Rightarrow> u8 list" where
  "lit cs = map of_char cs"

text \<open>\<open>strnlen(p, precision)\<close>: a negative precision is a limit of more than \<open>2^31\<close>.\<close>

partial_function (option) str_width :: "(u32 \<Rightarrow> 's \<Rightarrow> u8 option) \<Rightarrow> strsrc \<Rightarrow> nat \<Rightarrow> nat \<Rightarrow> 's \<Rightarrow> nat option" where
  "str_width rd src i limit s =
     (if i < limit then do {
        c \<leftarrow> get_ch rd src i s;
        if c \<noteq> 0 then str_width rd src (i + 1) limit s else Some i
      }
      else Some i)"

partial_function (option) str_loop ::
  "(u32 \<Rightarrow> 's \<Rightarrow> 's option) \<Rightarrow> (u32 \<Rightarrow> 's \<Rightarrow> u8 option) \<Rightarrow> strsrc \<Rightarrow> nat \<Rightarrow> int \<Rightarrow> int \<Rightarrow> bool \<Rightarrow> 's
   \<Rightarrow> (int \<times> 's) option" where
  "str_loop putch rd src i width precision altflag s = do {
     c \<leftarrow> get_ch rd src i s;
     if c \<noteq> 0 \<and> (precision < 0 \<or> 0 \<le> precision - 1) then do {
       s \<leftarrow> putch (if altflag \<and> (c <s 32 \<or> 126 <s c) then 63 else scast c) s;
       str_loop putch rd src (i + 1) (width - 1) (if precision < 0 then precision else precision - 1) altflag s
     }
     else Some (width, s)
   }"

definition print_str ::
  "(u32 \<Rightarrow> 's \<Rightarrow> 's option) \<Rightarrow> (u32 \<Rightarrow> 's \<Rightarrow> u8 option) \<Rightarrow> strsrc \<Rightarrow> u32 \<Rightarrow> int \<Rightarrow> int \<Rightarrow> bool \<Rightarrow> 's \<Rightarrow> 's option" where
  "print_str putch rd src padc width precision altflag s = do {
     (width, s) \<leftarrow> (if 0 < width \<and> padc \<noteq> 45 then do {
                      n \<leftarrow> str_width rd src 0 (unat (word_of_int precision :: u32)) s;
                      s \<leftarrow> pad putch padc (nat (width - int n)) s;
                      Some (min (width - int n) 0, s)
                    }
                    else Some (width, s));
     (width, s) \<leftarrow> str_loop putch rd src 0 width precision altflag s;
     pad putch 32 (nat width) s
   }"

definition MAXERROR :: nat where "MAXERROR = 16"

definition error_string :: "nat \<Rightarrow> string option" where
  "error_string e = [None, Some ''unspecified error'', Some ''bad environment'', Some ''invalid parameter'',
     Some ''out of memory'', Some ''out of environments'', Some ''segmentation fault'',
     Some ''env is not recving'', Some ''unexpected end of file'', Some ''no free space on disk'',
     Some ''too many files are open'', Some ''file or block not found'', Some ''invalid path'',
     Some ''file already exists'', Some ''file is not a valid executable'', Some ''operation not supported''] ! e"

text \<open>
  The conversion \<open>%e\<close>.  The two calls of \<open>printfmt\<close>, with the formats \<open>"error %d"\<close> and \<open>"%s"\<close>, are
  written out.  \<open>-2^31\<close> stays negative and indexes the table out of range.
\<close>

definition print_error ::
  "(u32 \<Rightarrow> 's \<Rightarrow> 's option) \<Rightarrow> (u32 \<Rightarrow> 's \<Rightarrow> u8 option) \<Rightarrow> u32 \<Rightarrow> 's \<Rightarrow> 's option" where
  "print_error putch rd err s =
     (let err = (if err <s 0 then - err else err) in
      if err <s 0 then None
      else if MAXERROR \<le> unat err \<or> error_string (unat err) = None then do {
        s \<leftarrow> foldM putch (map ucast (lit ''error '')) s;
        print_signed putch (scast err) (-1) 32 s
      }
      else print_str putch rd (Lit (lit (the (error_string (unat err))))) 32 (-1) (-1) False s)"

section \<open>The format\<close>

text \<open>The digits of a field width, of which the first is \<open>ch\<close>; \<open>fmt\<close> ends at the first other character.\<close>

partial_function (option) read_width :: "(u32 \<Rightarrow> 's \<Rightarrow> u8 option) \<Rightarrow> u32 \<Rightarrow> u8 \<Rightarrow> int \<Rightarrow> 's \<Rightarrow> (int \<times> u32) option" where
  "read_width rd fmt ch precision s = do {
     let precision = precision * 10 + uint ch - 48;
     ch \<leftarrow> rd fmt s;
     if 48 \<le> ch \<and> ch \<le> 57 then read_width rd (fmt + 1) ch precision s
     else Some (precision, fmt)
   }"

text \<open>\<open>for (fmt--; fmt[-1] != '%'; fmt--)\<close> after the decrement.\<close>

partial_function (option) to_percent :: "(u32 \<Rightarrow> 's \<Rightarrow> u8 option) \<Rightarrow> u32 \<Rightarrow> 's \<Rightarrow> u32 option" where
  "to_percent rd fmt s = do {
     c \<leftarrow> rd (fmt - 1) s;
     if c \<noteq> 37 then to_percent rd (fmt - 1) s else Some fmt
   }"

text \<open>Outside an escape sequence, or inside one with its flags.\<close>

datatype fmode = Scan | Esc u32 int int nat bool

definition new_escape :: fmode where
  "new_escape = Esc 32 (-1) (-1) 0 False"

definition process_precision :: "u32 \<Rightarrow> int \<Rightarrow> int \<Rightarrow> nat \<Rightarrow> bool \<Rightarrow> fmode" where
  "process_precision padc width precision lflag altflag =
     (if width < 0 then Esc padc precision (-1) lflag altflag else Esc padc width precision lflag altflag)"

definition print_unsigned ::
  "(u32 \<Rightarrow> 's \<Rightarrow> 's option) \<Rightarrow> u32 \<Rightarrow> int \<Rightarrow> u32 \<Rightarrow> nat \<Rightarrow> u32 list \<Rightarrow> 's \<Rightarrow> (u32 list \<times> 's) option" where
  "print_unsigned putch base width padc lflag ap s = do {
     (num, ap) \<leftarrow> getuint lflag ap;
     s \<leftarrow> printnum putch num base width padc s;
     Some (ap, s)
   }"

text \<open>
  One character of the format: \<open>Inl\<close> when the format ends, \<open>Inr\<close> with the mode, the position and the
  arguments left.
\<close>

definition vprintfmt_step ::
  "(u32 \<Rightarrow> 's \<Rightarrow> 's option) \<Rightarrow> (u32 \<Rightarrow> 's \<Rightarrow> u8 option) \<Rightarrow> fmode \<Rightarrow> u32 \<Rightarrow> u32 list \<Rightarrow> 's
   \<Rightarrow> ('s + fmode \<times> u32 \<times> u32 list \<times> 's) option" where
  "vprintfmt_step putch rd mode fmt ap s = do {
     ch \<leftarrow> rd fmt s;
     let fmt = fmt + 1;
     (case mode of
        Scan \<Rightarrow>
          if ch = 37 then Some (Inr (new_escape, fmt, ap, s))
          else if ch = 0 then Some (Inl s)
          else do { s \<leftarrow> putch (ucast ch) s; Some (Inr (Scan, fmt, ap, s)) }
      | Esc padc width precision lflag altflag \<Rightarrow>
          if ch = 45 then Some (Inr (Esc 45 width precision lflag altflag, fmt, ap, s))
          else if ch = 48 then Some (Inr (Esc 48 width precision lflag altflag, fmt, ap, s))
          else if 49 \<le> ch \<and> ch \<le> 57 then do {
            (precision, fmt) \<leftarrow> read_width rd fmt ch 0 s;
            Some (Inr (process_precision padc width precision lflag altflag, fmt, ap, s))
          }
          else if ch = 42 then do {
            (p, ap) \<leftarrow> next_arg ap;
            Some (Inr (process_precision padc width (sint p) lflag altflag, fmt, ap, s))
          }
          else if ch = 46 then Some (Inr (Esc padc (max width 0) precision lflag altflag, fmt, ap, s))
          else if ch = 35 then Some (Inr (Esc padc width precision lflag True, fmt, ap, s))
          else if ch = 108 then Some (Inr (Esc padc width precision (lflag + 1) altflag, fmt, ap, s))
          else if ch = 99 then do {
            (c, ap) \<leftarrow> next_arg ap;
            s \<leftarrow> putch c s;
            Some (Inr (Scan, fmt, ap, s))
          }
          else if ch = 101 then do {
            (err, ap) \<leftarrow> next_arg ap;
            s \<leftarrow> print_error putch rd err s;
            Some (Inr (Scan, fmt, ap, s))
          }
          else if ch = 115 then do {
            (p, ap) \<leftarrow> next_arg ap;
            s \<leftarrow> print_str putch rd (if p = 0 then Lit (lit ''(null)'') else At p) padc width precision altflag s;
            Some (Inr (Scan, fmt, ap, s))
          }
          else if ch = 100 then do {
            (num, ap) \<leftarrow> getint lflag ap;
            s \<leftarrow> print_signed putch num width padc s;
            Some (Inr (Scan, fmt, ap, s))
          }
          else if ch = 117 \<or> ch = 111 \<or> ch = 120 then do {
            (ap, s) \<leftarrow> print_unsigned putch (if ch = 117 then 10 else if ch = 111 then 8 else 16) width padc lflag ap s;
            Some (Inr (Scan, fmt, ap, s))
          }
          else if ch = 112 then do {
            s \<leftarrow> putch 48 s;
            s \<leftarrow> putch 120 s;
            (p, ap) \<leftarrow> next_arg ap;
            s \<leftarrow> printnum putch (ucast p) 16 width padc s;
            Some (Inr (Scan, fmt, ap, s))
          }
          else if ch = 37 then do { s \<leftarrow> putch 37 s; Some (Inr (Scan, fmt, ap, s)) }
          else do {
            s \<leftarrow> putch 37 s;
            fmt \<leftarrow> to_percent rd (fmt - 1) s;
            Some (Inr (Scan, fmt, ap, s))
          })
   }"

partial_function (option) vprintfmt_loop ::
  "(u32 \<Rightarrow> 's \<Rightarrow> 's option) \<Rightarrow> (u32 \<Rightarrow> 's \<Rightarrow> u8 option) \<Rightarrow> fmode \<Rightarrow> u32 \<Rightarrow> u32 list \<Rightarrow> 's \<Rightarrow> 's option" where
  "vprintfmt_loop putch rd mode fmt ap s = do {
     r \<leftarrow> vprintfmt_step putch rd mode fmt ap s;
     (case r of
        Inl s \<Rightarrow> Some s
      | Inr x \<Rightarrow> (case x of (mode, fmt, ap, s) \<Rightarrow> vprintfmt_loop putch rd mode fmt ap s))
   }"

definition vprintfmt ::
  "(u32 \<Rightarrow> 's \<Rightarrow> 's option) \<Rightarrow> (u32 \<Rightarrow> 's \<Rightarrow> u8 option) \<Rightarrow> u32 \<Rightarrow> u32 list \<Rightarrow> 's \<Rightarrow> 's option" where
  "vprintfmt putch rd fmt ap s = vprintfmt_loop putch rd Scan fmt ap s"

section \<open>Printing into a buffer\<close>

record sprintbuf =
  sp_buf :: u32
  sp_ebuf :: u32
  sp_cnt :: u32

definition sprintputch :: "u32 \<Rightarrow> mem \<times> sprintbuf \<Rightarrow> (mem \<times> sprintbuf) option" where
  "sprintputch ch s = (case s of (m, b) \<Rightarrow>
     (let b = b\<lparr>sp_cnt := sp_cnt b + 1\<rparr> in
      if sp_buf b < sp_ebuf b
      then do { m \<leftarrow> st (ucast ch) (sp_buf b) m; Some (m, b\<lparr>sp_buf := sp_buf b + 1\<rparr>) }
      else Some (m, b)))"

definition rd_mem :: "u32 \<Rightarrow> mem \<times> sprintbuf \<Rightarrow> u8 option" where
  "rd_mem a s = ld a (fst s)"

definition vsnprintf :: "u32 \<Rightarrow> u32 \<Rightarrow> u32 \<Rightarrow> u32 list \<Rightarrow> mem \<Rightarrow> (int \<times> mem) option" where
  "vsnprintf buf n fmt ap m =
     (if buf = 0 \<or> n <s 1 then Some (- E_INVAL, m)
      else do {
        (m, b) \<leftarrow> vprintfmt sprintputch rd_mem fmt ap (m, \<lparr>sp_buf = buf, sp_ebuf = buf + n - 1, sp_cnt = 0\<rparr>);
        m \<leftarrow> st 0 (sp_buf b) m;
        Some (sint (sp_cnt b), m)
      })"

definition snprintf :: "u32 \<Rightarrow> u32 \<Rightarrow> u32 \<Rightarrow> u32 list \<Rightarrow> mem \<Rightarrow> (int \<times> mem) option" where
  "snprintf buf n fmt ap m = vsnprintf buf n fmt ap m"

end
