(* ===== verification/StrProps.thy ===== *)
theory StrProps
  imports Str
begin

text \<open>
  The properties of the string library: the copies are exact whatever the overlap, the assembly and
  the portable versions agree, and bounded copies stay inside their buffer.
\<close>

section \<open>Copies\<close>

text \<open>A block copied from \<open>s\<close> to \<open>d\<close> upwards is not overwritten before it is read.\<close>

definition up_safe :: "u32 \<Rightarrow> u32 \<Rightarrow> nat \<Rightarrow> bool" where
  "up_safe d s n \<longleftrightarrow> off s d = 0 \<or> n \<le> off s d"

definition down_safe :: "u32 \<Rightarrow> u32 \<Rightarrow> nat \<Rightarrow> bool" where
  "down_safe d s n \<longleftrightarrow> off d s = 0 \<or> n \<le> off d s"

lemma off_swap: "off d s = (if off s d = 0 then 0 else 4294967296 - off s d)"
proof -
  define x where "x = d - s"
  have "s - d = 0 - x" by (simp add: x_def)
  then show ?thesis unfolding x_def[symmetric] by (simp only: unat_sub_if') simp
qed

lemma bytes_after_up:
  assumes "bytes_at m s (xs @ bs)" and "up_safe d s (length xs + length bs)"
    and "length xs + length bs \<le> 4294967296" and "length xs < 4294967296"
  shows "bytes_at (put_block d xs m) (s + word_of_nat (length xs)) bs"
proof (rule bytes_at_cong)
  show "bytes_at m (s + word_of_nat (length xs)) bs" using assms(1) by (simp add: bytes_at_append)
  fix a assume a: "off (s + word_of_nat (length xs)) a < length bs"
  have "length xs \<le> off d a"
  proof -
    have "a - d = (a - s) - (d - s)" by simp
    then have "off d a = (if off s d \<le> off s a then off s a - off s d else off s a + 4294967296 - off s d)"
      by (simp only: unat_sub_if') simp
    moreover have "length xs \<le> off s a \<and> off s a < length xs + length bs"
      using a assms(3,4) off_less[of a s] unfolding off_shift[OF assms(4)] by (auto split: if_splits)
    ultimately show ?thesis using assms(2,3) off_less[of d s] by (auto simp: up_safe_def)
  qed
  then show "put_block d xs m a = m a" by (rule put_block_other)
qed (use assms in simp)

lemma bytes_after_down:
  assumes "bytes_at m s (xs @ bs)" and "down_safe d s (length xs + length bs)"
    and "length xs + length bs \<le> 4294967296" and "length xs < 4294967296"
  shows "bytes_at (put_block (d + word_of_nat (length xs)) bs m) s xs"
proof (rule bytes_at_cong)
  show "bytes_at m s xs" using assms(1) by (simp add: bytes_at_append)
  fix a assume a: "off s a < length xs"
  have "length bs \<le> off (d + word_of_nat (length xs)) a"
  proof -
    have "a - d = (a - s) + (s - d)" by simp
    then have "off d a = (if off s a + off d s < 4294967296 then off s a + off d s else off s a + off d s - 4294967296)"
      by (simp only: unat_plus_if') simp
    then show ?thesis using a assms(2,3) off_less[of s d] unfolding off_shift[OF assms(4)]
      by (auto simp: down_safe_def)
  qed
  then show "put_block (d + word_of_nat (length xs)) bs m a = m a" by (rule put_block_other)
qed (use assms in simp)

lemma mapped_put_block: "mapped m p n \<Longrightarrow> mapped (put_block d bs m) p n"
  by (erule mapped_cong) (simp add: put_block_def)

lemma rep_movs_up_copies:
  assumes "bytes_at m s bs" and "mapped m d (length bs)" and "up_safe d s (length bs)"
    and "length bs = c * w" and "0 < w" and "length bs \<le> 4294967295"
  shows "rep_movs_up w c d s m = Some (put_block d bs m)"
  using assms
proof (induction c arbitrary: d s m bs)
  case (Suc c)
  define xs ys where "xs = take w bs" and "ys = drop w bs"
  have bs: "bs = xs @ ys" and len: "length xs = w" "length ys = c * w"
    using Suc.prems(4) by (auto simp: xs_def ys_def)
  have lim: "length xs + length ys \<le> 4294967295" using Suc.prems(6) bs by simp
  have "rep_movs_up w c (d + word_of_nat w) (s + word_of_nat w) (put_block d xs m)
      = Some (put_block (d + word_of_nat w) ys (put_block d xs m))"
  proof (rule Suc.IH)
    show "bytes_at (put_block d xs m) (s + word_of_nat w) ys"
      using bytes_after_up[of m s xs ys d] Suc.prems(1,3) lim len bs by simp
    show "mapped (put_block d xs m) (d + word_of_nat w) (length ys)"
      using mapped_sub[OF Suc.prems(2), of w "length ys"] bs len by (simp add: mapped_put_block)
    show "up_safe (d + word_of_nat w) (s + word_of_nat w) (length ys)"
      using Suc.prems(3) bs by (auto simp: up_safe_def)
  qed (use len lim Suc.prems(5) in auto)
  moreover have "lds w s m = Some xs"
    using lds_bytes[of m s xs] Suc.prems(1) bs len by (simp add: bytes_at_append)
  moreover have "sts xs d m = Some (put_block d xs m)"
    using sts_put_block[of m d xs] mapped_sub[OF Suc.prems(2), of 0 "length xs"] bs lim by simp
  ultimately show ?case using put_block_append[of xs ys d m] lim len bs by simp
qed simp

lemma rep_movs_down_copies:
  assumes "bytes_at m s bs" and "mapped m d (length bs)" and "down_safe d s (length bs)"
    and "length bs = c * w" and "0 < w" and "length bs \<le> 4294967295"
  shows "rep_movs_down w c (d + word_of_nat (length bs) - word_of_nat w) (s + word_of_nat (length bs) - word_of_nat w) m
    = Some (put_block d bs m)"
  using assms
proof (induction c arbitrary: m bs)
  case (Suc c)
  define xs ys where "xs = take (c * w) bs" and "ys = drop (c * w) bs"
  have bs: "bs = xs @ ys" and len: "length xs = c * w" "length ys = w"
    using Suc.prems(4) by (auto simp: xs_def ys_def)
  have lim: "length xs + length ys \<le> 4294967295" using Suc.prems(6) bs by simp
  have step: "p + word_of_nat (length bs) - word_of_nat w = p + word_of_nat (length xs)" for p :: u32
    using bs len by simp
  have "rep_movs_down w c (d + word_of_nat (length xs) - word_of_nat w) (s + word_of_nat (length xs) - word_of_nat w)
      (put_block (d + word_of_nat (length xs)) ys m)
      = Some (put_block d xs (put_block (d + word_of_nat (length xs)) ys m))"
  proof (rule Suc.IH)
    show "bytes_at (put_block (d + word_of_nat (length xs)) ys m) s xs"
      using bytes_after_down[of m s xs ys d] Suc.prems(1,3) lim bs by simp
    show "mapped (put_block (d + word_of_nat (length xs)) ys m) d (length xs)"
      using mapped_sub[OF Suc.prems(2), of 0 "length xs"] bs by (simp add: mapped_put_block)
    show "down_safe d s (length xs)"
      using Suc.prems(3) bs by (auto simp: down_safe_def)
  qed (use len lim Suc.prems(5) in auto)
  moreover have "lds w (s + word_of_nat (length xs)) m = Some ys"
    using lds_bytes[of m "s + word_of_nat (length xs)" ys] Suc.prems(1) bs len by (simp add: bytes_at_append)
  moreover have "sts ys (d + word_of_nat (length xs)) m = Some (put_block (d + word_of_nat (length xs)) ys m)"
    using sts_put_block[of m "d + word_of_nat (length xs)" ys] mapped_sub[OF Suc.prems(2), of "length xs" "length ys"] bs lim
    by simp
  ultimately show ?case using put_block_append_rev[of xs ys d m] lim bs unfolding step by simp
qed simp

lemma lds_1: "lds 1 s m = map_option (\<lambda>b. [b]) (ld s m)"
  by (simp add: numeral_1_eq_Suc_0 map_option_case split: option.split)

lemma sts_1: "sts [b] d m = st b d m"
  by simp

lemma unat_pos_pred: "unat (n :: u32) = Suc k \<Longrightarrow> n > 0 \<and> unat (n - 1) = k"
proof -
  assume n: "unat n = Suc k"
  then have "n \<noteq> 0" by auto
  then show ?thesis using n by (simp add: unat_minus_one word_gt_0)
qed

lemma memmove_up_loop_rep: "memmove_up_loop d s n m = rep_movs_up 1 (unat n) d s m"
proof (induction "unat n" arbitrary: d s n m)
  case 0
  then show ?case by (subst memmove_up_loop.simps) (simp add: unat_eq_0 word_gt_0)
next
  case (Suc k)
  then have n: "n > 0" "unat (n - 1) = k" using unat_pos_pred by metis+
  then show ?case using Suc.hyps(1)[of "n - 1"]
    by (subst memmove_up_loop.simps) (cases "ld s m"; cases "m d"; simp add: lds_1 st_def Suc.hyps(2)[symmetric])
qed

lemma memmove_down_loop_rep: "memmove_down_loop d s n m = rep_movs_down 1 (unat n) (d - 1) (s - 1) m"
proof (induction "unat n" arbitrary: d s n m)
  case 0
  then show ?case by (subst memmove_down_loop.simps) (simp add: unat_eq_0 word_gt_0)
next
  case (Suc k)
  then have n: "n > 0" "unat (n - 1) = k" using unat_pos_pred by metis+
  then show ?case using Suc.hyps(1)[of "n - 1"]
    by (subst memmove_down_loop.simps) (cases "ld (s - 1) m"; cases "m (d - 1)"; simp add: lds_1 st_def Suc.hyps(2)[symmetric])
qed

text \<open>The test of \<open>memmove\<close> chooses a direction that is safe.\<close>

lemma memmove_direction:
  assumes "unat src + k < 4294967296" and "unat dst + k \<le> 4294967296"
  shows "if src < dst \<and> src + word_of_nat k > dst then down_safe dst src k else up_safe dst src k"
proof -
  have k: "unat (word_of_nat k :: u32) = k" using assms(1) by (simp add: unat_of_nat take_bit_eq_mod)
  have sum: "unat (src + word_of_nat k) = unat src + k"
    using assms(1) k by (subst unat_add_lem[THEN iffD1]) auto
  have o1: "off src dst = (if src \<le> dst then unat dst - unat src else unat dst + 4294967296 - unat src)"
    by (simp add: unat_sub_if' word_le_nat_alt)
  have o2: "off dst src = (if dst \<le> src then unat src - unat dst else unat src + 4294967296 - unat dst)"
    by (simp add: unat_sub_if' word_le_nat_alt)
  show ?thesis unfolding down_safe_def up_safe_def o1 o2
    using assms by (auto simp: word_less_nat_alt word_le_nat_alt sum)
qed

lemma memmove_copies:
  assumes "bytes_at m src bs" and "mapped m dst (length bs)"
    and "unat src + length bs < 4294967296" and "unat dst + length bs \<le> 4294967296"
  shows "memmove dst src (word_of_nat (length bs)) m = Some (dst, put_block dst bs m)"
    and "memmove_c dst src (word_of_nat (length bs)) m = Some (dst, put_block dst bs m)"
proof -
  define n :: u32 where "n = word_of_nat (length bs)"
  have n: "unat n = length bs" using assms(3) by (simp add: n_def unat_of_nat take_bit_eq_mod)
  have four: "length bs = unat (n div 4) * 4" if "n mod 4 = 0"
  proof -
    have "unat n mod 4 = unat (n mod 4)" by (simp add: unat_mod)
    with that have "unat n mod 4 = 0" by simp
    then have "unat n div 4 * 4 = unat n" using div_mult_mod_eq[of "unat n" 4] by simp
    then show ?thesis by (simp add: n[symmetric] unat_div)
  qed
  have dir: "if src < dst \<and> src + n > dst then down_safe dst src (length bs) else up_safe dst src (length bs)"
    using memmove_direction[OF assms(3,4)] by (simp add: n_def)
  have up: "rep_movs_up w c dst src m = Some (put_block dst bs m)"
    if "\<not> (src < dst \<and> src + n > dst)" "length bs = c * w" "0 < w" for w c
    using rep_movs_up_copies[OF assms(1,2) _ that(2,3)] dir that(1) assms(3) by simp
  have down: "rep_movs_down w c (dst + n - word_of_nat w) (src + n - word_of_nat w) m = Some (put_block dst bs m)"
    if "src < dst \<and> src + n > dst" "length bs = c * w" "0 < w" for w c
    using rep_movs_down_copies[OF assms(1,2) _ that(2,3)] dir that(1) assms(3) by (simp add: n_def)
  show "memmove dst src n m = Some (dst, put_block dst bs m)"
    unfolding memmove_def Let_def using up[of _ 4] up[of _ 1] down[of _ 4] down[of _ 1] four n by auto
  show "memmove_c dst src n m = Some (dst, put_block dst bs m)"
    unfolding memmove_c_def memmove_up_loop_rep memmove_down_loop_rep
    using up[of _ 1] down[of _ 1] n by auto
qed

text \<open>C32: \<open>memmove\<close> is exact for overlapping blocks.  With source and destination in memory and below
  the top of the address space, both the assembly version and the portable version end, return the
  destination, give it the bytes that the source had before the call and change nothing else.\<close>

theorem memmove_exact:
  assumes "bytes_at m src bs" and "mapped m dst (length bs)"
    and "unat src + length bs < 4294967296" and "unat dst + length bs \<le> 4294967296"
  shows "\<exists>m'. memmove dst src (word_of_nat (length bs)) m = Some (dst, m')
     \<and> memmove_c dst src (word_of_nat (length bs)) m = Some (dst, m')
     \<and> bytes_at m' dst bs \<and> (\<forall>a. off dst a \<ge> length bs \<or> m' a = Some (bs ! off dst a))
     \<and> (\<forall>a. off dst a < length bs \<or> m' a = m a)"
  using memmove_copies[OF assms] assms(3) bytes_at_put_block[of bs dst m]
  by (auto simp: put_block_def)

text \<open>Eight bytes at \<open>0x1000\<close>, moved up by two: the blocks overlap and the copy runs downwards.\<close>

definition demo_block :: mem where
  "demo_block a = (if off 0x1000 a < 16 then Some (ucast a) else None)"

theorem memmove_exact_witness:
  "\<exists>m'. memmove 0x1002 0x1000 8 demo_block = Some (0x1002, m') \<and> memmove_c 0x1002 0x1000 8 demo_block = Some (0x1002, m')
     \<and> bytes_at m' 0x1002 [0, 1, 2, 3, 4, 5, 6, 7]"
proof -
  have src: "bytes_at demo_block 0x1000 [0, 1, 2, 3, 4, 5, 6, 7]"
    by (simp add: bytes_at_Cons demo_block_def)
  have dst: "mapped demo_block 0x1002 (length [0, 1, 2, 3, 4, 5, 6, 7 :: u8])"
    using bytes_at_mapped[of demo_block "0x1002" "[2, 3, 4, 5, 6, 7, 8, 9]"] by (simp add: bytes_at_Cons demo_block_def)
  show ?thesis using memmove_exact[OF src dst] by auto
qed

section \<open>Bounded copies\<close>

lemma strlcpy_loop_result:
  assumes "cstr m src cs" and "mapped m dst n" and "0 < n" and "n < 4294967296"
    and "\<And>a. off dst a < n \<Longrightarrow> length cs < off src a"
  shows "strlcpy_loop dst src (word_of_nat n) m =
     Some (dst + word_of_nat (min (n - 1) (length cs)), put_block dst (take (n - 1) cs) m)"
  using assms
proof (induction n arbitrary: dst src m cs)
  case (Suc n)
  have n: "(word_of_nat (Suc n) :: u32) - 1 = word_of_nat n" by simp
  have pos: "(word_of_nat n :: u32) > 0 \<longleftrightarrow> 0 < n"
    using Suc.prems(4) by (simp add: word_less_nat_alt unat_of_nat take_bit_eq_mod)
  show ?case
  proof (cases "n = 0 \<or> cs = []")
    case True
    then show ?thesis using Suc.prems(1) pos
      by (subst strlcpy_loop.simps) (auto simp: cstr_Nil Let_def)
  next
    case False
    then obtain c cs' where cs: "cs = c # cs'" by (cases cs) auto
    have src: "m src = Some c" "c \<noteq> 0" "cstr m (src + 1) cs'" using Suc.prems(1) by (auto simp: cs cstr_Cons)
    define u where "u = m(dst \<mapsto> c)"
    have far: "length cs < off src a" if "off dst a < Suc n" for a using Suc.prems(5) that by blast
    have "cstr u (src + 1) cs'"
    proof -
      have "a \<noteq> dst" if "off (src + 1) a < Suc (length cs')" for a
      proof
        assume "a = dst"
        then have "length cs < off src dst" using far[of dst] by simp
        then show False using that \<open>a = dst\<close> cs by (auto simp: off_Suc split: if_splits)
      qed
      moreover have "Suc (length cs') < 4294967296" using far[of dst] off_less[of dst src] cs by simp
      ultimately show ?thesis using src(3) unfolding cstr_def u_def by (auto elim!: bytes_at_cong)
    qed
    moreover have "mapped u (dst + 1) n" using Suc.prems(2) by (auto simp: u_def mapped_Suc elim!: mapped_cong)
    moreover have "length cs' < off (src + 1) a" if "off (dst + 1) a < n" for a
    proof -
      have "off dst a < Suc n" using that off_Suc_less[where n = n and p = dst and a = a] Suc.prems(4) by simp
      then show ?thesis using far cs by (fastforce simp: off_Suc)
    qed
    ultimately have "strlcpy_loop (dst + 1) (src + 1) (word_of_nat n) u =
        Some (dst + 1 + word_of_nat (min (n - 1) (length cs')), put_block (dst + 1) (take (n - 1) cs') u)"
      using Suc.IH[of u "src + 1" cs' "dst + 1"] False Suc.prems(4) by simp
    moreover have "put_block dst (c # take (n - 1) cs') m = put_block (dst + 1) (take (n - 1) cs') u"
      using Suc.prems(4) unfolding u_def by (intro put_block_Cons) simp
    moreover have "take n cs = c # take (n - 1) cs'" using False cs by (cases n) auto
    moreover have "min n (length cs) = Suc (min (n - 1) (length cs'))" using False cs by auto
    ultimately show ?thesis using src False Suc.prems(2) pos
      by (subst strlcpy_loop.simps) (auto simp: Let_def mapped_Suc add.assoc u_def[symmetric])
  qed
qed simp

text \<open>\<open>strlcpy\<close> stays inside its buffer.  Into a buffer of \<open>n > 0\<close> bytes that does not overlap
  the source it copies the first \<open>n - 1\<close> characters at most, always terminates the result, writes no
  byte outside the buffer and returns the number of characters copied.\<close>

theorem strlcpy_stays_inside:
  assumes "cstr m src cs" and "mapped m dst n" and "0 < n" and "n < 4294967296"
    and "\<And>a. off dst a < n \<Longrightarrow> length cs < off src a"
  shows "\<exists>m'. strlcpy dst src (word_of_nat n) m = Some (word_of_nat (min (n - 1) (length cs)), m')
     \<and> cstr m' dst (take (n - 1) cs) \<and> (\<forall>a. n \<le> off dst a \<longrightarrow> m' a = m a)"
proof -
  define k where "k = min (n - 1) (length cs)"
  define xs where "xs = take (n - 1) cs"
  have k: "length xs = k" "k < n" using assms(3) by (auto simp: k_def xs_def)
  have at: "off dst (dst + word_of_nat k) = k" using k assms(4) by (intro off_add) simp
  have map: "m (dst + word_of_nat k) \<noteq> None" using assms(2) k by (simp add: mapped_def)
  have loop: "strlcpy_loop dst src (word_of_nat n) m = Some (dst + word_of_nat k, put_block dst xs m)"
    using strlcpy_loop_result[OF assms] by (simp add: k_def xs_def)
  have m': "(put_block dst xs m)(dst + word_of_nat k \<mapsto> 0) = put_block dst (xs @ [0]) m"
  proof -
    have "put_block dst (xs @ [0]) m = put_block (dst + word_of_nat k) [0] (put_block dst xs m)"
      using put_block_append[of xs "[0]" dst m] k assms(4) by simp
    then show ?thesis by (simp add: put_block_Cons)
  qed
  have pos: "(0 :: u32) < word_of_nat n" using assms(3,4) by (simp add: word_less_nat_alt unat_of_nat take_bit_eq_mod)
  have "put_block dst xs m (dst + word_of_nat k) \<noteq> None" using map by (simp add: put_block_def)
  then have run: "strlcpy dst src (word_of_nat n) m = Some (word_of_nat k, put_block dst (xs @ [0]) m)"
    using pos by (simp add: strlcpy_def loop m')
  have str: "cstr (put_block dst (xs @ [0]) m) dst xs"
    unfolding cstr_def
  proof
    show "bytes_at (put_block dst (xs @ [0]) m) dst (xs @ [0])"
      using k assms(4) by (intro bytes_at_put_block) simp
    show "0 \<notin> set xs" using assms(1) by (auto simp: cstr_def xs_def dest: in_set_takeD)
  qed
  have "n \<le> off dst a \<Longrightarrow> put_block dst (xs @ [0]) m a = m a" for a using k by (intro put_block_other) simp
  with run str show ?thesis unfolding k_def xs_def by blast
qed

text \<open>The string \<open>"abcd"\<close> into a buffer of three bytes.\<close>

definition demo_text :: mem where
  "demo_text a = (if off 0x1000 a < 5 then Some (if a = 0x1004 then 0 else 97 + ucast (a - 0x1000))
     else if off 0x2000 a < 8 then Some 255 else None)"

lemma demo_text_cstr: "cstr demo_text 0x1000 [97, 98, 99, 100]"
  by (simp add: cstr_Cons cstr_Nil demo_text_def)

theorem strlcpy_stays_inside_witness:
  "\<exists>m'. strlcpy 0x2000 0x1000 3 demo_text = Some (2, m') \<and> cstr m' 0x2000 [97, 98] \<and> m' 0x2003 = Some 255"
proof -
  have dst: "mapped demo_text 0x2000 (Suc (Suc (Suc 0)))"
    using bytes_at_mapped[of demo_text "0x2000" "[255, 255, 255]"] by (simp add: bytes_at_Cons demo_text_def)
  have "length [97, 98, 99, 100 :: u8] < off 0x1000 a" if "off 0x2000 a < Suc (Suc (Suc 0))" for a :: u32
  proof -
    have "off (0x1000 + word_of_nat 0x1000) a = off 0x2000 a" by simp
    then show ?thesis using that off_shift[where k = "0x1000" and p = "0x1000" and a = a] by (auto split: if_splits)
  qed
  from strlcpy_stays_inside[OF demo_text_cstr dst _ _ this] show ?thesis
    by (auto simp: demo_text_def)
qed

end
