(* ===== verification/FmtProps.thy ===== *)
theory FmtProps
  imports Fmt StrProps
begin

text \<open>
  The properties of the formatted output: a number is printed as its digits, \<open>vsnprintf\<close> stays inside
  its buffer, and \<open>strtol\<close> reads back what \<open>%d\<close> printed.
\<close>

section \<open>Everything is printed through putch\<close>

lemma pad_foldM: "pad putch c n s = foldM putch (replicate n c) s"
  by (induction n arbitrary: s) (auto simp: fun_eq_iff intro!: arg_cong[where f = "Option.bind _"])

definition emits :: "(u32 \<Rightarrow> 's \<Rightarrow> 's option) \<Rightarrow> 's \<Rightarrow> 's \<Rightarrow> bool" where
  "emits putch s t \<longleftrightarrow> (\<exists>xs. foldM putch xs s = Some t)"

named_theorems emit \<open>functions whose only effect is output\<close>

lemma emits_refl [intro, simp]: "emits putch s s"
  unfolding emits_def by (rule exI[of _ "[]"]) simp

lemma emits_trans: "emits putch s t \<Longrightarrow> emits putch t u \<Longrightarrow> emits putch s u"
  unfolding emits_def by (metis foldM_append bind.bind_lunit)

lemma emits_putch [emit]: "putch c s = Some t \<Longrightarrow> emits putch s t"
  unfolding emits_def by (rule exI[of _ "[c]"]) simp

lemma emits_foldM [emit]: "foldM putch xs s = Some t \<Longrightarrow> emits putch s t"
  by (auto simp: emits_def)

lemma emits_pad [emit]: "pad putch c n s = Some t \<Longrightarrow> emits putch s t"
  by (auto simp: pad_foldM emit)

lemma emits_printnum [emit]: "printnum putch num base width padc s = Some t \<Longrightarrow> emits putch s t"
proof (rule printnum.raw_induct[where P = "\<lambda>putch _ _ _ _ s t. emits putch s t", rotated], goal_cases)
  case (2 printnum putch num base width padc s t)
  show ?case using 2(3)
    by (auto simp: Let_def bind_eq_Some_conv split: if_splits
        intro: emits_trans dest!: 2(2) emits_pad emits_putch[of putch])
qed simp_all

lemma emits_print_signed [emit]: "print_signed putch num width padc s = Some t \<Longrightarrow> emits putch s t"
  by (auto simp: print_signed_def bind_eq_Some_conv split: if_splits
      intro: emits_trans dest!: emits_printnum emits_putch[of putch])

lemma emits_str_loop [emit]: "str_loop putch rd src i width precision alt s = Some r \<Longrightarrow> emits putch s (snd r)"
proof (rule str_loop.raw_induct[where P = "\<lambda>putch _ _ _ _ _ _ s r. emits putch s (snd r)", rotated], goal_cases)
  case (2 str_loop putch rd src i width precision alt s r)
  show ?case using 2(3)
    by (auto simp: Let_def bind_eq_Some_conv split: if_splits
        intro: emits_trans dest!: 2(2) emits_putch[of putch])
qed simp_all

lemma emits_print_str [emit]: "print_str putch rd src padc width precision alt s = Some t \<Longrightarrow> emits putch s t"
  by (auto simp: print_str_def bind_eq_Some_conv split: if_splits
      intro: emits_trans dest!: emits_str_loop emits_pad)

lemma emits_print_error [emit]: "print_error putch rd err s = Some t \<Longrightarrow> emits putch s t"
  by (auto simp: print_error_def Let_def bind_eq_Some_conv split: if_splits
      intro: emits_trans dest!: emits_print_str emits_print_signed emits_foldM)

lemma emits_print_unsigned: "print_unsigned putch base width padc l ap s = Some (ap', t) \<Longrightarrow> emits putch s t"
  by (auto simp: print_unsigned_def bind_eq_Some_conv split: if_splits dest!: emits_printnum)

lemma emits_step:
  "vprintfmt_step putch rd mode fmt ap s = Some r \<Longrightarrow>
   emits putch s (case r of Inl t \<Rightarrow> t | Inr (mode', fmt', ap', t) \<Rightarrow> t)"
  unfolding vprintfmt_step_def Let_def
  by (cases mode)
     (auto simp: bind_eq_Some_conv split: if_splits intro: emits_trans
       dest!: emits_printnum emits_print_str emits_print_error emits_print_unsigned emits_print_signed
         emits_putch[of putch])

lemma emits_vprintfmt_loop: "vprintfmt_loop putch rd mode fmt ap s = Some t \<Longrightarrow> emits putch s t"
proof (rule vprintfmt_loop.raw_induct[where P = "\<lambda>putch _ _ _ _ s t. emits putch s t", rotated], goal_cases)
  case (2 vprintfmt_loop putch rd mode fmt ap s t)
  from 2(3) obtain r where r: "vprintfmt_step putch rd mode fmt ap s = Some r"
    and t: "(case r of Inl s \<Rightarrow> Some s | Inr x \<Rightarrow> (case x of (mode, fmt, ap, s) \<Rightarrow> vprintfmt_loop putch rd mode fmt ap s)) = Some t"
    by (auto simp: bind_eq_Some_conv)
  from emits_step[OF r] t show ?case
    by (auto split: sum.split_asm prod.split_asm intro: emits_trans dest: 2(2))
qed simp_all

lemma vprintfmt_emits: "vprintfmt putch rd fmt ap s = Some t \<Longrightarrow> \<exists>xs. foldM putch xs s = Some t"
  unfolding vprintfmt_def by (drule emits_vprintfmt_loop) (simp add: emits_def)

section \<open>Printing into a buffer\<close>

text \<open>What the buffer of \<open>cap\<close> characters at \<open>p\<close> holds after printing \<open>xs\<close>.\<close>

lemma foldM_sprintputch:
  assumes "mapped m p cap" and "unat p + cap < 4294967296"
  shows "foldM sprintputch xs (m, \<lparr>sp_buf = p, sp_ebuf = p + word_of_nat cap, sp_cnt = c\<rparr>) =
     Some (put_block p (map ucast (take cap xs)) m,
       \<lparr>sp_buf = p + word_of_nat (min cap (length xs)), sp_ebuf = p + word_of_nat cap, sp_cnt = c + word_of_nat (length xs)\<rparr>)"
  using assms
proof (induction xs arbitrary: m p cap c)
  case (Cons x xs)
  have lt: "p < p + word_of_nat cap \<longleftrightarrow> 0 < cap"
  proof -
    have u: "unat (word_of_nat cap :: u32) = cap" using Cons.prems(2) by (simp add: unat_of_nat take_bit_eq_mod)
    then have "unat (p + word_of_nat cap) = unat p + cap"
      using Cons.prems(2) by (subst unat_add_lem[THEN iffD1]) auto
    then show ?thesis by (simp add: word_less_nat_alt)
  qed
  show ?case
  proof (cases cap)
    case 0
    then show ?thesis using Cons.IH[of m p 0] Cons.prems by (simp add: sprintputch_def mapped_def add.assoc)
  next
    case (Suc k)
    define u where "u = m(p \<mapsto> ucast x)"
    have "unat (p + 1) = unat p + 1" using Cons.prems(2) Suc by (subst unat_add_lem[THEN iffD1]) auto
    moreover have "mapped u (p + 1) k" using Cons.prems(1) Suc by (auto simp: u_def mapped_Suc elim!: mapped_cong)
    ultimately have "foldM sprintputch xs (u, \<lparr>sp_buf = p + 1, sp_ebuf = p + 1 + word_of_nat k, sp_cnt = c + 1\<rparr>) =
      Some (put_block (p + 1) (map ucast (take k xs)) u,
       \<lparr>sp_buf = p + 1 + word_of_nat (min k (length xs)), sp_ebuf = p + 1 + word_of_nat k,
        sp_cnt = c + 1 + word_of_nat (length xs)\<rparr>)"
      using Cons.IH[of u "p + 1" k "c + 1"] Cons.prems(2) Suc by simp
    moreover have "put_block p (ucast x # map ucast (take k xs)) m = put_block (p + 1) (map ucast (take k xs)) u"
      using Cons.prems(2) Suc unfolding u_def by (intro put_block_Cons) simp
    moreover have "sprintputch x (m, \<lparr>sp_buf = p, sp_ebuf = p + word_of_nat cap, sp_cnt = c\<rparr>)
        = Some (u, \<lparr>sp_buf = p + 1, sp_ebuf = p + 1 + word_of_nat k, sp_cnt = c + 1\<rparr>)"
      using lt Suc Cons.prems(1) by (auto simp: sprintputch_def u_def mapped_Suc add.assoc)
    ultimately show ?thesis using Suc by (simp add: add.assoc)
  qed
qed simp

text \<open>C34: \<open>vsnprintf\<close> never writes outside its buffer.  For any format and any arguments, when a buffer of
  \<open>n > 0\<close> bytes is given the call either faults on a wild string argument or returns; when it returns \<open>r\<close>,
  only bytes of the buffer have changed, and the text in it is terminated.\<close>

theorem vsnprintf_stays_inside:
  assumes "vsnprintf buf (word_of_nat n) fmt ap m = Some (r, m')" and "mapped m buf n"
    and "0 < n" and "n < 2147483648" and "unat buf + n < 4294967296" and "buf \<noteq> 0"
  shows "(\<forall>a. n \<le> off buf a \<longrightarrow> m' a = m a) \<and> (\<exists>k < n. m' (buf + word_of_nat k) = Some 0)"
proof -
  define cap where "cap = n - 1"
  have n: "(word_of_nat n :: u32) = word_of_nat cap + 1" using assms(3) by (simp add: cap_def of_nat_diff)
  have u: "unat (word_of_nat n :: u32) = n" using assms(4) by (simp add: unat_of_nat take_bit_eq_mod)
  have cap: "mapped m buf cap" using mapped_sub[OF assms(2), of 0 cap] by (simp add: cap_def)
  have "\<not> word_of_nat n <s (1 :: u32)"
    using assms(3,4) u by (simp add: word_sless_alt sint_cases)
  then obtain b m1 where run: "vprintfmt sprintputch rd_mem fmt ap (m, \<lparr>sp_buf = buf, sp_ebuf = buf + word_of_nat cap, sp_cnt = 0\<rparr>)
      = Some (m1, b)" and m': "st 0 (sp_buf b) m1 = Some m'"
    using assms(1,6) n by (auto simp: vsnprintf_def bind_eq_Some_conv add.assoc)
  from vprintfmt_emits[OF run] obtain xs where
    "foldM sprintputch xs (m, \<lparr>sp_buf = buf, sp_ebuf = buf + word_of_nat cap, sp_cnt = 0\<rparr>) = Some (m1, b)" by blast
  then have m1: "m1 = put_block buf (map ucast (take cap xs)) m"
    and b: "sp_buf b = buf + word_of_nat (min cap (length xs))"
    using foldM_sprintputch[OF cap, of xs 0] assms(5) by (auto simp: cap_def)
  define k where "k = min cap (length xs)"
  have "k < n" using assms(3) by (auto simp: k_def cap_def)
  then have k: "k < n" "off buf (buf + word_of_nat k) = k" using assms(4) by (simp, intro off_add) simp
  have "m' = m1(buf + word_of_nat k \<mapsto> 0)" using m' b by (auto simp: st_def k_def split: if_splits)
  moreover have "n \<le> off buf a \<Longrightarrow> m1 a = m a" for a
    unfolding m1 using k by (intro put_block_other) (simp add: cap_def)
  ultimately show ?thesis using k by auto
qed

section \<open>The digits of a number\<close>

fun num_digits :: "nat \<Rightarrow> nat \<Rightarrow> nat list" where
  "num_digits b n = (if b < 2 \<or> n < b then [n] else num_digits b (n div b) @ [n mod b])"

declare num_digits.simps [simp del]

lemma num_digits_less: "2 \<le> b \<Longrightarrow> d \<in> set (num_digits b n) \<Longrightarrow> d < b"
proof (induction b n rule: num_digits.induct)
  case (1 b n)
  show ?case using 1 num_digits.simps[of b n] by (auto split: if_splits)
qed

lemma num_digits_nonempty: "num_digits b n \<noteq> []"
  by (subst num_digits.simps) simp

lemma num_digits_value: "2 \<le> b \<Longrightarrow> foldl (\<lambda>v d. v * b + d) 0 (num_digits b n) = n"
proof (induction b n rule: num_digits.induct)
  case (1 b n)
  then show ?case by (subst num_digits.simps) auto
qed

lemma num_digits_length: "2 \<le> b \<Longrightarrow> n < b ^ Suc k \<Longrightarrow> length (num_digits b n) \<le> Suc k"
proof (induction k arbitrary: n)
  case 0
  then show ?case by (subst num_digits.simps) simp
next
  case (Suc k)
  have "n div b < b ^ Suc k" using Suc.prems by (simp add: less_mult_imp_div_less mult.commute)
  then show ?case using Suc by (subst num_digits.simps) auto
qed

lemma foldM_single: "foldM f [x] = f x"
proof
  have "foldM f [] = Some" by (rule ext) simp
  then show "foldM f [x] s = f x s" for s by simp
qed

lemma printnum_digits:
  fixes num :: u64
  assumes "2 \<le> unat base" and "unat base \<le> 16"
  shows "printnum putch num base width padc s = (let ds = num_digits (unat base) (unat num) in
     foldM putch (replicate (nat (width - int (length ds))) padc @ map (\<lambda>d. hex_digits ! d) ds) s)"
proof (induction "unat base" "unat num" arbitrary: num width s rule: num_digits.induct)
  case 1
  have b: "unat (ucast base :: u64) = unat base" using unsigned_less[of base, where 'a = nat]
    by (simp add: unsigned_ucast_eq take_bit_nat_eq_self)
  have le: "ucast base \<le> num \<longleftrightarrow> unat base \<le> unat num" by (simp add: word_le_nat_alt b)
  have i: "unat (num mod ucast base) = unat num mod unat base" "num mod ucast base < 16"
    using assms by (simp_all add: unat_mod b word_less_nat_alt)
       (meson less_le_trans mod_less_divisor zero_less_numeral)
  show ?case
  proof (cases "unat base \<le> unat num")
    case True
    have "unat (num div ucast base) = unat num div unat base" by (simp add: unat_div b)
    moreover have "base \<noteq> 0" using assms(1) by auto
    note base = this
    ultimately have "printnum putch (num div ucast base) base (width - 1) padc s = (let ds = num_digits (unat base) (unat num div unat base) in
        foldM putch (replicate (nat (width - 1 - int (length ds))) padc @ map (\<lambda>d. hex_digits ! d) ds) s)"
      using 1[of "num div ucast base" "width - 1" s] True assms(1) by simp
    moreover have "foldM putch (xs @ ys @ [z]) s = Option.bind (foldM putch (xs @ ys) s) (putch z)" for xs ys z
      using foldM_append[of putch "xs @ ys" "[z]" s] by (simp add: foldM_single)
    ultimately show ?thesis using True le i assms(1) base
      by (subst printnum.simps, subst num_digits.simps) (simp add: Let_def diff_diff_eq)
  next
    case False
    then show ?thesis using le i assms(1)
      by (subst printnum.simps, subst num_digits.simps)
         (simp add: Let_def foldM_append pad_foldM foldM_single)
  qed
qed

section \<open>Reading a number back\<close>

abbreviation digit_char :: "nat \<Rightarrow> u8" where
  "digit_char d \<equiv> ucast (hex_digits ! d)"

lemma less_16_cases: "d < 16 \<Longrightarrow> d \<in> set [0..<16]"
  by simp

lemma digit_char_value: "d < 16 \<Longrightarrow> digit_value (digit_char d) = Some (word_of_nat d) \<and> digit_char d \<noteq> 0
    \<and> digit_char d \<noteq> 32 \<and> digit_char d \<noteq> 9 \<and> digit_char d \<noteq> 43 \<and> digit_char d \<noteq> 45 \<and> digit_char d \<noteq> 120"
  by (drule less_16_cases, simp add: upt_rec numeral_eq_Suc del: upt_Suc)
     (elim disjE; simp add: hex_digits_def digit_value_def)

lemma strtol_digits_reads:
  assumes "bytes_at m s (map digit_char ds @ [0])" and "\<And>d. d \<in> set ds \<Longrightarrow> d < unat base" and "unat base \<le> 16"
  shows "strtol_digits s base val m =
     Some (foldl (\<lambda>v d. v * base + word_of_nat d) val ds, s + word_of_nat (length ds))"
  using assms
proof (induction ds arbitrary: s val)
  case Nil
  have "digit_value 0 = None" by (simp add: digit_value_def)
  with Nil show ?case by (subst strtol_digits.simps) (simp add: bytes_at_Cons)
next
  case (Cons d ds)
  have d: "d < unat base" using Cons.prems by simp
  then have "unat (word_of_nat d :: u32) = d" using assms(3) by (simp add: unat_of_nat take_bit_eq_mod)
  then have "\<not> base \<le>s word_of_nat d" using d assms(3) by (simp add: word_sle_eq sint_cases del: of_int_uint int_nat_eq) (metis nat_int_comparison(3) not_le uint_nat)
  moreover have "digit_value (digit_char d) = Some (word_of_nat d)" using digit_char_value[of d] d assms(3) by simp
  moreover have "m s = Some (digit_char d)" "bytes_at m (s + 1) (map digit_char ds @ [0])"
    using Cons.prems(1) by (simp_all add: bytes_at_Cons)
  ultimately show ?case using Cons.IH[of "s + 1" "val * base + word_of_nat d"] Cons.prems(2) assms(3)
    by (subst strtol_digits.simps) (simp add: add.assoc)
qed

lemma of_nat_foldl: "word_of_nat (foldl (\<lambda>v d. v * b + d) v ds) = foldl (\<lambda>v d. v * word_of_nat b + word_of_nat d) (word_of_nat v :: u32) ds"
  by (induction ds arbitrary: v) auto

text \<open>Decimal digits, with or without a minus sign.\<close>

lemma strtol_decimal:
  assumes "bytes_at m s ((if neg then [45] else []) @ map digit_char (num_digits 10 k) @ [0])"
  shows "strtol s 10 m = Some (if neg then - word_of_nat k else word_of_nat k,
     s + word_of_nat (of_bool neg + length (num_digits 10 k)))"
proof -
  define s' where "s' = (if neg then s + 1 else s)"
  have at: "bytes_at m s' (map digit_char (num_digits 10 k) @ [0])"
    using assms by (auto simp: s'_def bytes_at_Cons split: if_splits)
  obtain d ds where ds: "num_digits 10 k = d # ds" using num_digits_nonempty by (cases "num_digits 10 k") auto
  have d: "d < 10" using num_digits_less[of 10 d k] ds by simp
  note dig = digit_char_value[of d]
  have first: "m s = Some (if neg then 45 else digit_char d)"
    using assms ds by (auto simp: bytes_at_Cons split: if_splits)
  have "skip_blanks s m = Some s" using first dig d by (subst skip_blanks.simps) auto
  moreover have "strtol_prefix s' 10 m = Some (10, s')" by (simp add: strtol_prefix_def)
  moreover have "strtol_digits s' 10 0 m = Some (word_of_nat k, s' + word_of_nat (length (num_digits 10 k)))"
    using strtol_digits_reads[OF at, of 10 0] num_digits_less[of 10 _ k] num_digits_value[of 10 k]
      of_nat_foldl[of 10 0 "num_digits 10 k"] by simp
  ultimately show ?thesis using first dig d by (auto simp: strtol_def Let_def s'_def add.assoc)
qed

text \<open>The sign and the digits of an \<open>int\<close>, as \<open>%d\<close> prints them.\<close>

definition decimal :: "u32 \<Rightarrow> u32 list" where
  "decimal x = (if x <s 0 then [45] else []) @ map (\<lambda>d. hex_digits ! d) (num_digits 10 (nat \<bar>sint x\<bar>))"

lemma scast_int: "(scast x :: u64) = word_of_int (sint x)"
  by simp

lemma unat_of_int_64: "0 \<le> i \<Longrightarrow> i < 4294967296 \<Longrightarrow> unat (word_of_int i :: u64) = nat i"
  by (simp add: unsigned_of_int take_bit_int_eq_self)

lemma sint_range: "- 2147483648 \<le> sint (x :: u32)" "sint (x :: u32) < 2147483648"
  using sint_greater_eq[of x] sint_less[of x] by simp_all

lemma print_signed_decimal:
  "print_signed putch (scast x) (- 1) 32 s = foldM putch (decimal x) s"
proof -
  have sgn: "(scast x :: u64) <s 0 \<longleftrightarrow> x <s 0"
  proof -
    have "sint (scast x :: u64) = signed_take_bit 63 (sint x)" by (simp add: signed_scast_eq)
    also have "\<dots> = sint x" using sint_range[of x] by (intro signed_take_bit_int_eq_self) auto
    finally show ?thesis by (simp only: word_sless_alt) simp
  qed
  have neg: "unat (- (scast x :: u64)) = nat \<bar>sint x\<bar>" if "x <s 0"
  proof -
    have "- (scast x :: u64) = word_of_int (- sint x)" unfolding scast_int by simp
    moreover have "sint x < 0" using that by (simp add: word_sless_alt)
    ultimately show ?thesis using unat_of_int_64[of "- sint x"] sint_range[of x] by simp
  qed
  have pos: "unat (scast x :: u64) = nat \<bar>sint x\<bar>" if "\<not> x <s 0"
  proof -
    have "0 \<le> sint x" using that by (simp add: word_sless_alt)
    then show ?thesis unfolding scast_int using unat_of_int_64[of "sint x"] sint_range[of x] by simp
  qed
  have pr: "printnum putch num 10 (- 1) 32 s = foldM putch (map ((!) hex_digits) (num_digits 10 (unat num))) s" for num s
    by (subst printnum_digits) (simp_all add: Let_def)
  show ?thesis
    by (simp add: print_signed_def decimal_def sgn pr neg pos)
qed

lemma length_decimal: "length (decimal x) \<le> 11"
proof -
  have "nat \<bar>sint x\<bar> < 10 ^ Suc 9" using sint_range[of x] by simp
  then have "length (num_digits 10 (nat \<bar>sint x\<bar>)) \<le> Suc 9" by (intro num_digits_length) simp_all
  then show ?thesis by (simp add: decimal_def)
qed

lemma vprintfmt_d:
  assumes "bytes_at m fmt [37, 100, 0]"
    and "foldM sprintputch (decimal x) (m, b) = Some (m1, b1)" and "m1 (fmt + 2) = Some 0"
  shows "vprintfmt sprintputch rd_mem fmt [x] (m, b) = Some (m1, b1)"
proof -
  have f: "m fmt = Some 37" "m (fmt + 1) = Some 100" using assms(1) by (auto simp: bytes_at_Cons)
  have "vprintfmt_step sprintputch rd_mem Scan fmt [x] (m, b) = Some (Inr (new_escape, fmt + 1, [x], (m, b)))"
    by (simp add: vprintfmt_step_def rd_mem_def f)
  moreover have "vprintfmt_step sprintputch rd_mem new_escape (fmt + 1) [x] (m, b) = Some (Inr (Scan, fmt + 2, [], (m1, b1)))"
    by (simp add: vprintfmt_step_def rd_mem_def f new_escape_def print_signed_decimal assms(2) add.assoc)
  moreover have "vprintfmt_step sprintputch rd_mem Scan (fmt + 2) [] (m1, b1) = Some (Inl (m1, b1))"
    using assms(3) by (simp add: vprintfmt_step_def rd_mem_def)
  ultimately show ?thesis
    unfolding vprintfmt_def
    by (subst vprintfmt_loop.simps, simp, subst vprintfmt_loop.simps, simp, subst vprintfmt_loop.simps, simp)
qed

lemma ucast_digits: "map ucast (map (\<lambda>d. hex_digits ! d) ds) = map digit_char ds"
  by simp

text \<open>C33: what \<open>%d\<close> prints, \<open>strtol\<close> reads back.  For every \<open>int\<close>, printing it with \<open>snprintf\<close> into a buffer of
  at least twelve bytes returns the number of characters printed, changes only the buffer, and
  \<open>strtol\<close> in base 10 on the buffer gives the same \<open>int\<close>, the most negative one included, and ends at
  the terminator.\<close>

theorem snprintf_strtol_roundtrip:
  assumes "bytes_at m fmt [37, 100, 0]" and "mapped m buf n" and "12 \<le> n" and "n < 2147483648"
    and "unat buf + n < 4294967296" and "buf \<noteq> 0" and "n \<le> off buf (fmt + 2)"
  shows "\<exists>k m'. snprintf buf (word_of_nat n) fmt [x] m = Some (int k, m') \<and> k \<le> 11
     \<and> strtol buf 10 m' = Some (x, buf + word_of_nat k) \<and> (\<forall>a. n \<le> off buf a \<longrightarrow> m' a = m a)"
proof -
  define cap k ds where "cap = n - 1" and "k = length (decimal x)" and "ds = (map ucast (decimal x) :: u8 list)"
  have k: "k \<le> 11" "k \<le> cap" "k < n" using length_decimal[of x] assms(3) by (auto simp: cap_def k_def)
  have n: "(word_of_nat n :: u32) = word_of_nat cap + 1" using assms(3) by (simp add: cap_def of_nat_diff)
  have pos: "\<not> word_of_nat n <s (1 :: u32)"
    using assms(3,4) by (simp add: word_sless_alt sint_cases unat_of_nat take_bit_eq_mod)
  define b where "b = \<lparr>sp_buf = buf, sp_ebuf = buf + word_of_nat cap, sp_cnt = 0\<rparr>"
  have cap: "mapped m buf cap" using mapped_sub[OF assms(2), of 0 cap] by (simp add: cap_def)
  obtain b1 where fold: "foldM sprintputch (decimal x) (m, b) = Some (put_block buf ds m, b1)"
    and b1: "sp_buf b1 = buf + word_of_nat k" "sp_cnt b1 = word_of_nat k"
    using foldM_sprintputch[OF cap, of "decimal x" 0] assms(5) k by (simp add: cap_def b_def ds_def k_def min_def)
  have far: "put_block buf ds m (fmt + 2) = Some 0"
    using assms(1,7) k put_block_other[where bs = ds and p = buf and a = "fmt + 2" and m = m] by (auto simp: bytes_at_Cons ds_def k_def add.assoc)
  define m' where "m' = put_block buf (ds @ [0]) m"
  have "off buf (buf + word_of_nat k) = k" using k by (intro off_add) simp
  then have "put_block buf ds m (buf + word_of_nat k) \<noteq> None"
    using assms(2) k by (auto simp: mapped_def put_block_def)
  then have st: "st 0 (buf + word_of_nat k) (put_block buf ds m) = Some m'"
    using put_block_append[of ds "[0]" buf m] k by (simp add: m'_def put_block_Cons ds_def k_def)
  have "snprintf buf (word_of_nat n) fmt [x] m = Some (sint (word_of_nat k :: u32), m')"
    using pos assms(6) vprintfmt_d[OF assms(1) fold far]
    by (simp add: snprintf_def vsnprintf_def n b_def[symmetric] b1 st add.assoc)
  moreover have "sint (word_of_nat k :: u32) = int k"
    using k(1) by (simp add: sint_cases unat_of_nat take_bit_eq_mod)
  moreover have "strtol buf 10 m' = Some (x, buf + word_of_nat k)"
  proof -
    define d where "d = num_digits 10 (nat \<bar>sint x\<bar>)"
    have ds: "ds = (if x <s 0 then [45] else []) @ map digit_char d"
      by (simp add: ds_def decimal_def d_def)
    have "bytes_at m' buf (ds @ [0])" unfolding m'_def using k by (intro bytes_at_put_block) (simp add: ds_def k_def)
    then have "bytes_at m' buf ((if x <s 0 then [45] else []) @ map digit_char d @ [0])" by (simp add: ds)
    then have "strtol buf 10 m' = Some (if x <s 0 then - word_of_nat (nat \<bar>sint x\<bar>) else word_of_nat (nat \<bar>sint x\<bar>),
        buf + word_of_nat (of_bool (x <s 0) + length d))"
      unfolding d_def by (rule strtol_decimal)
    moreover have "of_bool (x <s 0) + length d = k" by (simp add: k_def decimal_def d_def)
    moreover have "(if x <s 0 then - word_of_nat (nat \<bar>sint x\<bar>) else word_of_nat (nat \<bar>sint x\<bar>)) = x"
      by (auto simp: word_sless_alt abs_if)
    ultimately show ?thesis by simp
  qed
  moreover have "n \<le> off buf a \<Longrightarrow> m' a = m a" for a
    unfolding m'_def using k by (intro put_block_other) (simp add: ds_def k_def)
  ultimately show ?thesis using k by metis
qed

text \<open>\<open>"%d"\<close> at \<open>0x1000\<close> and a buffer of sixteen bytes at \<open>0x2000\<close>.\<close>

definition demo_fmt :: mem where
  "demo_fmt a = (if a = 0x1000 then Some 37 else if a = 0x1001 then Some 100 else if a = 0x1002 then Some 0
     else if off 0x2000 a < 16 then Some 255 else None)"

lemma demo_fmt_at: "bytes_at demo_fmt 0x1000 [37, 100, 0]"
  by (simp add: bytes_at_Cons demo_fmt_def)

lemma demo_fmt_buf: "mapped demo_fmt 0x2000 16"
  by (auto simp: mapped_iff demo_fmt_def)

theorem snprintf_strtol_roundtrip_witness:
  "\<exists>k m'. snprintf 0x2000 16 0x1000 [- 42] demo_fmt = Some (int k, m') \<and> strtol 0x2000 10 m' = Some (- 42, 0x2000 + word_of_nat k)"
  using snprintf_strtol_roundtrip[OF demo_fmt_at demo_fmt_buf, of "- 42"] by auto

theorem vsnprintf_stays_inside_witness:
  "\<exists>k < 16. \<exists>r m'. vsnprintf 0x2000 16 0x1000 [- 42] demo_fmt = Some (r, m') \<and> m' (0x2000 + word_of_nat k) = Some 0 \<and> m' 0x2010 = None"
proof -
  obtain k m' where r: "snprintf 0x2000 16 0x1000 [- 42] demo_fmt = Some (int k, m')"
    using snprintf_strtol_roundtrip[OF demo_fmt_at demo_fmt_buf, of "- 42"] by auto
  have "demo_fmt 0x2010 = None" by (simp add: demo_fmt_def)
  then show ?thesis using vsnprintf_stays_inside[of "0x2000" 16 "0x1000" "[- 42]" demo_fmt "int k" m'] demo_fmt_buf r
    by (auto simp: snprintf_def)
qed

end
