(* ===== verification/Fprintf.thy ===== *)
theory Fprintf
  imports FmtProps
begin

text \<open>
  Formatted output to a file descriptor, \<open>lib/fprintf.c\<close>: characters are collected in a buffer of 256 and
  written out when it is full, and at the end.  \<open>write\<close> (\<open>lib/fd.c\<close>) depends on the device behind the
  descriptor and is the argument \<open>wr\<close>: it takes the bytes and the state of the outside world.  The total
  of the results (a 32-bit \<open>ssize_t\<close>) is an integer here: it stays below the number of characters printed.
\<close>

record fbuf =
  fb_idx :: nat
  fb_result :: int
  fb_error :: int
  fb_buf :: "u8 list"

record 'w fout =
  fo_mem :: mem
  fo_b :: fbuf
  fo_w :: 'w

type_synonym 'w writer_fn = "u8 list \<Rightarrow> 'w \<Rightarrow> int \<times> 'w"

definition writebuf :: "'w writer_fn \<Rightarrow> 'w fout \<Rightarrow> 'w fout" where
  "writebuf wr s =
     (let b = fo_b s in
      if fb_error b > 0 then
        let (result, w) = wr (take (fb_idx b) (fb_buf b)) (fo_w s);
            b = (if result > 0 then b\<lparr>fb_result := fb_result b + result\<rparr> else b);
            b = (if result \<noteq> int (fb_idx b) then b\<lparr>fb_error := (if result < 0 then result else 0)\<rparr> else b)
        in s\<lparr>fo_b := b, fo_w := w\<rparr>
      else s)"

definition fprintf_putch :: "'w writer_fn \<Rightarrow> u32 \<Rightarrow> 'w fout \<Rightarrow> 'w fout option" where
  "fprintf_putch wr ch s =
     (let b = fo_b s in
      if length (fb_buf b) \<le> fb_idx b then None
      else
        let s = s\<lparr>fo_b := b\<lparr>fb_buf := (fb_buf b)[fb_idx b := ucast ch], fb_idx := fb_idx b + 1\<rparr>\<rparr>
        in Some (if fb_idx (fo_b s) = 256
                 then let s = writebuf wr s in s\<lparr>fo_b := (fo_b s)\<lparr>fb_idx := 0\<rparr>\<rparr>
                 else s))"

text \<open>\<open>buf\<close> is what the stack holds where the buffer is allocated.\<close>

definition vfprintf :: "'w writer_fn \<Rightarrow> u8 list \<Rightarrow> u32 \<Rightarrow> u32 list \<Rightarrow> mem \<Rightarrow> 'w \<Rightarrow> (int \<times> 'w) option" where
  "vfprintf wr buf fmt ap m w = do {
     s \<leftarrow> vprintfmt (fprintf_putch wr) (\<lambda>a s. ld a (fo_mem s)) fmt ap
       \<lparr>fo_mem = m, fo_b = \<lparr>fb_idx = 0, fb_result = 0, fb_error = 1, fb_buf = buf\<rparr>, fo_w = w\<rparr>;
     let s = (if fb_idx (fo_b s) > 0 then writebuf wr s else s);
     Some (if fb_result (fo_b s) \<noteq> 0 then fb_result (fo_b s) else fb_error (fo_b s), fo_w s)
   }"

text \<open>The functions on variable arguments; \<open>wr fd\<close> is \<open>write\<close> on that descriptor.\<close>

definition lib_fprintf :: "(int \<Rightarrow> 'w writer_fn) \<Rightarrow> int \<Rightarrow> u8 list \<Rightarrow> u32 \<Rightarrow> u32 list \<Rightarrow> mem \<Rightarrow> 'w \<Rightarrow> (int \<times> 'w) option" where
  "lib_fprintf wr fd buf fmt ap m w = vfprintf (wr fd) buf fmt ap m w"

definition lib_printf :: "(int \<Rightarrow> 'w writer_fn) \<Rightarrow> u8 list \<Rightarrow> u32 \<Rightarrow> u32 list \<Rightarrow> mem \<Rightarrow> 'w \<Rightarrow> (int \<times> 'w) option" where
  "lib_printf wr buf fmt ap m w = vfprintf (wr 1) buf fmt ap m w"

section \<open>What is written\<close>

text \<open>A device that accepts everything, and records the writes.\<close>

definition accept :: "u8 list list writer_fn" where
  "accept bs w = (int (length bs), w @ [bs])"

definition fb_inv :: "u8 list list fout \<Rightarrow> bool" where
  "fb_inv s \<longleftrightarrow> length (fb_buf (fo_b s)) = 256 \<and> fb_idx (fo_b s) < 256 \<and> fb_error (fo_b s) = 1
     \<and> fb_result (fo_b s) = int (length (concat (fo_w s))) \<and> (\<forall>c \<in> set (fo_w s). length c = 256)"

definition fprinted :: "u8 list list fout \<Rightarrow> u8 list" where
  "fprinted s = concat (fo_w s) @ take (fb_idx (fo_b s)) (fb_buf (fo_b s))"

lemma fprintf_putch_prints:
  assumes "fb_inv s"
  shows "\<exists>t. fprintf_putch accept ch s = Some t \<and> fb_inv t \<and> fprinted t = fprinted s @ [ucast ch]"
proof -
  define i where "i = fb_idx (fo_b s)"
  define b where "b = fb_buf (fo_b s)"
  have len: "length b = 256" "i < 256" using assms by (auto simp: fb_inv_def i_def b_def)
  then have "take (Suc i) (b[i := x]) = take i b @ [x]" for x
    by (simp add: take_Suc_conv_app_nth)
  then show ?thesis using assms len
    by (auto simp: fprintf_putch_def writebuf_def accept_def fb_inv_def fprinted_def Let_def i_def[symmetric] b_def[symmetric])
qed

lemma foldM_fprintf_putch:
  "fb_inv s \<Longrightarrow> \<exists>t. foldM (fprintf_putch accept) xs s = Some t \<and> fb_inv t \<and> fprinted t = fprinted s @ map ucast xs"
proof (induction xs arbitrary: s)
  case (Cons x xs)
  from fprintf_putch_prints[OF Cons.prems] obtain t where
    t: "fprintf_putch accept x s = Some t" "fb_inv t" "fprinted t = fprinted s @ [ucast x]" by blast
  from Cons.IH[OF t(2)] show ?case using t by auto
qed simp

text \<open>On a device that accepts every write, \<open>vfprintf\<close> writes exactly the characters of the format, in order,
  in writes of 256 but for the last, and returns their number, or 1 when there are none.\<close>

lemma vfprintf_writes:
  assumes "length buf = 256" and "vfprintf accept buf fmt ap m [] = Some (r, ws)"
  shows "\<exists>xs. concat ws = map ucast (xs :: u32 list) \<and> r = (if xs = [] then 1 else int (length xs))
     \<and> (\<forall>c \<in> set (butlast ws). length c = 256) \<and> (\<forall>c \<in> set ws. 0 < length c \<and> length c \<le> 256)"
proof -
  define s0 where "s0 = \<lparr>fo_mem = m, fo_b = \<lparr>fb_idx = 0, fb_result = 0, fb_error = 1, fb_buf = buf\<rparr>, fo_w = [] :: u8 list list\<rparr>"
  have inv: "fb_inv s0" "fprinted s0 = []" using assms(1) by (simp_all add: s0_def fb_inv_def fprinted_def)
  obtain u where u: "vprintfmt (fprintf_putch accept) (\<lambda>a s. ld a (fo_mem s)) fmt ap s0 = Some u"
    and t: "ws = fo_w (if fb_idx (fo_b u) > 0 then writebuf accept u else u)"
      "r = (let b = fo_b (if fb_idx (fo_b u) > 0 then writebuf accept u else u) in if fb_result b \<noteq> 0 then fb_result b else fb_error b)"
    using assms(2) by (auto simp: vfprintf_def bind_eq_Some_conv s0_def Let_def)
  from vprintfmt_emits[OF u] obtain xs where xs: "foldM (fprintf_putch accept) xs s0 = Some u" by blast
  with foldM_fprintf_putch[OF inv(1), of xs] have u: "fb_inv u" "fprinted u = map ucast xs" by (auto simp: inv(2))
  define w where "w = fo_w u"
  define rest where "rest = take (fb_idx (fo_b u)) (fb_buf (fo_b u))"
  have w: "\<forall>c \<in> set w. length c = 256" "fb_result (fo_b u) = int (length (concat w))" "length rest = fb_idx (fo_b u)" "length rest < 256"
    using u(1) by (auto simp: fb_inv_def w_def rest_def)
  have c: "concat w @ rest = map ucast xs" using u(2) by (simp add: fprinted_def w_def rest_def)
  show ?thesis
  proof (cases "rest = []")
    case True
    then have i: "fb_idx (fo_b u) = 0" using w(3) by simp
    then have ws: "ws = w" "concat w = map ucast xs" using t(1) c True by (simp_all add: w_def)
    have "int (length (concat w)) = int (length xs)" by (simp add: ws(2))
    then have "r = (if xs = [] then 1 else int (length xs))" using t(2) i w(2) u(1) by (auto simp: fb_inv_def Let_def)
    then show ?thesis using ws w(1) by (intro exI[of _ xs]) (auto dest: in_set_butlastD)
  next
    case False
    then have i: "0 < fb_idx (fo_b u)" using w(3) by (cases rest) auto
    have wb: "writebuf accept u = u\<lparr>fo_b := (fo_b u)\<lparr>fb_result := fb_result (fo_b u) + int (length rest)\<rparr>, fo_w := w @ [rest]\<rparr>"
      using u(1) i w(3) by (simp add: writebuf_def accept_def fb_inv_def Let_def rest_def w_def)
    have l: "length xs = length (concat w) + length rest" using arg_cong[OF c, of length] by simp
    then have p: "0 < length xs" using False by simp
    have tot: "int (length (concat w)) + int (length rest) = int (length xs)" using l by simp
    have "r = int (length xs)" using t(2) i wb w(2) p by (simp add: Let_def tot del: length_concat)
    then have "r = (if xs = [] then 1 else int (length xs))" using p by simp
    then show ?thesis using t(1) i wb w(1,4) c False by (intro exI[of _ xs]) auto
  qed
qed

text \<open>After a write that failed or was short nothing more is written.\<close>

lemma writebuf_after_error: "fb_error (fo_b s) \<le> 0 \<Longrightarrow> writebuf wr s = s"
  by (simp add: writebuf_def Let_def)

lemma writebuf_error:
  assumes "fb_error (fo_b s) > 0" and "wr (take (fb_idx (fo_b s)) (fb_buf (fo_b s))) (fo_w s) = (r, w)" and "r \<noteq> int (fb_idx (fo_b s))"
  shows "fb_error (fo_b (writebuf wr s)) = min r 0"
  using assms by (auto simp: writebuf_def Let_def min_def)

lemma foldM_putch_after_error:
  "fb_error (fo_b s) \<le> 0 \<Longrightarrow> foldM (fprintf_putch wr) xs s = Some t \<Longrightarrow> fo_w t = fo_w s \<and> fb_result (fo_b t) = fb_result (fo_b s)"
proof (induction xs arbitrary: s)
  case (Cons x xs)
  from Cons.prems obtain u where u: "fprintf_putch wr x s = Some u" "foldM (fprintf_putch wr) xs u = Some t"
    by (auto simp: bind_eq_Some_conv)
  have "fb_error (fo_b u) \<le> 0 \<and> fo_w u = fo_w s \<and> fb_result (fo_b u) = fb_result (fo_b s)"
    using u(1) Cons.prems(1) by (auto simp: fprintf_putch_def Let_def writebuf_after_error split: if_splits)
  then show ?case using Cons.IH[of u] u(2) by simp
qed simp

end
