(* ===== verification/FsRwProps.thy ===== *)
theory FsRwProps
  imports FsProps FsIo
begin

text \<open>
  The properties of file reads and writes (\<open>fs/fs.c\<close>) and of the request that reads a file
  (\<open>fs/serv.c\<close>).
\<close>

text \<open>\<open>file_read\<close> returns the smaller of the count and what is left of the file, puts exactly
  those bytes of the file into the buffer, whatever the block boundaries, and changes nothing else that
  the server sees.\<close>

theorem file_read_returns_bytes:
  assumes "file_ready s f n" and "fsize s f \<le> 4096 * n" and "off < fsize s f" and "cnt < 2 ^ 32"
    and "buffer_ok s f n buf (min cnt (fsize s f - off))"
  shows "\<exists>t. file_read f buf (word_of_nat cnt) (word_of_nat off) s = Some (int (min cnt (fsize s f - off)), t)
     \<and> view t = (\<lambda>a. if unat (a - buf) < min cnt (fsize s f - off) then fbyte (view s) f (off + unat (a - buf)) else view s a)"
  using file_read_ready[OF assms(1-3) refl assms(4,5)] by blast

abbreviation demo_file :: u32 where "demo_file \<equiv> 0x10001008"

lemma demo_fblock: "i < 2 \<Longrightarrow> fblock (view demo_fs) demo_file (word_of_nat i) = (if i = 0 then 3 else 4)"
  by (auto simp: less_2_cases_iff fblock_def fslot_def NDIRECT_def f_direct_def demo_vword)

lemma demo_pages: "meta_pages demo_fs demo_file 2 = {65537}" "data_pages demo_fs demo_file 2 = {65539, 65540}"
proof -
  show "meta_pages demo_fs demo_file 2 = {65537}" by (simp add: meta_pages_def PGNUM_arith)
  have "{..<2 :: nat} = {0, 1}" by auto
  then show "data_pages demo_fs demo_file 2 = {65539, 65540}"
    using demo_fblock[of 0] demo_fblock[of 1] by (simp add: data_pages_def blk_page_def)
qed

lemma demo_file_ready: "file_ready demo_fs demo_file 2" and demo_file_wf: "file_wf demo_fs demo_file 2"
  and demo_fsize: "fsize demo_fs demo_file = 8192"
proof -
  show r: "file_ready demo_fs demo_file 2" unfolding file_ready_def demo_pages
    using demo_fblock by (auto simp: demo_vword demo_drive demo_cache_ok in_diskmap_PGNUM PGNUM_arith unat_PGOFF)
  have "inj_on (\<lambda>i. fblock (view demo_fs) demo_file (word_of_nat i)) {..<2}"
    using demo_fblock by (auto simp: inj_on_def less_2_cases_iff)
  then show "file_wf demo_fs demo_file 2" using r by (simp add: file_wf_def demo_pages)
  show "fsize demo_fs demo_file = 8192" by (simp add: fsize_def f_size_def demo_vword)
qed

lemma demo_buffer:
  assumes "len \<le> 8192"
  shows "buffer_ok demo_fs demo_file 2 0x0ffff000 len"
proof -
  have "PGNUM (0x0ffff000 + word_of_nat k) \<in> {65535, 65536}" if "k < len" for k
  proof -
    have k: "k < 8192" using that assms by simp
    then have "unat (0x0ffff000 + word_of_nat k :: u32) = 268431360 + k"
      by (simp add: unat_word_ariths unat_of_nat take_bit_eq_mod)
    then show ?thesis using k by (auto simp: PGNUM_arith)
  qed
  then show ?thesis by (fastforce simp: buffer_ok_def demo_pages)
qed

theorem file_read_returns_bytes_witness:
  "\<exists>t. file_read demo_file 0x0ffff000 300 4000 demo_fs = Some (300, t)
     \<and> view t = (\<lambda>a. if unat (a - 0x0ffff000) < 300 then fbyte (view demo_fs) demo_file (4000 + unat (a - 0x0ffff000)) else view demo_fs a)"
  using file_read_returns_bytes[OF demo_file_ready, of 4000 300 "0x0ffff000"] demo_buffer[of 300] by (simp add: demo_fsize)

text \<open>C30: a \<open>file_write\<close> inside the file returns the count, replaces exactly the bytes of that range
  with those of the buffer, leaves every other byte of the file and everything outside the file's
  blocks as it was, and keeps the file well formed.\<close>

theorem file_write_updates_bytes:
  assumes "file_wf s f n" and "fsize s f \<le> 4096 * n" and "off + cnt \<le> fsize s f" and "source_ok s f n buf cnt"
  shows "\<exists>t. file_write f buf (word_of_nat cnt) (word_of_nat off) s = Some (int cnt, t) \<and> file_wf t f n
     \<and> (\<forall>q < 4096 * n. fbyte (view t) f q = (if off \<le> q \<and> q < off + cnt then view s (buf + word_of_nat (q - off)) else fbyte (view s) f q))
     \<and> (\<forall>a. PGNUM a \<notin> data_pages s f n \<longrightarrow> view t a = view s a)"
  using file_write_ready[OF assms] by blast

lemma demo_source: "len \<le> 8192 \<Longrightarrow> source_ok demo_fs demo_file 2 0x0ffff000 len"
  using demo_buffer[of len] by (simp add: buffer_ok_def source_ok_def)

theorem file_write_updates_bytes_witness:
  "\<exists>t. file_write demo_file 0x0ffff000 300 4000 demo_fs = Some (300, t) \<and> file_wf t demo_file 2
     \<and> fbyte (view t) demo_file 4010 = view demo_fs 0x0ffff00a"
proof -
  from file_write_updates_bytes[OF demo_file_wf, of 4000 300 "0x0ffff000"] demo_source[of 300]
  obtain t where t: "file_write demo_file 0x0ffff000 300 4000 demo_fs = Some (300, t)" "file_wf t demo_file 2"
    "\<forall>q < 8192. fbyte (view t) demo_file q =
       (if 4000 \<le> q \<and> q < 4300 then view demo_fs (0x0ffff000 + word_of_nat (q - 4000)) else fbyte (view demo_fs) demo_file q)"
    by (auto simp: demo_fsize)
  have "fbyte (view t) demo_file 4010 = view demo_fs 0x0ffff00a" using t(3)[rule_format, of 4010] by simp
  then show ?thesis using t by blast
qed

text \<open>What is written is what is read.  After a \<open>file_write\<close> inside the file, a \<open>file_read\<close> of the
  same range into any buffer outside the file's pages delivers the bytes that were written, across
  block boundaries.\<close>

theorem file_write_then_read:
  assumes wf: "file_wf s f n" and sz: "fsize s f \<le> 4096 * n" and off: "off + cnt \<le> fsize s f" "0 < cnt"
    and src: "source_ok s f n buf cnt" and dst: "buffer_ok s f n buf2 cnt"
  shows "\<exists>t u. file_write f buf (word_of_nat cnt) (word_of_nat off) s = Some (int cnt, t)
     \<and> file_read f buf2 (word_of_nat cnt) (word_of_nat off) t = Some (int cnt, u)
     \<and> (\<forall>k < cnt. view u (buf2 + word_of_nat k) = view s (buf + word_of_nat k))"
proof -
  from file_write_ready[OF wf sz off(1) src] obtain t where
    t: "file_write f buf (word_of_nat cnt) (word_of_nat off) s = Some (int cnt, t)" "kept s t" "file_wf t f n"
    and fb: "\<forall>q < 4096 * n. fbyte (view t) f q = (if off \<le> q \<and> q < off + cnt then view s (buf + word_of_nat (q - off)) else fbyte (view s) f q)"
    and ot: "\<forall>a. PGNUM a \<notin> data_pages s f n \<longrightarrow> view t a = view s a" by blast
  have r: "file_ready s f n" "file_ready t f n" using wf t(3) by (simp_all add: file_wf_def)
  have mt: "view t x = view s x" if "PGNUM x \<in> meta_pages s f n" for x using ot that wf by (auto simp: file_wf_def)
  note R = kept_ready[OF r(1) mt t(2)]
  note D = file_readyD[OF r(1)]
  have "f_size f = f + 4 * 32" "f_size f = f + word_of_nat 128" by (simp_all add: f_size_def)
  then have "f_size f AND 3 = 0" "PGNUM (f_size f) = PGNUM f"
    using align_add[OF D(1), of 32] field_offset(2)[OF D(2), of 128] by simp_all
  then have z: "fsize t f = fsize s f" unfolding fsize_def
    by (intro arg_cong[of _ _ unat] vword_cong mt) (simp_all add: meta_pages_def)
  have l31: "fsize s f < 2147483648" using sz D(4) by simp
  have b2: "buffer_ok t f n buf2 cnt" using dst t(2) by (simp add: buffer_ok_def R kept_def)
  have c: "min cnt (fsize t f - off) = cnt" using off z by simp
  from file_read_ready[OF r(2), of off cnt cnt buf2] sz off l31 b2 c z obtain u where
    u: "file_read f buf2 (word_of_nat cnt) (word_of_nat off) t = Some (int cnt, u)"
    "view u = (\<lambda>a. if unat (a - buf2) < cnt then fbyte (view t) f (off + unat (a - buf2)) else view t a)" by auto
  have "view u (buf2 + word_of_nat k) = view s (buf + word_of_nat k)" if "k < cnt" for k
  proof -
    have "unat (word_of_nat k :: u32) = k" using that off l31 by (simp add: unat_of_nat take_bit_eq_mod)
    then show ?thesis using that fb off sz by (simp add: u(2))
  qed
  then show ?thesis using t(1) u(1) by blast
qed

theorem file_write_then_read_witness:
  "\<exists>t u. file_write demo_file 0x0ffff000 300 4000 demo_fs = Some (300, t)
     \<and> file_read demo_file 0x0ffff000 300 4000 t = Some (300, u)
     \<and> (\<forall>k < 300. view u (0x0ffff000 + word_of_nat k) = view demo_fs (0x0ffff000 + word_of_nat k))"
  using file_write_then_read[OF demo_file_wf, of 4000 300 "0x0ffff000" "0x0ffff000"] demo_source[of 300] demo_buffer[of 300]
  by (simp add: demo_fsize)

end
