(* ===== verification/FsClient.thy ===== *)
theory FsClient
  imports FsRwProps FsServ
begin

text \<open>
  The client side of the file system, \<open>lib/file.c\<close>, run against the server of the theory \<open>FsServ\<close>.

  A request is the page \<open>fsipcbuf\<close> of the client, which the server sees at \<open>fsreq\<close> while it serves it; so
  \<open>ipc_send\<close> and \<open>ipc_recv\<close> together are one round of the server on the contents of that page, after which
  the client finds there what the server has left.  Every open file is a page of the server's that the
  client maps as a descriptor: \<open>c_fd\<close> says which.  The client's own memory is a function from addresses
  to bytes; the buffers passed to these functions are mapped.  Panics are \<open>None\<close>.
\<close>

section \<open>The client's state\<close>

text \<open>What is mapped at \<open>INDEX2FD(i)\<close>: nothing, a descriptor of another device, or the page of an entry of
  the server's table of open files.\<close>

datatype fdslot = NoFd | OtherFd | FileFd nat

record fcli =
  c_srv :: srv
  fsipcbuf :: "nat \<Rightarrow> u8"
  c_mem :: "u32 \<Rightarrow> u8"
  c_fd :: "nat \<Rightarrow> fdslot"

definition put_arg :: "nat \<Rightarrow> u32 \<Rightarrow> fcli \<Rightarrow> fcli" where
  "put_arg off w c = c\<lparr>fsipcbuf := (\<lambda>j. if off \<le> j \<and> j < off + 4 then get_byte w (j - off) else fsipcbuf c j)\<rparr>"

definition get_arg :: "nat \<Rightarrow> fcli \<Rightarrow> u32" where
  "get_arg off c = bytes_word [fsipcbuf c off, fsipcbuf c (off + 1), fsipcbuf c (off + 2), fsipcbuf c (off + 3)]"

definition put_buf :: "nat \<Rightarrow> u8 list \<Rightarrow> fcli \<Rightarrow> fcli" where
  "put_buf off bs c = c\<lparr>fsipcbuf := (\<lambda>j. if off \<le> j \<and> j < off + length bs then bs ! (j - off) else fsipcbuf c j)\<rparr>"

definition cput :: "u32 \<Rightarrow> u8 list \<Rightarrow> fcli \<Rightarrow> fcli" where
  "cput va bs c = c\<lparr>c_mem := (\<lambda>a. if unat (a - va) < length bs then bs ! unat (a - va) else c_mem c a)\<rparr>"

text \<open>The structure behind a descriptor of a file, which client and server share.\<close>

definition file_fd :: "nat \<Rightarrow> fcli \<Rightarrow> fdpage option" where
  "file_fd i c = (case c_fd c i of FileFd k \<Rightarrow> Some (fdpg (c_srv c) k) | _ \<Rightarrow> None)"

section \<open>A request\<close>

text \<open>\<open>dst\<close> is the descriptor at whose address the reply page goes, if any.\<close>

definition fsipc :: "u32 \<Rightarrow> nat option \<Rightarrow> fcli \<Rightarrow> (int \<times> fcli) option" where
  "fsipc ty dst c = do {
     (reply, v) \<leftarrow> serve_round \<lparr>msg_req = ty, msg_perm = PTE_P OR PTE_W OR PTE_U, msg_page = Some (fsipcbuf c, True)\<rparr> (c_srv c);
     (r, pg, perm) \<leftarrow> reply;
     let k = unat ((pg - FILEVA) div PGSIZE);
     let fds = (case dst of Some i \<Rightarrow> if pg \<noteq> 0 then (c_fd c)(i := FileFd k) else c_fd c | None \<Rightarrow> c_fd c);
     Some (r, c\<lparr>c_srv := v, fsipcbuf := (\<lambda>j. fmem (sfs v) (fsreq + word_of_nat j)), c_fd := fds\<rparr>)
   }"

section \<open>The operations of the device\<close>

definition devfile_flush :: "nat \<Rightarrow> fcli \<Rightarrow> (int \<times> fcli) option" where
  "devfile_flush fd c = do {
     d \<leftarrow> file_fd fd c;
     fsipc FSREQ_FLUSH None (put_arg 0 (fd_id d) c)
   }"

definition devfile_read :: "nat \<Rightarrow> u32 \<Rightarrow> u32 \<Rightarrow> fcli \<Rightarrow> (int \<times> fcli) option" where
  "devfile_read fd buf n c = do {
     d \<leftarrow> file_fd fd c;
     let c = put_arg 0 (fd_id d) c;
     let c = put_arg 4 n c;
     (r, c) \<leftarrow> fsipc FSREQ_READ None c;
     if r < 0 then Some (r, c)
     else if \<not> word_of_int r \<le> n then None
     else if \<not> r \<le> int (unat PGSIZE) then None
     else Some (r, cput buf (map (fsipcbuf c) [0..<nat r]) c)
   }"

text \<open>The size of \<open>req_buf\<close> in \<open>struct Fsreq_write\<close>.\<close>

definition WRITE_MAX :: u32 where "WRITE_MAX = PGSIZE - (4 + 4)"

definition devfile_write :: "nat \<Rightarrow> u32 \<Rightarrow> u32 \<Rightarrow> fcli \<Rightarrow> (int \<times> fcli) option" where
  "devfile_write fd buf n c = do {
     d \<leftarrow> file_fd fd c;
     let c = put_arg 0 (fd_id d) c;
     let n = (if n > WRITE_MAX then WRITE_MAX else n);
     let c = put_arg 4 n c;
     let c = put_buf 8 (map (\<lambda>k. c_mem c (buf + word_of_nat k)) [0..<unat n]) c;
     fsipc FSREQ_WRITE None c
   }"

text \<open>\<open>strcpy\<close> out of the page, whose string ends inside it.\<close>

definition reply_string :: "fcli \<Rightarrow> u8 list option" where
  "reply_string c = (let bs = map (fsipcbuf c) [0..<unat PGSIZE] in
     if 0 \<in> set bs then Some (takeWhile (\<lambda>b. b \<noteq> 0) bs @ [0]) else None)"

text \<open>The fields of \<open>struct Stat\<close>: the name, the size at 128 and the flag at 132.\<close>

definition devfile_stat :: "nat \<Rightarrow> u32 \<Rightarrow> fcli \<Rightarrow> (int \<times> fcli) option" where
  "devfile_stat fd st c = do {
     d \<leftarrow> file_fd fd c;
     (r, c) \<leftarrow> fsipc FSREQ_STAT None (put_arg 0 (fd_id d) c);
     if r < 0 then Some (r, c)
     else do {
       name \<leftarrow> reply_string c;
       let c = cput st name c;
       let c = cput (st + word_of_nat MAXNAMELEN) (word_bytes (get_arg MAXNAMELEN c)) c;
       let c = cput (st + word_of_nat (MAXNAMELEN + 4)) (word_bytes (get_arg (MAXNAMELEN + 4) c)) c;
       Some (0, c)
     }
   }"

definition devfile_trunc :: "nat \<Rightarrow> u32 \<Rightarrow> fcli \<Rightarrow> (int \<times> fcli) option" where
  "devfile_trunc fd newsize c = do {
     d \<leftarrow> file_fd fd c;
     fsipc FSREQ_SET_SIZE None (put_arg 4 newsize (put_arg 0 (fd_id d) c))
   }"

definition sync :: "fcli \<Rightarrow> (int \<times> fcli) option" where
  "sync c = fsipc FSREQ_SYNC None c"

section \<open>Opening and closing\<close>

text \<open>\<open>fd_alloc\<close>, with the page tables seen as \<open>c_fd\<close> (the theory \<open>FdProps\<close> shows that it finds the first
  free descriptor).\<close>

definition client_fd_alloc :: "fcli \<Rightarrow> int \<times> nat" where
  "client_fd_alloc c = (case List.find (\<lambda>i. c_fd c i = NoFd) [0..<32] of Some i \<Rightarrow> (0, i) | None \<Rightarrow> (- E_MAX_OPEN, 0))"

text \<open>After a failed request nothing is mapped at the descriptor, so that the \<open>fd_close\<close> of the error exit
  does nothing.\<close>

definition open_file :: "u8 list \<Rightarrow> u32 \<Rightarrow> fcli \<Rightarrow> (int \<times> fcli) option" where
  "open_file path mode c =
     (if MAXPATHLEN \<le> length path then Some (- E_BAD_PATH, c)
      else (let (r, fd) = client_fd_alloc c in
        if r < 0 then Some (r, c)
        else do {
          let c = put_buf 0 (path @ [0]) c;
          let c = put_arg MAXPATHLEN mode c;
          (r, c) \<leftarrow> fsipc FSREQ_OPEN (Some fd) c;
          if r < 0 then Some (r, c) else Some (int fd, c)
        }))"

text \<open>\<open>close\<close> of a file: \<open>fd_close\<close> flushes it and unmaps the descriptor, which the server sees in the
  reference count of the page.\<close>

definition close_file :: "nat \<Rightarrow> fcli \<Rightarrow> (int \<times> fcli) option" where
  "close_file fd c = (case c_fd c fd of
      FileFd k \<Rightarrow> do {
        (r, c) \<leftarrow> devfile_flush fd c;
        let v = c_srv c;
        Some (r, c\<lparr>c_srv := v\<lparr>fdref := (fdref v)(k := fdref v k - 1)\<rparr>, c_fd := (c_fd c)(fd := NoFd)\<rparr>)
      }
    | _ \<Rightarrow> None)"

text \<open>\<open>dup\<close> of a file, which has no data page: the page of the descriptor is mapped a second time, once whatever
  was there is closed.  When the two numbers are the same the page is gone by then and \<open>sys_page_map\<close> fails.  A second number that is not a
  descriptor's is not checked by the code, which then maps the page elsewhere; here the model stops.\<close>

definition dup_file :: "nat \<Rightarrow> nat \<Rightarrow> fcli \<Rightarrow> (int \<times> fcli) option" where
  "dup_file oldfd newfd c = (case c_fd c oldfd of
      FileFd k \<Rightarrow>
        if 32 \<le> newfd then None
        else do {
          (_, c) \<leftarrow> (if c_fd c newfd = NoFd then Some (- E_INVAL, c) else close_file newfd c);
          if c_fd c oldfd = NoFd then Some (- E_INVAL, c)
          else (let v = c_srv c in
            Some (int newfd, c\<lparr>c_srv := v\<lparr>fdref := (fdref v)(k := fdref v k + 1)\<rparr>, c_fd := (c_fd c)(newfd := FileFd k)\<rparr>))
        }
    | NoFd \<Rightarrow> Some (- E_INVAL, c)
    | OtherFd \<Rightarrow> None)"

text \<open>\<open>seek\<close> stores into the shared structure.\<close>

definition seek_file :: "nat \<Rightarrow> u32 \<Rightarrow> fcli \<Rightarrow> (int \<times> fcli) option" where
  "seek_file fd off c = (case c_fd c fd of
      FileFd k \<Rightarrow> Some (0, c\<lparr>c_srv := set_fd k ((fdpg (c_srv c) k)\<lparr>fd_offset := off\<rparr>) (c_srv c)\<rparr>)
    | NoFd \<Rightarrow> Some (- E_INVAL, c)
    | OtherFd \<Rightarrow> None)"

end
