(* ===== verification/FsClProps.thy ===== *)
theory FsClProps
  imports FsClient
begin

text \<open>
  What the client side of the file system gives a program: reads and writes through a descriptor act on
  the bytes of the file, and the descriptors that a client holds stay valid at the server.
\<close>

section \<open>The page of a request at the server\<close>

lemma fsreq_page: "j < 4096 \<Longrightarrow> PGNUM (fsreq + word_of_nat j) = 65535" "j < 4096 \<Longrightarrow> unat (PGOFF (fsreq + word_of_nat j)) = j"
proof -
  have o: "PGOFF fsreq = 0" "PGNUM fsreq = 65535" "unat fsreq = 4096 * 65535"
    by (simp_all add: PGOFF_def fsreq_def PGNUM_arith)
  show "j < 4096 \<Longrightarrow> PGNUM (fsreq + word_of_nat j) = 65535" using page_offset(2)[OF o(1)] o(2) by simp
  show "unat (PGOFF (fsreq + word_of_nat j)) = j" if j: "j < 4096"
    using page_offset(1)[OF o(1) j] j by (simp only: unat_PGOFF o(3) mod_mult_self4 mod_less)
qed

text \<open>The server's memory with the page of a request mapped or not.\<close>

definition with_req :: "(nat \<Rightarrow> u8) \<Rightarrow> fs \<Rightarrow> fs" where
  "with_req pg s = s\<lparr>fmem := (\<lambda>a. if PGNUM a = 65535 then pg (unat (PGOFF a)) else fmem s a),
     fmapped := (fmapped s)(65535 := True), fwritable := (fwritable s)(65535 := True)\<rparr>"

definition without_req :: "fs \<Rightarrow> fs" where
  "without_req s = s\<lparr>fmapped := (fmapped s)(65535 := False)\<rparr>"

lemma PGNUM_fsreq [simp]: "PGNUM fsreq = 65535"
  by (simp add: fsreq_def PGNUM_arith)

lemma receive_req: "receive \<lparr>msg_req = ty, msg_perm = p, msg_page = Some (pg, True)\<rparr> v = v\<lparr>sfs := with_req pg (sfs v)\<rparr>"
  by (simp add: receive_def with_req_def)

lemma with_req_view: "view (with_req pg s) a = (if PGNUM a = 65535 then pg (unat (PGOFF a)) else view s a)"
  by (simp add: with_req_def view_def disk_byte_def)

lemma without_req_view: "PGNUM a \<noteq> 65535 \<Longrightarrow> view (without_req s) a = view s a"
  by (simp add: without_req_def view_def disk_byte_def)

lemma with_req_fsreq: "j < 4096 \<Longrightarrow> view (with_req pg s) (fsreq + word_of_nat j) = pg j"
  by (simp add: with_req_view fsreq_page)

lemma with_req_simps [simp]:
  "super (with_req pg s) = super s" "ide_status (with_req pg s) = ide_status s"
  "fmapped (with_req pg s) p = (p = 65535 \<or> fmapped s p)" "fwritable (with_req pg s) p = (p = 65535 \<or> fwritable s p)"
  "super (without_req s) = super s" "ide_status (without_req s) = ide_status s"
  "fmapped (without_req s) p = (p \<noteq> 65535 \<and> fmapped s p)" "fmem (without_req s) = fmem s"
  by (simp_all add: with_req_def without_req_def)

lemma req_cache_ok: "cache_ok s \<Longrightarrow> cache_ok (with_req pg s)" "cache_ok s \<Longrightarrow> cache_ok (without_req s)"
proof -
  have "PGNUM va \<noteq> 65535" if "in_diskmap va" for va using that by (simp add: in_diskmap_PGNUM)
  then show "cache_ok s \<Longrightarrow> cache_ok (with_req pg s)" "cache_ok s \<Longrightarrow> cache_ok (without_req s)"
    by (auto simp: cache_ok_def with_req_def without_req_def disk_byte_def)
qed

text \<open>A file of the server whose size its blocks cover; the superblock is block 1.\<close>

definition served :: "fs \<Rightarrow> u32 \<Rightarrow> nat \<Rightarrow> bool" where
  "served s f n \<longleftrightarrow> super s = DISKMAP + BLKSIZE \<and> file_wf s f n \<and> fsize s f \<le> 4096 * n"

lemma served_pages:
  assumes "served s f n"
  shows "65535 \<notin> meta_pages s f n \<union> data_pages s f n"
proof -
  have "PGNUM (super s + 4) = 65537" using assms by (simp add: served_def DISKMAP_def BLKSIZE_def PGSIZE_def PGNUM_arith)
  moreover have "65536 \<le> PGNUM f" using assms by (simp add: served_def file_wf_def file_ready_def in_diskmap_PGNUM)
  ultimately show ?thesis by (auto simp: meta_pages_def data_pages_def blk_page_def)
qed

lemma fsize_cong:
  assumes "file_ready s f n" and "\<And>x. PGNUM x \<in> meta_pages s f n \<Longrightarrow> view t x = view s x"
  shows "fsize t f = fsize s f"
proof -
  note D = file_readyD[OF assms(1)]
  have "f_size f = f + 4 * 32" "f_size f = f + word_of_nat 128" by (simp_all add: f_size_def)
  then have "f_size f AND 3 = 0" "PGNUM (f_size f) = PGNUM f"
    using align_add[OF D(1), of 32] field_offset(2)[OF D(2), of 128] by simp_all
  then show ?thesis unfolding fsize_def by (intro arg_cong[of _ _ unat] vword_cong assms(2)) (simp_all add: meta_pages_def)
qed

text \<open>Whatever happens to the page of the request, the file stays.\<close>

lemma served_cong:
  assumes s: "served s f n" and v: "\<And>x. PGNUM x \<noteq> 65535 \<Longrightarrow> view t x = view s x"
    and c: "super t = super s" "ide_status t = ide_status s" "cache_ok t"
    and m: "\<And>p. p \<noteq> 65535 \<Longrightarrow> fmapped s p \<Longrightarrow> fmapped t p"
  shows "served t f n" and "fsize t f = fsize s f" and "q < 4096 * n \<Longrightarrow> fbyte (view t) f q = fbyte (view s) f q"
    and "meta_pages t f n = meta_pages s f n" and "data_pages t f n = data_pages s f n"
proof -
  have wf: "file_wf s f n" and r: "file_ready s f n" using s by (simp_all add: served_def file_wf_def)
  note p = served_pages[OF s]
  have mt: "view t x = view s x" if "PGNUM x \<in> meta_pages s f n" for x using that p v by (metis Un_iff)
  have mp: "fmapped t x" if "x \<in> meta_pages s f n \<union> data_pages s f n" for x
    using that p m[of x] r unfolding file_ready_def by blast
  have "file_wf t f n" by (rule file_wf_cong_pages[OF wf mt c mp])
  moreover show z: "fsize t f = fsize s f" by (rule fsize_cong[OF r mt])
  ultimately show "served t f n" using s c(1) by (simp add: served_def)
  show "meta_pages t f n = meta_pages s f n" by (rule file_ready_cong[OF r mt c mp])
  show "data_pages t f n = data_pages s f n" by (rule file_ready_cong[OF r mt c mp])
  show "q < 4096 * n \<Longrightarrow> fbyte (view t) f q = fbyte (view s) f q"
    by (rule fbyte_cong[OF r]) (use v p in \<open>metis\<close>)+
qed

lemma served_with_req:
  assumes "served s f n"
  shows "served (with_req pg s) f n" and "fsize (with_req pg s) f = fsize s f"
    and "q < 4096 * n \<Longrightarrow> fbyte (view (with_req pg s)) f q = fbyte (view s) f q"
    and "meta_pages (with_req pg s) f n = meta_pages s f n" and "data_pages (with_req pg s) f n = data_pages s f n"
proof -
  have c: "cache_ok (with_req pg s)" using assms req_cache_ok(1) by (simp add: served_def file_wf_def file_ready_def)
  note S = served_cong[OF assms, of "with_req pg s"]
  show "served (with_req pg s) f n" by (rule S) (simp_all add: with_req_view c)
  show "fsize (with_req pg s) f = fsize s f" by (rule S) (simp_all add: with_req_view c)
  show "q < 4096 * n \<Longrightarrow> fbyte (view (with_req pg s)) f q = fbyte (view s) f q" by (rule S) (simp_all add: with_req_view c)
  show "meta_pages (with_req pg s) f n = meta_pages s f n" by (rule S) (simp_all add: with_req_view c)
  show "data_pages (with_req pg s) f n = data_pages s f n" by (rule S) (simp_all add: with_req_view c)
qed

lemma served_without_req:
  assumes "served s f n"
  shows "served (without_req s) f n" and "fsize (without_req s) f = fsize s f"
    and "q < 4096 * n \<Longrightarrow> fbyte (view (without_req s)) f q = fbyte (view s) f q"
proof -
  have c: "cache_ok (without_req s)" using assms req_cache_ok(2) by (simp add: served_def file_wf_def file_ready_def)
  note S = served_cong[OF assms, of "without_req s"]
  show "served (without_req s) f n" by (rule S) (simp_all add: without_req_view c)
  show "fsize (without_req s) f = fsize s f" by (rule S) (simp_all add: without_req_view c)
  show "q < 4096 * n \<Longrightarrow> fbyte (view (without_req s)) f q = fbyte (view s) f q" by (rule S) (simp_all add: without_req_view c)
qed

text \<open>The arguments as the server reads them.\<close>

lemma fsreq_word:
  assumes "j < 1024"
  shows "read32 (fsreq + word_of_nat (4 * j)) (with_req pg s)
    = Some (bytes_word [pg (4 * j), pg (4 * j + 1), pg (4 * j + 2), pg (4 * j + 3)], with_req pg s)"
proof -
  let ?a = "fsreq + word_of_nat (4 * j)"
  have b: "?a + 1 = fsreq + word_of_nat (4 * j + 1)" "?a + 2 = fsreq + word_of_nat (4 * j + 2)"
    "?a + 3 = fsreq + word_of_nat (4 * j + 3)" by simp_all
  have "fsreq AND 3 = 0" by (simp add: fsreq_def)
  from align_add[OF this, of "word_of_nat j"] have al: "?a AND 3 = 0" by simp
  have k: "4 * j < 4096" "4 * j + 1 < 4096" "4 * j + 2 < 4096" "4 * j + 3 < 4096" using assms by simp_all
  have "fmapped (with_req pg s) (PGNUM ?a)" using fsreq_page(1)[OF k(1)] by simp
  then show ?thesis using al by (simp only: read32_present vword_def b k with_req_fsreq)
qed

lemma get_byte_word: "bytes_word [get_byte w 0, get_byte w 1, get_byte w 2, get_byte w 3] = w"
  using bytes_word_bytes[of w] by (simp add: word_bytes_def)


section \<open>Reading\<close>

text \<open>Descriptor \<open>i\<close> of the client is entry \<open>k\<close> of the server's table, which is open on the file \<open>f\<close>.\<close>

definition opened :: "fcli \<Rightarrow> nat \<Rightarrow> nat \<Rightarrow> u32 \<Rightarrow> bool" where
  "opened c i k f \<longleftrightarrow> c_fd c i = FileFd k \<and> openfile_lookup (fd_id (fdpg (c_srv c) k)) (c_srv c) = (0, k)
     \<and> o_file (opentab (c_srv c) ! k) = f"

definition file_off :: "fcli \<Rightarrow> nat \<Rightarrow> nat" where
  "file_off c k = unat (fd_offset (fdpg (c_srv c) k))"

definition file_byte :: "fcli \<Rightarrow> u32 \<Rightarrow> nat \<Rightarrow> u8" where
  "file_byte c f q = fbyte (view (sfs (c_srv c))) f q"

text \<open>The server's answer to a request to read, for a buffer of a page.\<close>

lemma file_read_at_fsreq:
  assumes s: "served s f n" and off: "off < 2147483648" and cnt: "cnt \<le> 4096" and req: "fmapped s 65535" "fwritable s 65535"
    and r: "r = min cnt (fsize s f - off)"
  shows "\<exists>t. file_read f fsreq (word_of_nat cnt) (word_of_nat off) s = Some (int r, t) \<and> kept s t
     \<and> (\<forall>j < r. view t (fsreq + word_of_nat j) = fbyte (view s) f (off + j)) \<and> (\<forall>a. PGNUM a \<noteq> 65535 \<longrightarrow> view t a = view s a)"
proof (cases "off < fsize s f")
  case True
  have fr: "file_ready s f n" and sz: "fsize s f \<le> 4096 * n" using s by (simp_all add: served_def file_wf_def)
  have r4: "r \<le> 4096" using r cnt by simp
  have "buffer_ok s f n fsreq r" unfolding buffer_ok_def using fsreq_page(1) r4 req served_pages[OF s] by auto
  from file_read_ready[OF fr sz True r _ this] cnt obtain t where
    t: "file_read f fsreq (word_of_nat cnt) (word_of_nat off) s = Some (int r, t)" "kept s t"
    "view t = (\<lambda>a. if unat (a - fsreq) < r then fbyte (view s) f (off + unat (a - fsreq)) else view s a)" by auto
  have "view t (fsreq + word_of_nat j) = fbyte (view s) f (off + j)" if "j < r" for j
    using that r4 by (simp add: t(3) unat_of_nat take_bit_eq_mod)
  moreover have "view t a = view s a" if "PGNUM a \<noteq> 65535" for a
  proof -
    have "\<not> unat (a - fsreq) < r"
      using fsreq_page(1)[of "unat (a - fsreq)"] that r4 by (auto dest: less_le_trans)
    then show ?thesis by (simp add: t(3))
  qed
  ultimately show ?thesis using t by blast
next
  case False
  have fr: "file_ready s f n" and sz: "fsize s f \<le> 4096 * n" using s by (simp_all add: served_def file_wf_def)
  have "kept s s" using fr by (simp add: kept_def file_ready_def)
  then show ?thesis using file_read_ready_eof[OF fr sz off] False r by auto
qed


text \<open>A request other than \<open>FSREQ_OPEN\<close>, from the client's side.\<close>

lemma fsipc_handler:
  assumes ty: "ty \<noteq> FSREQ_OPEN" "fs_handler ty = Some h"
    and h: "h ((c_srv c)\<lparr>sfs := with_req (fsipcbuf c) (sfs (c_srv c))\<rparr>) = Some (r, v)"
  shows "fsipc ty dst c = Some (r, c\<lparr>c_srv := v\<lparr>sfs := without_req (sfs v)\<rparr>, fsipcbuf := (\<lambda>j. fmem (sfs v) (fsreq + word_of_nat j))\<rparr>)"
proof -
  have "(PTE_P OR PTE_W OR PTE_U) AND PTE_P \<noteq> 0" by (simp add: PTE_P_def PTE_W_def PTE_U_def)
  then show ?thesis using ty h
    by (simp add: fsipc_def serve_round_def receive_req without_req_def Let_def split: option.splits)
qed

lemma openfile_lookup_cong: "fdref v = fdref u \<Longrightarrow> opentab v = opentab u \<Longrightarrow> openfile_lookup fid v = openfile_lookup fid u"
  by (simp add: openfile_lookup_def)

lemma put_arg_simps [simp]:
  "c_srv (put_arg off w c) = c_srv c" "c_mem (put_arg off w c) = c_mem c" "c_fd (put_arg off w c) = c_fd c"
  "c_srv (put_buf off bs c) = c_srv c" "c_mem (put_buf off bs c) = c_mem c" "c_fd (put_buf off bs c) = c_fd c"
  by (simp_all add: put_arg_def put_buf_def)

text \<open>The two arguments that most requests start with.\<close>

lemma fsreq_args:
  assumes "\<forall>j < 4. pg j = get_byte fid j" and "\<forall>j < 4. pg (4 + j) = get_byte w j"
  shows "read32 fsreq (with_req pg s) = Some (fid, with_req pg s)"
    and "read32 (fsreq + 4) (with_req pg s) = Some (w, with_req pg s)"
proof -
  have "pg 0 = get_byte fid 0" "pg 1 = get_byte fid 1" "pg 2 = get_byte fid 2" "pg 3 = get_byte fid 3" using assms(1) by simp_all
  moreover have "read32 fsreq (with_req pg s) = Some (bytes_word [pg 0, pg 1, pg 2, pg 3], with_req pg s)"
    using fsreq_word[of 0 pg s] by (simp add: numeral_2_eq_2)
  ultimately show "read32 fsreq (with_req pg s) = Some (fid, with_req pg s)"
    by (simp only: get_byte_word)
  have "pg (4 + 0) = get_byte w 0" "pg (4 + 1) = get_byte w 1" "pg (4 + 2) = get_byte w 2" "pg (4 + 3) = get_byte w 3"
    using assms(2)[rule_format, of 0] assms(2)[rule_format, of 1] assms(2)[rule_format, of 2] assms(2)[rule_format, of 3]
    by simp_all
  moreover have "read32 (fsreq + 4) (with_req pg s)
      = Some (bytes_word [pg (4 + 0), pg (4 + 1), pg (4 + 2), pg (4 + 3)], with_req pg s)"
    using fsreq_word[of 1 pg s] by simp
  ultimately show "read32 (fsreq + 4) (with_req pg s) = Some (w, with_req pg s)"
    by (simp only: get_byte_word)
qed

lemma devfile_read_file:
  assumes o: "opened c i k f" and s: "served (sfs (c_srv c)) f n" and off: "file_off c k < 2147483648" and cnt: "cnt \<le> 4096"
    and r: "r = min cnt (fsize (sfs (c_srv c)) f - file_off c k)"
  shows "\<exists>t. devfile_read i buf (word_of_nat cnt) c = Some (int r, t)
     \<and> c_mem t = (\<lambda>a. if unat (a - buf) < r then file_byte c f (file_off c k + unat (a - buf)) else c_mem c a)
     \<and> file_off t k = file_off c k + r \<and> served (sfs (c_srv t)) f n \<and> fsize (sfs (c_srv t)) f = fsize (sfs (c_srv c)) f
     \<and> (\<forall>q < 4096 * n. file_byte t f q = file_byte c f q) \<and> (\<forall>j k'. opened c j k' f \<longrightarrow> opened t j k' f)"
proof -
  let ?v = "c_srv c" and ?s = "sfs (c_srv c)"
  define fid where "fid = fd_id (fdpg ?v k)"
  define c1 where "c1 = put_arg 4 (word_of_nat cnt) (put_arg 0 fid c)"
  let ?s1 = "with_req (fsipcbuf c1) ?s"
  have fd: "c_fd c i = FileFd k" and lk: "openfile_lookup fid ?v = (0, k)" and fl: "o_file (opentab ?v ! k) = f"
    using o by (simp_all add: opened_def fid_def)
  have s1: "served ?s1 f n" and z1: "fsize ?s1 f = fsize ?s f"
    and b1: "q < 4096 * n \<Longrightarrow> fbyte (view ?s1) f q = fbyte (view ?s) f q" for q
    using served_with_req[OF s] by blast+
  have ow: "fd_offset (fdpg ?v k) = word_of_nat (file_off c k)" by (simp add: file_off_def)
  from file_read_at_fsreq[OF s1 off cnt _ _ r[folded z1]] obtain t where
    t: "file_read f fsreq (word_of_nat cnt) (word_of_nat (file_off c k)) ?s1 = Some (int r, t)" "kept ?s1 t"
      "\<forall>j < r. view t (fsreq + word_of_nat j) = fbyte (view ?s1) f (file_off c k + j)"
      "\<forall>a. PGNUM a \<noteq> 65535 \<longrightarrow> view t a = view ?s1 a" by auto
  let ?d = "(fdpg ?v k)\<lparr>fd_offset := fd_offset (fdpg ?v k) + word_of_int (int r)\<rparr>"
  let ?v2 = "set_fd k ?d (?v\<lparr>sfs := t\<rparr>)"
  have look: "openfile_lookup fid (?v\<lparr>sfs := x\<rparr>) = (0, k)" for x
    using lk by (simp add: openfile_lookup_def)
  have "\<forall>j < 4. fsipcbuf c1 j = get_byte fid j" "\<forall>j < 4. fsipcbuf c1 (4 + j) = get_byte (word_of_nat cnt) j"
    by (simp_all add: c1_def put_arg_def)
  note args = fsreq_args[OF this, of ?s]
  have sr: "serve_read (?v\<lparr>sfs := ?s1\<rparr>) = Some (int r, ?v2)"
    using t(1) args look fl by (simp add: serve_read_def with_fs_def ow)
  have ne: "FSREQ_READ \<noteq> FSREQ_OPEN" "fs_handler FSREQ_READ = Some serve_read"
    by (simp_all add: FSREQ_READ_def FSREQ_OPEN_def fs_handler_def)
  have c1: "c_srv c1 = ?v" and sv: "sfs ?v2 = t" by (simp_all add: c1_def set_fd_def)
  note ipc = fsipc_handler[OF ne, of c1, unfolded c1, OF sr, of None, unfolded sv]
  let ?c2 = "c1\<lparr>c_srv := ?v2\<lparr>sfs := without_req t\<rparr>, fsipcbuf := (\<lambda>j. fmem t (fsreq + word_of_nat j))\<rparr>"
  have rc: "r \<le> cnt" using r by simp
  have bytes: "fmem t (fsreq + word_of_nat j) = file_byte c f (file_off c k + j)" if "j < r" for j
  proof -
    have "fmapped t (PGNUM (fsreq + word_of_nat j))" using t(2) fsreq_page(1)[of j] that rc cnt by (simp add: kept_def)
    moreover have "file_off c k + j < 4096 * n" using that r s unfolding served_def by linarith
    ultimately show ?thesis using t(3)[rule_format, OF that] b1 unfolding view_def[of t] file_byte_def by simp
  qed
  have w: "word_of_int (int r) \<le> (word_of_nat cnt :: u32)" "unat PGSIZE = 4096"
    using rc cnt by (simp_all add: word_le_nat_alt unat_of_nat take_bit_eq_mod PGSIZE_def)
  define t2 where "t2 = cput buf (map (fsipcbuf ?c2) [0..<r]) ?c2"
  have dr: "devfile_read i buf (word_of_nat cnt) c = Some (int r, t2)"
    using fd ipc w rc cnt by (simp add: devfile_read_def file_fd_def fid_def c1_def t2_def)
  have st: "served t f n" "fsize t f = fsize ?s1 f" "q < 4096 * n \<Longrightarrow> fbyte (view t) f q = fbyte (view ?s1) f q" for q
    using served_cong[OF s1, of t] t(2,4) by (simp_all add: kept_def)
  have T: "c_srv t2 = ?v2\<lparr>sfs := without_req t\<rparr>" "c_fd t2 = c_fd c" by (simp_all add: t2_def cput_def c1_def)
  have sz: "fsize ?s f < 2147483648 \<or> r = 0" using s file_readyD(4)[of ?s f n] by (auto simp: served_def file_wf_def)
  have "file_off t2 k = file_off c k + r"
  proof -
    have "unat (fd_offset (fdpg ?v k) + word_of_nat r) = file_off c k + r"
      using off rc cnt unfolding file_off_def by (subst unat_word_ariths) (simp add: unat_of_nat take_bit_eq_mod)
    then show ?thesis by (simp add: file_off_def T set_fd_def)
  qed
  moreover have "opened t2 j k' f" if "opened c j k' f" for j k'
    using that by (auto simp: opened_def T set_fd_def openfile_lookup_def)
  moreover have "c_mem t2 = (\<lambda>a. if unat (a - buf) < r then file_byte c f (file_off c k + unat (a - buf)) else c_mem c a)"
  proof -
    have "fmem t (fsreq + (x - buf)) = file_byte c f (file_off c k + unat (x - buf))" if "unat (x - buf) < r" for x
      using bytes[OF that] by simp
    then show ?thesis by (auto simp: t2_def cput_def c1_def fun_eq_iff)
  qed
  ultimately show ?thesis using dr served_without_req[OF st(1)] st z1 b1
    by (intro exI[of _ t2]) (simp add: T file_byte_def)
qed


section \<open>Writing\<close>

text \<open>A file's size is among its pointers, which a write inside the file leaves alone.\<close>

lemma file_write_from_fsreq:
  assumes s: "served s f n" and off: "off + cnt \<le> fsize s f" and cnt: "cnt \<le> 4088" and req: "fmapped s 65535"
  shows "\<exists>t. file_write f (fsreq + 8) (word_of_nat cnt) (word_of_nat off) s = Some (int cnt, t) \<and> served t f n \<and> fsize t f = fsize s f
     \<and> (\<forall>q < 4096 * n. fbyte (view t) f q
          = (if off \<le> q \<and> q < off + cnt then view s (fsreq + word_of_nat (8 + (q - off))) else fbyte (view s) f q))"
proof -
  have wf: "file_wf s f n" and fr: "file_ready s f n" and sz: "fsize s f \<le> 4096 * n" using s by (simp_all add: served_def file_wf_def)
  have a: "fsreq + 8 + word_of_nat j = fsreq + word_of_nat (8 + j)" for j by simp
  have "source_ok s f n (fsreq + 8) cnt"
    unfolding source_ok_def a using fsreq_page(1) cnt req served_pages[OF s] by (auto simp del: of_nat_add)
  from file_write_ready[OF wf sz off this] obtain t where
    t: "file_write f (fsreq + 8) (word_of_nat cnt) (word_of_nat off) s = Some (int cnt, t)" "kept s t" "file_wf t f n"
    "\<forall>q < 4096 * n. fbyte (view t) f q = (if off \<le> q \<and> q < off + cnt then view s (fsreq + 8 + word_of_nat (q - off)) else fbyte (view s) f q)"
    "\<forall>a. PGNUM a \<notin> data_pages s f n \<longrightarrow> view t a = view s a" by blast
  have "fsize t f = fsize s f" by (rule fsize_cong[OF fr]) (use t(5) wf in \<open>auto simp: file_wf_def\<close>)
  then show ?thesis using t(1-4) s unfolding a served_def kept_def by auto
qed

lemma devfile_write_file:
  assumes o: "opened c i k f" and s: "served (sfs (c_srv c)) f n" and cnt: "cnt < 2 ^ 32" and r: "r = min cnt 4088"
    and off: "file_off c k + r \<le> fsize (sfs (c_srv c)) f"
  shows "\<exists>t. devfile_write i buf (word_of_nat cnt) c = Some (int r, t) \<and> c_mem t = c_mem c
     \<and> file_off t k = file_off c k + r \<and> served (sfs (c_srv t)) f n \<and> fsize (sfs (c_srv t)) f = fsize (sfs (c_srv c)) f
     \<and> (\<forall>q < 4096 * n. file_byte t f q = (if file_off c k \<le> q \<and> q < file_off c k + r
          then c_mem c (buf + word_of_nat (q - file_off c k)) else file_byte c f q))
     \<and> (\<forall>j k'. opened c j k' f \<longrightarrow> opened t j k' f)"
proof -
  let ?v = "c_srv c" and ?s = "sfs (c_srv c)"
  define fid where "fid = fd_id (fdpg ?v k)"
  define bs where "bs = map (\<lambda>j. c_mem c (buf + word_of_nat j)) [0..<r]"
  define c1 where "c1 = put_buf 8 bs (put_arg 4 (word_of_nat r) (put_arg 0 fid c))"
  let ?s1 = "with_req (fsipcbuf c1) ?s"
  have fd: "c_fd c i = FileFd k" and lk: "openfile_lookup fid ?v = (0, k)" and fl: "o_file (opentab ?v ! k) = f"
    using o by (simp_all add: opened_def fid_def)
  have s1: "served ?s1 f n" and z1: "fsize ?s1 f = fsize ?s f"
    and b1: "q < 4096 * n \<Longrightarrow> fbyte (view ?s1) f q = fbyte (view ?s) f q" for q
    using served_with_req[OF s] by blast+
  have ow: "fd_offset (fdpg ?v k) = word_of_nat (file_off c k)" by (simp add: file_off_def)
  have r4: "r \<le> 4088" using r by simp
  from file_write_from_fsreq[OF s1 off[folded z1] r4] obtain t where
    t: "file_write f (fsreq + 8) (word_of_nat r) (word_of_nat (file_off c k)) ?s1 = Some (int r, t)" "served t f n"
      "fsize t f = fsize ?s1 f"
      "\<forall>q < 4096 * n. fbyte (view t) f q = (if file_off c k \<le> q \<and> q < file_off c k + r
         then view ?s1 (fsreq + word_of_nat (8 + (q - file_off c k))) else fbyte (view ?s1) f q)" by auto
  let ?d = "(fdpg ?v k)\<lparr>fd_offset := fd_offset (fdpg ?v k) + word_of_int (int r)\<rparr>"
  let ?v2 = "set_fd k ?d (?v\<lparr>sfs := t\<rparr>)"
  have look: "openfile_lookup fid (?v\<lparr>sfs := x\<rparr>) = (0, k)" for x
    using lk by (simp add: openfile_lookup_def)
  have "\<forall>j < 4. fsipcbuf c1 j = get_byte fid j" "\<forall>j < 4. fsipcbuf c1 (4 + j) = get_byte (word_of_nat r) j"
    by (simp_all add: c1_def put_arg_def put_buf_def)
  note args = fsreq_args[OF this, of ?s]
  have sr: "serve_write (?v\<lparr>sfs := ?s1\<rparr>) = Some (int r, ?v2)"
    using t(1) args look fl by (simp add: serve_write_def with_fs_def ow)
  have ne: "FSREQ_WRITE \<noteq> FSREQ_OPEN" "fs_handler FSREQ_WRITE = Some serve_write"
    by (simp_all add: FSREQ_READ_def FSREQ_STAT_def FSREQ_FLUSH_def FSREQ_WRITE_def FSREQ_OPEN_def fs_handler_def)
  have c1: "c_srv c1 = ?v" and sv: "sfs ?v2 = t" by (simp_all add: c1_def set_fd_def)
  note ipc = fsipc_handler[OF ne, of c1, unfolded c1, OF sr, of None, unfolded sv]
  define t2 where "t2 = c1\<lparr>c_srv := ?v2\<lparr>sfs := without_req t\<rparr>, fsipcbuf := (\<lambda>j. fmem t (fsreq + word_of_nat j))\<rparr>"
  have m: "(if word_of_nat cnt > WRITE_MAX then WRITE_MAX else word_of_nat cnt) = (word_of_nat r :: u32)"
    and ur: "unat (word_of_nat r :: u32) = r"
    using cnt r by (auto simp: WRITE_MAX_def PGSIZE_def word_less_nat_alt unat_of_nat take_bit_eq_mod min_def)
  have dr: "devfile_write i buf (word_of_nat cnt) c = Some (int r, t2)"
    unfolding devfile_write_def m file_fd_def fd
    using ipc by (simp add: fid_def [symmetric] bs_def [symmetric] c1_def [symmetric] t2_def ur)
  have T: "c_srv t2 = ?v2\<lparr>sfs := without_req t\<rparr>" "c_fd t2 = c_fd c" "c_mem t2 = c_mem c" by (simp_all add: t2_def c1_def)
  have pg: "view ?s1 (fsreq + word_of_nat (8 + j)) = c_mem c (buf + word_of_nat j)" if "j < r" for j
    using with_req_fsreq[of "8 + j"] that r4 by (simp add: c1_def put_buf_def bs_def del: of_nat_add)
  have n: "4096 * n < 2147483648" using s file_readyD(4)[of ?s f n] by (simp add: served_def file_wf_def)
  have "file_off t2 k = file_off c k + r"
  proof -
    have "file_off c k + r < 2 ^ 32" using off s n by (simp add: served_def)
    then have "unat (fd_offset (fdpg ?v k) + word_of_nat r) = file_off c k + r"
      unfolding file_off_def by (subst unat_word_ariths) (simp add: unat_of_nat take_bit_eq_mod)
    then show ?thesis by (simp add: file_off_def T set_fd_def)
  qed
  moreover have "opened t2 j k' f" if "opened c j k' f" for j k'
    using that by (auto simp: opened_def T set_fd_def openfile_lookup_def)
  moreover have "file_byte t2 f q = (if file_off c k \<le> q \<and> q < file_off c k + r
          then c_mem c (buf + word_of_nat (q - file_off c k)) else file_byte c f q)" if "q < 4096 * n" for q
  proof -
    have e: "file_byte t2 f q = fbyte (view t) f q" using served_without_req(3)[OF t(2) that] by (simp add: T file_byte_def)
    show ?thesis
    proof (cases "file_off c k \<le> q \<and> q < file_off c k + r")
      case True
      then have "q - file_off c k < r" by arith
      then show ?thesis unfolding e t(4)[rule_format, OF that] if_P[OF True] by (rule pg)
    next
      case False
      then show ?thesis using b1[OF that] unfolding e t(4)[rule_format, OF that] if_not_P[OF False] by (simp add: file_byte_def)
    qed
  qed
  ultimately show ?thesis using dr served_without_req(1,2)[OF t(2)] t(3) z1
    by (intro exI[of _ t2]) (simp add: T)
qed

lemma seek_file_ok:
  assumes "opened c i k f"
  shows "\<exists>t. seek_file i (word_of_nat off) c = Some (0, t) \<and> c_mem t = c_mem c \<and> sfs (c_srv t) = sfs (c_srv c)
     \<and> file_off t k = unat (word_of_nat off :: u32) \<and> (\<forall>j k' g. opened c j k' g \<longrightarrow> opened t j k' g)"
  using assms by (auto simp: seek_file_def opened_def file_off_def set_fd_def openfile_lookup_def)

section \<open>What is written through one descriptor is read through another\<close>

text \<open>C7: what a program writes through one descriptor of a file, it reads through another: \<open>seek\<close>,
  \<open>devfile_write\<close>, \<open>seek\<close> and \<open>devfile_read\<close>, each a round of requests to the file server, return the full
  count, and the bytes arrive in the second buffer.\<close>

theorem devfile_write_then_read:
  assumes w: "opened c i k f" and rd: "opened c j k' f" and s: "served (sfs (c_srv c)) f n"
    and off: "off + cnt \<le> fsize (sfs (c_srv c)) f" and cnt: "cnt \<le> 4088"
  shows "\<exists>c1 c2 c3 c4. seek_file i (word_of_nat off) c = Some (0, c1) \<and> devfile_write i buf (word_of_nat cnt) c1 = Some (int cnt, c2)
     \<and> seek_file j (word_of_nat off) c2 = Some (0, c3) \<and> devfile_read j buf2 (word_of_nat cnt) c3 = Some (int cnt, c4)
     \<and> (\<forall>m < cnt. c_mem c4 (buf2 + word_of_nat m) = c_mem c (buf + word_of_nat m))"
proof -
  have n: "fsize (sfs (c_srv c)) f \<le> 4096 * n" "4096 * n < 2147483648"
    using s file_readyD(4)[of "sfs (c_srv c)" f n] by (simp_all add: served_def file_wf_def)
  have uo: "unat (word_of_nat off :: u32) = off" using n off by (simp add: unat_of_nat take_bit_eq_mod)
  from seek_file_ok[OF w, of off] obtain c1 where
    1: "seek_file i (word_of_nat off) c = Some (0, c1)" "c_mem c1 = c_mem c" "sfs (c_srv c1) = sfs (c_srv c)" "file_off c1 k = off"
      "opened c1 i k f" "opened c1 j k' f" using uo w rd by auto
  have r: "cnt = min cnt 4088" "cnt < 2 ^ 32" using cnt by simp_all
  have "file_off c1 k + cnt \<le> fsize (sfs (c_srv c1)) f" using off 1 by simp
  from devfile_write_file[OF 1(5) s[folded 1(3)] r(2) r(1) this] obtain c2 where
    2: "devfile_write i buf (word_of_nat cnt) c1 = Some (int cnt, c2)" "served (sfs (c_srv c2)) f n"
      "fsize (sfs (c_srv c2)) f = fsize (sfs (c_srv c1)) f" "opened c2 j k' f"
      "\<forall>q < 4096 * n. file_byte c2 f q = (if off \<le> q \<and> q < off + cnt then c_mem c (buf + word_of_nat (q - off)) else file_byte c1 f q)"
    unfolding 1(2,4) using 1(6) by blast
  from seek_file_ok[OF 2(4), of off] obtain c3 where
    3: "seek_file j (word_of_nat off) c2 = Some (0, c3)" "sfs (c_srv c3) = sfs (c_srv c2)" "file_off c3 k' = off" "opened c3 j k' f"
    using uo 2(4) by auto
  have z: "file_off c3 k' < 2147483648" "cnt \<le> 4096" "cnt = min cnt (fsize (sfs (c_srv c3)) f - file_off c3 k')"
    using off n cnt 1(3) 2(3) 3(2,3) by simp_all
  from devfile_read_file[OF 3(4) 2(2)[folded 3(2)] z] obtain c4 where
    4: "devfile_read j buf2 (word_of_nat cnt) c3 = Some (int cnt, c4)"
      "c_mem c4 = (\<lambda>a. if unat (a - buf2) < cnt then file_byte c3 f (off + unat (a - buf2)) else c_mem c3 a)"
    using 3(3) by blast
  have "c_mem c4 (buf2 + word_of_nat m) = c_mem c (buf + word_of_nat m)" if "m < cnt" for m
  proof -
    have "unat (word_of_nat m :: u32) = m" using that cnt by (simp add: unat_of_nat take_bit_eq_mod)
    then show ?thesis using that 2(5)[rule_format, of "off + m"] off n 3(2) by (simp add: 4(2) file_byte_def)
  qed
  then show ?thesis using 1(1) 2(1) 3(1) 4(1) by blast
qed


text \<open>A client with two descriptors of the file of the demonstration disk.\<close>

definition demo_srv :: srv where
  "demo_srv = \<lparr>sfs = demo_fs,
     opentab = map (\<lambda>i. \<lparr>o_fileid = word_of_nat i, o_file = demo_file, o_mode = 2, o_fd = FILEVA + word_of_nat i * PGSIZE\<rparr>) [0..<MAXOPEN],
     fdpg = (\<lambda>i. \<lparr>fd_dev_id = devfile_id, fd_offset = 0, fd_omode = 2, fd_id = word_of_nat i\<rparr>),
     fdref = (\<lambda>i. if i = 5 \<or> i = 6 then 2 else 0)\<rparr>"

definition demo_cli :: fcli where
  "demo_cli = \<lparr>c_srv = demo_srv, fsipcbuf = (\<lambda>_. 0), c_mem = (\<lambda>a. ucast a), c_fd = (\<lambda>_. NoFd)(0 := FileFd 5, 1 := FileFd 6)\<rparr>"

lemma demo_served: "served (sfs (c_srv demo_cli)) demo_file 2" "fsize (sfs (c_srv demo_cli)) demo_file = 8192"
  using demo_file_wf demo_fsize by (simp_all add: demo_cli_def demo_srv_def served_def DISKMAP_def BLKSIZE_def PGSIZE_def)

lemma demo_opened: "opened demo_cli 0 5 demo_file" "opened demo_cli 1 6 demo_file"
  by (simp_all add: opened_def demo_cli_def demo_srv_def openfile_lookup_def MAXOPEN_def Let_def)

theorem devfile_write_then_read_witness:
  "\<exists>c1 c2 c3 c4. seek_file 0 4000 demo_cli = Some (0, c1) \<and> devfile_write 0 0x800000 300 c1 = Some (300, c2)
     \<and> seek_file 1 4000 c2 = Some (0, c3) \<and> devfile_read 1 0x900000 300 c3 = Some (300, c4)
     \<and> (\<forall>m < 300. c_mem c4 (0x900000 + word_of_nat m) = c_mem demo_cli (0x800000 + word_of_nat m))"
  using devfile_write_then_read[OF demo_opened demo_served(1), of 4000 300 "0x800000" "0x900000"] demo_served(2) by simp

end
