(* ===== verification/FsClInv.thy ===== *)
theory FsClInv
  imports FsClProps
begin

text \<open>
  The descriptors of a client and the server's table of open files belong together: whatever sequence of
  calls the client makes, and whether they succeed or fail, every descriptor it holds is the page of an
  entry of the table whose identifier is the one in the descriptor, the server counts every mapping of the page, and no two descriptors
  share a page unless they were made by \<open>dup\<close>.
\<close>

section \<open>Calls\<close>





section \<open>Well-formed tables\<close>

definition srv_wf :: "srv \<Rightarrow> bool" where
  "srv_wf v \<longleftrightarrow> length (opentab v) = MAXOPEN \<and> (\<forall>k < MAXOPEN. unat (o_fileid (opentab v ! k)) mod 1024 = k
     \<and> o_fd (opentab v ! k) = FILEVA + word_of_nat k * PGSIZE)"

text \<open>The descriptors of the client that are the page of entry \<open>k\<close>.\<close>

definition fd_users :: "fcli \<Rightarrow> nat \<Rightarrow> nat set" where
  "fd_users c k = {i. c_fd c i = FileFd k}"

definition fds_apart :: "fcli \<Rightarrow> bool" where
  "fds_apart c \<longleftrightarrow> (\<forall>i j k. c_fd c i = FileFd k \<longrightarrow> c_fd c j = FileFd k \<longrightarrow> i = j)"

text \<open>\<open>a\<close> asks for descriptors that share no page.\<close>

definition cli_ok :: "bool \<Rightarrow> fcli \<Rightarrow> bool" where
  "cli_ok a c \<longleftrightarrow> srv_wf (c_srv c)
     \<and> (\<forall>i k. c_fd c i = FileFd k \<longrightarrow> k < MAXOPEN \<and> finite (fd_users c k) \<and> card (fd_users c k) < fdref (c_srv c) k
          \<and> fd_id (fdpg (c_srv c) k) = o_fileid (opentab (c_srv c) ! k))
     \<and> (a \<longrightarrow> fds_apart c)"


lemma fd_users_cong: "c_fd d = c_fd c \<Longrightarrow> fd_users d = fd_users c"
  by (simp add: fd_users_def fun_eq_iff)




section \<open>What the handlers leave alone\<close>

text \<open>The table and the identifiers in the descriptors.\<close>

definition same_tab :: "srv \<Rightarrow> srv \<Rightarrow> bool" where
  "same_tab v u \<longleftrightarrow> opentab u = opentab v \<and> fdref u = fdref v \<and> (\<forall>k. fd_id (fdpg u k) = fd_id (fdpg v k))"


lemma same_tab_sfs [simp]: "same_tab v (u\<lparr>sfs := s\<rparr>) = same_tab v u" "same_tab (u\<lparr>sfs := s\<rparr>) v = same_tab u v"
  by (simp_all add: same_tab_def)

text \<open>All results of a handler, from a state that may already be further on.\<close>

named_theorems tab_intros \<open>steps of a request that keep the table\<close>

definition tabs :: "srv \<Rightarrow> ('a \<times> srv) option \<Rightarrow> bool" where
  "tabs v m \<longleftrightarrow> (\<forall>r u. m = Some (r, u) \<longrightarrow> same_tab v u)"

lemma tabs_with_fs [tab_intros]:
  assumes "same_tab v u" and "\<And>a w. same_tab v w \<Longrightarrow> tabs v (f a w)"
  shows "tabs v (with_fs m u \<bind> (\<lambda>(r, w). f r w))"
  using assms(1) assms(2)[of "u\<lparr>sfs := x\<rparr>" for x] by (auto simp: with_fs_def tabs_def bind_eq_Some_conv)

lemma tabs_with_fs_last [tab_intros]: "same_tab v u \<Longrightarrow> tabs v (with_fs m u)"
  by (auto simp: with_fs_def tabs_def bind_eq_Some_conv)

lemma tabs_with_fs_unit [tab_intros]:
  assumes "same_tab v u" and "\<And>w. same_tab v w \<Longrightarrow> tabs v (f w)"
  shows "tabs v (with_fs_unit m u \<bind> f)"
  using assms(1) assms(2)[of "u\<lparr>sfs := x\<rparr>" for x] by (auto simp: with_fs_unit_def tabs_def bind_eq_Some_conv)

lemma tabs_return [tab_intros]: "same_tab v u \<Longrightarrow> tabs v (Some (r, u))"
  by (simp add: tabs_def)

lemma tabs_if [tab_intros]: "tabs v m \<Longrightarrow> tabs v m' \<Longrightarrow> tabs v (if b then m else m')"
  by simp

lemma tabs_lookup [tab_intros]: "(\<And>r i. tabs v (f r i)) \<Longrightarrow> tabs v (let (r, i) = x in f r i)"
  by (simp add: split_beta)

lemma tabs_let [tab_intros]: "tabs v (f x) \<Longrightarrow> tabs v (let y = x in f y)"
  by simp

lemma same_tab_offset [tab_intros]: "same_tab v u \<Longrightarrow> same_tab v (set_fd i ((fdpg u i)\<lparr>fd_offset := x\<rparr>) u)"
  by (simp add: same_tab_def set_fd_def)














section \<open>Opening a file\<close>










text \<open>An entry that nobody had open has been given out; all the others are as they were.\<close>

definition given :: "nat \<Rightarrow> srv \<Rightarrow> srv \<Rightarrow> bool" where
  "given i v u \<longleftrightarrow> i < MAXOPEN \<and> fdref v i \<le> 1 \<and> fdref u i = 1 \<and> srv_wf u
     \<and> (\<forall>k. k \<noteq> i \<longrightarrow> opentab u ! k = opentab v ! k \<and> fdref u k = fdref v k \<and> fd_id (fdpg u k) = fd_id (fdpg v k))"

lemma given_sfs [simp]: "given i (v\<lparr>sfs := s\<rparr>) u = given i v u" "given i v (u\<lparr>sfs := s\<rparr>) = given i v u"
  by (simp_all add: given_def srv_wf_def)








section \<open>Every call keeps the descriptors valid\<close>

lemma cli_ok_local [simp]:
  "cli_ok a (put_arg off w c) = cli_ok a c" "cli_ok a (put_buf off bs c) = cli_ok a c" "cli_ok a (cput va bs c) = cli_ok a c"
  by (simp_all add: cli_ok_def fds_apart_def fd_users_def cput_def)




























end
