(* ===== verification/Monitor.thy ===== *)
theory Monitor
  imports Prelude Mmu
begin

text \<open>
  The command line of the kernel monitor: \<open>lib/readline.c\<close>, which the kernel and the programs share, and the
  interpreter of \<open>kern/monitor.c\<close>.  Input is the list of what \<open>getchar\<close> returns; an input that ends
  before the line does leaves \<open>readline\<close> waiting, which is \<open>None\<close>.
\<close>

section \<open>Reading a line\<close>

definition RL_BUFLEN :: nat where "RL_BUFLEN = 1024"

text \<open>
  \<open>i\<close>, the static buffer and what was echoed so far.  The result is the line, or nothing after an error,
  with the buffer, the echo and the input left.
\<close>

fun readline_loop :: "bool \<Rightarrow> nat \<Rightarrow> u8 list \<Rightarrow> int list \<Rightarrow> int list \<Rightarrow> (u8 list option \<times> u8 list \<times> int list \<times> int list) option" where
  "readline_loop echoing i buf out [] = None"
| "readline_loop echoing i buf out (c # cs) =
     (let echo = (\<lambda>x. if echoing then out @ [x] else out) in
      if c < 0 then Some (None, buf, out, cs)
      else if (c = 8 \<or> c = 127) \<and> i > 0 then readline_loop echoing (i - 1) buf (echo 8) cs
      else if c \<ge> 32 \<and> i < RL_BUFLEN - 1 then readline_loop echoing (i + 1) (buf[i := word_of_int c]) (echo c) cs
      else if c = 10 \<or> c = 13 then Some (Some (take i buf), buf[i := 0], echo 10, cs)
      else readline_loop echoing i buf out cs)"

definition readline :: "bool \<Rightarrow> u8 list \<Rightarrow> int list \<Rightarrow> (u8 list option \<times> u8 list \<times> int list \<times> int list) option" where
  "readline echoing buf cs = readline_loop echoing 0 buf [] cs"

text \<open>A reference: what one key does to the line.\<close>

definition edit :: "u8 list \<Rightarrow> int \<Rightarrow> u8 list" where
  "edit line c =
     (if (c = 8 \<or> c = 127) \<and> line \<noteq> [] then butlast line
      else if 32 \<le> c \<and> length line < RL_BUFLEN - 1 then line @ [word_of_int c] else line)"

definition line_end :: "int \<Rightarrow> bool" where
  "line_end c \<longleftrightarrow> c = 10 \<or> c = 13"

lemma readline_loop_edits:
  assumes "length buf = RL_BUFLEN" and "i < RL_BUFLEN" and "\<forall>c \<in> set keys. 0 \<le> c \<and> \<not> line_end c" and "line_end e"
  shows "\<exists>b out'. readline_loop echoing i buf out (keys @ e # rest) = Some (Some (foldl edit (take i buf) keys), b, out', rest)
    \<and> length b = RL_BUFLEN \<and> length (foldl edit (take i buf) keys) < RL_BUFLEN"
  using assms(1-3)
proof (induction keys arbitrary: i buf out)
  case Nil
  then show ?case using assms(4) by (auto simp: line_end_def)
next
  case (Cons c keys)
  have len: "length (take i buf) = i" using Cons.prems by simp
  have c: "0 \<le> c" "c \<noteq> 10" "c \<noteq> 13" using Cons.prems(3) by (auto simp: line_end_def)
  consider "(c = 8 \<or> c = 127) \<and> i > 0" | "\<not> ((c = 8 \<or> c = 127) \<and> i > 0)" "c \<ge> 32 \<and> i < RL_BUFLEN - 1"
    | "\<not> ((c = 8 \<or> c = 127) \<and> i > 0)" "\<not> (c \<ge> 32 \<and> i < RL_BUFLEN - 1)" by blast
  then show ?case
  proof cases
    case 1
    then have "edit (take i buf) c = take (i - 1) buf" using len Cons.prems(1,2)
      by (auto simp: edit_def butlast_take)
    then show ?thesis using 1 c Cons.IH[of buf "i - 1"] Cons.prems by (simp add: Let_def)
  next
    case 2
    have "edit (take i buf) c = take (i + 1) (buf[i := word_of_int c])"
      using 2 len Cons.prems(1,2) by (auto simp: edit_def take_Suc_conv_app_nth)
    moreover have "i + 1 < RL_BUFLEN" using 2 by (simp add: RL_BUFLEN_def)
    moreover have "readline_loop echoing i buf out ((c # keys) @ e # rest) =
        readline_loop echoing (i + 1) (buf[i := word_of_int c]) (if echoing then out @ [c] else out) (keys @ e # rest)"
      using 2 c by (auto simp: Let_def)
    ultimately show ?thesis using Cons.IH[of "buf[i := word_of_int c]" "i + 1"] Cons.prems by simp
  next
    case 3
    have "edit (take i buf) c = take i buf" using 3 len by (auto simp: edit_def)
    moreover have "readline_loop echoing i buf out ((c # keys) @ e # rest) = readline_loop echoing i buf out (keys @ e # rest)"
      using 3 c by (auto simp: Let_def)
    ultimately show ?thesis using Cons.IH[of buf i] Cons.prems by simp
  qed
qed

text \<open>
  The line that \<open>readline\<close> returns is the keys up to the end of line, edited, and it always fits the buffer
  together with its terminator.
\<close>

theorem readline_edits:
  assumes "length buf = RL_BUFLEN" and "\<forall>c \<in> set keys. 0 \<le> c \<and> \<not> line_end c" and "line_end e"
  shows "\<exists>b out. readline echoing buf (keys @ e # rest) = Some (Some (foldl edit [] keys), b, out, rest)
    \<and> length b = RL_BUFLEN \<and> length (foldl edit [] keys) < RL_BUFLEN"
  using readline_loop_edits[of buf 0 keys e echoing "[]" rest] assms by (simp add: readline_def RL_BUFLEN_def)

text \<open>Rubout in an empty line is not ignored: it is stored as a character.\<close>

lemma readline_keeps_rubout:
  assumes "length buf = RL_BUFLEN"
  shows "\<exists>b out. readline echoing buf [127, 10] = Some (Some [127], b, out, [])"
  using readline_edits[of buf "[127]" 10 echoing "[]"] assms by (auto simp: line_end_def edit_def RL_BUFLEN_def)

section \<open>The interpreter\<close>

definition MON_MAXARGS :: nat where "MON_MAXARGS = 16"

definition whitespace :: "u8 \<Rightarrow> bool" where
  "whitespace c \<longleftrightarrow> c = 9 \<or> c = 13 \<or> c = 10 \<or> c = 32"

text \<open>The two inner loops; running off the buffer is \<open>None\<close>.\<close>

function gobble :: "u8 list \<Rightarrow> nat \<Rightarrow> (u8 list \<times> nat) option" where
  "gobble buf i =
     (if i < length buf then (if buf ! i \<noteq> 0 \<and> whitespace (buf ! i) then gobble (buf[i := 0]) (i + 1) else Some (buf, i))
      else None)"
  by pat_completeness auto
termination by (relation "measure (\<lambda>(buf, i). length buf - i)") auto

function past_word :: "u8 list \<Rightarrow> nat \<Rightarrow> nat option" where
  "past_word buf i =
     (if i < length buf then (if buf ! i \<noteq> 0 \<and> \<not> whitespace (buf ! i) then past_word buf (i + 1) else Some i)
      else None)"
  by pat_completeness auto
termination by (relation "measure (\<lambda>(buf, i). length buf - i)") auto

declare gobble.simps [simp del] past_word.simps [simp del]

text \<open>\<open>argv\<close> as positions in the buffer; \<open>None\<close> inside when there are too many arguments.\<close>

partial_function (option) mon_args :: "u8 list \<Rightarrow> nat \<Rightarrow> nat list \<Rightarrow> (u8 list \<times> nat list option) option" where
  "mon_args buf i argv = do {
     (buf, i) \<leftarrow> gobble buf i;
     if buf ! i = 0 then Some (buf, Some argv)
     else if length argv = MON_MAXARGS - 1 then Some (buf, None)
     else do { j \<leftarrow> past_word buf i; mon_args buf j (argv @ [i]) }
   }"

definition str_at :: "u8 list \<Rightarrow> nat \<Rightarrow> u8 list" where
  "str_at buf i = takeWhile (\<lambda>c. c \<noteq> 0) (drop i buf)"

datatype mon_action = NoCommand | TooManyArgs | Unknown "u8 list" | Run string "u8 list list"

definition mon_commands :: "string list" where
  "mon_commands = [''help'', ''kerninfo'']"

definition mon_runcmd :: "u8 list \<Rightarrow> mon_action option" where
  "mon_runcmd buf = do {
     (buf, r) \<leftarrow> mon_args buf 0 [];
     (case r of
        None \<Rightarrow> Some TooManyArgs
      | Some [] \<Rightarrow> Some NoCommand
      | Some (a # as') \<Rightarrow>
          (case List.find (\<lambda>n. map of_char n = str_at buf a) mon_commands of
             Some n \<Rightarrow> Some (Run n (map (str_at buf) (a # as')))
           | None \<Rightarrow> Some (Unknown (str_at buf a))))
   }"

section \<open>The words of a line\<close>

text \<open>A reference: the maximal runs of characters that are not white space.\<close>

function words_of :: "u8 list \<Rightarrow> u8 list list" where
  "words_of cs =
     (case dropWhile whitespace cs of
        [] \<Rightarrow> []
      | c # r \<Rightarrow> (c # takeWhile (\<lambda>x. \<not> whitespace x) r) # words_of (dropWhile (\<lambda>x. \<not> whitespace x) r))"
  by pat_completeness auto
termination
proof (relation "measure length", goal_cases)
  case (2 cs c r)
  have "length (dropWhile (\<lambda>x. \<not> whitespace x) r) \<le> length r" "length (c # r) \<le> length cs"
    using length_dropWhile_le[of whitespace cs] 2 by (simp_all add: length_dropWhile_le)
  then show ?case by simp
qed simp

declare words_of.simps [simp del]

lemma gobble_spec:
  "0 \<notin> set cs \<Longrightarrow> gobble (pre @ cs @ 0 # rest) (length pre) =
     Some (pre @ replicate (length (takeWhile whitespace cs)) 0 @ dropWhile whitespace cs @ 0 # rest,
           length pre + length (takeWhile whitespace cs))"
proof (induction cs arbitrary: pre)
  case Nil
  then show ?case by (subst gobble.simps) simp
next
  case (Cons c cs)
  show ?case
  proof (cases "whitespace c")
    case True
    have "gobble (pre @ (c # cs) @ 0 # rest) (length pre) = gobble ((pre @ [0]) @ cs @ 0 # rest) (length (pre @ [0]))"
      using True Cons.prems by (subst gobble.simps) (simp add: list_update_append)
    then show ?thesis using True Cons.IH[of "pre @ [0]"] Cons.prems by simp
  next
    case False
    then show ?thesis by (subst gobble.simps) simp
  qed
qed

lemma past_word_spec:
  "0 \<notin> set cs \<Longrightarrow> past_word (pre @ cs @ 0 # rest) (length pre) =
     Some (length pre + length (takeWhile (\<lambda>x. \<not> whitespace x) cs))"
proof (induction cs arbitrary: pre)
  case Nil
  then show ?case by (subst past_word.simps) simp
next
  case (Cons c cs)
  show ?case
  proof (cases "whitespace c")
    case True
    then show ?thesis by (subst past_word.simps) simp
  next
    case False
    have "past_word (pre @ (c # cs) @ 0 # rest) (length pre) = past_word ((pre @ [c]) @ cs @ 0 # rest) (length (pre @ [c]))"
      using False Cons.prems by (subst past_word.simps) simp
    then show ?thesis using False Cons.IH[of "pre @ [c]"] Cons.prems by simp
  qed
qed

lemma str_at_word: "0 \<notin> set w \<Longrightarrow> x = 0 \<Longrightarrow> str_at (pre @ w @ x # rest) (length pre) = w"
  by (simp add: str_at_def takeWhile_append)

lemma mon_args_spec:
  assumes "0 \<notin> set cs" and "length argv \<le> 15"
  shows "\<exists>X ps. length X = length cs
    \<and> mon_args (pre @ cs @ 0 # rest) (length pre) argv
        = Some (pre @ X @ 0 # rest, if length argv + length (words_of cs) \<le> 15 then Some (argv @ ps) else None)
    \<and> (cs = [] \<or> whitespace (hd cs) \<longrightarrow> hd (X @ [0]) = 0)
    \<and> (length argv + length (words_of cs) \<le> 15 \<longrightarrow> map (str_at (pre @ X @ 0 # rest)) ps = words_of cs)"
  using assms
proof (induction cs arbitrary: pre argv rule: words_of.induct)
  case (1 cs)
  define k where "k = length (takeWhile whitespace cs)"
  have split: "length cs = k + length (dropWhile whitespace cs)"
    unfolding k_def by (metis length_append takeWhile_dropWhile_id)
  note G = gobble_spec[OF 1(2), of pre rest, folded k_def]
  have hd0: "cs = [] \<or> whitespace (hd cs) \<Longrightarrow> hd (replicate k 0 @ Y @ [0 :: u8]) = 0 \<or> (cs = [] \<and> Y \<noteq> [])" for Y
    by (cases cs) (auto simp: k_def)
  show ?case
  proof (cases "dropWhile whitespace cs")
    case Nil
    then have "mon_args (pre @ cs @ 0 # rest) (length pre) argv = Some (pre @ replicate k 0 @ 0 # rest, Some argv)"
      using G split by (subst mon_args.simps) (simp add: nth_append)
    moreover have "words_of cs = []" by (subst words_of.simps) (simp add: Nil del: dropWhile_eq_Nil_conv)
    moreover have "hd (replicate k 0 @ [0 :: u8]) = 0" by (cases k) simp_all
    ultimately show ?thesis using split Nil 1(3) by (intro exI[of _ "replicate k 0"] exI[of _ "[]"]) simp
  next
    case (Cons c r)
    define w where "w = c # takeWhile (\<lambda>x. \<not> whitespace x) r"
    define cs' where "cs' = dropWhile (\<lambda>x. \<not> whitespace x) r"
    have c: "\<not> whitespace c" using Cons by (metis hd_dropWhile list.distinct(1) list.sel(1))
    have wcs: "dropWhile whitespace cs = w @ cs'" using Cons by (simp add: w_def cs'_def)
    have z: "0 \<notin> set (w @ cs')" using 1(2) wcs by (metis set_dropWhileD)
    have words: "words_of cs = w # words_of cs'" using Cons by (subst words_of.simps) (simp add: w_def cs'_def)
    let ?pre = "pre @ replicate k 0"
    have G': "gobble (pre @ cs @ 0 # rest) (length pre) = Some (?pre @ w @ cs' @ 0 # rest, length ?pre)"
      using G wcs by (simp add: k_def)
    have "(?pre @ w @ cs' @ 0 # rest) ! length ?pre = c" "c \<noteq> 0"
      using z by (simp_all add: nth_append w_def)
    moreover have "past_word (?pre @ (w @ cs') @ 0 # rest) (length ?pre) = Some (length (?pre @ w))"
    proof -
      have "takeWhile (\<lambda>x. \<not> whitespace x) (w @ cs') = w"
        using c unfolding w_def cs'_def by (auto simp: takeWhile_append)
      then show ?thesis using past_word_spec[OF z, of ?pre rest] by simp
    qed
    ultimately have step: "mon_args (pre @ cs @ 0 # rest) (length pre) argv =
        (if length argv = 15 then Some (?pre @ w @ cs' @ 0 # rest, None)
         else mon_args ((?pre @ w) @ cs' @ 0 # rest) (length (?pre @ w)) (argv @ [length ?pre]))"
      using G' by (subst mon_args.simps) (simp add: MON_MAXARGS_def)
    show ?thesis
    proof (cases "length argv = 15")
      case True
      have "hd ((replicate k 0 @ w @ cs') @ [0]) = 0" if "cs = [] \<or> whitespace (hd cs)"
        using that Cons by (cases cs) (auto simp: k_def)
      then show ?thesis using step True words split wcs
        by (intro exI[of _ "replicate k 0 @ w @ cs'"] exI[of _ "[]"]) simp
    next
      case False
      then have "length (argv @ [length ?pre]) \<le> 15" using 1(3) by simp
      from 1(1)[OF Cons _ this, folded cs'_def, of "?pre @ w"] z obtain X ps where
        X: "length X = length cs'" and run: "mon_args ((?pre @ w) @ cs' @ 0 # rest) (length (?pre @ w)) (argv @ [length ?pre])
          = Some ((?pre @ w) @ X @ 0 # rest, if length (argv @ [length ?pre]) + length (words_of cs') \<le> 15
              then Some ((argv @ [length ?pre]) @ ps) else None)"
        and h: "cs' = [] \<or> whitespace (hd cs') \<longrightarrow> hd (X @ [0]) = 0"
        and ps: "length (argv @ [length ?pre]) + length (words_of cs') \<le> 15 \<longrightarrow>
            map (str_at ((?pre @ w) @ X @ 0 # rest)) ps = words_of cs'" by auto
      have "cs' = [] \<or> whitespace (hd cs')" unfolding cs'_def using hd_dropWhile[of "\<lambda>x. \<not> whitespace x" r] by blast
      then have "\<exists>Y. X @ 0 # rest = 0 # Y" using h by (cases X) auto
      then obtain Y where Y: "X @ 0 # rest = 0 # Y" by blast
      have "str_at (?pre @ w @ X @ 0 # rest) (length ?pre) = w"
        unfolding Y using z by (intro str_at_word) simp_all
      moreover have "hd ((replicate k 0 @ w @ X) @ [0]) = 0" if "cs = [] \<or> whitespace (hd cs)"
        using that Cons by (cases cs) (auto simp: k_def)
      ultimately show ?thesis using step run False words split wcs X ps
        by (intro exI[of _ "replicate k 0 @ w @ X"] exI[of _ "length ?pre # ps"]) (simp add: add.assoc)
    qed
  qed
qed

text \<open>The monitor cuts a line into its words, in place, and refuses more than fifteen.\<close>

theorem mon_args_words:
  assumes "0 \<notin> set cs"
  shows "\<exists>b argv. mon_args (cs @ 0 # rest) 0 [] = Some (b, if length (words_of cs) \<le> 15 then Some argv else None)
    \<and> (length (words_of cs) \<le> 15 \<longrightarrow> map (str_at b) argv = words_of cs)"
  using mon_args_spec[OF assms, of "[]" "[]" rest] by auto

end
