(* ===== verification/Boot.thy ===== *)
theory Boot
  imports EnvTab FsDisk
begin

text \<open>
  The boot loader, \<open>boot/main.c\<close>, which runs without paging on the memory of the machine, and the page
  directory that the kernel starts on, \<open>kern/entrypgdir.c\<close>.  The disk answers in the end, so \<open>waitdisk\<close>
  does not appear; \<open>bdisk n k\<close> is byte \<open>k\<close> of sector \<open>n\<close> of the first disk.
\<close>

section \<open>Reading the disk\<close>

record boot =
  bmem :: "u32 \<Rightarrow> u8"
  bdisk :: "u32 \<Rightarrow> nat \<Rightarrow> u8"

text \<open>The sector number goes to the registers \<open>0x1F3\<close> to \<open>0x1F6\<close>, which keep 28 bits of it (\<open>ide_lba\<close>).\<close>

definition readsect :: "u32 \<Rightarrow> u32 \<Rightarrow> boot \<Rightarrow> boot" where
  "readsect dst offset b = b\<lparr>bmem := (\<lambda>a. if a - dst < SECTSIZE then bdisk b (ide_lba offset) (unat (a - dst)) else bmem b a)\<rparr>"

partial_function (option) readseg_loop :: "u32 \<Rightarrow> u32 \<Rightarrow> u32 \<Rightarrow> boot \<Rightarrow> boot option" where
  "readseg_loop pa end_pa offset b =
     (if pa < end_pa then readseg_loop (pa + SECTSIZE) end_pa (offset + 1) (readsect pa offset b) else Some b)"

definition readseg :: "u32 \<Rightarrow> u32 \<Rightarrow> u32 \<Rightarrow> boot \<Rightarrow> boot option" where
  "readseg pa count offset b =
     readseg_loop (pa AND NOT (SECTSIZE - 1)) (pa + count) (offset div SECTSIZE + 1) b"

section \<open>Loading the kernel\<close>

definition ELFHDR :: u32 where "ELFHDR = 0x10000"

definition mem_bytes :: "boot \<Rightarrow> u32 \<Rightarrow> nat \<Rightarrow> u8 list" where
  "mem_bytes b a n = map (\<lambda>k. bmem b (a + word_of_nat k)) [0..<n]"

text \<open>The program headers are read from memory one at a time, while the segments are loaded.\<close>

definition load_phdr :: "u32 \<Rightarrow> nat \<Rightarrow> boot \<Rightarrow> boot option" where
  "load_phdr phs k b = do {
     ph \<leftarrow> read_Proghdr (mem_bytes b (phs + word_of_nat (32 * k)) 32) 0;
     readseg (p_pa ph) (p_memsz ph) (p_offset ph) b
   }"

datatype booted = Jump u32 | Bad

definition bootmain :: "boot \<Rightarrow> (booted \<times> boot) option" where
  "bootmain b = do {
     b \<leftarrow> readseg ELFHDR (SECTSIZE * 8) 0 b;
     hdr \<leftarrow> read_Elf (mem_bytes b ELFHDR 52);
     if e_magic hdr \<noteq> ELF_MAGIC then Some (Bad, b)
     else do {
       b \<leftarrow> foldM (load_phdr (ELFHDR + e_phoff hdr)) [0..<unat (e_phnum hdr)] b;
       hdr \<leftarrow> read_Elf (mem_bytes b ELFHDR 52);
       Some (Jump (e_entry hdr), b)
     }
   }"

section \<open>The first page directory\<close>

definition entry_pgdir :: "nat \<Rightarrow> u32" where
  "entry_pgdir = (\<lambda>_. 0)(0 := 0 + PTE_P + PTE_PS, PDX KERNBASE := 0 + PTE_P + PTE_W + PTE_PS)"

text \<open>Two large pages: the first 4 MB at address 0, read only, and at \<open>KERNBASE\<close>.\<close>

lemma entry_pgdir_maps:
  "entry_pgdir (PDX la) AND PTE_P \<noteq> 0 \<longleftrightarrow> unat la < 0x400000 \<or> 0xF0000000 \<le> unat la \<and> unat la < 0xF0400000"
  "PTE_ADDR (entry_pgdir d) = 0" "entry_pgdir d AND PTE_P \<noteq> 0 \<Longrightarrow> entry_pgdir d AND PTE_PS \<noteq> 0"
proof -
  have k: "PDX KERNBASE = 960" by (simp add: PDX_arith mmu_consts)
  have "PDX la = 0 \<longleftrightarrow> unat la < 0x400000" "PDX la = 960 \<longleftrightarrow> 0xF0000000 \<le> unat la \<and> unat la < 0xF0400000"
    unfolding PDX_arith by auto
  then show "entry_pgdir (PDX la) AND PTE_P \<noteq> 0 \<longleftrightarrow> unat la < 0x400000 \<or> 0xF0000000 \<le> unat la \<and> unat la < 0xF0400000"
    by (simp add: entry_pgdir_def k PTE_P_def PTE_W_def PTE_PS_def)
  show "PTE_ADDR (entry_pgdir d) = 0" "entry_pgdir d AND PTE_P \<noteq> 0 \<Longrightarrow> entry_pgdir d AND PTE_PS \<noteq> 0"
    by (auto simp: entry_pgdir_def k PTE_P_def PTE_W_def PTE_PS_def PTE_ADDR_def split: if_splits)
qed

section \<open>What readseg loads\<close>

lemma readsect_mem:
  assumes "unat dst + 512 \<le> 2 ^ 32"
  shows "bmem (readsect dst off b) a =
    (if unat dst \<le> unat a \<and> unat a < unat dst + 512 then bdisk b (ide_lba off) (unat a - unat dst) else bmem b a)"
proof (cases "dst \<le> a")
  case True
  then have "unat (a - dst) = unat a - unat dst" "unat dst \<le> unat a" by (simp_all add: unat_sub word_le_nat_alt)
  then show ?thesis by (auto simp: readsect_def SECTSIZE_def word_less_nat_alt)
next
  case False
  then have lt: "unat a < unat dst" by (simp add: word_le_nat_alt)
  have "unat (a - dst) = 2 ^ 32 + unat a - unat dst"
    using lt by (simp add: unat_sub_if_size word_size word_le_nat_alt)
  then have "\<not> a - dst < SECTSIZE" using lt assms by (simp add: SECTSIZE_def word_less_nat_alt)
  then show ?thesis using lt by (simp add: readsect_def)
qed

text \<open>The sectors of the loop, from \<open>q * 512\<close> on.\<close>

lemma readseg_loop_mem:
  assumes "unat pa = 512 * q" and "unat end_pa \<le> 512 * (q + n)" and "512 * (q + n) < unat end_pa + 512 \<or> n = 0"
    and "512 * (q + n) + 512 \<le> 2 ^ 32" and "n = 0 \<Longrightarrow> unat end_pa \<le> 512 * q"
  shows "\<exists>t. readseg_loop pa end_pa off b = Some t \<and> bdisk t = bdisk b
    \<and> (\<forall>a. bmem t a = (if 512 * q \<le> unat a \<and> unat a < 512 * (q + n)
          then bdisk b (ide_lba (off + word_of_nat (unat a div 512 - q))) (unat a mod 512) else bmem b a))"
  using assms
proof (induction n arbitrary: pa q off b)
  case 0
  then have "\<not> pa < end_pa" by (simp add: word_less_nat_alt)
  then show ?case by (subst readseg_loop.simps) auto
next
  case (Suc n)
  have lt: "pa < end_pa" using Suc.prems by (simp add: word_less_nat_alt)
  have pa: "unat (pa + SECTSIZE) = 512 * (q + 1)"
    using Suc.prems by (simp add: unat_word_ariths SECTSIZE_def)
  let ?b = "readsect pa off b"
  have "n = 0 \<Longrightarrow> unat end_pa \<le> 512 * (q + 1)" using Suc.prems by simp
  then obtain t where t: "readseg_loop (pa + SECTSIZE) end_pa (off + 1) ?b = Some t" "bdisk t = bdisk ?b"
    and m: "\<And>a. bmem t a = (if 512 * (q + 1) \<le> unat a \<and> unat a < 512 * (q + 1 + n)
          then bdisk ?b (ide_lba (off + 1 + word_of_nat (unat a div 512 - (q + 1)))) (unat a mod 512) else bmem ?b a)"
    using Suc.IH[OF pa, of "off + 1" ?b] Suc.prems by auto
  have d: "bdisk ?b = bdisk b" by (simp add: readsect_def)
  have "bmem t a = (if 512 * q \<le> unat a \<and> unat a < 512 * (q + Suc n)
          then bdisk b (ide_lba (off + word_of_nat (unat a div 512 - q))) (unat a mod 512) else bmem b a)" for a
  proof (cases "512 * (q + 1) \<le> unat a")
    case True
    then have "unat a div 512 - q = Suc (unat a div 512 - (q + 1))" by simp
    then have "(word_of_nat (unat a div 512 - q) :: u32) = 1 + word_of_nat (unat a div 512 - (q + 1))" by simp
    moreover have "\<not> (unat pa \<le> unat a \<and> unat a < unat pa + 512)" using True Suc.prems by simp
    then have "bmem ?b a = bmem b a" using readsect_mem[of pa off b a] Suc.prems by auto
    ultimately show ?thesis using True m[of a] d by (simp add: add.assoc)
  next
    case False
    show ?thesis
    proof (cases "512 * q \<le> unat a")
      case True
      with False have "unat a div 512 = q" "unat a mod 512 = unat a - 512 * q"
        by (simp_all add: div_nat_eqI modulo_nat_def)
      then show ?thesis using True False m[of a] readsect_mem[of pa off b a] Suc.prems by simp
    next
      case below: False
      then show ?thesis using False m[of a] readsect_mem[of pa off b a] Suc.prems by simp
    qed
  qed
  then show ?case using t d lt by (subst readseg_loop.simps) auto
qed

text \<open>The registers keep the 28 low bits, and the boot loader needs no more.\<close>

lemma ide_lba_small: "unat n < 2 ^ 28 \<Longrightarrow> ide_lba n = n"
proof (rule bit_word_eqI)
  fix k assume n: "unat n < 2 ^ 28" and k: "k < LENGTH(32)"
  have "\<not> bit n k" if "28 \<le> k"
  proof -
    have "unat n < 2 ^ k" using n that by (meson less_le_trans one_le_numeral power_increasing)
    then have "\<not> bit (unat n) k" by (simp add: bit_iff_odd)
    then show ?thesis using k by (simp add: bit_unsigned_iff)
  qed
  then have *: "bit n k \<Longrightarrow> k < 28" by (meson not_le)
  have m: "(0xFF :: u32) = mask 8" "(0x0F :: u32) = mask 4" by (simp_all add: mask_eq_exp_minus_1)
  consider "k < 8" | "8 \<le> k" "k < 16" | "16 \<le> k" "k < 24" | "24 \<le> k" by linarith
  then show "bit (ide_lba n) k = bit n k"
    using k * unfolding ide_lba_def m by cases (auto simp: bit_simps)
qed

lemma boot_sector_base: "unat (pa AND NOT (SECTSIZE - 1)) = 512 * (unat pa div 512)"
proof -
  have m: "SECTSIZE - 1 = mask 9" by (simp add: SECTSIZE_def mask_eq_exp_minus_1)
  have "pa AND NOT (SECTSIZE - 1) = push_bit 9 (drop_bit 9 pa)"
    unfolding m by (rule bit_word_eqI) (auto simp: bit_simps)
  moreover have "512 * (unat pa div 512) < 2 ^ 32"
    using unsigned_less[of pa, where 'a = nat] div_times_less_eq_dividend[of "unat pa" 512] by simp
  ultimately show ?thesis
    by (simp add: push_bit_eq_mult drop_bit_eq_div unat_word_ariths unat_div mult.commute)
qed

text \<open>The boot loader's \<open>readseg\<close> loads \<open>count\<close> bytes of the kernel, which starts in sector 1, to the physical
  address \<open>pa\<close>.  It returns if the end is not in the last sector of the address space, the bytes are right if
  offset and address agree within a sector, and outside the sectors touched nothing changes.
\<close>

theorem readseg_loads:
  assumes "unat pa mod 512 = unat offset mod 512" and "0 < count" and "unat pa + unat count + 1024 \<le> 2 ^ 32"
    and "(unat offset + unat count) div 512 + 1 < 2 ^ 28"
  shows "\<exists>t. readseg pa count offset b = Some t
    \<and> (\<forall>k < unat count. bmem t (pa + word_of_nat k) =
         bdisk b (word_of_nat ((unat offset + k) div 512 + 1)) ((unat offset + k) mod 512))
    \<and> (\<forall>a. unat a + 512 \<le> unat pa \<or> unat pa + unat count + 512 \<le> unat a \<longrightarrow> bmem t a = bmem b a)"
proof -
  define q where "q = unat pa div 512"
  define r where "r = unat pa mod 512"
  have pa: "unat pa = 512 * q + r" "r < 512" by (simp_all add: q_def r_def)
  define p0 where "p0 = unat offset div 512"
  have off: "unat offset = 512 * p0 + r" using assms(1) by (simp add: p0_def r_def)
  define n where "n = (r + unat count + 511) div 512"
  have c: "0 < unat count" using assms(2) by (simp add: word_less_nat_alt)
  have n: "r + unat count \<le> 512 * n" "512 * n < r + unat count + 512" by (simp_all add: n_def)
  have base: "unat (pa AND NOT (SECTSIZE - 1)) = 512 * q" by (simp add: boot_sector_base q_def)
  have e: "unat (pa + count) = 512 * q + r + unat count" using assms(3) pa by (simp add: unat_word_ariths)
  from readseg_loop_mem[OF base, of "pa + count" n "offset div SECTSIZE + 1" b] n c assms(3) pa e
  obtain t where t: "readseg pa count offset b = Some t" and m: "\<And>a. bmem t a =
      (if 512 * q \<le> unat a \<and> unat a < 512 * (q + n)
       then bdisk b (ide_lba (offset div SECTSIZE + 1 + word_of_nat (unat a div 512 - q))) (unat a mod 512) else bmem b a)"
    by (auto simp: readseg_def)
  have "bmem t (pa + word_of_nat k) = bdisk b (word_of_nat ((unat offset + k) div 512 + 1)) ((unat offset + k) mod 512)"
    if "k < unat count" for k
  proof -
    have u: "unat (pa + word_of_nat k) = 512 * q + (r + k)"
      using that assms(3) pa by (simp add: unat_word_ariths unat_of_nat take_bit_eq_mod)
    have d: "(512 * q + (r + k)) div 512 - q = (r + k) div 512" "(512 * q + (r + k)) mod 512 = (r + k) mod 512"
      by simp_all
    have o: "(unat offset + k) div 512 = p0 + (r + k) div 512" "(unat offset + k) mod 512 = (r + k) mod 512"
      by (simp_all add: off add.assoc)
    have "unat (offset div SECTSIZE) = p0" by (simp add: p0_def SECTSIZE_def unat_div)
    then have w: "offset div SECTSIZE = word_of_nat p0" by (metis of_nat_unat ucast_id)
    have "(unat offset + k) div 512 \<le> (unat offset + unat count) div 512" using that by (intro div_le_mono) simp
    then have "p0 + (r + k) div 512 + 1 < 2 ^ 28" using assms(4) o(1) by simp
    moreover have "N < 2 ^ 28 \<Longrightarrow> ide_lba (word_of_nat N) = word_of_nat N" for N
      by (rule ide_lba_small) (simp add: unat_of_nat take_bit_eq_mod)
    ultimately have "ide_lba (word_of_nat (p0 + (r + k) div 512 + 1)) = word_of_nat (p0 + (r + k) div 512 + 1)"
      by blast
    then show ?thesis using m[of "pa + word_of_nat k"] that n unfolding u d o w by (simp add: algebra_simps)
  qed
  moreover have "bmem t a = bmem b a" if "unat a + 512 \<le> unat pa \<or> unat pa + unat count + 512 \<le> unat a" for a
    using that m[of a] n pa by auto
  ultimately show ?thesis using t by blast
qed

definition demo_boot :: boot where
  "demo_boot = \<lparr>bmem = (\<lambda>_. 0), bdisk = (\<lambda>n k. ucast n + word_of_nat k)\<rparr>"

theorem readseg_loads_witness:
  "\<exists>t. readseg 0x100010 4 0x1010 demo_boot = Some t \<and> bmem t 0x100012 = 9 + 0x12 \<and> bmem t 0x100400 = 0"
proof -
  from readseg_loads[of "0x100010" "0x1010" 4 demo_boot] obtain t where
    t: "readseg 0x100010 4 0x1010 demo_boot = Some t"
    and m: "\<forall>k < unat (4 :: u32). bmem t (0x100010 + word_of_nat k) =
         bdisk demo_boot (word_of_nat ((unat (0x1010 :: u32) + k) div 512 + 1)) ((unat (0x1010 :: u32) + k) mod 512)"
    and o: "\<forall>a. unat a + 512 \<le> unat (0x100010 :: u32) \<or> unat (0x100010 :: u32) + unat (4 :: u32) + 512 \<le> unat a
        \<longrightarrow> bmem t a = bmem demo_boot a"
    by auto
  have "bmem t 0x100012 = 9 + 0x12" using m[rule_format, of 2] by (simp add: demo_boot_def)
  moreover have "bmem t 0x100400 = 0" using o[rule_format, of "0x100400"] by (simp add: demo_boot_def)
  ultimately show ?thesis using t by blast
qed

end
