(* ===== verification/Kdebug.thy ===== *)
theory Kdebug
  imports Str UserMem
begin

text \<open>
  Debugging information, \<open>kern/kdebug.c\<close>: the search for the stab of a type that contains an address, and
  what a program counter is in terms of file, function and line.  A table of stabs is an array, given by
  its entries at every index; memory is given by its bytes, as every address that is read here is mapped.
\<close>

definition N_FUN :: u8 where "N_FUN = 0x24"
definition N_SLINE :: u8 where "N_SLINE = 0x44"
definition N_SO :: u8 where "N_SO = 0x64"
definition N_SOL :: u8 where "N_SOL = 0x84"
definition N_PSYM :: u8 where "N_PSYM = 0xa0"

record Stab =
  n_strx :: u32
  n_type :: u8
  n_other :: u8
  n_desc :: u16
  n_value :: u32

section \<open>The search\<close>

text \<open>The earliest stab of the type at or before \<open>m\<close>, or \<open>l - 1\<close>.\<close>

function stab_scan :: "(int \<Rightarrow> Stab) \<Rightarrow> u8 \<Rightarrow> int \<Rightarrow> int \<Rightarrow> int" where
  "stab_scan stabs ty l m = (if l \<le> m \<and> n_type (stabs m) \<noteq> ty then stab_scan stabs ty l (m - 1) else m)"
  by pat_completeness auto
termination by (relation "measure (\<lambda>(stabs, ty, l, m). nat (m - l + 1))") auto

declare stab_scan.simps [simp del]

lemma stab_scan_spec:
  "stab_scan stabs ty l m \<le> m \<and> (stab_scan stabs ty l m < l \<or> n_type (stabs (stab_scan stabs ty l m)) = ty)
   \<and> (\<forall>i. stab_scan stabs ty l m < i \<and> i \<le> m \<and> l \<le> i \<longrightarrow> n_type (stabs i) \<noteq> ty)"
proof (induction stabs ty l m rule: stab_scan.induct)
  case (1 stabs ty l m)
  show ?case
  proof (cases "l \<le> m \<and> n_type (stabs m) \<noteq> ty")
    case True
    define x where "x = stab_scan stabs ty l (m - 1)"
    have "stab_scan stabs ty l m = x" using True by (subst stab_scan.simps) (simp add: x_def)
    moreover have "x \<le> m - 1 \<and> (x < l \<or> n_type (stabs x) = ty)
        \<and> (\<forall>i. x < i \<and> i \<le> m - 1 \<and> l \<le> i \<longrightarrow> n_type (stabs i) \<noteq> ty)"
      using 1[OF True] by (simp add: x_def)
    moreover have "i \<le> m - 1 \<or> i = m" if "i \<le> m" for i using that by linarith
    ultimately show ?thesis using True by (metis diff_le_eq le_add_same_cancel1 order_trans zero_le_one)
  next
    case False
    then show ?thesis by (subst (1 2 3 4) stab_scan.simps) auto
  qed
qed

lemma stab_scan_ge: "l \<le> m + 1 \<Longrightarrow> l - 1 \<le> stab_scan stabs ty l m"
proof (induction stabs ty l m rule: stab_scan.induct)
  case (1 stabs ty l m)
  then show ?case by (subst stab_scan.simps) auto
qed

text \<open>The loop; its state is \<open>l\<close>, \<open>r\<close>, \<open>addr\<close>, \<open>*region_left\<close>, \<open>*region_right\<close> and \<open>any_matches\<close>.\<close>

function stab_loop :: "(int \<Rightarrow> Stab) \<Rightarrow> u8 \<Rightarrow> int \<Rightarrow> int \<Rightarrow> u32 \<Rightarrow> int \<Rightarrow> int \<Rightarrow> bool \<Rightarrow> int \<times> int \<times> bool" where
  "stab_loop stabs ty l r addr left right matched =
     (if l \<le> r then
        let true_m = (l + r) div 2; m = stab_scan stabs ty l true_m in
        if m < l then stab_loop stabs ty (true_m + 1) r addr left right matched
        else if n_value (stabs m) < addr then stab_loop stabs ty (true_m + 1) r addr m right True
        else if n_value (stabs m) > addr then stab_loop stabs ty l (m - 1) addr left (m - 1) True
        else stab_loop stabs ty m r (addr + 1) m right True
      else (left, right, matched))"
  by pat_completeness auto

text \<open>
  It ends: the interval shrinks, or an exact match was found at \<open>l\<close>, and then the next round looks at the
  same stab with another address.
\<close>

definition stab_measure :: "(int \<Rightarrow> Stab) \<Rightarrow> u8 \<Rightarrow> int \<Rightarrow> int \<Rightarrow> u32 \<Rightarrow> nat" where
  "stab_measure stabs ty l r addr = 2 * nat (r - l + 1)
     + (if n_value (stabs (stab_scan stabs ty l ((l + r) div 2))) = addr then 1 else 0)"

lemma stab_scan_stop: "n_type (stabs m) = ty \<Longrightarrow> stab_scan stabs ty l m = m"
  by (subst stab_scan.simps) simp

lemma stab_scan_again:
  assumes "l \<le> stab_scan stabs ty l m"
  shows "stab_scan stabs ty (stab_scan stabs ty l m) m = stab_scan stabs ty l m"
  using assms
proof (induction stabs ty l m rule: stab_scan.induct)
  case (1 stabs ty l m)
  show ?case
  proof (cases "l \<le> m \<and> n_type (stabs m) \<noteq> ty")
    case True
    define x where "x = stab_scan stabs ty l (m - 1)"
    have e: "stab_scan stabs ty l m = x" using True by (subst stab_scan.simps) (simp add: x_def)
    have x: "x \<le> m" "l \<le> x" using stab_scan_spec[of stabs ty l "m - 1"] 1(2) e by (simp_all add: x_def)
    have "stab_scan stabs ty x (m - 1) = x" using 1(1)[OF True] x by (simp add: x_def)
    then show ?thesis unfolding e using x True by (subst stab_scan.simps) simp
  next
    case False
    then have "stab_scan stabs ty l m = m" by (subst stab_scan.simps) auto
    then show ?thesis using 1(2) False stab_scan_stop[of stabs m ty] by simp
  qed
qed

lemma add_one_neq: "(a :: u32) + 1 \<noteq> a"
  by simp

lemma mid: "l \<le> r \<Longrightarrow> l \<le> (l + r) div 2 \<and> (l + r) div 2 \<le> (r :: int)"
  by linarith

lemma stab_measure_shrinks:
  assumes "l \<le> r" and "r' - l' < r - l"
  shows "stab_measure stabs ty l' r' addr' < stab_measure stabs ty l r addr"
proof -
  have "a + 1 \<le> b \<Longrightarrow> 2 * a + (if P then 1 else 0) < 2 * b + (if Q then 1 else 0)" for a b :: nat and P Q
    by auto
  moreover have "nat (r' - l' + 1) + 1 \<le> nat (r - l + 1)" using assms by linarith
  ultimately show ?thesis unfolding stab_measure_def by blast
qed

termination stab_loop
proof (relation "measure (\<lambda>(stabs, ty, l, r, addr, left, right, matched). stab_measure stabs ty l r addr)", goal_cases)
  case 1
  then show ?case by simp
next
  case (2 stabs ty l r addr left right matched x xa)
  then show ?case using stab_measure_shrinks[of l r r "x + 1"] mid[of l r] by simp
next
  case (3 stabs ty l r addr left right matched x xa)
  then show ?case using stab_measure_shrinks[of l r r "x + 1"] mid[of l r] by simp
next
  case (4 stabs ty l r addr left right matched x xa)
  then show ?case using stab_measure_shrinks[of l r "xa - 1" l] mid[of l r] stab_scan_spec[of stabs ty l x] by simp
next
  case (5 stabs ty l r addr left right matched x xa)
  then have eq: "n_value (stabs xa) = addr" and l: "l \<le> xa" "l \<le> r" by auto
  show ?case
  proof (cases "xa = l")
    case True
    then have "stab_scan stabs ty l ((l + r) div 2) = l" using 5 by simp
    then show ?thesis using eq True by (simp add: stab_measure_def)
  next
    case False
    then show ?thesis using l stab_measure_shrinks[of l r r xa] by simp
  qed
qed

declare stab_loop.simps [simp del]

text \<open>The last part: the rightmost stab of the type up to \<open>*region_right\<close>, or \<open>*region_left\<close>.\<close>

definition stab_binsearch :: "(int \<Rightarrow> Stab) \<Rightarrow> int \<Rightarrow> int \<Rightarrow> u8 \<Rightarrow> u32 \<Rightarrow> int \<times> int" where
  "stab_binsearch stabs region_left region_right ty addr =
     (case stab_loop stabs ty region_left region_right addr region_left region_right False of (left, right, matched) \<Rightarrow>
        if \<not> matched then (left, left - 1)
        else (if left < right then stab_scan stabs ty (left + 1) right else right, right))"

section \<open>What it finds\<close>

text \<open>The stabs of the type between two indices, sorted by value, none of them one above the address.\<close>

definition stabs_of :: "(int \<Rightarrow> Stab) \<Rightarrow> u8 \<Rightarrow> int \<Rightarrow> int \<Rightarrow> int set" where
  "stabs_of stabs ty lo hi = {i. lo \<le> i \<and> i \<le> hi \<and> n_type (stabs i) = ty}"

definition sorted_stabs :: "(int \<Rightarrow> Stab) \<Rightarrow> u8 \<Rightarrow> int \<Rightarrow> int \<Rightarrow> bool" where
  "sorted_stabs stabs ty lo hi \<longleftrightarrow>
     (\<forall>i \<in> stabs_of stabs ty lo hi. \<forall>j \<in> stabs_of stabs ty lo hi. i \<le> j \<longrightarrow> n_value (stabs i) \<le> n_value (stabs j))"

text \<open>The state of the loop in a search of \<open>[lo, hi]\<close> for \<open>addr\<close>.\<close>

definition search_inv :: "(int \<Rightarrow> Stab) \<Rightarrow> u8 \<Rightarrow> int \<Rightarrow> int \<Rightarrow> u32 \<Rightarrow> int \<Rightarrow> int \<Rightarrow> u32 \<Rightarrow> int \<Rightarrow> int \<Rightarrow> bool \<Rightarrow> bool" where
  "search_inv stabs ty lo hi addr l r a left right matched \<longleftrightarrow>
     (let S = stabs_of stabs ty lo hi in
        lo \<le> l \<and> r \<le> hi \<and> right = r \<and> (a = addr \<or> a = addr + 1)
      \<and> (\<forall>i \<in> S. i < l \<longrightarrow> n_value (stabs i) \<le> addr)
      \<and> (\<forall>i \<in> S. r < i \<longrightarrow> addr < n_value (stabs i))
      \<and> (r = hi \<or> r + 1 \<in> S)
      \<and> (left = lo \<or> left \<in> S \<and> n_value (stabs left) \<le> addr)
      \<and> (\<not> matched \<longrightarrow> r = hi \<and> left = lo \<and> (\<forall>i \<in> S. l \<le> i)))"

lemma search_invD:
  assumes "search_inv stabs ty lo hi addr l r a left right matched"
  shows "lo \<le> l" "r \<le> hi" "right = r" "a = addr \<or> a = addr + 1"
    "\<And>i. i \<in> stabs_of stabs ty lo hi \<Longrightarrow> i < l \<Longrightarrow> n_value (stabs i) \<le> addr"
    "\<And>i. i \<in> stabs_of stabs ty lo hi \<Longrightarrow> r < i \<Longrightarrow> addr < n_value (stabs i)"
    "r = hi \<or> r + 1 \<in> stabs_of stabs ty lo hi"
    "left = lo \<or> left \<in> stabs_of stabs ty lo hi \<and> n_value (stabs left) \<le> addr"
    "\<not> matched \<Longrightarrow> r = hi \<and> left = lo \<and> (\<forall>i \<in> stabs_of stabs ty lo hi. l \<le> i)"
  using assms unfolding search_inv_def Let_def by blast+

lemma search_invI:
  assumes "lo \<le> l" "r \<le> hi" "right = r" "a = addr \<or> a = addr + 1"
    "\<And>i. i \<in> stabs_of stabs ty lo hi \<Longrightarrow> i < l \<Longrightarrow> n_value (stabs i) \<le> addr"
    "\<And>i. i \<in> stabs_of stabs ty lo hi \<Longrightarrow> r < i \<Longrightarrow> addr < n_value (stabs i)"
    "r = hi \<or> r + 1 \<in> stabs_of stabs ty lo hi"
    "left = lo \<or> left \<in> stabs_of stabs ty lo hi \<and> n_value (stabs left) \<le> addr"
    "\<not> matched \<Longrightarrow> r = hi \<and> left = lo \<and> (\<forall>i \<in> stabs_of stabs ty lo hi. l \<le> i)"
  shows "search_inv stabs ty lo hi addr l r a left right matched"
  using assms unfolding search_inv_def Let_def by blast

lemma word_le_succ:
  assumes "(a :: u32) + 1 \<noteq> 0" and "v \<noteq> a + 1"
  shows "v < a + 1 \<longleftrightarrow> v \<le> a" and "a + 1 < v \<longleftrightarrow> a < v"
proof -
  have "unat (a + 1) = unat a + 1" using assms(1) by (metis Suc_eq_plus1 unatSuc add.commute)
  moreover have "unat v \<noteq> unat (a + 1)" using assms(2) by (simp add: word_unat_eq_iff)
  ultimately show "v < a + 1 \<longleftrightarrow> v \<le> a" and "a + 1 < v \<longleftrightarrow> a < v"
    by (auto simp: word_less_nat_alt word_le_nat_alt)
qed

text \<open>Every way that the loop ends leaves the invariant with an empty interval.\<close>

lemma stab_loop_inv:
  assumes "search_inv stabs ty lo hi addr l r a left right matched" and sorted: "sorted_stabs stabs ty lo hi"
    and gap: "\<And>i. i \<in> stabs_of stabs ty lo hi \<Longrightarrow> n_value (stabs i) \<noteq> addr + 1" and top: "addr + 1 \<noteq> 0"
    and "stab_loop stabs ty l r a left right matched = (left', right', matched')"
  shows "\<exists>l' a'. right' < l' \<and> search_inv stabs ty lo hi addr l' right' a' left' right' matched'"
  using assms
proof (induction stabs ty l r a left right matched rule: stab_loop.induct)
  case (1 stabs ty l r a left right matched)
  note I = search_invD[OF 1(5)] and IH = 1(1-4) and sorted = 1(6) and gap = 1(7) and top = 1(8) and run = 1(9)
  let ?S = "stabs_of stabs ty lo hi"
  define x where "x = (l + r) div 2"
  define m where "m = stab_scan stabs ty l x"
  note scan = stab_scan_spec[of stabs ty l x, folded m_def]
  consider "r < l" | "l \<le> r" "m < l" | "l \<le> r" "l \<le> m" by linarith
  then show ?case
  proof cases
    case 1
    then have "left' = left" "right' = right" "matched' = matched"
      using run by (simp_all add: stab_loop.simps[of stabs ty l])
    then show ?thesis using 1 I(3) \<open>search_inv stabs ty lo hi addr l r a left right matched\<close> by blast
  next
    case 2
    have none: "i \<notin> ?S" if "l \<le> i" "i \<le> x" for i using scan 2 that by (auto simp: stabs_of_def)
    have "search_inv stabs ty lo hi addr (x + 1) r a left right matched"
    proof (rule search_invI[OF _ I(2,3,4) _ I(6,7,8)])
      show "lo \<le> x + 1" using I(1) mid[OF 2(1)] by (simp add: x_def)
      show "n_value (stabs i) \<le> addr" if "i \<in> ?S" "i < x + 1" for i
        using that none[of i] I(5)[of i] by force
      show "r = hi \<and> left = lo \<and> (\<forall>i \<in> ?S. x + 1 \<le> i)" if "\<not> matched"
        using I(9)[OF that] none by force
    qed
    then show ?thesis
      using IH(1)[OF 2(1) x_def m_def 2(2) _ sorted gap top] run 2
      by (simp add: stab_loop.simps[of stabs ty l] Let_def x_def[symmetric] m_def[symmetric])
  next
    case 3
    have mS: "m \<in> ?S" and x: "m \<le> x" "x \<le> r" "\<not> m < l"
      using scan 3 mid[OF 3(1)] I(1,2) by (auto simp: stabs_of_def x_def)
    have le: "n_value (stabs i) \<le> n_value (stabs m)" if "i \<in> ?S" "i \<le> x" for i
      using that scan mS sorted unfolding sorted_stabs_def by (cases "i \<le> m") (use 3(2) in \<open>auto simp: stabs_of_def\<close>)
    have ge: "n_value (stabs m) \<le> n_value (stabs i)" if "i \<in> ?S" "m \<le> i" for i
      using that mS sorted unfolding sorted_stabs_def by blast
    note cmp = word_le_succ[OF top gap[OF mS]]
    have step: "stab_loop stabs ty l r a left right matched =
        (if n_value (stabs m) < a then stab_loop stabs ty (x + 1) r a m right True
         else if n_value (stabs m) > a then stab_loop stabs ty l (m - 1) a left (m - 1) True
         else stab_loop stabs ty m r (a + 1) m right True)"
      using 3 x by (simp add: stab_loop.simps[of stabs ty l] Let_def x_def[symmetric] m_def[symmetric])
    consider "n_value (stabs m) < a" | "a < n_value (stabs m)" | "n_value (stabs m) = a" by force
    then show ?thesis
    proof cases
      case 1
      then have v: "n_value (stabs m) \<le> addr" using I(4) cmp(1) by auto
      have "search_inv stabs ty lo hi addr (x + 1) r a m right True"
      proof (rule search_invI[OF _ I(2,3,4) _ I(6,7)])
        show "lo \<le> x + 1" using I(1) x 3 by simp
        show "n_value (stabs i) \<le> addr" if "i \<in> ?S" "i < x + 1" for i
          using le[of i] that v by simp
      qed (use mS v in auto)
      then show ?thesis using IH(2)[OF 3(1) x_def m_def x(3) 1 _ sorted gap top] run step 1 by simp
    next
      case 2
      then have v: "addr < n_value (stabs m)" using I(4) cmp(2) by auto
      have "search_inv stabs ty lo hi addr l (m - 1) a left (m - 1) True"
      proof (rule search_invI[OF I(1) _ _ I(4,5) _ _ I(8)])
        show "addr < n_value (stabs i)" if "i \<in> ?S" "m - 1 < i" for i
          using ge[of i] that v by simp
      qed (use mS x I(2) in auto)
      moreover have "\<not> n_value (stabs m) < a" using 2 by simp
      ultimately show ?thesis using IH(3)[OF 3(1) x_def m_def x(3) _ 2 _ sorted gap top] run step 2 by simp
    next
      case 3
      then have a: "a = addr" using I(4) gap[OF mS] by auto
      have "search_inv stabs ty lo hi addr m r (a + 1) m right True"
      proof (rule search_invI[OF _ I(2,3) _ _ I(6,7)])
        show "n_value (stabs i) \<le> addr" if "i \<in> ?S" "i < m" for i
          using le[of i] that x 3 a by simp
      qed (use mS x a 3 I(1) \<open>l \<le> m\<close> in auto)
      then show ?thesis using IH(4)[OF \<open>l \<le> r\<close> x_def m_def x(3) _ _ _ sorted gap top] run step 3 by simp
    qed
  qed
qed

text \<open>C39: \<open>stab_binsearch\<close> finds the stab that contains the address.  When the stabs of the type are sorted and
  one of them in \<open>[lo, hi]\<close> is at or below the address, the result is the last such stab together with the
  index before the next stab of the type (or \<open>hi\<close>).  The one gap in the code is excluded: no stab of the
  type may lie at exactly \<open>addr + 1\<close>, since after an exact match the search goes on for \<open>addr + 1\<close>.
\<close>

theorem stab_binsearch_finds:
  assumes "sorted_stabs stabs ty lo hi" and "k \<in> stabs_of stabs ty lo hi" and "n_value (stabs k) \<le> addr"
    and "\<And>i. i \<in> stabs_of stabs ty lo hi \<Longrightarrow> n_value (stabs i) \<noteq> addr + 1" and "addr + 1 \<noteq> 0"
  shows "\<exists>m r. stab_binsearch stabs lo hi ty addr = (m, r) \<and> m \<in> stabs_of stabs ty lo hi \<and> m \<le> r \<and> r \<le> hi
    \<and> n_value (stabs m) \<le> addr \<and> (\<forall>i \<in> stabs_of stabs ty lo hi. i \<le> m \<or> r < i)
    \<and> (\<forall>i \<in> stabs_of stabs ty lo hi. r < i \<longrightarrow> addr < n_value (stabs i))
    \<and> (r = hi \<or> r + 1 \<in> stabs_of stabs ty lo hi)"
proof -
  let ?S = "stabs_of stabs ty lo hi"
  obtain left right matched where run: "stab_loop stabs ty lo hi addr lo hi False = (left, right, matched)"
    by (cases "stab_loop stabs ty lo hi addr lo hi False") auto
  have "search_inv stabs ty lo hi addr lo hi addr lo hi False"
    by (rule search_invI) (auto simp: stabs_of_def)
  from stab_loop_inv[OF this assms(1,4,5) run] obtain l' a' where
    l: "right < l'" and inv: "search_inv stabs ty lo hi addr l' right a' left right matched" by blast
  note I = search_invD[OF inv]
  have kr: "k \<le> right" using I(6)[OF assms(2)] assms(3) by force
  have matched using I(9) kr l assms(2) by force
  have left: "left \<le> right" using I(8) I(6)[of left] kr assms(2) by (force simp: stabs_of_def)
  define m where "m = (if left < right then stab_scan stabs ty (left + 1) right else right)"
  note scan = stab_scan_spec[of stabs ty "left + 1" right]
  have res: "stab_binsearch stabs lo hi ty addr = (m, right)"
    using run \<open>matched\<close> by (simp add: stab_binsearch_def m_def)
  have m: "left \<le> m" "m \<le> right" "m = left \<or> n_type (stabs m) = ty"
    "\<And>i. m < i \<Longrightarrow> i \<le> right \<Longrightarrow> n_type (stabs i) \<noteq> ty"
  proof (atomize (full), cases "left < right")
    case True
    then show "(left \<le> m \<and> m \<le> right) \<and> (m = left \<or> n_type (stabs m) = ty)
        \<and> (\<forall>i. m < i \<longrightarrow> i \<le> right \<longrightarrow> n_type (stabs i) \<noteq> ty)"
      using scan stab_scan_ge[of "left + 1" right stabs ty] by (force simp: m_def)
  qed (use left in \<open>auto simp: m_def\<close>)
  have lo: "lo \<le> left" "lo \<le> k" using I(8) assms(2) by (auto simp: stabs_of_def)
  have "k \<le> m" using m(4)[of k] kr assms(2) by (force simp: stabs_of_def)
  then have "n_type (stabs m) = ty"
    using m(1,3) I(8) lo assms(2) by (auto simp: stabs_of_def)
  then have mS: "m \<in> ?S" using m lo I(2) by (simp add: stabs_of_def)
  show ?thesis
  proof (intro exI conjI)
    show "stab_binsearch stabs lo hi ty addr = (m, right)" by (rule res)
    show "n_value (stabs m) \<le> addr" using I(5)[OF mS] m(2) l by simp
    show "\<forall>i \<in> ?S. i \<le> m \<or> right < i"
    proof
      fix i assume "i \<in> ?S"
      then show "i \<le> m \<or> right < i" using m(4)[of i] by (cases "m < i \<and> i \<le> right") (auto simp: stabs_of_def)
    qed
    show "\<forall>i \<in> ?S. right < i \<longrightarrow> addr < n_value (stabs i)" using I(6) by blast
    show "right = hi \<or> right + 1 \<in> ?S" by (rule I(7))
  qed (use mS m I(2) in simp_all)
qed

text \<open>The table of the comment in the code.\<close>

definition demo_stabs :: "int \<Rightarrow> Stab" where
  "demo_stabs i = (let so = (\<lambda>v. \<lparr>n_strx = 0, n_type = N_SO, n_other = 0, n_desc = 0, n_value = v\<rparr>)
     in if i = 0 then so 0xf0100000 else if i = 13 then so 0xf0100040 else if i = 117 then so 0xf0100176
     else if i = 118 then so 0xf0100178 else if i = 555 then so 0xf0100652 else if i = 556 then so 0xf0100654
     else if i = 657 then so 0xf0100849
     else \<lparr>n_strx = 0, n_type = N_SLINE, n_other = 0, n_desc = 0, n_value = 0\<rparr>)"

lemma demo_stabs_of: "stabs_of demo_stabs N_SO 0 657 = {0, 13, 117, 118, 555, 556, 657}"
  by (auto simp: stabs_of_def demo_stabs_def N_SO_def N_SLINE_def Let_def split: if_splits)

theorem stab_binsearch_finds_witness: "stab_binsearch demo_stabs 0 657 N_SO 0xf0100184 = (118, 554)"
proof -
  have v: "n_value (demo_stabs 0) = 0xf0100000" "n_value (demo_stabs 13) = 0xf0100040"
    "n_value (demo_stabs 117) = 0xf0100176" "n_value (demo_stabs 118) = 0xf0100178"
    "n_value (demo_stabs 555) = 0xf0100652" "n_value (demo_stabs 556) = 0xf0100654"
    "n_value (demo_stabs 657) = 0xf0100849"
    by (simp_all add: demo_stabs_def Let_def)
  have so: "sorted_stabs demo_stabs N_SO 0 657" by (simp add: sorted_stabs_def demo_stabs_of v)
  have gap: "n_value (demo_stabs i) \<noteq> 0xf0100184 + 1" if "i \<in> stabs_of demo_stabs N_SO 0 657" for i
    using that by (auto simp: demo_stabs_of v)
  have k: "118 \<in> stabs_of demo_stabs N_SO 0 657" "n_value (demo_stabs 118) \<le> 0xf0100184"
    by (simp_all add: demo_stabs_of v)
  let ?S = "{0, 13, 117, 118, 555, 556, 657} :: int set"
  from stab_binsearch_finds[OF so k gap] obtain m r where
    res: "stab_binsearch demo_stabs 0 657 N_SO 0xf0100184 = (m, r)" and
    m: "m \<in> ?S" "m \<le> r" "n_value (demo_stabs m) \<le> 0xf0100184" and
    r: "\<forall>i \<in> ?S. i \<le> m \<or> r < i" "\<forall>i \<in> ?S. r < i \<longrightarrow> 0xf0100184 < n_value (demo_stabs i)" "r = 657 \<or> r + 1 \<in> ?S"
    unfolding demo_stabs_of[symmetric] by auto
  have "118 \<le> m \<or> r < 118" using r(1) by blast
  moreover have "\<not> r < 118" using r(2) v(4) by force
  ultimately have "m = 118" using m(1,3) v by auto
  moreover have "r = 554"
  proof -
    have "r < 555" using r(1) \<open>m = 118\<close> by auto
    then show ?thesis using r(3) m(2) \<open>m = 118\<close> by auto
  qed
  ultimately show ?thesis using res by simp
qed

section \<open>Where it goes wrong\<close>

text \<open>An exact match whose successor is one higher is missed: the later stab is returned.\<close>

definition close_stabs :: "int \<Rightarrow> Stab" where
  "close_stabs i = \<lparr>n_strx = 0, n_type = N_SLINE, n_other = 0, n_desc = 0, n_value = 100 + word_of_int i\<rparr>"

lemma stab_binsearch_skips_neighbour: "stab_binsearch close_stabs 0 1 N_SLINE 100 = (1, 1)"
  by (simp add: stab_binsearch_def stab_loop.simps[of close_stabs] stab_scan.simps[of close_stabs] close_stabs_def)

text \<open>An address before the first stab does not come back as an empty region.\<close>

lemma stab_binsearch_before_first: "stab_binsearch close_stabs 0 0 N_SLINE 50 = (- 1, - 1)"
  by (simp add: stab_binsearch_def stab_loop.simps[of close_stabs] stab_scan.simps[of close_stabs] close_stabs_def)

section \<open>debuginfo_eip\<close>

text \<open>Strings are addresses; \<open>unknown\<close> is that of \<open>"<unknown>"\<close>, \<open>rd\<close> reads memory.\<close>

record Eipdebuginfo =
  eip_file :: u32
  eip_line :: u32
  eip_fn_name :: u32
  eip_fn_namelen :: u32
  eip_fn_addr :: u32
  eip_fn_narg :: nat

record UserStabData =
  usd_stabs :: u32
  usd_stab_end :: u32
  usd_stabstr :: u32
  usd_stabstr_end :: u32

definition USTABDATA :: u32 where "USTABDATA = PTSIZE div 2"

definition rd32 :: "(u32 \<Rightarrow> u8) \<Rightarrow> u32 \<Rightarrow> u32" where
  "rd32 rd a = ucast (rd a) OR push_bit 8 (ucast (rd (a + 1))) OR push_bit 16 (ucast (rd (a + 2)))
     OR push_bit 24 (ucast (rd (a + 3)))"

definition stab_at :: "(u32 \<Rightarrow> u8) \<Rightarrow> u32 \<Rightarrow> int \<Rightarrow> Stab" where
  "stab_at rd stabs i = (let a = stabs + word_of_int (12 * i) in
     \<lparr>n_strx = rd32 rd a, n_type = rd (a + 4), n_other = rd (a + 5),
      n_desc = ucast (rd (a + 6)) OR push_bit 8 (ucast (rd (a + 7))), n_value = rd32 rd (a + 8)\<rparr>)"

text \<open>\<open>stab_end - stabs\<close> counts stabs, also where a length in bytes is meant.\<close>

definition stab_count :: "UserStabData \<Rightarrow> int" where
  "stab_count t = sint (usd_stab_end t - usd_stabs t) div 12"

definition user_stabs :: "(u32 \<Rightarrow> u8) \<Rightarrow> nat \<Rightarrow> kst \<Rightarrow> (UserStabData option \<times> kst) option" where
  "user_stabs rd pgdir s = do {
     (r, s) \<leftarrow> user_mem_check pgdir USTABDATA 16 0 s;
     if r \<noteq> 0 then Some (None, s)
     else do {
       let t = \<lparr>usd_stabs = rd32 rd USTABDATA, usd_stab_end = rd32 rd (USTABDATA + 4),
                usd_stabstr = rd32 rd (USTABDATA + 8), usd_stabstr_end = rd32 rd (USTABDATA + 12)\<rparr>;
       (r, s) \<leftarrow> user_mem_check pgdir (usd_stabs t) (word_of_int (stab_count t)) 0 s;
       if r \<noteq> 0 then Some (None, s)
       else do {
         (r, s) \<leftarrow> user_mem_check pgdir (usd_stabstr t) (usd_stabstr_end t - usd_stabstr t) 0 s;
         Some (if r \<noteq> 0 then None else Some t, s)
       }
     }
   }"

text \<open>The name of the file: back to the last included or main source file with a value.\<close>

function file_scan :: "(int \<Rightarrow> Stab) \<Rightarrow> int \<Rightarrow> int \<Rightarrow> int" where
  "file_scan stabs lfile lline =
     (if lfile \<le> lline \<and> n_type (stabs lline) \<noteq> N_SOL
         \<and> (n_type (stabs lline) \<noteq> N_SO \<or> n_value (stabs lline) = 0)
      then file_scan stabs lfile (lline - 1) else lline)"
  by pat_completeness auto
termination by (relation "measure (\<lambda>(stabs, lfile, lline). nat (lline - lfile + 1))") auto

function count_args :: "(int \<Rightarrow> Stab) \<Rightarrow> int \<Rightarrow> int \<Rightarrow> nat" where
  "count_args stabs lline rfun =
     (if lline < rfun \<and> n_type (stabs lline) = N_PSYM then 1 + count_args stabs (lline + 1) rfun else 0)"
  by pat_completeness auto
termination by (relation "measure (\<lambda>(stabs, lline, rfun). nat (rfun - lline))") auto

declare file_scan.simps [simp del] count_args.simps [simp del]

text \<open>The search in a table: the result and what has been stored in \<open>info\<close>.\<close>

definition debuginfo_search :: "(u32 \<Rightarrow> u8) \<Rightarrow> UserStabData \<Rightarrow> u32 \<Rightarrow> Eipdebuginfo \<Rightarrow> (int \<times> Eipdebuginfo) option" where
  "debuginfo_search rd t addr info =
     (let stabs = stab_at rd (usd_stabs t); strlen = usd_stabstr_end t - usd_stabstr t in
      if usd_stabstr_end t \<le> usd_stabstr t \<or> rd (usd_stabstr_end t - 1) \<noteq> 0 then Some (- 1, info)
      else case stab_binsearch stabs 0 (stab_count t - 1) N_SO addr of (lfile, rfile) \<Rightarrow>
        if lfile = 0 then Some (- 1, info)
        else case stab_binsearch stabs lfile rfile N_FUN addr of (lfun, rfun) \<Rightarrow> do {
          let found = lfun \<le> rfun;
          let info = (if found then
              (if n_strx (stabs lfun) < strlen then info\<lparr>eip_fn_name := usd_stabstr t + n_strx (stabs lfun)\<rparr> else info)
                \<lparr>eip_fn_addr := n_value (stabs lfun)\<rparr>
            else info\<lparr>eip_fn_addr := addr\<rparr>);
          let addr = (if found then addr - eip_fn_addr info else addr);
          colon \<leftarrow> strfind (eip_fn_name info) (of_char CHR '':'') (\<lambda>a. Some (rd a));
          let info = info\<lparr>eip_fn_namelen := colon - eip_fn_name info\<rparr>;
          (case stab_binsearch stabs (if found then lfun else lfile) (if found then rfun else rfile) N_SLINE addr of
             (lline, rline) \<Rightarrow> do {
               let info = (if lline \<le> rline then info\<lparr>eip_line := ucast (n_desc (stabs lline))\<rparr> else info);
               let lline = file_scan stabs lfile lline;
               let info = (if lfile \<le> lline \<and> n_strx (stabs lline) < strlen
                           then info\<lparr>eip_file := usd_stabstr t + n_strx (stabs lline)\<rparr> else info);
               let info = (if lfun < rfun then info\<lparr>eip_fn_narg := count_args stabs (lfun + 1) rfun\<rparr> else info);
               Some (0, info)
             })
        })"

text \<open>\<open>ktab\<close> is the kernel's own table.\<close>

definition debuginfo_eip :: "(u32 \<Rightarrow> u8) \<Rightarrow> u32 \<Rightarrow> UserStabData \<Rightarrow> nat \<Rightarrow> u32 \<Rightarrow> kst \<Rightarrow> (int \<times> Eipdebuginfo \<times> kst) option" where
  "debuginfo_eip rd unknown ktab pgdir addr s =
     (let info = \<lparr>eip_file = unknown, eip_line = 0, eip_fn_name = unknown, eip_fn_namelen = 9,
                  eip_fn_addr = addr, eip_fn_narg = 0\<rparr> in
      do {
        (t, s) \<leftarrow> (if ULIM \<le> addr then Some (Some ktab, s) else user_stabs rd pgdir s);
        (case t of
           None \<Rightarrow> Some (- 1, info, s)
         | Some t \<Rightarrow> do { (r, info) \<leftarrow> debuginfo_search rd t addr info; Some (r, info, s) })
      })"

text \<open>
  The permission 0 is granted by no page, so the tables of a program are never used: a program counter in
  user space has no debugging information.
\<close>

lemma user_stabs_never:
  assumes "user_stabs rd pgdir s = Some (t, u)"
  shows "t = None"
proof -
  have "ROUNDUP (USTABDATA + 16) PGSIZE = USTABDATA + PGSIZE"
    by (simp add: ROUNDUP_def ROUNDDOWN_def USTABDATA_def mmu_consts)
  moreover have "ROUNDDOWN USTABDATA PGSIZE = USTABDATA" "USTABDATA < USTABDATA + PGSIZE" "\<not> ULIM \<le> USTABDATA"
    by (simp_all add: ROUNDDOWN_def USTABDATA_def mmu_consts)
  ultimately have "user_mem_check pgdir USTABDATA 16 0 s = Some (r, v) \<Longrightarrow> r \<noteq> 0" for r v
    by (auto simp: user_mem_check_def user_mem_check_loop.simps[of pgdir USTABDATA] E_FAULT_def split: option.splits)
  then show ?thesis using assms by (auto simp: user_stabs_def bind_eq_Some_conv split: if_splits)
qed

end
