(* ===== verification/FdProps.thy ===== *)
theory FdProps
  imports Fd ForkProps
begin

text \<open>
  The descriptor table is the page tables: what \<open>fd_alloc\<close> and \<open>fd_lookup\<close> say in terms of them, and that
  \<open>readn\<close> comes back.
\<close>

section \<open>Addresses of descriptors\<close>

lemma INDEX2FD_page:
  assumes "i < MAXFD"
  shows "unat (INDEX2FD (int i)) = 0xD0000000 + i * 4096" "PDX (INDEX2FD (int i)) = PDX FDTABLE"
    "PGNUM (INDEX2FD (int i)) = 851968 + i" "PTX (INDEX2FD (int i)) = i" "PDX FDTABLE = 832"
proof -
  have i: "i < 32" using assms by (simp add: MAXFD_def)
  then have m: "unat (word_of_int (int i) * PGSIZE :: u32) = i * 4096"
    by (simp add: PGSIZE_def unat_word_ariths unat_of_nat take_bit_eq_mod)
  show u: "unat (INDEX2FD (int i)) = 0xD0000000 + i * 4096"
    using i unfolding INDEX2FD_def by (subst unat_word_ariths) (simp only: m, simp add: FDTABLE_def)
  show f: "PDX FDTABLE = 832" by (simp add: PDX_arith FDTABLE_def)
  have "(3489660928 + i * 4096) div 4194304 = 832" using i by simp
  then show "PDX (INDEX2FD (int i)) = PDX FDTABLE" unfolding PDX_arith[of "INDEX2FD (int i)"] u f by simp
  show "PGNUM (INDEX2FD (int i)) = 851968 + i" unfolding PGNUM_arith u by simp
  have "(3489660928 + i * 4096) div 4096 = 851968 + i" by simp
  moreover have "(851968 + i) mod 1024 = i" using i by (simp add: mod_add_eq[symmetric])
  ultimately show "PTX (INDEX2FD (int i)) = i" unfolding PTX_arith u by simp
qed

text \<open>A program that can read its own tables sees which descriptor pages are mapped.\<close>

lemma umapped_fd:
  assumes "self_mapped s (cr3 s)" and "i < MAXFD"
    and user: "pde_present s (cr3 s) (PDX FDTABLE) \<Longrightarrow> pmem s (cr3 s) (PDX FDTABLE) AND PTE_U \<noteq> 0"
  shows "umapped (INDEX2FD (int i)) s = Some (va_pte s (cr3 s) (INDEX2FD (int i)) AND PTE_P \<noteq> 0)"
proof -
  note I = INDEX2FD_page[OF assms(2)]
  have n: "851968 + i < 1048576" "(851968 + i) div 1024 = PDX FDTABLE" "(851968 + i) mod 1024 = i"
    using assms(2) by (simp_all add: I(5) MAXFD_def mod_add_eq[symmetric])
  have d: "uvpd (PDX FDTABLE) s = Some (pmem s (cr3 s) (PDX FDTABLE))"
    using uvpd_entry[OF assms(1)] by simp
  show ?thesis
  proof (cases "pde_present s (cr3 s) (PDX FDTABLE)")
    case True
    then have "uvpt (851968 + i) s = Some (pmem s (pt_frame s (cr3 s) (PDX FDTABLE)) i)"
      using uvpt_entry[OF assms(1) n(1)] user n by simp
    with True d I show ?thesis by (simp add: umapped_def va_pte_def pde_present_def)
  next
    case False
    with d I show ?thesis by (simp add: umapped_def va_pte_def) (simp add: pde_present_def)
  qed
qed

text \<open>\<open>fd_alloc\<close> finds the smallest descriptor whose page is not mapped, and fails with \<open>-E_MAX_OPEN\<close> and the
  descriptor 0 exactly when all 32 are in use; the table of open descriptors is the program's page table,
  read through its view at \<open>UVPT\<close>.
\<close>

theorem fd_alloc_lowest:
  assumes "self_mapped s (cr3 s)"
    and "pde_present s (cr3 s) (PDX FDTABLE) \<Longrightarrow> pmem s (cr3 s) (PDX FDTABLE) AND PTE_U \<noteq> 0"
  shows "fd_alloc s = Some (case List.find (\<lambda>i. va_pte s (cr3 s) (INDEX2FD (int i)) AND PTE_P = 0) [0..<MAXFD] of
      Some i \<Rightarrow> (0, INDEX2FD (int i)) | None \<Rightarrow> (- E_MAX_OPEN, 0))"
proof -
  have "fd_alloc_loop is s = Some (case List.find (\<lambda>i. va_pte s (cr3 s) (INDEX2FD (int i)) AND PTE_P = 0) is of
      Some i \<Rightarrow> (0, INDEX2FD (int i)) | None \<Rightarrow> (- E_MAX_OPEN, 0))" if "\<forall>i \<in> set is. i < MAXFD" for "is"
    using that by (induction "is") (simp_all add: umapped_fd[OF assms(1) _ assms(2)])
  then show ?thesis by (simp add: fd_alloc_def)
qed

text \<open>In the demonstration no descriptor is open.\<close>

theorem fd_alloc_lowest_witness: "fd_alloc demo_child = Some (0, 0xD0000000)"
proof -
  have map: "self_mapped demo_child (cr3 demo_child)"
    by (simp add: self_mapped_def demo_mem_def page2pa_def PTE_P_def PTE_U_def)
  have f: "PDX FDTABLE = 832" by (simp add: PDX_arith FDTABLE_def)
  have no: "\<not> pde_present demo_child (cr3 demo_child) (PDX FDTABLE)" by (simp add: demo_child_dirs f)
  have "va_pte demo_child 2 (INDEX2FD 0) = 0"
    using no INDEX2FD_page(2)[of 0] by (simp add: va_pte_def MAXFD_def)
  moreover have "[0..<MAXFD] = 0 # [1..<MAXFD]" by (simp add: MAXFD_def upt_conv_Cons)
  ultimately show ?thesis using fd_alloc_lowest[OF map] no by (simp add: INDEX2FD_def FDTABLE_def)
qed

section \<open>readn\<close>

lemma readn_loop_returns:
  assumes rd: "\<And>b k s. P s \<Longrightarrow> \<exists>m t. rd b k s = Some (m, t) \<and> m \<le> int (unat k) \<and> P t"
    and "unat tot \<le> unat n" and "P s" and "unat n < 2 ^ 31"
  shows "\<exists>r t. readn_loop rd buf n tot s = Some (r, t) \<and> r \<le> int (unat n) \<and> P t"
  using assms(2,3)
proof (induction "unat n - unat tot" arbitrary: tot s rule: less_induct)
  case less
  from rd[OF less.prems(2), of "buf + tot" "n - tot"] obtain m t where
    m: "rd (buf + tot) (n - tot) s = Some (m, t)" "m \<le> int (unat (n - tot))" "P t" by blast
  have sint: "sint tot = int (unat tot)" using less.prems assms(4) by (simp add: sint_cases)
  show ?case
  proof (cases "tot < n \<and> 0 < m")
    case True
    then have lt: "unat tot < unat n" by (simp add: word_less_nat_alt)
    then have le: "nat m \<le> unat n - unat tot"
      using m(2) True by (metis nat_int nat_mono unat_sub less_imp_le)
    have "unat (word_of_int m :: u32) = nat m"
      using True le assms(4) by (simp add: unsigned_of_int take_bit_int_eq_self)
    then have u: "unat (tot + word_of_int m) = unat tot + nat m"
      using le lt unsigned_less[of n, where 'a = nat] by (subst unat_word_ariths) simp
    have "\<exists>r t'. readn_loop rd buf n (tot + word_of_int m) t = Some (r, t') \<and> r \<le> int (unat n) \<and> P t'"
      by (rule less.hyps) (use u lt le True m(3) in auto)
    then show ?thesis using True m by (subst readn_loop.simps) auto
  next
    case False
    have "uint tot \<le> uint n" using less.prems(1) by (simp add: word_le_nat_alt flip: word_le_def)
    moreover have "m < 0 \<Longrightarrow> m \<le> int (unat n)" by linarith
    ultimately show ?thesis using False m less.prems sint by (subst readn_loop.simps) auto
  qed
qed

text \<open>C40: \<open>readn\<close> comes back.  If in the states \<open>P\<close> every single \<open>read\<close> comes back, in a state of \<open>P\<close> and with at
  most the number of bytes that it was asked for, then so does \<open>readn\<close>, however the bytes come in; \<open>n\<close>
  must fit an \<open>int\<close>.
\<close>

theorem readn_terminates:
  assumes "\<And>b k s. P s \<Longrightarrow> \<exists>m t. read_fd devtab fdnum b k s = Some (m, t) \<and> m \<le> int (unat k) \<and> P t"
    and "P s" and "unat n < 2 ^ 31"
  shows "\<exists>r t. readn devtab fdnum buf n s = Some (r, t) \<and> r \<le> int (unat n) \<and> P t"
  using readn_loop_returns[of P "read_fd devtab fdnum" 0 n s buf, OF assms(1)] assms(2,3) by (simp add: readn_def)

text \<open>A descriptor 0 whose device yields one byte at a time; its page is the one also mapped at \<open>0x800000\<close>.\<close>

definition demo_fd :: kst where
  "demo_fd = demo\<lparr>pmem := (demo_mem(2 := (demo_mem 2)(832 := 0x3007)))\<rparr>"

definition demo_dev :: dev where
  "demo_dev = \<lparr>dev_addr = 0, dev_id = 0, dev_name = ''demo'', dev_read = Some (\<lambda>fd buf n s. Some (min 1 (int (unat n)), s)),
     dev_write = None, dev_close = None, dev_stat = None, dev_trunc = None\<rparr>"

lemma demo_fd_simps: "cr3 demo_fd = 2" "pmem demo_fd 2 832 = 0x3007" "pmem demo_fd 3 0 = 0x4007" "pmem demo_fd 4 i = 0"
  "self_mapped demo_fd 2"
  by (simp_all add: demo_fd_def demo_mem_def self_mapped_def page2pa_def PTE_P_def PTE_U_def)

lemma demo_fd_page:
  assumes "PDX va = 832" and "PTX va = 0"
  shows "pde_present demo_fd 2 (PDX va)" "va_pte demo_fd 2 va = 0x4007"
  using assms demo_fd_simps by (simp_all add: va_pte_def pde_present_def pt_frame_def PTE_P_def PGNUM_arith PTE_ADDR_def)

lemma demo_fd_lookup: "fd_lookup 0 demo_fd = Some (0, Some 0xD0000000)"
proof -
  have f: "PDX FDTABLE = 832" "PDX (INDEX2FD 0) = 832" "PTX (INDEX2FD 0) = 0"
    using INDEX2FD_page[of 0] by (simp_all add: MAXFD_def)
  show ?thesis
    using umapped_fd[of demo_fd 0] demo_fd_simps demo_fd_page[OF f(2,3)] f
    by (simp add: fd_lookup_def MAXFD_def PTE_U_def PTE_P_def INDEX2FD_def FDTABLE_def)
qed

lemma demo_fd_load:
  assumes "va \<in> {0xD0000000, 0xD0000008}"
  shows "uload va demo_fd = Some 0"
proof -
  have a: "PDX va = 832" "PTX va = 0" "va AND 3 = 0" using assms by (auto simp: PDX_arith PTX_arith)
  note P = demo_fd_page[OF a(1,2)]
  have "hw_frame demo_fd 2 va False = Some 4"
    using P by (simp add: hw_frame_def pte_page_def PTE_P_def PGNUM_arith PTE_ADDR_def)
  from load_word_in_page[OF this a(3)] show ?thesis
    using P a demo_fd_simps by (simp add: uload_def user_page_def PTE_U_def)
qed

lemma demo_fd_read: "read_fd [demo_dev] 0 b k demo_fd = Some (min 1 (int (unat k)), demo_fd)"
  using demo_fd_load by (simp add: read_fd_def fd_dev_def demo_fd_lookup dev_lookup_def fd_dev_id_off_def fd_omode_off_def
      O_ACCMODE_def O_WRONLY_def) (simp add: demo_dev_def)

theorem readn_terminates_witness: "\<exists>r. readn [demo_dev] 0 0x1000 10 demo_fd = Some (r, demo_fd) \<and> r \<le> 10"
  using readn_terminates[of "\<lambda>s. s = demo_fd" "[demo_dev]" 0 demo_fd 10 "0x1000"] demo_fd_read by simp

end
