(* ===== verification/Pipe.thy ===== *)
theory Pipe
  imports Prelude "HOL-Library.Signed_Division" "HOL-Library.Sublist"
begin

text \<open>
  Pipes, \<open>lib/pipe.c\<close>: a reader in \<open>devpipe_read\<close> and a writer in \<open>devpipe_write\<close> on one shared \<open>struct Pipe\<close>,
  interleaved at every access to it.  There is no lock; the order of the accesses within each side is
  what makes the pipe work.  Whether \<open>_pipeisclosed\<close> says yes is left open: either answer may come at any
  time.  The positions are signed 32-bit integers (\<open>off_t\<close>); a step whose array index is negative is \<open>None\<close>.
\<close>

section \<open>The shared structure\<close>

record pipe =
  p_rpos :: u32
  p_wpos :: u32
  p_buf :: "u8 list"

definition PIPEBUFSIZ :: nat where "PIPEBUFSIZ = 32"

text \<open>\<open>pos % PIPEBUFSIZ\<close> with the remainder of C.\<close>

definition pipe_slot :: "u32 \<Rightarrow> nat option" where
  "pipe_slot pos = (let k = sint pos smod int PIPEBUFSIZ in if k < 0 then None else Some (nat k))"

text \<open>The test of \<open>devpipe_write\<close>; \<open>sizeof\<close> makes it unsigned.\<close>

definition pipe_full :: "u32 \<Rightarrow> u32 \<Rightarrow> bool" where
  "pipe_full wpos rpos \<longleftrightarrow> wpos \<ge> rpos + word_of_nat PIPEBUFSIZ"

section \<open>The reader\<close>

datatype rpc =
    RIdle
  | RFor      \<comment> \<open>\<open>i < n\<close>\<close>
  | RTest     \<comment> \<open>the inner loop reads \<open>p_rpos\<close>\<close>
  | RTestW    \<comment> \<open>and \<open>p_wpos\<close>\<close>
  | REmpty    \<comment> \<open>\<open>i > 0\<close>\<close>
  | RClosed   \<comment> \<open>\<open>_pipeisclosed\<close>\<close>
  | RYield    \<comment> \<open>\<open>sys_yield\<close>\<close>
  | RIdx      \<comment> \<open>reads \<open>p_rpos\<close> for the index\<close>
  | RByte     \<comment> \<open>reads \<open>p_buf\<close>\<close>
  | RInc      \<comment> \<open>\<open>p_rpos++\<close> reads \<open>p_rpos\<close>\<close>
  | RIncW     \<comment> \<open>and writes it\<close>

record reader =
  r_pc :: rpc
  r_n :: nat           \<comment> \<open>the argument \<open>n\<close>\<close>
  r_buf :: "u8 list"   \<comment> \<open>the buffer of the caller\<close>
  r_i :: nat
  r_reg :: u32
  r_ret :: nat         \<comment> \<open>the result of the last call\<close>

datatype event = Put u8 | Get u8

definition read_return :: "nat \<Rightarrow> reader \<Rightarrow> reader" where
  "read_return v r = r\<lparr>r_pc := RIdle, r_ret := v\<rparr>"

definition reader_step :: "bool \<Rightarrow> pipe \<Rightarrow> reader \<Rightarrow> (event list \<times> pipe \<times> reader) option" where
  "reader_step closed p r = (case r_pc r of
      RIdle \<Rightarrow> Some ([], p, r)
    | RFor \<Rightarrow> Some ([], p, if r_i r < r_n r then r\<lparr>r_pc := RTest\<rparr> else read_return (r_i r) r)
    | RTest \<Rightarrow> Some ([], p, r\<lparr>r_reg := p_rpos p, r_pc := RTestW\<rparr>)
    | RTestW \<Rightarrow> Some ([], p, r\<lparr>r_pc := if r_reg r = p_wpos p then REmpty else RIdx\<rparr>)
    | REmpty \<Rightarrow> Some ([], p, if r_i r > 0 then read_return (r_i r) r else r\<lparr>r_pc := RClosed\<rparr>)
    | RClosed \<Rightarrow> Some ([], p, if closed then read_return 0 r else r\<lparr>r_pc := RYield\<rparr>)
    | RYield \<Rightarrow> Some ([], p, r\<lparr>r_pc := RTest\<rparr>)
    | RIdx \<Rightarrow> Some ([], p, r\<lparr>r_reg := p_rpos p, r_pc := RByte\<rparr>)
    | RByte \<Rightarrow> do {
        k \<leftarrow> pipe_slot (r_reg r);
        Some ([], p, r\<lparr>r_buf := (r_buf r)[r_i r := p_buf p ! k], r_pc := RInc\<rparr>)
      }
    | RInc \<Rightarrow> Some ([], p, r\<lparr>r_reg := p_rpos p, r_pc := RIncW\<rparr>)
    | RIncW \<Rightarrow> Some ([Get (r_buf r ! r_i r)], p\<lparr>p_rpos := r_reg r + 1\<rparr>, r\<lparr>r_i := r_i r + 1, r_pc := RFor\<rparr>))"

definition read_call :: "u8 list \<Rightarrow> reader \<Rightarrow> reader" where
  "read_call vbuf r = r\<lparr>r_pc := RFor, r_n := length vbuf, r_buf := vbuf, r_i := 0\<rparr>"

section \<open>The writer\<close>

datatype wpc = WIdle | WFor | WTest | WTestR | WClosed | WYield | WIdx | WByte | WInc | WIncW

record writer =
  w_pc :: wpc
  w_data :: "u8 list"   \<comment> \<open>the \<open>n\<close> bytes of the caller\<close>
  w_i :: nat
  w_reg :: u32
  w_ret :: nat

definition write_return :: "nat \<Rightarrow> writer \<Rightarrow> writer" where
  "write_return v w = w\<lparr>w_pc := WIdle, w_ret := v\<rparr>"

definition writer_step :: "bool \<Rightarrow> pipe \<Rightarrow> writer \<Rightarrow> (event list \<times> pipe \<times> writer) option" where
  "writer_step closed p w = (case w_pc w of
      WIdle \<Rightarrow> Some ([], p, w)
    | WFor \<Rightarrow> Some ([], p, if w_i w < length (w_data w) then w\<lparr>w_pc := WTest\<rparr> else write_return (w_i w) w)
    | WTest \<Rightarrow> Some ([], p, w\<lparr>w_reg := p_wpos p, w_pc := WTestR\<rparr>)
    | WTestR \<Rightarrow> Some ([], p, w\<lparr>w_pc := if pipe_full (w_reg w) (p_rpos p) then WClosed else WIdx\<rparr>)
    | WClosed \<Rightarrow> Some ([], p, if closed then write_return 0 w else w\<lparr>w_pc := WYield\<rparr>)
    | WYield \<Rightarrow> Some ([], p, w\<lparr>w_pc := WTest\<rparr>)
    | WIdx \<Rightarrow> Some ([], p, w\<lparr>w_reg := p_wpos p, w_pc := WByte\<rparr>)
    | WByte \<Rightarrow> do {
        k \<leftarrow> pipe_slot (w_reg w);
        Some ([], p\<lparr>p_buf := (p_buf p)[k := w_data w ! w_i w]\<rparr>, w\<lparr>w_pc := WInc\<rparr>)
      }
    | WInc \<Rightarrow> Some ([], p, w\<lparr>w_reg := p_wpos p, w_pc := WIncW\<rparr>)
    | WIncW \<Rightarrow> Some ([Put (w_data w ! w_i w)], p\<lparr>p_wpos := w_reg w + 1\<rparr>, w\<lparr>w_i := w_i w + 1, w_pc := WFor\<rparr>))"

definition write_call :: "u8 list \<Rightarrow> writer \<Rightarrow> writer" where
  "write_call vbuf w = w\<lparr>w_pc := WFor, w_data := vbuf, w_i := 0\<rparr>"

section \<open>Runs\<close>

record pstate =
  pip :: pipe
  rdr :: reader
  wtr :: writer

text \<open>A page fresh from \<open>sys_page_alloc\<close> is all zeros.\<close>

definition new_pipe :: pipe where
  "new_pipe = \<lparr>p_rpos = 0, p_wpos = 0, p_buf = replicate PIPEBUFSIZ 0\<rparr>"

inductive pipe_run :: "event list \<Rightarrow> pstate \<Rightarrow> bool" where
  Start: "r_pc r = RIdle \<Longrightarrow> r_ret r = 0 \<Longrightarrow> w_pc w = WIdle \<Longrightarrow> pipe_run [] \<lparr>pip = new_pipe, rdr = r, wtr = w\<rparr>"
| CallRead: "pipe_run es s \<Longrightarrow> r_pc (rdr s) = RIdle \<Longrightarrow> pipe_run es (s\<lparr>rdr := read_call vbuf (rdr s)\<rparr>)"
| CallWrite: "pipe_run es s \<Longrightarrow> w_pc (wtr s) = WIdle \<Longrightarrow> pipe_run es (s\<lparr>wtr := write_call vbuf (wtr s)\<rparr>)"
| Read: "pipe_run es s \<Longrightarrow> reader_step closed (pip s) (rdr s) = Some (e, p, r)
    \<Longrightarrow> pipe_run (es @ e) (s\<lparr>pip := p, rdr := r\<rparr>)"
| Write: "pipe_run es s \<Longrightarrow> writer_step closed (pip s) (wtr s) = Some (e, p, w)
    \<Longrightarrow> pipe_run (es @ e) (s\<lparr>pip := p, wtr := w\<rparr>)"

definition put_bytes :: "event list \<Rightarrow> u8 list" where
  "put_bytes es = concat (map (\<lambda>e. case e of Put b \<Rightarrow> [b] | Get b \<Rightarrow> []) es)"

definition got_bytes :: "event list \<Rightarrow> u8 list" where
  "got_bytes es = concat (map (\<lambda>e. case e of Put b \<Rightarrow> [] | Get b \<Rightarrow> [b]) es)"

lemma bytes_simps [simp]:
  "put_bytes [] = []" "got_bytes [] = []"
  "put_bytes (es @ fs) = put_bytes es @ put_bytes fs" "got_bytes (es @ fs) = got_bytes es @ got_bytes fs"
  "put_bytes [Put b] = [b]" "put_bytes [Get b] = []" "got_bytes [Put b] = []" "got_bytes [Get b] = [b]"
  by (simp_all add: put_bytes_def got_bytes_def)

section \<open>The invariant\<close>

text \<open>\<open>ps\<close> and \<open>gs\<close> are the bytes put and taken so far.\<close>

definition buf_inv :: "pipe \<Rightarrow> u8 list \<Rightarrow> u8 list \<Rightarrow> bool" where
  "buf_inv p ps gs \<longleftrightarrow>
     unat (p_wpos p) = length ps \<and> unat (p_rpos p) = length gs \<and> length (p_buf p) = PIPEBUFSIZ
     \<and> length gs \<le> length ps \<and> length ps \<le> length gs + PIPEBUFSIZ \<and> gs = take (length gs) ps
     \<and> (\<forall>j. length gs \<le> j \<and> j < length ps \<longrightarrow> p_buf p ! (j mod PIPEBUFSIZ) = ps ! j)"

definition reader_inv :: "reader \<Rightarrow> pipe \<Rightarrow> u8 list \<Rightarrow> u8 list \<Rightarrow> bool" where
  "reader_inv r p ps gs \<longleftrightarrow>
     (if r_pc r = RIdle then r_ret r \<le> length (r_buf r) \<and> suffix (take (r_ret r) (r_buf r)) gs
      else r_i r \<le> r_n r \<and> length (r_buf r) = r_n r \<and> suffix (take (r_i r) (r_buf r)) gs)
     \<and> (r_pc r \<notin> {RIdle, RFor} \<longrightarrow> r_i r < r_n r)
     \<and> (r_pc r = RClosed \<longrightarrow> r_i r = 0)
     \<and> (r_pc r \<in> {RTestW, RByte, RIncW} \<longrightarrow> r_reg r = p_rpos p)
     \<and> (r_pc r \<in> {RIdx, RByte, RInc, RIncW} \<longrightarrow> length gs < length ps)
     \<and> (r_pc r \<in> {RInc, RIncW} \<longrightarrow> r_buf r ! r_i r = ps ! length gs)"

definition writer_inv :: "writer \<Rightarrow> pipe \<Rightarrow> u8 list \<Rightarrow> u8 list \<Rightarrow> bool" where
  "writer_inv w p ps gs \<longleftrightarrow>
     (w_pc w \<notin> {WIdle, WFor} \<longrightarrow> w_i w < length (w_data w))
     \<and> (w_pc w \<in> {WTestR, WByte, WIncW} \<longrightarrow> w_reg w = p_wpos p)
     \<and> (w_pc w \<in> {WIdx, WByte, WInc, WIncW} \<longrightarrow> length ps < length gs + PIPEBUFSIZ)
     \<and> (w_pc w \<in> {WInc, WIncW} \<longrightarrow> p_buf p ! (length ps mod PIPEBUFSIZ) = w_data w ! w_i w)"

lemma pipe_slot_small:
  assumes "unat pos < 2 ^ 31"
  shows "pipe_slot pos = Some (unat pos mod PIPEBUFSIZ)"
proof -
  define k where "k = unat pos"
  have "sint pos = int k" using assms by (simp add: sint_cases k_def)
  then show ?thesis unfolding k_def[symmetric]
    by (simp add: pipe_slot_def signed_modulo_int_def signed_divide_int_def PIPEBUFSIZ_def Let_def nat_mod_distrib not_less)
qed

lemma unat_add1: "unat x < 2 ^ 31 \<Longrightarrow> unat (x + 1 :: u32) = unat x + 1"
  by (simp add: unat_word_ariths)

lemma unat_add32: "unat x < 2 ^ 31 \<Longrightarrow> unat (x + word_of_nat PIPEBUFSIZ :: u32) = unat x + PIPEBUFSIZ"
  by (simp add: unat_word_ariths PIPEBUFSIZ_def)

lemma buf_invD:
  assumes "buf_inv p ps gs"
  shows "unat (p_wpos p) = length ps" "unat (p_rpos p) = length gs" "length (p_buf p) = PIPEBUFSIZ"
    "length gs \<le> length ps" "length ps \<le> length gs + PIPEBUFSIZ" "gs = take (length gs) ps"
    "\<And>j. length gs \<le> j \<Longrightarrow> j < length ps \<Longrightarrow> p_buf p ! (j mod PIPEBUFSIZ) = ps ! j"
  using assms unfolding buf_inv_def by blast+

text \<open>Taking a byte and storing one.\<close>

lemma buf_inv_get:
  assumes inv: "buf_inv p ps gs" and "length gs < length ps" and "length ps < 2 ^ 31"
  shows "buf_inv (p\<lparr>p_rpos := p_rpos p + 1\<rparr>) ps (gs @ [ps ! length gs])"
proof -
  note I = buf_invD[OF inv]
  have "unat (p_rpos p + 1) = length gs + 1" using I(2) assms(2,3) by (subst unat_add1) simp_all
  moreover have "gs @ [ps ! length gs] = take (Suc (length gs)) ps"
    using I(6) assms(2) by (metis take_Suc_conv_app_nth)
  ultimately show ?thesis using I(1,3-5,7) assms(2) unfolding buf_inv_def by simp
qed

lemma buf_inv_put:
  assumes inv: "buf_inv p ps gs" and "length ps < length gs + PIPEBUFSIZ" and "length ps < 2 ^ 31"
    and b: "p_buf p ! (length ps mod PIPEBUFSIZ) = b"
  shows "buf_inv (p\<lparr>p_wpos := p_wpos p + 1\<rparr>) (ps @ [b]) gs"
proof -
  note I = buf_invD[OF inv]
  have "unat (p_wpos p + 1) = length ps + 1" using I(1) assms(3) by (subst unat_add1) simp_all
  moreover have "p_buf p ! (j mod PIPEBUFSIZ) = (ps @ [b]) ! j" if "length gs \<le> j" "j < length ps + 1" for j
    using that I(7)[of j] b by (cases "j = length ps") (auto simp: nth_append)
  ultimately show ?thesis using I(2-6) assms(2) unfolding buf_inv_def by auto
qed

lemma buf_inv_store:
  assumes inv: "buf_inv p ps gs" and room: "length ps < length gs + PIPEBUFSIZ"
  shows "buf_inv (p\<lparr>p_buf := (p_buf p)[length ps mod PIPEBUFSIZ := b]\<rparr>) ps gs"
proof -
  note I = buf_invD[OF inv]
  have "length ps mod PIPEBUFSIZ \<noteq> j mod PIPEBUFSIZ" if "length gs \<le> j" "j < length ps" for j
  proof
    assume "length ps mod PIPEBUFSIZ = j mod PIPEBUFSIZ"
    then have "PIPEBUFSIZ dvd length ps - j" using that by (metis mod_eq_dvd_iff_nat less_imp_le)
    then show False using that room I(4) by (auto dest: dvd_imp_le)
  qed
  then show ?thesis using I unfolding buf_inv_def by simp
qed

text \<open>Every step of either side keeps the invariant, and no index is outside the array.\<close>

definition reader_keeps :: "bool \<Rightarrow> reader \<Rightarrow> pipe \<Rightarrow> writer \<Rightarrow> u8 list \<Rightarrow> u8 list \<Rightarrow> bool" where
  "reader_keeps closed r p w ps gs \<longleftrightarrow> (case reader_step closed p r of None \<Rightarrow> False
     | Some (e, q, r') \<Rightarrow> put_bytes e = [] \<and> buf_inv q ps (gs @ got_bytes e)
         \<and> reader_inv r' q ps (gs @ got_bytes e) \<and> writer_inv w q ps (gs @ got_bytes e))"

lemma reader_step_inv:
  assumes inv: "buf_inv p ps gs" and r: "reader_inv r p ps gs" and w: "writer_inv w p ps gs" and small: "length ps < 2 ^ 31"
  shows "reader_keeps closed r p w ps gs"
proof (cases "r_pc r")
  case RFor
  then show ?thesis using inv r w
    by (cases "r_i r < r_n r") (auto simp: reader_keeps_def reader_step_def reader_inv_def read_return_def)
next
  case RTestW
  have "r_reg r = p_rpos p" using r RTestW by (simp add: reader_inv_def)
  then have "r_reg r \<noteq> p_wpos p \<Longrightarrow> length gs < length ps"
    using buf_invD(1,2,4)[OF inv] by (metis le_neq_implies_less word_unat_eq_iff)
  then show ?thesis using inv r w RTestW
    by (simp add: reader_keeps_def reader_step_def) (simp add: reader_inv_def)
next
  case RByte
  have slot: "pipe_slot (p_rpos p) = Some (length gs mod PIPEBUFSIZ)"
    using pipe_slot_small[of "p_rpos p"] buf_invD(2,4)[OF inv] small by simp
  show ?thesis using RByte inv r w slot buf_invD(7)[OF inv, of "length gs"]
    by (simp add: reader_keeps_def reader_step_def reader_inv_def)
next
  case RIncW
  have lt: "length gs < length ps" and i: "r_i r < r_n r" "length (r_buf r) = r_n r"
    and b: "r_buf r ! r_i r = ps ! length gs" and reg: "r_reg r = p_rpos p" and suf: "suffix (take (r_i r) (r_buf r)) gs"
    using r RIncW by (simp_all add: reader_inv_def)
  have "suffix (take (Suc (r_i r)) (r_buf r)) (gs @ [ps ! length gs])"
    using suf i b by (simp add: take_Suc_conv_app_nth)
  moreover have "writer_inv w (p\<lparr>p_rpos := p_rpos p + 1\<rparr>) ps (gs @ [ps ! length gs])"
    using w by (simp add: writer_inv_def) linarith
  ultimately show ?thesis using RIncW buf_inv_get[OF inv lt small] reg b i
    by (simp add: reader_keeps_def reader_step_def reader_inv_def)
qed (use inv r w in \<open>simp_all add: reader_keeps_def reader_step_def reader_inv_def read_return_def\<close>)

definition writer_keeps :: "bool \<Rightarrow> writer \<Rightarrow> pipe \<Rightarrow> reader \<Rightarrow> u8 list \<Rightarrow> u8 list \<Rightarrow> bool" where
  "writer_keeps closed w p r ps gs \<longleftrightarrow> (case writer_step closed p w of None \<Rightarrow> False
     | Some (e, q, w') \<Rightarrow> got_bytes e = [] \<and> buf_inv q (ps @ put_bytes e) gs
         \<and> reader_inv r q (ps @ put_bytes e) gs \<and> writer_inv w' q (ps @ put_bytes e) gs)"

lemma writer_step_inv:
  assumes inv: "buf_inv p ps gs" and r: "reader_inv r p ps gs" and w: "writer_inv w p ps gs" and small: "length ps < 2 ^ 31"
  shows "writer_keeps closed w p r ps gs"
proof (cases "w_pc w")
  case WTestR
  have "unat (p_rpos p + word_of_nat PIPEBUFSIZ) = length gs + PIPEBUFSIZ"
    using buf_invD(2,4)[OF inv] small by (subst unat_add32) simp_all
  moreover have "w_reg w = p_wpos p" using w WTestR by (simp add: writer_inv_def)
  ultimately have "\<not> pipe_full (w_reg w) (p_rpos p) \<Longrightarrow> length ps < length gs + PIPEBUFSIZ"
    using buf_invD(1)[OF inv] by (simp add: pipe_full_def word_le_nat_alt)
  then show ?thesis using WTestR inv r w
    by (simp add: writer_keeps_def writer_step_def) (simp add: writer_inv_def)
next
  case WByte
  have slot: "pipe_slot (p_wpos p) = Some (length ps mod PIPEBUFSIZ)"
    using pipe_slot_small[of "p_wpos p"] buf_invD(1)[OF inv] small by simp
  have room: "length ps < length gs + PIPEBUFSIZ" using w WByte by (simp add: writer_inv_def)
  have "length ps mod PIPEBUFSIZ < PIPEBUFSIZ" by (simp add: PIPEBUFSIZ_def)
  moreover have "reader_inv r (p\<lparr>p_buf := b\<rparr>) ps gs" for b using r by (simp add: reader_inv_def)
  ultimately show ?thesis using WByte w slot buf_inv_store[OF inv room] buf_invD(3)[OF inv]
    by (simp add: writer_keeps_def writer_step_def writer_inv_def)
next
  case WIncW
  have room: "length ps < length gs + PIPEBUFSIZ" and b: "p_buf p ! (length ps mod PIPEBUFSIZ) = w_data w ! w_i w"
    and i: "w_i w < length (w_data w)" and reg: "w_reg w = p_wpos p" using w WIncW by (simp_all add: writer_inv_def)
  have "reader_inv r (p\<lparr>p_wpos := p_wpos p + 1\<rparr>) (ps @ [w_data w ! w_i w]) gs"
    using r unfolding reader_inv_def by (cases "r_pc r") (simp_all add: nth_append)
  then show ?thesis using WIncW buf_inv_put[OF inv room small b] reg i
    by (simp add: writer_keeps_def writer_step_def writer_inv_def)
qed (use inv r w in \<open>simp_all add: writer_keeps_def writer_step_def writer_inv_def write_return_def\<close>)

lemma pipe_run_inv:
  assumes "pipe_run es s" and "length (put_bytes es) < 2 ^ 31"
  shows "buf_inv (pip s) (put_bytes es) (got_bytes es) \<and> reader_inv (rdr s) (pip s) (put_bytes es) (got_bytes es)
    \<and> writer_inv (wtr s) (pip s) (put_bytes es) (got_bytes es)"
  using assms
proof (induction rule: pipe_run.induct)
  case (Start r w)
  then show ?case by (simp add: buf_inv_def reader_inv_def writer_inv_def new_pipe_def)
next
  case (CallRead es s vbuf)
  then show ?case by (simp add: reader_inv_def read_call_def)
next
  case (CallWrite es s vbuf)
  then show ?case by (simp add: writer_inv_def write_call_def)
next
  case (Read es s closed e p r)
  then have "length (put_bytes es) < 2 ^ 31" by simp
  with Read.IH have "reader_keeps closed (rdr s) (pip s) (wtr s) (put_bytes es) (got_bytes es)"
    using reader_step_inv by blast
  with Read.hyps(2) show ?case by (simp add: reader_keeps_def)
next
  case (Write es s closed e p w)
  then have "length (put_bytes es) < 2 ^ 31" by simp
  with Write.IH have "writer_keeps closed (wtr s) (pip s) (rdr s) (put_bytes es) (got_bytes es)"
    using writer_step_inv by blast
  with Write.hyps(2) show ?case by (simp add: writer_keeps_def)
qed

text \<open>C37: a pipe is a first-in first-out channel.  However reader and writer interleave, access by access, and
  whatever \<open>_pipeisclosed\<close> answers, the bytes taken are the first ones put, in order, and at most 32 are in
  between; the bytes that a finished \<open>read\<close> returned are the last ones taken; and neither side ever indexes
  outside the buffer.  This holds for the first \<open>2 ^ 31 - 1\<close> bytes, where the signed positions do not overflow.
\<close>

theorem pipe_bytes_in_order:
  assumes "pipe_run es s" and "length (put_bytes es) < 2 ^ 31"
  shows "got_bytes es = take (length (got_bytes es)) (put_bytes es)
    \<and> length (put_bytes es) \<le> length (got_bytes es) + 32
    \<and> (r_pc (rdr s) = RIdle \<longrightarrow> suffix (take (r_ret (rdr s)) (r_buf (rdr s))) (got_bytes es))
    \<and> reader_step closed (pip s) (rdr s) \<noteq> None \<and> writer_step closed (pip s) (wtr s) \<noteq> None"
proof -
  from pipe_run_inv[OF assms] have I: "buf_inv (pip s) (put_bytes es) (got_bytes es)"
    "reader_inv (rdr s) (pip s) (put_bytes es) (got_bytes es)" "writer_inv (wtr s) (pip s) (put_bytes es) (got_bytes es)"
    by auto
  note B = buf_invD(5,6)[OF I(1), unfolded PIPEBUFSIZ_def]
  have "reader_step closed (pip s) (rdr s) \<noteq> None" "writer_step closed (pip s) (wtr s) \<noteq> None"
    using reader_step_inv[OF I assms(2), of closed] writer_step_inv[OF I assms(2), of closed]
    by (auto simp: reader_keeps_def writer_keeps_def split: option.splits)
  then show ?thesis using B I(2) by (simp add: reader_inv_def)
qed

text \<open>After \<open>2 ^ 31\<close> bytes the next position is negative, and so is the index.\<close>

lemma pipe_slot_overflow: "pipe_slot (word_of_nat (2 ^ 31) + 1) = None"
  by (simp add: pipe_slot_def sint_cases signed_modulo_int_def signed_divide_int_def PIPEBUFSIZ_def)

text \<open>An executable scheduler: \<open>True\<close> lets the reader make a step, \<open>False\<close> the writer; nobody closes.\<close>

fun schedule :: "bool list \<Rightarrow> event list \<times> pstate \<Rightarrow> (event list \<times> pstate) option" where
  "schedule [] x = Some x"
| "schedule (True # bs) (es, s) = do {
     (e, p, r) \<leftarrow> reader_step False (pip s) (rdr s);
     schedule bs (es @ e, s\<lparr>pip := p, rdr := r\<rparr>)
   }"
| "schedule (False # bs) (es, s) = do {
     (e, p, w) \<leftarrow> writer_step False (pip s) (wtr s);
     schedule bs (es @ e, s\<lparr>pip := p, wtr := w\<rparr>)
   }"

lemma schedule_run: "pipe_run es s \<Longrightarrow> schedule bs (es, s) = Some (fs, t) \<Longrightarrow> pipe_run fs t"
proof (induction bs "(es, s)" arbitrary: es s rule: schedule.induct)
  case (2 bs es s)
  from 2(3) obtain e p r where st: "reader_step False (pip s) (rdr s) = Some (e, p, r)"
    and "schedule bs (es @ e, s\<lparr>pip := p, rdr := r\<rparr>) = Some (fs, t)" by (auto simp: bind_eq_Some_conv)
  with 2(1)[OF st refl refl] Read[OF 2(2) st] show ?case by blast
next
  case (3 bs es s)
  from 3(3) obtain e p w where st: "writer_step False (pip s) (wtr s) = Some (e, p, w)"
    and "schedule bs (es @ e, s\<lparr>pip := p, wtr := w\<rparr>) = Some (fs, t)" by (auto simp: bind_eq_Some_conv)
  with 3(1)[OF st refl refl] Write[OF 3(2) st] show ?case by blast
qed simp

text \<open>The reader starts on the empty pipe, the writer puts one byte, the reader takes it and returns.\<close>

definition demo_pipe :: pstate where
  "demo_pipe = \<lparr>pip = new_pipe,
     rdr = \<lparr>r_pc = RFor, r_n = 2, r_buf = [0, 0], r_i = 0, r_reg = 0, r_ret = 0\<rparr>,
     wtr = \<lparr>w_pc = WFor, w_data = [7], w_i = 0, w_reg = 0, w_ret = 0\<rparr>\<rparr>"

lemma demo_pipe_run: "pipe_run [] demo_pipe"
proof -
  have "pipe_run [] \<lparr>pip = new_pipe, rdr = \<lparr>r_pc = RIdle, r_n = 0, r_buf = [], r_i = 0, r_reg = 0, r_ret = 0\<rparr>,
     wtr = \<lparr>w_pc = WIdle, w_data = [], w_i = 0, w_reg = 0, w_ret = 0\<rparr>\<rparr>" (is "pipe_run _ ?s")
    by (rule Start) simp_all
  from CallRead[OF this, of "[0, 0]"]
  have "pipe_run [] (?s\<lparr>rdr := read_call [0, 0] (rdr ?s)\<rparr>)" by simp
  from CallWrite[OF this, of "[7]"] show ?thesis
    by (simp add: read_call_def write_call_def demo_pipe_def numeral_2_eq_2)
qed

definition demo_schedule :: "bool list" where
  "demo_schedule = replicate 4 True @ replicate 8 False @ replicate 12 True"

lemma new_pipe_simps: "p_rpos new_pipe = 0" "p_wpos new_pipe = 0" "p_buf new_pipe = replicate 32 0"
  "\<not> pipe_full 0 0" "pipe_slot 0 = Some 0"
  by (simp_all add: new_pipe_def PIPEBUFSIZ_def pipe_full_def pipe_slot_def)

lemma demo_pipe_end:
  "\<exists>t. schedule demo_schedule ([], demo_pipe) = Some ([Put 7, Get 7], t) \<and> r_pc (rdr t) = RIdle
     \<and> r_ret (rdr t) = 1 \<and> r_buf (rdr t) = [7, 0]"
  by (simp add: demo_schedule_def demo_pipe_def numeral_eq_Suc reader_step_def writer_step_def new_pipe_simps
      read_return_def)

theorem pipe_bytes_in_order_witness:
  "\<exists>es s. pipe_run es s \<and> put_bytes es = [7] \<and> length (got_bytes es) = 1 \<and> got_bytes es = [7]"
proof -
  from demo_pipe_end obtain t where t: "schedule demo_schedule ([], demo_pipe) = Some ([Put 7, Get 7], t)" by blast
  note run = schedule_run[OF demo_pipe_run t]
  have p: "put_bytes [Put 7, Get 7] = [7]" "length (got_bytes [Put 7, Get 7]) = 1"
    by (simp_all add: put_bytes_def got_bytes_def)
  from pipe_bytes_in_order[OF run] p have "got_bytes [Put 7, Get 7] = [7]" by simp
  with run p show ?thesis by blast
qed

end
