(* ===== verification/Spinlock.thy ===== *)
theory Spinlock
  imports Demo
begin

text \<open>
  The spin lock of \<open>kern/spinlock.c\<close> with \<open>DEBUG_SPINLOCK\<close>, which is how the kernel is built: any number
  of processors that call \<open>spin_lock\<close> and \<open>spin_unlock\<close> on one lock, interleaved at every access to the
  lock's memory.  The program counters say which access comes next.  The theory \<open>EnvTab\<close> takes the lock
  in one step (\<open>lock_kernel\<close>, \<open>unlock_kernel\<close>); that this is right is the refinement proved here.
\<close>

section \<open>The lock and the program counters\<close>

record spinlock =
  lk_locked :: u32
  lk_cpu :: "nat option"     \<comment> \<open>the processor holding the lock\<close>
  lk_pcs :: "u32 list"       \<comment> \<open>the call stack that locked it\<close>

text \<open>\<open>get_caller_pcs\<close>: the chain of saved frame pointers, at most ten, filled up with zeros.\<close>

fun caller_pcs :: "nat \<Rightarrow> u32 \<Rightarrow> (u32 \<Rightarrow> u32) \<Rightarrow> u32 list" where
  "caller_pcs 0 ebp rd = []"
| "caller_pcs (Suc n) ebp rd =
     (if ebp = 0 \<or> ebp < ULIM then replicate (Suc n) 0
      else rd (ebp + 4) # caller_pcs n (rd ebp) rd)"

definition get_caller_pcs :: "u32 \<Rightarrow> (u32 \<Rightarrow> u32) \<Rightarrow> u32 list" where
  "get_caller_pcs ebp rd = caller_pcs 10 ebp rd"

lemma length_get_caller_pcs: "length (get_caller_pcs ebp rd) = 10"
proof -
  have "length (caller_pcs n ebp rd) = n" for n
    by (induction n arbitrary: ebp) auto
  then show ?thesis by (simp add: get_caller_pcs_def)
qed

text \<open>Whether processor \<open>c\<close> holds the lock, in one piece.\<close>

definition holding :: "nat \<Rightarrow> spinlock \<Rightarrow> bool" where
  "holding c lk \<longleftrightarrow> lk_locked lk \<noteq> 0 \<and> lk_cpu lk = Some c"

definition spin_initlock :: "spinlock \<Rightarrow> spinlock" where
  "spin_initlock lk = lk\<lparr>lk_locked := 0, lk_cpu := None\<rparr>"

text \<open>The next access of a processor.\<close>

datatype pc =
    Outside      \<comment> \<open>neither in the lock's code nor holding the lock\<close>
  | LockTest     \<comment> \<open>\<open>spin_lock\<close>: \<open>holding\<close> reads \<open>locked\<close>\<close>
  | LockTestCpu  \<comment> \<open>\<open>holding\<close> reads \<open>cpu\<close>\<close>
  | Spin         \<comment> \<open>\<open>xchg(&lk->locked, 1)\<close>\<close>
  | SetCpu       \<comment> \<open>\<open>lk->cpu = thiscpu\<close>\<close>
  | SetPcs       \<comment> \<open>\<open>get_caller_pcs(lk->pcs)\<close>\<close>
  | Inside       \<comment> \<open>between \<open>spin_lock\<close> and \<open>spin_unlock\<close>\<close>
  | FreeTest     \<comment> \<open>\<open>spin_unlock\<close>: \<open>holding\<close> reads \<open>locked\<close>\<close>
  | FreeTestCpu  \<comment> \<open>\<open>holding\<close> reads \<open>cpu\<close>\<close>
  | ClearPcs     \<comment> \<open>\<open>lk->pcs[0] = 0\<close>\<close>
  | ClearCpu     \<comment> \<open>\<open>lk->cpu = 0\<close>\<close>
  | Release      \<comment> \<open>\<open>xchg(&lk->locked, 0)\<close>\<close>
  | Panic

record lstate =
  lk :: spinlock
  pcs :: "nat \<Rightarrow> pc"

abbreviation goto :: "nat \<Rightarrow> pc \<Rightarrow> lstate \<Rightarrow> lstate" where
  "goto c p s \<equiv> s\<lparr>pcs := (pcs s)(c := p)\<rparr>"

section \<open>The steps\<close>

text \<open>The frame pointers and stacks are arbitrary: \<open>xs\<close> is any call stack recorded.\<close>

inductive spin_step :: "nat \<Rightarrow> lstate \<Rightarrow> lstate \<Rightarrow> bool" where
  CallLock: "pcs s c = Outside \<Longrightarrow> spin_step c s (goto c LockTest s)"
| LockTest: "pcs s c = LockTest \<Longrightarrow> spin_step c s (goto c (if lk_locked (lk s) \<noteq> 0 then LockTestCpu else Spin) s)"
| LockTestCpu: "pcs s c = LockTestCpu \<Longrightarrow> spin_step c s (goto c (if lk_cpu (lk s) = Some c then Panic else Spin) s)"
| Xchg: "pcs s c = Spin \<Longrightarrow>
    spin_step c s (goto c (if lk_locked (lk s) \<noteq> 0 then Spin else SetCpu) (s\<lparr>lk := (lk s)\<lparr>lk_locked := 1\<rparr>\<rparr>))"
| SetCpu: "pcs s c = SetCpu \<Longrightarrow> spin_step c s (goto c SetPcs (s\<lparr>lk := (lk s)\<lparr>lk_cpu := Some c\<rparr>\<rparr>))"
| SetPcs: "pcs s c = SetPcs \<Longrightarrow> spin_step c s (goto c Inside (s\<lparr>lk := (lk s)\<lparr>lk_pcs := get_caller_pcs ebp rd\<rparr>\<rparr>))"
| CallUnlock: "pcs s c = Inside \<Longrightarrow> spin_step c s (goto c FreeTest s)"
| FreeTest: "pcs s c = FreeTest \<Longrightarrow> spin_step c s (goto c (if lk_locked (lk s) \<noteq> 0 then FreeTestCpu else Panic) s)"
| FreeTestCpu: "pcs s c = FreeTestCpu \<Longrightarrow> spin_step c s (goto c (if lk_cpu (lk s) = Some c then ClearPcs else Panic) s)"
| ClearPcs: "pcs s c = ClearPcs \<Longrightarrow> spin_step c s (goto c ClearCpu (s\<lparr>lk := (lk s)\<lparr>lk_pcs := (lk_pcs (lk s))[0 := 0]\<rparr>\<rparr>))"
| ClearCpu: "pcs s c = ClearCpu \<Longrightarrow> spin_step c s (goto c Release (s\<lparr>lk := (lk s)\<lparr>lk_cpu := None\<rparr>\<rparr>))"
| Release: "pcs s c = Release \<Longrightarrow> spin_step c s (goto c Outside (s\<lparr>lk := (lk s)\<lparr>lk_locked := 0\<rparr>\<rparr>))"

inductive_cases spin_stepE: "spin_step c s t"
inductive_simps spin_step_simp: "spin_step c s t"

text \<open>All the interleavings from a fresh lock.\<close>

inductive spin_reach :: "lstate \<Rightarrow> bool" where
  Init: "spin_reach \<lparr>lk = spin_initlock l, pcs = (\<lambda>_. Outside)\<rparr>"
| Step: "spin_reach s \<Longrightarrow> spin_step c s t \<Longrightarrow> spin_reach t"

section \<open>Mutual exclusion\<close>

text \<open>Where the lock is held, and where the debugging information names the holder.\<close>

definition holds_lock :: "pc \<Rightarrow> bool" where
  "holds_lock p \<longleftrightarrow> p \<in> {SetCpu, SetPcs, Inside, FreeTest, FreeTestCpu, ClearPcs, ClearCpu, Release}"

definition owns_cpu :: "pc \<Rightarrow> bool" where
  "owns_cpu p \<longleftrightarrow> p \<in> {SetPcs, Inside, FreeTest, FreeTestCpu, ClearPcs, ClearCpu}"

lemmas pc_kinds = holds_lock_def owns_cpu_def

text \<open>\<open>lock_inv s h\<close>: \<open>h\<close> is the processor that holds the lock, if any.\<close>

definition lock_inv :: "lstate \<Rightarrow> nat option \<Rightarrow> bool" where
  "lock_inv s h \<longleftrightarrow>
     (\<forall>c. pcs s c \<noteq> Panic)
   \<and> (\<forall>c. holds_lock (pcs s c) \<longleftrightarrow> h = Some c)
   \<and> (lk_locked (lk s) = 0 \<longleftrightarrow> h = None)
   \<and> (\<forall>c. lk_cpu (lk s) = Some c \<longleftrightarrow> owns_cpu (pcs s c))"

lemma lock_inv_init: "lock_inv \<lparr>lk = spin_initlock l, pcs = (\<lambda>_. Outside)\<rparr> None"
  by (simp add: lock_inv_def pc_kinds spin_initlock_def)

lemma lock_invD:
  assumes "lock_inv s h"
  shows "pcs s c \<noteq> Panic" and "holds_lock (pcs s c) \<longleftrightarrow> h = Some c"
    and "lk_locked (lk s) = 0 \<longleftrightarrow> h = None" and "lk_cpu (lk s) = Some c \<longleftrightarrow> owns_cpu (pcs s c)"
  using assms by (auto simp: lock_inv_def)

lemma owns_holds: "owns_cpu p \<Longrightarrow> holds_lock p"
  by (auto simp: pc_kinds)

text \<open>A step that neither takes nor gives up the lock, and leaves its fields alone.\<close>

lemma lock_inv_goto:
  assumes "lock_inv s h" and "p \<noteq> Panic"
    and "holds_lock p = holds_lock (pcs s c)" and "owns_cpu p = owns_cpu (pcs s c)"
    and "lk_locked l = 0 \<longleftrightarrow> lk_locked (lk s) = 0" and "lk_cpu l = lk_cpu (lk s)"
  shows "lock_inv (s\<lparr>lk := l, pcs := (pcs s)(c := p)\<rparr>) h"
  using assms by (auto simp: lock_inv_def)

lemma lock_inv_stay:
  assumes "lock_inv s h" and "p \<noteq> Panic"
    and "holds_lock p = holds_lock (pcs s c)" and "owns_cpu p = owns_cpu (pcs s c)"
  shows "lock_inv (goto c p s) h"
  using lock_inv_goto[where l = "lk s", OF assms] by simp

text \<open>One step of processor \<open>c\<close>: nothing happens to the lock, or \<open>c\<close> takes it when it is free, or \<open>c\<close> gives it
  up.\<close>

definition lock_move :: "nat \<Rightarrow> nat option \<Rightarrow> nat option \<Rightarrow> bool" where
  "lock_move c h h' \<longleftrightarrow> h' = h \<or> h = None \<and> h' = Some c \<or> h = Some c \<and> h' = None"

lemma lock_inv_step:
  assumes "spin_step c s t" and inv: "lock_inv s h"
  shows "\<exists>h'. lock_inv t h' \<and> lock_move c h h'"
proof -
  note D = lock_invD(1,2,4)[OF inv, of c] lock_invD(3)[OF inv]
  have stay: "lock_inv t h \<Longrightarrow> ?thesis" by (auto simp: lock_move_def)
  have other: "d \<noteq> c \<Longrightarrow> h = Some c \<Longrightarrow> \<not> owns_cpu (pcs s d)" for d
    using owns_holds[of "pcs s d"] lock_invD(2)[OF inv, of d] by auto
  from assms(1) show ?thesis
  proof (cases rule: spin_step.cases)
    case LockTestCpu
    then have "t = goto c Spin s" using D by (simp add: pc_kinds)
    with LockTestCpu show ?thesis using lock_inv_stay[OF inv, of Spin c] by (intro stay) (simp add: pc_kinds)
  next
    case Xchg
    show ?thesis
    proof (cases "lk_locked (lk s) = 0")
      case True
      then have h: "h = None" using D by simp
      have "lock_inv t (Some c)" unfolding lock_inv_def
      proof (intro conjI allI)
        fix d
        note E = lock_invD(1,2,4)[OF inv, of d]
        show "pcs t d \<noteq> Panic" "holds_lock (pcs t d) = (Some c = Some d)" "(lk_cpu (lk t) = Some d) = owns_cpu (pcs t d)"
          using E D Xchg True h by (auto simp: pc_kinds)
      qed (use Xchg True in simp)
      then show ?thesis using h by (auto simp: lock_move_def)
    next
      case False
      with Xchg have "t = s\<lparr>lk := (lk s)\<lparr>lk_locked := 1\<rparr>, pcs := (pcs s)(c := Spin)\<rparr>" by simp
      with Xchg False show ?thesis using lock_inv_goto[OF inv, of Spin c "(lk s)\<lparr>lk_locked := 1\<rparr>"]
        by (intro stay) (simp add: pc_kinds)
    qed
  next
    case SetCpu
    have h: "h = Some c" using D SetCpu by (simp add: holds_lock_def)
    have "lock_inv t h" unfolding lock_inv_def
    proof (intro conjI allI)
      fix d
      show "(lk_cpu (lk t) = Some d) = owns_cpu (pcs t d)"
        using other[of d] h SetCpu by (cases "d = c") (simp_all add: owns_cpu_def)
      show "pcs t d \<noteq> Panic" "holds_lock (pcs t d) = (h = Some d)"
        using lock_invD(1,2)[OF inv, of d] h SetCpu by (cases "d = c"; simp add: holds_lock_def)+
    qed (use SetCpu D in simp)
    then show ?thesis by (rule stay)
  next
    case FreeTest
    then have "h = Some c" using D by (simp add: holds_lock_def)
    with FreeTest D have "t = goto c FreeTestCpu s" by simp
    with FreeTest show ?thesis using lock_inv_stay[OF inv, of FreeTestCpu c] by (intro stay) (simp add: pc_kinds)
  next
    case FreeTestCpu
    then have "t = goto c ClearPcs s" using D by (simp add: pc_kinds)
    with FreeTestCpu show ?thesis using lock_inv_stay[OF inv, of ClearPcs c] by (intro stay) (simp add: pc_kinds)
  next
    case ClearCpu
    have h: "h = Some c" using D ClearCpu by (simp add: holds_lock_def)
    have "lock_inv t h" unfolding lock_inv_def
    proof (intro conjI allI)
      fix d
      show "(lk_cpu (lk t) = Some d) = owns_cpu (pcs t d)"
        using other[of d] h ClearCpu by (cases "d = c") (simp_all add: owns_cpu_def)
      show "pcs t d \<noteq> Panic" "holds_lock (pcs t d) = (h = Some d)"
        using lock_invD(1,2)[OF inv, of d] h ClearCpu by (cases "d = c"; simp add: holds_lock_def)+
    qed (use ClearCpu D in simp)
    then show ?thesis by (rule stay)
  next
    case Release
    have h: "h = Some c" using D Release by (simp add: holds_lock_def)
    have "lock_inv t None" unfolding lock_inv_def
    proof (intro conjI allI)
      fix d
      note E = lock_invD(1,2,4)[OF inv, of d]
      show "pcs t d \<noteq> Panic" "holds_lock (pcs t d) = (None = Some d)" using E D Release h by (auto simp: pc_kinds)
      show "(lk_cpu (lk t) = Some d) = owns_cpu (pcs t d)"
        using E D Release by (auto simp: owns_cpu_def)
    qed (use Release in simp)
    then show ?thesis using h by (auto simp: lock_move_def)
  next
    case CallLock
    then show ?thesis using lock_inv_stay[OF inv, of LockTest c] by (intro stay) (simp add: pc_kinds)
  next
    case LockTest
    then show ?thesis using lock_inv_stay[OF inv, of LockTestCpu c] lock_inv_stay[OF inv, of Spin c]
      by (intro stay) (simp add: pc_kinds)
  next
    case (SetPcs ebp rd)
    then show ?thesis using lock_inv_goto[OF inv, of Inside c "(lk s)\<lparr>lk_pcs := get_caller_pcs ebp rd\<rparr>"]
      by (intro stay) (simp add: pc_kinds)
  next
    case CallUnlock
    then show ?thesis using lock_inv_stay[OF inv, of FreeTest c] by (intro stay) (simp add: pc_kinds)
  next
    case ClearPcs
    then show ?thesis using lock_inv_goto[OF inv, of ClearCpu c "(lk s)\<lparr>lk_pcs := (lk_pcs (lk s))[0 := 0]\<rparr>"]
      by (intro stay) (simp add: pc_kinds)
  qed
qed

lemma spin_reach_inv: "spin_reach s \<Longrightarrow> \<exists>h. lock_inv s h"
proof (induction rule: spin_reach.induct)
  case (Init l)
  then show ?case using lock_inv_init by blast
next
  case (Step s c t)
  then show ?case using lock_inv_step by blast
qed

text \<open>C36: the lock excludes.  However the processors are interleaved, from a fresh lock no two of them are
  between \<open>spin_lock\<close> and \<open>spin_unlock\<close> at once, the one that is there is the one the lock names as its
  holder, and neither of the two checks of \<open>holding\<close> ever panics, although each reads \<open>locked\<close> and \<open>cpu\<close>
  without holding the lock.\<close>

theorem spin_mutual_exclusion:
  assumes "spin_reach s"
  shows "pcs s c \<noteq> Panic \<and> (pcs s c = Inside \<longrightarrow> holding c (lk s) \<and> (\<forall>d. pcs s d = Inside \<longrightarrow> d = c))"
proof -
  from spin_reach_inv[OF assms] obtain h where inv: "lock_inv s h" by blast
  have "pcs s d = Inside \<Longrightarrow> h = Some d \<and> holding d (lk s)" for d
    using lock_invD(2,4)[OF inv, of d] lock_invD(3)[OF inv] by (simp add: pc_kinds holding_def)
  then show ?thesis using lock_invD(1)[OF inv, of c] by (metis option.inject)
qed

text \<open>Processor 0 holds the lock while processor 1 spins for it.\<close>

lemma demo_contention:
  "\<exists>s. spin_reach s \<and> pcs s 0 = Inside \<and> pcs s 1 = Spin"
proof -
  obtain s where s: "spin_reach s" "pcs s 0 = Outside" "pcs s 1 = Outside" "lk_locked (lk s) = 0"
    using spin_reach.Init[of "\<lparr>lk_locked = 7, lk_cpu = None, lk_pcs = []\<rparr>"]
    by (auto simp: spin_initlock_def)
  from Step[OF s(1) CallLock[OF s(2)]] s obtain s where s: "spin_reach s" "pcs s 0 = LockTest" "pcs s 1 = Outside" "lk_locked (lk s) = 0"
    by auto
  from Step[OF s(1) spin_step.LockTest[OF s(2)]] s obtain s where s: "spin_reach s" "pcs s 0 = Spin" "pcs s 1 = Outside" "lk_locked (lk s) = 0"
    by auto
  from Step[OF s(1) CallLock[OF s(3)]] s obtain s where s: "spin_reach s" "pcs s 0 = Spin" "pcs s 1 = LockTest" "lk_locked (lk s) = 0"
    by auto
  from Step[OF s(1) spin_step.LockTest[OF s(3)]] s obtain s where s: "spin_reach s" "pcs s 0 = Spin" "pcs s 1 = Spin" "lk_locked (lk s) = 0"
    by auto
  from Step[OF s(1) Xchg[OF s(2)]] s obtain s where s: "spin_reach s" "pcs s 0 = SetCpu" "pcs s 1 = Spin"
    by auto
  from Step[OF s(1) spin_step.SetCpu[OF s(2)]] s obtain s where s: "spin_reach s" "pcs s 0 = SetPcs" "pcs s 1 = Spin"
    by auto
  from Step[OF s(1) spin_step.SetPcs[OF s(2), of 0 "\<lambda>_. 0"]] s show ?thesis by auto
qed

theorem spin_mutual_exclusion_witness:
  "\<exists>s. spin_reach s \<and> pcs s 0 = Inside \<and> pcs s 1 = Spin \<and> holding 0 (lk s)"
  using demo_contention spin_mutual_exclusion[of _ 0] by blast

text \<open>\<open>held s h\<close>: the lock is held by \<open>h\<close>; the abstraction to the field \<open>klock\<close> of the kernel's state.\<close>

definition held :: "lstate \<Rightarrow> nat option \<Rightarrow> bool" where
  "held s h \<longleftrightarrow> (\<forall>c. holds_lock (pcs s c) \<longleftrightarrow> h = Some c)"

lemma held_unique: "held s h \<Longrightarrow> held s h' \<Longrightarrow> h = h'"
  by (cases h; cases h') (auto simp: held_def)

text \<open>C35: the spin lock implements the atomic lock.  Every access of a processor to the lock, in any
  reachable state, either leaves the holder unchanged or is one call of \<open>lock_kernel\<close> or of \<open>unlock_kernel\<close>
  of the kernel model by that processor, and that call does not panic.\<close>

theorem spin_refines_kernel_lock:
  assumes "spin_reach s" and "spin_step (this_cpu k) s t" and "held s (klock k)"
  shows "\<exists>h. held t h \<and> (h = klock k \<or> lock_kernel k = Some (k\<lparr>klock := h\<rparr>) \<or> unlock_kernel k = Some (k\<lparr>klock := h\<rparr>))"
proof -
  from spin_reach_inv[OF assms(1)] obtain h where inv: "lock_inv s h" by blast
  then have "held s h" by (auto simp: held_def lock_inv_def)
  then have h: "h = klock k" using assms(3) held_unique by blast
  from lock_inv_step[OF assms(2) inv] obtain h' where "lock_inv t h'" "lock_move (this_cpu k) h h'" by blast
  then show ?thesis unfolding h
    by (intro exI[of _ h']) (auto simp: held_def lock_inv_def lock_move_def lock_kernel_def unlock_kernel_def)
qed


theorem spin_refines_kernel_lock_witness:
  "\<exists>s (k :: kst). spin_reach s \<and> held s (klock k) \<and> klock k = Some 0 \<and> (\<exists>t. spin_step (this_cpu k) s t \<and> (\<exists>h. held t h))"
proof -
  from demo_contention obtain s where s: "spin_reach s" "pcs s 0 = Inside" "pcs s 1 = Spin" by blast
  obtain k :: kst where k: "klock k = Some 0" "this_cpu k = 1"
    using that[of "demo\<lparr>klock := Some 0, this_cpu := 1\<rparr>"] by simp
  from spin_reach_inv[OF s(1)] obtain h where inv: "lock_inv s h" by blast
  then have "h = Some 0" using lock_invD(2)[OF inv, of 0] s(2) by (simp add: holds_lock_def)
  then have held: "held s (klock k)" using inv k by (auto simp: held_def lock_inv_def)
  obtain t where t: "spin_step (this_cpu k) s t" using Xchg[OF s(3)] k by auto
  from spin_refines_kernel_lock[OF s(1) t held] s(1) held k(1) t show ?thesis by (intro exI[of _ s] exI[of _ k]) blast
qed

end
