(* ===== verification/MemProps.thy ===== *)
theory MemProps
  imports Demo
begin

text \<open>
  Properties of the physical page allocator, of the page tables and of the checks of user
  pointers (\<open>kern/pmap.c\<close>), each with a witness at the state \<open>demo\<close>.
\<close>

section \<open>The page allocator\<close>

text \<open>\<open>page_alloc(ALLOC_ZERO)\<close> takes the first page of the free list, with its frame zeroed;
  the allocator's invariant, the other frames and all reference counts are kept.\<close>

theorem page_alloc_gives:
  assumes "pages_inv s" and "free_pages s = p # ps"
  shows "\<exists>t. page_alloc ALLOC_ZERO s = Some (Some p, t) \<and> pages_inv t \<and> free_pages t = ps
     \<and> (\<forall>j. pmem t p j = 0) \<and> (\<forall>f j. f \<noteq> p \<longrightarrow> pmem t f j = pmem s f j)
     \<and> (\<forall>q. pp_ref (pages t ! q) = pp_ref (pages s ! q)) \<and> pp_link (pages t ! p) = None"
proof -
  have "p < length (pages s)" using assms pages_invD(1,7)[OF assms(1)] by simp
  then show ?thesis
    using page_alloc_Cons[OF assms, of ALLOC_ZERO] by (auto simp: ALLOC_ZERO_def nth_update_if)
qed

theorem page_alloc_gives_witness:
  "\<exists>t. page_alloc ALLOC_ZERO demo = Some (Some 5, t) \<and> pages_inv t \<and> free_pages t = [6..<16]
     \<and> (\<forall>j. pmem t 5 j = 0) \<and> (\<forall>f j. f \<noteq> 5 \<longrightarrow> pmem t f j = pmem demo f j)
     \<and> (\<forall>q. pp_ref (pages t ! q) = pp_ref (pages demo ! q)) \<and> pp_link (pages t ! 5) = None"
  by (rule page_alloc_gives[OF demo_pages_inv]) (simp add: demo_free_pages)

text \<open>C17: any number of pages that the free list can supply are handed out without repetition, and
  giving them back in the reverse order restores the free list.\<close>

theorem page_alloc_free_cycle:
  assumes "pages_inv s" and "n \<le> length (free_pages s)"
  shows "\<exists>ps s1 s2. pa.alloc_n fl n s = Some (ps, s1) \<and> distinct ps \<and> length ps = n
     \<and> pa.free_n (rev ps) s1 = Some s2 \<and> pages_inv s2 \<and> free_pages s2 = free_pages s"
  using pa.alloc_free_n[OF assms, of fl] pa.alloc_n_distinct[OF assms, of fl] by auto

theorem page_alloc_free_cycle_witness:
  "\<exists>ps s1 s2. pa.alloc_n ALLOC_ZERO 11 demo = Some (ps, s1) \<and> distinct ps \<and> length ps = 11
     \<and> pa.free_n (rev ps) s1 = Some s2 \<and> pages_inv s2 \<and> free_pages s2 = free_pages demo"
  by (rule page_alloc_free_cycle[OF demo_pages_inv]) (simp add: demo_free_pages)

text \<open>After \<open>page_init\<close> the free list holds exactly the frames above the end of the boot
  allocations and those below the I/O hole, without frame 0 and without the frame that receives
  the start-up code of the other processors.\<close>

theorem page_init_free_list:
  assumes len: "length (pages s) = npages s" "npages s \<le> 2 ^ 20"
    and zero: "\<forall>i < npages s. pages s ! i = \<lparr>pp_link = None, pp_ref = 0\<rparr>" "page_free_list s = None"
    and nf: "nextfree s \<ge> KERNBASE"
  shows "\<exists>t. page_init kend s = Some t \<and> pages_inv t \<and> pmem t = pmem s
     \<and> (\<forall>i < npages s. i \<in> set (free_pages t) \<longleftrightarrow>
          i \<noteq> 0 \<and> i \<noteq> 7 \<and> (i < 160 \<or> i * 4096 > unat (nextfree s - KERNBASE)))"
proof -
  let ?pe = "nextfree s - KERNBASE"
  let ?t = "fold (page_init_step ?pe) [0..<npages s] s"
  have nz: "nextfree s \<noteq> 0" using nf by (auto simp: mmu_consts)
  have t: "page_init kend s = Some ?t"
    using nz nf by (auto simp: page_init_def boot_alloc_def PADDR_kva_def Let_def)
  note F = page_init_fold[OF len(1) zero, of "npages s" ?pe]
  let ?xs = "rev (filter (init_free ?pe (npages s)) [0..<npages s])"
  have len': "length (pages ?t) = npages ?t" "npages ?t \<le> 2 ^ 20" using len by simp_all
  have ch: "chain pp_link (pages ?t) (page_free_list ?t) ?xs" using F by simp
  have rf: "pp_ref (pages ?t ! i) = 0" if "i \<in> set ?xs" for i using F that by simp
  have lk: "pp_link (pages ?t ! i) = None" if "i < npages ?t" "i \<notin> set ?xs" for i using F that by simp
  have I: "pages_inv ?t" "free_pages ?t = ?xs"
    using pages_invI[OF len' ch _ rf lk] by auto
  have m: "pmem ?t = pmem s"
    by (rule fold_invariant[where P = "\<lambda>t. pmem t = pmem s" and Q = "\<lambda>_. True"]) (simp_all add: page_init_step_eq)
  have "init_free ?pe (npages s) i \<longleftrightarrow> i \<noteq> 0 \<and> i \<noteq> 7 \<and> (i < 160 \<or> i * 4096 > unat ?pe)" if i: "i < npages s" for i
  proof -
    have i20: "i < 2 ^ 20" using i len(2) by simp
    have u: "unat (page2pa i) = i * 4096" by (rule unat_page2pa[OF i20])
    have w: "word_of_nat i * PGSIZE = page2pa i"
      by (simp add: page2pa_def push_bit_eq_mult mmu_consts)
    have top: "page2pa i < word_of_nat (npages s) * PGSIZE - 1"
    proof (cases "npages s = 2 ^ 20")
      case True
      then have "word_of_nat (npages s) * PGSIZE - 1 = (- 1 :: u32)" by (simp add: mmu_consts)
      then show ?thesis using u i20 by (simp add: word_less_nat_alt unsigned_minus_1_eq_mask mask_eq_exp_minus_1)
    next
      case False
      then have n20: "npages s < 2 ^ 20" using len(2) by simp
      have "unat (word_of_nat (npages s) * PGSIZE) = npages s * 4096"
        using unat_page2pa[OF n20] by (simp add: page2pa_def push_bit_eq_mult mmu_consts mult.commute)
      then have "unat (word_of_nat (npages s) * PGSIZE - 1) = npages s * 4096 - 1"
        using i by (simp add: unat_sub word_le_nat_alt)
      then show ?thesis using u i by (simp add: word_less_nat_alt)
    qed
    have m: "page2pa i \<noteq> MPENTRY_PADDR \<longleftrightarrow> i \<noteq> 7"
      using u by (auto simp: word_unat_eq_iff mmu_consts)
    have io: "page2pa i < IOPHYSMEM \<longleftrightarrow> i < 160" using u by (simp add: word_less_nat_alt mmu_consts)
    have pe: "page2pa i > ?pe \<longleftrightarrow> i * 4096 > unat ?pe" using u by (simp add: word_less_nat_alt)
    show ?thesis unfolding init_free_def w using top m io pe by blast
  qed
  then show ?thesis using t I m by auto
qed

definition demo_boot :: kst where
  "demo_boot = demo\<lparr>pages := replicate 16 \<lparr>pp_link = None, pp_ref = 0\<rparr>, page_free_list := None\<rparr>"

theorem page_init_free_list_witness:
  "\<exists>t. page_init 0 demo_boot = Some t \<and> pages_inv t \<and> pmem t = pmem demo_boot
     \<and> (\<forall>i < npages demo_boot. i \<in> set (free_pages t) \<longleftrightarrow>
          i \<noteq> 0 \<and> i \<noteq> 7 \<and> (i < 160 \<or> i * 4096 > unat (nextfree demo_boot - KERNBASE)))"
  by (rule page_init_free_list) (simp_all add: demo_boot_def demo_def mmu_consts)

section \<open>Page tables\<close>

lemma page_lookup_entry:
  assumes "pgdir_ok t pd" and "PDX va \<noteq> PDX UVPT" and "pde_present t pd (PDX va)"
    and "va_pte t pd va = page2pa pp OR f" and "flags_only f" and "pp < npages t" "npages t \<le> 2 ^ 20"
  shows "page_lookup pd va t = Some (Some (pp, (pt_frame t pd (PDX va), PTX va)), t)"
proof -
  have "pte_page (va_pte t pd va) = pp" using assms(4-7) by (simp add: pte_page_def PGNUM_entry)
  then show ?thesis using page_lookup_present[OF assms(1-3)] assms(6) by simp
qed

text \<open>C2: \<open>page_insert\<close> maps the page: it returns 0, \<open>page_lookup\<close> then finds the page with the
  permissions given, no other address changes, and the reference counts follow the mappings: one
  more for the page, one for a new page table, one less for the page that was mapped before.\<close>

theorem page_insert_then_lookup:
  assumes inv: "pages_inv s" and ok: "pgdir_ok s pd" and d: "PDX va \<noteq> PDX UVPT"
    and leaf: "leaf_ok s pd pp" and perm: "flags_only perm"
    and old: "va_pte s pd va AND PTE_P \<noteq> 0 \<Longrightarrow>
        leaf_ok s pd (pte_page (va_pte s pd va)) \<and> pp_ref (pages s ! pte_page (va_pte s pd va)) \<noteq> 0"
    and room: "pde_present s pd (PDX va) \<or> free_pages s \<noteq> []"
  shows "\<exists>t loc. page_insert pd pp va perm s = Some (0, t) \<and> pages_inv t \<and> pgdir_ok t pd
     \<and> page_lookup pd va t = Some (Some (pp, loc), t)
     \<and> read_pte t loc = page2pa pp OR perm OR PTE_P
     \<and> (\<forall>vb. PDX vb \<noteq> PDX UVPT \<and> PGNUM vb \<noteq> PGNUM va \<longrightarrow> va_pte t pd vb = va_pte s pd vb)
     \<and> (\<forall>r < npages s. pp_ref (pages t ! r) = pp_ref (pages s ! r) + (if r = pp then 1 else 0)
          + (if new_table s pd va = Some r then 1 else 0)
          - (if va_pte s pd va AND PTE_P \<noteq> 0 \<and> r = pte_page (va_pte s pd va) then 1 else 0))"
proof -
  from page_insert_spec[OF inv ok d leaf old room, of perm] obtain t where
    t: "page_insert pd pp va perm s = Some (0, t)" "pages_inv t" "pgdir_ok t pd" "npages t = npages s"
      "va_pte t pd va = page2pa pp OR perm OR PTE_P" "pde_present t pd (PDX va)"
      "\<forall>vb. PDX vb \<noteq> PDX UVPT \<and> PGNUM vb \<noteq> PGNUM va \<longrightarrow> va_pte t pd vb = va_pte s pd vb"
      "\<forall>r < npages s. pp_ref (pages t ! r) = pp_ref (pages s ! r) + (if r = pp then 1 else 0)
          + (if new_table s pd va = Some r then 1 else 0)
          - (if va_pte s pd va AND PTE_P \<noteq> 0 \<and> r = pte_page (va_pte s pd va) then 1 else 0)" by blast
  have "pp < npages t" using leaf t(4) by (simp add: leaf_ok_def)
  then have "page_lookup pd va t = Some (Some (pp, (pt_frame t pd (PDX va), PTX va)), t)"
    using page_lookup_entry[OF t(3) d t(6), of pp "perm OR PTE_P"] t(5) perm pages_invD(2)[OF t(2)]
    by (simp add: flags_only_or or.assoc)
  moreover have "read_pte t (pt_frame t pd (PDX va), PTX va) = page2pa pp OR perm OR PTE_P"
    using t(5,6) by (simp add: read_pte_loc)
  ultimately show ?thesis using t by blast
qed

theorem page_insert_then_lookup_witness:
  "\<exists>t loc. page_insert 2 4 0x801000 (PTE_U OR PTE_W) demo = Some (0, t) \<and> pages_inv t \<and> pgdir_ok t 2
     \<and> page_lookup 2 0x801000 t = Some (Some (4, loc), t)
     \<and> read_pte t loc = page2pa 4 OR (PTE_U OR PTE_W) OR PTE_P
     \<and> (\<forall>vb. PDX vb \<noteq> PDX UVPT \<and> PGNUM vb \<noteq> PGNUM 0x801000 \<longrightarrow> va_pte t 2 vb = va_pte demo 2 vb)
     \<and> (\<forall>r < npages demo. pp_ref (pages t ! r) = pp_ref (pages demo ! r) + (if r = 4 then 1 else 0)
          + (if new_table demo 2 0x801000 = Some r then 1 else 0)
          - (if va_pte demo 2 0x801000 AND PTE_P \<noteq> 0 \<and> r = pte_page (va_pte demo 2 0x801000) then 1 else 0))"
  by (rule page_insert_then_lookup[OF demo_pages_inv demo_pgdir_ok _ demo_leaf_ok(1)])
     (simp_all add: demo_PDX demo_pde demo_va flags_only_or)

text \<open>\<open>page_insert\<close> without memory for a page table returns \<open>-E_NO_MEM\<close> and changes nothing.\<close>

theorem page_insert_out_of_memory:
  assumes "pages_inv s" and "\<not> pde_present s pd (PDX va)" and "free_pages s = []"
  shows "page_insert pd pp va perm s = Some (- E_NO_MEM, s)"
  using assms by (rule page_insert_no_memory)

definition demo_full :: kst where
  "demo_full = demo\<lparr>page_free_list := None,
     pages := map (\<lambda>i. \<lparr>pp_link = None, pp_ref = 1\<rparr>) [0..<16]\<rparr>"

lemma demo_full_inv: "pages_inv demo_full" and demo_full_free: "free_pages demo_full = []"
proof -
  have len: "length (pages demo_full) = npages demo_full" "npages demo_full \<le> 2 ^ 20"
    by (simp_all add: demo_full_def)
  have ch: "chain pp_link (pages demo_full) (page_free_list demo_full) []" by (simp add: demo_full_def)
  have lk: "pp_link (pages demo_full ! i) = None" if "i < npages demo_full" "i \<notin> set []" for i
    using that by (simp add: demo_full_def del: upt_rec_numeral)
  show "pages_inv demo_full" by (rule pages_invI(1)[OF len ch distinct.simps(1)[THEN iffD2] _ lk]) simp_all
  show "free_pages demo_full = []" by (rule pages_invI(2)[OF len ch distinct.simps(1)[THEN iffD2] _ lk]) simp_all
qed

theorem page_insert_out_of_memory_witness:
  "page_insert 2 4 0 PTE_U demo_full = Some (- E_NO_MEM, demo_full)"
  by (rule page_insert_out_of_memory[OF demo_full_inv _ demo_full_free])
     (simp add: pde_present_def demo_full_def demo_mem_def PDX_arith)

text \<open>\<open>page_remove\<close> of a mapped page clears the entry, drops one reference, frees the page with
  the last one, leaves every other address alone and invalidates the TLB entry when the directory
  is the current one.\<close>

theorem page_remove_unmaps:
  assumes inv: "pages_inv s" and ok: "pgdir_ok s pd" and d: "PDX va \<noteq> PDX UVPT"
    and pres: "pde_present s pd (PDX va)" and leaf: "leaf_ok s pd (pte_page (va_pte s pd va))"
  shows "\<exists>t. page_remove pd va s = Some t \<and> pages_inv t \<and> pgdir_ok t pd \<and> va_pte t pd va = 0
     \<and> (\<forall>vb. PDX vb \<noteq> PDX UVPT \<and> PGNUM vb \<noteq> PGNUM va \<longrightarrow> va_pte t pd vb = va_pte s pd vb)
     \<and> (\<forall>q < npages s. pp_ref (pages t ! q) =
          pp_ref (pages s ! q) - (if q = pte_page (va_pte s pd va) then 1 else 0))
     \<and> free_pages t = (if pp_ref (pages s ! pte_page (va_pte s pd va)) = 1
          then pte_page (va_pte s pd va) # free_pages s else free_pages s)
     \<and> tlb_log t = (if tlb_current s pd then va # tlb_log s else tlb_log s)"
  using page_remove_spec[OF assms] by blast

theorem page_remove_unmaps_witness:
  "\<exists>t. page_remove 2 0x800000 demo = Some t \<and> pages_inv t \<and> pgdir_ok t 2 \<and> va_pte t 2 0x800000 = 0
     \<and> (\<forall>vb. PDX vb \<noteq> PDX UVPT \<and> PGNUM vb \<noteq> PGNUM 0x800000 \<longrightarrow> va_pte t 2 vb = va_pte demo 2 vb)
     \<and> (\<forall>q < npages demo. pp_ref (pages t ! q) =
          pp_ref (pages demo ! q) - (if q = pte_page (va_pte demo 2 0x800000) then 1 else 0))
     \<and> free_pages t = (if pp_ref (pages demo ! pte_page (va_pte demo 2 0x800000)) = 1
          then pte_page (va_pte demo 2 0x800000) # free_pages demo else free_pages demo)
     \<and> tlb_log t = (if tlb_current demo 2 then 0x800000 # tlb_log demo else tlb_log demo)"
  by (rule page_remove_unmaps[OF demo_pages_inv demo_pgdir_ok])
     (simp_all add: demo_PDX demo_pde demo_va demo_leaf_ok)

text \<open>\<open>page_lookup\<close> does not test the present bit (\<open>|\<close> for \<open>&\<close>).  Removing an address that is
  not mapped, but whose page table exists, is therefore not silent: it drops a reference of
  frame 0, and puts frame 0 on the free list when its count was 1.\<close>

theorem page_remove_unmapped_hits_page_0:
  assumes inv: "pages_inv s" and ok: "pgdir_ok s pd" and d: "PDX va \<noteq> PDX UVPT"
    and pres: "pde_present s pd (PDX va)" and unmapped: "va_pte s pd va = 0" and z: "leaf_ok s pd 0"
  shows "\<exists>t. page_remove pd va s = Some t
     \<and> pp_ref (pages t ! 0) = pp_ref (pages s ! 0) - 1
     \<and> free_pages t = (if pp_ref (pages s ! 0) = 1 then 0 # free_pages s else free_pages s)"
proof -
  have p0: "pte_page 0 = 0" by (simp add: pte_page_def PTE_ADDR_def PGNUM_arith)
  then have "leaf_ok s pd (pte_page (va_pte s pd va))" using unmapped z by simp
  from page_remove_spec[OF inv ok d pres this] p0 unmapped show ?thesis
    using z by (auto simp: leaf_ok_def)
qed

theorem page_remove_unmapped_hits_page_0_witness:
  "\<exists>t. page_remove 2 0x801000 demo = Some t \<and> pp_ref (pages t ! 0) = pp_ref (pages demo ! 0) - 1
     \<and> free_pages t = (if pp_ref (pages demo ! 0) = 1 then 0 # free_pages demo else free_pages demo)"
  by (rule page_remove_unmapped_hits_page_0[OF demo_pages_inv demo_pgdir_ok])
     (simp_all add: demo_PDX demo_pde demo_va demo_leaf_ok)

text \<open>\<open>boot_map_region\<close> maps \<open>n\<close> consecutive pages to \<open>n\<close> consecutive frames with the
  permissions given, and no other address.\<close>

theorem boot_map_region_maps:
  assumes "pages_inv s" and "pgdir_ok s pd"
    and "\<And>i. i < n \<Longrightarrow> PDX (va + word_of_nat i * PGSIZE) \<noteq> PDX UVPT"
    and "unat va + 4096 * n \<le> 2 ^ 32" and "n \<le> length (free_pages s)" and "n < 2 ^ 20"
  shows "\<exists>t. boot_map_region pd va (word_of_nat (4096 * n)) pa perm s = Some t \<and> pages_inv t \<and> pgdir_ok t pd
     \<and> (\<forall>i < n. va_pte t pd (va + word_of_nat i * PGSIZE) = (pa + word_of_nat i * PGSIZE) OR perm OR PTE_P)
     \<and> (\<forall>vb. PDX vb \<noteq> PDX UVPT \<and> (\<forall>i < n. PGNUM vb \<noteq> PGNUM (va + word_of_nat i * PGSIZE)) \<longrightarrow>
           va_pte t pd vb = va_pte s pd vb)"
proof -
  have u: "unat (word_of_nat (4096 * n) :: u32) = 4096 * n"
    using assms(6) by (simp only: unat_of_nat take_bit_eq_mod) simp
  show ?thesis unfolding boot_map_region_def boot_map_region_pages_def
    using boot_map_loop[OF assms(1-5), of "word_of_nat (4096 * n)" 0 pa perm] assms(6)
    unfolding u by fastforce
qed

theorem boot_map_region_maps_witness:
  "\<exists>t. boot_map_region 2 0x400000 (word_of_nat (4096 * 2)) 0x10000 PTE_W demo = Some t \<and> pages_inv t \<and> pgdir_ok t 2
     \<and> (\<forall>i < 2. va_pte t 2 (0x400000 + word_of_nat i * PGSIZE) = (0x10000 + word_of_nat i * PGSIZE) OR PTE_W OR PTE_P)
     \<and> (\<forall>vb. PDX vb \<noteq> PDX UVPT \<and> (\<forall>i < 2. PGNUM vb \<noteq> PGNUM (0x400000 + word_of_nat i * PGSIZE)) \<longrightarrow>
           va_pte t 2 vb = va_pte demo 2 vb)"
  by (rule boot_map_region_maps[OF demo_pages_inv demo_pgdir_ok])
     (simp_all add: demo_free_pages less_2_cases_iff, auto simp: PDX_arith mmu_consts)

section \<open>User pointers\<close>

text \<open>C18: when \<open>user_mem_check\<close> accepts a range that does not come within a page of the end of
  the address space, every byte of it lies below \<open>ULIM\<close> in a page whose entry has one of the
  permission bits asked for, and the state is unchanged.\<close>

theorem user_mem_check_grants:
  assumes "user_mem_check pd va len perm s = Some (0, t)"
    and "unat va + unat len + 4096 \<le> 2 ^ 32"
  shows "t = s \<and> (\<forall>a. va \<le> a \<and> unat a < unat va + unat len \<longrightarrow> a < ULIM \<and> va_pte s pd a AND perm \<noteq> 0)"
  using user_mem_check_sound[OF assms] by (auto simp: mem_granted_def umc_ok_def)

lemma demo_user_mem_check: "user_mem_check 2 0x800010 100 PTE_U demo = Some (0, demo)"
proof -
  have r: "ROUNDDOWN 0x800010 PGSIZE = 0x800000" "ROUNDUP (0x800010 + 100) PGSIZE = 0x801000"
    by (simp_all add: ROUNDUP_def ROUNDDOWN_def mmu_consts)
  have l: "page_lookup 2 0x800000 demo = Some (Some (4, (3, 0)), demo)"
    by (simp add: page_lookup_eq demo_PDX demo_pde demo_va)
  show ?thesis unfolding user_mem_check_def r
    by (subst user_mem_check_loop.simps, subst user_mem_check_loop.simps)
       (simp add: l read_pte_def demo_mem_def mmu_consts)
qed

theorem user_mem_check_grants_witness:
  "demo = demo \<and> 0x800020 < ULIM \<and> va_pte demo 2 0x800020 AND PTE_U \<noteq> 0"
proof -
  have "(0x800010 :: u32) \<le> 0x800020" "unat (0x800020 :: u32) < unat (0x800010 :: u32) + unat (100 :: u32)"
    by simp_all
  then show ?thesis using user_mem_check_grants[OF demo_user_mem_check] by simp
qed

text \<open>When it refuses, the error is \<open>-E_FAULT\<close> and \<open>user_mem_check_addr\<close> is the first address
  of the range, from \<open>va\<close> on, that is not granted.\<close>

theorem user_mem_check_first_fault:
  assumes "user_mem_check pd va len perm s = Some (r, t)" and "r \<noteq> 0"
  shows "r = - E_FAULT \<and> va \<le> user_mem_check_addr t
     \<and> \<not> (user_mem_check_addr t < ULIM \<and> va_pte s pd (user_mem_check_addr t) AND perm \<noteq> 0)
     \<and> (\<forall>a. va \<le> a \<and> a < user_mem_check_addr t \<longrightarrow> a < ULIM \<and> va_pte s pd a AND perm \<noteq> 0)
     \<and> t = s\<lparr>user_mem_check_addr := user_mem_check_addr t\<rparr>"
  using user_mem_check_fault[OF assms] by (auto simp: umc_ok_def)

lemma demo_user_mem_fault:
  "user_mem_check 2 0x800010 0x2000 PTE_U demo = Some (- E_FAULT, demo\<lparr>user_mem_check_addr := 0x801000\<rparr>)"
proof -
  have r: "ROUNDDOWN 0x800010 PGSIZE = 0x800000" "ROUNDUP (0x800010 + 0x2000) PGSIZE = 0x803000"
    by (simp_all add: ROUNDUP_def ROUNDDOWN_def mmu_consts)
  have l: "page_lookup 2 0x800000 demo = Some (Some (4, (3, 0)), demo)"
    "page_lookup 2 0x801000 demo = Some (Some (0, (3, 1)), demo)"
    by (simp_all add: page_lookup_eq demo_PDX demo_pde demo_va)
  show ?thesis unfolding user_mem_check_def r
    by (subst user_mem_check_loop.simps, subst user_mem_check_loop.simps)
       (simp add: l read_pte_def demo_mem_def mmu_consts)
qed

theorem user_mem_check_first_fault_witness:
  "user_mem_check_addr (demo\<lparr>user_mem_check_addr := 0x801000\<rparr>) = 0x801000
     \<and> \<not> (0x801000 < ULIM \<and> va_pte demo 2 0x801000 AND PTE_U \<noteq> 0)
     \<and> va_pte demo 2 0x800020 AND PTE_U \<noteq> 0"
proof -
  have "- E_FAULT \<noteq> 0" by (simp add: err_consts)
  from user_mem_check_first_fault[OF demo_user_mem_fault this] show ?thesis by simp
qed

text \<open>The check compares rounded addresses after the sum has wrapped round: a range that ends
  exactly at \<open>2^32\<close> is accepted whatever is mapped there, kernel memory included.\<close>

theorem user_mem_check_wraps_round:
  assumes "unat va + unat len = 2 ^ 32"
  shows "user_mem_check pd va len perm s = Some (0, s)"
  using assms by (rule user_mem_check_wraps)

theorem user_mem_check_wraps_round_witness:
  "user_mem_check 2 0xF0000000 0x10000000 PTE_U demo = Some (0, demo)"
  by (rule user_mem_check_wraps_round) simp

end
