(* ===== verification/EnvProps.thy ===== *)
theory EnvProps
  imports Demo
begin

text \<open>
  Properties of environments and of the scheduler (\<open>kern/env.c\<close>, \<open>kern/sched.c\<close>), each with a
  witness.
\<close>

section \<open>The table and its identifiers\<close>

text \<open>After \<open>env_init\<close> every environment is free, with identifier 0, and the free list is in
  the order of the array, so that the first allocation returns \<open>envs[0]\<close>.\<close>

theorem env_init_all_free:
  assumes "length (envs s) = NENV" and "\<forall>i < NENV. envs s ! i = zero_env"
  shows "envs_core (env_init s) \<and> free_envs (env_init s) = [0..<NENV]
     \<and> (\<forall>i < NENV. env_status (envs (env_init s) ! i) = ENV_FREE \<and> env_id (envs (env_init s) ! i) = 0)"
  using env_init_envs[OF assms] envs_coreD(4)[OF env_init_envs(1)[OF assms]] by auto

theorem env_init_all_free_witness:
  "\<exists>s. s = env_init (demo\<lparr>envs := replicate NENV zero_env\<rparr>) \<and> envs_core s \<and> free_envs s = [0..<NENV]
     \<and> (\<forall>i < NENV. env_status (envs s ! i) = ENV_FREE \<and> env_id (envs s ! i) = 0)"
proof -
  let ?z = "demo\<lparr>envs := replicate NENV zero_env\<rparr>"
  have "length (envs ?z) = NENV" "\<forall>i < NENV. envs ?z ! i = zero_env" by simp_all
  from env_init_all_free[OF this] show ?thesis by blast
qed

text \<open>C24: the identifier that \<open>env_alloc\<close> gives to a slot for the \<open>k\<close>-th time; two allocations have
  the same identifier only if they are of the same slot and \<open>2^19 - 1\<close> generations apart.  Every
  identifier is positive as a signed integer and \<open>ENVX\<close> recovers the slot.\<close>

theorem env_ids_unique:
  assumes "i < NENV" and "j < NENV"
  shows "(slot_id i (Suc k) = slot_id j (Suc m) \<longleftrightarrow> i = j \<and> k mod 524287 = m mod 524287)
     \<and> 0 < sint (slot_id i (Suc k)) \<and> ENVX (slot_id i (Suc k)) = i"
proof -
  have "k mod 524287 + 1 < 524288" "m mod 524287 + 1 < 524288"
    using mod_less_divisor[of 524287 k] mod_less_divisor[of 524287 m] by linarith+
  then show ?thesis using assms mk_id_inject mk_id_pos ENVX_mk_id
    by (auto simp: slot_id_Suc NENV_def simp del: slot_id.simps)
qed

theorem env_ids_unique_witness:
  "(slot_id 3 (Suc 0) = slot_id 3 (Suc 524287) \<longleftrightarrow> (3 :: nat) = 3 \<and> (0 :: nat) mod 524287 = 524287 mod 524287)
     \<and> 0 < sint (slot_id 3 (Suc 0)) \<and> ENVX (slot_id 3 (Suc 0)) = 3"
  by (rule env_ids_unique) (simp_all add: NENV_def)

text \<open>C16: a successful \<open>env_alloc\<close> takes the first free slot and makes it runnable in user mode with
  cleared registers; the new identifier names it, and the identifier that the slot had before is
  rejected from then on.\<close>

theorem env_alloc_fresh:
  assumes a: "env_alloc par s = Some ((0, Some i), t)" and inv: "envs_inv s"
  shows "envs_inv t \<and> free_envs s = i # free_envs t
     \<and> env_status (envs t ! i) = ENV_RUNNABLE \<and> env_tf (envs t ! i) = fresh_tf
     \<and> tf_cs fresh_tf AND 3 = 3 \<and> env_parent_id (envs t ! i) = par
     \<and> envid2env (env_id (envs t ! i)) False t = Some (0, Some i)
     \<and> (env_id (envs s ! i) \<noteq> 0 \<longrightarrow> envid2env (env_id (envs s ! i)) False t = Some (- E_BAD_ENV, None))"
proof -
  have core: "envs_core s" using inv by (simp add: envs_inv_def)
  note A = env_alloc_core[OF a core]
  have invt: "envs_inv t" by (rule exofork_alloc_inv(1)[OF a inv])
  have "env_id (envs s ! i) = 0 \<or> (\<exists>g. 0 < g \<and> g < 524288 \<and> env_id (envs s ! i) = mk_id g i)"
    using envs_coreD(5)[OF core A(3)] by (simp add: env_entry_ok_def)
  moreover have "(0 :: u32) = mk_id 0 0" by (simp add: mk_id_def)
  ultimately obtain g j where g: "g < 524288" "j < 1024" "env_id (envs s ! i) = mk_id g j"
    "env_id (envs s ! i) \<noteq> 0 \<Longrightarrow> 0 < g \<and> j = i" using A(3)
    by (metis NENV_def zero_less_numeral)
  have nid: "env_id (envs t ! i) = mk_id (next_gen g) i"
    using A(3,5) next_env_id_mk[OF g(1) _ g(2)] g(3) by (simp add: NENV_def)
  note gr = next_gen_range[OF g(1)]
  have E: "ENVX (mk_id (next_gen g) i) = i" "mk_id (next_gen g) i \<noteq> 0"
    using ENVX_mk_id mk_id_pos gr A(3) by (simp_all add: NENV_def)
  have at: "env_at t i = Some (envs t ! i)" using A(1,3) by (simp add: env_at_core)
  have new: "envid2env (env_id (envs t ! i)) False t = Some (0, Some i)"
    unfolding nid envid2env_def using E at A(4) nid by simp
  have old: "envid2env (env_id (envs s ! i)) False t = Some (- E_BAD_ENV, None)" if nz: "env_id (envs s ! i) \<noteq> 0"
  proof -
    have e: "env_id (envs s ! i) = mk_id g i" "0 < g" using g(3,4) nz by auto
    have "ENVX (mk_id g i) = i" using ENVX_mk_id g(1) A(3) by (simp add: NENV_def)
    moreover have "mk_id g i \<noteq> mk_id (next_gen g) i"
      using mk_id_inject[OF g(1), of "next_gen g" i i] next_gen_neq[OF e(2)] gr A(3) by (simp add: NENV_def)
    ultimately show ?thesis unfolding envid2env_def using at nid nz e(1) by simp
  qed
  have cs: "tf_cs fresh_tf AND 3 = 3" by (simp add: fresh_tf_def zero_tf_def GD_UT_def)
  show ?thesis using invt A new old cs by blast
qed

theorem env_alloc_fresh_witness:
  "\<exists>t. env_alloc 0x1000 demo = Some ((0, Some 1), t) \<and> env_status (envs t ! 1) = ENV_RUNNABLE
     \<and> envid2env (env_id (envs t ! 1)) False t = Some (0, Some 1)"
proof -
  obtain t where t: "env_alloc 0x1000 demo = Some ((0, Some 1), t)" using demo_env_alloc by blast
  show ?thesis using env_alloc_fresh[OF t demo_envs_inv] t by blast
qed

text \<open>C21: after \<open>env_free\<close> the identifier is rejected, the slot is the first of the free list, the
  other environments are untouched, and the kernel's directory is loaded if the environment was
  the current one.\<close>

theorem env_free_retires:
  assumes a: "env_free i s = Some t" and inv: "envs_inv s" and st: "env_status (envs s ! i) \<noteq> ENV_FREE"
  shows "envs_core t \<and> free_envs t = i # free_envs s \<and> env_status (envs t ! i) = ENV_FREE
     \<and> (\<forall>j. j \<noteq> i \<longrightarrow> envs t ! j = envs s ! j)
     \<and> envid2env (env_id (envs s ! i)) False t = Some (- E_BAD_ENV, None)
     \<and> cr3 t = (if curenv s = Some i then kern_pgdir s else cr3 s)"
proof -
  have core: "envs_core s" using inv by (simp add: envs_inv_def)
  note F = env_free_core[OF a core st]
  obtain g where g: "0 < g" "g < 524288" "env_id (envs s ! i) = mk_id g i"
    using envs_coreD(5)[OF core F(3)] st by (auto simp: env_entry_ok_def)
  have E: "ENVX (mk_id g i) = i" "mk_id g i \<noteq> 0" using ENVX_mk_id mk_id_pos g F(3) by (simp_all add: NENV_def)
  have "envid2env (env_id (envs s ! i)) False t = Some (- E_BAD_ENV, None)"
    unfolding envid2env_def g(3) using E F(1,3,4) by (simp add: env_at_core)
  then show ?thesis using F by blast
qed

text \<open>A state whose environment 0 has nothing mapped: its page directory is empty.\<close>

definition demo_empty :: kst where
  "demo_empty = demo\<lparr>pmem := (\<lambda>_ _. 0)\<rparr>"

lemma demo_empty_inv: "envs_inv demo_empty" "pages_inv demo_empty" "free_pages demo_empty = [5..<16]"
  using envs_inv_frame[of demo_empty demo] pages_inv_cong[of demo_empty demo] demo_envs_inv demo_pages_inv
    demo_free_pages
  by (simp_all add: demo_empty_def env_part_def)

lemma env_free_pde_absent: "read_pte s (pd, d) AND PTE_P = 0 \<Longrightarrow> env_free_pde pd d s = Some s"
  by (simp add: env_free_pde_def Let_def)

lemma env_free_loop_absent:
  "(\<And>d. d \<in> set ds \<Longrightarrow> read_pte s (pd, d) AND PTE_P = 0) \<Longrightarrow> foldM (env_free_pde pd) ds s = Some s"
  by (induction ds) (simp_all add: env_free_pde_absent)

lemma demo_empty_free: "\<exists>t. env_free 0 demo_empty = Some t"
proof -
  let ?s = "demo_empty\<lparr>cr3 := 1\<rparr>"
  let ?u = "set_env 0 (demo_env\<lparr>env_pgdir := None\<rparr>) ?s"
  have l: "foldM (env_free_pde 2) [0..<PDX UTOP] ?s = Some ?s"
    by (rule env_free_loop_absent) (simp add: read_pte_def demo_empty_def)
  have u: "pages_inv ?u" "free_pages ?u = [5..<16]"
    using demo_empty_inv(2,3) pages_inv_cong[of ?u demo_empty] by simp_all
  have "2 < npages ?u" "2 \<notin> set (free_pages ?u)" using u(2) by (simp_all add: demo_empty_def)
  from page_decref_spec[OF u(1) this] obtain v where v: "page_decref 2 ?u = Some v" "same_rest v ?u" by blast
  have at: "env_at ?s 0 = Some demo_env" "env_at v 0 \<noteq> None"
    using v(2) by (simp_all add: env_at_def demo_empty_def demo_envs_nth NENV_def same_rest_def)
  have pp: "pa2page ?u (page2pa 2) = Some 2"
    by (simp add: pa2page_def PGNUM_page2pa demo_empty_def)
  show ?thesis unfolding env_free_def using l at pp v(1)
    by (auto simp: demo_empty_def demo_env_def Let_def)
qed

theorem env_free_retires_witness:
  "\<exists>t. env_free 0 demo_empty = Some t \<and> free_envs t = 0 # free_envs demo_empty
     \<and> envid2env 0x1000 False t = Some (- E_BAD_ENV, None)"
proof -
  obtain t where t: "env_free 0 demo_empty = Some t" using demo_empty_free by blast
  have st: "env_status (envs demo_empty ! 0) \<noteq> ENV_FREE" "env_id (envs demo_empty ! 0) = 0x1000"
    by (simp_all add: demo_empty_def demo_envs_nth demo_env_def)
  show ?thesis using env_free_retires[OF t demo_empty_inv(1) st(1)] t st(2) by auto
qed

section \<open>Destroying\<close>

text \<open>An environment that runs on another processor is only marked \<open>ENV_DYING\<close>; but a second
  \<open>env_destroy\<close>, while that processor still runs it, frees its page directory at once.\<close>

theorem env_destroy_twice_frees_running:
  assumes e: "e < length (envs s)" and run: "env_status (envs s ! e) = ENV_RUNNING" "curenv s \<noteq> Some e"
  defines "t \<equiv> set_env e ((envs s ! e)\<lparr>env_status := ENV_DYING\<rparr>) s"
  shows "env_destroy e s = Some (None, t)
     \<and> env_destroy e t = Option.bind (env_free e t) (\<lambda>u. Some (None, u))"
proof -
  have at: "env_at s e = Some (envs s ! e)" "env_at t e = Some ((envs s ! e)\<lparr>env_status := ENV_DYING\<rparr>)"
    using e by (simp_all add: env_at_def t_def)
  have c: "curenv t \<noteq> Some e" using run(2) by (simp add: t_def)
  have "curenv u \<noteq> Some e" if "env_free e t = Some u" for u
    using that c by (auto simp: env_free_def Let_def bind_eq_Some_conv dest!: env_frames same_envsD(3) split: if_splits)
  then show ?thesis using at run c
    by (cases "env_free e t") (auto simp: env_destroy_def t_def)
qed

definition demo_other :: kst where
  "demo_other = demo\<lparr>curenv := None, this_cpu := 1, klock := Some 1\<rparr>"

theorem env_destroy_twice_frees_running_witness:
  "env_destroy 0 demo_other
     = Some (None, set_env 0 ((envs demo_other ! 0)\<lparr>env_status := ENV_DYING\<rparr>) demo_other)
   \<and> env_destroy 0 (set_env 0 ((envs demo_other ! 0)\<lparr>env_status := ENV_DYING\<rparr>) demo_other)
     = Option.bind (env_free 0 (set_env 0 ((envs demo_other ! 0)\<lparr>env_status := ENV_DYING\<rparr>) demo_other))
         (\<lambda>u. Some (None, u))"
  by (rule env_destroy_twice_frees_running)
     (simp_all add: demo_other_def demo_envs_nth demo_env_def NENV_def)

section \<open>The scheduler\<close>

text \<open>C3: with the lock held \<open>sched_yield\<close> always decides, and what it decides is fixed by the table.  If an
  environment is runnable, the one that comes first in circular order after the current one (from
  slot 0 if there is none) runs.  If none is, the current environment goes on if it is still running,
  never one that another processor is running; otherwise the processor halts, or enters the monitor when no
  environment is running or dying either.\<close>

theorem sched_yield_choice:
  assumes inv: "envs_inv s" and l: "klock s = Some (this_cpu s)"
  defines "from \<equiv> (case curenv s of None \<Rightarrow> 0 | Some c \<Rightarrow> c + 1)"
  shows "\<exists>how t. sched_yield s = Some (how, t) \<and>
    (if \<exists>i < NENV. env_status (envs s ! i) = ENV_RUNNABLE
     then \<exists>j < NENV. how = RunEnv j \<and> env_status (envs s ! j) = ENV_RUNNABLE
       \<and> (\<forall>i < NENV. env_status (envs s ! i) = ENV_RUNNABLE \<longrightarrow> sched_dist from j \<le> sched_dist from i)
     else if \<exists>c. curenv s = Some c \<and> env_status (envs s ! c) = ENV_RUNNING then \<exists>c. curenv s = Some c \<and> how = RunEnv c
     else if \<exists>i < NENV. env_status (envs s ! i) \<in> {ENV_RUNNING, ENV_DYING} then how = Halted
     else how = InMonitor)"
proof (cases "\<exists>i < NENV. env_status (envs s ! i) = ENV_RUNNABLE")
  case True
  have st: "sched_start s = from" using sched_start_cur[OF inv] by (simp add: from_def split: option.splits)
  from True obtain i where i: "i < NENV" "env_status (envs s ! i) = ENV_RUNNABLE" by blast
  obtain j t where jt: "sched_yield s = Some (RunEnv j, t)" "j < NENV" "env_status (envs s ! j) = ENV_RUNNABLE"
    and m: "\<And>k. k < NENV \<Longrightarrow> env_status (envs s ! k) = ENV_RUNNABLE \<Longrightarrow> sched_dist from j \<le> sched_dist from k"
    using sched_yield_runnable[OF inv l i] unfolding st by metis
  show ?thesis unfolding if_P[OF True] using jt m by blast
next
  case False
  then have n: "\<forall>i < NENV. env_status (envs s ! i) \<noteq> ENV_RUNNABLE" by blast
  show ?thesis unfolding if_not_P[OF False] using sched_yield_none[OF inv l n] by (auto split: if_splits)
qed

definition demo_ready :: kst where
  "demo_ready = (set_env 0 (demo_env\<lparr>env_status := ENV_RUNNABLE\<rparr>) demo)\<lparr>curenv := None\<rparr>"

lemma demo_ready_inv: "envs_inv demo_ready"
proof -
  have "envs_core demo" using demo_envs_inv by (simp add: envs_inv_def)
  then have "envs_core (set_env 0 (demo_env\<lparr>env_status := ENV_RUNNABLE\<rparr>) demo)"
    by (rule envs_core_set_env(1)) (simp_all add: demo_envs_nth demo_env_def)
  then show ?thesis by (simp add: envs_inv_def demo_ready_def)
qed

text \<open>No environment is current, and the first one is runnable: it runs.\<close>

theorem sched_yield_choice_witness:
  "\<exists>t. sched_yield demo_ready = Some (RunEnv 0, t)"
proof -
  have l: "klock demo_ready = Some (this_cpu demo_ready)" by (simp add: demo_ready_def)
  have st: "env_status (envs demo_ready ! i) = (if i = 0 then ENV_RUNNABLE else ENV_FREE)" if "i < NENV" for i
    using that by (cases "i = 0") (auto simp: demo_ready_def demo_envs_nth zero_env_def)
  then have r: "\<exists>i < NENV. env_status (envs demo_ready ! i) = ENV_RUNNABLE"
    by (intro exI[of _ 0]) (simp add: NENV_def)
  have z: "i = 0" if "i < NENV" "env_status (envs demo_ready ! i) = ENV_RUNNABLE" for i
    using that st[OF that(1)] by (simp split: if_splits)
  from sched_yield_choice[OF demo_ready_inv l] show ?thesis unfolding if_P[OF r] using z by blast
qed

end
