(* ===== verification/SysProps.thy ===== *)
theory SysProps
  imports Demo TrapMon
begin

text \<open>
  Properties of system calls and of trap handling (\<open>kern/syscall.c\<close>, \<open>kern/trap.c\<close>), each with
  a witness.
\<close>

section \<open>Traps\<close>

text \<open>C1: every trap that does not panic keeps the invariant of the environment table, and ends in one of three
  ways.  It goes back to user mode: then the processor runs \<open>curenv\<close>, whose status is \<open>ENV_RUNNING\<close>, in its own
  address space, and has released the kernel lock.  It halts: then it runs no environment, uses the kernel's
  address space and has released the lock.  Or it stays in the kernel monitor: that is only for a
  breakpoint or when no environment is runnable, running or dying, and the processor then still holds the lock, which it
  took on entry from user mode or from the halt (a trap of the kernel itself leaves the lock as it was).\<close>

theorem trap_leaves_kernel_safely:
  assumes "trap tf cr2 eflags s = Some (how, t)" and "envs_inv s" and "\<not> panicked s"
  shows "envs_inv t \<and> (\<forall>e. how = RunEnv e \<longrightarrow> curenv t = Some e \<and> e < NENV
       \<and> env_status (envs t ! e) = ENV_RUNNING \<and> env_pgdir (envs t ! e) = Some (cr3 t) \<and> klock t = None)
     \<and> (how = Halted \<longrightarrow> curenv t = None \<and> klock t = None \<and> cr3 t = kern_pgdir t)
     \<and> (how = InMonitor \<longrightarrow> \<not> panicked t
       \<and> klock t = (if tf_cs tf AND 3 = 3 \<or> cpu_status s (this_cpu s) = CPU_HALTED then Some (this_cpu t) else klock s)
       \<and> (unat (tf_trapno tf) = T_BRKPT
          \<or> (\<forall>i < NENV. env_status (envs t ! i) \<notin> {ENV_RUNNABLE, ENV_RUNNING, ENV_DYING})))"
proof -
  have t: "envs_inv t" "leave_ok how t" using holdsD[OF trap_inv[OF assms(2,3)] assms(1)] by simp_all
  then have "has_status t sts i \<longleftrightarrow> i < NENV \<and> env_status (envs t ! i) \<in> set sts" for sts i
    by (intro has_status_iff) (simp add: envs_inv_def)
  then show ?thesis using t assms(1) trap_monitor[of tf cr2 eflags s t]
    by (cases how) (simp_all add: leave_ok_def no_work_def)
qed

definition demo_user :: kst where
  "demo_user = demo\<lparr>klock := None\<rparr>"

lemma demo_user_inv: "envs_inv demo_user"
  using demo_envs_inv by (simp add: demo_user_def)

definition timer_tf :: trapframe where
  "timer_tf = fresh_tf\<lparr>tf_trapno := 32, tf_eip := 0x800020\<rparr>"

text \<open>A clock interrupt in user mode reaches the scheduler with the frame saved.\<close>

lemma trap_timer_unfold:
  assumes inv: "envs_inv s" and np: "\<not> panicked s" "klock s = None" "cpu_status s (this_cpu s) \<noteq> CPU_HALTED"
    and c: "curenv s = Some c" "env_status (envs s ! c) \<noteq> ENV_DYING"
    and tf: "tf_trapno tf = 32" "tf_cs tf AND 3 = 3" and fl: "eflags AND FL_IF = 0"
  defines "u \<equiv> set_env c ((envs s ! c)\<lparr>env_tf := tf\<rparr>)
      (s\<lparr>cpu_status := (cpu_status s)(this_cpu s := CPU_STARTED), klock := Some (this_cpu s)\<rparr>)"
  shows "trap tf cr2 eflags s = sched_yield u" and "envs_inv u"
proof -
  let ?v = "s\<lparr>cpu_status := (cpu_status s)(this_cpu s := CPU_STARTED), klock := Some (this_cpu s)\<rparr>"
  have cl: "c < length (envs s)" using cur_live[OF inv c(1)] inv envs_coreD(1) by (simp add: envs_inv_def)
  show "envs_inv u" unfolding u_def by (rule envs_inv_set_env) (use inv in simp_all)
  have ce: "cur_env ?v = Some (c, envs s ! c)" using c(1) cl by (simp add: cur_env_def env_at_def)
  have up: "upd_env c (\<lambda>e. e\<lparr>env_tf := tf\<rparr>) ?v = Some u" using cl by (simp add: upd_env_def env_at_def u_def)
  have gt: "get_tf (InEnv c) u = Some tf" using cl by (simp add: get_tf_def env_at_def u_def)
  have "trap_body (InEnv c) cr2 u = sched_yield u"
    unfolding trap_body_def trap_dispatch_def gt
    by (simp add: tf(1) T_BRKPT_def T_PGFLT_def T_SYSCALL_def IRQ_OFFSET_def IRQ_SPURIOUS_def IRQ_TIMER_def)
       (cases "sched_yield u", auto)
  then show "trap tf cr2 eflags s = sched_yield u"
    using np ce c(2) up tf(2) fl by (simp add: trap_def lock_kernel_def Let_def)
qed

text \<open>C4: a clock interrupt in user mode preempts the running environment: the frame is saved in
  it, and the kernel goes back to user mode in an environment that was runnable, if there is one,
  and in the interrupted one only if there is none.\<close>

theorem timer_interrupt_preempts:
  assumes inv: "envs_inv s" and np: "\<not> panicked s" "klock s = None" "cpu_status s (this_cpu s) \<noteq> CPU_HALTED"
    and c: "curenv s = Some c" "env_status (envs s ! c) = ENV_RUNNING"
    and tf: "tf_trapno tf = 32" "tf_cs tf AND 3 = 3" and fl: "eflags AND FL_IF = 0"
  shows "\<exists>j t. trap tf cr2 eflags s = Some (RunEnv j, t) \<and> env_tf (envs t ! c) = tf
     \<and> (env_status (envs s ! j) = ENV_RUNNABLE \<or> j = c \<and> (\<forall>i < NENV. env_status (envs s ! i) \<noteq> ENV_RUNNABLE))"
proof -
  let ?u = "set_env c ((envs s ! c)\<lparr>env_tf := tf\<rparr>)
      (s\<lparr>cpu_status := (cpu_status s)(this_cpu s := CPU_STARTED), klock := Some (this_cpu s)\<rparr>)"
  have nd: "env_status (envs s ! c) \<noteq> ENV_DYING" using c(2) by simp
  note T = trap_timer_unfold[OF inv np c(1) nd tf fl]
  have cl: "c < NENV" "length (envs s) = NENV"
    using cur_live[OF inv c(1)] inv envs_coreD(1) by (auto simp: envs_inv_def)
  have core: "envs_core ?u" using T(2) by (simp add: envs_inv_def)
  have st: "env_status (envs ?u ! i) = env_status (envs s ! i)" for i by (simp add: nth_update_if)
  have l: "klock ?u = Some (this_cpu ?u)" by simp
  have tfc: "env_tf (envs (run_state j pd ?u) ! c) = tf" if "j < NENV" for j pd
    using run_state_simps(6)[of j ?u pd c] that cl by simp
  have run: "\<exists>t. env_run j ?u = Some (RunEnv j, t) \<and> env_tf (envs t ! c) = tf"
    if j: "j < NENV" "env_status (envs s ! j) \<noteq> ENV_FREE" for j
  proof -
    obtain t where t: "env_run j ?u = Some (RunEnv j, t)"
      using env_run_total[OF T(2) l j(1)] st j(2) by auto
    have "env_pgdir (envs ?u ! j) \<noteq> None"
      using envs_coreD(5)[OF core j(1)] st j(2) by (auto simp: env_entry_ok_def)
    then obtain pd where "env_pgdir (envs ?u ! j) = Some pd" by auto
    then have "t = run_state j pd ?u" using t env_run_result[OF T(2) j(1)] by (auto split: if_splits)
    then show ?thesis using t tfc[OF j(1)] by blast
  qed
  show ?thesis
  proof (cases "List.find (has_status ?u [ENV_RUNNABLE]) (sched_order (sched_start ?u))")
    case (Some j)
    then have "j < NENV" "env_status (envs s ! j) = ENV_RUNNABLE"
      using find_SomeD[OF Some] st by (auto simp: has_status_iff[OF core])
    then show ?thesis using run[of j] T(1)[of cr2] Some by (simp add: sched_yield_unfold[OF T(2)]) blast
  next
    case None
    have "env_status (envs s ! i) \<noteq> ENV_RUNNABLE" if "i < NENV" for i
      using find_NoneD[OF None, of i] that st by (auto simp: set_sched_order has_status_iff[OF core])
    moreover have "has_status ?u [ENV_RUNNING] c" using cl c st by (simp add: has_status_iff[OF core])
    ultimately show ?thesis using run[of c] cl c T(1)[of cr2] None by (simp add: sched_yield_unfold[OF T(2)]) blast
  qed
qed

lemma timer_tf_simps: "tf_trapno timer_tf = 32" "tf_cs timer_tf AND 3 = 3"
  by (simp_all add: timer_tf_def fresh_tf_def zero_tf_def GD_UT_def)

theorem timer_interrupt_preempts_witness:
  "\<exists>j t. trap timer_tf 0 0 demo_user = Some (RunEnv j, t) \<and> env_tf (envs t ! 0) = timer_tf
     \<and> (env_status (envs demo_user ! j) = ENV_RUNNABLE
         \<or> j = 0 \<and> (\<forall>i < NENV. env_status (envs demo_user ! i) \<noteq> ENV_RUNNABLE))"
  by (rule timer_interrupt_preempts[OF demo_user_inv])
     (simp_all add: timer_tf_simps demo_user_def demo_envs_nth demo_env_def)

text \<open>An environment runs in user mode on this processor.\<close>

definition runs_user :: "nat \<Rightarrow> kst \<Rightarrow> bool" where
  "runs_user c s \<longleftrightarrow> envs_inv s \<and> \<not> panicked s \<and> klock s = None \<and> cpu_status s (this_cpu s) \<noteq> CPU_HALTED
     \<and> curenv s = Some c \<and> env_status (envs s ! c) = ENV_RUNNING"

definition clock_frame :: "trapframe \<Rightarrow> bool" where
  "clock_frame tf \<longleftrightarrow> tf_trapno tf = 32 \<and> tf_cs tf AND 3 = 3"

text \<open>One clock interrupt runs another environment or brings the turn of a runnable one nearer.\<close>

lemma clock_step:
  assumes r: "runs_user c s" and tf: "clock_frame tf" and i: "i < NENV" "env_status (envs s ! i) = ENV_RUNNABLE"
  obtains j t where "trap tf cr2 0 s = Some (RunEnv j, t)" "runs_user j t" "j < NENV"
    "j = i \<or> env_status (envs t ! i) = ENV_RUNNABLE \<and> sched_dist (j + 1) i < sched_dist (c + 1) i"
proof -
  have s: "envs_inv s" "\<not> panicked s" "klock s = None" "cpu_status s (this_cpu s) \<noteq> CPU_HALTED" "curenv s = Some c"
    "env_status (envs s ! c) \<noteq> ENV_DYING"
    using r by (simp_all add: runs_user_def)
  define u where "u = set_env c ((envs s ! c)\<lparr>env_tf := tf\<rparr>)
      (s\<lparr>cpu_status := (cpu_status s)(this_cpu s := CPU_STARTED), klock := Some (this_cpu s)\<rparr>)"
  have tfs: "tf_trapno tf = 32" "tf_cs tf AND 3 = 3" using tf by (simp_all add: clock_frame_def)
  have fl: "(0 :: u32) AND FL_IF = 0" by simp
  have T: "trap tf cr2 0 s = sched_yield u" and inv: "envs_inv u"
    unfolding u_def by (rule trap_timer_unfold[OF s tfs fl])+
  have st: "env_status (envs u ! k) = env_status (envs s ! k)" for k by (simp add: u_def nth_update_if)
  have len: "length (envs u) = NENV" using inv envs_coreD(1) by (simp add: envs_inv_def)
  have l: "klock u = Some (this_cpu u)" by (simp add: u_def)
  have ui: "env_status (envs u ! i) = ENV_RUNNABLE" using i(2) st by simp
  obtain j t where y: "sched_yield u = Some (RunEnv j, t)" "j < NENV" "env_status (envs u ! j) = ENV_RUNNABLE"
    "env_run j u = Some (RunEnv j, t)" "\<And>k. k < NENV \<Longrightarrow> env_status (envs u ! k) = ENV_RUNNABLE \<Longrightarrow> sched_dist (sched_start u) j \<le> sched_dist (sched_start u) k"
    using sched_yield_runnable[OF inv l i(1) ui] by blast
  obtain pd where pd: "env_pgdir (envs u ! j) = Some pd"
    using envs_coreD(5)[of u j] inv y(2,3) by (auto simp: envs_inv_def env_entry_ok_def)
  have t: "t = run_state j pd u" using y(4) env_run_result[OF inv y(2) pd] l by simp
  have jl: "j < length (envs u)" using y(2) len by simp
  note R = run_state_simps(1-7)[OF jl, of pd]
  have it: "envs_inv t" using env_run_ok(2)[OF y(4) inv _ y(2)] y(3) by simp
  have "panicked t = panicked s \<and> cpu_status t (this_cpu t) = CPU_STARTED"
    by (simp add: t run_state_def yield_cur_def Let_def u_def split: option.splits)
  then have ru: "runs_user j t" using it s(2) R(1-4) by (simp add: runs_user_def t)
  have k: "sched_start u = c + 1" using sched_start_cur[OF inv] s(5) by (simp add: u_def)
  have n: "env_status (envs t ! i) = ENV_RUNNABLE \<and> sched_dist (j + 1) i < sched_dist (c + 1) i" if "j \<noteq> i"
  proof -
    have "env_status (envs t ! i) = env_status (envs (yield_cur u) ! i)" using run_state_simps(8)[OF jl, of i pd] that by (simp add: t)
    then have "env_status (envs t ! i) = ENV_RUNNABLE" using yield_cur_status[OF i(1) len] ui by simp
    then show ?thesis using sched_dist_next[OF i(1) y(2) that[symmetric]] y(5)[OF i(1) ui] k by simp
  qed
  show ?thesis by (rule that[OF _ ru y(2)]) (use T y(1) n in auto)
qed

text \<open>The state after some clock interrupts in user mode.\<close>

fun clock_run :: "trapframe list \<Rightarrow> kst \<Rightarrow> kst option" where
  "clock_run [] s = Some s"
| "clock_run (tf # tfs) s = do {
     (how, t) \<leftarrow> trap tf 0 0 s;
     (case how of RunEnv j \<Rightarrow> clock_run tfs t | _ \<Rightarrow> None)
   }"

text \<open>C23: bounded waiting under preemption.  If an environment is runnable while another runs in user mode and
  from then on only clock interrupts arrive, with whatever frames, and no other processor changes the table, then
  none of them panics or halts, and after at most as many as the circular distance to its slot says, never
  more than \<open>NENV\<close>, the environment is the one that runs.\<close>

theorem sched_bounded_wait:
  assumes r: "runs_user c s" and i: "i < NENV" "env_status (envs s ! i) = ENV_RUNNABLE"
    and tfs: "\<forall>tf \<in> set tfs. clock_frame tf" "length tfs = NENV"
  shows "\<exists>n t. 0 < n \<and> n \<le> sched_dist (c + 1) i + 1 \<and> n \<le> NENV \<and> clock_run (take n tfs) s = Some t
    \<and> runs_user i t"
proof -
  have "\<exists>n t. 0 < n \<and> n \<le> sched_dist (c + 1) i + 1 \<and> clock_run (take n tfs) s = Some t \<and> runs_user i t"
    if "sched_dist (c + 1) i < length tfs" "\<forall>tf \<in> set tfs. clock_frame tf" "runs_user c s" "env_status (envs s ! i) = ENV_RUNNABLE"
    for c s tfs
    using that
  proof (induction tfs arbitrary: c s)
    case (Cons tf tfs)
    have "clock_frame tf" using Cons.prems by simp
    then obtain j t where t: "trap tf 0 0 s = Some (RunEnv j, t)" "runs_user j t"
      and d: "j = i \<or> env_status (envs t ! i) = ENV_RUNNABLE \<and> sched_dist (j + 1) i < sched_dist (c + 1) i"
      using clock_step[OF Cons.prems(3) _ i(1) Cons.prems(4)] by metis
    show ?case
    proof (cases "j = i")
      case True
      then show ?thesis using t by (intro exI[of _ 1] exI[of _ t]) simp
    next
      case False
      with d have d: "env_status (envs t ! i) = ENV_RUNNABLE" "sched_dist (j + 1) i < sched_dist (c + 1) i" by simp_all
      have "sched_dist (j + 1) i < length tfs" using d(2) Cons.prems(1) by simp
      from Cons.IH[OF this _ t(2) d(1)] Cons.prems(2) obtain n v where
        n: "0 < n" "n \<le> sched_dist (j + 1) i + 1" "clock_run (take n tfs) t = Some v" "runs_user i v" by auto
      have "clock_run (take (Suc n) (tf # tfs)) s = Some v" using t(1) n(3) by simp
      moreover have "Suc n \<le> sched_dist (c + 1) i + 1" using n(2) d(2) by linarith
      ultimately show ?thesis using n(4) zero_less_Suc by blast
    qed
  qed simp
  from this[of c tfs s] r i tfs sched_dist_less[of "c + 1" i] show ?thesis by fastforce
qed

text \<open>Environment 0 runs and its child in slot 1 has just been allocated: the first interrupt gives it the processor.\<close>

lemma demo_two: "\<exists>s. runs_user 0 s \<and> env_status (envs s ! 1) = ENV_RUNNABLE"
proof -
  have core: "envs_core demo" using demo_envs_inv by (simp add: envs_inv_def)
  obtain t where t: "env_alloc 0x1000 demo = Some ((0, Some 1), t)" using demo_env_alloc by blast
  note A = env_alloc_core[OF t core]
  have c: "curenv t = Some 0" "this_cpu t = 0" "cpu_status t = (\<lambda>_. CPU_STARTED)" "\<not> panicked t"
    using ctl_partD[OF A(6)] by simp_all
  have z: "envs t ! 0 = demo_env" using A(7) by (simp add: demo_envs_nth)
  let ?s = "t\<lparr>klock := None\<rparr>"
  have "envs_inv t" by (rule exofork_alloc_inv(1)[OF t demo_envs_inv])
  then have "envs_inv ?s" by simp
  then have "runs_user 0 ?s" using c z by (simp add: runs_user_def demo_env_def)
  moreover have "env_status (envs ?s ! 1) = ENV_RUNNABLE" using A(4) by simp
  ultimately show ?thesis by blast
qed

lemma one_NENV: "1 < NENV"
  by (simp add: NENV_def)

theorem sched_bounded_wait_witness:
  "\<exists>s t. runs_user 0 s \<and> env_status (envs s ! 1) = ENV_RUNNABLE \<and> clock_run [timer_tf] s = Some t \<and> runs_user 1 t"
proof -
  obtain s where s: "runs_user 0 s" "env_status (envs s ! 1) = ENV_RUNNABLE" using demo_two by blast
  have "clock_frame timer_tf" using timer_tf_simps by (simp add: clock_frame_def)
  then have tfs: "\<forall>tf \<in> set (replicate NENV timer_tf). clock_frame tf" "length (replicate NENV timer_tf) = NENV" by auto
  have d: "sched_dist (0 + 1) 1 = 0" by (simp add: sched_dist_def NENV_def)
  from sched_bounded_wait[OF s(1) one_NENV s(2) tfs] obtain n t where
    n: "0 < n" "n \<le> 1" "clock_run (take n (replicate NENV timer_tf)) s = Some t" "runs_user 1 t" unfolding d by auto
  then have "n = 1" by simp
  moreover have "take 1 (replicate NENV timer_tf) = [timer_tf]" by (simp add: NENV_def take_Cons' numeral_eq_Suc)
  ultimately show ?thesis using s n(3,4) by metis
qed

text \<open>A breakpoint in user mode ends in the monitor, with the lock taken.\<close>

definition brkpt_tf :: trapframe where
  "brkpt_tf = fresh_tf\<lparr>tf_trapno := 3, tf_eip := 0x800020\<rparr>"

lemma brkpt_tf_simps: "tf_trapno brkpt_tf = 3" "tf_cs brkpt_tf AND 3 = 3"
  by (simp_all add: brkpt_tf_def fresh_tf_def zero_tf_def GD_UT_def)

lemma demo_brkpt: "\<exists>t. trap brkpt_tf 0 0 demo_user = Some (InMonitor, t)"
proof -
  let ?v = "demo_user\<lparr>cpu_status := (cpu_status demo_user)(this_cpu demo_user := CPU_STARTED), klock := Some (this_cpu demo_user)\<rparr>"
  have c: "curenv demo_user = Some 0" "klock demo_user = None" "\<not> panicked demo_user"
    "cpu_status demo_user (this_cpu demo_user) \<noteq> CPU_HALTED" "0 < length (envs demo_user)" "env_status (envs demo_user ! 0) \<noteq> ENV_DYING"
    by (simp_all add: demo_user_def demo_envs_nth demo_env_def NENV_def)
  have "cur_env ?v = Some (0, envs demo_user ! 0)" using c by (simp add: cur_env_def env_at_def)
  moreover have "upd_env 0 (\<lambda>e. e\<lparr>env_tf := brkpt_tf\<rparr>) ?v = Some (set_env 0 ((envs demo_user ! 0)\<lparr>env_tf := brkpt_tf\<rparr>) ?v)"
    using c by (simp add: upd_env_def env_at_def)
  moreover have "get_tf (InEnv 0) (set_env 0 ((envs demo_user ! 0)\<lparr>env_tf := brkpt_tf\<rparr>) ?v) = Some brkpt_tf"
    using c by (simp add: get_tf_def env_at_def)
  ultimately show ?thesis using c brkpt_tf_simps
    by (simp add: trap_def lock_kernel_def Let_def trap_body_def trap_dispatch_def T_BRKPT_def)
qed

theorem trap_leaves_kernel_safely_witness:
  "(\<exists>s e t. trap timer_tf 0 0 s = Some (RunEnv e, t) \<and> curenv t = Some e \<and> env_status (envs t ! e) = ENV_RUNNING
      \<and> env_pgdir (envs t ! e) = Some (cr3 t) \<and> klock t = None)
   \<and> (\<exists>t. trap brkpt_tf 0 0 demo_user = Some (InMonitor, t) \<and> klock t = Some (this_cpu t))"
proof -
  have np: "\<not> panicked demo_user" by (simp add: demo_user_def)
  obtain s where s: "runs_user 0 s" "env_status (envs s ! 1) = ENV_RUNNABLE" using demo_two by blast
  have "clock_frame timer_tf" using timer_tf_simps by (simp add: clock_frame_def)
  then obtain e t where t: "trap timer_tf 0 0 s = Some (RunEnv e, t)"
    using clock_step[OF s(1) _ one_NENV s(2)] by blast
  obtain u where u: "trap brkpt_tf 0 0 demo_user = Some (InMonitor, u)" using demo_brkpt by blast
  have "envs_inv s" "\<not> panicked s" using s(1) by (simp_all add: runs_user_def)
  from trap_leaves_kernel_safely[OF t this] trap_leaves_kernel_safely[OF u demo_user_inv np] t u brkpt_tf_simps
  show ?thesis by auto
qed

section \<open>Permission to act on an environment\<close>

text \<open>C19: a call that checks permissions acts on a live environment whose identifier is the one
  given, and which is the caller or one of its children; otherwise it fails with
  \<open>-E_BAD_ENV\<close>.\<close>

theorem envid2env_checks_permission:
  assumes "envid2env eid True s = Some (r, e)" and "envs_inv s" and "curenv s = Some c"
  shows "(r = - E_BAD_ENV \<and> e = None) \<or> (r = 0 \<and> (\<exists>i < NENV. e = Some i
     \<and> env_status (envs s ! i) \<noteq> ENV_FREE \<and> (eid = 0 \<or> env_id (envs s ! i) = eid)
     \<and> (i = c \<or> env_parent_id (envs s ! i) = env_id (envs s ! c))))"
  using envid2env_result[OF assms(1,2)] cur_live[OF assms(2,3)] ENVX_less[of eid] assms(3) by auto

lemma demo_envid2env: "envid2env 0x1000 True demo = Some (0, Some 0)"
proof -
  have "ENVX 0x1000 = 0" by (simp add: ENVX_arith)
  then show ?thesis by (simp add: envid2env_def env_at_def demo_envs_nth NENV_def demo_env_def)
qed

theorem envid2env_checks_permission_witness:
  "((0 :: int) = - E_BAD_ENV \<and> Some (0 :: nat) = None) \<or> ((0 :: int) = 0 \<and> (\<exists>i < NENV. Some 0 = Some i
     \<and> env_status (envs demo ! i) \<noteq> ENV_FREE \<and> ((0x1000 :: u32) = 0 \<or> env_id (envs demo ! i) = 0x1000)
     \<and> (i = 0 \<or> env_parent_id (envs demo ! i) = env_id (envs demo ! 0))))"
  by (rule envid2env_checks_permission[OF demo_envid2env demo_envs_inv]) simp

section \<open>Creating and controlling environments\<close>

text \<open>C20: \<open>sys_exofork\<close> creates a child of the caller that is not runnable, whose registers are
  the caller's except that \<open>eax\<close> is 0, and returns its positive identifier; every other environment is
  unchanged.\<close>

theorem sys_exofork_child:
  assumes x: "sys_exofork s = Some (Ret r, t)" and inv: "envs_inv s" and c: "curenv s = Some c" and ok: "r \<ge> 0"
  shows "\<exists>i. free_envs s = i # free_envs t \<and> r = sint (env_id (envs t ! i)) \<and> 0 < r
     \<and> env_status (envs t ! i) = ENV_NOT_RUNNABLE \<and> env_parent_id (envs t ! i) = env_id (envs s ! c)
     \<and> env_tf (envs t ! i) = (env_tf (envs s ! c))
          \<lparr>tf_regs := (tf_regs (env_tf (envs s ! c)))\<lparr>reg_eax := 0\<rparr>\<rparr>
     \<and> (\<forall>j. j \<noteq> i \<longrightarrow> envs t ! j = envs s ! j)"
proof -
  have core: "envs_core s" using inv by (simp add: envs_inv_def)
  have cl: "c < NENV" "length (envs s) = NENV" "env_status (envs s ! c) \<noteq> ENV_FREE"
    using cur_live[OF inv c] envs_coreD(1)[OF core] by auto
  have ce: "cur_env s = Some (c, envs s ! c)" using c cl by (simp add: cur_env_def env_at_def)
  from x ce obtain r1 e s1 where a: "env_alloc (env_id (envs s ! c)) s = Some ((r1, e), s1)"
    by (auto simp: sys_exofork_def bind_eq_Some_conv)
  have nn: "\<not> r1 < 0" using x ce a ok by (auto simp: sys_exofork_def)
  then obtain i where i: "r1 = 0" "e = Some i" using env_alloc_result[OF a core] by auto
  note A = env_alloc_core[OF a[unfolded i] core]
  have ci: "c \<noteq> i" using cl(3) envs_coreD(4)[OF core A(3)] A(2) by auto
  have l1: "length (envs s1) = NENV" using envs_coreD(1)[OF A(1)] .
  have ce1: "cur_env s1 = Some (c, envs s ! c)"
    using ctl_partD(1)[OF A(6)] c cl l1 A(7) ci by (simp add: cur_env_def env_at_def)
  let ?e = "(envs s1 ! i)\<lparr>env_status := ENV_NOT_RUNNABLE,
              env_tf := (env_tf (envs s ! c))\<lparr>tf_regs := (tf_regs (env_tf (envs s ! c)))\<lparr>reg_eax := 0\<rparr>\<rparr>\<rparr>"
  have rt: "t = set_env i ?e s1" "r = sint (env_id (envs s1 ! i))"
    using x ce a i ce1 A(3) l1
    by (auto simp: sys_exofork_def upd_env_def env_at_def set_env_def)
  have n: "envs t ! j = (if j = i then ?e else envs s ! j)" for j
    using rt(1) A(3,7) l1 by (simp add: nth_update_if)
  have fr: "free_envs t = free_envs s1" unfolding rt(1)
    by (rule envs_core_set_env(2)[OF A(1)]) (use A(4) in auto)
  obtain g where "0 < g" "g < 524288" "env_id (envs s1 ! i) = mk_id g i"
    using envs_coreD(5)[OF A(1,3)] A(4) by (auto simp: env_entry_ok_def)
  then have "0 < r" using mk_id_pos A(3) rt(2) by (simp add: NENV_def)
  then show ?thesis using n fr A(2,9) rt(2) by auto
qed

lemma demo_exofork: "\<exists>r t. sys_exofork demo = Some (Ret r, t) \<and> r \<ge> 0"
proof -
  have core: "envs_core demo" using demo_envs_inv by (simp add: envs_inv_def)
  have av: "free_envs demo = 1 # [Suc 1..<NENV]"
    unfolding demo_free_envs by (rule upt_conv_Cons) (simp add: NENV_def)
  obtain u where a: "env_alloc 0x1000 demo = Some ((0, Some 1), u)"
    using env_alloc_succeeds[OF core demo_pages_inv av] by (auto simp: demo_free_pages)
  note A = env_alloc_core[OF a core]
  have cu: "cur_env demo = Some (0, demo_env)" by (simp add: cur_env_def env_at_def demo_envs_nth NENV_def)
  have l: "length (envs u) = NENV" using envs_coreD(1)[OF A(1)] .
  have cu1: "\<exists>e. cur_env u = Some (0, e)"
    using ctl_partD(1)[OF A(6)] l by (simp add: cur_env_def env_at_def NENV_def)
  obtain g where "0 < g" "g < 524288" "env_id (envs u ! 1) = mk_id g 1"
    using envs_coreD(5)[OF A(1,3)] A(4) by (auto simp: env_entry_ok_def)
  then have "0 \<le> sint (env_id (envs u ! 1))" using mk_id_pos[of g 1] by simp
  then show ?thesis using a cu cu1 l
    by (auto simp: sys_exofork_def upd_env_def env_at_def NENV_def demo_env_def)
qed

theorem sys_exofork_child_witness:
  "\<exists>r t i. sys_exofork demo = Some (Ret r, t) \<and> free_envs demo = i # free_envs t \<and> 0 < r
     \<and> env_status (envs t ! i) = ENV_NOT_RUNNABLE"
proof -
  obtain r t where t: "sys_exofork demo = Some (Ret r, t)" "r \<ge> 0" using demo_exofork by blast
  have "curenv demo = Some 0" by simp
  from sys_exofork_child[OF t(1) demo_envs_inv this t(2)] t show ?thesis by blast
qed

text \<open>C22: whatever frame the caller supplies, after a successful \<open>sys_env_set_trapframe\<close> the
  environment resumes at privilege level 3, with interrupts enabled and without I/O privilege.\<close>

theorem sys_env_set_trapframe_user_mode:
  assumes x: "sys_env_set_trapframe eid tf s = Some (Ret 0, t)" and e: "envid2env eid True s = Some (0, Some i)"
  shows "tf_cs (env_tf (envs t ! i)) AND 3 = 3 \<and> tf_ds (env_tf (envs t ! i)) AND 3 = 3
     \<and> tf_es (env_tf (envs t ! i)) AND 3 = 3 \<and> tf_ss (env_tf (envs t ! i)) AND 3 = 3
     \<and> tf_eflags (env_tf (envs t ! i)) AND FL_IF = FL_IF \<and> tf_eflags (env_tf (envs t ! i)) AND FL_IOPL_3 = 0"
proof -
  have o3: "(x OR 3) AND 3 = (3 :: u16)" for x by (simp add: bit.conj_disj_distrib2)
  have fl: "((x OR FL_IF) AND NOT FL_IOPL_3) AND FL_IF = FL_IF"
    "((x OR FL_IF) AND NOT FL_IOPL_3) AND FL_IOPL_3 = 0" for x :: u32
    by (simp_all add: FL_IF_def FL_IOPL_3_def and.assoc bit.conj_disj_distrib2 bit.conj_disj_distrib)
  from x e obtain ws where "upd_env i (\<lambda>ent. ent\<lparr>env_tf := user_tf (tf_of_words ws)\<rparr>) s = Some t"
    by (auto simp: sys_env_set_trapframe_def err_consts bind_eq_Some_conv split: if_splits)
  then have "env_tf (envs t ! i) = user_tf (tf_of_words ws)"
    by (auto simp: upd_env_def env_at_def bind_eq_Some_conv split: if_splits)
  then show ?thesis using o3 fl by (simp add: user_tf_def)
qed

theorem sys_env_set_trapframe_user_mode_witness:
  "\<exists>t. sys_env_set_trapframe 0x1000 0x800000 demo = Some (Ret 0, t)
     \<and> tf_cs (env_tf (envs t ! 0)) AND 3 = 3 \<and> tf_ds (env_tf (envs t ! 0)) AND 3 = 3
     \<and> tf_es (env_tf (envs t ! 0)) AND 3 = 3 \<and> tf_ss (env_tf (envs t ! 0)) AND 3 = 3
     \<and> tf_eflags (env_tf (envs t ! 0)) AND FL_IF = FL_IF \<and> tf_eflags (env_tf (envs t ! 0)) AND FL_IOPL_3 = 0"
proof -
  have "load_words demo 2 0x800000 17 = Some (replicate 17 0)" using demo_load_words[of 0 17] by simp
  then obtain t where t: "sys_env_set_trapframe 0x1000 0x800000 demo = Some (Ret 0, t)"
    by (auto simp: sys_env_set_trapframe_def demo_envid2env UTOP_def upd_env_def env_at_def demo_envs_nth NENV_def)
  from sys_env_set_trapframe_user_mode[OF t demo_envid2env] t show ?thesis by blast
qed

section \<open>Interprocess communication\<close>

text \<open>A value sent without a page to an environment that is receiving wakes it up with the
  sender's identifier and the value; nothing else changes.  The permission is stored as given,
  even though no page is transferred.\<close>

theorem sys_ipc_try_send_value:
  assumes inv: "envs_inv s" and c: "curenv s = Some c" and e: "envid2env eid False s = Some (0, Some i)"
    and rc: "env_ipc_recving (envs s ! i)" and va: "srcva \<ge> UTOP"
  shows "sys_ipc_try_send eid val srcva perm s =
    Some (Ret 0, set_env i ((envs s ! i)\<lparr>env_ipc_recving := False, env_ipc_from := env_id (envs s ! c),
        env_ipc_value := val, env_ipc_perm := perm, env_status := ENV_RUNNABLE\<rparr>) s)"
proof -
  have l: "length (envs s) = NENV" using inv envs_coreD(1) by (simp add: envs_inv_def)
  have i: "i < length (envs s)" using envid2env_live(2)[OF e inv] l by simp
  have c': "c < length (envs s)" using cur_live[OF inv c] l by simp
  have "\<not> srcva < UTOP" using va by simp
  then show ?thesis using e rc i c c'
    by (simp add: sys_ipc_try_send_def env_at_def upd_env_def cur_env_def nth_update_if set_env_def)
qed

definition demo_recv :: kst where
  "demo_recv = set_env 0 (demo_env\<lparr>env_ipc_recving := True\<rparr>) demo"

theorem sys_ipc_try_send_value_witness:
  "sys_ipc_try_send 0x1000 7 0xF0000000 6 demo_recv =
    Some (Ret 0, set_env 0 ((envs demo_recv ! 0)\<lparr>env_ipc_recving := False, env_ipc_from := 0x1000,
        env_ipc_value := 7, env_ipc_perm := 6, env_status := ENV_RUNNABLE\<rparr>) demo_recv)"
proof -
  have core: "envs_core demo" using demo_envs_inv by (simp add: envs_inv_def)
  have z: "0 < NENV" by (simp add: NENV_def)
  have l: "length (envs demo) = NENV" using envs_coreD(1)[OF core] .
  have n0: "envs demo ! 0 = demo_env" by (simp add: demo_envs_nth NENV_def)
  have "envs_core demo_recv" unfolding demo_recv_def
    by (rule envs_core_set_env(1)[OF core]; unfold n0) (simp_all add: demo_env_def)
  then have inv: "envs_inv demo_recv"
    using demo_envs_inv l z by (auto simp: envs_inv_def cur_ok_def demo_recv_def set_env_def demo_env_def)
  have c: "curenv demo_recv = Some 0" by (simp add: demo_recv_def set_env_def)
  have n: "envs demo_recv ! 0 = demo_env\<lparr>env_ipc_recving := True\<rparr>"
    using l z by (simp add: demo_recv_def set_env_def)
  have "ENVX 0x1000 = 0" by (simp add: ENVX_arith)
  then have e: "envid2env 0x1000 False demo_recv = Some (0, Some 0)"
    using n l z by (simp add: envid2env_def env_at_def demo_env_def demo_recv_def set_env_def)
  from sys_ipc_try_send_value[OF inv c e, where val = 7 and srcva = "0xF0000000" and perm = 6]
  show ?thesis by (simp add: n UTOP_def demo_env_def)
qed

end
