(* ===== verification/ConProps.thy ===== *)
theory ConProps
  imports Console
begin

text \<open>
  The properties of the console driver (\<open>kern/console.c\<close>): the order of the input, what an overrun of
  the input buffer loses, and that the display code stays inside the display memory.
\<close>

text \<open>Reading \<open>n\<close> characters one after the other.\<close>

primrec cons_getcs :: "nat \<Rightarrow> console \<Rightarrow> (u8 list \<times> console) option" where
  "cons_getcs 0 cs = Some ([], cs)"
| "cons_getcs (Suc n) cs = do {
     (c, cs) \<leftarrow> cons_getc cs;
     (r, cs) \<leftarrow> cons_getcs n cs;
     Some (c # r, cs)
   }"

text \<open>What the reader has still to see: the buffer, then what the serial port holds.\<close>

definition pending :: "console \<Rightarrow> u8 list" where
  "pending cs = cons_contents cs @ filter (\<lambda>b. b \<noteq> 0) (serial_in cs)"

lemma fold_cons_store_frame:
  "serial_in (fold cons_store xs cs) = serial_in cs \<and> kbd_in (fold cons_store xs cs) = kbd_in cs
   \<and> serial_exists (fold cons_store xs cs) = serial_exists cs"
  by (induction xs arbitrary: cs) (simp_all add: cons_store_eq)

lemma kbd_intr_idle: "kbd_in cs = [] \<Longrightarrow> kbd_intr cs = Some cs"
  unfolding kbd_intr_def by (subst cons_intr.simps) (simp add: kbd_proc_data_def)

lemma cons_getc_serial:
  assumes "serial_exists cs" "kbd_in cs = []"
  shows "cons_getc cs = Some (cons_take (fold cons_store (filter (\<lambda>b. b \<noteq> 0) (serial_in cs)) (cs\<lparr>serial_in := []\<rparr>)))"
  using assms fold_cons_store_frame
  by (simp add: cons_getc_def serial_intr_def cons_intr_serial kbd_intr_idle)

lemma fold_pending:
  assumes "cons_inv cs" "length (pending cs) < CONSBUFSIZE"
  shows "cons_inv (fold cons_store (filter (\<lambda>b. b \<noteq> 0) (serial_in cs)) (cs\<lparr>serial_in := []\<rparr>))
    \<and> cons_contents (fold cons_store (filter (\<lambda>b. b \<noteq> 0) (serial_in cs)) (cs\<lparr>serial_in := []\<rparr>)) = pending cs"
proof -
  have "cons_inv (cs\<lparr>serial_in := []\<rparr>)" "cons_contents (cs\<lparr>serial_in := []\<rparr>) = cons_contents cs"
    using assms(1) by (simp_all add: cons_inv_def cons_contents_def cons_count_def)
  then show ?thesis
    using cq.puts_contents[of "cs\<lparr>serial_in := []\<rparr>" "filter (\<lambda>b. b \<noteq> 0) (serial_in cs)"] assms(2)
    by (simp add: fold_cons_store pending_def)
qed

lemma cons_take_Cons:
  assumes "cons_inv u" "cons_contents u = x # xs"
  shows "\<exists>t. cons_take u = (x, t) \<and> cons_inv t \<and> cons_contents t = xs
     \<and> serial_in t = serial_in u \<and> kbd_in t = kbd_in u \<and> serial_exists t = serial_exists u"
proof -
  from cq.get_Cons[OF assms] obtain t where t: "cons_read1 u = Some (x, t)" "cons_inv t" "cons_contents t = xs"
    by blast
  then have ne: "crpos u \<noteq> cwpos u" by (auto simp: cons_read1_def)
  then show ?thesis using t by (simp add: cons_read1_def cons_take_eq) auto
qed

section \<open>Input\<close>

text \<open>C25: with a serial port and nothing from the keyboard, the nonzero bytes that the serial port has received come out of
  \<open>cons_getc\<close> in the order of arrival, behind those that were in the buffer, none lost and none
  invented, provided they fit in the 511 usable places of the buffer.  (\<open>cons_intr\<close> drops zero bytes.)\<close>

theorem serial_input_in_order:
  assumes "cons_inv cs" and "serial_exists cs" and "kbd_in cs = []" and "length (pending cs) < CONSBUFSIZE"
  shows "\<exists>t. cons_getcs (length (pending cs)) cs = Some (pending cs, t) \<and> cons_inv t \<and> pending t = []"
  using assms
proof (induction "pending cs" arbitrary: cs)
  case Nil
  then show ?case by (metis cons_getcs.simps(1) list.size(3))
next
  case (Cons x xs)
  let ?u = "fold cons_store (filter (\<lambda>b. b \<noteq> 0) (serial_in cs)) (cs\<lparr>serial_in := []\<rparr>)"
  have u: "cons_inv ?u" "cons_contents ?u = x # xs"
    using fold_pending[OF Cons.prems(1,4)] Cons.hyps(2) by simp_all
  from cons_take_Cons[OF u] obtain t where t: "cons_take ?u = (x, t)" "cons_inv t" "cons_contents t = xs"
    "serial_in t = []" "kbd_in t = []" "serial_exists t"
    using fold_cons_store_frame Cons.prems(2,3) by auto
  have p: "pending t = xs" using t by (simp add: pending_def)
  have "length (pending t) < CONSBUFSIZE" using Cons.prems(4) Cons.hyps(2)[symmetric] p by simp
  from Cons.hyps(1)[OF p[symmetric] t(2,6,5) this] obtain t2 where
    "cons_getcs (length xs) t = Some (xs, t2)" "cons_inv t2" "pending t2 = []" using p by auto
  then show ?case
    using cons_getc_serial[OF Cons.prems(2,3)] t(1) by (simp add: Cons.hyps(2)[symmetric])
qed

definition demo_console :: console where
  "demo_console = \<lparr>cbuf = replicate CONSBUFSIZE 0, crpos = 0, cwpos = 0, kbd_shift = 0, kbd_in = [],
     serial_exists = True, serial_in = [104, 0, 105], serial_out = [], lpt_out = [],
     crt_buf = replicate CRT_SIZE 0, crt_pos = 0, crt_cursor = 0, rebooted = False\<rparr>"

lemma demo_console_inv: "cons_inv demo_console" "cons_contents demo_console = []" "crt_inv demo_console"
  by (simp_all add: cons_inv_def cons_contents_def cons_count_def demo_console_def CONSBUFSIZE_def crt_inv_def CRT_SIZE_def)

theorem serial_input_in_order_witness:
  "\<exists>t. cons_getcs 2 demo_console = Some ([104, 105], t) \<and> cons_inv t \<and> pending t = []"
proof -
  have p: "pending demo_console = [104, 105]" by (simp add: pending_def demo_console_inv) (simp add: demo_console_def)
  have "serial_exists demo_console" "kbd_in demo_console = []" "length (pending demo_console) < CONSBUFSIZE"
    by (simp_all add: p CONSBUFSIZE_def) (simp_all add: demo_console_def)
  from serial_input_in_order[OF demo_console_inv(1) this] show ?thesis by (simp add: p numeral_2_eq_2)
qed

text \<open>\<open>cons_intr\<close> does not look at the reader's position.  When 512 characters arrive before
  the first is read, the writer comes round to the reader and the buffer reads as empty: all 512 are
  lost and \<open>cons_getc\<close> returns 0.\<close>

theorem cons_overrun_loses_buffer:
  assumes "cons_inv cs" and "serial_exists cs" and "kbd_in cs = []" and "length (pending cs) = CONSBUFSIZE"
  shows "\<exists>t. cons_getc cs = Some (0, t) \<and> cons_inv t \<and> pending t = []"
proof -
  let ?z = "cs\<lparr>serial_in := []\<rparr>"
  have z: "cons_inv ?z" "cons_contents ?z = cons_contents cs"
    using assms(1) by (simp_all add: cons_inv_def cons_contents_def cons_count_def)
  have "length (cons_contents cs) < CONSBUFSIZE" using cons_count_less[OF assms(1)] by (simp add: cons_contents_def)
  then have "filter (\<lambda>b. b \<noteq> 0) (serial_in cs) \<noteq> []" using assms(4) by (auto simp: pending_def)
  then obtain bs b where fl: "filter (\<lambda>b. b \<noteq> 0) (serial_in cs) = bs @ [b]" by (meson rev_exhaust)
  let ?w = "fold cons_store bs ?z"
  have "length (cons_contents cs) + length bs = CONSBUFSIZE - 1" using assms(4) fl by (simp add: pending_def)
  then have w: "cons_inv ?w" "length (cons_contents ?w) = CONSBUFSIZE - 1"
    using cq.puts_contents[OF z(1), of bs] z(2) by (simp_all add: fold_cons_store)
  have e: "cons_contents (cons_store b ?w) = []" "cons_inv (cons_store b ?w)"
    using cons_overrun[OF w] cons_store_inv[OF w(1)] by auto
  have "cons_read1 (cons_store b ?w) = None" using cq.get_empty[OF e(2,1)] .
  then have "cons_take (cons_store b ?w) = (0, cons_store b ?w)"
    by (simp add: cons_read1_def cons_take_def split: if_splits)
  then show ?thesis using e cons_getc_serial[OF assms(2,3)] fold_cons_store_frame[of bs ?z]
    by (simp add: fl pending_def) (simp add: cons_store_eq)
qed

theorem cons_overrun_loses_buffer_witness:
  "\<exists>t. cons_getc (demo_console\<lparr>serial_in := replicate CONSBUFSIZE 65\<rparr>) = Some (0, t) \<and> cons_inv t \<and> pending t = []"
proof (rule cons_overrun_loses_buffer)
  let ?d = "demo_console\<lparr>serial_in := replicate CONSBUFSIZE 65\<rparr>"
  show "cons_inv ?d" using demo_console_inv(1) by (simp add: cons_inv_def)
  show "serial_exists ?d" "kbd_in ?d = []" by (simp_all add: demo_console_def)
  have "cons_contents ?d = []" by (simp add: cons_contents_def cons_count_def demo_console_def)
  then show "length (pending ?d) = CONSBUFSIZE" by (simp add: pending_def)
qed

section \<open>Output\<close>

text \<open>C26: printing any sequence of characters, whatever \<open>int\<close> is passed for each, keeps the cursor on the screen and never writes outside the 2000
  cells of the display memory (the model has no value for such a write).\<close>

theorem cputs_stays_on_screen:
  assumes "crt_inv cs"
  shows "\<exists>t. cputs str cs = Some t \<and> length (crt_buf t) = CRT_SIZE \<and> unat (crt_pos t) < CRT_SIZE"
  using cputs_inv[OF assms, of str] by (auto simp: crt_inv_def)

theorem cputs_stays_on_screen_witness:
  "\<exists>t. cputs [9, 10, 8, 0xFFFFFFE9] demo_console = Some t \<and> length (crt_buf t) = CRT_SIZE \<and> unat (crt_pos t) < CRT_SIZE"
  by (rule cputs_stays_on_screen[OF demo_console_inv(3)])

end
