(* ===== verification/Printf.thy ===== *)
theory Printf
  imports FmtProps Console
begin

text \<open>
  The two implementations of \<open>cprintf\<close> over \<open>vprintfmt\<close>: the kernel's (\<open>kern/printf.c\<close>), which prints
  each character on the console, and the user library's (\<open>lib/printf.c\<close>), which collects characters in
  a buffer and prints them with \<open>sys_cputs\<close>.  A function on the variable arguments (\<open>cprintf\<close>) passes
  them on to the one on the argument list (\<open>vcprintf\<close>).
\<close>

section \<open>In the kernel\<close>

text \<open>The state: the memory that holds the format, the console, and the characters printed.\<close>

definition cputchar :: "u32 \<Rightarrow> console \<Rightarrow> console option" where
  "cputchar c cs = cons_putc c cs"

definition kern_putch :: "u32 \<Rightarrow> mem \<times> console \<times> u32 \<Rightarrow> (mem \<times> console \<times> u32) option" where
  "kern_putch ch s = (case s of (m, cs, cnt) \<Rightarrow> do { cs \<leftarrow> cputchar ch cs; Some (m, cs, cnt + 1) })"

definition kern_vcprintf :: "u32 \<Rightarrow> u32 list \<Rightarrow> mem \<Rightarrow> console \<Rightarrow> (int \<times> console) option" where
  "kern_vcprintf fmt ap m cs = do {
     (_, cs, cnt) \<leftarrow> vprintfmt kern_putch (\<lambda>a s. ld a (fst s)) fmt ap (m, cs, 0);
     Some (sint cnt, cs)
   }"

definition kern_cprintf :: "u32 \<Rightarrow> u32 list \<Rightarrow> mem \<Rightarrow> console \<Rightarrow> (int \<times> console) option" where
  "kern_cprintf fmt ap m cs = do { (cnt, cs) \<leftarrow> kern_vcprintf fmt ap m cs; Some (cnt, cs) }"

section \<open>In a user program\<close>

record printbuf =
  pb_idx :: nat
  pb_cnt :: u32
  pb_buf :: "u8 list"

text \<open>A program's memory, its buffer, and the strings it has passed to \<open>sys_cputs\<close>.\<close>

record ucons =
  uc_mem :: mem
  uc_pb :: printbuf
  uc_out :: "u8 list list"

definition user_cputs :: "ucons \<Rightarrow> ucons" where
  "user_cputs s = s\<lparr>uc_out := uc_out s @ [take (pb_idx (uc_pb s)) (pb_buf (uc_pb s))]\<rparr>"

definition user_putch :: "u32 \<Rightarrow> ucons \<Rightarrow> ucons option" where
  "user_putch ch s =
     (let b = uc_pb s in
      if length (pb_buf b) \<le> pb_idx b then None
      else
        let s = s\<lparr>uc_pb := b\<lparr>pb_buf := (pb_buf b)[pb_idx b := ucast ch], pb_idx := pb_idx b + 1\<rparr>\<rparr>;
            s = (if pb_idx (uc_pb s) = 256 - 1
                 then (user_cputs s)\<lparr>uc_pb := (uc_pb s)\<lparr>pb_idx := 0\<rparr>\<rparr> else s)
        in Some (s\<lparr>uc_pb := (uc_pb s)\<lparr>pb_cnt := pb_cnt (uc_pb s) + 1\<rparr>\<rparr>))"

text \<open>\<open>buf\<close> is what the stack holds where the buffer is allocated.\<close>

definition user_vcprintf :: "u8 list \<Rightarrow> u32 \<Rightarrow> u32 list \<Rightarrow> ucons \<Rightarrow> (int \<times> ucons) option" where
  "user_vcprintf buf fmt ap s = do {
     s \<leftarrow> vprintfmt user_putch (\<lambda>a s. ld a (uc_mem s)) fmt ap (s\<lparr>uc_pb := \<lparr>pb_idx = 0, pb_cnt = 0, pb_buf = buf\<rparr>\<rparr>);
     Some (sint (pb_cnt (uc_pb s)), user_cputs s)
   }"

definition user_cprintf :: "u8 list \<Rightarrow> u32 \<Rightarrow> u32 list \<Rightarrow> ucons \<Rightarrow> (int \<times> ucons) option" where
  "user_cprintf buf fmt ap s = do { (cnt, s) \<leftarrow> user_vcprintf buf fmt ap s; Some (cnt, s) }"

section \<open>Nothing is lost in the buffer\<close>

definition pb_inv :: "ucons \<Rightarrow> bool" where
  "pb_inv s \<longleftrightarrow> length (pb_buf (uc_pb s)) = 256 \<and> pb_idx (uc_pb s) < 255 \<and> (\<forall>c \<in> set (uc_out s). length c \<le> 255)"

text \<open>What has been printed so far, in \<open>sys_cputs\<close> or still in the buffer.\<close>

definition printed :: "ucons \<Rightarrow> u8 list" where
  "printed s = concat (uc_out s) @ take (pb_idx (uc_pb s)) (pb_buf (uc_pb s))"

lemma user_putch_prints:
  assumes "pb_inv s"
  shows "\<exists>t. user_putch ch s = Some t \<and> pb_inv t \<and> printed t = printed s @ [ucast ch]
     \<and> pb_cnt (uc_pb t) = pb_cnt (uc_pb s) + 1"
proof -
  define i where "i = pb_idx (uc_pb s)"
  define b where "b = pb_buf (uc_pb s)"
  have len: "length b = 256" "i < 255" using assms by (auto simp: pb_inv_def i_def b_def)
  then have "take (Suc i) (b[i := x]) = take i b @ [x]" for x
    by (simp add: take_Suc_conv_app_nth)
  then show ?thesis using assms len
    by (auto simp: user_putch_def user_cputs_def pb_inv_def printed_def Let_def i_def[symmetric] b_def[symmetric])
qed

lemma foldM_user_putch:
  "pb_inv s \<Longrightarrow> \<exists>t. foldM user_putch xs s = Some t \<and> pb_inv t \<and> printed t = printed s @ map ucast xs
     \<and> pb_cnt (uc_pb t) = pb_cnt (uc_pb s) + word_of_nat (length xs)"
proof (induction xs arbitrary: s)
  case (Cons x xs)
  from user_putch_prints[OF Cons.prems] obtain t where
    t: "user_putch x s = Some t" "pb_inv t" "printed t = printed s @ [ucast x]" "pb_cnt (uc_pb t) = pb_cnt (uc_pb s) + 1"
    by blast
  from Cons.IH[OF t(2)] show ?case using t by (auto simp: add.assoc)
qed simp

text \<open>The user's \<open>cprintf\<close> prints exactly the characters of the format, in order, in system
  calls of at most 255 characters, and returns their number.\<close>

lemma user_vcprintf_prints:
  assumes "length buf = 256" and "uc_out s = []" and "user_vcprintf buf fmt ap s = Some (r, t)"
  shows "\<exists>xs. foldM user_putch xs (s\<lparr>uc_pb := \<lparr>pb_idx = 0, pb_cnt = 0, pb_buf = buf\<rparr>\<rparr>) \<noteq> None
     \<and> concat (uc_out t) = map ucast xs \<and> r = sint (word_of_nat (length xs) :: u32)
     \<and> (\<forall>c \<in> set (uc_out t). length c \<le> 255)"
proof -
  define s0 where "s0 = s\<lparr>uc_pb := \<lparr>pb_idx = 0, pb_cnt = 0, pb_buf = buf\<rparr>\<rparr>"
  have inv: "pb_inv s0" "printed s0 = []" "pb_cnt (uc_pb s0) = 0" using assms(1,2) by (simp_all add: s0_def pb_inv_def printed_def)
  obtain u where u: "vprintfmt user_putch (\<lambda>a s. ld a (uc_mem s)) fmt ap s0 = Some u"
    and t: "t = user_cputs u" "r = sint (pb_cnt (uc_pb u))"
    using assms(3) by (auto simp: user_vcprintf_def bind_eq_Some_conv s0_def)
  from vprintfmt_emits[OF u] obtain xs where xs: "foldM user_putch xs s0 = Some u" by blast
  with foldM_user_putch[OF inv(1), of xs] have "pb_inv u" "printed u = map ucast xs" "pb_cnt (uc_pb u) = word_of_nat (length xs)"
    by (auto simp: inv(2,3))
  then show ?thesis using xs t
    by (intro exI[of _ xs]) (auto simp: s0_def[symmetric] user_cputs_def printed_def pb_inv_def)
qed

end
