(* ===== verification/Spec2Isabelle.thy ===== *)
theory Spec2Isabelle
  imports FsCache FsProps SpawnStack SpawnMap TrapMon ShellLine Lapic Mpconfig FsImage FsFmtProps FsFormat ShellExec ShProps JosSh Fprintf Args SpawnProps Spawn FsClInv FsClProps FsClient Shell Monitor Boot Kdebug FdProps Fd Pipe ForkProps PmapTwo Fork Ulib Spinlock MemProps EnvProps SysProps ConProps Segments HwMem FsRwProps FsServ Printf
begin

text \<open>
  This library verifies JOS, the teaching operating system under \<open>src/TPJOS\<close>: a 32-bit x86 exokernel
  (\<open>kern\<close>), a file server that runs as an ordinary environment (\<open>fs\<close>), and the C library that the
  programs link against (\<open>lib\<close>).  All of it is C; a definition here is named after the C function,
  type or constant it translates.

  \<^bold>\<open>Conventions.\<close>  \<open>int\<close>, \<open>unsigned\<close>, pointers and table entries are 32-bit words, with wrap-around.  A
  function that may panic, dereference a bad pointer or loop for ever has an option type: \<open>None\<close> is the
  panic, the fault or the endless loop.  An error code is the negative integer of the source.  State is
  passed explicitly, in one record per component.  Structures that the source links by pointers into an
  array (the free lists of pages and of environments) are linked by indices.  A loop that need not end
  is a \<open>partial_function\<close>; the theorems about it say that it returns.

  \<^bold>\<open>The kernel.\<close>  \<open>Mmu\<close> has the constants and address arithmetic of \<open>inc/mmu.h\<close> and \<open>inc/memlayout.h\<close>;
  \<open>KState\<close> the kernel's state, physical memory by frames included.  \<open>Pmap\<close> is \<open>kern/pmap.c\<close>: the page
  allocator, the two-level page tables, \<open>user_mem_check\<close>; \<open>PmapAlloc\<close> and \<open>PmapTables\<close> prove the
  invariants of the free list and of the tables, \<open>UserMem\<close> what the check grants, \<open>HwMem\<close> what the
  hardware then makes of the tables.  \<open>EnvTab\<close> is \<open>kern/env.c\<close> and \<open>kern/sched.c\<close>: environments, their
  identifiers, loading a program, the scheduler; \<open>EnvIds\<close>, \<open>EnvFrame\<close>, \<open>EnvInv\<close> and \<open>SchedInv\<close> hold its
  invariants.  \<open>Syscall\<close> is \<open>kern/syscall.c\<close>, \<open>Segments\<close> and \<open>Trap\<close> are \<open>kern/trap.c\<close>; \<open>SysInv\<close> proves
  that every system call and trap keeps the invariants, and \<open>TrapMon\<close> when one ends in the kernel monitor.  \<open>Console\<close> is \<open>kern/console.c\<close>, over the interface
  \<open>fifo\<close> of \<open>Fifo\<close>.  \<open>Spinlock\<close> is \<open>kern/spinlock.c\<close>, at every memory access; it refines the lock
  that \<open>EnvTab\<close> takes in one step.  \<open>Demo\<close> is a small concrete kernel for the witnesses.  \<open>Kdebug\<close> is
  \<open>kern/kdebug.c\<close>, \<open>Monitor\<close> the command line of \<open>kern/monitor.c\<close> with \<open>lib/readline.c\<close>, \<open>Boot\<close> the boot
  loader \<open>boot/main.c\<close> and the first page directory.  \<open>Mpconfig\<close> is \<open>kern/mpconfig.c\<close>, the search for the other
  processors in the tables of the BIOS; \<open>Lapic\<close> has the interrupt controllers (\<open>kern/lapic.c\<close>, \<open>kern/picirq.c\<close>), seen
  through what is written to their registers, and the start of the other processors in \<open>kern/init.c\<close>.

  \<^bold>\<open>The file server.\<close>  \<open>FsDisk\<close> has the disk (\<open>fs/ide.c\<close>) and the block cache (\<open>fs/bc.c\<close>) that pages
  blocks in on a fault; \<open>FsFile\<close> and \<open>FsOps\<close> are \<open>fs/fs.c\<close>, \<open>FsServ\<close> is \<open>fs/serv.c\<close>.  \<open>FsView\<close> proves that
  the cache is transparent: the server sees one disk image, whatever is in memory.  \<open>FsLive\<close> proves that
  accesses return when the drive answers, \<open>FsCache\<close> that loads, stores and write-backs in any order are those of flat memory, \<open>FsIo\<close> that reads and writes of a file do.  \<open>FsFormat\<close> is the program
  \<open>fs/fsformat.c\<close> that builds a disk image on the host; \<open>FsFmtProps\<close> proves what it writes, and \<open>FsImage\<close> that
  the server finds in it a file system with the files it was given.  \<open>FsClient\<close> is the client side, \<open>lib/file.c\<close>: a
  call is one round of a request to the server and its reply, the server being the model of \<open>FsServ\<close>.
  \<open>FsClProps\<close> proves what a program reads and writes through descriptors, \<open>FsClInv\<close> that its descriptors stay
  valid whatever it calls, \<open>dup\<close> included.

  \<^bold>\<open>The library.\<close>  \<open>Cmem\<close> is memory as a partial map, so that a function proved to return touches only
  mapped bytes; \<open>Str\<close> is \<open>lib/string.c\<close>, \<open>Fmt\<close> is \<open>lib/printfmt.c\<close>, \<open>Printf\<close> the two \<open>cprintf\<close>.
  \<open>Ulib\<close> is what a program sees of the kernel: the system call stubs and its own page tables at \<open>UVPT\<close>.
  Over it are \<open>Fork\<close> (\<open>lib/fork.c\<close>, copy on write) and \<open>Fd\<close> (\<open>lib/fd.c\<close>, the setting up of pipes, the console
  device).  \<open>PmapTwo\<close> proves what a mapping in one address space leaves alone in another.  \<open>Pipe\<close> is the
  transfer of bytes in \<open>lib/pipe.c\<close>, reader and writer interleaved at every access.  \<open>Spawn\<close> is \<open>lib/spawn.c\<close>, loading
  a program into a child; \<open>SpawnProps\<close> proves what is stored for the child's stack, \<open>SpawnMap\<close> what mapping a new page does in one and in two address
  spaces, and \<open>SpawnStack\<close> what the child then finds through its own page tables.  \<open>Args\<close> is the parsing of
  options in \<open>lib/args.c\<close> and \<open>Fprintf\<close> the buffered printing of \<open>lib/fprintf.c\<close>.

  \<^bold>\<open>The user shell.\<close>  \<open>JosSh\<close> is \<open>user/sh.c\<close>, which cuts the line into tokens in place and runs them one after
  the other, over a record \<open>shops\<close> of the library calls it makes; \<open>ShProps\<close> proves that it interprets the tokens
  of a reference tokenizer, whatever these calls do.

  \<^bold>\<open>The Linux shell.\<close>  \<open>Shell\<close> is the parser of \<open>src/TPShell\<close>, with every access outside a block an error;
  \<open>ShellExec\<close> runs what it parses (\<open>exec.c\<close>, \<open>freecmd.c\<close>) as a tree of processes, each with its descriptors, the
  system being a record \<open>kern\<close> of what it grants; \<open>ShellLine\<close> has the line editor, the history and the built-ins.

  \<^bold>\<open>The properties\<close> stand in the theories named \<open>...Props\<close> and in \<open>SpawnStack\<close>, \<open>FsCache\<close>, \<open>Spinlock\<close>, \<open>Pipe\<close>, \<open>Kdebug\<close>, \<open>Mpconfig\<close>,
  \<open>Lapic\<close>, \<open>FsImage\<close>, \<open>FsClInv\<close>, \<open>ShellExec\<close> and \<open>ShellLine\<close>: the allocators hand out
  what is free and nothing else, page tables map what was asked for, the scheduler decides by the table and is fair to preempted programs, and every
  trap leaves the kernel in a good state, identifiers are not reused, system calls check what they
  promise, the other processors are found and started, the file cache is transparent, an image that was formatted
  is served as it was meant and files read back what was written, also through the descriptors of a program, the string library
  stays in its buffers and prints numbers that it reads back, the lock excludes, fork shares pages copy on
  write, a spawned program finds its arguments, a pipe delivers its bytes in order whatever the interleaving, and the
  two shells run what their command lines say.

  \<^bold>\<open>Bounds.\<close>  Fuel occurs in three places only.  \<open>walk\<close> follows a free list for as many steps as the
  array has entries, which a list without repetition cannot exceed.  \<open>caller_pcs\<close> and the loops over
  environments, page tables and descriptors count to the constant that the source names.

  \<^bold>\<open>Not modelled.\<close>  Assembly (entry, context switch, boot sector) appears only through its effect on
  the state, and so do the instruction wrappers of \<open>inc/x86.h\<close>.  Of the library, the blocking halves of \<open>lib/ipc.c\<close> are
  left out, as they yield in the middle of a call, and \<open>spawnl\<close>, which counts a variable argument list.  Messages
  and the printing of frames are left out throughout.  The user programs but the shell are tests and
  demonstrations of the interfaces verified here.  Of \<open>src/TPShell\<close> the terminal modes and the printing of the exit status
  are left out; \<open>src/TPFork\<close> is a set of exercises that are sequences of Linux calls.
\<close>

end
